(* ===== verification/Jin_Prelude.thy ===== *)
theory Jin_Prelude
  imports Main "HOL-Library.Sublist"
begin

text \<open>
  Shared vocabulary of the development: the names of the model's basic types, the generic facts
  on results, association lists and strings that the component theories use, and the collections
  of facts their proofs share.

  \<^item> A JavaScript \<open>Date\<close> is the integer it holds, milliseconds since the epoch
    (\<open>timestamp\<close>); every call of \<open>new Date()\<close> in the code is an argument of the model.
  \<^item> A UUID drawn by \<open>randomUUID()\<close> is an argument of the model too.
  \<^item> A JavaScript string is a \<^typ>\<open>string\<close>; its \<open>length\<close> counts the characters of the
    Latin-1 range, one UTF-16 code unit each.
  \<^item> A promise that rejects, or a \<open>throw\<close>, is the \<open>Inl\<close> side of a sum; the code's error
    classes are the constructors of \<open>jin_error\<close>.
\<close>

section \<open>Basic types\<close>

type_synonym timestamp = int
type_synonym uuid = string

text \<open>Facts that describe how an operation moves the state, used by the invariant proofs.\<close>

named_theorems frame_simps \<open>fields an operation leaves alone\<close>
named_theorems op_simps \<open>characteristic equations of the operations\<close>

section \<open>Results\<close>

text \<open>
  Sequencing of a fallible step with a state: an error carries the state it was raised in, because
  what has already been written to the database stays written.
\<close>

definition bind_result ::
  "('e + 'a) \<times> 's \<Rightarrow> ('a \<Rightarrow> 's \<Rightarrow> ('e + 'b) \<times> 's) \<Rightarrow> ('e + 'b) \<times> 's" where
  "bind_result r f = (case r of (Inl e, s) \<Rightarrow> (Inl e, s) | (Inr a, s) \<Rightarrow> f a s)"

lemma bind_result_simps [simp]:
  "bind_result (Inl e, s) f = (Inl e, s)"
  "bind_result (Inr a, s) f = f a s"
  by (simp_all add: bind_result_def)

lemma snd_bind_result [simp]: "snd (bind_result r (\<lambda>a s. (g a, s))) = snd r"
  by (cases r; cases "fst r") auto

lemma bind_result_Inr_iff:
  "bind_result r f = (Inr b, s') \<longleftrightarrow> (\<exists>a s. r = (Inr a, s) \<and> f a s = (Inr b, s'))"
  by (cases r; cases "fst r") auto

section \<open>Rows of a table\<close>

text \<open>
  A table with a primary key is a list of rows. The \<open>WHERE key = k\<close> of an UPDATE or DELETE
  addresses every row with that key; the primary-key constraint keeps the keys distinct.
\<close>

definition lookup_row :: "('r \<Rightarrow> 'k) \<Rightarrow> 'r list \<Rightarrow> 'k \<Rightarrow> 'r option" where
  "lookup_row key rows k = List.find (\<lambda>r. key r = k) rows"

definition update_rows :: "('r \<Rightarrow> bool) \<Rightarrow> ('r \<Rightarrow> 'r) \<Rightarrow> 'r list \<Rightarrow> 'r list" where
  "update_rows p f rows = map (\<lambda>r. if p r then f r else r) rows"

definition delete_rows :: "('r \<Rightarrow> bool) \<Rightarrow> 'r list \<Rightarrow> 'r list" where
  "delete_rows p rows = filter (\<lambda>r. \<not> p r) rows"

lemma lookup_row_None_iff [simp]:
  "lookup_row key rows k = None \<longleftrightarrow> k \<notin> key ` set rows"
  by (auto simp: lookup_row_def find_None_iff)

lemma lookup_row_SomeD:
  "lookup_row key rows k = Some r \<Longrightarrow> r \<in> set rows \<and> key r = k"
  by (auto simp: lookup_row_def find_Some_iff)

lemma lookup_row_Some_iff:
  assumes "distinct (map key rows)"
  shows "lookup_row key rows k = Some r \<longleftrightarrow> r \<in> set rows \<and> key r = k"
  using assms
  by (induction rows) (auto simp: lookup_row_def)

lemma lookup_row_Nil [simp]: "lookup_row key [] k = None"
  by (simp add: lookup_row_def)

lemma lookup_row_Cons [simp]:
  "lookup_row key (r # rows) k = (if key r = k then Some r else lookup_row key rows k)"
  by (simp add: lookup_row_def)

lemma map_key_update_rows [simp]:
  "(\<And>r. key (f r) = key r) \<Longrightarrow> map key (update_rows p f rows) = map key rows"
  by (induction rows) (auto simp: update_rows_def)

lemma lookup_row_update_rows:
  assumes "\<And>r. key (f r) = key r"
  shows "lookup_row key (update_rows p f rows) k =
    map_option (\<lambda>r. if p r then f r else r) (lookup_row key rows k)"
  by (induction rows) (auto simp: update_rows_def assms)

lemma lookup_row_delete_rows_other:
  assumes "\<And>r. p r \<Longrightarrow> key r \<noteq> k"
  shows "lookup_row key (delete_rows p rows) k = lookup_row key rows k"
  using assms by (induction rows) (auto simp: delete_rows_def)

lemma lookup_row_delete_rows:
  assumes "distinct (map key rows)"
  shows "lookup_row key (delete_rows p rows) k =
    (case lookup_row key rows k of None \<Rightarrow> None | Some r \<Rightarrow> if p r then None else Some r)"
  using assms
proof (induction rows)
  case (Cons a rows)
  then have "key a = k \<Longrightarrow> lookup_row key rows k = None" by simp
  with Cons show ?case by (auto simp: delete_rows_def simp del: lookup_row_None_iff)
qed (simp add: delete_rows_def)

lemma lookup_row_delete_rows_key [simp]:
  "lookup_row key (delete_rows (\<lambda>r. key r = k) rows) k = None"
  by (auto simp: delete_rows_def)

lemma distinct_delete_rows [intro]:
  "distinct (map key rows) \<Longrightarrow> distinct (map key (delete_rows p rows))"
  by (simp add: delete_rows_def distinct_map_filter)

lemma set_delete_rows [simp]: "set (delete_rows p rows) = {r \<in> set rows. \<not> p r}"
  by (auto simp: delete_rows_def)

lemma set_update_rows: "set (update_rows p f rows) = (\<lambda>r. if p r then f r else r) ` set rows"
  by (simp add: update_rows_def)

section \<open>Sorted listings\<close>

lemma sort_key_sorted_id: "sorted (map f xs) \<Longrightarrow> sort_key f xs = xs"
  by (induction xs) (simp_all add: insort_is_Cons)

section \<open>Lists in pieces\<close>

text \<open>A list cut in pieces of at most \<open>n\<close>, as the loops \<open>for (i = 0; i < length; i += n)\<close> do.\<close>

function chunks_of :: "nat \<Rightarrow> 'a list \<Rightarrow> 'a list list" where
  "chunks_of n xs = (if xs = [] \<or> n = 0 then [] else take n xs # chunks_of n (drop n xs))"
  by pat_completeness auto
termination
  by (relation "measure (\<lambda>(_, xs). length xs)") auto

declare chunks_of.simps [simp del]

lemma concat_chunks_of: "0 < n \<Longrightarrow> concat (chunks_of n xs) = xs"
proof (induction n xs rule: chunks_of.induct)
  case (1 n xs)
  then show ?case by (subst chunks_of.simps) auto
qed

lemma length_chunks_of: "c \<in> set (chunks_of n xs) \<Longrightarrow> length c \<le> n"
proof (induction n xs rule: chunks_of.induct)
  case (1 n xs)
  then show ?case by (subst (asm) chunks_of.simps) (auto split: if_splits)
qed

end
