(* ===== verification/Jin_Errors.thy ===== *)
theory Jin_Errors
  imports Jin_Prelude
begin

text \<open>
  The domain exceptions (\<open>JinError\<close>, \<open>src/common/errors/jin-error.ts\<close>): one constructor per
  subclass thrown by the modelled code, with its stable code and its HTTP status, and the filter
  that turns whatever a handler throws into an HTTP answer
  (\<open>src/common/filters/jin-error.filter.ts\<close>). Exceptions that are not domain ones (the database
  driver, Zod, a provider's SDK) are \<open>OtherError\<close>.
\<close>

datatype jin_error =
    UnknownToolError string
  | ToolExecutorAlreadyRegisteredError string
  | NoExecutorRegisteredError string
  | PendingApprovalNotFoundError uuid
  | SecondApprovalTooEarlyError uuid timestamp
  | ApprovalAlreadyResolvedError uuid
  | AuditChainLockedError
  | SessionBudgetExceededError string
  | DailyBudgetExceededError
  | KillSwitchActiveError string
  | UnknownTaskProfileError string
  | AllProvidersFailedError string "string option" "string option"
  | UnknownModelVendorError string
  | InvalidChatModelOptionError string string
  | StreamAlreadyPartiallyEmittedError string "string option"
  | InvalidSessionNonceError string
  | AgentPlanStepOutOfBoundsError int nat
  | TicketDecompositionParseError string
  | ReconciliationParseError string
  | RunNotFoundError uuid
  | AgentBranchMergeNotImplementedError string
  | RelayQuotaExceededError
  | RelayDisabledError
  | InvalidCredentialsError
  | TerminalUpstreamError nat string "string option"
  | TerminalUnavailableError
  | ExecutorApiError nat string
  | OtherError string

text \<open>
  An upstream refusal of the terminal's executor keeps the codes of its file explorer and the
  statuses the owner can act on (\<open>src/terminal/terminal.errors.ts\<close>).
\<close>

definition is_terminal_fs :: "string option \<Rightarrow> bool" where
  "is_terminal_fs code = (case code of Some c \<Rightarrow> take 12 c = ''TERMINAL_FS_'' | None \<Rightarrow> False)"

definition terminal_code :: "string option \<Rightarrow> string" where
  "terminal_code code = (if is_terminal_fs code then the code else ''TERMINAL_UPSTREAM_ERROR'')"

definition terminal_status :: "nat \<Rightarrow> string option \<Rightarrow> nat" where
  "terminal_status status code =
     (if status \<in> {400, 404, 409, 422, 429} then status
      else if status = 413 \<and> is_terminal_fs code then 413 else 502)"

fun error_code :: "jin_error \<Rightarrow> string option" where
  "error_code (UnknownToolError _) = Some ''HITL_UNKNOWN_TOOL''"
| "error_code (ToolExecutorAlreadyRegisteredError _) = Some ''HITL_TOOL_EXECUTOR_ALREADY_REGISTERED''"
| "error_code (NoExecutorRegisteredError _) = Some ''HITL_NO_EXECUTOR_REGISTERED''"
| "error_code (PendingApprovalNotFoundError _) = Some ''HITL_PENDING_APPROVAL_NOT_FOUND''"
| "error_code (SecondApprovalTooEarlyError _ _) = Some ''HITL_SECOND_APPROVAL_TOO_EARLY''"
| "error_code (ApprovalAlreadyResolvedError _) = Some ''HITL_APPROVAL_ALREADY_RESOLVED''"
| "error_code AuditChainLockedError = Some ''AUDIT_CHAIN_LOCKED''"
| "error_code (SessionBudgetExceededError _) = Some ''BUDGET_SESSION_EXCEEDED''"
| "error_code DailyBudgetExceededError = Some ''BUDGET_DAILY_EXCEEDED''"
| "error_code (KillSwitchActiveError _) = Some ''BUDGET_KILL_SWITCH_ACTIVE''"
| "error_code (UnknownTaskProfileError _) = Some ''MODEL_PROVIDER_UNKNOWN_TASK_PROFILE''"
| "error_code (AllProvidersFailedError _ _ _) = Some ''MODEL_PROVIDER_ALL_FAILED''"
| "error_code (UnknownModelVendorError _) = Some ''MODEL_PROVIDER_UNKNOWN_VENDOR''"
| "error_code (InvalidChatModelOptionError _ _) = Some ''MODEL_PROVIDER_INVALID_CHAT_OPTION''"
| "error_code (StreamAlreadyPartiallyEmittedError _ _) = Some ''MODEL_PROVIDER_STREAM_INTERRUPTED''"
| "error_code (InvalidSessionNonceError _) = Some ''SECURITY_INVALID_SESSION_NONCE''"
| "error_code (AgentPlanStepOutOfBoundsError _ _) = Some ''AGENT_PLAN_STEP_OUT_OF_BOUNDS''"
| "error_code (TicketDecompositionParseError _) = Some ''AGENT_TICKET_DECOMPOSITION_PARSE_ERROR''"
| "error_code (ReconciliationParseError _) = Some ''AGENT_RECONCILIATION_PARSE_ERROR''"
| "error_code (RunNotFoundError _) = Some ''AGENT_RUN_NOT_FOUND''"
| "error_code (AgentBranchMergeNotImplementedError _) = Some ''AGENT_BRANCH_MERGE_NOT_IMPLEMENTED''"
| "error_code RelayQuotaExceededError = Some ''RELAY_QUOTA_EXCEEDED''"
| "error_code RelayDisabledError = Some ''RELAY_DISABLED''"
| "error_code InvalidCredentialsError = Some ''AUTH_INVALID_CREDENTIALS''"
| "error_code (TerminalUpstreamError _ _ c) = Some (terminal_code c)"
| "error_code TerminalUnavailableError = Some ''TERMINAL_EXECUTOR_UNREACHABLE''"
| "error_code (ExecutorApiError _ _) = Some ''EXECUTOR_API_ERROR''"
| "error_code (OtherError _) = None"

fun error_httpStatus :: "jin_error \<Rightarrow> nat option" where
  "error_httpStatus (UnknownToolError _) = Some 400"
| "error_httpStatus (ToolExecutorAlreadyRegisteredError _) = Some 500"
| "error_httpStatus (NoExecutorRegisteredError _) = Some 500"
| "error_httpStatus (PendingApprovalNotFoundError _) = Some 404"
| "error_httpStatus (SecondApprovalTooEarlyError _ _) = Some 409"
| "error_httpStatus (ApprovalAlreadyResolvedError _) = Some 409"
| "error_httpStatus AuditChainLockedError = Some 503"
| "error_httpStatus (SessionBudgetExceededError _) = Some 429"
| "error_httpStatus DailyBudgetExceededError = Some 429"
| "error_httpStatus (KillSwitchActiveError _) = Some 503"
| "error_httpStatus (UnknownTaskProfileError _) = Some 400"
| "error_httpStatus (AllProvidersFailedError _ _ _) = Some 502"
| "error_httpStatus (UnknownModelVendorError _) = Some 500"
| "error_httpStatus (InvalidChatModelOptionError _ _) = Some 400"
| "error_httpStatus (StreamAlreadyPartiallyEmittedError _ _) = Some 502"
| "error_httpStatus (InvalidSessionNonceError _) = Some 400"
| "error_httpStatus (AgentPlanStepOutOfBoundsError _ _) = Some 400"
| "error_httpStatus (TicketDecompositionParseError _) = Some 502"
| "error_httpStatus (ReconciliationParseError _) = Some 502"
| "error_httpStatus (RunNotFoundError _) = Some 404"
| "error_httpStatus (AgentBranchMergeNotImplementedError _) = Some 501"
| "error_httpStatus RelayQuotaExceededError = Some 429"
| "error_httpStatus RelayDisabledError = Some 503"
| "error_httpStatus InvalidCredentialsError = Some 401"
| "error_httpStatus (TerminalUpstreamError s _ c) = Some (terminal_status s c)"
| "error_httpStatus TerminalUnavailableError = Some 502"
| "error_httpStatus (ExecutorApiError _ _) = Some 502"
| "error_httpStatus (OtherError _) = None"

section \<open>The exception filter\<close>

text \<open>
  What reaches the filter: a domain error, an \<open>HttpException\<close> of the framework with its status and
  body, or any other thrown value with the \<open>status\<close> and \<open>expose\<close> properties it may carry (numbers
  and booleans; a value without them has \<open>None\<close>).
\<close>

datatype thrown = TJin jin_error | THttp nat string | TUnknown "int option" "bool option"

definition exposedClientStatus :: "int option \<Rightarrow> bool option \<Rightarrow> int option" where
  "exposedClientStatus status expose =
     (case status of
        Some s \<Rightarrow> if expose = Some True \<and> 400 \<le> s \<and> s < 500 then Some s else None
      | None \<Rightarrow> None)"

datatype response = RCode int string | RFramework int string

definition jinErrorFilter_catch :: "thrown \<Rightarrow> response" where
  "jinErrorFilter_catch x =
     (case x of
        TJin e \<Rightarrow> (case error_code e of
            Some code \<Rightarrow> RCode (case error_httpStatus e of Some s \<Rightarrow> int s | None \<Rightarrow> 500) code
          | None \<Rightarrow> RCode 500 ''INTERNAL_ERROR'')
      | THttp status body \<Rightarrow> RFramework (int status) body
      | TUnknown status expose \<Rightarrow>
          (case exposedClientStatus status expose of
             Some s \<Rightarrow> RCode s (if s = 413 then ''PAYLOAD_TOO_LARGE'' else ''BAD_REQUEST'')
           | None \<Rightarrow> RCode 500 ''INTERNAL_ERROR''))"

lemma error_code_status: "error_code e = None \<longleftrightarrow> error_httpStatus e = None"
  by (cases e) simp_all

lemma error_status_range: "error_httpStatus e = Some s \<Longrightarrow> 400 \<le> s \<and> s < 600"
  by (cases e) (auto simp: terminal_status_def split: if_splits)

text \<open>
  A 4xx answer is given only for a domain error that declares it, a framework exception, or a parser
  error that exposes a 4xx status: every other failure is a 500 with the generic code.
\<close>

lemma filter_unknown_4xx:
  assumes "jinErrorFilter_catch (TUnknown status expose) = RCode s c" "s \<noteq> 500"
  shows "expose = Some True \<and> status = Some s \<and> 400 \<le> s \<and> s < 500"
  using assms
  by (auto simp: jinErrorFilter_catch_def exposedClientStatus_def split: option.splits if_splits)

end
