(* ===== verification/Tool_Registry.thy ===== *)
theory Tool_Registry
  imports Jin_Errors
begin

text \<open>
  The HITL levels (\<open>src/hitl/types.ts\<close>), the static tool registry (\<open>src/tools/registry.ts\<close>)
  and the classifier (\<open>src/hitl/classifier.ts\<close>). A tool carries the fields the code branches on
  and the shape of its argument schema (property names with their JSON type, and the required
  ones); the prose of the descriptions is not modelled.
\<close>

section \<open>HITL levels\<close>

datatype HitlLevel = Lauto | Lnotify | Lconfirm | Ldual_confirm

definition HITL_LEVELS :: "HitlLevel list" where
  "HITL_LEVELS = [Lauto, Lnotify, Lconfirm, Ldual_confirm]"

text \<open>\<open>Array.indexOf\<close>: the first position, or \<open>-1\<close>.\<close>

fun index_of :: "'a list \<Rightarrow> 'a \<Rightarrow> int" where
  "index_of [] y = -1"
| "index_of (x # xs) y =
     (if x = y then 0 else let i = index_of xs y in if i < 0 then -1 else i + 1)"

definition hitlLevelOrdinal :: "HitlLevel \<Rightarrow> int" where
  "hitlLevelOrdinal l = index_of HITL_LEVELS l"

fun approvalsRequiredFor :: "HitlLevel \<Rightarrow> nat" where
  "approvalsRequiredFor Lauto = 0"
| "approvalsRequiredFor Lnotify = 0"
| "approvalsRequiredFor Lconfirm = 1"
| "approvalsRequiredFor Ldual_confirm = 2"

lemma hitlLevelOrdinal_simps [simp]:
  "hitlLevelOrdinal Lauto = 0" "hitlLevelOrdinal Lnotify = 1"
  "hitlLevelOrdinal Lconfirm = 2" "hitlLevelOrdinal Ldual_confirm = 3"
  by (simp_all add: hitlLevelOrdinal_def HITL_LEVELS_def)

text \<open>The levels are linearly ordered by how much they restrict, as the ordinal says.\<close>

instantiation HitlLevel :: linorder
begin

definition less_eq_HitlLevel :: "HitlLevel \<Rightarrow> HitlLevel \<Rightarrow> bool" where
  "less_eq_HitlLevel a b \<longleftrightarrow> hitlLevelOrdinal a \<le> hitlLevelOrdinal b"

definition less_HitlLevel :: "HitlLevel \<Rightarrow> HitlLevel \<Rightarrow> bool" where
  "less_HitlLevel a b \<longleftrightarrow> hitlLevelOrdinal a < hitlLevelOrdinal b"

instance
proof
  fix x y z :: HitlLevel
  show "x < y \<longleftrightarrow> x \<le> y \<and> \<not> y \<le> x"
    by (auto simp: less_eq_HitlLevel_def less_HitlLevel_def)
  show "x \<le> x" by (simp add: less_eq_HitlLevel_def)
  show "x \<le> y \<Longrightarrow> y \<le> z \<Longrightarrow> x \<le> z" by (simp add: less_eq_HitlLevel_def)
  show "x \<le> y \<Longrightarrow> y \<le> x \<Longrightarrow> x = y"
    by (cases x; cases y) (simp_all add: less_eq_HitlLevel_def)
  show "x \<le> y \<or> y \<le> x" by (auto simp: less_eq_HitlLevel_def)
qed

end

lemma HitlLevel_le_iff: "a \<le> b \<longleftrightarrow> hitlLevelOrdinal a \<le> hitlLevelOrdinal b"
  by (simp add: less_eq_HitlLevel_def)

lemma HitlLevel_less_iff: "a < b \<longleftrightarrow> hitlLevelOrdinal a < hitlLevelOrdinal b"
  by (simp add: less_HitlLevel_def)

lemma approvalsRequiredFor_mono: "a \<le> b \<Longrightarrow> approvalsRequiredFor a \<le> approvalsRequiredFor b"
  by (cases a; cases b) (simp_all add: HitlLevel_le_iff)

text \<open>The decision a classified tool call carries (\<open>HitlDecision\<close>).\<close>

record HitlDecision =
  d_requestId :: uuid
  d_toolName :: string
  d_level :: HitlLevel
  d_approvalsRequired :: nat
  d_notifyAfterExecution :: bool
  d_relaxedBy :: "string option"

section \<open>The registry\<close>

datatype timeoutBehavior = TBdiscard | TBescalate

datatype IntegrationName = Icanvas | Igoogle | Imcp | Itelegram

datatype json_type = JTstring | JTnumber | JTboolean | JTobject | JTarray

record ToolDefinition =
  t_name :: string
  t_hitlLevel :: HitlLevel
  t_timeoutBehavior :: "timeoutBehavior option"
  t_properties :: "(string \<times> json_type) list"
  t_required :: "string list"
  t_integration :: "IntegrationName option"
  t_guardedInSemiAuto :: bool
  t_humanDecision :: bool

definition registry_email_canvas :: "ToolDefinition list" where
  "registry_email_canvas = [
  \<lparr>t_name = ''readEmails'', t_hitlLevel = Lauto, t_timeoutBehavior = None,
    t_properties = [(''query'', JTstring), (''threadId'', JTstring), (''maxResults'', JTnumber)],
    t_required = [],
    t_integration = Some Igoogle, t_guardedInSemiAuto = False, t_humanDecision = False\<rparr>,
  \<lparr>t_name = ''createCalendarEvent'', t_hitlLevel = Lnotify, t_timeoutBehavior = None,
    t_properties = [(''summary'', JTstring), (''description'', JTstring), (''location'', JTstring), (''start'', JTstring), (''end'', JTstring)],
    t_required = [''summary'', ''start'', ''end''],
    t_integration = Some Igoogle, t_guardedInSemiAuto = False, t_humanDecision = False\<rparr>,
  \<lparr>t_name = ''sendEmail'', t_hitlLevel = Lconfirm, t_timeoutBehavior = Some TBdiscard,
    t_properties = [(''to'', JTstring), (''subject'', JTstring), (''body'', JTstring), (''threadId'', JTstring)],
    t_required = [''to'', ''subject'', ''body''],
    t_integration = Some Igoogle, t_guardedInSemiAuto = True, t_humanDecision = False\<rparr>,
  \<lparr>t_name = ''canvasListAssignments'', t_hitlLevel = Lauto, t_timeoutBehavior = None,
    t_properties = [(''courseId'', JTnumber)],
    t_required = [],
    t_integration = Some Icanvas, t_guardedInSemiAuto = False, t_humanDecision = False\<rparr>,
  \<lparr>t_name = ''canvasGetCourseContent'', t_hitlLevel = Lauto, t_timeoutBehavior = None,
    t_properties = [(''courseIds'', JTarray), (''sinceDate'', JTstring)],
    t_required = [''courseIds''],
    t_integration = Some Icanvas, t_guardedInSemiAuto = False, t_humanDecision = False\<rparr>,
  \<lparr>t_name = ''canvasScheduleStudyBlock'', t_hitlLevel = Lnotify, t_timeoutBehavior = None,
    t_properties = [(''title'', JTstring), (''startTime'', JTstring), (''endTime'', JTstring)],
    t_required = [''title'', ''startTime'', ''endTime''],
    t_integration = Some Icanvas, t_guardedInSemiAuto = False, t_humanDecision = False\<rparr>]"

definition registry_calendar :: "ToolDefinition list" where
  "registry_calendar = [
  \<lparr>t_name = ''listCalendarEvents'', t_hitlLevel = Lauto, t_timeoutBehavior = None,
    t_properties = [(''timeMin'', JTstring), (''timeMax'', JTstring), (''maxResults'', JTnumber)],
    t_required = [],
    t_integration = Some Igoogle, t_guardedInSemiAuto = False, t_humanDecision = False\<rparr>,
  \<lparr>t_name = ''updateCalendarEvent'', t_hitlLevel = Lnotify, t_timeoutBehavior = None,
    t_properties = [(''eventId'', JTstring), (''eventData'', JTobject)],
    t_required = [''eventId'', ''eventData''],
    t_integration = Some Igoogle, t_guardedInSemiAuto = False, t_humanDecision = False\<rparr>,
  \<lparr>t_name = ''deleteCalendarEventPast'', t_hitlLevel = Lnotify, t_timeoutBehavior = None,
    t_properties = [(''eventId'', JTstring)],
    t_required = [''eventId''],
    t_integration = Some Igoogle, t_guardedInSemiAuto = False, t_humanDecision = False\<rparr>,
  \<lparr>t_name = ''deleteCalendarEventFuture'', t_hitlLevel = Lconfirm, t_timeoutBehavior = Some TBdiscard,
    t_properties = [(''eventId'', JTstring)],
    t_required = [''eventId''],
    t_integration = Some Igoogle, t_guardedInSemiAuto = True, t_humanDecision = False\<rparr>]"

definition registry_agents :: "ToolDefinition list" where
  "registry_agents = [
  \<lparr>t_name = ''runCode'', t_hitlLevel = Lconfirm, t_timeoutBehavior = Some TBdiscard,
    t_properties = [(''code'', JTstring), (''language'', JTstring)],
    t_required = [''code'', ''language''],
    t_integration = None, t_guardedInSemiAuto = False, t_humanDecision = False\<rparr>,
  \<lparr>t_name = ''resolveAgentConflict'', t_hitlLevel = Lconfirm, t_timeoutBehavior = Some TBdiscard,
    t_properties = [(''ticketId'', JTstring), (''conflictSummary'', JTstring), (''proposedResolution'', JTstring)],
    t_required = [''ticketId'', ''conflictSummary'', ''proposedResolution''],
    t_integration = None, t_guardedInSemiAuto = False, t_humanDecision = True\<rparr>,
  \<lparr>t_name = ''mergeAgentBranch'', t_hitlLevel = Lconfirm, t_timeoutBehavior = Some TBdiscard,
    t_properties = [(''ticketId'', JTstring), (''branchName'', JTstring)],
    t_required = [''ticketId'', ''branchName''],
    t_integration = None, t_guardedInSemiAuto = True, t_humanDecision = False\<rparr>]"

definition registry_preview :: "ToolDefinition list" where
  "registry_preview = [
  \<lparr>t_name = ''startPreviewService'', t_hitlLevel = Lconfirm, t_timeoutBehavior = Some TBdiscard,
    t_properties = [(''files'', JTobject), (''template'', JTstring), (''command'', JTarray), (''port'', JTnumber), (''ttlSeconds'', JTnumber), (''db'', JTstring), (''secrets'', JTarray), (''mailEgress'', JTboolean), (''slugHint'', JTstring)],
    t_required = [''files'', ''ttlSeconds''],
    t_integration = None, t_guardedInSemiAuto = False, t_humanDecision = False\<rparr>,
  \<lparr>t_name = ''extendPreviewService'', t_hitlLevel = Lconfirm, t_timeoutBehavior = None,
    t_properties = [(''serviceId'', JTstring), (''extraSeconds'', JTnumber)],
    t_required = [''serviceId'', ''extraSeconds''],
    t_integration = None, t_guardedInSemiAuto = False, t_humanDecision = False\<rparr>,
  \<lparr>t_name = ''saveDemoToGithub'', t_hitlLevel = Lconfirm, t_timeoutBehavior = Some TBdiscard,
    t_properties = [(''serviceId'', JTstring), (''slug'', JTstring)],
    t_required = [''serviceId'', ''slug''],
    t_integration = None, t_guardedInSemiAuto = False, t_humanDecision = True\<rparr>,
  \<lparr>t_name = ''listGithubDemos'', t_hitlLevel = Lauto, t_timeoutBehavior = None,
    t_properties = [],
    t_required = [],
    t_integration = None, t_guardedInSemiAuto = False, t_humanDecision = False\<rparr>,
  \<lparr>t_name = ''stopPreviewService'', t_hitlLevel = Lnotify, t_timeoutBehavior = None,
    t_properties = [(''serviceId'', JTstring)],
    t_required = [''serviceId''],
    t_integration = None, t_guardedInSemiAuto = False, t_humanDecision = False\<rparr>,
  \<lparr>t_name = ''listPreviewServices'', t_hitlLevel = Lauto, t_timeoutBehavior = None,
    t_properties = [],
    t_required = [],
    t_integration = None, t_guardedInSemiAuto = False, t_humanDecision = False\<rparr>]"

definition registry_corpus_docs :: "ToolDefinition list" where
  "registry_corpus_docs = [
  \<lparr>t_name = ''indexEmailToCorpus'', t_hitlLevel = Lauto, t_timeoutBehavior = None,
    t_properties = [(''messageId'', JTstring), (''subject'', JTstring), (''from'', JTstring), (''date'', JTstring), (''body'', JTstring)],
    t_required = [''messageId'', ''body''],
    t_integration = Some Igoogle, t_guardedInSemiAuto = False, t_humanDecision = False\<rparr>,
  \<lparr>t_name = ''searchCorpus'', t_hitlLevel = Lauto, t_timeoutBehavior = None,
    t_properties = [(''query'', JTstring), (''limit'', JTnumber)],
    t_required = [''query''],
    t_integration = None, t_guardedInSemiAuto = False, t_humanDecision = False\<rparr>,
  \<lparr>t_name = ''queryExternalDocs'', t_hitlLevel = Lauto, t_timeoutBehavior = None,
    t_properties = [(''library'', JTstring), (''query'', JTstring)],
    t_required = [''library'', ''query''],
    t_integration = None, t_guardedInSemiAuto = False, t_humanDecision = False\<rparr>]"

definition TOOL_REGISTRY :: "ToolDefinition list" where
  "TOOL_REGISTRY = registry_email_canvas @ registry_calendar @ registry_agents
     @ registry_preview @ registry_corpus_docs"

lemmas registry_defs = TOOL_REGISTRY_def registry_email_canvas_def registry_calendar_def
  registry_agents_def registry_preview_def registry_corpus_docs_def

text \<open>
  \<open>new Map(entries)\<close> keeps the last entry of a repeated key; \<open>getToolDefinition\<close> looks a name up
  in that map.
\<close>

definition TOOL_REGISTRY_BY_NAME :: "string \<rightharpoonup> ToolDefinition" where
  "TOOL_REGISTRY_BY_NAME = map_of (rev (map (\<lambda>t. (t_name t, t)) TOOL_REGISTRY))"

definition getToolDefinition :: "string \<Rightarrow> ToolDefinition option" where
  "getToolDefinition name = TOOL_REGISTRY_BY_NAME name"

definition listRegisteredTools :: "ToolDefinition list" where
  "listRegisteredTools = TOOL_REGISTRY"

section \<open>The classifier\<close>

text \<open>The random request id is the argument \<open>rid\<close>; the inputs do not influence the level.\<close>

definition classifyToolCall :: "uuid \<Rightarrow> string \<Rightarrow> 'input \<Rightarrow> jin_error + HitlDecision" where
  "classifyToolCall rid toolName inputs =
     (case getToolDefinition toolName of
        None \<Rightarrow> Inl (UnknownToolError toolName)
      | Some tool \<Rightarrow> Inr \<lparr>d_requestId = rid, d_toolName = t_name tool, d_level = t_hitlLevel tool,
          d_approvalsRequired = approvalsRequiredFor (t_hitlLevel tool),
          d_notifyAfterExecution = (t_hitlLevel tool = Lnotify), d_relaxedBy = None\<rparr>)"

section \<open>Facts about the registry\<close>

lemma registry_names_distinct: "distinct (map t_name TOOL_REGISTRY)"
  by (simp add: registry_defs)

lemma getToolDefinition_Some_iff:
  "getToolDefinition n = Some t \<longleftrightarrow> t \<in> set TOOL_REGISTRY \<and> t_name t = n"
proof -
  have "distinct (map fst (rev (map (\<lambda>t. (t_name t, t)) TOOL_REGISTRY)))"
    using registry_names_distinct by (simp add: rev_map [symmetric] comp_def)
  then show ?thesis
    by (auto simp: getToolDefinition_def TOOL_REGISTRY_BY_NAME_def dest: map_of_SomeD
        intro: map_of_is_SomeI)
qed

lemma getToolDefinition_None_iff:
  "getToolDefinition n = None \<longleftrightarrow> n \<notin> t_name ` set TOOL_REGISTRY"
  by (simp add: getToolDefinition_def TOOL_REGISTRY_BY_NAME_def map_of_eq_None_iff image_image)

lemma classifyToolCall_InrE:
  assumes "classifyToolCall rid n i = Inr d"
  obtains t where "getToolDefinition n = Some t" "t \<in> set TOOL_REGISTRY" "t_name t = n"
    "d = \<lparr>d_requestId = rid, d_toolName = n, d_level = t_hitlLevel t,
       d_approvalsRequired = approvalsRequiredFor (t_hitlLevel t),
       d_notifyAfterExecution = (t_hitlLevel t = Lnotify), d_relaxedBy = None\<rparr>"
  using assms that
  by (auto simp: classifyToolCall_def getToolDefinition_Some_iff split: option.splits)

text \<open>
  No registered tool is \<open>dual-confirm\<close>: that level is reached only through an override or for the
  virtual tools, which are not in the registry.
\<close>

lemma registry_levels: "t \<in> set TOOL_REGISTRY \<Longrightarrow> t_hitlLevel t \<noteq> Ldual_confirm"
proof -
  have "list_all (\<lambda>t. t_hitlLevel t \<noteq> Ldual_confirm) TOOL_REGISTRY"
    by (simp add: registry_defs)
  then show "t \<in> set TOOL_REGISTRY \<Longrightarrow> t_hitlLevel t \<noteq> Ldual_confirm"
    by (simp add: list_all_iff)
qed

lemma registry_schema_required:
  "list_all (\<lambda>t. set (t_required t) \<subseteq> fst ` set (t_properties t)) TOOL_REGISTRY"
  by (simp add: registry_defs)

lemma registry_marks_confirm:
  "list_all (\<lambda>t. t_guardedInSemiAuto t \<or> t_humanDecision t \<or> t_timeoutBehavior t \<noteq> None
     \<longrightarrow> t_hitlLevel t = Lconfirm) TOOL_REGISTRY"
  by (simp add: registry_defs)

end
