(* ===== verification/Js_Text.thy ===== *)
theory Js_Text
  imports Jin_Prelude
begin

text \<open>
  The part of the JavaScript standard library on strings that the modelled code uses: decimal
  printing and \<open>padStart\<close>, \<open>Array.join\<close>, JSON values with \<open>JSON.stringify\<close>, and the calendar
  behind \<open>Date.toISOString\<close>. The lemmas show that the printers lose nothing: decimal printing,
  \<open>JSON.stringify\<close> and \<open>toISOString\<close> are injective.
\<close>

section \<open>Decimal numbers\<close>

definition digit_char :: "nat \<Rightarrow> char" where
  "digit_char d = char_of (48 + d)"

definition digit_val :: "char \<Rightarrow> nat" where
  "digit_val c = of_char c - 48"

definition is_digit :: "char \<Rightarrow> bool" where
  "is_digit c \<longleftrightarrow> 48 \<le> (of_char c :: nat) \<and> (of_char c :: nat) \<le> 57"

fun show_nat :: "nat \<Rightarrow> string" where
  "show_nat n = (if n < 10 then [digit_char n] else show_nat (n div 10) @ [digit_char (n mod 10)])"

declare show_nat.simps [simp del]

definition show_int :: "int \<Rightarrow> string" where
  "show_int i = (if i < 0 then ''-'' @ show_nat (nat (- i)) else show_nat (nat i))"

definition padStart :: "nat \<Rightarrow> char \<Rightarrow> string \<Rightarrow> string" where
  "padStart w c s = replicate (w - length s) c @ s"

definition read_nat :: "string \<Rightarrow> nat" where
  "read_nat s = foldl (\<lambda>acc c. 10 * acc + digit_val c) 0 s"

lemma char_eq_iff_nat: "c = d \<longleftrightarrow> (of_char c :: nat) = of_char d"
  by simp

lemma of_char_digit_char [simp]: "d < 10 \<Longrightarrow> (of_char (digit_char d) :: nat) = 48 + d"
  by (simp add: digit_char_def)

lemma digit_val_digit_char [simp]: "d < 10 \<Longrightarrow> digit_val (digit_char d) = d"
  by (simp add: digit_val_def)

lemma is_digit_digit_char [simp]: "d < 10 \<Longrightarrow> is_digit (digit_char d)"
  by (simp add: is_digit_def)

lemma digit_char_0 [simp]: "digit_char 0 = CHR ''0''"
  using of_char_digit_char [of 0] by (simp add: char_eq_iff_nat)

lemma show_nat_nonempty [simp]: "show_nat n \<noteq> []"
  by (subst show_nat.simps) simp

lemma show_nat_digits: "\<forall>c \<in> set (show_nat n). is_digit c"
proof (induction n rule: show_nat.induct)
  case (1 n)
  then show ?case by (subst show_nat.simps) auto
qed

lemma read_nat_append: "read_nat (s @ [c]) = 10 * read_nat s + digit_val c"
  by (simp add: read_nat_def)

lemma read_show_nat [simp]: "read_nat (show_nat n) = n"
proof (induction n rule: show_nat.induct)
  case (1 n)
  then show ?case
    by (subst show_nat.simps) (auto simp: read_nat_append, simp add: read_nat_def)
qed

lemma show_nat_inj [simp]: "show_nat m = show_nat n \<longleftrightarrow> m = n"
  by (metis read_show_nat)

lemma length_show_nat: "n < 10 ^ k \<Longrightarrow> 0 < k \<Longrightarrow> length (show_nat n) \<le> k"
proof (induction n arbitrary: k rule: show_nat.induct)
  case (1 n)
  show ?case
  proof (cases "n < 10")
    case True
    then show ?thesis using 1 by (subst show_nat.simps) simp
  next
    case False
    with 1 obtain k' where k: "k = Suc k'" by (cases k) auto
    with False 1 have "0 < k'" by (cases k') auto
    moreover from 1 k have "n div 10 < 10 ^ k'" by (simp add: less_mult_imp_div_less mult.commute)
    ultimately have "length (show_nat (n div 10)) \<le> k'" using 1 False by blast
    with False k show ?thesis by (subst show_nat.simps) simp
  qed
qed

lemma show_int_inj [simp]: "show_int i = show_int j \<longleftrightarrow> i = j"
proof -
  have "is_digit (hd (show_nat n))" for n
    using show_nat_digits [of n] by (cases "show_nat n") auto
  moreover have "\<not> is_digit (CHR ''-'')" by (simp add: is_digit_def)
  ultimately have "show_nat n \<noteq> CHR ''-'' # s" for n s
    by (metis list.sel(1))
  then show ?thesis by (auto simp: show_int_def) metis+
qed

lemma read_nat_zeros: "read_nat (replicate k (CHR ''0'') @ s) = read_nat s"
proof -
  have "digit_val (CHR ''0'') = 0" by (simp add: digit_val_def)
  then show ?thesis by (induction k) (simp_all add: read_nat_def)
qed

lemma read_padStart [simp]: "read_nat (padStart w (CHR ''0'') (show_nat n)) = n"
  by (simp add: padStart_def read_nat_zeros)

lemma length_padStart [simp]: "length (padStart w c s) = max w (length s)"
  by (simp add: padStart_def)

text \<open>A decimal field of a fixed width.\<close>

definition field :: "nat \<Rightarrow> nat \<Rightarrow> string" where
  "field w n = padStart w (CHR ''0'') (show_nat n)"

lemma field_inj [simp]: "field w m = field w n \<longleftrightarrow> m = n"
  by (metis field_def read_padStart)

lemma length_field: "n < 10 ^ w \<Longrightarrow> 0 < w \<Longrightarrow> length (field w n) = w"
  by (simp add: field_def length_show_nat max_absorb1)

lemma field_digits: "\<forall>c \<in> set (field w n). is_digit c"
  using show_nat_digits [of n] by (auto simp: field_def padStart_def is_digit_def)

section \<open>Array.join\<close>

fun join :: "string \<Rightarrow> string list \<Rightarrow> string" where
  "join sep [] = []"
| "join sep [x] = x"
| "join sep (x # y # zs) = x @ sep @ join sep (y # zs)"

lemma join_Cons: "zs \<noteq> [] \<Longrightarrow> join sep (x # zs) = x @ sep @ join sep zs"
  by (cases zs) simp_all

section \<open>JSON\<close>

text \<open>
  A JSON value. Numbers are the integral ones; an object is the list of its entries in the order
  in which JavaScript enumerates them.
\<close>

datatype json = JNull | JBool bool | JNum int | JStr string
  | JArr "json list" | JObj "(string \<times> json) list"

definition hex_char :: "nat \<Rightarrow> char" where
  "hex_char d = (if d < 10 then digit_char d else char_of (87 + d))"

text \<open>Escaping of one character, as \<open>QuoteJSONString\<close> of the language does it.\<close>

definition json_escape :: "char \<Rightarrow> string" where
  "json_escape c =
     (let n = (of_char c :: nat) in
      if n = 8 then [CHR 0x5C, CHR ''b'']
      else if n = 9 then [CHR 0x5C, CHR ''t'']
      else if n = 10 then [CHR 0x5C, CHR ''n'']
      else if n = 12 then [CHR 0x5C, CHR ''f'']
      else if n = 13 then [CHR 0x5C, CHR ''r'']
      else if n = 34 then [CHR 0x5C, CHR 0x22]
      else if n = 92 then [CHR 0x5C, CHR 0x5C]
      else if n < 32 then [CHR 0x5C, CHR ''u'', CHR ''0'', CHR ''0'', hex_char (n div 16), hex_char (n mod 16)]
      else [c])"

definition json_quote :: "string \<Rightarrow> string" where
  "json_quote s = [CHR 0x22] @ concat (map json_escape s) @ [CHR 0x22]"

fun stringify :: "json \<Rightarrow> string" where
  "stringify JNull = ''null''"
| "stringify (JBool b) = (if b then ''true'' else ''false'')"
| "stringify (JNum i) = show_int i"
| "stringify (JStr s) = json_quote s"
| "stringify (JArr xs) = ''['' @ join '','' (map stringify xs) @ '']''"
| "stringify (JObj kvs) =
     ''{'' @ join '','' (map (\<lambda>(k, v). json_quote k @ '':'' @ stringify v) kvs) @ ''}''"

text \<open>Reading one escaped character back, for the injectivity of the escaping.\<close>

definition hex_val :: "char \<Rightarrow> nat" where
  "hex_val c = (if is_digit c then digit_val c else of_char c - 87)"

lemma hex_val_hex_char [simp]: "d < 16 \<Longrightarrow> hex_val (hex_char d) = d"
  by (auto simp: hex_val_def hex_char_def is_digit_def)

definition json_unescape :: "string \<Rightarrow> char \<times> string" where
  "json_unescape s =
     (if hd s \<noteq> CHR 0x5C then (hd s, tl s)
      else let c = s ! 1; r = drop 2 s in
        if c = CHR ''b'' then (char_of (8::nat), r)
        else if c = CHR ''t'' then (char_of (9::nat), r)
        else if c = CHR ''n'' then (char_of (10::nat), r)
        else if c = CHR ''f'' then (char_of (12::nat), r)
        else if c = CHR ''r'' then (char_of (13::nat), r)
        else if c = CHR ''u'' then (char_of (16 * hex_val (s ! 4) + hex_val (s ! 5)), drop 6 s)
        else (c, r))"

lemma json_special_chars:
  "c = CHR 0x22 \<longleftrightarrow> (of_char c :: nat) = 34" "c = CHR 0x5C \<longleftrightarrow> (of_char c :: nat) = 92"
  by (simp_all add: char_eq_iff_nat del: of_char_eq_iff)

lemma char_of_eqI:
  shows "(of_char c :: nat) = k \<Longrightarrow> char_of k = c"
    and "(of_char c :: nat) = 34 \<Longrightarrow> CHR 0x22 = c"
    and "(of_char c :: nat) = 92 \<Longrightarrow> CHR 0x5C = c"
  by auto (simp_all only: json_special_chars [symmetric])

lemma json_escape_plain:
  "\<not> (of_char c :: nat) < 32 \<Longrightarrow> (of_char c :: nat) \<noteq> 34 \<Longrightarrow> (of_char c :: nat) \<noteq> 92 \<Longrightarrow> json_escape c = [c]"
  by (simp add: json_escape_def)

lemma json_escape_short:
  "(of_char c :: nat) = 8 \<Longrightarrow> json_escape c = [CHR 0x5C, CHR ''b'']"
  "(of_char c :: nat) = 9 \<Longrightarrow> json_escape c = [CHR 0x5C, CHR ''t'']"
  "(of_char c :: nat) = 10 \<Longrightarrow> json_escape c = [CHR 0x5C, CHR ''n'']"
  "(of_char c :: nat) = 12 \<Longrightarrow> json_escape c = [CHR 0x5C, CHR ''f'']"
  "(of_char c :: nat) = 13 \<Longrightarrow> json_escape c = [CHR 0x5C, CHR ''r'']"
  "(of_char c :: nat) = 34 \<Longrightarrow> json_escape c = [CHR 0x5C, CHR 0x22]"
  "(of_char c :: nat) = 92 \<Longrightarrow> json_escape c = [CHR 0x5C, CHR 0x5C]"
  by (simp_all add: json_escape_def)

lemma json_escape_control:
  assumes "(of_char c :: nat) < 32" "(of_char c :: nat) \<notin> {8, 9, 10, 12, 13}"
  shows "json_escape c = [CHR 0x5C, CHR ''u'', CHR ''0'', CHR ''0'',
    hex_char (of_char c div 16), hex_char (of_char c mod 16)]"
  using assms by (simp add: json_escape_def Let_def)

lemma json_unescape_simps:
  "json_unescape (CHR 0x5C # CHR ''b'' # x) = (char_of (8::nat), x)"
  "json_unescape (CHR 0x5C # CHR ''t'' # x) = (char_of (9::nat), x)"
  "json_unescape (CHR 0x5C # CHR ''n'' # x) = (char_of (10::nat), x)"
  "json_unescape (CHR 0x5C # CHR ''f'' # x) = (char_of (12::nat), x)"
  "json_unescape (CHR 0x5C # CHR ''r'' # x) = (char_of (13::nat), x)"
  "json_unescape (CHR 0x5C # CHR 0x22 # x) = (CHR 0x22, x)"
  "json_unescape (CHR 0x5C # CHR 0x5C # x) = (CHR 0x5C, x)"
  "json_unescape (CHR 0x5C # CHR ''u'' # p # q # h # k # x) = (char_of (16 * hex_val h + hex_val k), x)"
  "c \<noteq> CHR 0x5C \<Longrightarrow> json_unescape (c # x) = (c, x)"
  by (simp_all add: json_unescape_def)

lemmas json_literals = json_special_chars [THEN iffD2]

lemma json_unescape_escape: "json_unescape (json_escape c @ x) = (c, x)"
proof -
  let ?n = "of_char c :: nat"
  consider "?n \<in> {8, 9, 10, 12, 13}" | "?n = 34 \<or> ?n = 92" | "?n < 32" "?n \<notin> {8, 9, 10, 12, 13}"
    | "\<not> ?n < 32" "?n \<noteq> 34" "?n \<noteq> 92"
    by auto
  then show ?thesis
  proof cases
    case 1
    then show ?thesis
      by (elim insertE emptyE)
         (simp_all only: json_escape_short json_unescape_simps append.simps char_of_eqI)
  next
    case 2
    then show ?thesis using json_literals [of c]
      by (elim disjE) (simp_all only: json_escape_short json_unescape_simps append.simps)
  next
    case 3
    then have "16 * hex_val (hex_char (?n div 16)) + hex_val (hex_char (?n mod 16)) = ?n" by simp
    then show ?thesis
      unfolding json_escape_control [OF 3] append.simps json_unescape_simps by simp
  next
    case 4
    then have "c \<noteq> CHR 0x5C" by (simp only: json_special_chars) simp
    then show ?thesis
      unfolding json_escape_plain [OF 4] append.simps by (rule json_unescape_simps)
  qed
qed

lemma json_escape_prefix:
  "json_escape c @ x = json_escape d @ y \<Longrightarrow> c = d \<and> x = y"
  by (metis json_unescape_escape prod.inject)

lemma json_escape_hdE:
  obtains e es where "json_escape c = e # es" "e \<noteq> CHR 0x22"
proof -
  have "json_escape c \<noteq> []" by (simp add: json_escape_def Let_def)
  moreover have "hd (json_escape c) \<noteq> CHR 0x22"
    by (simp add: json_escape_def Let_def json_special_chars)
  ultimately show ?thesis using that by (cases "json_escape c") auto
qed

lemma json_body_inj:
  "concat (map json_escape s) @ CHR 0x22 # x = concat (map json_escape t) @ CHR 0x22 # y
     \<Longrightarrow> s = t \<and> x = y"
proof (induction s arbitrary: t)
  case Nil
  show ?case
  proof (cases t)
    case (Cons d t')
    obtain e es where "json_escape d = e # es" "e \<noteq> CHR 0x22" by (rule json_escape_hdE)
    with Nil Cons show ?thesis by simp
  qed (use Nil in simp)
next
  case (Cons c s)
  show ?case
  proof (cases t)
    case Nil
    obtain e es where "json_escape c = e # es" "e \<noteq> CHR 0x22" by (rule json_escape_hdE)
    with Nil Cons.prems show ?thesis by simp
  next
    case (Cons d t')
    with Cons.prems have "json_escape c @ (concat (map json_escape s) @ CHR 0x22 # x) =
      json_escape d @ (concat (map json_escape t') @ CHR 0x22 # y)" by simp
    then have "c = d" "concat (map json_escape s) @ CHR 0x22 # x = concat (map json_escape t') @ CHR 0x22 # y"
      using json_escape_prefix by blast+
    with Cons.IH Cons show ?thesis by simp
  qed
qed

lemma json_quote_prefix: "json_quote s @ x = json_quote t @ y \<Longrightarrow> s = t \<and> x = y"
  using json_body_inj [of s x t y] by (simp add: json_quote_def)

lemma json_quote_inj [simp]: "json_quote s = json_quote t \<longleftrightarrow> s = t"
  using json_quote_prefix [of s "[]" t "[]"] by auto

text \<open>
  Printing is uniquely decodable: what follows a printed value inside a JSON text is the end or one
  of the delimiters, and then both the value and the rest can be read back.
\<close>

definition delim :: "string \<Rightarrow> bool" where
  "delim x \<longleftrightarrow> x = [] \<or> hd x \<in> {CHR '','', CHR '']'', CHR ''}''}"

fun json_tag :: "json \<Rightarrow> nat" where
  "json_tag JNull = 0"
| "json_tag (JBool b) = (if b then 1 else 2)"
| "json_tag (JNum i) = 3"
| "json_tag (JStr s) = 4"
| "json_tag (JArr xs) = 5"
| "json_tag (JObj kvs) = 6"

definition char_tag :: "char \<Rightarrow> nat" where
  "char_tag c = (if c = CHR ''n'' then 0 else if c = CHR ''t'' then 1 else if c = CHR ''f'' then 2
     else if c = CHR 0x22 then 4 else if c = CHR ''['' then 5 else if c = CHR ''{'' then 6
     else if c = CHR ''-'' \<or> is_digit c then 3 else 7)"

lemma show_nat_hd_digit: "show_nat n = c # s \<Longrightarrow> is_digit c"
  using show_nat_digits [of n] by auto

lemma char_tag_digit: "is_digit c \<Longrightarrow> char_tag c = 3"
proof -
  assume d: "is_digit c"
  have "c \<noteq> CHR ''n''" "c \<noteq> CHR ''t''" "c \<noteq> CHR ''f''" "c \<noteq> CHR 0x22" "c \<noteq> CHR ''[''" "c \<noteq> CHR ''{''"
    using d by (auto simp: is_digit_def)
  with d show ?thesis by (simp add: char_tag_def)
qed

lemma stringify_hdE:
  obtains c s where "stringify v = c # s" "char_tag c = json_tag v"
proof (cases v)
  case (JNum i)
  obtain c s where "show_nat (nat \<bar>i\<bar>) = c # s" by (cases "show_nat (nat \<bar>i\<bar>)") auto
  moreover from this have "char_tag c = 3" by (simp add: show_nat_hd_digit char_tag_digit)
  ultimately show ?thesis using that JNum
    by (cases "i < 0") (auto simp: show_int_def char_tag_def)
next
  case (JBool b)
  with that show ?thesis by (cases b) (simp_all add: char_tag_def)
qed (use that in \<open>simp_all add: char_tag_def json_quote_def\<close>)

lemma stringify_delim_free:
  assumes "stringify v = c # s"
  shows "c \<notin> {CHR '','', CHR '']'', CHR ''}'', CHR '':''}"
proof -
  obtain c' s' where "stringify v = c' # s'" "char_tag c' = json_tag v" by (rule stringify_hdE)
  with assms have "char_tag c < 7" by (cases v) auto
  then show ?thesis by (auto simp: char_tag_def is_digit_def)
qed

text \<open>The numbers: what follows is not a digit.\<close>

lemma delim_not_digit: "delim x \<Longrightarrow> x = [] \<or> \<not> is_digit (hd x)"
  by (auto simp: delim_def is_digit_def)

lemma digits_prefix:
  assumes "\<forall>c \<in> set s. is_digit c" "\<forall>c \<in> set t. is_digit c" "delim x" "delim y" "s @ x = t @ y"
  shows "s = t \<and> x = y"
proof -
  have "takeWhile is_digit (s @ x) = s" "takeWhile is_digit (t @ y) = t"
    using assms(1-4) by (auto simp: takeWhile_append takeWhile_eq_Nil_iff dest: delim_not_digit)
  with assms(5) show ?thesis by auto
qed

lemma show_int_prefix:
  assumes "delim x" "delim y" "show_int i @ x = show_int j @ y"
  shows "i = j \<and> x = y"
proof -
  have *: "m = n \<and> x = y" if "show_nat m @ x = show_nat n @ y" for m n
    using digits_prefix [OF show_nat_digits show_nat_digits assms(1,2) that] by simp
  have "show_nat m @ z \<noteq> CHR ''-'' # w" for m z w
    using show_nat_hd_digit [of m "CHR ''-''"] by (cases "show_nat m") (auto simp: is_digit_def)
  with assms(3) show ?thesis
    by (auto simp: show_int_def dest!: * split: if_splits) metis+
qed

text \<open>
  Comma-separated elements: if each element can be read back, so can the sequence up to its closing
  bracket.
\<close>

definition readable :: "('a \<Rightarrow> string) \<Rightarrow> 'a \<Rightarrow> bool" where
  "readable f u \<longleftrightarrow> (\<forall>v x y. delim x \<longrightarrow> delim y \<longrightarrow> f u @ x = f v @ y \<longrightarrow> u = v \<and> x = y)"

lemma join_concat: "join sep (x # xs) = x @ concat (map (\<lambda>y. sep @ y) xs)"
  by (induction xs arbitrary: x) auto

lemma tail_inj:
  assumes "\<forall>u \<in> set us. readable f u" "close \<in> {CHR '']'', CHR ''}''}"
    and "concat (map (\<lambda>v. '','' @ f v) us) @ close # x = concat (map (\<lambda>v. '','' @ f v) vs) @ close # y"
  shows "us = vs \<and> x = y"
  using assms
proof (induction us arbitrary: vs)
  case Nil
  then show ?case by (cases vs) auto
next
  case (Cons u us)
  from Cons.prems obtain v vs' where vs: "vs = v # vs'" by (cases vs) auto
  let ?r = "concat (map (\<lambda>v. '','' @ f v) us) @ close # x"
  let ?q = "concat (map (\<lambda>v. '','' @ f v) vs') @ close # y"
  have "delim ?r" "delim ?q" using Cons.prems(2)
    by (cases us; auto simp: delim_def) (cases vs'; use Cons.prems(2) in \<open>auto simp: delim_def\<close>)
  moreover have "f u @ ?r = f v @ ?q" using Cons.prems(3) vs by simp
  ultimately have "u = v" "?r = ?q" using Cons.prems(1) by (auto simp: readable_def)
  with Cons vs show ?case by auto
qed

lemma join_inj:
  assumes "\<forall>u \<in> set us. readable f u" "close \<in> {CHR '']'', CHR ''}''}"
    and hd: "\<And>v. \<exists>c s. f v = c # s \<and> c \<noteq> close"
    and eq: "join '','' (map f us) @ close # x = join '','' (map f vs) @ close # y"
  shows "us = vs \<and> x = y"
proof (cases us)
  case Nil
  with eq hd show ?thesis
    by (cases vs) (auto simp: join_concat, metis append_Cons list.inject)
next
  case (Cons u us')
  from eq Cons hd [of u] obtain v vs' where vs: "vs = v # vs'"
    by (cases vs) (auto simp: join_concat)
  let ?f = "\<lambda>v. '','' @ f v"
  let ?r = "concat (map ?f us') @ close # x" and ?q = "concat (map ?f vs') @ close # y"
  have "delim ?r" using assms(2) by (cases us') (auto simp: delim_def)
  moreover have "delim ?q" using assms(2) by (cases vs') (auto simp: delim_def)
  moreover have "f u @ ?r = f v @ ?q" using eq Cons vs by (simp add: join_concat comp_def)
  ultimately have "u = v" "?r = ?q" using assms(1) Cons by (auto simp: readable_def)
  with tail_inj [of us' f close x vs' y] assms(1,2) Cons vs show ?thesis by auto
qed

definition json_entry :: "string \<times> json \<Rightarrow> string" where
  "json_entry kv = (case kv of (k, v) \<Rightarrow> json_quote k @ '':'' @ stringify v)"

lemma stringify_JObj: "stringify (JObj kvs) = ''{'' @ join '','' (map json_entry kvs) @ ''}''"
proof -
  have "json_entry = (\<lambda>(k, v). json_quote k @ '':'' @ stringify v)"
    by (simp add: fun_eq_iff json_entry_def)
  then show ?thesis by simp
qed

lemma readable_json_entry: "readable stringify v \<Longrightarrow> readable json_entry (k, v)"
  by (auto simp: readable_def json_entry_def split: prod.splits dest: json_quote_prefix)

lemma stringify_tag_eq:
  "stringify a @ x = stringify b @ y \<Longrightarrow> json_tag a = json_tag b"
  by (metis append_Cons list.inject stringify_hdE)

lemma stringify_closeE: "c \<in> {CHR '']'', CHR ''}''} \<Longrightarrow> \<exists>d s. stringify v = d # s \<and> d \<noteq> c"
proof -
  assume c: "c \<in> {CHR '']'', CHR ''}''}"
  obtain d s where d: "stringify v = d # s" by (rule stringify_hdE)
  with c stringify_delim_free [OF d] show ?thesis by auto
qed

lemma stringify_readable: "readable stringify a"
proof (induction a)
  case (JArr us)
  show ?case unfolding readable_def
  proof (intro allI impI)
    fix b x y assume h: "delim x" "delim y" "stringify (JArr us) @ x = stringify b @ y"
    then obtain vs where b: "b = JArr vs"
      using stringify_tag_eq [OF h(3)] by (cases b) (auto split: if_splits)
    with h JArr join_inj [of us stringify "CHR '']''" x vs y] stringify_closeE
    show "JArr us = b \<and> x = y" by auto
  qed
next
  case (JObj us)
  show ?case unfolding readable_def
  proof (intro allI impI)
    fix b x y assume h: "delim x" "delim y" "stringify (JObj us) @ x = stringify b @ y"
    then obtain vs where b: "b = JObj vs"
      using stringify_tag_eq [OF h(3)] by (cases b) (auto split: if_splits)
    have "\<forall>u \<in> set us. readable json_entry u"
      using JObj readable_json_entry by (metis prod.collapse snds.intros)
    moreover have "\<exists>d s. json_entry v = d # s \<and> d \<noteq> CHR ''}''" for v
      by (simp add: json_entry_def json_quote_def split_def)
    moreover have "join '','' (map json_entry us) @ CHR ''}'' # x = join '','' (map json_entry vs) @ CHR ''}'' # y"
      using h(3) b by (simp add: stringify_JObj del: stringify.simps)
    ultimately have "us = vs \<and> x = y"
      using join_inj [of us json_entry "CHR ''}''" x vs y] by blast
    with b show "JObj us = b \<and> x = y" by simp
  qed
next
  case (JNum i)
  show ?case unfolding readable_def
  proof (intro allI impI)
    fix b x y assume h: "delim x" "delim y" "stringify (JNum i) @ x = stringify b @ y"
    then obtain j where "b = JNum j"
      using stringify_tag_eq [OF h(3)] by (cases b) (auto split: if_splits)
    with h show "JNum i = b \<and> x = y" using show_int_prefix [of x y i j] by simp
  qed
next
  case (JStr t)
  show ?case unfolding readable_def
  proof (intro allI impI)
    fix b x y assume h: "delim x" "delim y" "stringify (JStr t) @ x = stringify b @ y"
    then obtain u where "b = JStr u"
      using stringify_tag_eq [OF h(3)] by (cases b) (auto split: if_splits)
    with h show "JStr t = b \<and> x = y" using json_quote_prefix [of t x u y] by simp
  qed
next
  case JNull
  show ?case unfolding readable_def
  proof (intro allI impI)
    fix b x y assume h: "stringify JNull @ x = stringify b @ y"
    then have "b = JNull" using stringify_tag_eq [OF h] by (cases b) (auto split: if_splits)
    with h show "JNull = b \<and> x = y" by simp
  qed
next
  case (JBool c)
  show ?case unfolding readable_def
  proof (intro allI impI)
    fix b x y assume h: "stringify (JBool c) @ x = stringify b @ y"
    then have "b = JBool c" using stringify_tag_eq [OF h] by (cases b) (auto split: if_splits)
    with h show "JBool c = b \<and> x = y" by simp
  qed
qed

theorem stringify_inj: "stringify a = stringify b \<longleftrightarrow> a = b"
proof
  assume "stringify a = stringify b"
  then have "stringify a @ [] = stringify b @ []" by simp
  then show "a = b"
    using stringify_readable [of a] unfolding readable_def delim_def by blast
qed simp

end
