(* ===== verification/Js_Date.thy ===== *)
theory Js_Date
  imports Js_Text
begin

text \<open>
  Calendar arithmetic of the JavaScript \<open>Date\<close>: the proleptic Gregorian date of a day number,
  \<open>toISOString\<close>, and the local-time getters used by the budget (\<open>getFullYear\<close>, \<open>getMonth\<close>,
  \<open>getDate\<close>, \<open>setMinutes\<close>). The time-zone offset of the process, in milliseconds, is an argument
  of the local-time functions. \<open>toISOString\<close> is injective on time values in the range that a
  \<open>Date\<close> can hold.
\<close>

definition MS_PER_DAY :: int where "MS_PER_DAY = 86400000"
definition MS_PER_HOUR :: int where "MS_PER_HOUR = 3600000"

text \<open>
  The date of day \<open>z\<close> after 1970-01-01. Days are counted from 0000-03-01 in eras of 400 years
  (146097 days), centuries (36524 days), four-year spans (1461 days) and years; a year starts in
  March, so that the leap day is the last day of its span.
\<close>

definition era_split :: "int \<Rightarrow> int \<times> int" where
  "era_split doe =
     (let c = min (doe div 36524) 3; r = doe - 36524 * c; q = r div 1461; r2 = r - 1461 * q;
          yr = min (r2 div 365) 3
      in (100 * c + 4 * q + yr, r2 - 365 * yr))"

definition civil_from_days :: "int \<Rightarrow> int \<times> int \<times> int" where
  "civil_from_days z0 =
     (let z = z0 + 719468; era = z div 146097;
          (yoe, doy) = era_split (z mod 146097);
          mp = (5 * doy + 2) div 153;
          d = doy - (153 * mp + 2) div 5 + 1;
          m = (if mp < 10 then mp + 3 else mp - 9);
          y = yoe + era * 400 + (if m \<le> 2 then 1 else 0)
      in (y, m, d))"

definition days_from_civil :: "int \<times> int \<times> int \<Rightarrow> int" where
  "days_from_civil = (\<lambda>(y0, m, d).
     let y = y0 - (if m \<le> 2 then 1 else 0); era = y div 400; yoe = y mod 400;
         mp = (if 2 < m then m - 3 else m + 9);
         doy = (153 * mp + 2) div 5 + d - 1;
         doe = yoe * 365 + yoe div 4 - yoe div 100 + doy
     in era * 146097 + doe - 719468)"

lemma era_splitE:
  assumes "0 \<le> doe" "doe < 146097" "era_split doe = (yoe, doy)"
  shows "0 \<le> yoe" "yoe < 400" "0 \<le> doy" "doy \<le> 365"
    and "yoe * 365 + yoe div 4 - yoe div 100 + doy = doe"
proof -
  define c where "c = min (doe div 36524) 3"
  define r where "r = doe - 36524 * c"
  define q where "q = r div 1461"
  define r2 where "r2 = r - 1461 * q"
  define yr where "yr = min (r2 div 365) 3"
  have e: "yoe = 100 * c + 4 * q + yr" "doy = r2 - 365 * yr"
    using assms(3) by (simp_all add: era_split_def Let_def c_def r_def q_def r2_def yr_def)
  have c: "0 \<le> c" "c \<le> 3" using assms(1) by (auto simp: c_def)
  have r: "0 \<le> r" "r \<le> 36524" using assms(1,2) unfolding r_def c_def by linarith+
  have q: "0 \<le> q" "q \<le> 24" using r unfolding q_def by linarith+
  have r2: "0 \<le> r2" "r2 \<le> 1460" unfolding r2_def q_def by linarith+
  have yr: "0 \<le> yr" "yr \<le> 3" using r2 by (auto simp: yr_def)
  show "0 \<le> yoe" "yoe < 400" using e c q yr by linarith+
  show "0 \<le> doy" "doy \<le> 365" using e r2 unfolding yr_def by linarith+
  have "yoe div 4 = 25 * c + q" "yoe div 100 = c" using e yr q by linarith+
  then show "yoe * 365 + yoe div 4 - yoe div 100 + doy = doe"
    using e by (simp add: r2_def r_def)
qed

lemma month_range:
  fixes doy :: int
  assumes "0 \<le> doy" "doy \<le> 365"
  defines "mp \<equiv> (5 * doy + 2) div 153"
  shows "0 \<le> mp" "mp \<le> 11" "1 \<le> doy - (153 * mp + 2) div 5 + 1" "doy - (153 * mp + 2) div 5 + 1 \<le> 31"
  using assms by linarith+

lemma civil_from_daysE:
  assumes "civil_from_days z0 = (y, m, d)"
  obtains era yoe doy mp where
    "z0 = era * 146097 + (yoe * 365 + yoe div 4 - yoe div 100 + doy) - 719468"
    "0 \<le> yoe" "yoe < 400" "mp = (5 * doy + 2) div 153" "0 \<le> mp" "mp \<le> 11"
    "d = doy - (153 * mp + 2) div 5 + 1" "1 \<le> d" "d \<le> 31"
    "m = (if mp < 10 then mp + 3 else mp - 9)" "y = yoe + era * 400 + (if m \<le> 2 then 1 else 0)"
proof -
  define z where "z = z0 + 719468"
  obtain yoe doy where s: "era_split (z mod 146097) = (yoe, doy)" by fastforce
  have "0 \<le> z mod 146097" "z mod 146097 < 146097" by simp_all
  note E = era_splitE [OF this s]
  note M = month_range [OF E(3,4)]
  have z: "z0 = z div 146097 * 146097 + z mod 146097 - 719468" by (simp add: z_def)
  define mp where "mp = (5 * doy + 2) div 153"
  have "(y, m, d) = civil_from_days z0" using assms by simp
  also have "\<dots> = (let d = doy - (153 * mp + 2) div 5 + 1; m = (if mp < 10 then mp + 3 else mp - 9)
    in (yoe + z div 146097 * 400 + (if m \<le> 2 then 1 else 0), m, d))"
    unfolding civil_from_days_def Let_def z_def [symmetric] s prod.case mp_def ..
  finally have r: "d = doy - (153 * mp + 2) div 5 + 1" "m = (if mp < 10 then mp + 3 else mp - 9)"
    "y = yoe + z div 146097 * 400 + (if m \<le> 2 then 1 else 0)"
    unfolding Let_def by blast+
  show ?thesis
    by (rule that [of "z div 146097" yoe doy mp])
       (use z E M r in \<open>simp_all only: mp_def\<close>)
qed

theorem days_from_civil_from_days: "days_from_civil (civil_from_days z0) = z0"
proof -
  obtain y m d where c: "civil_from_days z0 = (y, m, d)" by (cases "civil_from_days z0") auto
  from c obtain era yoe doy mp where e:
    "z0 = era * 146097 + (yoe * 365 + yoe div 4 - yoe div 100 + doy) - 719468"
    "0 \<le> yoe" "yoe < 400" "mp = (5 * doy + 2) div 153" "0 \<le> mp" "mp \<le> 11"
    "d = doy - (153 * mp + 2) div 5 + 1" "1 \<le> d" "d \<le> 31"
    "m = (if mp < 10 then mp + 3 else mp - 9)" "y = yoe + era * 400 + (if m \<le> 2 then 1 else 0)"
    by (rule civil_from_daysE)
  have y: "y - (if m \<le> 2 then 1 else 0) = yoe + era * 400" using e(11) by simp
  have m: "(if 2 < m then m - 3 else m + 9) = mp" using e(5,6,10) by auto
  have "(yoe + era * 400) div 400 = era" "(yoe + era * 400) mod 400 = yoe" using e(2,3) by simp_all
  moreover have "(153 * mp + 2) div 5 + d - 1 = doy" using e(7) by simp
  ultimately show ?thesis
    unfolding c days_from_civil_def prod.case Let_def y m by (simp only: e(1))
qed

lemma civil_from_days_inj: "civil_from_days a = civil_from_days b \<longleftrightarrow> a = b"
  by (metis days_from_civil_from_days)

theorem civil_from_days_range:
  assumes "civil_from_days z = (y, m, d)"
  shows "1 \<le> m \<and> m \<le> 12 \<and> 1 \<le> d \<and> d \<le> 31"
proof -
  from assms obtain mp where "0 \<le> mp" "mp \<le> 11" "1 \<le> d" "d \<le> 31"
    "m = (if mp < 10 then mp + 3 else mp - 9)" by (rule civil_from_daysE)
  then show ?thesis by auto
qed

lemma civil_epoch: "civil_from_days 0 = (1970, 1, 1)" "civil_from_days 20720 = (2026, 9, 24)"
  "civil_from_days 11016 = (2000, 2, 29)"
  by code_simp+

section \<open>toISOString\<close>

definition iso_year :: "int \<Rightarrow> string" where
  "iso_year y = (if 0 \<le> y \<and> y \<le> 9999 then field 4 (nat y)
     else (if y < 0 then ''-'' else ''+'') @ field 6 (nat \<bar>y\<bar>))"

definition toISOString :: "timestamp \<Rightarrow> string" where
  "toISOString t =
     (let (y, m, d) = civil_from_days (t div MS_PER_DAY); r = t mod MS_PER_DAY
      in iso_year y @ ''-'' @ field 2 (nat m) @ ''-'' @ field 2 (nat d) @ ''T''
         @ field 2 (nat (r div 3600000)) @ '':'' @ field 2 (nat (r div 60000 mod 60)) @ '':''
         @ field 2 (nat (r div 1000 mod 60)) @ ''.'' @ field 3 (nat (r mod 1000)) @ ''Z'')"

text \<open>The value a \<open>Date\<close> can hold: 100 million days on either side of the epoch.\<close>

definition valid_date :: "timestamp \<Rightarrow> bool" where
  "valid_date t \<longleftrightarrow> - 8640000000000000 \<le> t \<and> t \<le> 8640000000000000"

lemma toISOString_example: "toISOString 1790208000123 = ''2026-09-24T00:00:00.123Z''"
  by code_simp

lemma civil_year_bound:
  assumes "civil_from_days z = (y, m, d)" "- 100000000 \<le> z" "z \<le> 100000000"
  shows "\<bar>y\<bar> < 10 ^ 6"
proof -
  from assms(1) obtain era yoe doy mp where e:
    "z = era * 146097 + (yoe * 365 + yoe div 4 - yoe div 100 + doy) - 719468"
    "0 \<le> yoe" "yoe < 400" "mp = (5 * doy + 2) div 153" "0 \<le> mp" "mp \<le> 11"
    "y = yoe + era * 400 + (if m \<le> 2 then 1 else 0)"
    by (rule civil_from_daysE)
  have "0 \<le> yoe * 365 + yoe div 4 - yoe div 100 + doy + 1"
    "yoe * 365 + yoe div 4 - yoe div 100 + doy < 147000"
    using e(2-6) by linarith+
  with e(1) assms(2,3) have "- 700 \<le> era" "era \<le> 700" by linarith+
  with e(2,3,7) show ?thesis by auto
qed

lemma field_append_eq:
  assumes "m < 10 ^ w" "n < 10 ^ w" "0 < w" "field w m @ x = field w n @ y"
  shows "m = n \<and> x = y"
  using assms length_field [of m w] length_field [of n w] by simp

lemma iso_year_append_eq:
  assumes "\<bar>a\<bar> < 10 ^ 6" "\<bar>b\<bar> < 10 ^ 6" "iso_year a @ x = iso_year b @ y"
  shows "a = b \<and> x = y"
proof -
  have digit: "field w n \<noteq> c # s" if "c \<in> {CHR ''-'', CHR ''+''}" for w n c s
    using field_digits [of w n] that by (auto simp: is_digit_def)
  have ne: "field 4 n \<noteq> []" for n by (simp add: field_def padStart_def)
  have hd: "field 4 n @ s \<noteq> c # t" if "c \<in> {CHR ''-'', CHR ''+''}" for n c s t
    using digit [OF that] ne by (metis append_eq_Cons_conv)
  have six: "nat \<bar>a\<bar> < 10 ^ 6" "nat \<bar>b\<bar> < 10 ^ 6" using assms(1,2) by simp_all
  show ?thesis
  proof (cases "0 \<le> a \<and> a \<le> 9999"; cases "0 \<le> b \<and> b \<le> 9999")
    assume r: "0 \<le> a \<and> a \<le> 9999" "0 \<le> b \<and> b \<le> 9999"
    with assms(3) have "field 4 (nat a) @ x = field 4 (nat b) @ y" by (simp add: iso_year_def)
    moreover have "nat a < 10 ^ 4" "nat b < 10 ^ 4" using r by (simp_all add: nat_less_iff)
    ultimately have "nat a = nat b \<and> x = y"
      using field_append_eq [of "nat a" 4 "nat b" x y] by simp
    with r show ?thesis by (simp add: eq_nat_nat_iff)
  next
    assume r: "\<not> (0 \<le> a \<and> a \<le> 9999)" "\<not> (0 \<le> b \<and> b \<le> 9999)"
    with assms(3) have "field 6 (nat \<bar>a\<bar>) @ x = field 6 (nat \<bar>b\<bar>) @ y" "(a < 0) = (b < 0)"
      by (auto simp: iso_year_def split: if_splits)
    with six field_append_eq [of "nat \<bar>a\<bar>" 6 "nat \<bar>b\<bar>" x y] show ?thesis by auto
  next
    assume r: "0 \<le> a \<and> a \<le> 9999" "\<not> (0 \<le> b \<and> b \<le> 9999)"
    with assms(3) obtain c t where "field 4 (nat a) @ x = c # t" "c \<in> {CHR ''-'', CHR ''+''}"
      by (simp add: iso_year_def split: if_splits)
    with hd show ?thesis by blast
  next
    assume r: "\<not> (0 \<le> a \<and> a \<le> 9999)" "0 \<le> b \<and> b \<le> 9999"
    with assms(3) [symmetric] obtain c t where "field 4 (nat b) @ y = c # t" "c \<in> {CHR ''-'', CHR ''+''}"
      by (simp add: iso_year_def split: if_splits)
    with hd show ?thesis by blast
  qed
qed

lemma field2: "0 \<le> i \<Longrightarrow> i < 100 \<Longrightarrow> 0 \<le> j \<Longrightarrow> j < 100 \<Longrightarrow>
    field 2 (nat i) @ x = field 2 (nat j) @ y \<Longrightarrow> i = j \<and> x = y"
  using field_append_eq [of "nat i" 2 "nat j" x y] by (simp add: nat_less_iff) linarith

lemma field3: "0 \<le> i \<Longrightarrow> i < 1000 \<Longrightarrow> 0 \<le> j \<Longrightarrow> j < 1000 \<Longrightarrow>
    field 3 (nat i) @ x = field 3 (nat j) @ y \<Longrightarrow> i = j \<and> x = y"
  using field_append_eq [of "nat i" 3 "nat j" x y] by (simp add: nat_less_iff) linarith

theorem toISOString_inj:
  assumes "valid_date s" "valid_date t" "toISOString s = toISOString t"
  shows "s = t"
proof -
  obtain y m d where cs: "civil_from_days (s div MS_PER_DAY) = (y, m, d)" by (metis prod_cases3)
  obtain y' m' d' where ct: "civil_from_days (t div MS_PER_DAY) = (y', m', d')" by (metis prod_cases3)
  define r where "r = s mod MS_PER_DAY"
  define q where "q = t mod MS_PER_DAY"
  have rq: "0 \<le> r" "r < 86400000" "0 \<le> q" "q < 86400000" by (simp_all add: r_def q_def MS_PER_DAY_def)
  have "- 100000000 \<le> u div MS_PER_DAY" "u div MS_PER_DAY \<le> 100000000" if "valid_date u" for u
    using that unfolding valid_date_def MS_PER_DAY_def by linarith+
  then have b: "\<bar>y\<bar> < 10 ^ 6" "\<bar>y'\<bar> < 10 ^ 6"
    using assms(1,2) by (blast intro: civil_year_bound [OF cs] civil_year_bound [OF ct])+
  note R = civil_from_days_range [OF cs] civil_from_days_range [OF ct]
  have "iso_year y @ (''-'' @ field 2 (nat m) @ ''-'' @ field 2 (nat d) @ ''T''
         @ field 2 (nat (r div 3600000)) @ '':'' @ field 2 (nat (r div 60000 mod 60)) @ '':''
         @ field 2 (nat (r div 1000 mod 60)) @ ''.'' @ field 3 (nat (r mod 1000)) @ ''Z'') =
     iso_year y' @ (''-'' @ field 2 (nat m') @ ''-'' @ field 2 (nat d') @ ''T''
         @ field 2 (nat (q div 3600000)) @ '':'' @ field 2 (nat (q div 60000 mod 60)) @ '':''
         @ field 2 (nat (q div 1000 mod 60)) @ ''.'' @ field 3 (nat (q mod 1000)) @ ''Z'')"
    using assms(3) unfolding toISOString_def cs ct prod.case Let_def r_def q_def append_assoc .
  note e = iso_year_append_eq [OF b this, simplified]
  have md: "0 \<le> m" "m < 100" "0 \<le> m'" "m' < 100" "0 \<le> d" "d < 100" "0 \<le> d'" "d' < 100"
    using R by auto
  have hr: "0 \<le> r div 3600000" "r div 3600000 < 100" "0 \<le> q div 3600000" "q div 3600000 < 100"
    using rq by auto
  have sixty: "0 \<le> i mod 60" "i mod 60 < 100" for i :: int
    using pos_mod_bound [of 60 i] by (simp, linarith)
  note m = field2 [OF md(1-4) e [THEN conjunct2]]
  note d = field2 [OF md(5-8) m [THEN conjunct2, simplified]]
  note h = field2 [OF hr d [THEN conjunct2, simplified]]
  note mi = field2 [OF sixty sixty h [THEN conjunct2, simplified]]
  note se = field2 [OF sixty sixty mi [THEN conjunct2, simplified]]
  have ms: "r mod 1000 = q mod 1000"
    using field3 [of "r mod 1000" "q mod 1000" "''Z''" "''Z''"] se by simp
  have dd: "i div 60000 div 60 = i div 3600000" "i div 1000 div 60 = i div 60000" for i :: int
    using zdiv_zmult2_eq [of 60 i 60000] zdiv_zmult2_eq [of 60 i 1000] by simp_all
  have "r div 60000 = q div 60000" using h mi dd by (metis div_mult_mod_eq)
  then have "r div 1000 = q div 1000" using se dd by (metis div_mult_mod_eq)
  then have "r = q" using ms by (metis div_mult_mod_eq)
  moreover have "s div MS_PER_DAY = t div MS_PER_DAY"
    using cs ct e m d civil_from_days_inj by metis
  ultimately show ?thesis by (metis q_def r_def div_mult_mod_eq)
qed

section \<open>Local time\<close>

text \<open>
  \<open>offset\<close> is the time-zone offset of the process in milliseconds (\<open>America/Lima\<close>: -5 hours): the
  local getters read the UTC calendar of \<open>t + offset\<close>.
\<close>

definition local_date :: "int \<Rightarrow> timestamp \<Rightarrow> int \<times> int \<times> int" where
  "local_date offset t = civil_from_days ((t + offset) div MS_PER_DAY)"

definition local_hour_start :: "int \<Rightarrow> timestamp \<Rightarrow> timestamp" where
  "local_hour_start offset t = t - (t + offset) mod MS_PER_HOUR"

end
