(* ===== verification/Audit_Chain.thy ===== *)
theory Audit_Chain
  imports Js_Date Jin_Errors
begin

text \<open>
  The immutable audit log: the hash chain (\<open>src/audit/hash-chain.ts\<close>), the service that appends
  and reads rows (\<open>src/audit/audit.service.ts\<close>) and the daily verification with its persistent
  lock (\<open>src/audit/chain-verification.service.ts\<close>).

  \<open>sha\<close> stands for \<open>createHash('sha256').update(\<dots>).digest('hex')\<close> of Node's crypto module, as a
  function of the concatenated input. The state is the pair of tables \<open>audit_log\<close> and
  \<open>audit_chain_lock\<close>; each call that reaches the database takes the clock reading it makes and
  whether the driver fails (\<open>audit_io\<close>).
\<close>

section \<open>Rows and hashes\<close>

record AppendableRow =
  a_requestId :: uuid
  a_actor :: string
  a_actionType :: string
  a_toolName :: "string option"
  a_inputsHash :: string
  a_planSummary :: "string option"
  a_approvalStatus :: string
  a_approver :: "string option"
  a_externalInputsSummary :: "string option"

record HashableRow = AppendableRow +
  a_timestamp :: timestamp

record AuditLogRow = HashableRow +
  a_id :: int
  a_prevHash :: string
  a_currentHash :: string

definition GENESIS_HASH :: string where
  "GENESIS_HASH = replicate 64 (CHR ''0'')"

fun json_opt :: "string option \<Rightarrow> json" where
  "json_opt None = JNull"
| "json_opt (Some s) = JStr s"

definition canonicalizeRow :: "'r HashableRow_scheme \<Rightarrow> string" where
  "canonicalizeRow row = stringify (JObj [
     (''requestId'', JStr (a_requestId row)),
     (''timestamp'', JStr (toISOString (a_timestamp row))),
     (''actor'', JStr (a_actor row)),
     (''actionType'', JStr (a_actionType row)),
     (''toolName'', json_opt (a_toolName row)),
     (''inputsHash'', JStr (a_inputsHash row)),
     (''planSummary'', json_opt (a_planSummary row)),
     (''approvalStatus'', JStr (a_approvalStatus row)),
     (''approver'', json_opt (a_approver row)),
     (''externalInputsSummary'', json_opt (a_externalInputsSummary row))])"

definition computeHash :: "(string \<Rightarrow> string) \<Rightarrow> string \<Rightarrow> string \<Rightarrow> string" where
  "computeHash sha prevHash rowDataCanonical = sha (prevHash @ rowDataCanonical)"

definition computeRowHash :: "(string \<Rightarrow> string) \<Rightarrow> string \<Rightarrow> 'r HashableRow_scheme \<Rightarrow> string" where
  "computeRowHash sha prevHash row = computeHash sha prevHash (canonicalizeRow row)"

datatype ChainVerificationResult = ChainValid | ChainBrokenAt int

text \<open>The loop of \<open>verifyChain\<close>, with the expected previous hash as the loop variable.\<close>

fun verify_from :: "(string \<Rightarrow> string) \<Rightarrow> string \<Rightarrow> AuditLogRow list \<Rightarrow> ChainVerificationResult" where
  "verify_from sha expectedPrevHash [] = ChainValid"
| "verify_from sha expectedPrevHash (row # rows) =
     (if a_prevHash row \<noteq> expectedPrevHash then ChainBrokenAt (a_id row)
      else if computeRowHash sha (a_prevHash row) row \<noteq> a_currentHash row then ChainBrokenAt (a_id row)
      else verify_from sha (a_currentHash row) rows)"

definition verifyChain :: "(string \<Rightarrow> string) \<Rightarrow> AuditLogRow list \<Rightarrow> ChainVerificationResult" where
  "verifyChain sha rows = verify_from sha GENESIS_HASH rows"

section \<open>The tables\<close>

record lock_row =
  l_locked :: bool
  l_lockedAt :: "timestamp option"
  l_reason :: "string option"

record audit_db =
  audit_log :: "AuditLogRow list"
  audit_next_id :: int
  audit_chain_lock :: "lock_row option"

record audit_io =
  io_now :: timestamp
  io_fault :: "string option"

text \<open>\<open>ORDER BY id\<close>\<close>

definition rows_asc :: "'s audit_db_scheme \<Rightarrow> AuditLogRow list" where
  "rows_asc db = sort_key a_id (audit_log db)"

section \<open>The lock and the daily verification\<close>

definition isLocked :: "'s audit_db_scheme \<Rightarrow> bool" where
  "isLocked db = (case audit_chain_lock db of Some r \<Rightarrow> l_locked r | None \<Rightarrow> False)"

definition upsertLock :: "lock_row \<Rightarrow> 's audit_db_scheme \<Rightarrow> 's audit_db_scheme" where
  "upsertLock st db = db\<lparr>audit_chain_lock := Some st\<rparr>"

definition unlock :: "'s audit_db_scheme \<Rightarrow> 's audit_db_scheme" where
  "unlock db = upsertLock \<lparr>l_locked = False, l_lockedAt = None, l_reason = None\<rparr> db"

definition verifyDaily ::
  "(string \<Rightarrow> string) \<Rightarrow> timestamp \<Rightarrow> 's audit_db_scheme \<Rightarrow> ChainVerificationResult \<times> 's audit_db_scheme" where
  "verifyDaily sha now db =
     (let result = verifyChain sha (rows_asc db) in
      case result of
        ChainBrokenAt i \<Rightarrow>
          (result, upsertLock \<lparr>l_locked = True, l_lockedAt = Some now,
             l_reason = Some (''Audit chain CORRUPTA en la fila id='' @ show_int i @ ''.'')\<rparr> db)
      | ChainValid \<Rightarrow> (result, db))"

section \<open>Appending\<close>

text \<open>
  \<open>appendRow\<close>: the lock first, then one transaction under the advisory lock that reads the last
  hash, chains the new row to it and inserts it.
\<close>

definition mk_row :: "AppendableRow \<Rightarrow> timestamp \<Rightarrow> int \<Rightarrow> string \<Rightarrow> string \<Rightarrow> AuditLogRow" where
  "mk_row d t i prev cur = \<lparr>a_requestId = a_requestId d, a_actor = a_actor d,
     a_actionType = a_actionType d, a_toolName = a_toolName d, a_inputsHash = a_inputsHash d,
     a_planSummary = a_planSummary d, a_approvalStatus = a_approvalStatus d,
     a_approver = a_approver d, a_externalInputsSummary = a_externalInputsSummary d,
     a_timestamp = t, a_id = i, a_prevHash = prev, a_currentHash = cur\<rparr>"

definition last_hash :: "'s audit_db_scheme \<Rightarrow> string" where
  "last_hash db = (case rev (rows_asc db) of row # _ \<Rightarrow> a_currentHash row | [] \<Rightarrow> GENESIS_HASH)"

definition hashable :: "AppendableRow \<Rightarrow> timestamp \<Rightarrow> HashableRow" where
  "hashable d t = \<lparr>a_requestId = a_requestId d, a_actor = a_actor d,
     a_actionType = a_actionType d, a_toolName = a_toolName d, a_inputsHash = a_inputsHash d,
     a_planSummary = a_planSummary d, a_approvalStatus = a_approvalStatus d,
     a_approver = a_approver d, a_externalInputsSummary = a_externalInputsSummary d,
     a_timestamp = t\<rparr>"

text \<open>The transaction, which the advisory lock makes one step.\<close>

definition insertRow :: "(string \<Rightarrow> string) \<Rightarrow> timestamp \<Rightarrow> AppendableRow \<Rightarrow> 's audit_db_scheme
    \<Rightarrow> AuditLogRow \<times> 's audit_db_scheme" where
  "insertRow sha now d db =
     (let prevHash = last_hash db;
          currentHash = computeRowHash sha prevHash (hashable d now);
          row = mk_row d now (audit_next_id db) prevHash currentHash
      in (row, db\<lparr>audit_log := audit_log db @ [row], audit_next_id := audit_next_id db + 1\<rparr>))"

definition appendRow :: "(string \<Rightarrow> string) \<Rightarrow> audit_io \<Rightarrow> AppendableRow \<Rightarrow> 's audit_db_scheme
    \<Rightarrow> (jin_error + AuditLogRow) \<times> 's audit_db_scheme" where
  "appendRow sha io d db =
     (if isLocked db then (Inl AuditChainLockedError, db)
      else case io_fault io of
        Some e \<Rightarrow> (Inl (OtherError e), db)
      | None \<Rightarrow> (case insertRow sha (io_now io) d db of (row, db') \<Rightarrow> (Inr row, db')))"

declare insertRow_def [simp]

definition toolCallData :: "uuid \<Rightarrow> string \<Rightarrow> string \<Rightarrow> string \<Rightarrow> string option \<Rightarrow> string \<Rightarrow> string option \<Rightarrow> AppendableRow" where
  "toolCallData requestId actor toolName inputsHash planSummary approvalStatus externalInputs =
     \<lparr>a_requestId = requestId, a_actor = actor, a_actionType = ''tool_call'',
      a_toolName = Some toolName, a_inputsHash = inputsHash, a_planSummary = planSummary,
      a_approvalStatus = approvalStatus, a_approver = None,
      a_externalInputsSummary = externalInputs\<rparr>"

definition recordToolCall ::
  "(string \<Rightarrow> string) \<Rightarrow> audit_io \<Rightarrow> uuid \<Rightarrow> string \<Rightarrow> string \<Rightarrow> string \<Rightarrow> string option \<Rightarrow> string \<Rightarrow> string option
    \<Rightarrow> 's audit_db_scheme \<Rightarrow> (jin_error + AuditLogRow) \<times> 's audit_db_scheme" where
  "recordToolCall sha io requestId actor toolName inputsHash planSummary approvalStatus externalInputs db =
     appendRow sha io (toolCallData requestId actor toolName inputsHash planSummary approvalStatus externalInputs) db"

definition approvalData :: "uuid \<Rightarrow> string \<Rightarrow> string \<Rightarrow> string \<Rightarrow> AppendableRow" where
  "approvalData requestId approver toolName inputsHash =
     \<lparr>a_requestId = requestId, a_actor = ''user'', a_actionType = ''approval'',
      a_toolName = Some toolName, a_inputsHash = inputsHash, a_planSummary = None,
      a_approvalStatus = ''approved'', a_approver = Some approver, a_externalInputsSummary = None\<rparr>"

definition recordApproval :: "(string \<Rightarrow> string) \<Rightarrow> audit_io \<Rightarrow> uuid \<Rightarrow> string \<Rightarrow> string \<Rightarrow> string
    \<Rightarrow> 's audit_db_scheme \<Rightarrow> (jin_error + AuditLogRow) \<times> 's audit_db_scheme" where
  "recordApproval sha io requestId approver toolName inputsHash db =
     appendRow sha io (approvalData requestId approver toolName inputsHash) db"

definition rejectionData :: "uuid \<Rightarrow> string \<Rightarrow> string \<Rightarrow> string \<Rightarrow> AppendableRow" where
  "rejectionData requestId approver toolName inputsHash =
     \<lparr>a_requestId = requestId, a_actor = ''user'', a_actionType = ''rejection'',
      a_toolName = Some toolName, a_inputsHash = inputsHash, a_planSummary = None,
      a_approvalStatus = ''rejected'', a_approver = Some approver, a_externalInputsSummary = None\<rparr>"

definition recordRejection :: "(string \<Rightarrow> string) \<Rightarrow> audit_io \<Rightarrow> uuid \<Rightarrow> string \<Rightarrow> string \<Rightarrow> string
    \<Rightarrow> 's audit_db_scheme \<Rightarrow> (jin_error + AuditLogRow) \<times> 's audit_db_scheme" where
  "recordRejection sha io requestId approver toolName inputsHash db =
     appendRow sha io (rejectionData requestId approver toolName inputsHash) db"

definition executionFailureData :: "uuid \<Rightarrow> string \<Rightarrow> string \<Rightarrow> AppendableRow" where
  "executionFailureData requestId toolName inputsHash =
     \<lparr>a_requestId = requestId, a_actor = ''system'', a_actionType = ''execution_failed'',
      a_toolName = Some toolName, a_inputsHash = inputsHash, a_planSummary = None,
      a_approvalStatus = ''failed'', a_approver = None, a_externalInputsSummary = None\<rparr>"

definition recordExecutionFailure :: "(string \<Rightarrow> string) \<Rightarrow> audit_io \<Rightarrow> uuid \<Rightarrow> string \<Rightarrow> string
    \<Rightarrow> 's audit_db_scheme \<Rightarrow> (jin_error + AuditLogRow) \<times> 's audit_db_scheme" where
  "recordExecutionFailure sha io requestId toolName inputsHash db =
     appendRow sha io (executionFailureData requestId toolName inputsHash) db"

definition timeoutData :: "uuid \<Rightarrow> string \<Rightarrow> string \<Rightarrow> string \<Rightarrow> AppendableRow" where
  "timeoutData requestId toolName inputsHash status =
     \<lparr>a_requestId = requestId, a_actor = ''system'', a_actionType = ''timeout'',
      a_toolName = Some toolName, a_inputsHash = inputsHash, a_planSummary = None,
      a_approvalStatus = status, a_approver = None, a_externalInputsSummary = None\<rparr>"

definition recordTimeout :: "(string \<Rightarrow> string) \<Rightarrow> audit_io \<Rightarrow> uuid \<Rightarrow> string \<Rightarrow> string
    \<Rightarrow> string \<Rightarrow> 's audit_db_scheme \<Rightarrow> (jin_error + AuditLogRow) \<times> 's audit_db_scheme" where
  "recordTimeout sha io requestId toolName inputsHash status db =
     appendRow sha io (timeoutData requestId toolName inputsHash status) db"

lemmas data_defs = toolCallData_def approvalData_def rejectionData_def executionFailureData_def timeoutData_def
declare data_defs [simp]

lemmas record_defs = recordToolCall_def recordApproval_def recordRejection_def
  recordExecutionFailure_def recordTimeout_def

section \<open>Paginated reading\<close>

text \<open>
  \<open>listRecent\<close>: rows older than the cursor and of the given request (an empty string counts as
  absent, as in the code's truth test), newest first, one more than asked to know whether there is
  a next page. The cursor is a decimal row id.
\<close>

text \<open>\<open>BigInt\<close> of a string: surrounding blanks are dropped, nothing left is zero; otherwise decimal digits
  with an optional sign, or digits after \<open>0x\<close>, \<open>0o\<close>, \<open>0b\<close>; anything else is a \<open>SyntaxError\<close>.\<close>

definition js_blank :: "char \<Rightarrow> bool" where
  "js_blank c \<longleftrightarrow> of_char c \<in> {9, 10, 11, 12, 13, 32, 160 :: nat}"

definition js_trim :: "string \<Rightarrow> string" where
  "js_trim s = rev (dropWhile js_blank (rev (dropWhile js_blank s)))"

definition radix_digit :: "char \<Rightarrow> nat option" where
  "radix_digit c = (let n = of_char c in
     if 48 \<le> n \<and> n \<le> 57 then Some (n - 48) else if 97 \<le> n \<and> n \<le> 102 then Some (n - 87)
     else if 65 \<le> n \<and> n \<le> 70 then Some (n - 55) else None)"

fun read_radix :: "nat \<Rightarrow> nat \<Rightarrow> string \<Rightarrow> int option" where
  "read_radix base acc [] = Some (int acc)"
| "read_radix base acc (c # s) = (case radix_digit c of
     Some d \<Rightarrow> if d < base then read_radix base (base * acc + d) s else None
   | None \<Rightarrow> None)"

definition read_prefixed :: "string \<Rightarrow> int option" where
  "read_prefixed t = (case t of
     z # x # d # ds \<Rightarrow> if z \<noteq> CHR ''0'' then None
       else if x \<in> {CHR ''x'', CHR ''X''} then read_radix 16 0 (d # ds)
       else if x \<in> {CHR ''o'', CHR ''O''} then read_radix 8 0 (d # ds)
       else if x \<in> {CHR ''b'', CHR ''B''} then read_radix 2 0 (d # ds) else None
   | _ \<Rightarrow> None)"

definition js_BigInt :: "string \<Rightarrow> int option" where
  "js_BigInt s = (let t = js_trim s in
     if t = [] then Some 0
     else if list_all is_digit t then Some (int (read_nat t))
     else (case t of
         c # ds \<Rightarrow> if c \<in> {CHR ''-'', CHR ''+''}
           then (if ds \<noteq> [] \<and> list_all is_digit ds
                 then Some (if c = CHR ''-'' then - int (read_nat ds) else int (read_nat ds)) else None)
           else read_prefixed t
       | [] \<Rightarrow> None))"

definition listRecent :: "nat \<Rightarrow> string option \<Rightarrow> uuid option \<Rightarrow> 's audit_db_scheme
    \<Rightarrow> jin_error + (AuditLogRow list \<times> string option)" where
  "listRecent limit cursor requestId db =
     (let ok_req = (\<lambda>row. case requestId of Some r \<Rightarrow> r = [] \<or> a_requestId row = r | None \<Rightarrow> True);
          page = (\<lambda>below.
            let rows = take (limit + 1) (filter (\<lambda>row. below (a_id row) \<and> ok_req row) (rev (rows_asc db)));
                hasMore = limit < length rows;
                items = (if hasMore then take limit rows else rows);
                nextCursor = (if hasMore then (case rev items of row # _ \<Rightarrow> Some (show_int (a_id row)) | [] \<Rightarrow> None)
                              else None)
            in Inr (items, nextCursor))
      in case cursor of
           None \<Rightarrow> page (\<lambda>_. True)
         | Some c \<Rightarrow> if c = [] then page (\<lambda>_. True)
             else (case js_BigInt c of
                 None \<Rightarrow> Inl (OtherError ''SyntaxError'')
               | Some k \<Rightarrow> page (\<lambda>i. i < k)))"

section \<open>Well-formed logs\<close>

text \<open>
  What the serial primary key gives: ids grow in insertion order and stay below the sequence's next
  value.
\<close>

definition audit_wf :: "'s audit_db_scheme \<Rightarrow> bool" where
  "audit_wf db \<longleftrightarrow> sorted_wrt (<) (map a_id (audit_log db)) \<and>
     (\<forall>row \<in> set (audit_log db). 0 < a_id row \<and> a_id row < audit_next_id db) \<and> 0 < audit_next_id db"

definition chain_ok :: "(string \<Rightarrow> string) \<Rightarrow> 's audit_db_scheme \<Rightarrow> bool" where
  "chain_ok sha db \<longleftrightarrow> audit_wf db \<and> verifyChain sha (rows_asc db) = ChainValid"

lemma rows_asc_wf: "audit_wf db \<Longrightarrow> rows_asc db = audit_log db"
proof -
  assume "audit_wf db"
  then have "sorted (map a_id (audit_log db))"
    by (auto simp: audit_wf_def intro: sorted_wrt_mono_rel [of _ "(<)"])
  then show ?thesis by (simp add: rows_asc_def sort_key_sorted_id)
qed

lemma audit_wf_frame:
  "audit_log db' = audit_log db \<Longrightarrow> audit_next_id db' = audit_next_id db \<Longrightarrow> audit_wf db' = audit_wf db"
  by (simp add: audit_wf_def)

lemma chain_ok_frame:
  "audit_log db' = audit_log db \<Longrightarrow> audit_next_id db' = audit_next_id db \<Longrightarrow> chain_ok sha db' = chain_ok sha db"
  by (simp add: chain_ok_def audit_wf_def rows_asc_def)

definition end_hash :: "string \<Rightarrow> AuditLogRow list \<Rightarrow> string" where
  "end_hash h rows = (if rows = [] then h else a_currentHash (last rows))"

lemma end_hash_simps [simp]:
  "end_hash h [] = h" "end_hash h (r # rows) = end_hash (a_currentHash r) rows"
  by (simp_all add: end_hash_def)

lemma last_hash_wf: "audit_wf db \<Longrightarrow> last_hash db = end_hash GENESIS_HASH (audit_log db)"
  by (cases "audit_log db" rule: rev_cases) (simp_all add: last_hash_def rows_asc_wf end_hash_def)

lemma verify_from_append:
  "verify_from sha h (xs @ ys) = (case verify_from sha h xs of
     ChainValid \<Rightarrow> verify_from sha (end_hash h xs) ys | ChainBrokenAt i \<Rightarrow> ChainBrokenAt i)"
  by (induction xs arbitrary: h) (simp_all split: ChainVerificationResult.split)

lemma verify_from_valid_append:
  "verify_from sha h (xs @ ys) = ChainValid \<longleftrightarrow>
     verify_from sha h xs = ChainValid \<and> verify_from sha (end_hash h xs) ys = ChainValid"
  by (simp add: verify_from_append split: ChainVerificationResult.splits)

lemma computeRowHash_mk_row [simp]:
  "computeRowHash sha h (mk_row d t i p c) = computeRowHash sha h (hashable d t)"
  by (simp add: computeRowHash_def canonicalizeRow_def mk_row_def hashable_def)

lemma mk_row_simps [simp]:
  "a_id (mk_row d t i p c) = i" "a_prevHash (mk_row d t i p c) = p"
  "a_currentHash (mk_row d t i p c) = c" "a_requestId (mk_row d t i p c) = a_requestId d"
  "a_actionType (mk_row d t i p c) = a_actionType d" "a_approver (mk_row d t i p c) = a_approver d"
  "a_toolName (mk_row d t i p c) = a_toolName d" "a_timestamp (mk_row d t i p c) = t"
  "a_approvalStatus (mk_row d t i p c) = a_approvalStatus d"
  "a_inputsHash (mk_row d t i p c) = a_inputsHash d" "a_actor (mk_row d t i p c) = a_actor d"
  by (simp_all add: mk_row_def)

section \<open>The effect of an append\<close>

lemma appendRow_InlD:
  "appendRow sha io d db = (Inl e, db') \<Longrightarrow> db' = db"
  by (auto simp: appendRow_def Let_def split: if_splits option.splits)

lemma appendRow_InrE:
  assumes "appendRow sha io d db = (Inr row, db')"
  obtains "\<not> isLocked db" "io_fault io = None"
    "row = mk_row d (io_now io) (audit_next_id db) (last_hash db)
       (computeRowHash sha (last_hash db) (hashable d (io_now io)))"
    "db' = db\<lparr>audit_log := audit_log db @ [row], audit_next_id := audit_next_id db + 1\<rparr>"
  using assms by (auto simp: appendRow_def Let_def split: if_splits option.splits)

lemma appendRow_isLocked [frame_simps]:
  "isLocked (snd (appendRow sha io d db)) = isLocked db"
  by (auto simp: appendRow_def Let_def isLocked_def split: option.splits)

lemma appendRow_wf:
  assumes "audit_wf db" "appendRow sha io d db = (r, db')"
  shows "audit_wf db'"
proof (cases r)
  case (Inl e)
  with assms show ?thesis by (auto dest: appendRow_InlD)
next
  case (Inr row)
  with assms(2) have "a_id row = audit_next_id db"
    "db' = db\<lparr>audit_log := audit_log db @ [row], audit_next_id := audit_next_id db + 1\<rparr>"
    by (auto elim: appendRow_InrE)
  with assms(1) show ?thesis by (fastforce simp: audit_wf_def sorted_wrt_append)
qed

lemma appendRow_chain_ok:
  assumes "chain_ok sha db" "appendRow sha io d db = (r, db')"
  shows "chain_ok sha db'"
proof (cases r)
  case (Inl e)
  with assms show ?thesis by (auto dest: appendRow_InlD)
next
  case (Inr row)
  from assms(1) have wf: "audit_wf db" by (simp add: chain_ok_def)
  from assms(2) Inr have row: "row = mk_row d (io_now io) (audit_next_id db) (last_hash db)
       (computeRowHash sha (last_hash db) (hashable d (io_now io)))"
    and db': "audit_log db' = audit_log db @ [row]"
    by (auto elim: appendRow_InrE)
  have wf': "audit_wf db'" by (rule appendRow_wf [OF wf assms(2)])
  have "verify_from sha GENESIS_HASH (audit_log db @ [row]) = ChainValid"
    using assms(1) wf by (simp add: verify_from_valid_append chain_ok_def verifyChain_def rows_asc_wf
        row last_hash_wf)
  with wf' db' show ?thesis by (simp add: chain_ok_def verifyChain_def rows_asc_wf)
qed

text \<open>C4: every append to a valid chain leaves a valid, well-formed chain that extends the old one by
  exactly the new row; a failed append leaves the log untouched.\<close>

theorem audit_append_keeps_chain:
  assumes "chain_ok sha db" "appendRow sha io d db = (r, db')"
  shows "chain_ok sha db' \<and> audit_log db' = audit_log db @ (case r of Inr row \<Rightarrow> [row] | Inl _ \<Rightarrow> [])"
  using appendRow_chain_ok [OF assms] assms(2)
  by (cases r) (auto dest: appendRow_InlD elim: appendRow_InrE)

section \<open>Tamper evidence\<close>

definition row_content :: "'r HashableRow_scheme \<Rightarrow> HashableRow" where
  "row_content r = \<lparr>a_requestId = a_requestId r, a_actor = a_actor r,
     a_actionType = a_actionType r, a_toolName = a_toolName r, a_inputsHash = a_inputsHash r,
     a_planSummary = a_planSummary r, a_approvalStatus = a_approvalStatus r,
     a_approver = a_approver r, a_externalInputsSummary = a_externalInputsSummary r,
     a_timestamp = a_timestamp r\<rparr>"

lemma json_opt_inj [simp]: "json_opt a = json_opt b \<longleftrightarrow> a = b"
  by (cases a; cases b) simp_all

text \<open>The canonical form determines the content: nothing of a row is lost by serialising it.\<close>

lemma canonicalizeRow_inj:
  assumes "valid_date (a_timestamp r)" "valid_date (a_timestamp r')"
    "canonicalizeRow r = canonicalizeRow r'"
  shows "row_content r = row_content r'"
  using assms(3) toISOString_inj [OF assms(1,2)]
  unfolding canonicalizeRow_def stringify_inj by (simp add: row_content_def)

definition preimage :: "AuditLogRow \<Rightarrow> string" where
  "preimage r = a_prevHash r @ canonicalizeRow r"

lemma computeRowHash_preimage: "computeRowHash sha (a_prevHash r) r = sha (preimage r)"
  by (simp add: computeRowHash_def computeHash_def preimage_def)

lemma verify_from_Cons_valid:
  "verify_from sha h (r # rows) = ChainValid \<longleftrightarrow> a_prevHash r = h \<and>
     a_currentHash r = sha (preimage r) \<and> verify_from sha (a_currentHash r) rows = ChainValid"
  by (auto simp: computeRowHash_preimage)

lemma computeRowHash_collision:
  assumes "inj_on sha {preimage r, preimage r'}" "a_prevHash r' = a_prevHash r"
    "valid_date (a_timestamp r)" "valid_date (a_timestamp r')" "row_content r' \<noteq> row_content r"
  shows "sha (preimage r') \<noteq> sha (preimage r)"
  using assms canonicalizeRow_inj [OF assms(4,3)]
  by (auto simp: preimage_def inj_on_def)


text \<open>
  Rewriting a row and its own hash instead breaks the link to the next one; and more generally the
  last hash commits to the whole history.
\<close>

text \<open>The last hash of the log commits to its whole content: two logs of the same length that both
  verify and end in the same hash hold the same rows' contents, unless SHA-256 collides on what was
  hashed.\<close>

theorem audit_head_commits_history:
  assumes "verifyChain sha rows = ChainValid" "verifyChain sha rows' = ChainValid"
    and "length rows = length rows'"
    and "end_hash GENESIS_HASH rows = end_hash GENESIS_HASH rows'"
    and "inj_on sha (preimage ` (set rows \<union> set rows'))" "\<forall>x. length (sha x) = 64"
    and "\<forall>r \<in> set rows \<union> set rows'. valid_date (a_timestamp r)"
  shows "map row_content rows = map row_content rows'"
  using assms
proof (induction rows arbitrary: rows' rule: rev_induct)
  case Nil
  then show ?case by simp
next
  case (snoc r xs)
  from snoc.prems(3) obtain ys r' where rows': "rows' = ys @ [r']" and len: "length xs = length ys"
    by (cases rows' rule: rev_cases) auto
  have v: "verify_from sha GENESIS_HASH xs = ChainValid" "verify_from sha GENESIS_HASH ys = ChainValid"
    "a_prevHash r = end_hash GENESIS_HASH xs" "a_currentHash r = sha (preimage r)"
    "a_prevHash r' = end_hash GENESIS_HASH ys" "a_currentHash r' = sha (preimage r')"
    using snoc.prems(1,2) rows'
    by (simp_all only: verifyChain_def verify_from_valid_append verify_from_Cons_valid)
  have hash64: "length (end_hash GENESIS_HASH zs) = 64" if "verify_from sha GENESIS_HASH zs = ChainValid" for zs
    using that snoc.prems(6)
    by (cases zs rule: rev_cases)
       (simp add: GENESIS_HASH_def,
        simp only: end_hash_def verify_from_valid_append verify_from_Cons_valid, simp)
  have "sha (preimage r) = sha (preimage r')"
    using snoc.prems(4) rows' v(4,6) by (simp add: end_hash_def)
  then have "preimage r = preimage r'"
    by (rule inj_onD [OF snoc.prems(5)]) (use rows' in simp_all)
  then have eq: "a_prevHash r = a_prevHash r'" "canonicalizeRow r = canonicalizeRow r'"
    using v(3,5) hash64 [OF v(1)] hash64 [OF v(2)] by (simp_all add: preimage_def)
  have "row_content r = row_content r'"
    using canonicalizeRow_inj eq(2) snoc.prems(7) rows' by auto
  moreover have "map row_content xs = map row_content ys"
  proof (rule snoc.IH)
    show "inj_on sha (preimage ` (set xs \<union> set ys))"
      using snoc.prems(5) rows' by (auto intro: inj_on_subset)
  qed (use v eq(1) len snoc.prems(6,7) rows' in \<open>auto simp: verifyChain_def\<close>)
  ultimately show ?case using rows' by simp
qed

section \<open>The lock\<close>

text \<open>Once the daily verification finds a broken chain, every later append fails with
  \<open>AuditChainLockedError\<close> and changes nothing, and verifying again does not lift the lock.\<close>

theorem audit_corruption_blocks_writes:
  assumes "verifyDaily sha now db = (ChainBrokenAt i, db')"
  shows "appendRow sha io d db' = (Inl AuditChainLockedError, db')
    \<and> isLocked (snd (verifyDaily sha now' db')) \<and> audit_log db' = audit_log db
    \<and> \<not> isLocked (unlock db')"
proof -
  have "isLocked db'" "audit_log db' = audit_log db"
    using assms by (auto simp: verifyDaily_def Let_def upsertLock_def isLocked_def
        split: ChainVerificationResult.splits)
  then show ?thesis
    by (auto simp: appendRow_def verifyDaily_def Let_def upsertLock_def isLocked_def unlock_def
        split: ChainVerificationResult.splits)
qed

section \<open>Pagination\<close>

text \<open>The rows a reader with filter \<open>requestId\<close> has still to see, newest first.\<close>

definition req_matches :: "uuid option \<Rightarrow> AuditLogRow \<Rightarrow> bool" where
  "req_matches requestId row \<longleftrightarrow>
     (case requestId of Some r \<Rightarrow> r = [] \<or> a_requestId row = r | None \<Rightarrow> True)"

definition unread :: "uuid option \<Rightarrow> int option \<Rightarrow> 's audit_db_scheme \<Rightarrow> AuditLogRow list" where
  "unread requestId k db = filter (\<lambda>row. (case k of None \<Rightarrow> True | Some i \<Rightarrow> a_id row < i) \<and> req_matches requestId row)
     (rev (rows_asc db))"

lemma digit_not_blank: "is_digit c \<Longrightarrow> \<not> js_blank c"
  by (auto simp: is_digit_def js_blank_def)

lemma js_trim_digits: "list_all is_digit s \<Longrightarrow> js_trim s = s"
proof -
  assume a: "list_all is_digit s"
  have "dropWhile js_blank t = t" if "list_all is_digit t" for t
    using that by (cases t) (simp_all add: digit_not_blank)
  from this [OF a] this [of "rev s"] a show ?thesis by (simp add: js_trim_def)
qed

lemma js_BigInt_show_int [simp]: "0 \<le> i \<Longrightarrow> js_BigInt (show_int i) = Some i"
  using show_nat_digits [of "nat i"]
  by (simp add: js_BigInt_def show_int_def list_all_iff js_trim_digits)

lemma show_int_nonempty [simp]: "show_int i \<noteq> []"
  by (simp add: show_int_def)

lemma listRecent_eq:
  assumes "case k of None \<Rightarrow> cursor = None | Some i \<Rightarrow> 0 \<le> i \<and> cursor = Some (show_int i)"
  shows "listRecent limit cursor requestId db =
    (let rest = unread requestId k db in
     Inr (if limit < length rest
          then (take limit rest, case rev (take limit rest) of row # _ \<Rightarrow> Some (show_int (a_id row)) | [] \<Rightarrow> None)
          else (rest, None)))"
  using assms
  by (cases k) (auto simp: listRecent_def unread_def req_matches_def Let_def min_def
      split: option.splits)

lemma filter_below_sorted:
  assumes "sorted_wrt (\<lambda>a b. a_id b < a_id a) (xs @ r # ys)"
  shows "filter (\<lambda>row. a_id row < a_id r \<and> P row) (xs @ r # ys) = filter P ys"
proof -
  have "filter (\<lambda>row. a_id row < a_id r \<and> P row) xs = []"
    using assms by (auto simp: sorted_wrt_append filter_empty_conv)
  moreover have "filter (\<lambda>row. a_id row < a_id r \<and> P row) ys = filter P ys"
    using assms by (intro filter_cong) (auto simp: sorted_wrt_append)
  ultimately show ?thesis by simp
qed

lemma unread_step:
  assumes "audit_wf db" "unread requestId k db = xs @ r # ys"
  shows "unread requestId (Some (a_id r)) db = ys"
proof -
  let ?P = "\<lambda>row. (case k of None \<Rightarrow> True | Some i \<Rightarrow> a_id row < i) \<and> req_matches requestId row"
  have "sorted_wrt (\<lambda>a b. a_id b < a_id a) (rev (rows_asc db))"
    using assms(1) by (simp add: rows_asc_wf audit_wf_def sorted_wrt_map sorted_wrt_rev)
  then have s: "sorted_wrt (\<lambda>a b. a_id b < a_id a) (unread requestId k db)"
    unfolding unread_def by (rule sorted_wrt_filter)
  have "r \<in> set (unread requestId k db)" using assms(2) by simp
  then have r: "?P r" by (auto simp: unread_def)
  have "unread requestId (Some (a_id r)) db =
      filter (\<lambda>row. a_id row < a_id r \<and> req_matches requestId row) (unread requestId k db)"
    unfolding unread_def filter_filter using r
    by (intro filter_cong) (auto split: option.splits)
  also have "\<dots> = filter (req_matches requestId) ys"
    unfolding assms(2) by (rule filter_below_sorted) (use s assms(2) in simp)
  also have "\<dots> = ys"
  proof -
    have "set ys \<subseteq> set (unread requestId k db)" using assms(2) by auto
    then show ?thesis by (intro filter_True) (auto simp: unread_def)
  qed
  finally show ?thesis .
qed

text \<open>A client that follows \<open>nextCursor\<close> for at most \<open>fuel\<close> pages.\<close>

fun fetch_pages :: "nat \<Rightarrow> nat \<Rightarrow> string option \<Rightarrow> uuid option \<Rightarrow> 's audit_db_scheme \<Rightarrow> AuditLogRow list option" where
  "fetch_pages 0 limit cursor requestId db = None"
| "fetch_pages (Suc fuel) limit cursor requestId db =
     (case listRecent limit cursor requestId db of
        Inl _ \<Rightarrow> None
      | Inr (items, None) \<Rightarrow> Some items
      | Inr (items, Some c) \<Rightarrow> map_option ((@) items) (fetch_pages fuel limit (Some c) requestId db))"

lemma fetch_pages_unread:
  assumes "audit_wf db" "0 < limit" "length (unread requestId k db) < fuel"
    and "case k of None \<Rightarrow> cursor = None | Some i \<Rightarrow> 0 \<le> i \<and> cursor = Some (show_int i)"
  shows "fetch_pages fuel limit cursor requestId db = Some (unread requestId k db)"
  using assms(3,4)
proof (induction fuel arbitrary: k cursor)
  case 0
  then show ?case by simp
next
  case (Suc fuel)
  let ?rest = "unread requestId k db"
  show ?case
  proof (cases "limit < length ?rest")
    case False
    then show ?thesis by (simp add: listRecent_eq [OF Suc.prems(2)] Let_def)
  next
    case True
    then obtain xs r where xr: "take limit ?rest = xs @ [r]"
      using assms(2) by (cases "take limit ?rest" rule: rev_cases) auto
    then have split: "?rest = xs @ r # drop limit ?rest"
      by (metis append_Cons append_Nil append_assoc append_take_drop_id)
    then have nxt: "unread requestId (Some (a_id r)) db = drop limit ?rest"
      by (rule unread_step [OF assms(1)])
    have "r \<in> set ?rest" using split by (metis in_set_conv_decomp)
    then have "0 \<le> a_id r" using assms(1) by (auto simp: unread_def rows_asc_wf audit_wf_def)
    then have "fetch_pages fuel limit (Some (show_int (a_id r))) requestId db = Some (drop limit ?rest)"
      using Suc.IH [of "Some (a_id r)" "Some (show_int (a_id r))"] nxt Suc.prems(1) assms(2) True by simp
    then show ?thesis
      using True xr split by (simp add: listRecent_eq [OF Suc.prems(2)] Let_def)
  qed
qed

text \<open>Following the cursors of \<open>listRecent\<close> reads every matching row exactly once, newest first,
  and ends after at most one page more than there are rows.\<close>

theorem audit_pagination_complete:
  assumes "audit_wf db" "0 < limit" "length (audit_log db) < fuel"
  shows "fetch_pages fuel limit None requestId db =
    Some (filter (req_matches requestId) (rev (audit_log db)))"
proof -
  have u: "unread requestId None db = filter (req_matches requestId) (rev (audit_log db))"
    using assms(1) by (simp add: unread_def rows_asc_wf)
  have "length (unread requestId None db) < fuel"
    unfolding u using assms(3) length_filter_le [of "req_matches requestId" "rev (audit_log db)"] by simp
  with fetch_pages_unread [OF assms(1,2), of requestId None fuel None] u show ?thesis by simp
qed

section \<open>Witnesses\<close>

definition sample_data :: "string \<Rightarrow> AppendableRow" where
  "sample_data who = \<lparr>a_requestId = ''r1'', a_actor = who, a_actionType = ''approval'',
     a_toolName = Some ''sendEmail'', a_inputsHash = ''h'', a_planSummary = None,
     a_approvalStatus = ''approved'', a_approver = Some ''owner'', a_externalInputsSummary = None\<rparr>"

definition sample_sha :: "string \<Rightarrow> string" where
  "sample_sha x = take 64 (rev x @ replicate 64 (CHR ''0''))"

definition sample_first :: "(string \<Rightarrow> string) \<Rightarrow> int \<Rightarrow> AuditLogRow" where
  "sample_first sha i = mk_row (sample_data ''user'') 0 i GENESIS_HASH
     (computeRowHash sha GENESIS_HASH (hashable (sample_data ''user'') 0))"

definition empty_audit :: audit_db where
  "empty_audit = \<lparr>audit_log = [], audit_next_id = 1, audit_chain_lock = None\<rparr>"

lemma chain_ok_empty [simp]: "chain_ok sha empty_audit"
  by (simp add: chain_ok_def audit_wf_def empty_audit_def rows_asc_def verifyChain_def)

lemma sample_valid: "verifyChain sha [sample_first sha i] = ChainValid"
  by (simp add: verifyChain_def sample_first_def)

theorem audit_append_keeps_chain_witness:
  "chain_ok sample_sha (snd (appendRow sample_sha \<lparr>io_now = 0, io_fault = None\<rparr> (sample_data ''user'') empty_audit))"
  using audit_append_keeps_chain [of sample_sha empty_audit "\<lparr>io_now = 0, io_fault = None\<rparr>"
      "sample_data ''user''"]
  by (metis chain_ok_empty prod.collapse)


theorem audit_head_commits_history_witness:
  "map row_content [sample_first sample_sha 1] = map row_content [sample_first sample_sha 2]"
proof (rule audit_head_commits_history [of sample_sha])
  have "preimage (sample_first sample_sha 1) = preimage (sample_first sample_sha 2)"
    by (simp add: preimage_def sample_first_def canonicalizeRow_def mk_row_def)
  then show "inj_on sample_sha (preimage ` (set [sample_first sample_sha 1] \<union> set [sample_first sample_sha 2]))"
    by simp
qed (simp_all add: sample_valid, auto simp: sample_first_def valid_date_def sample_sha_def)

theorem audit_corruption_blocks_writes_witness:
  "let db = empty_audit\<lparr>audit_log := [(sample_first sample_sha 1)\<lparr>a_prevHash := ''x''\<rparr>]\<rparr>;
       db' = snd (verifyDaily sample_sha 5 db)
   in appendRow sample_sha \<lparr>io_now = 6, io_fault = None\<rparr> (sample_data ''user'') db' = (Inl AuditChainLockedError, db')"
proof -
  let ?db = "empty_audit\<lparr>audit_log := [(sample_first sample_sha 1)\<lparr>a_prevHash := ''x''\<rparr>]\<rparr>"
  have "fst (verifyDaily sample_sha 5 ?db) = ChainBrokenAt 1"
    by (simp add: verifyDaily_def rows_asc_def verifyChain_def sample_first_def GENESIS_HASH_def Let_def
        numeral_eq_Suc)
  then show ?thesis
    using audit_corruption_blocks_writes [of sample_sha 5 ?db 1 "snd (verifyDaily sample_sha 5 ?db)"]
    by (simp add: prod_eq_iff)
qed

theorem audit_pagination_complete_witness:
  "fetch_pages 3 1 None (Some ''r1'')
     (empty_audit\<lparr>audit_log := [sample_first sample_sha 1, sample_first sample_sha 2], audit_next_id := 3\<rparr>)
   = Some [sample_first sample_sha 2, sample_first sample_sha 1]"
proof -
  let ?db = "empty_audit\<lparr>audit_log := [sample_first sample_sha 1, sample_first sample_sha 2], audit_next_id := 3\<rparr>"
  have "audit_wf ?db" by (simp add: audit_wf_def sample_first_def)
  from audit_pagination_complete [OF this, of 1 3 "Some ''r1''"] show ?thesis
    by (simp add: req_matches_def sample_first_def sample_data_def)
qed

end
