(* ===== verification/Hitl_Approvals.thy ===== *)
theory Hitl_Approvals
  imports Tool_Registry Audit_Chain
begin

text \<open>
  Human approvals: the delay rule (\<open>src/hitl/dual-confirm.logic.ts\<close>), the state machine of a
  pending approval over the table \<open>pending_approvals\<close> (\<open>src/hitl/dual-confirm.service.ts\<close>), the
  in-memory registry of executors (\<open>src/hitl/tool-executor.registry.ts\<close>), the approve-and-execute
  and reject handlers (\<open>src/hitl/approval-execution.service.ts\<close>).

  The state extends the audit tables, so that the audit operations act on it directly; \<open>events\<close> is
  what the event emitter was given. Each handler here runs without interleaving; the theory
  \<open>Hitl_Interleaving\<close> splits the same handlers into their database steps.
\<close>

section \<open>Pending approvals\<close>

text \<open>What \<open>execution_error\<close> keeps: the error whose message the code stores, and at which point.\<close>

datatype exec_note = AuditFailedBeforeExecuting jin_error | ExecutorFailed jin_error

record PendingApprovalRow =
  p_requestId :: uuid
  p_toolName :: string
  p_level :: string
  p_inputsHash :: string
  p_planSummary :: "string option"
  p_actor :: "string option"
  p_externalInputsSummary :: "string option"
  p_payload :: "json option"
  p_createdAt :: timestamp
  p_firstApprovedAt :: "timestamp option"
  p_firstApprover :: "string option"
  p_availableAt :: "timestamp option"
  p_escalatedAt :: "timestamp option"
  p_executingAt :: "timestamp option"
  p_executionError :: "exec_note option"

datatype hitl_event =
    PendingApprovalCreated uuid string string
  | ApprovalEscalated uuid string
  | ApprovalAbandoned uuid string
  | ApprovalStuck uuid string
  | ModeChanged string string string "timestamp option" string
  | ActionNotified uuid string string "string option"

record hitl_db = audit_db +
  pending_approvals :: "PendingApprovalRow list"
  events :: "hitl_event list"

record CreatePendingApprovalInput =
  c_requestId :: uuid
  c_toolName :: string
  c_level :: string
  c_inputsHash :: string
  c_planSummary :: "string option"
  c_payload :: "json option"
  c_actor :: "string option"
  c_externalInputsSummary :: "string option"

section \<open>The delay between two approvals\<close>

definition DUAL_CONFIRM_DELAY_MS :: int where
  "DUAL_CONFIRM_DELAY_MS = 30000"

definition computeAvailableAt :: "timestamp \<Rightarrow> timestamp" where
  "computeAvailableAt firstApprovedAt = firstApprovedAt + DUAL_CONFIRM_DELAY_MS"

definition canAcceptSecondApproval :: "timestamp \<Rightarrow> timestamp \<Rightarrow> bool" where
  "canAcceptSecondApproval availableAt now \<longleftrightarrow> now \<ge> availableAt"

definition STUCK_CLAIM_AFTER_MS :: int where
  "STUCK_CLAIM_AFTER_MS = 15 * 60 * 1000"

section \<open>Database steps\<close>

definition emit :: "hitl_event \<Rightarrow> 's hitl_db_scheme \<Rightarrow> 's hitl_db_scheme" where
  "emit e db = db\<lparr>events := events db @ [e]\<rparr>"

definition getPending :: "uuid \<Rightarrow> 's hitl_db_scheme \<Rightarrow> PendingApprovalRow option" where
  "getPending requestId db = lookup_row p_requestId (pending_approvals db) requestId"

definition listPending :: "'s hitl_db_scheme \<Rightarrow> PendingApprovalRow list" where
  "listPending db = rev (sort_key p_createdAt (pending_approvals db))"

text \<open>\<open>UPDATE \<dots> SET first_approved_at, first_approver, available_at WHERE request_id = ? AND
  first_approved_at IS NULL RETURNING request_id\<close>\<close>

definition set_first_approval :: "uuid \<Rightarrow> string \<Rightarrow> timestamp \<Rightarrow> 's hitl_db_scheme
    \<Rightarrow> uuid list \<times> 's hitl_db_scheme" where
  "set_first_approval requestId approver now db =
     (let p = (\<lambda>r. p_requestId r = requestId \<and> p_firstApprovedAt r = None);
          f = (\<lambda>r. r\<lparr>p_firstApprovedAt := Some now, p_firstApprover := Some approver,
                 p_availableAt := Some (computeAvailableAt now)\<rparr>)
      in (map p_requestId (filter p (pending_approvals db)),
          db\<lparr>pending_approvals := update_rows p f (pending_approvals db)\<rparr>))"

text \<open>\<open>UPDATE \<dots> SET executing_at = now, execution_error = NULL WHERE request_id = ? AND
  executing_at IS NULL RETURNING *\<close>: the first returned row, or \<open>undefined\<close>.\<close>

definition claimForExecution :: "uuid \<Rightarrow> timestamp \<Rightarrow> 's hitl_db_scheme
    \<Rightarrow> PendingApprovalRow option \<times> 's hitl_db_scheme" where
  "claimForExecution requestId now db =
     (let p = (\<lambda>r. p_requestId r = requestId \<and> p_executingAt r = None);
          f = (\<lambda>r. r\<lparr>p_executingAt := Some now, p_executionError := None\<rparr>);
          returned = map f (filter p (pending_approvals db))
      in ((case returned of row # _ \<Rightarrow> Some row | [] \<Rightarrow> None),
          db\<lparr>pending_approvals := update_rows p f (pending_approvals db)\<rparr>))"

definition releaseClaim :: "uuid \<Rightarrow> exec_note option \<Rightarrow> 's hitl_db_scheme \<Rightarrow> 's hitl_db_scheme" where
  "releaseClaim requestId err db = db\<lparr>pending_approvals :=
     update_rows (\<lambda>r. p_requestId r = requestId)
       (\<lambda>r. r\<lparr>p_executingAt := None, p_executionError := err\<rparr>) (pending_approvals db)\<rparr>"

definition removePending :: "uuid \<Rightarrow> 's hitl_db_scheme \<Rightarrow> 's hitl_db_scheme" where
  "removePending requestId db = db\<lparr>pending_approvals :=
     delete_rows (\<lambda>r. p_requestId r = requestId) (pending_approvals db)\<rparr>"

definition removeIfNotExecuting :: "uuid \<Rightarrow> timestamp \<Rightarrow> 's hitl_db_scheme \<Rightarrow> bool \<times> 's hitl_db_scheme" where
  "removeIfNotExecuting requestId now db =
     (let stuckBefore = now - STUCK_CLAIM_AFTER_MS;
          p = (\<lambda>r. p_requestId r = requestId \<and>
                 (case p_executingAt r of None \<Rightarrow> True | Some t \<Rightarrow> t < stuckBefore))
      in (\<exists>r \<in> set (pending_approvals db). p r,
          db\<lparr>pending_approvals := delete_rows p (pending_approvals db)\<rparr>))"

section \<open>Creating an approval\<close>

definition new_row :: "CreatePendingApprovalInput \<Rightarrow> timestamp \<Rightarrow> PendingApprovalRow" where
  "new_row i now = \<lparr>p_requestId = c_requestId i, p_toolName = c_toolName i, p_level = c_level i,
     p_inputsHash = c_inputsHash i, p_planSummary = c_planSummary i, p_actor = c_actor i,
     p_externalInputsSummary = c_externalInputsSummary i, p_payload = c_payload i,
     p_createdAt = now, p_firstApprovedAt = None, p_firstApprover = None, p_availableAt = None,
     p_escalatedAt = None, p_executingAt = None, p_executionError = None\<rparr>"

text \<open>
  \<open>now\<close> is the column's default \<open>now()\<close>. The primary key refuses a second row for a request.
  The audit row comes after the insert and before the event; if it fails, the row stays.
\<close>

definition createPendingApproval ::
  "(string \<Rightarrow> string) \<Rightarrow> timestamp \<Rightarrow> audit_io \<Rightarrow> CreatePendingApprovalInput \<Rightarrow> 's hitl_db_scheme
    \<Rightarrow> (jin_error + unit) \<times> 's hitl_db_scheme" where
  "createPendingApproval sha now io i db =
     (if getPending (c_requestId i) db \<noteq> None then (Inl (OtherError ''pending_approvals_pkey''), db)
      else let db1 = db\<lparr>pending_approvals := pending_approvals db @ [new_row i now]\<rparr> in
        case recordToolCall sha io (c_requestId i)
               (case c_actor i of Some a \<Rightarrow> a | None \<Rightarrow> ''agent'') (c_toolName i) (c_inputsHash i)
               (c_planSummary i) ''pending'' (c_externalInputsSummary i) db1 of
          (Inl e, db2) \<Rightarrow> (Inl e, db2)
        | (Inr _, db2) \<Rightarrow>
            (Inr (), emit (PendingApprovalCreated (c_requestId i) (c_toolName i) (c_level i)) db2))"

section \<open>Recording a human approval\<close>

datatype approval_level = AConfirm | ADualConfirm

definition parse_level :: "string \<Rightarrow> jin_error + approval_level" where
  "parse_level s = (if s = ''confirm'' then Inr AConfirm
     else if s = ''dual-confirm'' then Inr ADualConfirm else Inl (OtherError ''ZodError''))"

datatype ApprovalOutcome = Resolved | AwaitingSecond

text \<open>
  A first approval that loses the race re-reads the row (the recursive call); on a state that nobody
  else changes the conditional update always wins, which is why the recursion ends.
\<close>

lemma set_first_approval_wins:
  "getPending requestId db = Some pending \<Longrightarrow> p_firstApprovedAt pending = None
     \<Longrightarrow> fst (set_first_approval requestId approver now db) \<noteq> []"
  by (auto simp: getPending_def set_first_approval_def Let_def filter_empty_conv
      dest: lookup_row_SomeD)

function dc_recordApproval :: "uuid \<Rightarrow> string \<Rightarrow> timestamp \<Rightarrow> 's hitl_db_scheme
    \<Rightarrow> (jin_error + ApprovalOutcome) \<times> 's hitl_db_scheme" where
  "dc_recordApproval requestId approver now db =
     (case getPending requestId db of
        None \<Rightarrow> (Inl (PendingApprovalNotFoundError requestId), db)
      | Some pending \<Rightarrow>
          (case parse_level (p_level pending) of
             Inl e \<Rightarrow> (Inl e, db)
           | Inr AConfirm \<Rightarrow> (Inr Resolved, db)
           | Inr ADualConfirm \<Rightarrow>
               (case p_firstApprovedAt pending of
                  None \<Rightarrow>
                    (if fst (set_first_approval requestId approver now db) \<noteq> []
                     then (Inr AwaitingSecond, snd (set_first_approval requestId approver now db))
                     else dc_recordApproval requestId approver now
                            (snd (set_first_approval requestId approver now db)))
                | Some first \<Rightarrow>
                    (let availableAt = (case p_availableAt pending of
                           Some a \<Rightarrow> a | None \<Rightarrow> computeAvailableAt first)
                     in if \<not> canAcceptSecondApproval availableAt now
                        then (Inl (SecondApprovalTooEarlyError requestId availableAt), db)
                        else (Inr Resolved, db)))))"
  by pat_completeness auto
termination
  by (relation "{}") (auto dest: set_first_approval_wins)

declare dc_recordApproval.simps [simp del]

section \<open>The registry of executors\<close>

type_synonym 's executor = "json option \<Rightarrow> uuid option \<Rightarrow> 's \<Rightarrow> (jin_error + json) \<times> 's"
type_synonym 's executors = "string \<rightharpoonup> 's executor"

definition register :: "string \<Rightarrow> 's executor \<Rightarrow> 's executors \<Rightarrow> jin_error + 's executors" where
  "register toolName ex reg =
     (if reg toolName \<noteq> None then Inl (ToolExecutorAlreadyRegisteredError toolName)
      else Inr (reg(toolName \<mapsto> ex)))"

definition execute :: "'s executors \<Rightarrow> string \<Rightarrow> json option \<Rightarrow> uuid option \<Rightarrow> 's \<Rightarrow> (jin_error + json) \<times> 's" where
  "execute reg toolName payload requestId s =
     (case reg toolName of
        None \<Rightarrow> (Inl (NoExecutorRegisteredError toolName), s)
      | Some ex \<Rightarrow> ex payload requestId s)"

section \<open>Approve and execute, reject\<close>

text \<open>The clock readings of one call, the audit connections, and whether the final delete fails.\<close>

record exec_io =
  x_approvalNow :: timestamp
  x_claimNow :: timestamp
  x_audit :: audit_io
  x_failureAudit :: audit_io
  x_removeFault :: bool

datatype ResolveAndExecuteResult = RAwaitingSecond | RResolved string json

definition resolveAndExecute ::
  "(string \<Rightarrow> string) \<Rightarrow> 's hitl_db_scheme executors \<Rightarrow> exec_io \<Rightarrow> uuid \<Rightarrow> string \<Rightarrow> 's hitl_db_scheme
    \<Rightarrow> (jin_error + ResolveAndExecuteResult) \<times> 's hitl_db_scheme" where
  "resolveAndExecute sha reg io requestId approver db =
     (case getPending requestId db of
        None \<Rightarrow> (Inl (PendingApprovalNotFoundError requestId), db)
      | Some pending \<Rightarrow>
        (case dc_recordApproval requestId approver (x_approvalNow io) db of
           (Inl e, db1) \<Rightarrow> (Inl e, db1)
         | (Inr AwaitingSecond, db1) \<Rightarrow> (Inr RAwaitingSecond, db1)
         | (Inr Resolved, db1) \<Rightarrow>
           (case claimForExecution requestId (x_claimNow io) db1 of
              (None, db2) \<Rightarrow> (Inl (ApprovalAlreadyResolvedError requestId), db2)
            | (Some claimed, db2) \<Rightarrow>
              (case recordApproval sha (x_audit io) requestId approver (p_toolName claimed)
                      (p_inputsHash claimed) db2 of
                 (Inl e, db3) \<Rightarrow>
                   (Inl e, releaseClaim requestId (Some (AuditFailedBeforeExecuting e)) db3)
               | (Inr _, db3) \<Rightarrow>
                 (case execute reg (p_toolName claimed) (p_payload claimed) (Some requestId) db3 of
                    (Inl e, db4) \<Rightarrow>
                      (Inl e, snd (recordExecutionFailure sha (x_failureAudit io) requestId
                                (p_toolName claimed) (p_inputsHash claimed)
                                (releaseClaim requestId (Some (ExecutorFailed e)) db4)))
                  | (Inr result, db4) \<Rightarrow>
                      (Inr (RResolved (p_toolName claimed) result),
                       if x_removeFault io then db4 else removePending requestId db4))))))"

record reject_io =
  r_claimNow :: timestamp
  r_stuckNow :: timestamp
  r_removeNow :: timestamp
  r_audit :: audit_io

definition resolveRejection ::
  "(string \<Rightarrow> string) \<Rightarrow> reject_io \<Rightarrow> uuid \<Rightarrow> string \<Rightarrow> 's hitl_db_scheme
    \<Rightarrow> (jin_error + unit) \<times> 's hitl_db_scheme" where
  "resolveRejection sha io requestId approver db =
     (case getPending requestId db of
        None \<Rightarrow> (Inl (PendingApprovalNotFoundError requestId), db)
      | Some pending \<Rightarrow>
        (case claimForExecution requestId (r_claimNow io) db of
           (None, db1) \<Rightarrow>
             (let isStuck = (case p_executingAt pending of
                    Some since \<Rightarrow> r_stuckNow io - since > STUCK_CLAIM_AFTER_MS | None \<Rightarrow> False)
              in if \<not> isStuck then (Inl (ApprovalAlreadyResolvedError requestId), db1)
                 else (case recordRejection sha (r_audit io) requestId approver (p_toolName pending)
                              (p_inputsHash pending) db1 of
                         (Inl e, db2) \<Rightarrow> (Inl e, db2)
                       | (Inr _, db2) \<Rightarrow>
                           (Inr (), snd (removeIfNotExecuting requestId (r_removeNow io) db2))))
         | (Some claimed, db1) \<Rightarrow>
             (case recordRejection sha (r_audit io) requestId approver (p_toolName claimed)
                     (p_inputsHash claimed) db1 of
                (Inl e, db2) \<Rightarrow> (Inl e, releaseClaim requestId None db2)
              | (Inr _, db2) \<Rightarrow> (Inr (), removePending requestId db2))))"

section \<open>What the database steps do to a row\<close>

text \<open>
  The invariant of the table: the primary key, and that a first approval carries the instant from
  which the second is accepted.
\<close>

definition hitl_wf :: "'s hitl_db_scheme \<Rightarrow> bool" where
  "hitl_wf db \<longleftrightarrow> distinct (map p_requestId (pending_approvals db)) \<and>
     (\<forall>r \<in> set (pending_approvals db). p_availableAt r = map_option computeAvailableAt (p_firstApprovedAt r))"

lemma getPending_Some_iff:
  "hitl_wf db \<Longrightarrow> getPending k db = Some r \<longleftrightarrow> r \<in> set (pending_approvals db) \<and> p_requestId r = k"
  by (simp add: getPending_def hitl_wf_def lookup_row_Some_iff)

lemma hitl_wf_available:
  "hitl_wf db \<Longrightarrow> getPending k db = Some r \<Longrightarrow> p_availableAt r = map_option computeAvailableAt (p_firstApprovedAt r)"
  by (simp add: getPending_Some_iff) (simp add: hitl_wf_def)

lemma getPending_key: "getPending k db = Some r \<Longrightarrow> p_requestId r = k"
  by (auto simp: getPending_def dest: lookup_row_SomeD)

lemma hitl_wf_frame:
  "pending_approvals db' = pending_approvals db \<Longrightarrow> hitl_wf db' = hitl_wf db"
  by (simp add: hitl_wf_def)

lemma getPending_frame:
  "pending_approvals db' = pending_approvals db \<Longrightarrow> getPending k db' = getPending k db"
  by (simp add: getPending_def)

lemma audit_update_pending [simp]:
  "getPending k (audit_log_update f db) = getPending k db" "hitl_wf (audit_log_update f db) = hitl_wf db"
  "getPending k (audit_next_id_update g db) = getPending k db" "hitl_wf (audit_next_id_update g db) = hitl_wf db"
  "getPending k (events_update h db) = getPending k db" "hitl_wf (events_update h db) = hitl_wf db"
  by (simp_all add: getPending_def hitl_wf_def)

lemma appendRow_pending [simp, frame_simps]:
  "pending_approvals (snd (appendRow sha io d db)) = pending_approvals db"
  "events (snd (appendRow sha io d db)) = events db"
  by (auto simp: appendRow_def Let_def split: option.splits)

lemma record_pending [simp, frame_simps]:
  "pending_approvals (snd (recordToolCall sha io a b c d e f g db)) = pending_approvals db"
  "pending_approvals (snd (recordApproval sha io a b c d db)) = pending_approvals db"
  "pending_approvals (snd (recordRejection sha io a b c d db)) = pending_approvals db"
  "pending_approvals (snd (recordExecutionFailure sha io a b c db)) = pending_approvals db"
  "pending_approvals (snd (recordTimeout sha io a b c d db)) = pending_approvals db"
  by (simp_all add: record_defs)

lemma claim_None_iff:
  "fst (claimForExecution k now db) = None \<longleftrightarrow>
     (\<forall>r \<in> set (pending_approvals db). p_requestId r = k \<longrightarrow> p_executingAt r \<noteq> None)"
proof -
  let ?p = "\<lambda>r. p_requestId r = k \<and> p_executingAt r = None"
  have "fst (claimForExecution k now db) = None \<longleftrightarrow> filter ?p (pending_approvals db) = []"
    by (cases "filter ?p (pending_approvals db)") (simp_all add: claimForExecution_def)
  then show ?thesis by (simp add: filter_empty_conv)
qed

lemma claim_SomeD:
  assumes "hitl_wf db" "fst (claimForExecution k now db) = Some c"
  obtains r where "getPending k db = Some r" "p_executingAt r = None"
    "c = r\<lparr>p_executingAt := Some now, p_executionError := None\<rparr>"
proof -
  from assms(2) have "c \<in> (\<lambda>r. r\<lparr>p_executingAt := Some now, p_executionError := None\<rparr>) `
      {r \<in> set (pending_approvals db). p_requestId r = k \<and> p_executingAt r = None}"
    by (auto simp: claimForExecution_def Let_def split: list.splits
        dest: arg_cong [of _ _ set])
  with that assms(1) show ?thesis by (auto simp: getPending_Some_iff)
qed

lemma claim_getPending:
  "getPending j (snd (claimForExecution k now db)) = map_option (\<lambda>r.
     if p_requestId r = k \<and> p_executingAt r = None
     then r\<lparr>p_executingAt := Some now, p_executionError := None\<rparr> else r) (getPending j db)"
  by (simp add: claimForExecution_def getPending_def Let_def lookup_row_update_rows)

lemma release_getPending:
  "getPending j (releaseClaim k err db) = map_option (\<lambda>r.
     if p_requestId r = k then r\<lparr>p_executingAt := None, p_executionError := err\<rparr> else r) (getPending j db)"
  by (simp add: releaseClaim_def getPending_def lookup_row_update_rows)

lemma first_getPending:
  "getPending j (snd (set_first_approval k who now db)) = map_option (\<lambda>r.
     if p_requestId r = k \<and> p_firstApprovedAt r = None
     then r\<lparr>p_firstApprovedAt := Some now, p_firstApprover := Some who,
            p_availableAt := Some (computeAvailableAt now)\<rparr> else r) (getPending j db)"
  by (simp add: set_first_approval_def getPending_def Let_def lookup_row_update_rows)

lemma remove_getPending [simp]:
  "getPending j (removePending k db) = (if j = k then None else getPending j db)"
  by (auto simp: removePending_def getPending_def lookup_row_delete_rows_other)

lemma removeIf_getPending:
  assumes "hitl_wf db"
  shows "getPending j (snd (removeIfNotExecuting k now db)) =
    (case getPending j db of None \<Rightarrow> None | Some r \<Rightarrow>
       if j = k \<and> (case p_executingAt r of None \<Rightarrow> True | Some t \<Rightarrow> t < now - STUCK_CLAIM_AFTER_MS)
       then None else Some r)"
proof -
  have d: "distinct (map p_requestId (pending_approvals db))" using assms by (simp add: hitl_wf_def)
  show ?thesis
    by (auto simp: removeIfNotExecuting_def getPending_def Let_def lookup_row_delete_rows [OF d]
        split: option.splits dest: lookup_row_SomeD)
qed

lemma hitl_wf_steps [intro, simp]:
  assumes "hitl_wf db"
  shows "hitl_wf (snd (claimForExecution k now db))" "hitl_wf (releaseClaim k err db)"
    "hitl_wf (removePending k db)" "hitl_wf (snd (removeIfNotExecuting k now db))"
    "hitl_wf (snd (set_first_approval k who now db))"
  using assms
  by (auto simp: hitl_wf_def claimForExecution_def releaseClaim_def removePending_def
      removeIfNotExecuting_def set_first_approval_def Let_def set_update_rows)

text \<open>The audit log is left alone by the steps on \<open>pending_approvals\<close>.\<close>

lemma steps_audit [simp, frame_simps]:
  "audit_log (snd (claimForExecution k now db)) = audit_log db"
  "audit_log (releaseClaim k err db) = audit_log db"
  "audit_log (removePending k db) = audit_log db"
  "audit_log (snd (removeIfNotExecuting k now db)) = audit_log db"
  "audit_log (snd (set_first_approval k who now db)) = audit_log db"
  "audit_log (emit e db) = audit_log db"
  "audit_next_id (snd (claimForExecution k now db)) = audit_next_id db"
  "audit_next_id (releaseClaim k err db) = audit_next_id db"
  "audit_next_id (removePending k db) = audit_next_id db"
  "audit_next_id (snd (removeIfNotExecuting k now db)) = audit_next_id db"
  "audit_next_id (snd (set_first_approval k who now db)) = audit_next_id db"
  "audit_next_id (emit e db) = audit_next_id db"
  by (simp_all add: claimForExecution_def releaseClaim_def removePending_def
      removeIfNotExecuting_def set_first_approval_def emit_def Let_def)

lemma steps_locked [simp, frame_simps]:
  "isLocked (snd (claimForExecution k now db)) = isLocked db"
  "isLocked (releaseClaim k err db) = isLocked db"
  "isLocked (removePending k db) = isLocked db"
  "isLocked (snd (removeIfNotExecuting k now db)) = isLocked db"
  "isLocked (snd (set_first_approval k who now db)) = isLocked db"
  by (simp_all add: isLocked_def claimForExecution_def releaseClaim_def removePending_def
      removeIfNotExecuting_def set_first_approval_def Let_def)

lemma claim_fail_unchanged:
  "fst (claimForExecution k now db) = None \<Longrightarrow> snd (claimForExecution k now db) = db"
proof -
  assume "fst (claimForExecution k now db) = None"
  then have "\<forall>r \<in> set (pending_approvals db). \<not> (p_requestId r = k \<and> p_executingAt r = None)"
    by (auto simp: claim_None_iff)
  then have "update_rows (\<lambda>r. p_requestId r = k \<and> p_executingAt r = None)
      (\<lambda>r. r\<lparr>p_executingAt := Some now, p_executionError := None\<rparr>) (pending_approvals db) = pending_approvals db"
    unfolding update_rows_def by (intro map_idI) auto
  then show ?thesis by (simp add: claimForExecution_def Let_def)
qed

section \<open>The interface the handlers rely on: an exclusive claim\<close>

text \<open>
  What \<open>ApprovalExecutionService\<close> and \<open>TimeoutService\<close> rely on in the store: a claim of a free row
  succeeds and marks it, a claim of a marked or missing row fails and changes nothing, only a release
  or a removal undoes it, and no operation on one key touches another.
\<close>

datatype ('k, 'n) store_op = OpClaim 'k timestamp | OpRelease 'k 'n | OpRemove 'k

fun op_key :: "('k, 'n) store_op \<Rightarrow> 'k" where
  "op_key (OpClaim k t) = k"
| "op_key (OpRelease k n) = k"
| "op_key (OpRemove k) = k"

fun is_claim :: "('k, 'n) store_op \<Rightarrow> bool" where
  "is_claim (OpClaim k t) = True"
| "is_claim _ = False"

locale claim_store =
  fixes row_of :: "'k \<Rightarrow> 's \<Rightarrow> 'r option"
    and held :: "'r \<Rightarrow> bool"
    and claim :: "'k \<Rightarrow> timestamp \<Rightarrow> 's \<Rightarrow> 'r option \<times> 's"
    and release :: "'k \<Rightarrow> 'n \<Rightarrow> 's \<Rightarrow> 's"
    and remove :: "'k \<Rightarrow> 's \<Rightarrow> 's"
    and inv :: "'s \<Rightarrow> bool"
  assumes inv_claim: "inv s \<Longrightarrow> inv (snd (claim k t s))"
    and inv_release: "inv s \<Longrightarrow> inv (release k n s)"
    and inv_remove: "inv s \<Longrightarrow> inv (remove k s)"
    and claim_free: "inv s \<Longrightarrow> row_of k s = Some r \<Longrightarrow> \<not> held r \<Longrightarrow>
      \<exists>c. fst (claim k t s) = Some c \<and> row_of k (snd (claim k t s)) = Some c \<and> held c"
    and claim_busy: "inv s \<Longrightarrow> row_of k s = Some r \<Longrightarrow> held r \<Longrightarrow> claim k t s = (None, s)"
    and claim_missing: "inv s \<Longrightarrow> row_of k s = None \<Longrightarrow> claim k t s = (None, s)"
    and claim_other: "inv s \<Longrightarrow> j \<noteq> k \<Longrightarrow> row_of j (snd (claim k t s)) = row_of j s"
    and release_free: "inv s \<Longrightarrow> row_of k s = Some r \<Longrightarrow> \<exists>r'. row_of k (release k n s) = Some r' \<and> \<not> held r'"
    and release_other: "inv s \<Longrightarrow> j \<noteq> k \<Longrightarrow> row_of j (release k n s) = row_of j s"
    and remove_gone: "inv s \<Longrightarrow> row_of k (remove k s) = None"
    and remove_other: "inv s \<Longrightarrow> j \<noteq> k \<Longrightarrow> row_of j (remove k s) = row_of j s"
begin

fun run_op :: "('k, 'n) store_op \<Rightarrow> 's \<Rightarrow> 's" where
  "run_op (OpClaim k t) s = snd (claim k t s)"
| "run_op (OpRelease k n) s = release k n s"
| "run_op (OpRemove k) s = remove k s"

lemma inv_run: "inv s \<Longrightarrow> inv (fold run_op ops s)"
proof (induction ops arbitrary: s)
  case (Cons op ops)
  then show ?case by (cases op) (simp_all add: inv_claim inv_release inv_remove)
qed simp

lemma run_op_other: "inv s \<Longrightarrow> op_key op \<noteq> k \<Longrightarrow> row_of k (run_op op s) = row_of k s"
  by (cases op) (auto simp: claim_other release_other remove_other)

text \<open>A claimed row stays as it is, and nobody else can claim it, whatever happens to other rows.\<close>

lemma held_stays:
  assumes "inv s" "row_of k s = Some r" "held r" "\<forall>op \<in> set ops. op_key op = k \<longrightarrow> is_claim op"
  shows "row_of k (fold run_op ops s) = Some r"
  using assms
proof (induction ops arbitrary: s)
  case (Cons op ops)
  have "inv (run_op op s)" using inv_run [of s "[op]"] Cons.prems(1) by simp
  moreover have "row_of k (run_op op s) = Some r"
  proof (cases "op_key op = k")
    case True
    then show ?thesis using Cons.prems by (cases op) (auto simp: claim_busy)
  qed (simp add: run_op_other Cons.prems)
  ultimately show ?case using Cons by simp
qed simp

lemma missing_stays:
  assumes "inv s" "row_of k s = None" "\<forall>op \<in> set ops. op_key op = k \<longrightarrow> is_claim op"
  shows "row_of k (fold run_op ops s) = None"
  using assms
proof (induction ops arbitrary: s)
  case (Cons op ops)
  have "inv (run_op op s)" using inv_run [of s "[op]"] Cons.prems(1) by simp
  moreover have "row_of k (run_op op s) = None"
  proof (cases "op_key op = k")
    case True
    then show ?thesis using Cons.prems by (cases op) (auto simp: claim_missing)
  qed (simp add: run_op_other Cons.prems)
  ultimately show ?case using Cons by simp
qed simp

lemma claim_exclusive:
  assumes "inv s" "fst (claim k t s) = Some c" "\<forall>op \<in> set ops. op_key op = k \<longrightarrow> is_claim op"
  shows "fst (claim k t' (fold run_op ops (snd (claim k t s)))) = None"
proof -
  have h: "row_of k (snd (claim k t s)) = Some c \<and> held c"
  proof (cases "row_of k s")
    case None
    with assms show ?thesis by (simp add: claim_missing)
  next
    case (Some r)
    with assms claim_free [OF assms(1) Some, of t] claim_busy [OF assms(1) Some, of t]
    show ?thesis by (cases "held r") auto
  qed
  let ?s = "fold run_op ops (snd (claim k t s))"
  have "row_of k ?s = Some c" using held_stays [OF inv_claim [OF assms(1)] _ _ assms(3)] h by simp
  then show ?thesis using claim_busy [of ?s k c t'] h assms(1) by (simp add: inv_run inv_claim)
qed

lemma claim_after_remove: "inv s \<Longrightarrow> claim k t (remove k s) = (None, remove k s)"
  by (rule claim_missing) (simp_all add: inv_remove remove_gone)

end

definition held_row :: "PendingApprovalRow \<Rightarrow> bool" where
  "held_row r \<longleftrightarrow> p_executingAt r \<noteq> None"

lemma claim_free_row:
  assumes "hitl_wf db" "getPending k db = Some r" "p_executingAt r = None"
  shows "fst (claimForExecution k now db) = Some (r\<lparr>p_executingAt := Some now, p_executionError := None\<rparr>)"
proof (cases "fst (claimForExecution k now db)")
  case None
  with assms show ?thesis by (auto simp: claim_None_iff getPending_Some_iff)
next
  case (Some c)
  then show ?thesis using assms by (auto elim: claim_SomeD)
qed

lemma claim_busy_row:
  assumes "hitl_wf db" "\<And>r. getPending k db = Some r \<Longrightarrow> p_executingAt r \<noteq> None"
  shows "claimForExecution k now db = (None, db)"
proof -
  have "fst (claimForExecution k now db) = None"
    using assms by (auto simp: claim_None_iff getPending_Some_iff)
  with claim_fail_unchanged [OF this] show ?thesis by (simp add: prod_eq_iff)
qed

interpretation approvals: claim_store getPending held_row claimForExecution releaseClaim removePending hitl_wf
proof
  fix s :: "'s hitl_db_scheme" and k t r assume "hitl_wf s" "getPending k s = Some r" "\<not> held_row r"
  then show "\<exists>c. fst (claimForExecution k t s) = Some c \<and>
      getPending k (snd (claimForExecution k t s)) = Some c \<and> held_row c"
    using getPending_key [of k s r] by (simp add: claim_free_row claim_getPending held_row_def)
next
  fix s :: "'s hitl_db_scheme" and k n r assume "hitl_wf s" "getPending k s = Some r"
  then show "\<exists>r'. getPending k (releaseClaim k n s) = Some r' \<and> \<not> held_row r'"
    using getPending_key [of k s r] by (simp add: release_getPending held_row_def)
next
  fix s :: "'s hitl_db_scheme" and j k :: uuid and t assume "j \<noteq> k"
  then show "getPending j (snd (claimForExecution k t s)) = getPending j s"
    by (cases "getPending j s") (auto simp: claim_getPending dest: getPending_key)
next
  fix s :: "'s hitl_db_scheme" and j k :: uuid and n assume "j \<noteq> k"
  then show "getPending j (releaseClaim k n s) = getPending j s"
    by (cases "getPending j s") (auto simp: release_getPending dest: getPending_key)
qed (auto intro!: claim_busy_row simp: held_row_def)

section \<open>Recording an approval, branch by branch\<close>

lemma dc_none: "getPending k db = None \<Longrightarrow> dc_recordApproval k who now db = (Inl (PendingApprovalNotFoundError k), db)"
  by (simp add: dc_recordApproval.simps)

lemma parse_level_simps [simp]:
  "parse_level ''confirm'' = Inr AConfirm" "parse_level ''dual-confirm'' = Inr ADualConfirm"
  by (simp_all add: parse_level_def)

lemma dc_confirm:
  "getPending k db = Some r \<Longrightarrow> p_level r = ''confirm'' \<Longrightarrow> dc_recordApproval k who now db = (Inr Resolved, db)"
  by (simp add: dc_recordApproval.simps)

lemma dc_first:
  "getPending k db = Some r \<Longrightarrow> p_level r = ''dual-confirm'' \<Longrightarrow> p_firstApprovedAt r = None
   \<Longrightarrow> dc_recordApproval k who now db = (Inr AwaitingSecond, snd (set_first_approval k who now db))"
  using set_first_approval_wins [of k db r who now] by (simp add: dc_recordApproval.simps)

lemma dc_second:
  "hitl_wf db \<Longrightarrow> getPending k db = Some r \<Longrightarrow> p_level r = ''dual-confirm'' \<Longrightarrow> p_firstApprovedAt r = Some t
   \<Longrightarrow> dc_recordApproval k who now db =
     (if t + DUAL_CONFIRM_DELAY_MS \<le> now then Inr Resolved
      else Inl (SecondApprovalTooEarlyError k (t + DUAL_CONFIRM_DELAY_MS)), db)"
  using hitl_wf_available [of db k r]
  by (simp add: dc_recordApproval.simps canAcceptSecondApproval_def computeAvailableAt_def)

lemma dc_ResolvedD:
  assumes "hitl_wf db" "dc_recordApproval k who now db = (Inr Resolved, db')"
  shows "db' = db \<and> (\<exists>r. getPending k db = Some r \<and> (p_level r = ''confirm'' \<or> p_level r = ''dual-confirm'' \<and>
    (\<exists>t. p_firstApprovedAt r = Some t \<and> t + DUAL_CONFIRM_DELAY_MS \<le> now)))"
proof (cases "getPending k db")
  case None
  with assms show ?thesis by (simp add: dc_none)
next
  case (Some r)
  consider "p_level r = ''confirm''" | "p_level r = ''dual-confirm''"
    | "parse_level (p_level r) = Inl (OtherError ''ZodError'')"
    by (metis parse_level_def)
  then show ?thesis
  proof cases
    case 1
    with assms Some show ?thesis by (simp add: dc_confirm)
  next
    case 2
    with assms Some show ?thesis
      by (cases "p_firstApprovedAt r") (auto simp: dc_first dc_second split: if_splits)
  next
    case 3
    with assms Some show ?thesis by (simp add: dc_recordApproval.simps)
  qed
qed

lemma dc_state:
  "snd (dc_recordApproval k who now db) = db \<or>
   snd (dc_recordApproval k who now db) = snd (set_first_approval k who now db)"
proof (cases "\<exists>r. getPending k db = Some r \<and> p_level r = ''dual-confirm'' \<and> p_firstApprovedAt r = None")
  case True
  then show ?thesis by (auto simp: dc_first)
next
  case False
  then show ?thesis
    by (subst (1) dc_recordApproval.simps)
       (auto simp: parse_level_def Let_def split: option.split)
qed

lemma dc_audit [simp]:
  "audit_log (snd (dc_recordApproval k who now db)) = audit_log db"
  "audit_next_id (snd (dc_recordApproval k who now db)) = audit_next_id db"
  "isLocked (snd (dc_recordApproval k who now db)) = isLocked db"
  using dc_state [of k who now db] by auto

lemma dc_wf: "hitl_wf db \<Longrightarrow> hitl_wf (snd (dc_recordApproval k who now db))"
  using dc_state [of k who now db] by auto

lemma dc_executing:
  "map_option p_executingAt (getPending j (snd (dc_recordApproval k who now db))) =
   map_option p_executingAt (getPending j db)"
  using dc_state [of k who now db] by (cases "getPending j db") (auto simp: first_getPending)

section \<open>The outcome of an approval\<close>

text \<open>The row an approval audit leaves, and that it is the last of a log.\<close>

definition approval_audited :: "uuid \<Rightarrow> string \<Rightarrow> PendingApprovalRow \<Rightarrow> AuditLogRow \<Rightarrow> bool" where
  "approval_audited requestId approver r row \<longleftrightarrow> a_requestId row = requestId \<and>
     a_actionType row = ''approval'' \<and> a_approvalStatus row = ''approved'' \<and>
     a_approver row = Some approver \<and> a_toolName row = Some (p_toolName r) \<and>
     a_inputsHash row = p_inputsHash r"

lemma recordApproval_Inr:
  assumes "recordApproval sha io k who (p_toolName r) (p_inputsHash r) db = (Inr row, db')"
  shows "\<not> isLocked db \<and> io_fault io = None \<and> approval_audited k who r row \<and>
    db' = db\<lparr>audit_log := audit_log db @ [row], audit_next_id := audit_next_id db + 1\<rparr>"
  using assms unfolding recordApproval_def
  by (rule appendRow_InrE) (simp add: approval_audited_def)

lemma record_InlD:
  "recordApproval sha io a b c d db = (Inl e, db') \<Longrightarrow> db' = db"
  "recordRejection sha io a b c d db = (Inl e, db') \<Longrightarrow> db' = db"
  "recordTimeout sha io a b c d db = (Inl e, db') \<Longrightarrow> db' = db"
  by (simp_all add: record_defs appendRow_InlD)

lemma record_blocked:
  "isLocked db \<or> io_fault io \<noteq> None \<Longrightarrow> \<exists>e. recordApproval sha io a b c d db = (Inl e, db)"
  "isLocked db \<or> io_fault io \<noteq> None \<Longrightarrow> \<exists>e. recordRejection sha io a b c d db = (Inl e, db)"
  "isLocked db \<or> io_fault io \<noteq> None \<Longrightarrow> \<exists>e. recordTimeout sha io a b c d db = (Inl e, db)"
  by (auto simp: record_defs appendRow_def)

text \<open>The state the executor is called in, and with what: the claimed row and its audit row.\<close>

definition ready_state :: "exec_io \<Rightarrow> uuid \<Rightarrow> AuditLogRow \<Rightarrow> 's hitl_db_scheme \<Rightarrow> 's hitl_db_scheme" where
  "ready_state io k row db = (snd (claimForExecution k (x_claimNow io) db))
     \<lparr>audit_log := audit_log db @ [row], audit_next_id := audit_next_id db + 1\<rparr>"

lemma ready_state_simps [simp]:
  "getPending j (ready_state io k row db) = getPending j (snd (claimForExecution k (x_claimNow io) db))"
  "audit_log (ready_state io k row db) = audit_log db @ [row]"
  "hitl_wf db \<Longrightarrow> hitl_wf (ready_state io k row db)"
  "isLocked (ready_state io k row db) = isLocked db"
proof -
  show "getPending j (ready_state io k row db) = getPending j (snd (claimForExecution k (x_claimNow io) db))"
    by (simp add: ready_state_def getPending_def)
  show "audit_log (ready_state io k row db) = audit_log db @ [row]" by (simp add: ready_state_def)
  show "hitl_wf db \<Longrightarrow> hitl_wf (ready_state io k row db)"
    using hitl_wf_steps(1) [of db k "x_claimNow io"] by (simp add: ready_state_def hitl_wf_def)
  show "isLocked (ready_state io k row db) = isLocked db"
    using steps_locked(1) [of k "x_claimNow io" db] by (simp add: ready_state_def isLocked_def)
qed

lemma claimed_row:
  "getPending k db = Some r \<Longrightarrow> p_executingAt r = None \<Longrightarrow> getPending k (snd (claimForExecution k now db)) =
     Some (r\<lparr>p_executingAt := Some now, p_executionError := None\<rparr>)"
  by (simp add: claim_getPending getPending_key)

lemma resolve_cases:
  assumes "hitl_wf db"
  obtains
    (refused) e db1 where "\<And>reg. resolveAndExecute sha reg io k who db = (Inl e, db1)"
      "audit_log db1 = audit_log db" "\<And>j. map_option p_executingAt (getPending j db1) = map_option p_executingAt (getPending j db)"
      "isLocked db1 = isLocked db"
      "\<And>r. getPending k db = Some r \<Longrightarrow> p_executingAt r = None \<Longrightarrow>
         fst (dc_recordApproval k who (x_approvalNow io) db) \<noteq> Inr Resolved"
  | (first) db1 where "\<And>reg. resolveAndExecute sha reg io k who db = (Inr RAwaitingSecond, db1)"
      "audit_log db1 = audit_log db" "\<And>j. map_option p_executingAt (getPending j db1) = map_option p_executingAt (getPending j db)"
      "isLocked db1 = isLocked db"
      "\<And>r. getPending k db = Some r \<Longrightarrow> p_executingAt r = None \<Longrightarrow>
         fst (dc_recordApproval k who (x_approvalNow io) db) \<noteq> Inr Resolved"
  | (audit_failed) r e db1 where "getPending k db = Some r" "p_executingAt r = None"
      "isLocked db \<or> io_fault (x_audit io) \<noteq> None"
      "\<And>reg. resolveAndExecute sha reg io k who db = (Inl e, releaseClaim k (Some (AuditFailedBeforeExecuting e)) db1)"
      "db1 = snd (claimForExecution k (x_claimNow io) db)"
  | (ran) r row where "getPending k db = Some r" "p_executingAt r = None"
      "dc_recordApproval k who (x_approvalNow io) db = (Inr Resolved, db)"
      "\<not> isLocked db" "io_fault (x_audit io) = None" "approval_audited k who r row"
      "\<And>reg. resolveAndExecute sha reg io k who db =
         (case execute reg (p_toolName r) (p_payload r) (Some k) (ready_state io k row db) of
            (Inl e, db4) \<Rightarrow> (Inl e, snd (recordExecutionFailure sha (x_failureAudit io) k
                               (p_toolName r) (p_inputsHash r) (releaseClaim k (Some (ExecutorFailed e)) db4)))
          | (Inr result, db4) \<Rightarrow> (Inr (RResolved (p_toolName r) result),
               if x_removeFault io then db4 else removePending k db4))"
proof (cases "getPending k db")
  case None
  then show thesis by (intro refused [of "PendingApprovalNotFoundError k" db]) (simp_all add: resolveAndExecute_def)
next
  case g: (Some r)
  obtain res db1 where dc: "dc_recordApproval k who (x_approvalNow io) db = (res, db1)" by fastforce
  have fr: "audit_log db1 = audit_log db" "isLocked db1 = isLocked db"
    "\<And>j. map_option p_executingAt (getPending j db1) = map_option p_executingAt (getPending j db)"
    using dc_audit [of k who "x_approvalNow io" db] dc_executing [of _ k who "x_approvalNow io" db] dc by simp_all
  show thesis
  proof (cases res)
    case (Inl e)
    then show thesis by (intro refused [of e db1]) (simp_all add: resolveAndExecute_def g dc fr)
  next
    case (Inr out)
    show thesis
    proof (cases out)
      case AwaitingSecond
      then show thesis by (intro first [of db1]) (simp_all add: resolveAndExecute_def g dc fr Inr)
    next
      case Resolved
      with dc Inr have dc': "dc_recordApproval k who (x_approvalNow io) db = (Inr Resolved, db)" "db1 = db"
        using dc_ResolvedD [OF assms, of k who "x_approvalNow io" db1] by simp_all
      show thesis
      proof (cases "p_executingAt r")
        case (Some t)
        then have "claimForExecution k (x_claimNow io) db = (None, db)"
          by (intro claim_busy_row [OF assms]) (simp add: g)
        then show thesis by (intro refused [of "ApprovalAlreadyResolvedError k" db])
            (use Some in \<open>auto simp: resolveAndExecute_def g dc'\<close>)
      next
        case None
        let ?c = "r\<lparr>p_executingAt := Some (x_claimNow io), p_executionError := None\<rparr>"
        obtain db2 where cl: "claimForExecution k (x_claimNow io) db = (Some ?c, db2)"
          using claim_free_row [OF assms g None, of "x_claimNow io"] by (metis prod.collapse)
        then have db2: "db2 = snd (claimForExecution k (x_claimNow io) db)" by simp
        have lk: "isLocked db2 = isLocked db" "audit_log db2 = audit_log db" "audit_next_id db2 = audit_next_id db"
          by (simp_all add: db2)
        obtain a db3 where au: "recordApproval sha (x_audit io) k who (p_toolName r) (p_inputsHash r) db2 = (a, db3)"
          by fastforce
        show thesis
        proof (cases a)
          case (Inl e)
          have "isLocked db \<or> io_fault (x_audit io) \<noteq> None"
            using au Inl lk(1) by (auto simp: recordApproval_def appendRow_def Let_def split: if_splits option.splits)
          then show thesis
            using au Inl record_InlD(1) [of sha "x_audit io" k who "p_toolName r" "p_inputsHash r" db2 e db3]
            by (intro audit_failed [of r e db2]) (simp_all add: g None resolveAndExecute_def dc' cl)
        next
          case (Inr row)
          note ra = recordApproval_Inr [OF au [unfolded Inr]]
          then have "db3 = ready_state io k row db" by (simp add: ready_state_def db2 [symmetric] lk)
          with ra au Inr lk show thesis
            by (intro ran [of r row])
               (simp_all add: g None dc' resolveAndExecute_def cl split: sum.split prod.split)
        qed
      qed
    qed
  qed
qed

section \<open>Properties of approve-and-execute\<close>

text \<open>
  An executor is well behaved for a request when it neither touches the row of the request it runs
  for nor removes audit rows. The laws are on the executor because it is registered from outside.
\<close>

definition leaves_row :: "uuid \<Rightarrow> 's hitl_db_scheme executors \<Rightarrow> bool" where
  "leaves_row k reg \<longleftrightarrow> (\<forall>tool ex payload rid db. reg tool = Some ex \<longrightarrow>
     getPending k (snd (ex payload rid db)) = getPending k db \<and>
     (hitl_wf db \<longrightarrow> hitl_wf (snd (ex payload rid db))) \<and>
     (\<exists>added. audit_log (snd (ex payload rid db)) = audit_log db @ added))"

lemma execute_keeps:
  assumes "leaves_row k reg" "execute reg tool payload rid db = (res, db')"
  shows "getPending k db' = getPending k db" "hitl_wf db \<Longrightarrow> hitl_wf db'"
    "\<exists>added. audit_log db' = audit_log db @ added"
proof -
  have *: "getPending k db' = getPending k db \<and> (hitl_wf db \<longrightarrow> hitl_wf db') \<and>
      (\<exists>added. audit_log db' = audit_log db @ added)"
  proof (cases "reg tool")
    case None
    with assms(2) show ?thesis by (simp add: execute_def)
  next
    case (Some f)
    with assms(2) have "db' = snd (f payload rid db)" by (simp add: execute_def)
    with assms(1) Some show ?thesis unfolding leaves_row_def by blast
  qed
  then show "getPending k db' = getPending k db" "hitl_wf db \<Longrightarrow> hitl_wf db'"
    "\<exists>added. audit_log db' = audit_log db @ added" by simp_all
qed

text \<open>C5: an action of a dual-confirm approval is executed only by a second approval that comes at least
  thirty seconds after the recorded first one: in every other case the outcome does not depend on
  what executors are registered (none is called), and no audit row is written.\<close>

theorem dual_confirm_needs_two_approvals:
  assumes "hitl_wf db" "getPending k db = Some r" "p_level r = ''dual-confirm''"
    and "\<not> (\<exists>t. p_firstApprovedAt r = Some t \<and> t + 30000 \<le> x_approvalNow io)"
  shows "(\<forall>reg'. resolveAndExecute sha reg io k who db = resolveAndExecute sha reg' io k who db)
    \<and> audit_log (snd (resolveAndExecute sha reg io k who db)) = audit_log db
    \<and> fst (resolveAndExecute sha reg io k who db) =
       (case p_firstApprovedAt r of None \<Rightarrow> Inr RAwaitingSecond
        | Some t \<Rightarrow> Inl (SecondApprovalTooEarlyError k (t + 30000)))"
proof (cases "p_firstApprovedAt r")
  case None
  then show ?thesis using assms by (simp add: resolveAndExecute_def dc_first)
next
  case (Some t)
  then show ?thesis using assms by (simp add: resolveAndExecute_def dc_second DUAL_CONFIRM_DELAY_MS_def)
qed

text \<open>When an approval reports that the action ran, the row was free and this call claimed it, the
  level's conditions held, the executor registered for the row's tool was given the row's payload,
  and at that moment the audit log already ended in the approval of this request by this person.\<close>

theorem executed_only_claimed_and_audited:
  assumes "hitl_wf db" "resolveAndExecute sha reg io k who db = (Inr (RResolved tool result), db')"
  shows "\<exists>r ex db3 row. getPending k db = Some r \<and> p_executingAt r = None \<and> tool = p_toolName r
    \<and> (p_level r = ''confirm'' \<or> p_level r = ''dual-confirm'' \<and>
        (\<exists>t. p_firstApprovedAt r = Some t \<and> t + 30000 \<le> x_approvalNow io))
    \<and> reg tool = Some ex \<and> fst (ex (p_payload r) (Some k) db3) = Inr result
    \<and> audit_log db3 = audit_log db @ [row] \<and> approval_audited k who r row
    \<and> getPending k db3 = Some (r\<lparr>p_executingAt := Some (x_claimNow io), p_executionError := None\<rparr>)"
  using assms(1)
proof (cases rule: resolve_cases [where sha = sha and io = io and k = k and who = who])
  case (ran r row)
  let ?db3 = "ready_state io k row db"
  obtain x db4 where ex: "execute reg (p_toolName r) (p_payload r) (Some k) ?db3 = (x, db4)" by fastforce
  from assms(2) have x: "x = Inr result" "tool = p_toolName r"
    unfolding ran(7) ex by (simp_all split: sum.splits)
  with ex obtain f where f: "reg tool = Some f" "f (p_payload r) (Some k) ?db3 = (Inr result, db4)"
    by (auto simp only: execute_def prod.inject sum.simps split: option.splits)
  have "getPending k ?db3 = Some (r\<lparr>p_executingAt := Some (x_claimNow io), p_executionError := None\<rparr>)"
    using ran(1,2) by (simp add: claimed_row)
  moreover have "audit_log ?db3 = audit_log db @ [row]" by simp
  moreover have "p_level r = ''confirm'' \<or> p_level r = ''dual-confirm'' \<and>
      (\<exists>t. p_firstApprovedAt r = Some t \<and> t + 30000 \<le> x_approvalNow io)"
    using dc_ResolvedD [OF assms(1) ran(3)] ran(1) by (simp add: DUAL_CONFIRM_DELAY_MS_def)
  moreover have "fst (f (p_payload r) (Some k) ?db3) = Inr result" using f(2) by simp
  ultimately show ?thesis using ran(1,2,6) x(2) f(1) by blast
next
  case (audit_failed r e db1)
  from audit_failed(4) [of reg] assms(2) show ?thesis by simp
next
  case (refused e db1)
  from refused(1) [of reg] assms(2) show ?thesis by simp
next
  case (first db1)
  from first(1) [of reg] assms(2) show ?thesis by simp
qed

text \<open>C8: with the audit chain locked, or its write failing, an approval never runs the action, whatever
  executors are registered: the log stays as it is and no row ends up claimed that was free before.\<close>

theorem approval_fail_closed:
  assumes "hitl_wf db" "isLocked db \<or> io_fault (x_audit io) \<noteq> None"
  shows "(\<forall>reg'. resolveAndExecute sha reg io k who db = resolveAndExecute sha reg' io k who db)
    \<and> audit_log (snd (resolveAndExecute sha reg io k who db)) = audit_log db
    \<and> map_option p_executingAt (getPending j (snd (resolveAndExecute sha reg io k who db)))
        = map_option p_executingAt (getPending j db)"
  using assms(1)
proof (cases rule: resolve_cases [where sha = sha and io = io and k = k and who = who])
  case (audit_failed r e db1)
  have "map_option p_executingAt (getPending j (releaseClaim k n db1)) = map_option p_executingAt (getPending j db)" for n
  proof (cases "j = k")
    case True
    with audit_failed getPending_key [OF audit_failed(1)] show ?thesis
      by (simp add: release_getPending claim_getPending)
  next
    case False
    then show ?thesis
      using approvals.release_other [of db1 j k n] approvals.claim_other [OF assms(1) False, of "x_claimNow io"]
        audit_failed(5) assms(1) by simp
  qed
  with audit_failed(4,5) show ?thesis by simp
qed (use assms(2) in auto)

text \<open>A row that is claimed or gone gives an approver nothing to run.\<close>

lemma resolve_not_free:
  assumes "hitl_wf db" "\<And>r. getPending k db = Some r \<Longrightarrow> p_executingAt r \<noteq> None"
  shows "\<exists>res db1. (\<forall>reg. resolveAndExecute sha reg io k who db = (res, db1)) \<and>
    (\<forall>tool x. res \<noteq> Inr (RResolved tool x)) \<and> audit_log db1 = audit_log db"
  using assms(1)
proof (cases rule: resolve_cases [where sha = sha and io = io and k = k and who = who])
  case (refused e db1)
  then show ?thesis by (intro exI [of _ "Inl e"] exI [of _ db1]) simp
next
  case (first db1)
  then show ?thesis by (intro exI [of _ "Inr RAwaitingSecond"] exI [of _ db1]) simp
qed (use assms(2) in auto)

text \<open>An approved action runs at most once: after a call that ran it, no further approval of that
  request runs anything or writes to the log, whatever executors are registered and whatever happens
  to other rows in between, even when the final delete failed.\<close>

theorem executed_at_most_once:
  assumes "hitl_wf db" "leaves_row k reg"
    and "resolveAndExecute sha reg io k who db = (Inr (RResolved tool result), db')"
    and "\<forall>op \<in> set ops. op_key op = k \<longrightarrow> is_claim op"
  shows "\<exists>res db''. (\<forall>reg'. resolveAndExecute sha reg' io' k who' (fold approvals.run_op ops db') = (res, db''))
    \<and> (\<forall>tool x. res \<noteq> Inr (RResolved tool x)) \<and> audit_log db'' = audit_log (fold approvals.run_op ops db')"
proof -
  have "hitl_wf db' \<and> (getPending k db' = None \<or> (\<exists>r. getPending k db' = Some r \<and> held_row r))"
    using assms(1)
  proof (cases rule: resolve_cases [where sha = sha and io = io and k = k and who = who])
    case (ran r row)
    obtain x db4 where ex: "execute reg (p_toolName r) (p_payload r) (Some k) (ready_state io k row db) = (x, db4)"
      by fastforce
    from assms(3) have "db' = (if x_removeFault io then db4 else removePending k db4)"
      unfolding ran(7) ex by (auto split: sum.splits)
    moreover have "hitl_wf db4" "getPending k db4 = Some (r\<lparr>p_executingAt := Some (x_claimNow io), p_executionError := None\<rparr>)"
      using execute_keeps [OF assms(2) ex] assms(1) ran(1,2) by (simp_all add: claimed_row)
    ultimately show ?thesis by (simp add: held_row_def)
  next
    case (audit_failed r e db1)
    from audit_failed(4) [of reg] assms(3) show ?thesis by simp
  next
    case (refused e db1)
    from refused(1) [of reg] assms(3) show ?thesis by simp
  next
    case (first db1)
    from first(1) [of reg] assms(3) show ?thesis by simp
  qed
  then have "hitl_wf (fold approvals.run_op ops db')"
    "\<And>r. getPending k (fold approvals.run_op ops db') = Some r \<Longrightarrow> p_executingAt r \<noteq> None"
    using approvals.missing_stays [OF _ _ assms(4), of db'] approvals.held_stays [OF _ _ _ assms(4), of db']
    by (auto simp: approvals.inv_run held_row_def)
  then show ?thesis by (rule resolve_not_free)
qed

text \<open>When the executor fails, the approval is not lost: the row is back, free, with the failure noted,
  the error reaches the caller, and the log holds the approval, what the executor wrote, and the
  failure when it could be written.\<close>

theorem executor_failure_keeps_approval:
  assumes "hitl_wf db" "leaves_row k reg" "getPending k db = Some r" "p_executingAt r = None"
    and "dc_recordApproval k who (x_approvalNow io) db = (Inr Resolved, db)"
    and "\<not> isLocked db" "io_fault (x_audit io) = None"
    and "\<And>s. \<exists>s'. execute reg (p_toolName r) (p_payload r) (Some k) s = (Inl e, s')"
  shows "fst (resolveAndExecute sha reg io k who db) = Inl e
    \<and> getPending k (snd (resolveAndExecute sha reg io k who db))
        = Some (r\<lparr>p_executingAt := None, p_executionError := Some (ExecutorFailed e)\<rparr>)
    \<and> (\<exists>row added. approval_audited k who r row \<and>
         prefix (audit_log db @ row # added) (audit_log (snd (resolveAndExecute sha reg io k who db))))"
  using assms(1)
proof (cases rule: resolve_cases [where sha = sha and io = io and k = k and who = who])
  case (ran r' row)
  then have [simp]: "r' = r" using assms(3) by simp
  obtain db4 where ex: "execute reg (p_toolName r) (p_payload r) (Some k) (ready_state io k row db) = (Inl e, db4)"
    using assms(8) by blast
  have k: "getPending k db4 = Some (r\<lparr>p_executingAt := Some (x_claimNow io), p_executionError := None\<rparr>)"
    using execute_keeps [OF assms(2) ex] assms(3,4) by (simp add: claimed_row)
  obtain added where a: "audit_log db4 = audit_log db @ row # added"
    using execute_keeps(3) [OF assms(2) ex] by auto
  let ?d = "releaseClaim k (Some (ExecutorFailed e)) db4"
  let ?fin = "snd (recordExecutionFailure sha (x_failureAudit io) k (p_toolName r) (p_inputsHash r) ?d)"
  have res: "resolveAndExecute sha reg io k who db = (Inl e, ?fin)"
    unfolding ran(7) using ex by simp
  have "getPending k ?fin = getPending k ?d" by (rule getPending_frame) simp
  also have "\<dots> = Some (r\<lparr>p_executingAt := None, p_executionError := Some (ExecutorFailed e)\<rparr>)"
    using k getPending_key [OF assms(3)] by (simp add: release_getPending)
  finally have row: "getPending k ?fin = Some (r\<lparr>p_executingAt := None, p_executionError := Some (ExecutorFailed e)\<rparr>)" .
  have "prefix (audit_log ?d) (audit_log ?fin)"
    by (auto simp: recordExecutionFailure_def appendRow_def Let_def split: option.splits)
  with a res row ran(6) show ?thesis by auto
qed (use assms(3-7) in auto)

text \<open>A rejection never runs anything. When it reports success, exactly one rejection row was added
  and the approval is gone; when it fails the log is untouched and no claim is left behind; and an
  approval that is being executed can be rejected only once its claim is fifteen minutes old.\<close>

theorem rejection_outcome:
  assumes "hitl_wf db" "r_stuckNow io \<le> r_removeNow io" "resolveRejection sha io k who db = (res, db')"
  shows "case res of
      Inr _ \<Rightarrow> \<exists>r row. getPending k db = Some r \<and> getPending k db' = None \<and>
        audit_log db' = audit_log db @ [row] \<and> a_requestId row = k \<and> a_actionType row = ''rejection'' \<and>
        a_approver row = Some who \<and> a_toolName row = Some (p_toolName r) \<and>
        (\<forall>since. p_executingAt r = Some since \<longrightarrow> r_stuckNow io - since > 15 * 60 * 1000)
    | Inl e \<Rightarrow> audit_log db' = audit_log db \<and>
        map_option p_executingAt (getPending k db') = map_option p_executingAt (getPending k db)"
proof (cases "getPending k db")
  case None
  with assms(3) show ?thesis by (auto simp: resolveRejection_def)
next
  case g: (Some r)
  show ?thesis
  proof (cases "p_executingAt r")
    case (Some since)
    then have cl: "claimForExecution k (r_claimNow io) db = (None, db)"
      by (intro claim_busy_row [OF assms(1)]) (simp add: g)
    obtain a db2 where au: "recordRejection sha (r_audit io) k who (p_toolName r) (p_inputsHash r) db = (a, db2)"
      by fastforce
    show ?thesis
      using assms(2,3) au Some
      by (cases a) (auto simp: resolveRejection_def g cl Let_def STUCK_CLAIM_AFTER_MS_def
          removeIf_getPending assms(1) recordRejection_def
          split: if_splits dest: appendRow_InlD elim!: appendRow_InrE)
  next
    case None
    let ?c = "r\<lparr>p_executingAt := Some (r_claimNow io), p_executionError := None\<rparr>"
    obtain db1 where cl: "claimForExecution k (r_claimNow io) db = (Some ?c, db1)"
      using claim_free_row [OF assms(1) g None, of "r_claimNow io"] by (metis prod.collapse)
    then have db1: "db1 = snd (claimForExecution k (r_claimNow io) db)" by simp
    have g1: "getPending k db1 = Some ?c" "audit_log db1 = audit_log db"
      using claimed_row [OF g None] by (simp_all add: db1)
    obtain a db2 where au: "recordRejection sha (r_audit io) k who (p_toolName r) (p_inputsHash r) db1 = (a, db2)"
      by fastforce
    show ?thesis
      using assms(3) au g1 None
      by (cases a) (auto simp: resolveRejection_def g cl recordRejection_def release_getPending
          getPending_key [OF g] dest!: appendRow_InlD elim!: appendRow_InrE)
  qed
qed

text \<open>While an execution is in progress nobody can reject it: the call fails with
  \<open>ApprovalAlreadyResolvedError\<close> and changes nothing.\<close>

theorem reject_refused_while_executing:
  assumes "hitl_wf db" "getPending k db = Some r" "p_executingAt r = Some since"
    and "r_stuckNow io - since \<le> 15 * 60 * 1000"
  shows "resolveRejection sha io k who db = (Inl (ApprovalAlreadyResolvedError k), db)"
proof -
  have "claimForExecution k (r_claimNow io) db = (None, db)"
    by (intro claim_busy_row [OF assms(1)]) (simp add: assms)
  with assms show ?thesis by (simp add: resolveRejection_def STUCK_CLAIM_AFTER_MS_def)
qed

section \<open>Witnesses\<close>

definition sample_pending :: "string \<Rightarrow> timestamp option \<Rightarrow> PendingApprovalRow" where
  "sample_pending level first =
     (new_row \<lparr>c_requestId = ''r1'', c_toolName = ''sendEmail'', c_level = level, c_inputsHash = ''h'',
        c_planSummary = None, c_payload = Some JNull, c_actor = None, c_externalInputsSummary = None\<rparr> 0)
     \<lparr>p_firstApprovedAt := first, p_firstApprover := map_option (\<lambda>_. ''owner'') first,
      p_availableAt := map_option computeAvailableAt first\<rparr>"

definition sample_hitl :: "PendingApprovalRow list \<Rightarrow> hitl_db" where
  "sample_hitl rows = \<lparr>audit_log = [], audit_next_id = 1, audit_chain_lock = None,
     pending_approvals = rows, events = []\<rparr>"

definition sample_reg :: "(jin_error + json) \<Rightarrow> hitl_db executors" where
  "sample_reg r = [''sendEmail'' \<mapsto> (\<lambda>_ _ s. (r, s))]"

definition sample_io :: "timestamp \<Rightarrow> bool \<Rightarrow> exec_io" where
  "sample_io t fault = \<lparr>x_approvalNow = t, x_claimNow = t, x_audit = \<lparr>io_now = t, io_fault = None\<rparr>,
     x_failureAudit = \<lparr>io_now = t, io_fault = None\<rparr>, x_removeFault = fault\<rparr>"

lemma sample_wf [simp]: "hitl_wf (sample_hitl [])" "hitl_wf (sample_hitl [sample_pending l f])"
  by (simp_all add: hitl_wf_def sample_hitl_def sample_pending_def)

lemma sample_get [simp]: "getPending ''r1'' (sample_hitl [sample_pending l f]) = Some (sample_pending l f)"
  by (simp add: getPending_def sample_hitl_def sample_pending_def new_row_def)

lemma sample_pending_fields [simp]:
  "p_level (sample_pending l f) = l" "p_firstApprovedAt (sample_pending l f) = f"
  "p_executingAt (sample_pending l f) = None" "p_toolName (sample_pending l f) = ''sendEmail''"
  by (simp_all add: sample_pending_def new_row_def)

lemma sample_leaves_row [simp]: "leaves_row k (sample_reg r)"
  by (auto simp: leaves_row_def sample_reg_def)

lemma sample_unlocked [simp]: "\<not> isLocked (sample_hitl rows)"
  by (simp add: isLocked_def sample_hitl_def)

lemma sample_runs:
  "\<exists>db'. resolveAndExecute sha (sample_reg (Inr JNull)) (sample_io t fault) ''r1'' ''owner''
     (sample_hitl [sample_pending ''confirm'' None]) = (Inr (RResolved ''sendEmail'' JNull), db')"
  using sample_wf(2) [of "''confirm''" None]
proof (cases rule: resolve_cases [where sha = sha and io = "sample_io t fault" and k = "''r1''" and who = "''owner''"])
  case (ran r row)
  then have "p_toolName r = ''sendEmail''" by (auto simp del: sample_pending_fields) simp
  with ran(7) show ?thesis by (simp add: execute_def sample_reg_def)
qed (simp_all add: dc_confirm sample_io_def)

theorem dual_confirm_needs_two_approvals_witness:
  "fst (resolveAndExecute sample_sha (sample_reg (Inr JNull)) (sample_io 29999 False) ''r1'' ''owner''
     (sample_hitl [sample_pending ''dual-confirm'' (Some 0)])) = Inl (SecondApprovalTooEarlyError ''r1'' 30000)"
  using dual_confirm_needs_two_approvals [of "sample_hitl [sample_pending ''dual-confirm'' (Some 0)]" "''r1''"
      "sample_pending ''dual-confirm'' (Some 0)" "sample_io 29999 False"]
  by (simp add: sample_io_def)

theorem executed_only_claimed_and_audited_witness:
  "\<exists>ex. sample_reg (Inr JNull) ''sendEmail'' = Some ex"
proof -
  obtain db' where "resolveAndExecute sample_sha (sample_reg (Inr JNull)) (sample_io 5 False) ''r1'' ''owner''
     (sample_hitl [sample_pending ''confirm'' None]) = (Inr (RResolved ''sendEmail'' JNull), db')"
    using sample_runs by blast
  from executed_only_claimed_and_audited [OF sample_wf(2) this] show ?thesis by blast
qed

theorem approval_fail_closed_witness:
  "audit_log (snd (resolveAndExecute sample_sha (sample_reg (Inr JNull))
     ((sample_io 5 False)\<lparr>x_audit := \<lparr>io_now = 5, io_fault = Some ''down''\<rparr>\<rparr>) ''r1'' ''owner''
     (sample_hitl [sample_pending ''confirm'' None]))) = []"
  using approval_fail_closed [of "sample_hitl [sample_pending ''confirm'' None]"
      "(sample_io 5 False)\<lparr>x_audit := \<lparr>io_now = 5, io_fault = Some ''down''\<rparr>\<rparr>"
      sample_sha "sample_reg (Inr JNull)" "''r1''" "''owner''"]
  by simp (simp add: sample_hitl_def)

theorem executed_at_most_once_witness:
  "\<exists>db' res db''. resolveAndExecute sample_sha (sample_reg (Inr JNull)) (sample_io 5 True) ''r1'' ''owner''
      (sample_hitl [sample_pending ''confirm'' None]) = (Inr (RResolved ''sendEmail'' JNull), db') \<and>
    (\<forall>reg'. resolveAndExecute sample_sha reg' (sample_io 6 False) ''r1'' ''other''
      (fold approvals.run_op [OpClaim ''r1'' 6, OpRemove ''r2''] db') = (res, db''))"
proof -
  obtain db' where r: "resolveAndExecute sample_sha (sample_reg (Inr JNull)) (sample_io 5 True) ''r1'' ''owner''
     (sample_hitl [sample_pending ''confirm'' None]) = (Inr (RResolved ''sendEmail'' JNull), db')"
    using sample_runs by blast
  from executed_at_most_once [OF sample_wf(2) sample_leaves_row r, of "[OpClaim ''r1'' 6, OpRemove ''r2'']"
      "sample_io 6 False" "''other''"] r
  show ?thesis by fastforce
qed

theorem executor_failure_keeps_approval_witness:
  "fst (resolveAndExecute sample_sha (sample_reg (Inl (OtherError ''smtp''))) (sample_io 5 False) ''r1'' ''owner''
     (sample_hitl [sample_pending ''confirm'' None])) = Inl (OtherError ''smtp'')"
  using executor_failure_keeps_approval [of "sample_hitl [sample_pending ''confirm'' None]" "''r1''"
      "sample_reg (Inl (OtherError ''smtp''))" "sample_pending ''confirm'' None" "''owner''" "sample_io 5 False"
      "OtherError ''smtp''" sample_sha, OF sample_wf(2) sample_leaves_row]
  by (simp add: dc_confirm sample_io_def) (simp add: execute_def sample_reg_def)

definition sample_rio :: "timestamp \<Rightarrow> reject_io" where
  "sample_rio t = \<lparr>r_claimNow = t, r_stuckNow = t, r_removeNow = t, r_audit = \<lparr>io_now = t, io_fault = None\<rparr>\<rparr>"

theorem rejection_outcome_witness:
  "audit_log (snd (resolveRejection sample_sha (sample_rio 5) ''missing'' ''owner'' (sample_hitl []))) = []"
proof -
  have "resolveRejection sample_sha (sample_rio 5) ''missing'' ''owner'' (sample_hitl []) =
      (Inl (PendingApprovalNotFoundError ''missing''), sample_hitl [])"
    by (simp add: resolveRejection_def getPending_def sample_hitl_def)
  with rejection_outcome [OF sample_wf(1) _ this] have "audit_log (snd (resolveRejection sample_sha (sample_rio 5)
      ''missing'' ''owner'' (sample_hitl []))) = audit_log (sample_hitl [])"
    by (simp add: sample_rio_def)
  then show ?thesis by (simp add: sample_hitl_def)
qed

theorem reject_refused_while_executing_witness:
  "fst (resolveRejection sample_sha (sample_rio 900000) ''r1'' ''owner''
     (sample_hitl [(sample_pending ''confirm'' None)\<lparr>p_executingAt := Some 0\<rparr>])) = Inl (ApprovalAlreadyResolvedError ''r1'')"
proof -
  let ?db = "sample_hitl [(sample_pending ''confirm'' None)\<lparr>p_executingAt := Some 0\<rparr>]"
  have "hitl_wf ?db" "getPending ''r1'' ?db = Some ((sample_pending ''confirm'' None)\<lparr>p_executingAt := Some 0\<rparr>)"
    by (simp_all add: hitl_wf_def getPending_def sample_hitl_def sample_pending_def new_row_def)
  from reject_refused_while_executing [OF this, of 0 "sample_rio 900000"] show ?thesis
    by (simp add: sample_rio_def)
qed

end
