(* ===== verification/Hitl_Timeout.thy ===== *)
theory Hitl_Timeout
  imports Hitl_Approvals
begin

text \<open>
  Expiry of pending approvals: the decision of \<open>src/hitl/timeout.logic.ts\<close> and the hourly sweep of
  \<open>src/hitl/timeout.service.ts\<close>. The sweep reads the table once and then treats each row of that
  snapshot; each claim and audit takes its own clock reading and connection. An exception in one row
  ends the sweep.
\<close>

section \<open>The decision\<close>

definition APPROVAL_TTL_MS :: int where
  "APPROVAL_TTL_MS = 24 * 60 * 60 * 1000"

definition ESCALATION_WARNING_MS :: int where
  "ESCALATION_WARNING_MS = 12 * 60 * 60 * 1000"

datatype TimeoutOutcome = TNone | TDiscard | TEscalateWarning | TAbandon

definition decideTimeoutOutcome :: "timestamp \<Rightarrow> timeoutBehavior \<Rightarrow> bool \<Rightarrow> timestamp \<Rightarrow> TimeoutOutcome" where
  "decideTimeoutOutcome createdAt timeoutBehavior alreadyEscalated now =
     (let elapsedMs = now - createdAt in
      if timeoutBehavior = TBdiscard
      then (if elapsedMs \<ge> APPROVAL_TTL_MS then TDiscard else TNone)
      else if elapsedMs \<ge> APPROVAL_TTL_MS then TAbandon
      else if elapsedMs \<ge> ESCALATION_WARNING_MS \<and> \<not> alreadyEscalated then TEscalateWarning
      else TNone)"

section \<open>One row\<close>

definition pending_outcome :: "PendingApprovalRow \<Rightarrow> timestamp \<Rightarrow> TimeoutOutcome" where
  "pending_outcome pending now =
     (let timeoutBehavior = (case getToolDefinition (p_toolName pending) of
            Some tool \<Rightarrow> (case t_timeoutBehavior tool of Some b \<Rightarrow> b | None \<Rightarrow> TBdiscard)
          | None \<Rightarrow> TBdiscard)
      in decideTimeoutOutcome (p_createdAt pending) timeoutBehavior (p_escalatedAt pending \<noteq> None) now)"

text \<open>What one row of the sweep meets: the clock of its claim and the audit connection.\<close>

record sweep_io =
  s_claimNow :: timestamp
  s_audit :: audit_io

definition claimAndAuditTimeout :: "(string \<Rightarrow> string) \<Rightarrow> sweep_io \<Rightarrow> PendingApprovalRow \<Rightarrow> string
    \<Rightarrow> 's hitl_db_scheme \<Rightarrow> (jin_error + bool) \<times> 's hitl_db_scheme" where
  "claimAndAuditTimeout sha io pending status db =
     (case claimForExecution (p_requestId pending) (s_claimNow io) db of
        (None, db1) \<Rightarrow> (Inr False, db1)
      | (Some claimed, db1) \<Rightarrow>
          (case recordTimeout sha (s_audit io) (p_requestId pending) (p_toolName pending)
                  (p_inputsHash pending) status db1 of
             (Inl e, db2) \<Rightarrow> (Inl e, releaseClaim (p_requestId pending) None db2)
           | (Inr _, db2) \<Rightarrow> (Inr True, db2)))"

definition set_escalated :: "uuid \<Rightarrow> timestamp \<Rightarrow> 's hitl_db_scheme \<Rightarrow> 's hitl_db_scheme" where
  "set_escalated requestId now db = db\<lparr>pending_approvals :=
     update_rows (\<lambda>r. p_requestId r = requestId) (\<lambda>r. r\<lparr>p_escalatedAt := Some now\<rparr>) (pending_approvals db)\<rparr>"

definition processPending :: "(string \<Rightarrow> string) \<Rightarrow> sweep_io \<Rightarrow> PendingApprovalRow \<Rightarrow> timestamp
    \<Rightarrow> 's hitl_db_scheme \<Rightarrow> (jin_error + unit) \<times> 's hitl_db_scheme" where
  "processPending sha io pending now db =
     (case p_executingAt pending of
        Some since \<Rightarrow>
          (Inr (), if now - since > STUCK_CLAIM_AFTER_MS
                   then emit (ApprovalStuck (p_requestId pending) (p_toolName pending)) db else db)
      | None \<Rightarrow>
          (case pending_outcome pending now of
             TNone \<Rightarrow> (Inr (), db)
           | TDiscard \<Rightarrow>
               (case claimAndAuditTimeout sha io pending ''timeout'' db of
                  (Inl e, db1) \<Rightarrow> (Inl e, db1)
                | (Inr False, db1) \<Rightarrow> (Inr (), db1)
                | (Inr True, db1) \<Rightarrow> (Inr (), removePending (p_requestId pending) db1))
           | TEscalateWarning \<Rightarrow>
               (Inr (), emit (ApprovalEscalated (p_requestId pending) (p_toolName pending))
                          (set_escalated (p_requestId pending) now db))
           | TAbandon \<Rightarrow>
               (case claimAndAuditTimeout sha io pending ''abandoned'' db of
                  (Inl e, db1) \<Rightarrow> (Inl e, db1)
                | (Inr False, db1) \<Rightarrow> (Inr (), db1)
                | (Inr True, db1) \<Rightarrow>
                    (Inr (), emit (ApprovalAbandoned (p_requestId pending) (p_toolName pending))
                               (removePending (p_requestId pending) db1)))))"

section \<open>The sweep\<close>

fun sweep_rows :: "(string \<Rightarrow> string) \<Rightarrow> (PendingApprovalRow \<Rightarrow> sweep_io) \<Rightarrow> timestamp
    \<Rightarrow> PendingApprovalRow list \<Rightarrow> 's hitl_db_scheme \<Rightarrow> (jin_error + unit) \<times> 's hitl_db_scheme" where
  "sweep_rows sha io now [] db = (Inr (), db)"
| "sweep_rows sha io now (row # rows) db =
     bind_result (processPending sha (io row) row now db) (\<lambda>_ db1. sweep_rows sha io now rows db1)"

definition sweep :: "(string \<Rightarrow> string) \<Rightarrow> (PendingApprovalRow \<Rightarrow> sweep_io) \<Rightarrow> timestamp
    \<Rightarrow> 's hitl_db_scheme \<Rightarrow> (jin_error + unit) \<times> 's hitl_db_scheme" where
  "sweep sha io now db = sweep_rows sha io now (pending_approvals db) db"

section \<open>Effect of one row\<close>

lemma decide_bounds:
  "decideTimeoutOutcome c b e now = TDiscard \<Longrightarrow> b = TBdiscard \<and> now - c \<ge> 86400000"
  "decideTimeoutOutcome c b e now = TAbandon \<Longrightarrow> b = TBescalate \<and> now - c \<ge> 86400000"
  "decideTimeoutOutcome c b e now = TEscalateWarning \<Longrightarrow>
     b = TBescalate \<and> 43200000 \<le> now - c \<and> now - c < 86400000 \<and> \<not> e"
  by (cases b; auto simp: decideTimeoutOutcome_def Let_def APPROVAL_TTL_MS_def ESCALATION_WARNING_MS_def
      split: if_splits)+

lemma set_escalated_simps [simp]:
  "audit_log (set_escalated k now db) = audit_log db"
  "audit_next_id (set_escalated k now db) = audit_next_id db"
  "isLocked (set_escalated k now db) = isLocked db"
  "getPending j (set_escalated k now db) = map_option (\<lambda>r.
     if p_requestId r = k then r\<lparr>p_escalatedAt := Some now\<rparr> else r) (getPending j db)"
  by (simp_all add: set_escalated_def isLocked_def getPending_def lookup_row_update_rows)

lemma set_escalated_wf [simp]: "hitl_wf db \<Longrightarrow> hitl_wf (set_escalated k now db)"
  by (auto simp: set_escalated_def hitl_wf_def set_update_rows)

lemma emit_simps [simp]: "getPending k (emit e db) = getPending k db" "hitl_wf (emit e db) = hitl_wf db"
  "isLocked (emit e db) = isLocked db"
  by (simp_all add: emit_def isLocked_def)

text \<open>The claim and the audit of an expiry: it fires only on a row that is free at that moment.\<close>

lemma claimAndAuditTimeout_cases:
  assumes "hitl_wf db"
  obtains
    (lost) "claimAndAuditTimeout sha io pending status db = (Inr False, db)"
      "\<And>r. getPending (p_requestId pending) db = Some r \<Longrightarrow> p_executingAt r \<noteq> None"
  | (failed) e where "claimAndAuditTimeout sha io pending status db =
        (Inl e, releaseClaim (p_requestId pending) None (snd (claimForExecution (p_requestId pending) (s_claimNow io) db)))"
      "isLocked db \<or> io_fault (s_audit io) \<noteq> None"
  | (won) r row db1 where "getPending (p_requestId pending) db = Some r" "p_executingAt r = None"
      "claimAndAuditTimeout sha io pending status db = (Inr True, db1)"
      "audit_log db1 = audit_log db @ [row]" "a_requestId row = p_requestId pending"
      "a_actionType row = ''timeout''" "a_approvalStatus row = status" "hitl_wf db1"
      "\<And>j. getPending j db1 = getPending j (snd (claimForExecution (p_requestId pending) (s_claimNow io) db))"
proof (cases "\<exists>r. getPending (p_requestId pending) db = Some r \<and> p_executingAt r = None")
  case False
  then have "claimForExecution (p_requestId pending) (s_claimNow io) db = (None, db)"
    by (intro claim_busy_row [OF assms]) auto
  with False show thesis by (intro lost) (auto simp: claimAndAuditTimeout_def)
next
  case True
  then obtain r where r: "getPending (p_requestId pending) db = Some r" "p_executingAt r = None" by blast
  obtain db1 where cl: "claimForExecution (p_requestId pending) (s_claimNow io) db =
      (Some (r\<lparr>p_executingAt := Some (s_claimNow io), p_executionError := None\<rparr>), db1)"
    using claim_free_row [OF assms r, of "s_claimNow io"] by (metis prod.collapse)
  then have db1: "db1 = snd (claimForExecution (p_requestId pending) (s_claimNow io) db)" by simp
  have wf1: "hitl_wf db1" "audit_log db1 = audit_log db" "isLocked db1 = isLocked db"
    using assms by (simp_all add: db1)
  obtain a db2 where au: "recordTimeout sha (s_audit io) (p_requestId pending) (p_toolName pending)
      (p_inputsHash pending) status db1 = (a, db2)" by fastforce
  show thesis
  proof (cases a)
    case (Inl e)
    have "isLocked db \<or> io_fault (s_audit io) \<noteq> None"
      using au Inl wf1(3) by (auto simp: recordTimeout_def appendRow_def Let_def split: if_splits option.splits)
    then show thesis
      using au Inl record_InlD(3) [of sha "s_audit io" "p_requestId pending" "p_toolName pending"
          "p_inputsHash pending" status db1 e db2]
      by (intro failed [of e]) (simp_all add: claimAndAuditTimeout_def cl)
  next
    case (Inr row)
    with au have row: "row = mk_row \<lparr>a_requestId = p_requestId pending, a_actor = ''system'',
        a_actionType = ''timeout'', a_toolName = Some (p_toolName pending), a_inputsHash = p_inputsHash pending,
        a_planSummary = None, a_approvalStatus = status, a_approver = None, a_externalInputsSummary = None\<rparr>
        (io_now (s_audit io)) (audit_next_id db1) (last_hash db1) (a_currentHash row)"
      and db2: "db2 = db1\<lparr>audit_log := audit_log db1 @ [row], audit_next_id := audit_next_id db1 + 1\<rparr>"
      by (auto simp: recordTimeout_def elim!: appendRow_InrE)
    have f: "a_requestId row = p_requestId pending" "a_actionType row = ''timeout''" "a_approvalStatus row = status"
      by (subst row, simp)+
    show thesis
      using au Inr
      by (intro won [of r db2 row]) (simp_all add: r f claimAndAuditTimeout_def cl db2 wf1)
  qed
qed

text \<open>What a timeout may do to the row it is about; \<open>added\<close> are the audit rows it writes.\<close>

definition expiry_effect :: "timestamp \<Rightarrow> PendingApprovalRow \<Rightarrow> PendingApprovalRow option \<Rightarrow> AuditLogRow list \<Rightarrow> bool" where
  "expiry_effect now pending after added \<longleftrightarrow>
     (\<forall>row \<in> set added. a_actionType row = ''timeout'' \<and> a_requestId row = p_requestId pending) \<and>
     (case after of
        None \<Rightarrow> p_executingAt pending = None \<and> now - p_createdAt pending \<ge> 86400000 \<and> added \<noteq> []
      | Some r \<Rightarrow> r = pending\<lparr>p_escalatedAt := p_escalatedAt r, p_executionError := p_executionError r\<rparr> \<and>
          (p_executingAt pending \<noteq> None \<longrightarrow> r = pending) \<and> added = [])"

lemma expiry_effect_same [simp]: "expiry_effect now r (Some r) []"
  by (simp add: expiry_effect_def)

lemma claim_release_row:
  assumes "getPending k db = Some r" "p_executingAt r = None"
  shows "getPending k (releaseClaim k None (snd (claimForExecution k t db))) = Some (r\<lparr>p_executionError := None\<rparr>)"
  using assms getPending_key [OF assms(1)] by (simp add: release_getPending claimed_row)

lemma claim_release_other:
  "hitl_wf db \<Longrightarrow> j \<noteq> k \<Longrightarrow> getPending j (releaseClaim k n (snd (claimForExecution k t db))) = getPending j db"
  using approvals.release_other [of "snd (claimForExecution k t db)" j k n] approvals.claim_other [of db j k t]
  by simp

lemma claimAndAudit_effect:
  assumes "hitl_wf db" "getPending (p_requestId pending) db = Some pending" "p_executingAt pending = None"
    "now - p_createdAt pending \<ge> 86400000" "claimAndAuditTimeout sha io pending status db = (x, db1)"
  shows "\<exists>added. audit_log db1 = audit_log db @ added \<and> isLocked db1 = isLocked db \<and> hitl_wf db1
    \<and> (\<forall>j. j \<noteq> p_requestId pending \<longrightarrow> getPending j db1 = getPending j db)
    \<and> (case x of Inr True \<Rightarrow> expiry_effect now pending None added
       | Inr False \<Rightarrow> False
       | Inl e \<Rightarrow> expiry_effect now pending (getPending (p_requestId pending) db1) added \<and>
                  (isLocked db \<or> io_fault (s_audit io) \<noteq> None))"
  using assms(1)
proof (cases rule: claimAndAuditTimeout_cases [where sha = sha and io = io and pending = pending and status = status])
  case lost
  with assms(2,3) show ?thesis by simp
next
  case (failed e)
  with assms have "x = Inl e" "db1 = releaseClaim (p_requestId pending) None
      (snd (claimForExecution (p_requestId pending) (s_claimNow io) db))" by simp_all
  with failed(2) assms(1-3) show ?thesis
    by (simp add: claim_release_row claim_release_other expiry_effect_def)
next
  case (won r row db2)
  with assms have "x = Inr True" "db1 = db2" by simp_all
  moreover have "isLocked db2 = isLocked db"
  proof -
    have "isLocked (snd (claimAndAuditTimeout sha io pending status db)) = isLocked db"
      by (auto simp: claimAndAuditTimeout_def recordTimeout_def appendRow_isLocked split: option.split sum.split prod.split
          dest!: arg_cong [of _ _ snd])
    with won(3) show ?thesis by simp
  qed
  ultimately show ?thesis
    using won assms(1-4) approvals.claim_other [OF assms(1), of _ "p_requestId pending" "s_claimNow io"]
    by (intro exI [of _ "[row]"]) (simp add: expiry_effect_def)
qed

lemma pending_outcome_decide:
  obtains b where "pending_outcome r now = decideTimeoutOutcome (p_createdAt r) b (p_escalatedAt r \<noteq> None) now"
  by (metis pending_outcome_def)

lemma decide_expires:
  "now - c \<ge> 86400000 \<Longrightarrow> decideTimeoutOutcome c b e now = TDiscard \<or> decideTimeoutOutcome c b e now = TAbandon"
  by (simp add: decideTimeoutOutcome_def Let_def APPROVAL_TTL_MS_def)

lemma pending_outcome_bounds:
  "pending_outcome r now = TDiscard \<Longrightarrow> now - p_createdAt r \<ge> 86400000"
  "pending_outcome r now = TAbandon \<Longrightarrow> now - p_createdAt r \<ge> 86400000"
  "now - p_createdAt r \<ge> 86400000 \<Longrightarrow> pending_outcome r now = TDiscard \<or> pending_outcome r now = TAbandon"
proof -
  obtain b where b: "pending_outcome r now = decideTimeoutOutcome (p_createdAt r) b (p_escalatedAt r \<noteq> None) now"
    by (rule pending_outcome_decide)
  show "pending_outcome r now = TDiscard \<Longrightarrow> now - p_createdAt r \<ge> 86400000"
    "pending_outcome r now = TAbandon \<Longrightarrow> now - p_createdAt r \<ge> 86400000"
    unfolding b by (simp_all add: decide_bounds)
  show "now - p_createdAt r \<ge> 86400000 \<Longrightarrow> pending_outcome r now = TDiscard \<or> pending_outcome r now = TAbandon"
    unfolding b by (rule decide_expires)
qed

text \<open>The rows' keys are distinct, so a step on one row leaves the others as they are.\<close>

lemma processPending_effect:
  assumes "hitl_wf db" "getPending (p_requestId pending) db = Some pending"
    and "processPending sha io pending now db = (x, db1)"
  shows "\<exists>added. audit_log db1 = audit_log db @ added \<and> isLocked db1 = isLocked db \<and> hitl_wf db1
    \<and> (\<forall>j. j \<noteq> p_requestId pending \<longrightarrow> getPending j db1 = getPending j db)
    \<and> expiry_effect now pending (getPending (p_requestId pending) db1) added
    \<and> (case x of Inl e \<Rightarrow> isLocked db \<or> io_fault (s_audit io) \<noteq> None
       | Inr _ \<Rightarrow> now - p_createdAt pending \<ge> 86400000 \<and> p_executingAt pending = None
                    \<longrightarrow> getPending (p_requestId pending) db1 = None)"
proof (cases "p_executingAt pending")
  case (Some since)
  with assms show ?thesis
    by (intro exI [of _ "[]"]) (auto simp: processPending_def split: if_splits)
next
  case None
  have expire: ?thesis if "pending_outcome pending now \<in> {TDiscard, TAbandon}"
  proof -
    define status where "status = (if pending_outcome pending now = TDiscard then ''timeout'' else ''abandoned'')"
    obtain y db2 where c: "claimAndAuditTimeout sha io pending status db = (y, db2)" by fastforce
    have old: "now - p_createdAt pending \<ge> 86400000" using that pending_outcome_bounds by blast
    from claimAndAudit_effect [OF assms(1,2) None old c] obtain added where eff:
      "audit_log db2 = audit_log db @ added" "isLocked db2 = isLocked db" "hitl_wf db2"
      "\<And>j. j \<noteq> p_requestId pending \<Longrightarrow> getPending j db2 = getPending j db"
      "case y of Inr True \<Rightarrow> expiry_effect now pending None added | Inr False \<Rightarrow> False
       | Inl e \<Rightarrow> expiry_effect now pending (getPending (p_requestId pending) db2) added \<and>
                  (isLocked db \<or> io_fault (s_audit io) \<noteq> None)" by blast
    show ?thesis
    proof (cases y)
      case (Inl e)
      with assms(3) None c that have "x = Inl e" "db1 = db2"
        by (auto simp: processPending_def status_def split: if_splits)
      with eff Inl show ?thesis by (intro exI [of _ added]) simp
    next
      case (Inr b)
      with eff(5) have b: "y = Inr True" by (cases b) simp_all
      with assms(3) None c that have "x = Inr ()" "db1 = removePending (p_requestId pending) db2 \<or>
          db1 = emit (ApprovalAbandoned (p_requestId pending) (p_toolName pending)) (removePending (p_requestId pending) db2)"
        by (auto simp: processPending_def status_def split: if_splits)
      with eff b show ?thesis by (intro exI [of _ added]) auto
    qed
  qed
  show ?thesis
  proof (cases "pending_outcome pending now")
    case TNone
    with pending_outcome_bounds(3) [of now pending] have "\<not> now - p_createdAt pending \<ge> 86400000" by auto
    with TNone None assms show ?thesis by (intro exI [of _ "[]"]) (auto simp: processPending_def)
  next
    case TEscalateWarning
    with pending_outcome_bounds(3) [of now pending] have "\<not> now - p_createdAt pending \<ge> 86400000" by auto
    with TEscalateWarning None assms show ?thesis
      by (intro exI [of _ "[]"]) (auto simp: processPending_def expiry_effect_def map_option_case
          split: option.splits dest: getPending_key)
  qed (use expire in auto)
qed

section \<open>The whole sweep\<close>

lemma sweep_rows_effect:
  assumes "hitl_wf db" "distinct (map p_requestId rows)"
    "\<forall>r \<in> set rows. getPending (p_requestId r) db = Some r"
    "sweep_rows sha io now rows db = (x, db')"
  shows "\<exists>added. audit_log db' = audit_log db @ concat (map added rows) \<and> hitl_wf db' \<and> isLocked db' = isLocked db
    \<and> (\<forall>r \<in> set rows. expiry_effect now r (getPending (p_requestId r) db') (added r))
    \<and> (\<forall>j. j \<notin> p_requestId ` set rows \<longrightarrow> getPending j db' = getPending j db)
    \<and> (case x of Inl e \<Rightarrow> isLocked db \<or> (\<exists>r \<in> set rows. io_fault (s_audit (io r)) \<noteq> None)
       | Inr _ \<Rightarrow> \<forall>r \<in> set rows. now - p_createdAt r \<ge> 86400000 \<and> p_executingAt r = None
                    \<longrightarrow> getPending (p_requestId r) db' = None)"
  using assms
proof (induction rows arbitrary: db)
  case Nil
  then show ?case by (cases x) auto
next
  case (Cons r rows)
  obtain y db1 where p: "processPending sha (io r) r now db = (y, db1)" by fastforce
  have g: "getPending (p_requestId r) db = Some r" using Cons.prems(3) by simp
  from processPending_effect [OF Cons.prems(1) g p] obtain a where a:
    "audit_log db1 = audit_log db @ a" "isLocked db1 = isLocked db" "hitl_wf db1"
    "\<And>j. j \<noteq> p_requestId r \<Longrightarrow> getPending j db1 = getPending j db"
    "expiry_effect now r (getPending (p_requestId r) db1) a"
    "case y of Inl e \<Rightarrow> isLocked db \<or> io_fault (s_audit (io r)) \<noteq> None
     | Inr _ \<Rightarrow> now - p_createdAt r \<ge> 86400000 \<and> p_executingAt r = None \<longrightarrow> getPending (p_requestId r) db1 = None"
    by blast
  have fresh: "p_requestId r' \<noteq> p_requestId r" "r' \<noteq> r" if "r' \<in> set rows" for r'
    using Cons.prems(2) that by (auto simp: image_iff)
  show ?case
  proof (cases y)
    case (Inl e)
    with Cons.prems(4) p have [simp]: "x = Inl e" "db' = db1" by simp_all
    have "concat (map (\<lambda>r'. if r' = r then a else []) (r # rows)) = a"
      using fresh by (auto simp: concat_eq_Nil_conv)
    then show ?thesis
      using a Inl Cons.prems(3) fresh
      by (intro exI [of _ "\<lambda>r'. if r' = r then a else []"]) (auto simp: concat_eq_Nil_conv)
  next
    case (Inr u)
    with Cons.prems(4) p have s: "sweep_rows sha io now rows db1 = (x, db')" by simp
    have "\<forall>r' \<in> set rows. getPending (p_requestId r') db1 = Some r'"
      using Cons.prems(3) a(4) fresh by simp
    from Cons.IH [OF a(3) _ this s] Cons.prems(2) obtain added where b:
      "audit_log db' = audit_log db1 @ concat (map added rows)" "hitl_wf db'" "isLocked db' = isLocked db1"
      "\<forall>r \<in> set rows. expiry_effect now r (getPending (p_requestId r) db') (added r)"
      "\<And>j. j \<notin> p_requestId ` set rows \<Longrightarrow> getPending j db' = getPending j db1"
      "case x of Inl e \<Rightarrow> isLocked db1 \<or> (\<exists>r \<in> set rows. io_fault (s_audit (io r)) \<noteq> None)
       | Inr _ \<Rightarrow> \<forall>r \<in> set rows. now - p_createdAt r \<ge> 86400000 \<and> p_executingAt r = None
                    \<longrightarrow> getPending (p_requestId r) db' = None" by auto
    have k: "getPending (p_requestId r) db' = getPending (p_requestId r) db1"
      using Cons.prems(2) by (intro b(5)) simp
    have c: "concat (map (added(r := a)) rows) = concat (map added rows)"
      using fresh by (intro arg_cong [of _ _ concat] map_cong) auto
    show ?thesis
    proof (intro exI [of _ "added(r := a)"] conjI)
      show "audit_log db' = audit_log db @ concat (map (added(r := a)) (r # rows))"
        using a(1) b(1) c by simp
      show "\<forall>r' \<in> set (r # rows). expiry_effect now r' (getPending (p_requestId r') db') ((added(r := a)) r')"
        using a(5) b(4) k fresh by auto
    qed (use a b k Inr in \<open>auto split: sum.splits\<close>)
  qed
qed

section \<open>Properties\<close>

lemma sweep_effect:
  assumes "hitl_wf db" "sweep sha io now db = (x, db')"
  obtains added where "audit_log db' = audit_log db @ concat (map added (pending_approvals db))"
    "\<And>k r. getPending k db = Some r \<Longrightarrow> r \<in> set (pending_approvals db) \<and> expiry_effect now r (getPending k db') (added r)"
    "\<And>k. getPending k db = None \<Longrightarrow> getPending k db' = None"
    "case x of Inl e \<Rightarrow> isLocked db \<or> (\<exists>r \<in> set (pending_approvals db). io_fault (s_audit (io r)) \<noteq> None)
     | Inr _ \<Rightarrow> \<forall>r \<in> set (pending_approvals db). now - p_createdAt r \<ge> 86400000 \<and> p_executingAt r = None
                  \<longrightarrow> getPending (p_requestId r) db' = None"
proof -
  have "\<forall>r \<in> set (pending_approvals db). getPending (p_requestId r) db = Some r"
    using assms(1) by (simp add: getPending_Some_iff)
  from sweep_rows_effect [OF assms(1) _ this assms(2) [unfolded sweep_def]] assms(1)
  obtain added where a: "audit_log db' = audit_log db @ concat (map added (pending_approvals db))"
    "\<forall>r \<in> set (pending_approvals db). expiry_effect now r (getPending (p_requestId r) db') (added r)"
    "\<forall>j. j \<notin> p_requestId ` set (pending_approvals db) \<longrightarrow> getPending j db' = getPending j db"
    "case x of Inl e \<Rightarrow> isLocked db \<or> (\<exists>r \<in> set (pending_approvals db). io_fault (s_audit (io r)) \<noteq> None)
     | Inr _ \<Rightarrow> \<forall>r \<in> set (pending_approvals db). now - p_createdAt r \<ge> 86400000 \<and> p_executingAt r = None
                  \<longrightarrow> getPending (p_requestId r) db' = None"
    unfolding hitl_wf_def by blast
  show thesis
  proof (rule that [OF a(1) _ _ a(4)])
    show "r \<in> set (pending_approvals db) \<and> expiry_effect now r (getPending k db') (added r)"
      if "getPending k db = Some r" for k r
      using that assms(1) a(2) by (auto simp: getPending_Some_iff)
    show "getPending k db' = None" if "getPending k db = None" for k
      using that a(3) by (simp add: getPending_def)
  qed
qed

text \<open>C6: the hourly sweep never approves. Every audit row it writes is a timeout; an approval that is
  being executed is left exactly as it is; one that is removed was free, at least twenty-four hours
  old and is audited; and one that stays keeps its level, payload and recorded first approval.\<close>

theorem timeout_never_approves:
  assumes "hitl_wf db" "sweep sha io now db = (x, db')"
  shows "(\<exists>new. audit_log db' = audit_log db @ new \<and> (\<forall>row \<in> set new. a_actionType row = ''timeout'') \<and>
      (\<forall>k r. getPending k db = Some r \<longrightarrow> (case getPending k db' of
          None \<Rightarrow> p_executingAt r = None \<and> now - p_createdAt r \<ge> 24 * 60 * 60 * 1000 \<and> (\<exists>row \<in> set new. a_requestId row = k)
        | Some r' \<Rightarrow> r' = r\<lparr>p_escalatedAt := p_escalatedAt r', p_executionError := p_executionError r'\<rparr> \<and>
            (p_executingAt r \<noteq> None \<longrightarrow> r' = r))))
    \<and> (\<forall>k. getPending k db = None \<longrightarrow> getPending k db' = None)"
  using assms
proof (rule sweep_effect)
  fix added assume a: "audit_log db' = audit_log db @ concat (map added (pending_approvals db))"
    "\<And>k r. getPending k db = Some r \<Longrightarrow> r \<in> set (pending_approvals db) \<and> expiry_effect now r (getPending k db') (added r)"
    "\<And>k. getPending k db = None \<Longrightarrow> getPending k db' = None"
  let ?new = "concat (map added (pending_approvals db))"
  have "\<forall>row \<in> set ?new. a_actionType row = ''timeout''"
  proof
    fix row assume "row \<in> set ?new"
    then obtain r where r: "r \<in> set (pending_approvals db)" "row \<in> set (added r)" by auto
    then have "getPending (p_requestId r) db = Some r" using assms(1) by (simp add: getPending_Some_iff)
    from a(2) [OF this] r(2) show "a_actionType row = ''timeout''" by (simp add: expiry_effect_def)
  qed
  moreover have "case getPending k db' of
      None \<Rightarrow> p_executingAt r = None \<and> now - p_createdAt r \<ge> 24 * 60 * 60 * 1000 \<and> (\<exists>row \<in> set ?new. a_requestId row = k)
    | Some r' \<Rightarrow> r' = r\<lparr>p_escalatedAt := p_escalatedAt r', p_executionError := p_executionError r'\<rparr> \<and>
        (p_executingAt r \<noteq> None \<longrightarrow> r' = r)" if "getPending k db = Some r" for k r
  proof (cases "getPending k db'")
    case None
    with a(2) [OF that] have "added r \<noteq> []" "\<forall>row \<in> set (added r). a_requestId row = k" "r \<in> set (pending_approvals db)"
      using getPending_key [OF that] by (auto simp: expiry_effect_def)
    then have "hd (added r) \<in> set ?new" "a_requestId (hd (added r)) = k"
      by (auto intro: bexI [of _ r])
    then have "\<exists>row \<in> set ?new. a_requestId row = k" by blast
    with None a(2) [OF that] show ?thesis by (simp add: expiry_effect_def)
  qed (use a(2) [OF that] in \<open>simp add: expiry_effect_def\<close>)
  ultimately show ?thesis using a(1,3) by blast
qed

text \<open>C9: with the chain unlocked and no failure, the sweep reaches every row: it returns normally, and
  each free approval that is at least twenty-four hours old is gone.\<close>

theorem sweep_expires_all:
  assumes "hitl_wf db" "\<not> isLocked db" "\<forall>r \<in> set (pending_approvals db). io_fault (s_audit (io r)) = None"
  shows "fst (sweep sha io now db) = Inr () \<and>
    (\<forall>k r. getPending k db = Some r \<and> p_executingAt r = None \<and> now - p_createdAt r \<ge> 24 * 60 * 60 * 1000
       \<longrightarrow> getPending k (snd (sweep sha io now db)) = None)"
proof -
  obtain x db' where s: "sweep sha io now db = (x, db')" by fastforce
  show ?thesis
    using assms(1) s
  proof (rule sweep_effect)
    fix added assume a:
      "\<And>k r. getPending k db = Some r \<Longrightarrow> r \<in> set (pending_approvals db) \<and> expiry_effect now r (getPending k db') (added r)"
      "case x of Inl e \<Rightarrow> isLocked db \<or> (\<exists>r \<in> set (pending_approvals db). io_fault (s_audit (io r)) \<noteq> None)
       | Inr _ \<Rightarrow> \<forall>r \<in> set (pending_approvals db). now - p_createdAt r \<ge> 86400000 \<and> p_executingAt r = None
                    \<longrightarrow> getPending (p_requestId r) db' = None"
    from a(2) assms(2,3) have "x = Inr ()" by (cases x) auto
    with a s getPending_key show ?thesis by fastforce
  qed
qed

section \<open>Witnesses\<close>

definition sample_sweep_io :: "PendingApprovalRow \<Rightarrow> sweep_io" where
  "sample_sweep_io r = \<lparr>s_claimNow = 0, s_audit = \<lparr>io_now = 0, io_fault = None\<rparr>\<rparr>"

theorem timeout_never_approves_witness:
  "\<exists>new. audit_log (snd (sweep sample_sha sample_sweep_io 86400000 (sample_hitl [sample_pending ''confirm'' None]))) = new
     \<and> (\<forall>row \<in> set new. a_actionType row = ''timeout'')"
  using timeout_never_approves [OF sample_wf(2) prod.collapse [symmetric],
      of sample_sha sample_sweep_io 86400000 "''confirm''" None]
  by (auto simp: sample_hitl_def)

theorem sweep_expires_all_witness:
  "getPending ''r1'' (snd (sweep sample_sha sample_sweep_io 86400000 (sample_hitl [sample_pending ''confirm'' None]))) = None"
proof -
  have "p_createdAt (sample_pending l f) = 0" for l f by (simp add: sample_pending_def new_row_def)
  then show ?thesis
    using sweep_expires_all [of "sample_hitl [sample_pending ''confirm'' None]" sample_sweep_io sample_sha 86400000]
    by (simp add: sample_sweep_io_def)
qed

end
