(* ===== verification/Hitl_Interleaving.thy ===== *)
theory Hitl_Interleaving
  imports Hitl_Timeout
begin

text \<open>
  The same handlers of \<open>src/hitl/\<close>, one database step at a time: any number of approvals, rejections
  and sweeps run at once (web, Telegram, push and the hourly job all call them), each interrupted by
  the others between two awaits, and any of them may die between two steps.

  A program counter holds what the handler has read so far, so that stale reads are stale here too.
  The clock of every \<open>new Date()\<close> is arbitrary, every audit write may fail, and an executor may succeed
  or fail; what other code does to the log and to its lock is the environment step. The history
  records the recorded first approvals, the starts and successes of executors, and removals.
\<close>

section \<open>Program counters and steps\<close>

datatype pc =
    Idle
  | AStart uuid string
  | ARead uuid string timestamp
  | AFirst uuid string timestamp
  | AClaim uuid string timestamp
  | AAudit bool uuid string timestamp PendingApprovalRow
  | ARun uuid string timestamp PendingApprovalRow
  | AExec uuid PendingApprovalRow
  | ARelease uuid PendingApprovalRow exec_note jin_error
  | AFailAudit bool uuid PendingApprovalRow jin_error
  | ARemove uuid PendingApprovalRow json
  | AEnd uuid "jin_error + ResolveAndExecuteResult"
  | RStart uuid string
  | RClaim uuid string PendingApprovalRow
  | RAudit bool uuid string PendingApprovalRow
  | RRelease uuid jin_error
  | RRemove uuid
  | RStuck uuid string PendingApprovalRow
  | RStuckAudit bool uuid string PendingApprovalRow
  | RStuckRemove uuid
  | REnd uuid "jin_error + unit"
  | SStart timestamp
  | SRows timestamp "PendingApprovalRow list"
  | SClaim timestamp string PendingApprovalRow "PendingApprovalRow list"
  | SAudit bool timestamp string PendingApprovalRow "PendingApprovalRow list"
  | SRelease PendingApprovalRow jin_error
  | SRemove timestamp string PendingApprovalRow "PendingApprovalRow list"
  | SEnd "jin_error + unit"

datatype history_event =
    HFirst uuid string timestamp
  | HStarted uuid string timestamp nat
  | HSucceeded uuid
  | HRemoved uuid

text \<open>Where \<open>recordApproval\<close> of the approvals service goes after its read of the row.\<close>

definition after_read :: "uuid \<Rightarrow> string \<Rightarrow> timestamp \<Rightarrow> PendingApprovalRow option \<Rightarrow> pc" where
  "after_read k who now row =
     (case row of
        None \<Rightarrow> AEnd k (Inl (PendingApprovalNotFoundError k))
      | Some r \<Rightarrow> (case parse_level (p_level r) of
           Inl e \<Rightarrow> AEnd k (Inl e)
         | Inr AConfirm \<Rightarrow> AClaim k who now
         | Inr ADualConfirm \<Rightarrow> (case p_firstApprovedAt r of
              None \<Rightarrow> AFirst k who now
            | Some first \<Rightarrow>
                (let availableAt = (case p_availableAt r of Some a \<Rightarrow> a | None \<Rightarrow> computeAvailableAt first)
                 in if canAcceptSecondApproval availableAt now then AClaim k who now
                    else AEnd k (Inl (SecondApprovalTooEarlyError k availableAt))))))"

text \<open>Where the sweep goes with the next row of its snapshot, and what it writes on the way.\<close>

definition sweep_next :: "timestamp \<Rightarrow> PendingApprovalRow \<Rightarrow> PendingApprovalRow list \<Rightarrow> hitl_db \<Rightarrow> pc \<times> hitl_db" where
  "sweep_next now r rows db =
     (case p_executingAt r of
        Some since \<Rightarrow> (SRows now rows, if now - since > STUCK_CLAIM_AFTER_MS
                        then emit (ApprovalStuck (p_requestId r) (p_toolName r)) db else db)
      | None \<Rightarrow> (case pending_outcome r now of
           TNone \<Rightarrow> (SRows now rows, db)
         | TDiscard \<Rightarrow> (SClaim now ''timeout'' r rows, db)
         | TEscalateWarning \<Rightarrow> (SRows now rows, emit (ApprovalEscalated (p_requestId r) (p_toolName r))
                                   (set_escalated (p_requestId r) now db))
         | TAbandon \<Rightarrow> (SClaim now ''abandoned'' r rows, db)))"

definition sweep_removed :: "string \<Rightarrow> PendingApprovalRow \<Rightarrow> hitl_db \<Rightarrow> hitl_db" where
  "sweep_removed status r db =
     (let db1 = removePending (p_requestId r) db
      in if status = ''abandoned'' then emit (ApprovalAbandoned (p_requestId r) (p_toolName r)) db1 else db1)"

inductive tstep :: "(string \<Rightarrow> string) \<Rightarrow> pc \<Rightarrow> hitl_db \<Rightarrow> history_event list \<Rightarrow> pc \<Rightarrow> hitl_db \<Rightarrow> bool"
  for sha where
  a_missing: "getPending k db = None \<Longrightarrow>
    tstep sha (AStart k who) db [] (AEnd k (Inl (PendingApprovalNotFoundError k))) db"
| a_found: "getPending k db \<noteq> None \<Longrightarrow> tstep sha (AStart k who) db [] (ARead k who now) db"
| a_read: "tstep sha (ARead k who now) db [] (after_read k who now (getPending k db)) db"
| a_first: "set_first_approval k who now db = (won, db') \<Longrightarrow> won \<noteq> [] \<Longrightarrow>
    tstep sha (AFirst k who now) db [HFirst k who now] (AEnd k (Inr RAwaitingSecond)) db'"
| a_first_lost: "set_first_approval k who now db = ([], db') \<Longrightarrow>
    tstep sha (AFirst k who now) db [] (ARead k who now) db'"
| a_claim: "claimForExecution k t db = (Some c, db') \<Longrightarrow>
    tstep sha (AClaim k who now) db [] (AAudit False k who now c) db'"
| a_claim_lost: "claimForExecution k t db = (None, db') \<Longrightarrow>
    tstep sha (AClaim k who now) db [] (AEnd k (Inl (ApprovalAlreadyResolvedError k))) db'"
| a_locked: "isLocked db \<Longrightarrow> tstep sha (AAudit False k who now c) db []
    (ARelease k c (AuditFailedBeforeExecuting AuditChainLockedError) AuditChainLockedError) db"
| a_unlocked: "\<not> isLocked db \<Longrightarrow> tstep sha (AAudit False k who now c) db [] (AAudit True k who now c) db"
| a_fault: "tstep sha (AAudit True k who now c) db []
    (ARelease k c (AuditFailedBeforeExecuting (OtherError e)) (OtherError e)) db"
| a_audited: "insertRow sha t (approvalData k who (p_toolName c) (p_inputsHash c)) db = (row, db') \<Longrightarrow>
    tstep sha (AAudit True k who now c) db [] (ARun k who now c) db'"
| a_start: "tstep sha (ARun k who now c) db [HStarted k who now (length (audit_log db))] (AExec k c) db"
| a_failed: "tstep sha (AExec k c) db [] (ARelease k c (ExecutorFailed e) e) db"
| a_succeeded: "tstep sha (AExec k c) db [HSucceeded k] (ARemove k c result) db"
| a_release_unaudited: "tstep sha (ARelease k c (AuditFailedBeforeExecuting e') e) db [] (AEnd k (Inl e))
    (releaseClaim k (Some (AuditFailedBeforeExecuting e')) db)"
| a_release_failed: "tstep sha (ARelease k c (ExecutorFailed e') e) db [] (AFailAudit False k c e)
    (releaseClaim k (Some (ExecutorFailed e')) db)"
| a_failaudit_check: "tstep sha (AFailAudit False k c e) db []
    (if isLocked db then AEnd k (Inl e) else AFailAudit True k c e) db"
| a_failaudit_fault: "tstep sha (AFailAudit True k c e) db [] (AEnd k (Inl e)) db"
| a_failaudit: "insertRow sha t (executionFailureData k (p_toolName c) (p_inputsHash c)) db = (row, db') \<Longrightarrow>
    tstep sha (AFailAudit True k c e) db [] (AEnd k (Inl e)) db'"
| a_remove: "tstep sha (ARemove k c result) db [HRemoved k]
    (AEnd k (Inr (RResolved (p_toolName c) result))) (removePending k db)"
| a_remove_fault: "tstep sha (ARemove k c result) db [] (AEnd k (Inr (RResolved (p_toolName c) result))) db"
| r_missing: "getPending k db = None \<Longrightarrow>
    tstep sha (RStart k who) db [] (REnd k (Inl (PendingApprovalNotFoundError k))) db"
| r_found: "getPending k db = Some r \<Longrightarrow> tstep sha (RStart k who) db [] (RClaim k who r) db"
| r_claim: "claimForExecution k t db = (Some c, db') \<Longrightarrow>
    tstep sha (RClaim k who r) db [] (RAudit False k who c) db'"
| r_claim_lost: "claimForExecution k t db = (None, db') \<Longrightarrow>
    tstep sha (RClaim k who r) db [] (RStuck k who r) db'"
| r_locked: "isLocked db \<Longrightarrow> tstep sha (RAudit False k who c) db [] (RRelease k AuditChainLockedError) db"
| r_unlocked: "\<not> isLocked db \<Longrightarrow> tstep sha (RAudit False k who c) db [] (RAudit True k who c) db"
| r_fault: "tstep sha (RAudit True k who c) db [] (RRelease k (OtherError e)) db"
| r_audited: "insertRow sha t (rejectionData k who (p_toolName c) (p_inputsHash c)) db = (row, db') \<Longrightarrow>
    tstep sha (RAudit True k who c) db [] (RRemove k) db'"
| r_release: "tstep sha (RRelease k e) db [] (REnd k (Inl e)) (releaseClaim k None db)"
| r_remove: "tstep sha (RRemove k) db [HRemoved k] (REnd k (Inr ())) (removePending k db)"
| r_stuck: "p_executingAt r = Some since \<Longrightarrow> t - since > STUCK_CLAIM_AFTER_MS \<Longrightarrow>
    tstep sha (RStuck k who r) db [] (RStuckAudit False k who r) db"
| r_not_stuck: "(case p_executingAt r of Some since \<Rightarrow> \<not> t - since > STUCK_CLAIM_AFTER_MS | None \<Rightarrow> True) \<Longrightarrow>
    tstep sha (RStuck k who r) db [] (REnd k (Inl (ApprovalAlreadyResolvedError k))) db"
| r_stuck_check: "tstep sha (RStuckAudit False k who r) db []
    (if isLocked db then REnd k (Inl AuditChainLockedError) else RStuckAudit True k who r) db"
| r_stuck_fault: "tstep sha (RStuckAudit True k who r) db [] (REnd k (Inl (OtherError e))) db"
| r_stuck_audited: "insertRow sha t (rejectionData k who (p_toolName r) (p_inputsHash r)) db = (row, db') \<Longrightarrow>
    tstep sha (RStuckAudit True k who r) db [] (RStuckRemove k) db'"
| r_stuck_remove: "removeIfNotExecuting k t db = (gone, db') \<Longrightarrow>
    tstep sha (RStuckRemove k) db (if gone then [HRemoved k] else []) (REnd k (Inr ())) db'"
| s_start: "tstep sha (SStart now) db [] (SRows now (pending_approvals db)) db"
| s_end: "tstep sha (SRows now []) db [] (SEnd (Inr ())) db"
| s_row: "sweep_next now r rows db = (p', db') \<Longrightarrow> tstep sha (SRows now (r # rows)) db [] p' db'"
| s_claim: "claimForExecution (p_requestId r) t db = (Some c, db') \<Longrightarrow>
    tstep sha (SClaim now status r rows) db [] (SAudit False now status r rows) db'"
| s_claim_lost: "claimForExecution (p_requestId r) t db = (None, db') \<Longrightarrow>
    tstep sha (SClaim now status r rows) db [] (SRows now rows) db'"
| s_locked: "isLocked db \<Longrightarrow> tstep sha (SAudit False now status r rows) db [] (SRelease r AuditChainLockedError) db"
| s_unlocked: "\<not> isLocked db \<Longrightarrow>
    tstep sha (SAudit False now status r rows) db [] (SAudit True now status r rows) db"
| s_fault: "tstep sha (SAudit True now status r rows) db [] (SRelease r (OtherError e)) db"
| s_audited: "insertRow sha t (timeoutData (p_requestId r) (p_toolName r) (p_inputsHash r) status) db = (row, db') \<Longrightarrow>
    tstep sha (SAudit True now status r rows) db [] (SRemove now status r rows) db'"
| s_release: "tstep sha (SRelease r e) db [] (SEnd (Inl e)) (releaseClaim (p_requestId r) None db)"
| s_remove: "tstep sha (SRemove now status r rows) db [HRemoved (p_requestId r)] (SRows now rows)
    (sweep_removed status r db)"

section \<open>Systems of handlers\<close>

text \<open>
  \<open>made\<close> remembers the row each request was created with: request ids come from \<open>randomUUID()\<close>, so
  none is used twice. The history is newest last.
\<close>

record system =
  cdb :: hitl_db
  pcs :: "nat \<Rightarrow> pc"
  history :: "history_event list"
  made :: "uuid \<Rightarrow> PendingApprovalRow option"

fun is_start :: "pc \<Rightarrow> bool" where
  "is_start (AStart k who) = True"
| "is_start (RStart k who) = True"
| "is_start (SStart now) = True"
| "is_start Idle = True"
| "is_start _ = False"

inductive cstep :: "(string \<Rightarrow> string) \<Rightarrow> system \<Rightarrow> system \<Rightarrow> bool" for sha where
  run: "tstep sha (pcs s i) (cdb s) evs p' db' \<Longrightarrow>
    cstep sha s (s\<lparr>cdb := db', pcs := (pcs s)(i := p'), history := history s @ evs\<rparr>)"
| arrive_or_die: "is_start p \<Longrightarrow> cstep sha s (s\<lparr>pcs := (pcs s)(i := p)\<rparr>)"
| create: "made s (c_requestId inp) = None \<Longrightarrow> c_level inp \<in> {''confirm'', ''dual-confirm''} \<Longrightarrow>
    cstep sha s (s\<lparr>cdb := (cdb s)\<lparr>pending_approvals := pending_approvals (cdb s) @ [new_row inp now]\<rparr>,
                   made := (made s)(c_requestId inp \<mapsto> new_row inp now)\<rparr>)"
| environment: "pending_approvals db' = pending_approvals (cdb s) \<Longrightarrow>
    audit_log db' = audit_log (cdb s) @ extra \<Longrightarrow> cstep sha s (s\<lparr>cdb := db'\<rparr>)"

inductive reachable :: "(string \<Rightarrow> string) \<Rightarrow> system \<Rightarrow> bool" for sha where
  initial: "pending_approvals (cdb s) = [] \<Longrightarrow> (\<forall>i. pcs s i = Idle) \<Longrightarrow> history s = [] \<Longrightarrow>
    made s = Map.empty \<Longrightarrow> reachable sha s"
| next_state: "reachable sha s \<Longrightarrow> cstep sha s s' \<Longrightarrow> reachable sha s'"

section \<open>Who holds a claim\<close>

declare insertRow_def [simp del] data_defs [simp del]

lemma insertRow_frame [simp]:
  "pending_approvals (snd (insertRow sha t d db)) = pending_approvals db"
  "hitl_wf (snd (insertRow sha t d db)) = hitl_wf db"
  "audit_log (snd (insertRow sha t d db)) = audit_log db @ [fst (insertRow sha t d db)]"
  "a_requestId (fst (insertRow sha t d db)) = a_requestId d"
  "a_actionType (fst (insertRow sha t d db)) = a_actionType d"
  "a_approver (fst (insertRow sha t d db)) = a_approver d"
  by (simp_all add: insertRow_def Let_def)

fun holds :: "pc \<Rightarrow> uuid option" where
  "holds (AAudit b k who now c) = Some k"
| "holds (ARun k who now c) = Some k"
| "holds (AExec k c) = Some k"
| "holds (ARelease k c n e) = Some k"
| "holds (ARemove k c result) = Some k"
| "holds (RAudit b k who c) = Some k"
| "holds (RRelease k e) = Some k"
| "holds (RRemove k) = Some k"
| "holds (SAudit b now status r rows) = Some (p_requestId r)"
| "holds (SRelease r e) = Some (p_requestId r)"
| "holds (SRemove now status r rows) = Some (p_requestId r)"
| "holds _ = None"

fun ran_ok :: "pc \<Rightarrow> bool" where
  "ran_ok (ARemove k c result) = True"
| "ran_ok _ = False"

text \<open>The decision about the request is made and audited; only the removal of its row is left.\<close>

fun settled :: "pc \<Rightarrow> bool" where
  "settled (ARemove k c result) = True"
| "settled (RRemove k) = True"
| "settled (SRemove now status r rows) = True"
| "settled _ = False"

lemma ran_ok_settled: "ran_ok p \<Longrightarrow> settled p"
  by (cases p) auto

text \<open>A row nobody has claimed.\<close>

definition free :: "uuid \<Rightarrow> hitl_db \<Rightarrow> bool" where
  "free k db \<longleftrightarrow> (\<exists>r \<in> set (pending_approvals db). p_requestId r = k \<and> p_executingAt r = None)"

lemma free_claim [simp]: "free j (snd (claimForExecution k t db)) \<longleftrightarrow> free j db \<and> j \<noteq> k"
  by (auto simp: free_def claimForExecution_def Let_def set_update_rows)

lemma free_release: "free j (releaseClaim k n db) \<Longrightarrow> free j db \<or> j = k"
  by (auto simp: free_def releaseClaim_def set_update_rows split: if_splits)

lemma free_remove [simp]: "free j (removePending k db) \<longleftrightarrow> free j db \<and> j \<noteq> k"
  by (auto simp: free_def removePending_def)

lemma free_removeIf: "free j (snd (removeIfNotExecuting k t db)) \<Longrightarrow> free j db"
  by (auto simp: free_def removeIfNotExecuting_def Let_def)

lemma free_update_rows:
  assumes "\<And>r. p_requestId (f r) = p_requestId r" "\<And>r. p_executingAt (f r) = p_executingAt r"
  shows "(\<exists>r \<in> set (update_rows q f rows). p_requestId r = k \<and> p_executingAt r = None) \<longleftrightarrow>
    (\<exists>r \<in> set rows. p_requestId r = k \<and> p_executingAt r = None)"
  using assms by (induction rows) (auto simp: update_rows_def)

lemma free_first [simp]: "free j (snd (set_first_approval k who t db)) = free j db"
  by (simp add: free_def set_first_approval_def Let_def free_update_rows)

lemma free_simps [simp]:
  "free j (emit e db) = free j db" "free j (set_escalated k now db) = free j db"
  "free j (snd (insertRow sha t d db)) = free j db"
  by (simp_all add: free_def emit_def set_escalated_def free_update_rows)

lemma free_sweep [simp]:
  "free j (snd (sweep_next now r rows db)) = free j db"
  "free j (sweep_removed status r db) \<longleftrightarrow> free j db \<and> j \<noteq> p_requestId r"
  by (auto simp: sweep_next_def sweep_removed_def Let_def split: option.splits TimeoutOutcome.splits)

lemma holds_next [simp]:
  "holds (after_read k who now row) = None" "\<not> ran_ok (after_read k who now row)"
  "holds (fst (sweep_next now r rows db)) = None" "\<not> ran_ok (fst (sweep_next now r rows db))"
  by (auto simp: after_read_def sweep_next_def Let_def
      split: option.splits sum.splits approval_level.splits TimeoutOutcome.splits)

text \<open>
  What a step may do to claims: a handler that holds one either got it just now, on a free row, or had
  it; a row becomes free only when its holder lets go of it before having run anything.
\<close>

lemma pair_eqD: "x = (a, b) \<Longrightarrow> a = fst x \<and> b = snd x"
  by simp

lemma claim_fst_free: "Some c = fst (claimForExecution k t db) \<Longrightarrow> free k db"
  using claim_None_iff [of k t db] by (auto simp: free_def)

lemma tstep_claims:
  assumes "tstep sha p db evs p' db'"
  shows "holds p' = Some j \<Longrightarrow> holds p = Some j \<or> free j db \<and> \<not> free j db'"
    and "free j db' \<Longrightarrow> free j db \<or> holds p = Some j \<and> holds p' = None \<and> \<not> settled p"
proof -
  show "holds p' = Some j \<Longrightarrow> holds p = Some j \<or> free j db \<and> \<not> free j db'"
    using assms by (cases rule: tstep.cases)
      (auto dest!: pair_eqD dest: claim_fst_free split: if_splits)
  show "free j db' \<Longrightarrow> free j db \<or> holds p = Some j \<and> holds p' = None \<and> \<not> settled p"
    using assms by (cases rule: tstep.cases)
      (auto dest!: pair_eqD dest: free_release free_removeIf)
qed

lemma tstep_success:
  assumes "tstep sha p db evs p' db'" "HSucceeded j \<in> set evs"
  shows "evs = [HSucceeded j] \<and> holds p = Some j \<and> \<not> ran_ok p \<and> holds p' = Some j \<and> ran_ok p' \<and> db' = db"
  using assms by (cases rule: tstep.cases) (auto split: if_splits)

lemma tstep_ran_ok: "tstep sha p db evs p' db' \<Longrightarrow> ran_ok p \<Longrightarrow> holds p' = None"
  by (cases rule: tstep.cases, assumption) auto

definition row_ids :: "hitl_db \<Rightarrow> uuid set" where
  "row_ids db = p_requestId ` set (pending_approvals db)"

lemma image_id_update:
  "(\<And>r. p_requestId (f r) = p_requestId r) \<Longrightarrow> p_requestId ` set (update_rows q f rows) = p_requestId ` set rows"
  by (induction rows) (auto simp: update_rows_def)

lemma row_ids_simps [simp]:
  "row_ids (snd (claimForExecution k t db)) = row_ids db" "row_ids (releaseClaim k n db) = row_ids db"
  "row_ids (snd (set_first_approval k who t db)) = row_ids db"
  "row_ids (emit e db) = row_ids db" "row_ids (set_escalated k now db) = row_ids db"
  "row_ids (snd (insertRow sha t d db)) = row_ids db"
  by (simp_all add: row_ids_def claimForExecution_def releaseClaim_def set_first_approval_def
      set_escalated_def emit_def Let_def image_id_update)

lemma row_ids_mono:
  "row_ids (removePending k db) \<subseteq> row_ids db" "row_ids (snd (removeIfNotExecuting k t db)) \<subseteq> row_ids db"
  "row_ids (snd (sweep_next now r rows db)) \<subseteq> row_ids db" "row_ids (sweep_removed status r db) \<subseteq> row_ids db"
proof -
  show rm: "row_ids (removePending k db) \<subseteq> row_ids db" for k db
    by (auto simp: row_ids_def removePending_def)
  show "row_ids (snd (removeIfNotExecuting k t db)) \<subseteq> row_ids db"
    by (auto simp: row_ids_def removeIfNotExecuting_def Let_def)
  show "row_ids (snd (sweep_next now r rows db)) \<subseteq> row_ids db"
    by (simp add: sweep_next_def split: option.split TimeoutOutcome.split)
  show "row_ids (sweep_removed status r db) \<subseteq> row_ids db"
    using rm by (simp add: sweep_removed_def Let_def)
qed

lemma tstep_row_ids: "tstep sha p db evs p' db' \<Longrightarrow> row_ids db' \<subseteq> row_ids db"
  by (cases rule: tstep.cases, assumption)
     (auto dest!: pair_eqD dest: subsetD [OF row_ids_mono(1)]
       subsetD [OF row_ids_mono(2)] subsetD [OF row_ids_mono(3)] subsetD [OF row_ids_mono(4)])

lemma free_row_ids: "free k db \<Longrightarrow> k \<in> row_ids db"
  by (auto simp: free_def row_ids_def)

section \<open>The claim invariant\<close>

definition claims_inv :: "system \<Rightarrow> bool" where
  "claims_inv s \<longleftrightarrow>
     (\<forall>i j k. holds (pcs s i) = Some k \<and> holds (pcs s j) = Some k \<longrightarrow> i = j) \<and>
     (\<forall>i k. holds (pcs s i) = Some k \<longrightarrow> \<not> free k (cdb s) \<and> made s k \<noteq> None) \<and>
     (\<forall>k. HSucceeded k \<in> set (history s) \<longrightarrow> \<not> free k (cdb s) \<and> made s k \<noteq> None \<and>
        (\<forall>i. holds (pcs s i) = Some k \<longrightarrow> ran_ok (pcs s i))) \<and>
     (\<forall>k. count_list (history s) (HSucceeded k) \<le> 1) \<and>
     (\<forall>k \<in> row_ids (cdb s). made s k \<noteq> None)"

lemma is_start_holds [simp]: "is_start p \<Longrightarrow> holds p = None"
  by (cases p) auto

lemma claims_inv_run:
  assumes inv: "claims_inv s" and step: "tstep sha (pcs s i) (cdb s) evs p' db'"
  shows "claims_inv (s\<lparr>cdb := db', pcs := (pcs s)(i := p'), history := history s @ evs\<rparr>)"
proof -
  note c = tstep_claims [OF step]
  have c2: "free k db' \<Longrightarrow> free k (cdb s) \<or> holds (pcs s i) = Some k \<and> \<not> ran_ok (pcs s i)" for k
    using c(2) ran_ok_settled by blast
  have free_mono: "free k (cdb s)" if "free k db'" "holds (pcs s i) \<noteq> Some k" for k
    using c(2) [OF that(1)] that(2) by blast
  have uniq: "a = i" if "holds (pcs s a) = Some k" "holds p' = Some k" for a k
    using c(1) [OF that(2)] that(1) inv unfolding claims_inv_def by blast
  have not_free: "\<not> free k db'" if "holds p' = Some k" for k
  proof
    assume f: "free k db'"
    from c(1) [OF that] f have h: "holds (pcs s i) = Some k" by blast
    with inv have "\<not> free k (cdb s)" unfolding claims_inv_def by blast
    with c(2) [OF f] that show False by auto
  qed
  have made': "made s k \<noteq> None" if "holds p' = Some k" for k
    using c(1) [OF that] inv free_row_ids unfolding claims_inv_def by blast
  have succ: "HSucceeded k \<in> set (history s) \<Longrightarrow> \<not> free k db'" for k
    using c2 [of k] inv unfolding claims_inv_def by blast
  have succ': "HSucceeded k \<in> set (history s) \<Longrightarrow> holds p' \<noteq> Some k" for k
    using c(1) [of k] inv tstep_ran_ok [OF step] unfolding claims_inv_def by force
  have count: "count_list evs (HSucceeded k) \<le> 1" for k
    using tstep_success [OF step, of k] by (cases "HSucceeded k \<in> set evs") (auto simp: count_list_0_iff)
  have fresh: "HSucceeded k \<notin> set (history s)" if "HSucceeded k \<in> set evs" for k
    using tstep_success [OF step that] succ' by blast
  have total: "\<forall>k. count_list (history s @ evs) (HSucceeded k) \<le> 1"
  proof
    fix k
    have "count_list (history s) (HSucceeded k) \<le> 1" using inv unfolding claims_inv_def by blast
    moreover have "count_list (history s) (HSucceeded k) = 0 \<or> count_list evs (HSucceeded k) = 0"
      using fresh [of k] by (simp add: count_list_0_iff) blast
    ultimately show "count_list (history s @ evs) (HSucceeded k) \<le> 1" using count [of k] by auto
  qed
  have ids: "\<forall>k \<in> row_ids db'. made s k \<noteq> None"
    using tstep_row_ids [OF step] inv unfolding claims_inv_def by blast
  have ev: "\<not> free k db' \<and> made s k \<noteq> None \<and> holds p' = Some k \<and> ran_ok p'" if "HSucceeded k \<in> set evs" for k
    using tstep_success [OF step that] not_free made' by blast
  show ?thesis
    unfolding claims_inv_def
  proof (intro conjI)
    show "\<forall>a b k. holds (pcs (s\<lparr>cdb := db', pcs := (pcs s)(i := p'), history := history s @ evs\<rparr>) a) = Some k \<and>
        holds (pcs (s\<lparr>cdb := db', pcs := (pcs s)(i := p'), history := history s @ evs\<rparr>) b) = Some k \<longrightarrow> a = b"
      using uniq inv by (auto simp: claims_inv_def)
    show "\<forall>a k. holds (pcs (s\<lparr>cdb := db', pcs := (pcs s)(i := p'), history := history s @ evs\<rparr>) a) = Some k \<longrightarrow>
        \<not> free k (cdb (s\<lparr>cdb := db', pcs := (pcs s)(i := p'), history := history s @ evs\<rparr>)) \<and>
        made (s\<lparr>cdb := db', pcs := (pcs s)(i := p'), history := history s @ evs\<rparr>) k \<noteq> None"
    proof (intro allI impI)
      fix a k assume h: "holds (pcs (s\<lparr>cdb := db', pcs := (pcs s)(i := p'), history := history s @ evs\<rparr>) a) = Some k"
      show "\<not> free k (cdb (s\<lparr>cdb := db', pcs := (pcs s)(i := p'), history := history s @ evs\<rparr>)) \<and>
        made (s\<lparr>cdb := db', pcs := (pcs s)(i := p'), history := history s @ evs\<rparr>) k \<noteq> None"
      proof (cases "a = i")
        case True
        with h not_free made' show ?thesis by simp
      next
        case False
        with h have "holds (pcs s a) = Some k" by simp
        with inv False have "\<not> free k (cdb s)" "made s k \<noteq> None" "holds (pcs s i) \<noteq> Some k"
          unfolding claims_inv_def by blast+
        with free_mono show ?thesis by auto
      qed
    qed
    show "\<forall>k. HSucceeded k \<in> set (history (s\<lparr>cdb := db', pcs := (pcs s)(i := p'), history := history s @ evs\<rparr>)) \<longrightarrow>
        \<not> free k (cdb (s\<lparr>cdb := db', pcs := (pcs s)(i := p'), history := history s @ evs\<rparr>)) \<and>
        made (s\<lparr>cdb := db', pcs := (pcs s)(i := p'), history := history s @ evs\<rparr>) k \<noteq> None \<and>
        (\<forall>a. holds (pcs (s\<lparr>cdb := db', pcs := (pcs s)(i := p'), history := history s @ evs\<rparr>) a) = Some k \<longrightarrow>
           ran_ok (pcs (s\<lparr>cdb := db', pcs := (pcs s)(i := p'), history := history s @ evs\<rparr>) a))"
      using ev succ succ' uniq inv unfolding claims_inv_def by simp blast
  qed (use ids total in simp_all)
qed

theorem claims_inv_reachable: "reachable sha s \<Longrightarrow> claims_inv s"
proof (induction rule: reachable.induct)
  case (initial s)
  then show ?case by (simp add: claims_inv_def free_def row_ids_def)
next
  case (next_state s s')
  from next_state.hyps(2) show ?case
  proof cases
    case (run i evs p' db')
    then show ?thesis using claims_inv_run [OF next_state.IH] by simp
  next
    case (arrive_or_die p i)
    then show ?thesis using next_state.IH by (auto simp: claims_inv_def)
  next
    case (create inp now)
    let ?k = "c_requestId inp"
    have "free k ((cdb s)\<lparr>pending_approvals := pending_approvals (cdb s) @ [new_row inp now]\<rparr>) \<longleftrightarrow> free k (cdb s) \<or> k = ?k" for k
      by (auto simp: free_def new_row_def)
    moreover have "row_ids ((cdb s)\<lparr>pending_approvals := pending_approvals (cdb s) @ [new_row inp now]\<rparr>) = insert ?k (row_ids (cdb s))"
      by (simp add: row_ids_def new_row_def)
    moreover have "holds (pcs s i) \<noteq> Some ?k" "HSucceeded ?k \<notin> set (history s)" for i
      using next_state.IH create(2) unfolding claims_inv_def by blast+
    ultimately show ?thesis using next_state.IH create(1) by (auto simp: claims_inv_def)
  next
    case (environment db' extra)
    then have "free k db' = free k (cdb s)" "row_ids db' = row_ids (cdb s)" for k
      by (simp_all add: free_def row_ids_def)
    then show ?thesis using next_state.IH environment by (simp add: claims_inv_def)
  qed
qed

section \<open>The evidence invariant\<close>

text \<open>What the owner was shown and what will be run: nothing of this ever changes.\<close>

definition same_content :: "PendingApprovalRow \<Rightarrow> PendingApprovalRow \<Rightarrow> bool" where
  "same_content r r0 \<longleftrightarrow> p_requestId r = p_requestId r0 \<and> p_toolName r = p_toolName r0 \<and>
     p_level r = p_level r0 \<and> p_inputsHash r = p_inputsHash r0 \<and> p_payload r = p_payload r0 \<and>
     p_planSummary r = p_planSummary r0"

text \<open>The level's conditions for running, judged from the history so far.\<close>

definition cleared :: "(uuid \<Rightarrow> PendingApprovalRow option) \<Rightarrow> history_event set \<Rightarrow> uuid \<Rightarrow> timestamp \<Rightarrow> bool" where
  "cleared mk h k now \<longleftrightarrow> (\<exists>r0. mk k = Some r0 \<and> (p_level r0 = ''confirm'' \<or>
     p_level r0 = ''dual-confirm'' \<and> (\<exists>w t. HFirst k w t \<in> h \<and> t + DUAL_CONFIRM_DELAY_MS \<le> now)))"

definition logged :: "AuditLogRow list \<Rightarrow> uuid \<Rightarrow> string \<Rightarrow> bool" where
  "logged log k who \<longleftrightarrow> (\<exists>a \<in> set log. a_requestId a = k \<and> a_actionType a = ''approval'' \<and> a_approver a = Some who)"

fun pc_ok :: "(uuid \<Rightarrow> PendingApprovalRow option) \<Rightarrow> history_event set \<Rightarrow> AuditLogRow list \<Rightarrow> pc \<Rightarrow> bool" where
  "pc_ok mk h log (AClaim k who now) = cleared mk h k now"
| "pc_ok mk h log (AAudit b k who now c) = (cleared mk h k now \<and> (\<exists>r0. mk k = Some r0 \<and> same_content c r0))"
| "pc_ok mk h log (ARun k who now c) =
     (cleared mk h k now \<and> (\<exists>r0. mk k = Some r0 \<and> same_content c r0) \<and> logged log k who)"
| "pc_ok mk h log (AExec k c) = (\<exists>r0. mk k = Some r0 \<and> same_content c r0)"
| "pc_ok mk h log _ = True"

definition history_ok :: "(uuid \<Rightarrow> PendingApprovalRow option) \<Rightarrow> history_event list \<Rightarrow> AuditLogRow list \<Rightarrow> bool" where
  "history_ok mk h log \<longleftrightarrow> (\<forall>n < length h. \<forall>k who now m. h ! n = HStarted k who now m \<longrightarrow>
     cleared mk (set (take n h)) k now \<and> m \<le> length log \<and> logged (take m log) k who)"

definition rows_ok :: "(uuid \<Rightarrow> PendingApprovalRow option) \<Rightarrow> history_event set \<Rightarrow> PendingApprovalRow list \<Rightarrow> bool" where
  "rows_ok mk h rows \<longleftrightarrow> (\<forall>r \<in> set rows. (\<exists>r0. mk (p_requestId r) = Some r0 \<and> same_content r r0) \<and>
     (\<forall>t. p_firstApprovedAt r = Some t \<longrightarrow> (\<exists>w. HFirst (p_requestId r) w t \<in> h)))"

definition evidence_inv :: "system \<Rightarrow> bool" where
  "evidence_inv s \<longleftrightarrow> hitl_wf (cdb s) \<and>
     rows_ok (made s) (set (history s)) (pending_approvals (cdb s)) \<and>
     (\<forall>i. pc_ok (made s) (set (history s)) (audit_log (cdb s)) (pcs s i)) \<and>
     history_ok (made s) (history s) (audit_log (cdb s))"

lemma same_content_refl [simp]: "same_content r r"
  by (simp add: same_content_def)

lemma map_leD: "mk \<subseteq>\<^sub>m mk' \<Longrightarrow> mk k = Some r \<Longrightarrow> mk' k = Some r"
  by (auto simp: map_le_def dom_def)

lemma cleared_mono: "cleared mk h k now \<Longrightarrow> h \<subseteq> h' \<Longrightarrow> mk \<subseteq>\<^sub>m mk' \<Longrightarrow> cleared mk' h' k now"
  unfolding cleared_def by (blast dest: map_leD)

lemma logged_mono: "logged log k who \<Longrightarrow> set log \<subseteq> set log' \<Longrightarrow> logged log' k who"
  by (auto simp: logged_def)

lemma content_mono: "(\<exists>r0. mk k = Some r0 \<and> same_content c r0) \<Longrightarrow> mk \<subseteq>\<^sub>m mk' \<Longrightarrow>
  \<exists>r0. mk' k = Some r0 \<and> same_content c r0"
  by (blast dest: map_leD)

lemma pc_ok_mono:
  "pc_ok mk h log p \<Longrightarrow> h \<subseteq> h' \<Longrightarrow> set log \<subseteq> set log' \<Longrightarrow> mk \<subseteq>\<^sub>m mk' \<Longrightarrow> pc_ok mk' h' log' p"
  using cleared_mono [of mk h _ _ h' mk'] logged_mono [of log _ _ log'] content_mono [of mk _ _ mk']
  by (cases p) auto

lemma rows_ok_mono: "rows_ok mk h rows \<Longrightarrow> h \<subseteq> h' \<Longrightarrow> mk \<subseteq>\<^sub>m mk' \<Longrightarrow> rows_ok mk' h' rows"
  unfolding rows_ok_def using content_mono [of mk _ _ mk'] by blast

lemma history_ok_mono:
  assumes "history_ok mk h log" "mk \<subseteq>\<^sub>m mk'"
  shows "history_ok mk' h (log @ extra)"
  using assms(1) cleared_mono [OF _ subset_refl assms(2)] unfolding history_ok_def
  by simp (blast intro: trans_le_add1)

section \<open>What a step does to rows and to the log\<close>

lemma tstep_log:
  assumes "tstep sha p db evs p' db'"
  shows "\<exists>extra. audit_log db' = audit_log db @ extra"
proof -
  have "audit_log (snd (sweep_next now r rows db)) = audit_log db"
    "audit_log (sweep_removed status r db) = audit_log db" for now r rows status
    by (simp_all add: sweep_next_def sweep_removed_def Let_def split: option.split TimeoutOutcome.split)
  with assms show ?thesis
    by (cases rule: tstep.cases) (auto dest!: pair_eqD)
qed

lemma tstep_wf:
  assumes "tstep sha p db evs p' db'" "hitl_wf db"
  shows "hitl_wf db'"
proof -
  have "hitl_wf (snd (sweep_next now r rows db))" "hitl_wf (sweep_removed status r db)" for now r rows status
    using assms(2) by (simp_all add: sweep_next_def sweep_removed_def Let_def split: option.split TimeoutOutcome.split)
  with assms show ?thesis
    by (cases rule: tstep.cases) (auto dest!: pair_eqD)
qed

text \<open>A row of the new table is a row of the old one with the same content; its first approval is the old
  one or was recorded by this step.\<close>

definition row_from :: "history_event list \<Rightarrow> PendingApprovalRow list \<Rightarrow> PendingApprovalRow list \<Rightarrow> bool" where
  "row_from evs rows rows' \<longleftrightarrow> (\<forall>r \<in> set rows'. \<exists>r1 \<in> set rows. same_content r r1 \<and>
     (p_firstApprovedAt r = p_firstApprovedAt r1 \<or>
      (\<exists>w t. p_firstApprovedAt r = Some t \<and> HFirst (p_requestId r) w t \<in> set evs)))"

lemma row_from_refl [simp]: "row_from evs rows rows"
  by (auto simp: row_from_def intro!: bexI)

lemma row_from_update:
  assumes "\<And>r. q r \<Longrightarrow> same_content (f r) r \<and> (p_firstApprovedAt (f r) = p_firstApprovedAt r \<or>
      (\<exists>w t. p_firstApprovedAt (f r) = Some t \<and> HFirst (p_requestId (f r)) w t \<in> set evs))"
  shows "row_from evs rows (update_rows q f rows)"
  unfolding row_from_def set_update_rows
proof
  fix r assume "r \<in> (\<lambda>r. if q r then f r else r) ` set rows"
  then obtain r1 where "r1 \<in> set rows" "r = (if q r1 then f r1 else r1)" by blast
  then show "\<exists>r1 \<in> set rows. same_content r r1 \<and> (p_firstApprovedAt r = p_firstApprovedAt r1 \<or>
      (\<exists>w t. p_firstApprovedAt r = Some t \<and> HFirst (p_requestId r) w t \<in> set evs))"
    using assms [of r1] by (intro bexI [of _ r1]) auto
qed

lemma row_from_delete [simp]: "row_from evs rows (delete_rows q rows)"
  by (auto simp: row_from_def intro!: bexI)

lemma row_from_steps:
  "row_from evs (pending_approvals db) (pending_approvals (snd (claimForExecution k t db)))"
  "row_from evs (pending_approvals db) (pending_approvals (releaseClaim k n db))"
  "row_from evs (pending_approvals db) (pending_approvals (removePending k db))"
  "row_from evs (pending_approvals db) (pending_approvals (snd (removeIfNotExecuting k t db)))"
  "row_from evs (pending_approvals db) (pending_approvals (snd (sweep_next now r rows db)))"
  "row_from evs (pending_approvals db) (pending_approvals (sweep_removed status r db))"
  "HFirst k who now \<in> set evs \<Longrightarrow>
     row_from evs (pending_approvals db) (pending_approvals (snd (set_first_approval k who now db)))"
  by (auto simp: claimForExecution_def releaseClaim_def removePending_def removeIfNotExecuting_def Let_def
      sweep_next_def sweep_removed_def set_escalated_def emit_def set_first_approval_def same_content_def
      intro!: row_from_update split: option.split TimeoutOutcome.split)

lemma first_lost_unchanged:
  assumes "set_first_approval k who now db = ([], db')"
  shows "db' = db"
proof -
  have "\<forall>r \<in> set (pending_approvals db). \<not> (p_requestId r = k \<and> p_firstApprovedAt r = None)"
    using assms by (auto simp: set_first_approval_def Let_def filter_empty_conv)
  then have "update_rows (\<lambda>r. p_requestId r = k \<and> p_firstApprovedAt r = None) f (pending_approvals db) = pending_approvals db" for f
    unfolding update_rows_def by (intro map_idI) auto
  with assms show ?thesis by (auto simp: set_first_approval_def Let_def)
qed

lemma tstep_rows:
  assumes "tstep sha p db evs p' db'"
  shows "row_from evs (pending_approvals db) (pending_approvals db')"
  using assms
proof (cases rule: tstep.cases)
  case (a_first_lost k who now)
  then show ?thesis using first_lost_unchanged [of k who now db db'] by simp
qed (auto dest!: pair_eqD intro: row_from_steps)

section \<open>Evidence is preserved\<close>

text \<open>The read of \<open>recordApproval\<close> lets a handler pass only on evidence that is in the table.\<close>

lemma after_read_ok:
  assumes "hitl_wf db" "rows_ok mk h (pending_approvals db)"
  shows "pc_ok mk h log (after_read k who now (getPending k db))"
proof (cases "getPending k db")
  case None
  then show ?thesis by (simp add: after_read_def)
next
  case (Some r)
  then have r: "r \<in> set (pending_approvals db)" "p_requestId r = k"
    using assms(1) by (simp_all add: getPending_Some_iff)
  with assms(2) obtain r0 where r0: "mk k = Some r0" "same_content r r0"
    and f: "\<And>t. p_firstApprovedAt r = Some t \<Longrightarrow> \<exists>w. HFirst k w t \<in> h"
    unfolding rows_ok_def by blast
  have av: "p_availableAt r = map_option computeAvailableAt (p_firstApprovedAt r)"
    by (rule hitl_wf_available [OF assms(1) Some])
  consider "p_level r = ''confirm''" | "p_level r = ''dual-confirm''" | e where "parse_level (p_level r) = Inl e"
    by (metis parse_level_def)
  then show ?thesis
  proof cases
    case 1
    with r0 have "cleared mk h k now" by (simp add: cleared_def same_content_def)
    with 1 Some show ?thesis by (simp add: after_read_def)
  next
    case 2
    show ?thesis
    proof (cases "p_firstApprovedAt r")
      case None
      with 2 Some show ?thesis by (simp add: after_read_def)
    next
      case (Some t)
      from f [OF this] obtain w where "HFirst k w t \<in> h" by blast
      with r0 2 have "cleared mk h k now" if "t + DUAL_CONFIRM_DELAY_MS \<le> now"
        using that by (auto simp: cleared_def same_content_def)
      with 2 Some \<open>getPending k db = Some r\<close> av show ?thesis
        by (simp add: after_read_def canAcceptSecondApproval_def computeAvailableAt_def Let_def)
    qed
  next
    case 3
    with Some show ?thesis by (simp add: after_read_def)
  qed
qed

lemma claimed_content:
  assumes "hitl_wf db" "rows_ok mk h (pending_approvals db)" "claimForExecution k t db = (Some c, db')"
  shows "\<exists>r0. mk k = Some r0 \<and> same_content c r0"
proof -
  obtain r where "getPending k db = Some r" "c = r\<lparr>p_executingAt := Some t, p_executionError := None\<rparr>"
    using claim_SomeD [OF assms(1), of k t c] assms(3) by auto
  with assms(1,2) show ?thesis
    by (auto simp: getPending_Some_iff rows_ok_def same_content_def)
qed

lemma pc_ok_sweep [simp]: "pc_ok mk h log (fst (sweep_next now r rows db))"
  by (auto simp: sweep_next_def split: option.split TimeoutOutcome.split)

lemma tstep_pc_ok:
  assumes step: "tstep sha p db evs p' db'" and "hitl_wf db" "rows_ok mk h (pending_approvals db)"
    and "pc_ok mk h (audit_log db) p"
  shows "pc_ok mk h (audit_log db') p'"
  using step
proof (cases rule: tstep.cases)
  case (a_read k who now)
  then show ?thesis using after_read_ok [OF assms(2,3)] by simp
next
  case (a_claim k t c who now)
  then show ?thesis using claimed_content [OF assms(2,3), of k t c db'] assms(4) by simp
next
  case (a_audited t k who c row now)
  then have "db' = snd (insertRow sha t (approvalData k who (p_toolName c) (p_inputsHash c)) db)" by simp
  with a_audited assms(4) show ?thesis by (auto simp: logged_def data_defs)
next
  case (s_row now r rows)
  then have "p' = fst (sweep_next now r rows db)" by simp
  then show ?thesis by simp
qed (use assms(4) in \<open>auto split: if_splits\<close>)

lemma tstep_started:
  assumes "tstep sha p db evs p' db'"
  shows "evs = [] \<or> (\<exists>e. evs = [e] \<and> (\<forall>k who now m. e = HStarted k who now m \<longrightarrow>
     (\<exists>c. p = ARun k who now c) \<and> m = length (audit_log db) \<and> db' = db))"
  using assms by (cases rule: tstep.cases) auto

lemma evidence_inv_run:
  assumes inv: "evidence_inv s" and step: "tstep sha (pcs s i) (cdb s) evs p' db'"
  shows "evidence_inv (s\<lparr>cdb := db', pcs := (pcs s)(i := p'), history := history s @ evs\<rparr>)"
proof -
  from inv have wf: "hitl_wf (cdb s)" and rows: "rows_ok (made s) (set (history s)) (pending_approvals (cdb s))"
    and pcs: "\<And>j. pc_ok (made s) (set (history s)) (audit_log (cdb s)) (pcs s j)"
    and hist: "history_ok (made s) (history s) (audit_log (cdb s))"
    by (simp_all add: evidence_inv_def)
  from tstep_log [OF step] obtain extra where log: "audit_log db' = audit_log (cdb s) @ extra" by blast
  let ?h = "set (history s @ evs)"
  have "rows_ok (made s) ?h (pending_approvals db')"
    unfolding rows_ok_def
  proof
    fix r assume "r \<in> set (pending_approvals db')"
    with tstep_rows [OF step] obtain r1 where r1: "r1 \<in> set (pending_approvals (cdb s))" "same_content r r1"
      "p_firstApprovedAt r = p_firstApprovedAt r1 \<or>
       (\<exists>w t. p_firstApprovedAt r = Some t \<and> HFirst (p_requestId r) w t \<in> set evs)"
      unfolding row_from_def by blast
    from rows r1(1) obtain r0 where r0: "made s (p_requestId r1) = Some r0" "same_content r1 r0"
      and f: "\<And>t. p_firstApprovedAt r1 = Some t \<Longrightarrow> \<exists>w. HFirst (p_requestId r1) w t \<in> set (history s)"
      unfolding rows_ok_def by blast
    have id: "p_requestId r = p_requestId r1" using r1(2) by (simp add: same_content_def)
    have "same_content r r0" using r1(2) r0(2) by (simp add: same_content_def)
    with id r0(1) have "\<exists>r0. made s (p_requestId r) = Some r0 \<and> same_content r r0" by simp
    moreover have "\<exists>w. HFirst (p_requestId r) w t \<in> ?h" if "p_firstApprovedAt r = Some t" for t
      using that r1(3) f [of t] id by auto
    ultimately show "(\<exists>r0. made s (p_requestId r) = Some r0 \<and> same_content r r0) \<and>
        (\<forall>t. p_firstApprovedAt r = Some t \<longrightarrow> (\<exists>w. HFirst (p_requestId r) w t \<in> ?h))" by blast
  qed
  moreover have "pc_ok (made s) ?h (audit_log db') (((pcs s)(i := p')) j)" for j
    using pc_ok_mono [OF pcs [of j], of ?h "audit_log db'" "made s"]
      pc_ok_mono [OF tstep_pc_ok [OF step wf rows pcs], of ?h "audit_log db'" "made s"] log
    by auto
  moreover have "history_ok (made s) (history s @ evs) (audit_log db')"
    unfolding history_ok_def
  proof (intro allI impI)
    fix n k who now m
    assume n: "n < length (history s @ evs)" "(history s @ evs) ! n = HStarted k who now m"
    show "cleared (made s) (set (take n (history s @ evs))) k now \<and> m \<le> length (audit_log db') \<and>
        logged (take m (audit_log db')) k who"
    proof (cases "n < length (history s)")
      case True
      with n have "history s ! n = HStarted k who now m" by (simp add: nth_append)
      with hist True log show ?thesis unfolding history_ok_def by auto
    next
      case False
      with n tstep_started [OF step] obtain c where "n = length (history s)" "pcs s i = ARun k who now c"
        "m = length (audit_log (cdb s))" "db' = cdb s"
        by (auto simp: nth_append less_Suc_eq)
      with pcs [of i] show ?thesis by simp
    qed
  qed
  ultimately show ?thesis using tstep_wf [OF step wf] by (simp add: evidence_inv_def)
qed

theorem evidence_inv_reachable: "reachable sha s \<Longrightarrow> evidence_inv s"
proof (induction rule: reachable.induct)
  case (initial s)
  then show ?case by (simp add: evidence_inv_def hitl_wf_def rows_ok_def history_ok_def)
next
  case (next_state s s')
  from next_state.hyps(2) show ?case
  proof cases
    case (run i evs p' db')
    then show ?thesis using evidence_inv_run [OF next_state.IH] by simp
  next
    case (arrive_or_die p i)
    have "pc_ok mk h log p" for mk h log using arrive_or_die(2) by (cases p) auto
    with arrive_or_die next_state.IH show ?thesis by (simp add: evidence_inv_def)
  next
    case (create inp now)
    let ?k = "c_requestId inp"
    let ?mk = "(made s)(?k \<mapsto> new_row inp now)"
    have le: "made s \<subseteq>\<^sub>m ?mk" using create(2) by (auto simp: map_le_def)
    have "\<not> ?k \<in> row_ids (cdb s)"
      using claims_inv_reachable [OF next_state.hyps(1)] create(2) unfolding claims_inv_def by blast
    then have "hitl_wf ((cdb s)\<lparr>pending_approvals := pending_approvals (cdb s) @ [new_row inp now]\<rparr>)"
      using next_state.IH by (auto simp: evidence_inv_def hitl_wf_def row_ids_def new_row_def)
    moreover have "rows_ok ?mk (set (history s)) (pending_approvals (cdb s) @ [new_row inp now])"
    proof -
      have "rows_ok ?mk (set (history s)) (pending_approvals (cdb s))"
        using rows_ok_mono [OF _ subset_refl le] next_state.IH by (simp add: evidence_inv_def)
      moreover have "p_requestId (new_row inp now) = ?k" "p_firstApprovedAt (new_row inp now) = None"
        by (simp_all add: new_row_def)
      ultimately show ?thesis by (simp add: rows_ok_def)
    qed
    moreover have "pc_ok ?mk (set (history s)) (audit_log (cdb s)) (pcs s i)" for i
      using pc_ok_mono [OF _ subset_refl subset_refl le] next_state.IH by (simp add: evidence_inv_def)
    moreover have "history_ok ?mk (history s) (audit_log (cdb s))"
      using history_ok_mono [OF _ le, of _ _ "[]"] next_state.IH by (simp add: evidence_inv_def)
    ultimately show ?thesis using create(1) by (simp add: evidence_inv_def)
  next
    case (environment db' extra)
    then have "set (audit_log (cdb s)) \<subseteq> set (audit_log db')" by simp
    with next_state.IH environment show ?thesis
      by (auto simp: evidence_inv_def hitl_wf_def intro: pc_ok_mono history_ok_mono)
  qed
qed

section \<open>Properties of every interleaving\<close>

text \<open>C1: under every interleaving of approvals, rejections, sweeps, deaths and other writers, the action of
  a request succeeds at most once, and no two handlers are ever running it at the same time.\<close>

theorem interleaved_at_most_once:
  assumes "reachable sha s"
  shows "count_list (history s) (HSucceeded k) \<le> 1 \<and>
    (\<forall>i j c c'. pcs s i = AExec k c \<and> pcs s j = AExec k c' \<longrightarrow> i = j)"
proof
  have inv: "claims_inv s" by (rule claims_inv_reachable [OF assms])
  then show "count_list (history s) (HSucceeded k) \<le> 1" unfolding claims_inv_def by blast
  have "holds (pcs s i) = Some k \<and> holds (pcs s j) = Some k \<longrightarrow> i = j" for i j
    using inv unfolding claims_inv_def by blast
  then show "\<forall>i j c c'. pcs s i = AExec k c \<and> pcs s j = AExec k c' \<longrightarrow> i = j"
    by (metis holds.simps(3))
qed

text \<open>C2: under every interleaving, whenever an executor is started for a request, the request's level had
  been satisfied before (for dual-confirm, by a first approval recorded at least thirty seconds
  earlier) and the approval by the person on whose behalf it runs was already in the audit log.\<close>

theorem interleaved_start_has_evidence:
  assumes "reachable sha s" "n < length (history s)" "history s ! n = HStarted k who now m"
  shows "\<exists>r0. made s k = Some r0 \<and> (p_level r0 = ''confirm'' \<or> p_level r0 = ''dual-confirm'' \<and>
      (\<exists>w t. HFirst k w t \<in> set (take n (history s)) \<and> t + 30000 \<le> now)) \<and>
    (\<exists>a \<in> set (take m (audit_log (cdb s))). a_requestId a = k \<and> a_actionType a = ''approval'' \<and> a_approver a = Some who)"
proof -
  have "history_ok (made s) (history s) (audit_log (cdb s))"
    using evidence_inv_reachable [OF assms(1)] by (simp add: evidence_inv_def)
  with assms(2,3) have "cleared (made s) (set (take n (history s))) k now" "logged (take m (audit_log (cdb s))) k who"
    unfolding history_ok_def by blast+
  then show ?thesis by (auto simp: cleared_def logged_def DUAL_CONFIRM_DELAY_MS_def)
qed

text \<open>What runs is what the owner was asked about: the tool, payload, level and plan of a row that is
  being executed are those it was created with, under every interleaving.\<close>

theorem interleaved_runs_what_was_shown:
  assumes "reachable sha s" "pcs s i = AExec k c"
  shows "\<exists>r0. made s k = Some r0 \<and> p_toolName c = p_toolName r0 \<and> p_payload c = p_payload r0 \<and>
    p_level c = p_level r0 \<and> p_planSummary c = p_planSummary r0"
proof -
  have "pc_ok (made s) (set (history s)) (audit_log (cdb s)) (pcs s i)"
    using evidence_inv_reachable [OF assms(1)] by (simp add: evidence_inv_def)
  with assms(2) show ?thesis by (auto simp: same_content_def)
qed

text \<open>The request is decided: no free row, and whoever still holds it only has to remove it.\<close>

definition decided :: "uuid \<Rightarrow> system \<Rightarrow> bool" where
  "decided k s \<longleftrightarrow> \<not> free k (cdb s) \<and> made s k \<noteq> None \<and>
     (\<forall>j. holds (pcs s j) = Some k \<longrightarrow> settled (pcs s j))"

fun starts :: "uuid \<Rightarrow> history_event \<Rightarrow> bool" where
  "starts k (HStarted j who now m) = (j = k)"
| "starts k _ = False"

lemma tstep_settled: "tstep sha p db evs p' db' \<Longrightarrow> settled p \<Longrightarrow> holds p' = None"
  by (cases rule: tstep.cases, assumption) auto

lemma tstep_starts: "tstep sha p db evs p' db' \<Longrightarrow> e \<in> set evs \<Longrightarrow> starts k e \<Longrightarrow> holds p = Some k \<and> \<not> settled p"
  by (cases rule: tstep.cases, assumption) (auto split: if_splits)

lemma decided_step:
  assumes "cstep sha s s'" "decided k s"
  shows "decided k s' \<and> filter (starts k) (history s') = filter (starts k) (history s)"
  using assms(1)
proof cases
  case (run i evs p' db')
  have "\<not> free k db'" using tstep_claims(2) [OF run(2), of k] assms(2) by (auto simp: decided_def)
  moreover have "holds p' \<noteq> Some k"
    using tstep_claims(1) [OF run(2), of k] tstep_settled [OF run(2)] assms(2) by (auto simp: decided_def)
  moreover have "filter (starts k) evs = []"
    using tstep_starts [OF run(2), of _ k] assms(2) by (auto simp: decided_def filter_empty_conv)
  ultimately show ?thesis using assms(2) run(1) by (auto simp: decided_def)
next
  case (arrive_or_die p i)
  with assms(2) show ?thesis by (auto simp: decided_def)
next
  case (create inp now)
  with assms(2) show ?thesis by (auto simp: decided_def free_def new_row_def)
next
  case (environment db' extra)
  with assms(2) show ?thesis by (auto simp: decided_def free_def)
qed

lemma decided_steps:
  assumes "(cstep sha)\<^sup>*\<^sup>* s s'" "decided k s"
  shows "decided k s' \<and> filter (starts k) (history s') = filter (starts k) (history s)"
  using assms(1)
proof induction
  case (step y z)
  with decided_step [OF step.hyps(2), of k] show ?case by simp
qed (simp add: assms(2))

text \<open>Once a request has been executed, rejected or expired (its decision is audited and only the
  removal of the row is left), no executor is ever started for it again, whatever happens next.\<close>

theorem settled_never_starts_again:
  assumes "reachable sha s" "holds (pcs s i) = Some k" "settled (pcs s i)" "(cstep sha)\<^sup>*\<^sup>* s s'"
  shows "filter (starts k) (history s') = filter (starts k) (history s) \<and> \<not> free k (cdb s')"
proof -
  have inv: "claims_inv s" by (rule claims_inv_reachable [OF assms(1)])
  then have "\<not> free k (cdb s)" "made s k \<noteq> None" using assms(2) unfolding claims_inv_def by blast+
  moreover have "j = i" if "holds (pcs s j) = Some k" for j
    using inv assms(2) that unfolding claims_inv_def by blast
  ultimately have "decided k s" using assms(3) by (auto simp: decided_def)
  from decided_steps [OF assms(4) this] show ?thesis by (simp add: decided_def)
qed

section \<open>The handlers are runs of the steps\<close>

text \<open>
  A run of one handler with nobody else interfering. The sequential handlers of the previous theories
  are such runs, so what holds of every interleaving holds of them. An executor's own writes are the
  environment's, so here it leaves the database alone.
\<close>

inductive trun :: "(string \<Rightarrow> string) \<Rightarrow> pc \<Rightarrow> hitl_db \<Rightarrow> pc \<Rightarrow> hitl_db \<Rightarrow> bool" for sha where
  stop: "trun sha p db p db"
| go: "tstep sha p db evs p1 db1 \<Longrightarrow> trun sha p1 db1 q db2 \<Longrightarrow> trun sha p db q db2"

lemma trun_trans: "trun sha p db p1 db1 \<Longrightarrow> trun sha p1 db1 q db2 \<Longrightarrow> trun sha p db q db2"
  by (induction rule: trun.induct) (auto intro: trun.go)

lemma trun_last: "tstep sha p db evs q db1 \<Longrightarrow> trun sha p db q db1"
  by (auto intro: trun.intros)

lemma read_run:
  "trun sha (ARead k who now) db
     (case fst (dc_recordApproval k who now db) of Inl e \<Rightarrow> AEnd k (Inl e)
      | Inr AwaitingSecond \<Rightarrow> AEnd k (Inr RAwaitingSecond) | Inr Resolved \<Rightarrow> AClaim k who now)
     (snd (dc_recordApproval k who now db))"
proof (cases "\<exists>r. getPending k db = Some r \<and> p_level r = ''dual-confirm'' \<and> p_firstApprovedAt r = None")
  case True
  then obtain r where r: "getPending k db = Some r" "p_level r = ''dual-confirm''" "p_firstApprovedAt r = None" by blast
  then have ar: "after_read k who now (getPending k db) = AFirst k who now" by (simp add: after_read_def)
  have "tstep sha (AFirst k who now) db [HFirst k who now] (AEnd k (Inr RAwaitingSecond))
      (snd (set_first_approval k who now db))"
    using set_first_approval_wins [OF r(1,3), of who now] by (rule tstep.a_first [OF prod.collapse [symmetric]])
  with a_read [of sha k who now db] ar show ?thesis
    by (simp add: dc_first [OF r]) (blast intro: trun.intros)
next
  case False
  then have "after_read k who now (getPending k db) =
      (case fst (dc_recordApproval k who now db) of Inl e \<Rightarrow> AEnd k (Inl e)
       | Inr AwaitingSecond \<Rightarrow> AEnd k (Inr RAwaitingSecond) | Inr Resolved \<Rightarrow> AClaim k who now) \<and>
      snd (dc_recordApproval k who now db) = db"
    by (subst (1 2) dc_recordApproval.simps)
       (auto simp: after_read_def parse_level_def Let_def split: option.splits)
  with a_read [of sha k who now db] show ?thesis by (metis trun_last)
qed

lemma append_cases:
  obtains (locked) "isLocked db" "appendRow sha io d db = (Inl AuditChainLockedError, db)"
  | (fault) e where "\<not> isLocked db" "appendRow sha io d db = (Inl (OtherError e), db)"
  | (ok) row db' where "\<not> isLocked db" "insertRow sha (io_now io) d db = (row, db')" "appendRow sha io d db = (Inr row, db')"
proof (cases "isLocked db")
  case True
  then show thesis by (intro locked) (simp_all add: appendRow_def)
next
  case False
  show thesis
  proof (cases "io_fault io")
    case None
    with False ok [of "fst (insertRow sha (io_now io) d db)" "snd (insertRow sha (io_now io) d db)"]
    show thesis by (simp add: appendRow_def split: prod.splits)
  next
    case (Some e)
    with False show thesis by (intro fault [of e]) (simp_all add: appendRow_def)
  qed
qed

lemma failure_audit_run:
  "trun sha (AFailAudit False k c e) db (AEnd k (Inl e))
     (snd (recordExecutionFailure sha io k (p_toolName c) (p_inputsHash c) db))"
  unfolding recordExecutionFailure_def
proof (cases rule: append_cases [of db sha io "executionFailureData k (p_toolName c) (p_inputsHash c)"])
  case locked
  then show "trun sha (AFailAudit False k c e) db (AEnd k (Inl e))
      (snd (appendRow sha io (executionFailureData k (p_toolName c) (p_inputsHash c)) db))"
    using a_failaudit_check [of sha k c e db] by (simp add: trun_last)
next
  case (fault e')
  then show "trun sha (AFailAudit False k c e) db (AEnd k (Inl e))
      (snd (appendRow sha io (executionFailureData k (p_toolName c) (p_inputsHash c)) db))"
    using a_failaudit_check [of sha k c e db] a_failaudit_fault [of sha k c e db]
    by simp (blast intro: trun.intros)
next
  case (ok row db')
  then show "trun sha (AFailAudit False k c e) db (AEnd k (Inl e))
      (snd (appendRow sha io (executionFailureData k (p_toolName c) (p_inputsHash c)) db))"
    using a_failaudit_check [of sha k c e db] a_failaudit [OF ok(2)]
    by simp (blast intro: trun.intros)
qed

text \<open>An executor whose own writes, if any, are counted as the environment's.\<close>

definition stateless :: "hitl_db executors \<Rightarrow> bool" where
  "stateless reg \<longleftrightarrow> (\<forall>tool ex payload rid db. reg tool = Some ex \<longrightarrow> snd (ex payload rid db) = db)"

lemma execute_stateless:
  "stateless reg \<Longrightarrow> execute reg tool payload rid db = (fst (execute reg tool payload rid db), db)"
  by (auto simp: stateless_def execute_def prod_eq_iff split: option.splits)

lemma execution_run:
  assumes "stateless reg"
  shows "trun sha (ARun k who now c) db
     (AEnd k (fst (case execute reg (p_toolName c) (p_payload c) (Some k) db of
          (Inl e, db4) \<Rightarrow> (Inl e, snd (recordExecutionFailure sha io k (p_toolName c) (p_inputsHash c)
                                 (releaseClaim k (Some (ExecutorFailed e)) db4)))
        | (Inr result, db4) \<Rightarrow> (Inr (RResolved (p_toolName c) result), if fault then db4 else removePending k db4))))
     (snd (case execute reg (p_toolName c) (p_payload c) (Some k) db of
          (Inl e, db4) \<Rightarrow> (Inl e, snd (recordExecutionFailure sha io k (p_toolName c) (p_inputsHash c)
                                 (releaseClaim k (Some (ExecutorFailed e)) db4)))
        | (Inr result, db4) \<Rightarrow> (Inr (RResolved (p_toolName c) result), if fault then db4 else removePending k db4)))"
proof (cases "fst (execute reg (p_toolName c) (p_payload c) (Some k) db)")
  case (Inl e)
  with execute_stateless [OF assms, of "p_toolName c" "p_payload c" "Some k" db]
  have ex: "execute reg (p_toolName c) (p_payload c) (Some k) db = (Inl e, db)" by simp
  have "trun sha (ARun k who now c) db (AFailAudit False k c e) (releaseClaim k (Some (ExecutorFailed e)) db)"
    by (rule trun.go [OF a_start trun.go [OF a_failed trun_last [OF a_release_failed]]])
  from trun_trans [OF this failure_audit_run] show ?thesis by (simp add: ex)
next
  case (Inr result)
  with execute_stateless [OF assms, of "p_toolName c" "p_payload c" "Some k" db]
  have ex: "execute reg (p_toolName c) (p_payload c) (Some k) db = (Inr result, db)" by simp
  have "trun sha (ARun k who now c) db (ARemove k c result) db"
    by (rule trun.go [OF a_start trun_last [OF a_succeeded]])
  moreover have "trun sha (ARemove k c result) db (AEnd k (Inr (RResolved (p_toolName c) result)))
      (if fault then db else removePending k db)"
    using trun_last [OF a_remove_fault] trun_last [OF a_remove] by (cases fault) simp_all
  ultimately have "trun sha (ARun k who now c) db (AEnd k (Inr (RResolved (p_toolName c) result)))
      (if fault then db else removePending k db)" by (rule trun_trans)
  then show ?thesis by (simp only: ex prod.case sum.case fst_conv snd_conv)
qed

lemma resolve_is_run:
  assumes "stateless reg"
  shows "trun sha (AStart k who) db (AEnd k (fst (resolveAndExecute sha reg io k who db)))
    (snd (resolveAndExecute sha reg io k who db))"
proof (cases "getPending k db")
  case None
  then show ?thesis using trun_last [OF a_missing] by (simp add: resolveAndExecute_def)
next
  case (Some r)
  let ?now = "x_approvalNow io"
  obtain res db1 where dc: "dc_recordApproval k who ?now db = (res, db1)" by fastforce
  have start: "trun sha (AStart k who) db (case res of Inl e \<Rightarrow> AEnd k (Inl e)
      | Inr AwaitingSecond \<Rightarrow> AEnd k (Inr RAwaitingSecond) | Inr Resolved \<Rightarrow> AClaim k who ?now) db1"
    using read_run [of sha k who ?now db] a_found [of k db sha who ?now] Some dc by (auto intro: trun.go)
  show ?thesis
  proof (cases "res = Inr Resolved")
    case False
    with start dc Some show ?thesis
      by (cases res; cases "projr res") (auto simp: resolveAndExecute_def)
  next
    case True
    obtain cl db2 where cl: "claimForExecution k (x_claimNow io) db1 = (cl, db2)" by fastforce
    show ?thesis
    proof (cases cl)
      case None
      with cl have "tstep sha (AClaim k who ?now) db1 [] (AEnd k (Inl (ApprovalAlreadyResolvedError k))) db2"
        by (auto intro: a_claim_lost)
      from trun_trans [OF _ trun_last [OF this]] start True None show ?thesis
        by (simp add: resolveAndExecute_def Some dc cl)
    next
      case (Some c)
      with cl have "tstep sha (AClaim k who ?now) db1 [] (AAudit False k who ?now c) db2"
        by (auto intro: a_claim)
      from trun_trans [OF _ trun_last [OF this]] start True
      have s2: "trun sha (AStart k who) db (AAudit False k who ?now c) db2" by simp
      note r = resolveAndExecute_def \<open>getPending k db = _\<close> dc cl Some True recordApproval_def
      show ?thesis
      proof (cases rule: append_cases [of db2 sha "x_audit io" "approvalData k who (p_toolName c) (p_inputsHash c)"])
        case locked
        from trun_trans [OF s2 trun.go [OF a_locked [OF locked(1)] trun_last [OF a_release_unaudited]]] locked(2)
        show ?thesis by (simp add: r)
      next
        case (fault e)
        from trun_trans [OF s2 trun.go [OF a_unlocked [OF fault(1)] trun.go [OF a_fault trun_last [OF a_release_unaudited]]]] fault(2)
        show ?thesis by (simp add: r)
      next
        case (ok row db3)
        have "trun sha (AAudit False k who ?now c) db2 (ARun k who ?now c) db3"
          by (rule trun.go [OF a_unlocked [OF ok(1)] trun_last [OF a_audited [OF ok(2)]]])
        from trun_trans [OF s2 trun_trans [OF this execution_run [OF assms]]] ok(3)
        show ?thesis by (simp add: r)
      qed
    qed
  qed
qed

lemma reject_is_run:
  "trun sha (RStart k who) db (REnd k (fst (resolveRejection sha io k who db))) (snd (resolveRejection sha io k who db))"
proof (cases "getPending k db")
  case None
  then show ?thesis using trun_last [OF r_missing] by (simp add: resolveRejection_def)
next
  case (Some r)
  obtain cl db1 where cl: "claimForExecution k (r_claimNow io) db = (cl, db1)" by fastforce
  have s1: "trun sha (RStart k who) db (RClaim k who r) db" by (rule trun_last [OF r_found [OF Some]])
  show ?thesis
  proof (cases cl)
    case None
    have s2: "trun sha (RStart k who) db (RStuck k who r) db1"
      using trun_trans [OF s1 trun_last [OF r_claim_lost]] cl None by simp
    note r = resolveRejection_def Some cl None recordRejection_def Let_def
    show ?thesis
    proof (cases "case p_executingAt r of Some since \<Rightarrow> r_stuckNow io - since > STUCK_CLAIM_AFTER_MS | None \<Rightarrow> False")
      case False
      then have "case p_executingAt r of Some since \<Rightarrow> \<not> r_stuckNow io - since > STUCK_CLAIM_AFTER_MS | None \<Rightarrow> True"
        by (simp split: option.splits)
      from trun_trans [OF s2 trun_last [OF r_not_stuck [OF this]]] False show ?thesis by (simp add: r)
    next
      case True
      then obtain since where "p_executingAt r = Some since" "r_stuckNow io - since > STUCK_CLAIM_AFTER_MS"
        by (auto split: option.splits)
      note s3 = trun_trans [OF s2 trun_last [OF r_stuck [OF this]]]
      note check = r_stuck_check [of sha k who r db1]
      show ?thesis
      proof (cases rule: append_cases [of db1 sha "r_audit io" "rejectionData k who (p_toolName r) (p_inputsHash r)"])
        case locked
        from trun_trans [OF s3 trun_last [OF check]] True locked show ?thesis by (simp add: r)
      next
        case (fault e)
        from trun_trans [OF s3 trun.go [OF check]] trun_last [OF r_stuck_fault] True fault show ?thesis by (simp add: r)
      next
        case (ok row db2)
        have "tstep sha (RStuckRemove k) db2 (if fst (removeIfNotExecuting k (r_removeNow io) db2) then [HRemoved k] else [])
            (REnd k (Inr ())) (snd (removeIfNotExecuting k (r_removeNow io) db2))"
          by (rule r_stuck_remove [OF prod.collapse [symmetric]])
        from trun.go [OF r_stuck_audited [OF ok(2)] trun_last [OF this]]
        have "trun sha (RStuckAudit True k who r) db1 (REnd k (Inr ())) (snd (removeIfNotExecuting k (r_removeNow io) db2))" .
        with trun_trans [OF s3 trun.go [OF check]] True ok show ?thesis by (simp add: r)
      qed
    qed
  next
    case c: (Some c)
    have s2: "trun sha (RStart k who) db (RAudit False k who c) db1"
      using trun_trans [OF s1 trun_last [OF r_claim]] cl c by simp
    note r = resolveRejection_def Some cl c recordRejection_def
    show ?thesis
    proof (cases rule: append_cases [of db1 sha "r_audit io" "rejectionData k who (p_toolName c) (p_inputsHash c)"])
      case locked
      from trun_trans [OF s2 trun.go [OF r_locked [OF locked(1)] trun_last [OF r_release]]] locked(2)
      show ?thesis by (simp add: r)
    next
      case (fault e)
      from trun_trans [OF s2 trun.go [OF r_unlocked [OF fault(1)] trun.go [OF r_fault trun_last [OF r_release]]]] fault(2)
      show ?thesis by (simp add: r)
    next
      case (ok row db2)
      from trun_trans [OF s2 trun.go [OF r_unlocked [OF ok(1)] trun.go [OF r_audited [OF ok(2)] trun_last [OF r_remove]]]] ok(3)
      show ?thesis by (simp add: r)
    qed
  qed
qed

lemma expire_is_run:
  assumes "claimAndAuditTimeout sha io r status db = (x, db1)"
  shows "case x of
      Inl e \<Rightarrow> trun sha (SClaim now status r rows) db (SEnd (Inl e)) db1
    | Inr False \<Rightarrow> trun sha (SClaim now status r rows) db (SRows now rows) db1
    | Inr True \<Rightarrow> trun sha (SClaim now status r rows) db (SRows now rows) (sweep_removed status r db1)"
proof -
  obtain cl db2 where cl: "claimForExecution (p_requestId r) (s_claimNow io) db = (cl, db2)" by fastforce
  show ?thesis
  proof (cases cl)
    case None
    with cl trun_last [OF s_claim_lost] assms show ?thesis by (auto simp: claimAndAuditTimeout_def)
  next
    case (Some c)
    with cl have s1: "trun sha (SClaim now status r rows) db (SAudit False now status r rows) db2"
      using trun_last [OF s_claim] by simp
    show ?thesis
    proof (cases rule: append_cases [of db2 sha "s_audit io"
          "timeoutData (p_requestId r) (p_toolName r) (p_inputsHash r) status"])
      case locked
      from trun_trans [OF s1 trun.go [OF s_locked [OF locked(1)] trun_last [OF s_release]]] locked(2) assms
      show ?thesis by (auto simp: claimAndAuditTimeout_def cl Some recordTimeout_def)
    next
      case (fault e)
      from trun_trans [OF s1 trun.go [OF s_unlocked [OF fault(1)] trun.go [OF s_fault trun_last [OF s_release]]]] fault(2) assms
      show ?thesis by (auto simp: claimAndAuditTimeout_def cl Some recordTimeout_def)
    next
      case (ok row db3)
      from trun_trans [OF s1 trun.go [OF s_unlocked [OF ok(1)] trun.go [OF s_audited [OF ok(2)] trun_last [OF s_remove]]]] ok(3) assms
      show ?thesis by (auto simp: claimAndAuditTimeout_def cl Some recordTimeout_def)
    qed
  qed
qed

lemma row_is_run:
  assumes "processPending sha io r now db = (x, db1)"
  shows "trun sha (SRows now (r # rows)) db (case x of Inl e \<Rightarrow> SEnd (Inl e) | Inr _ \<Rightarrow> SRows now rows) db1"
proof -
  have s1: "tstep sha (SRows now (r # rows)) db [] (fst (sweep_next now r rows db)) (snd (sweep_next now r rows db))"
    by (rule s_row) simp
  show ?thesis
  proof (cases "p_executingAt r = None \<and> pending_outcome r now \<in> {TDiscard, TAbandon}")
    case False
    with assms trun_last [OF s1] show ?thesis
      by (auto simp: processPending_def sweep_next_def split: option.splits TimeoutOutcome.splits if_splits)
  next
    case True
    define status where "status = (if pending_outcome r now = TDiscard then ''timeout'' else ''abandoned'')"
    obtain y db2 where c: "claimAndAuditTimeout sha io r status db = (y, db2)" by fastforce
    have s2: "trun sha (SRows now (r # rows)) db (SClaim now status r rows) db"
      using trun_last [OF s1] True by (auto simp: sweep_next_def status_def)
    show ?thesis
      using expire_is_run [OF c, of now rows] trun_trans [OF s2] True assms c
      by (cases y; cases "projr y") (auto simp: processPending_def status_def sweep_removed_def split: if_splits)
  qed
qed

lemma rows_are_run:
  "trun sha (SRows now rows) db (SEnd (fst (sweep_rows sha io now rows db))) (snd (sweep_rows sha io now rows db))"
proof (induction rows arbitrary: db)
  case Nil
  show ?case using trun_last [OF s_end] by simp
next
  case (Cons r rows)
  obtain x db1 where p: "processPending sha (io r) r now db = (x, db1)" by fastforce
  from trun_trans [OF row_is_run [OF p, of rows]] Cons.IH [of db1] show ?case
    by (cases x) (auto simp: p intro: trun.stop)
qed

text \<open>C3: the step relation is faithful to the handlers: each of approve, reject and sweep, run to its end
  with nobody interfering, is a run of the steps with the same answer and the same final database.\<close>

theorem handlers_are_runs:
  assumes "stateless reg"
  shows "trun sha (AStart k who) db (AEnd k (fst (resolveAndExecute sha reg io k who db)))
      (snd (resolveAndExecute sha reg io k who db))
    \<and> trun sha (RStart k who) db (REnd k (fst (resolveRejection sha rio k who db))) (snd (resolveRejection sha rio k who db))
    \<and> trun sha (SStart now) db (SEnd (fst (sweep sha sio now db))) (snd (sweep sha sio now db))"
  using resolve_is_run [OF assms] reject_is_run trun.go [OF s_start rows_are_run] by (simp add: sweep_def)

section \<open>Witnesses\<close>

definition sample_input :: CreatePendingApprovalInput where
  "sample_input = \<lparr>c_requestId = ''r1'', c_toolName = ''sendEmail'', c_level = ''confirm'', c_inputsHash = ''h'',
     c_planSummary = None, c_payload = Some JNull, c_actor = None, c_externalInputsSummary = None\<rparr>"

definition one_handler :: "hitl_db \<Rightarrow> pc \<Rightarrow> history_event list \<Rightarrow> system" where
  "one_handler db p h = \<lparr>cdb = db, pcs = (\<lambda>_. Idle)(0 := p), history = h, made = [''r1'' \<mapsto> new_row sample_input 0]\<rparr>"

lemma one_handler_step:
  "reachable sha (one_handler db p h) \<Longrightarrow> tstep sha p db evs p' db' \<Longrightarrow> reachable sha (one_handler db' p' (h @ evs))"
proof -
  assume r: "reachable sha (one_handler db p h)" and "tstep sha p db evs p' db'"
  then have "tstep sha (pcs (one_handler db p h) 0) (cdb (one_handler db p h)) evs p' db'"
    by (simp add: one_handler_def)
  from reachable.next_state [OF r cstep.run [OF this]] show ?thesis by (simp add: one_handler_def)
qed

lemma sample_created: "reachable sha (one_handler (sample_hitl [new_row sample_input 0]) (AStart ''r1'' ''owner'') [])"
proof -
  let ?s0 = "\<lparr>cdb = sample_hitl [], pcs = (\<lambda>_. Idle), history = [], made = Map.empty\<rparr>"
  have "reachable sha ?s0" by (rule reachable.initial) (simp_all add: sample_hitl_def)
  from reachable.next_state [OF this cstep.create [of ?s0 sample_input sha 0]]
  have "reachable sha (one_handler (sample_hitl [new_row sample_input 0]) Idle [])"
    by (simp add: one_handler_def sample_hitl_def) (simp add: sample_input_def fun_upd_idem)
  from reachable.next_state [OF this cstep.arrive_or_die [of "AStart ''r1'' ''owner''" sha _ 0]] show ?thesis
    by (simp add: one_handler_def)
qed

lemma sample_executing:
  "\<exists>db c. length (audit_log db) = 1 \<and> reachable sha (one_handler db (AExec ''r1'' c) [HStarted ''r1'' ''owner'' 5 1])"
proof -
  let ?d1 = "sample_hitl [new_row sample_input 0]"
  have g: "getPending ''r1'' ?d1 = Some (new_row sample_input 0)"
    by (simp add: getPending_def sample_hitl_def) (simp add: sample_input_def new_row_def)
  have ar: "after_read ''r1'' ''owner'' 5 (getPending ''r1'' ?d1) = AClaim ''r1'' ''owner'' 5"
    unfolding g by (simp add: after_read_def) (simp add: new_row_def sample_input_def)
  have wf: "hitl_wf ?d1" by (simp add: hitl_wf_def sample_hitl_def) (simp add: new_row_def)
  have "p_executingAt (new_row sample_input 0) = None" by (simp add: new_row_def)
  from claim_free_row [OF wf g this, of 5] obtain c d2 where cl: "claimForExecution ''r1'' 5 ?d1 = (Some c, d2)"
    by (metis prod.collapse)
  have "isLocked d2 = isLocked ?d1" "audit_log d2 = audit_log ?d1"
    using steps_locked(1) [of "''r1''" 5 ?d1] steps_audit(1) [of "''r1''" 5 ?d1] cl by simp_all
  then have un: "\<not> isLocked d2" and l2: "audit_log d2 = []" by (simp_all add: sample_hitl_def isLocked_def)
  obtain row d3 where ins: "insertRow sha 5 (approvalData ''r1'' ''owner'' (p_toolName c) (p_inputsHash c)) d2 = (row, d3)"
    by fastforce
  then have "d3 = snd (insertRow sha 5 (approvalData ''r1'' ''owner'' (p_toolName c) (p_inputsHash c)) d2)" by simp
  then have l3: "length (audit_log d3) = 1" by (simp add: l2)
  have "reachable sha (one_handler ?d1 (ARead ''r1'' ''owner'' 5) [])"
    using one_handler_step [OF sample_created a_found [of "''r1''" ?d1 sha "''owner''" 5]] g by simp
  from one_handler_step [OF this a_read] have "reachable sha (one_handler ?d1 (AClaim ''r1'' ''owner'' 5) [])"
    by (simp add: ar)
  from one_handler_step [OF this a_claim [OF cl]] have "reachable sha (one_handler d2 (AAudit False ''r1'' ''owner'' 5 c) [])"
    by simp
  from one_handler_step [OF one_handler_step [OF one_handler_step [OF this a_unlocked [OF un]] a_audited [OF ins]] a_start]
  have "reachable sha (one_handler d3 (AExec ''r1'' c) [HStarted ''r1'' ''owner'' 5 1])"
    by (simp add: l3)
  with l3 show ?thesis by blast
qed

theorem interleaved_at_most_once_witness:
  "\<exists>s :: system. HSucceeded ''r1'' \<in> set (history s) \<and> count_list (history s) (HSucceeded ''r1'') \<le> 1"
proof -
  obtain db c where "reachable sample_sha (one_handler db (AExec ''r1'' c) [HStarted ''r1'' ''owner'' 5 1])"
    using sample_executing by blast
  from one_handler_step [OF this a_succeeded]
  have r: "reachable sample_sha (one_handler db (ARemove ''r1'' c JNull) [HStarted ''r1'' ''owner'' 5 1, HSucceeded ''r1''])"
    by simp
  from interleaved_at_most_once [OF r, of "''r1''"] show ?thesis
    by (intro exI [of _ "one_handler db (ARemove ''r1'' c JNull) [HStarted ''r1'' ''owner'' 5 1, HSucceeded ''r1'']"])
       (simp add: one_handler_def)
qed

theorem interleaved_start_has_evidence_witness:
  "\<exists>s :: system. history s = [HStarted ''r1'' ''owner'' 5 1] \<and> (\<exists>a \<in> set (take 1 (audit_log (cdb s))). a_approver a = Some ''owner'')"
proof -
  obtain db c where r: "reachable sample_sha (one_handler db (AExec ''r1'' c) [HStarted ''r1'' ''owner'' 5 1])"
    using sample_executing by blast
  from interleaved_start_has_evidence [OF r, of 0 "''r1''" "''owner''" 5 1] show ?thesis
    by (intro exI [of _ "one_handler db (AExec ''r1'' c) [HStarted ''r1'' ''owner'' 5 1]"])
       (auto simp: one_handler_def)
qed

theorem interleaved_runs_what_was_shown_witness:
  "\<exists>(s :: system) i c. pcs s i = AExec ''r1'' c \<and> p_toolName c = ''sendEmail''"
proof -
  obtain db c where r: "reachable sample_sha (one_handler db (AExec ''r1'' c) [HStarted ''r1'' ''owner'' 5 1])"
    using sample_executing by blast
  from interleaved_runs_what_was_shown [OF r, of 0 "''r1''" c]
  have "p_toolName c = ''sendEmail''" by (simp add: one_handler_def) (simp add: new_row_def sample_input_def)
  then show ?thesis
    by (intro exI [of _ "one_handler db (AExec ''r1'' c) []"] exI [of _ 0] exI [of _ c]) (simp add: one_handler_def)
qed

theorem settled_never_starts_again_witness:
  "\<exists>s :: system. settled (pcs s 0) \<and> \<not> free ''r1'' (cdb s)"
proof -
  obtain db c where "reachable sample_sha (one_handler db (AExec ''r1'' c) [HStarted ''r1'' ''owner'' 5 1])"
    using sample_executing by blast
  from one_handler_step [OF this a_succeeded]
  have r: "reachable sample_sha (one_handler db (ARemove ''r1'' c JNull) [HStarted ''r1'' ''owner'' 5 1, HSucceeded ''r1''])"
    by simp
  from settled_never_starts_again [OF r, of 0 "''r1''", OF _ _ rtranclp.rtrancl_refl] show ?thesis
    by (intro exI [of _ "one_handler db (ARemove ''r1'' c JNull) [HStarted ''r1'' ''owner'' 5 1, HSucceeded ''r1'']"])
       (simp add: one_handler_def)
qed

theorem handlers_are_runs_witness:
  "\<exists>db'. trun sample_sha (AStart ''r1'' ''owner'') (sample_hitl [sample_pending ''confirm'' None])
     (AEnd ''r1'' (Inr (RResolved ''sendEmail'' JNull))) db'"
proof -
  obtain db' where "resolveAndExecute sample_sha (sample_reg (Inr JNull)) (sample_io 5 False) ''r1'' ''owner''
     (sample_hitl [sample_pending ''confirm'' None]) = (Inr (RResolved ''sendEmail'' JNull), db')"
    using sample_runs by blast
  moreover have "stateless (sample_reg (Inr JNull))" by (auto simp: stateless_def sample_reg_def)
  ultimately show ?thesis
    using handlers_are_runs [of "sample_reg (Inr JNull)" sample_sha "''r1''" "''owner''"
        "sample_hitl [sample_pending ''confirm'' None]" "sample_io 5 False"] by auto
qed

end
