(* ===== verification/Autonomy.thy ===== *)
theory Autonomy
  imports Complex_Main Hitl_Approvals
begin

text \<open>
  Autonomy modes of the human-in-the-loop policy: the types and the order of modes
  (\<open>src/autonomy/autonomy.types.ts\<close>), the pure relaxation rule (\<open>autonomy.logic.ts\<close>) and the service
  with its singleton row, its expiry and its emergency brake (\<open>autonomy.service.ts\<close>).

  The state adds the tables \<open>autonomy_mode_state\<close> (at most one row) and
  \<open>feature_flag_hitl_overrides\<close> to the approvals' tables. Hours are integers: both callers, the
  \<open>/mode\<close> command and the HTTP schema, only let positive integers through.
\<close>

section \<open>Modes\<close>

datatype AutonomyMode = Supervised | SemiAuto | AutoMode

definition AUTONOMY_MODES :: "AutonomyMode list" where
  "AUTONOMY_MODES = [Supervised, SemiAuto, AutoMode]"

fun mode_name :: "AutonomyMode \<Rightarrow> string" where
  "mode_name Supervised = ''supervised''"
| "mode_name SemiAuto = ''semi-auto''"
| "mode_name AutoMode = ''auto''"

definition parse_mode :: "string \<Rightarrow> AutonomyMode option" where
  "parse_mode s = List.find (\<lambda>m. mode_name m = s) AUTONOMY_MODES"

definition autonomyOrdinal :: "AutonomyMode \<Rightarrow> int" where
  "autonomyOrdinal mode = index_of AUTONOMY_MODES mode"

definition requiresDualConfirm :: "AutonomyMode \<Rightarrow> AutonomyMode \<Rightarrow> bool" where
  "requiresDualConfirm current target \<longleftrightarrow> target \<noteq> Supervised \<and> autonomyOrdinal target \<ge> autonomyOrdinal current"

record AutonomyState =
  as_mode :: AutonomyMode
  as_expiresAt :: "timestamp option"
  as_setBy :: string
  as_changedAt :: timestamp

record ModeLimits =
  l_defaultHours :: int
  l_maxHours :: int

record AutonomyConfig =
  ac_semiAuto :: ModeLimits
  ac_auto :: ModeLimits
  ac_maxRelaxedActionsPerHour :: int

section \<open>The relaxation rule\<close>

definition relaxDecision :: "HitlDecision \<Rightarrow> AutonomyMode \<Rightarrow> ToolDefinition option \<Rightarrow> HitlDecision \<times> string option" where
  "relaxDecision decision mode tool =
     (if mode = Supervised then (decision, None)
      else if d_level decision \<noteq> Lconfirm then (decision, None)
      else if (case tool of Some t \<Rightarrow> t_humanDecision t | None \<Rightarrow> False) then (decision, None)
      else if mode = SemiAuto \<and> (case tool of Some t \<Rightarrow> t_guardedInSemiAuto t | None \<Rightarrow> False) then (decision, None)
      else (decision\<lparr>d_level := Lnotify, d_approvalsRequired := 0, d_notifyAfterExecution := True,
              d_relaxedBy := Some (''autonomy:'' @ mode_name mode)\<rparr>,
            Some (''autonomy:'' @ mode_name mode)))"

definition clampHours :: "int option \<Rightarrow> ModeLimits \<Rightarrow> int" where
  "clampHours requested defaults =
     (let hours = (case requested of Some h \<Rightarrow> h | None \<Rightarrow> l_defaultHours defaults)
      in min (max hours 1) (l_maxHours defaults))"

section \<open>The tables\<close>

record autonomy_row =
  am_mode :: string
  am_expiresAt :: "timestamp option"
  am_setBy :: string
  am_approvalRequestId :: "uuid option"
  am_changedAt :: timestamp
  am_relaxedCount :: int
  am_windowStartedAt :: timestamp

record override_row =
  fo_toolName :: string
  fo_level :: string
  fo_approvedAt :: timestamp
  fo_approver :: string

record policy_db = hitl_db +
  autonomy_mode_state :: "autonomy_row option"
  feature_flag_hitl_overrides :: "override_row list"

section \<open>Reading the mode\<close>

definition SAFE_STATE :: "timestamp \<Rightarrow> string \<Rightarrow> AutonomyState" where
  "SAFE_STATE now setBy = \<lparr>as_mode = Supervised, as_expiresAt = None, as_setBy = setBy, as_changedAt = now\<rparr>"

definition getState :: "timestamp \<Rightarrow> 's policy_db_scheme \<Rightarrow> AutonomyState" where
  "getState now db =
     (case autonomy_mode_state db of
        None \<Rightarrow> SAFE_STATE now ''system:default''
      | Some row \<Rightarrow>
          (case parse_mode (am_mode row) of
             None \<Rightarrow> SAFE_STATE now (am_setBy row)
           | Some mode \<Rightarrow>
               if mode = Supervised then SAFE_STATE now (am_setBy row)
               else (case am_expiresAt row of
                   None \<Rightarrow> SAFE_STATE now ''system:expiry''
                 | Some e \<Rightarrow>
                     if e \<le> now then SAFE_STATE now ''system:expiry''
                     else \<lparr>as_mode = mode, as_expiresAt = Some e, as_setBy = am_setBy row,
                            as_changedAt = am_changedAt row\<rparr>)))"

definition limitsFor :: "AutonomyConfig \<Rightarrow> AutonomyMode \<Rightarrow> ModeLimits" where
  "limitsFor config mode = (if mode = AutoMode then ac_auto config else ac_semiAuto config)"

record AutonomyDescription =
  ad_mode :: AutonomyMode
  ad_expiresAt :: "string option"
  ad_remainingSeconds :: "int option"
  ad_setBy :: string
  ad_limits :: AutonomyConfig
  ad_guardedInSemiAuto :: "string list"

text \<open>\<open>Math.round\<close> of a quotient by 1000 rounds halves up.\<close>

definition describe :: "AutonomyConfig \<Rightarrow> timestamp \<Rightarrow> 's policy_db_scheme \<Rightarrow> AutonomyDescription" where
  "describe config now db =
     (let state = getState now db in
      \<lparr>ad_mode = as_mode state, ad_expiresAt = map_option toISOString (as_expiresAt state),
       ad_remainingSeconds = map_option (\<lambda>e. max 0 ((e - now + 500) div 1000)) (as_expiresAt state),
       ad_setBy = as_setBy state, ad_limits = config,
       ad_guardedInSemiAuto = map t_name (filter t_guardedInSemiAuto listRegisteredTools)\<rparr>)"

section \<open>Writing the mode\<close>

definition AUTONOMY_MODE_CHANGE_TOOL_NAME :: string where
  "AUTONOMY_MODE_CHANGE_TOOL_NAME = ''autonomyModeChange''"

definition hashOf :: "(string \<Rightarrow> string) \<Rightarrow> json \<Rightarrow> string" where
  "hashOf sha v = sha (stringify v)"

text \<open>What one write of the mode meets: its clock, its fresh id and its audit connection.\<close>

record mode_io =
  w_now :: timestamp
  w_uuid :: uuid
  w_audit :: audit_io

record mode_change =
  mc_mode :: AutonomyMode
  mc_hours :: int
  mc_setBy :: string
  mc_reason :: string
  mc_approvalRequestId :: "uuid option"
  mc_auditBeforeApply :: bool

definition mode_expiry :: "mode_change \<Rightarrow> timestamp \<Rightarrow> timestamp option" where
  "mode_expiry input now = (if mc_mode input = Supervised then None
     else Some (now + mc_hours input * 60 * 60 * 1000))"

definition audit_mode_change :: "(string \<Rightarrow> string) \<Rightarrow> mode_io \<Rightarrow> mode_change \<Rightarrow> AutonomyMode
    \<Rightarrow> 's policy_db_scheme \<Rightarrow> (jin_error + AuditLogRow) \<times> 's policy_db_scheme" where
  "audit_mode_change sha io input previous db =
     recordToolCall sha (w_audit io)
       (case mc_approvalRequestId input of Some r \<Rightarrow> r | None \<Rightarrow> w_uuid io) (mc_setBy input)
       AUTONOMY_MODE_CHANGE_TOOL_NAME
       (hashOf sha (JObj [(''mode'', JStr (mode_name (mc_mode input))), (''hours'', JNum (mc_hours input))]))
       (Some (''modo de autonom'' @ [CHR 0xED] @ ''a '' @ mode_name previous @ '' -> '' @ mode_name (mc_mode input)
          @ '' ('' @ mc_reason input @ '')''
          @ (case mode_expiry input (w_now io) of Some e \<Rightarrow> '', hasta '' @ toISOString e | None \<Rightarrow> [])))
       ''auto'' None db"

definition update_mode_row :: "mode_change \<Rightarrow> timestamp \<Rightarrow> 's policy_db_scheme \<Rightarrow> 's policy_db_scheme" where
  "update_mode_row input now db = db\<lparr>autonomy_mode_state := map_option (\<lambda>_.
     \<lparr>am_mode = mode_name (mc_mode input), am_expiresAt = mode_expiry input now, am_setBy = mc_setBy input,
      am_approvalRequestId = mc_approvalRequestId input, am_changedAt = now, am_relaxedCount = 0,
      am_windowStartedAt = now\<rparr>) (autonomy_mode_state db)\<rparr>"

definition writeState :: "(string \<Rightarrow> string) \<Rightarrow> mode_io \<Rightarrow> mode_change \<Rightarrow> 's policy_db_scheme
    \<Rightarrow> (jin_error + string option) \<times> 's policy_db_scheme" where
  "writeState sha io input db =
     (let previous = as_mode (getState (w_now io) db);
          expiresAt = mode_expiry input (w_now io);
          changed = ModeChanged (mode_name (mc_mode input)) (mode_name previous) (mc_reason input) expiresAt (mc_setBy input)
      in if mc_auditBeforeApply input
         then (case audit_mode_change sha io input previous db of
                 (Inl e, db1) \<Rightarrow> (Inl e, db1)
               | (Inr _, db1) \<Rightarrow>
                   (Inr (map_option toISOString expiresAt), emit changed (update_mode_row input (w_now io) db1)))
         else (Inr (map_option toISOString expiresAt),
               emit changed (snd (audit_mode_change sha io input previous (update_mode_row input (w_now io) db)))))"

definition applyRestrictiveChange :: "(string \<Rightarrow> string) \<Rightarrow> mode_io \<Rightarrow> AutonomyMode \<Rightarrow> string \<Rightarrow> string \<Rightarrow> int
    \<Rightarrow> 's policy_db_scheme \<Rightarrow> (jin_error + string option) \<times> 's policy_db_scheme" where
  "applyRestrictiveChange sha io mode setBy reason hours db =
     writeState sha io \<lparr>mc_mode = mode, mc_hours = hours, mc_setBy = setBy, mc_reason = reason,
       mc_approvalRequestId = None, mc_auditBeforeApply = False\<rparr> db"

section \<open>Requesting and approving a change\<close>

datatype ModeChangeResult =
    MApplied AutonomyMode "string option"
  | MPendingApproval uuid AutonomyMode int

record request_io =
  q_now :: timestamp
  q_uuid :: uuid
  q_write :: mode_io
  q_createdAt :: timestamp
  q_audit :: audit_io

definition mode_plan :: "AutonomyMode \<Rightarrow> int \<Rightarrow> string" where
  "mode_plan mode hours = ''Cambiar el modo de autonom'' @ [CHR 0xED] @ ''a a '' @ [CHR 0x22] @ mode_name mode
     @ [CHR 0x22] @ '' durante '' @ show_int hours @ '' h (baja la protecci'' @ [CHR 0xF3]
     @ ''n del HITL). Se autoejecutan las acciones que hoy piden 1 aprobaci'' @ [CHR 0xF3] @ ''n''
     @ (if mode = SemiAuto then '', salvo git/merges, correos y borrar eventos futuros'' else [])
     @ ''; lo dual-confirm sigue igual.''"

definition requestModeChange :: "(string \<Rightarrow> string) \<Rightarrow> AutonomyConfig \<Rightarrow> request_io \<Rightarrow> AutonomyMode \<Rightarrow> int option
    \<Rightarrow> string \<Rightarrow> 's policy_db_scheme \<Rightarrow> (jin_error + ModeChangeResult) \<times> 's policy_db_scheme" where
  "requestModeChange sha config io mode requested requestedBy db =
     (let current = getState (q_now io) db in
      if \<not> requiresDualConfirm (as_mode current) mode
      then (let hours = (if mode = Supervised then 0 else clampHours requested (limitsFor config mode))
            in bind_result (applyRestrictiveChange sha (q_write io) mode requestedBy ''downgrade'' hours db)
                 (\<lambda>expiresAt db1. (Inr (MApplied mode expiresAt), db1)))
      else (let hours = clampHours requested (limitsFor config mode);
                payload = JObj [(''mode'', JStr (mode_name mode)), (''hours'', JNum hours),
                                (''approvalRequestId'', JStr (q_uuid io))]
            in bind_result (createPendingApproval sha (q_createdAt io) (q_audit io)
                   \<lparr>c_requestId = q_uuid io, c_toolName = AUTONOMY_MODE_CHANGE_TOOL_NAME,
                    c_level = ''dual-confirm'', c_inputsHash = hashOf sha payload,
                    c_planSummary = Some (mode_plan mode hours), c_payload = Some payload,
                    c_actor = Some requestedBy, c_externalInputsSummary = None\<rparr> db)
                 (\<lambda>_ db1. (Inr (MPendingApproval (q_uuid io) mode hours), db1))))"

text \<open>The schema of an approved payload. \<open>isUuid\<close> is the validation library's check of a UUID.\<close>

fun json_field :: "string \<Rightarrow> json option \<Rightarrow> json option" where
  "json_field f (Some (JObj fs)) = map_of fs f"
| "json_field f _ = None"

definition parse_approved_change :: "(string \<Rightarrow> bool) \<Rightarrow> json option \<Rightarrow> (AutonomyMode \<times> int \<times> uuid) option" where
  "parse_approved_change isUuid payload =
     (case (json_field ''mode'' payload, json_field ''hours'' payload, json_field ''approvalRequestId'' payload) of
        (Some (JStr m), Some (JNum h), Some (JStr r)) \<Rightarrow>
          (case parse_mode m of
             Some mode \<Rightarrow> if h > 0 \<and> isUuid r then Some (mode, h, r) else None
           | None \<Rightarrow> None)
      | _ \<Rightarrow> None)"

definition applyApprovedChange :: "(string \<Rightarrow> string) \<Rightarrow> (string \<Rightarrow> bool) \<Rightarrow> AutonomyConfig \<Rightarrow> mode_io
    \<Rightarrow> 's policy_db_scheme executor" where
  "applyApprovedChange sha isUuid config io payload rid db =
     (case parse_approved_change isUuid payload of
        None \<Rightarrow> (Inl (OtherError ''ZodError''), db)
      | Some (mode, h, approvalRequestId) \<Rightarrow>
          (let hours = (if mode = Supervised then 0 else clampHours (Some h) (limitsFor config mode))
           in bind_result (writeState sha io \<lparr>mc_mode = mode, mc_hours = hours, mc_setBy = ''owner:dual-confirm'',
                  mc_reason = ''approved'', mc_approvalRequestId = Some approvalRequestId,
                  mc_auditBeforeApply = True\<rparr> db)
                (\<lambda>_ db1. (Inr (JObj [(''ok'', JBool True)]), db1))))"

text \<open>Every minute.\<close>

definition expireIfNeeded :: "(string \<Rightarrow> string) \<Rightarrow> mode_io \<Rightarrow> timestamp \<Rightarrow> 's policy_db_scheme
    \<Rightarrow> (jin_error + unit) \<times> 's policy_db_scheme" where
  "expireIfNeeded sha io now db =
     (case autonomy_mode_state db of
        None \<Rightarrow> (Inr (), db)
      | Some row \<Rightarrow>
          if am_mode row = ''supervised'' then (Inr (), db)
          else if (case am_expiresAt row of Some e \<Rightarrow> e > now | None \<Rightarrow> False) then (Inr (), db)
          else bind_result (applyRestrictiveChange sha io Supervised ''system:expiry'' ''expired'' 0 db)
                 (\<lambda>_ db1. (Inr (), db1)))"

section \<open>Relaxing a decision under the brake\<close>

definition bumpRelaxedCounter :: "timestamp \<Rightarrow> 's policy_db_scheme \<Rightarrow> int \<times> 's policy_db_scheme" where
  "bumpRelaxedCounter now db =
     (case autonomy_mode_state db of
        None \<Rightarrow> (0, db)
      | Some row \<Rightarrow>
          (let stale = am_windowStartedAt row < now - 60 * 60 * 1000;
               row' = row\<lparr>am_relaxedCount := (if stale then 1 else am_relaxedCount row + 1),
                          am_windowStartedAt := (if stale then now else am_windowStartedAt row)\<rparr>
           in (am_relaxedCount row', db\<lparr>autonomy_mode_state := Some row'\<rparr>)))"

record relax_io =
  rx_now :: timestamp
  rx_dbNow :: timestamp
  rx_write :: mode_io

definition relax :: "(string \<Rightarrow> string) \<Rightarrow> AutonomyConfig \<Rightarrow> relax_io \<Rightarrow> HitlDecision \<Rightarrow> ToolDefinition option
    \<Rightarrow> 's policy_db_scheme \<Rightarrow> (jin_error + HitlDecision) \<times> 's policy_db_scheme" where
  "relax sha config io decision tool db =
     (let result = relaxDecision decision (as_mode (getState (rx_now io) db)) tool in
      if snd result = None then (Inr decision, db)
      else (case bumpRelaxedCounter (rx_dbNow io) db of
          (n, db1) \<Rightarrow>
            if n > ac_maxRelaxedActionsPerHour config
            then bind_result (applyRestrictiveChange sha (rx_write io) Supervised ''system:circuit-breaker''
                     ''circuit-breaker'' 0 db1) (\<lambda>_ db2. (Inr decision, db2))
            else (Inr (fst result), db1)))"

section \<open>The \<open>/mode\<close> command\<close>

text \<open>
  \<open>MODE_ALIASES[word]\<close> is an own-property lookup only for the words of the table: for the names every
  object inherits (\<open>constructor\<close>, \<open>__proto__\<close>, \<dots>) the lookup yields that inherited value, which is
  not \<open>undefined\<close>. \<open>AliasInherited\<close> stands for such a value.
\<close>

datatype alias_value = AliasMode AutonomyMode | AliasInherited string

datatype ModeCommand = CmdStatus | CmdChange alias_value "int option" | CmdInvalid

definition MODE_ALIASES :: "(string \<times> AutonomyMode) list" where
  "MODE_ALIASES = [(''safe'', Supervised), (''seguro'', Supervised), (''supervised'', Supervised),
     (''supervisado'', Supervised), (''hitl'', Supervised), (''semi'', SemiAuto), (''semiauto'', SemiAuto),
     (''semi-auto'', SemiAuto), (''semiautomatico'', SemiAuto), (''semiautom'' @ [CHR 0xE1] @ ''tico'', SemiAuto),
     (''auto'', AutoMode), (''automatico'', AutoMode), (''autom'' @ [CHR 0xE1] @ ''tico'', AutoMode)]"

text \<open>The names in \<open>Object.prototype\<close> that survive \<open>toLowerCase\<close>.\<close>

definition inherited_names :: "string list" where
  "inherited_names = [''constructor'', ''__proto__'']"

definition mode_alias :: "string \<Rightarrow> alias_value option" where
  "mode_alias w = (case map_of MODE_ALIASES w of
     Some m \<Rightarrow> Some (AliasMode m)
   | None \<Rightarrow> if w \<in> set inherited_names then Some (AliasInherited w) else None)"

text \<open>Words of a text: \<open>trim\<close>, \<open>split(/\s+/)\<close> and dropping the empty ones. \<open>toLowerCase\<close> on Latin-1.\<close>

fun split_blank :: "string \<Rightarrow> string \<Rightarrow> string list" where
  "split_blank acc [] = (if acc = [] then [] else [rev acc])"
| "split_blank acc (c # s) = (if js_blank c then (if acc = [] then [] else [rev acc]) @ split_blank [] s
     else split_blank (c # acc) s)"

definition js_lower_char :: "char \<Rightarrow> char" where
  "js_lower_char c = (let n = of_char c :: nat in
     if 65 \<le> n \<and> n \<le> 90 \<or> 192 \<le> n \<and> n \<le> 222 \<and> n \<noteq> 215 then char_of (n + 32) else c)"

text \<open>
  \<open>Number\<close> of a word without blanks, as the exact value of the literal; \<open>None\<close> is \<open>NaN\<close> or an infinity.
  The rounding of literals beyond the precision of a double is not modelled.
\<close>

definition read_exponent :: "string \<Rightarrow> int option" where
  "read_exponent s = (case s of
     [] \<Rightarrow> Some 0
   | c # t \<Rightarrow> if c \<notin> {CHR ''e'', CHR ''E''} then None
       else (let neg = (case t of x # _ \<Rightarrow> x = CHR ''-'' | [] \<Rightarrow> False);
                 ds = (case t of x # u \<Rightarrow> if x \<in> {CHR ''-'', CHR ''+''} then u else t | [] \<Rightarrow> [])
             in if ds \<noteq> [] \<and> list_all is_digit ds
                then Some (if neg then - int (read_nat ds) else int (read_nat ds)) else None))"

definition read_decimal :: "string \<Rightarrow> rat option" where
  "read_decimal s =
     (let whole = takeWhile is_digit s;
          rest = dropWhile is_digit s;
          frac = (case rest of c # t \<Rightarrow> if c = CHR ''.'' then takeWhile is_digit t else [] | [] \<Rightarrow> []);
          tail = (case rest of c # t \<Rightarrow> if c = CHR ''.'' then dropWhile is_digit t else rest | [] \<Rightarrow> [])
      in if whole = [] \<and> frac = [] then None
         else (case read_exponent tail of
             None \<Rightarrow> None
           | Some e \<Rightarrow> (let m = of_nat (read_nat (whole @ frac)); k = e - int (length frac)
               in Some (if k \<ge> 0 then m * 10 ^ nat k else m / 10 ^ nat (- k)))))"

definition js_Number :: "string \<Rightarrow> rat option" where
  "js_Number s =
     (if s = [] then Some 0
      else case read_prefixed s of
        Some i \<Rightarrow> Some (of_int i)
      | None \<Rightarrow> (if hd s = CHR ''-'' then map_option uminus (read_decimal (tl s))
                 else if hd s = CHR ''+'' then read_decimal (tl s) else read_decimal s))"

definition parseModeCommand :: "string option \<Rightarrow> ModeCommand" where
  "parseModeCommand args =
     (let parts = split_blank [] (map js_lower_char (js_trim (case args of Some a \<Rightarrow> a | None \<Rightarrow> [])))
      in case parts of
           [] \<Rightarrow> CmdStatus
         | [w] \<Rightarrow> (case mode_alias w of None \<Rightarrow> CmdInvalid | Some m \<Rightarrow> CmdChange m None)
         | [w, h] \<Rightarrow> (case mode_alias w of None \<Rightarrow> CmdInvalid
             | Some m \<Rightarrow> (case js_Number h of
                 None \<Rightarrow> CmdInvalid
               | Some hours \<Rightarrow> if of_int (floor hours) = hours \<and> hours > 0
                   then CmdChange m (Some (floor hours)) else CmdInvalid))
         | _ \<Rightarrow> CmdInvalid)"

section \<open>The rule never touches a floor\<close>

lemma autonomyOrdinal_simps [simp]:
  "autonomyOrdinal Supervised = 0" "autonomyOrdinal SemiAuto = 1" "autonomyOrdinal AutoMode = 2"
  by (simp_all add: autonomyOrdinal_def AUTONOMY_MODES_def)

lemma parse_mode_name [simp]: "parse_mode (mode_name m) = Some m"
  by (cases m) (simp_all add: parse_mode_def AUTONOMY_MODES_def)

lemma parse_mode_literals [simp]:
  "parse_mode ''supervised'' = Some Supervised" "parse_mode ''semi-auto'' = Some SemiAuto"
  "parse_mode ''auto'' = Some AutoMode"
  using parse_mode_name [of Supervised] parse_mode_name [of SemiAuto] parse_mode_name [of AutoMode] by simp_all

lemma parse_mode_Some_iff: "parse_mode s = Some m \<longleftrightarrow> s = mode_name m"
  by (cases m) (auto simp: parse_mode_def AUTONOMY_MODES_def)

lemma relaxDecision_cases:
  obtains (same) "relaxDecision d m tool = (d, None)"
  | (relaxed) "m \<noteq> Supervised" "d_level d = Lconfirm" "\<And>t. tool = Some t \<Longrightarrow> \<not> t_humanDecision t"
      "\<And>t. tool = Some t \<Longrightarrow> m = SemiAuto \<Longrightarrow> \<not> t_guardedInSemiAuto t"
      "relaxDecision d m tool = (d\<lparr>d_level := Lnotify, d_approvalsRequired := 0, d_notifyAfterExecution := True,
         d_relaxedBy := Some (''autonomy:'' @ mode_name m)\<rparr>, Some (''autonomy:'' @ mode_name m))"
proof (cases "m \<noteq> Supervised \<and> d_level d = Lconfirm \<and> (\<forall>t. tool = Some t \<longrightarrow> \<not> t_humanDecision t \<and>
    (m = SemiAuto \<longrightarrow> \<not> t_guardedInSemiAuto t))")
  case True
  then show thesis by (intro relaxed) (auto simp: relaxDecision_def split: option.split)
next
  case False
  then show thesis by (intro same) (auto simp: relaxDecision_def split: option.splits)
qed

lemma clampHours_bounds:
  "1 \<le> l_maxHours lims \<Longrightarrow> 1 \<le> clampHours h lims \<and> clampHours h lims \<le> l_maxHours lims"
  by (auto simp: clampHours_def Let_def)

section \<open>The effective mode\<close>

abbreviation mode_at :: "timestamp \<Rightarrow> 's policy_db_scheme \<Rightarrow> AutonomyMode" where
  "mode_at now db \<equiv> as_mode (getState now db)"

lemma mode_at_def:
  "mode_at now db = (case autonomy_mode_state db of
     Some row \<Rightarrow> (case (parse_mode (am_mode row), am_expiresAt row) of
         (Some m, Some e) \<Rightarrow> if e \<le> now then Supervised else m
       | _ \<Rightarrow> Supervised)
   | None \<Rightarrow> Supervised)"
  by (auto simp: getState_def SAFE_STATE_def split: option.split)

lemma mode_at_frame: "autonomy_mode_state db' = autonomy_mode_state db \<Longrightarrow> mode_at t db' = mode_at t db"
  by (simp add: mode_at_def)

text \<open>Time alone only makes the mode safer.\<close>

lemma mode_at_antimono: "t \<le> t' \<Longrightarrow> autonomyOrdinal (mode_at t' db) \<le> autonomyOrdinal (mode_at t db)"
proof -
  have "0 \<le> autonomyOrdinal m" for m by (cases m) simp_all
  then show "t \<le> t' \<Longrightarrow> ?thesis" by (auto simp: mode_at_def split: option.split)
qed

lemma autonomyOrdinal_nonneg [simp]: "0 \<le> autonomyOrdinal m"
  by (cases m) simp_all

lemma appendRow_policy [simp]:
  "autonomy_mode_state (snd (appendRow sha io d db)) = autonomy_mode_state db"
  "feature_flag_hitl_overrides (snd (appendRow sha io d db)) = feature_flag_hitl_overrides db"
  by (auto simp: appendRow_def Let_def split: option.splits)

lemma audit_mode_change_frame [simp]:
  "autonomy_mode_state (snd (audit_mode_change sha io input previous db)) = autonomy_mode_state db"
  by (simp add: audit_mode_change_def recordToolCall_def)

lemma emit_policy [simp]: "autonomy_mode_state (emit e db) = autonomy_mode_state db"
  by (simp add: emit_def)

lemma createPending_policy [simp]:
  "autonomy_mode_state (snd (createPendingApproval sha now io i db)) = autonomy_mode_state db"
  by (auto simp: createPendingApproval_def Let_def recordToolCall_def appendRow_def split: option.split prod.split)

lemma mode_row_update:
  "autonomy_mode_state (update_mode_row input now db) = map_option (\<lambda>_.
     \<lparr>am_mode = mode_name (mc_mode input), am_expiresAt = mode_expiry input now, am_setBy = mc_setBy input,
      am_approvalRequestId = mc_approvalRequestId input, am_changedAt = now, am_relaxedCount = 0,
      am_windowStartedAt = now\<rparr>) (autonomy_mode_state db)"
  by (simp add: update_mode_row_def)

text \<open>The two orders of audit and write.\<close>

lemma writeState_restrictive:
  assumes "\<not> mc_auditBeforeApply input" "writeState sha io input db = (res, db')"
  shows "res = Inr (map_option toISOString (mode_expiry input (w_now io)))"
    "autonomy_mode_state db' = autonomy_mode_state (update_mode_row input (w_now io) db)"
  using assms by (auto simp: writeState_def Let_def)

lemma audit_mode_change_InlD:
  "audit_mode_change sha io input previous db = (Inl e, db') \<Longrightarrow> db' = db"
  by (simp add: audit_mode_change_def recordToolCall_def appendRow_InlD)

lemma writeState_audited:
  assumes "mc_auditBeforeApply input" "writeState sha io input db = (res, db')"
  shows "(case res of
      Inl e \<Rightarrow> db' = db
    | Inr _ \<Rightarrow> autonomy_mode_state db' = autonomy_mode_state (update_mode_row input (w_now io) db) \<and>
        (\<exists>row. audit_log db' = audit_log db @ [row] \<and> a_actor row = mc_setBy input))"
proof -
  obtain r db1 where a: "audit_mode_change sha io input (mode_at (w_now io) db) db = (r, db1)" by fastforce
  show ?thesis
  proof (cases r)
    case (Inl e)
    with a audit_mode_change_InlD [OF a [unfolded Inl]] assms show ?thesis by (auto simp: writeState_def Let_def)
  next
    case (Inr row)
    have "audit_log db1 = audit_log db @ [row] \<and> a_actor row = mc_setBy input \<and>
        autonomy_mode_state db1 = autonomy_mode_state db"
      using a Inr by (auto simp: audit_mode_change_def recordToolCall_def elim!: appendRow_InrE)
    with a Inr assms show ?thesis
      by (auto simp: writeState_def Let_def mode_row_update) (auto simp: emit_def update_mode_row_def)
  qed
qed

section \<open>Requests never weaken the present\<close>

lemma mode_at_written:
  assumes "autonomy_mode_state db' = autonomy_mode_state (update_mode_row input now db)"
  shows "mode_at t db' = (if autonomy_mode_state db = None then Supervised
    else case mode_expiry input now of Some e \<Rightarrow> if e \<le> t then Supervised else mc_mode input | None \<Rightarrow> Supervised)"
  by (simp add: mode_at_def assms mode_row_update split: option.split)

lemma applyRestrictive_result:
  obtains x db1 where "applyRestrictiveChange sha io m who reason h db = (Inr x, db1)"
    "autonomy_mode_state db1 = autonomy_mode_state (update_mode_row
      \<lparr>mc_mode = m, mc_hours = h, mc_setBy = who, mc_reason = reason, mc_approvalRequestId = None,
       mc_auditBeforeApply = False\<rparr> (w_now io) db)"
  using that writeState_restrictive [of "\<lparr>mc_mode = m, mc_hours = h, mc_setBy = who, mc_reason = reason,
      mc_approvalRequestId = None, mc_auditBeforeApply = False\<rparr>" sha io db, OF _ prod.collapse [symmetric]]
  by (simp add: applyRestrictiveChange_def prod_eq_iff)

text \<open>The two ways a request ends.\<close>

lemma requestModeChange_state:
  assumes "requestModeChange sha config io mode h who db = (res, db')"
  shows "if requiresDualConfirm (mode_at (q_now io) db) mode
    then autonomy_mode_state db' = autonomy_mode_state db
    else (\<exists>x. res = Inr (MApplied mode x)) \<and> autonomy_mode_state db' = autonomy_mode_state (update_mode_row
      \<lparr>mc_mode = mode, mc_hours = (if mode = Supervised then 0 else clampHours h (limitsFor config mode)), mc_setBy = who,
       mc_reason = ''downgrade'', mc_approvalRequestId = None, mc_auditBeforeApply = False\<rparr> (w_now (q_write io)) db)"
proof (cases "requiresDualConfirm (mode_at (q_now io) db) mode")
  case True
  with True assms show ?thesis
    by (auto simp: requestModeChange_def Let_def dest!: arg_cong [of _ _ snd])
next
  case False
  let ?hours = "if mode = Supervised then 0 else clampHours h (limitsFor config mode)"
  obtain x db1 where "applyRestrictiveChange sha (q_write io) mode who ''downgrade'' ?hours db = (Inr x, db1)"
    "autonomy_mode_state db1 = autonomy_mode_state (update_mode_row
      \<lparr>mc_mode = mode, mc_hours = ?hours, mc_setBy = who, mc_reason = ''downgrade'', mc_approvalRequestId = None,
       mc_auditBeforeApply = False\<rparr> (w_now (q_write io)) db)"
    by (rule applyRestrictive_result)
  with False assms show ?thesis by (auto simp: requestModeChange_def Let_def)
qed


text \<open>Going back to supervised always works: it answers "applied" and the mode is supervised from then
  on, even with the audit chain locked or its database failing.\<close>

theorem back_to_supervised_always_works:
  "(\<exists>x. fst (requestModeChange sha config io Supervised h who db) = Inr (MApplied Supervised x)) \<and>
   mode_at t (snd (requestModeChange sha config io Supervised h who db)) = Supervised"
proof -
  obtain res db' where r: "requestModeChange sha config io Supervised h who db = (res, db')" by fastforce
  have "\<not> requiresDualConfirm m Supervised" for m by (simp add: requiresDualConfirm_def)
  with requestModeChange_state [OF r] r show ?thesis
    by (auto simp: mode_at_written mode_expiry_def split: option.split)
qed

text \<open>The exception to "lowering the protection needs two approvals": stepping from auto down to
  semi-auto is applied at once with its own number of hours, so past the instant at which the approved
  auto mode would have expired the system stays in semi-auto without anybody having approved it.\<close>

theorem downgrade_outlives_approval:
  assumes "mode_at (q_now io) db = AutoMode"
    and "requestModeChange sha config io SemiAuto h who db = (res, db')"
    and "as_expiresAt (getState (q_now io) db) = Some e" "e \<le> t"
    and "t < w_now (q_write io) + clampHours h (ac_semiAuto config) * 60 * 60 * 1000"
  shows "mode_at t db = Supervised \<and> mode_at t db' = SemiAuto \<and> pending_approvals db' = pending_approvals db"
proof -
  have nd: "\<not> requiresDualConfirm (mode_at (q_now io) db) SemiAuto"
    using assms(1) by (simp add: requiresDualConfirm_def)
  obtain row where row: "autonomy_mode_state db = Some row" "am_expiresAt row = Some e"
    using assms(1,3) by (auto simp: getState_def SAFE_STATE_def split: option.splits if_splits)
  with assms(4) have "mode_at t db = Supervised" by (simp add: mode_at_def split: option.split)
  moreover have "mode_at t db' = SemiAuto"
    using requestModeChange_state [OF assms(2)] nd row assms(5)
    by (auto simp: mode_at_written mode_expiry_def limitsFor_def)
  moreover have "pending_approvals db' = pending_approvals db"
    using assms(2) nd by (auto simp: requestModeChange_def Let_def applyRestrictiveChange_def writeState_def
        audit_mode_change_def emit_def update_mode_row_def recordToolCall_def)
  ultimately show ?thesis by simp
qed

section \<open>Approved changes\<close>

text \<open>An approved change is audited before it is applied: if the audit write is refused or fails, the
  mode is untouched and the error reaches the approval handler; if it succeeds, the row of the log
  names the dual confirmation and the new mode expires within the configured limit.\<close>

theorem approved_change_audited_first:
  assumes "applyApprovedChange sha isUuid config io payload rid db = (res, db')" "1 \<le> l_maxHours (ac_semiAuto config)"
    "1 \<le> l_maxHours (ac_auto config)"
  shows "case res of
      Inl _ \<Rightarrow> db' = db
    | Inr _ \<Rightarrow> \<exists>row m h r. audit_log db' = audit_log db @ [row] \<and> a_actor row = ''owner:dual-confirm'' \<and>
        parse_approved_change isUuid payload = Some (m, h, r) \<and>
        (autonomy_mode_state db \<noteq> None \<longrightarrow> (\<forall>t. mode_at t db' = Supervised \<or> mode_at t db' = m \<and>
           t < w_now io + l_maxHours (limitsFor config m) * 3600000))"
proof (cases "parse_approved_change isUuid payload")
  case None
  with assms(1) show ?thesis by (auto simp: applyApprovedChange_def)
next
  case (Some c)
  then obtain m h r where c: "parse_approved_change isUuid payload = Some (m, h, r)" by (cases c) auto
  let ?hours = "if m = Supervised then 0 else clampHours (Some h) (limitsFor config m)"
  let ?input = "\<lparr>mc_mode = m, mc_hours = ?hours, mc_setBy = ''owner:dual-confirm'',
    mc_reason = ''approved'', mc_approvalRequestId = Some r, mc_auditBeforeApply = True\<rparr>"
  obtain x db1 where w: "writeState sha io ?input db = (x, db1)" by fastforce
  have lims: "?hours \<le> l_maxHours (limitsFor config m)"
    using assms(2,3) clampHours_bounds [of "limitsFor config m" "Some h"] by (auto simp: limitsFor_def split: if_splits)
  have "mc_auditBeforeApply ?input" by simp
  note ws = writeState_audited [OF this w]
  show ?thesis
  proof (cases x)
    case (Inl e)
    with assms(1) ws w c show ?thesis by (auto simp: applyApprovedChange_def Let_def)
  next
    case (Inr y)
    with assms(1) w c have r: "res = Inr (JObj [(''ok'', JBool True)])" "db' = db1"
      by (auto simp: applyApprovedChange_def Let_def)
    from ws Inr obtain row where row: "audit_log db1 = audit_log db @ [row]" "a_actor row = ''owner:dual-confirm''"
      and st: "autonomy_mode_state db1 = autonomy_mode_state (update_mode_row ?input (w_now io) db)" by auto
    have "mode_at t db1 = Supervised \<or> mode_at t db1 = m \<and> t < w_now io + l_maxHours (limitsFor config m) * 3600000" for t
      using lims by (auto simp: mode_at_written [OF st] mode_expiry_def split: if_splits)
    with r row c show ?thesis by auto
  qed
qed

section \<open>Expiry\<close>

text \<open>The job that writes the expiry and the lazy reading of it agree: running it changes the effective
  mode at no later instant, and always ends normally, even when its audit row cannot be written.\<close>

theorem expiry_job_is_invisible:
  assumes "now \<le> t"
  shows "mode_at t (snd (expireIfNeeded sha io now db)) = mode_at t db \<and> fst (expireIfNeeded sha io now db) = Inr ()"
proof -
  obtain x db1 where ar: "applyRestrictiveChange sha io Supervised ''system:expiry'' ''expired'' 0 db = (Inr x, db1)"
    "autonomy_mode_state db1 = autonomy_mode_state (update_mode_row
      \<lparr>mc_mode = Supervised, mc_hours = 0, mc_setBy = ''system:expiry'', mc_reason = ''expired'', mc_approvalRequestId = None,
       mc_auditBeforeApply = False\<rparr> (w_now io) db)"
    by (rule applyRestrictive_result)
  show ?thesis
  proof (cases "\<exists>row. autonomy_mode_state db = Some row \<and> am_mode row \<noteq> ''supervised'' \<and>
      \<not> (case am_expiresAt row of Some e \<Rightarrow> e > now | None \<Rightarrow> False)")
    case True
    then obtain row where row: "autonomy_mode_state db = Some row" "am_mode row \<noteq> ''supervised''"
      "\<not> (case am_expiresAt row of Some e \<Rightarrow> e > now | None \<Rightarrow> False)" by blast
    then have "mode_at t db = Supervised"
      using assms by (auto simp: mode_at_def split: option.splits)
    with row ar show ?thesis
      by (simp add: expireIfNeeded_def mode_at_written [OF ar(2)] mode_expiry_def)
  next
    case False
    then show ?thesis by (auto simp: expireIfNeeded_def split: option.splits)
  qed
qed

text \<open>
  What every write of the table keeps: a relaxed mode has an expiry, at most the configured number of
  hours after it was set.
\<close>

definition mode_bounded :: "AutonomyConfig \<Rightarrow> 's policy_db_scheme \<Rightarrow> bool" where
  "mode_bounded config db \<longleftrightarrow> (case autonomy_mode_state db of None \<Rightarrow> True
     | Some row \<Rightarrow> (\<exists>m. parse_mode (am_mode row) = Some m \<and> (m \<noteq> Supervised \<longrightarrow>
         (\<exists>e. am_expiresAt row = Some e \<and> e \<le> am_changedAt row + l_maxHours (limitsFor config m) * 3600000))))"

lemma mode_bounded_frame: "autonomy_mode_state db' = autonomy_mode_state db \<Longrightarrow> mode_bounded config db' = mode_bounded config db"
  by (simp add: mode_bounded_def)

lemma mode_bounded_written:
  assumes "autonomy_mode_state db' = autonomy_mode_state (update_mode_row input now db)"
    and "mc_mode input \<noteq> Supervised \<Longrightarrow> mc_hours input \<le> l_maxHours (limitsFor config (mc_mode input))"
  shows "mode_bounded config db'"
  using assms(2) by (auto simp: mode_bounded_def assms(1) mode_row_update mode_expiry_def split: option.split)

datatype mode_op =
    OpRequest request_io AutonomyMode "int option" string
  | OpApproved mode_io "json option"
  | OpExpire mode_io timestamp
  | OpRelax relax_io HitlDecision "ToolDefinition option"

fun run_mode_op :: "(string \<Rightarrow> string) \<Rightarrow> (string \<Rightarrow> bool) \<Rightarrow> AutonomyConfig \<Rightarrow> mode_op \<Rightarrow> 's policy_db_scheme \<Rightarrow> 's policy_db_scheme" where
  "run_mode_op sha isUuid config (OpRequest io mode h who) db = snd (requestModeChange sha config io mode h who db)"
| "run_mode_op sha isUuid config (OpApproved io payload) db = snd (applyApprovedChange sha isUuid config io payload None db)"
| "run_mode_op sha isUuid config (OpExpire io now) db = snd (expireIfNeeded sha io now db)"
| "run_mode_op sha isUuid config (OpRelax io d tool) db = snd (relax sha config io d tool db)"

definition limits_ok :: "AutonomyConfig \<Rightarrow> bool" where
  "limits_ok config \<longleftrightarrow> 1 \<le> l_maxHours (ac_semiAuto config) \<and> 1 \<le> l_maxHours (ac_auto config)"

lemma limitsFor_clamp: "limits_ok config \<Longrightarrow> clampHours h (limitsFor config m) \<le> l_maxHours (limitsFor config m)"
  using clampHours_bounds [of "limitsFor config m" h] by (auto simp: limits_ok_def limitsFor_def)

lemma applyRestrictive_bounded:
  assumes "m \<noteq> Supervised \<Longrightarrow> h \<le> l_maxHours (limitsFor config m)"
  shows "mode_bounded config (snd (applyRestrictiveChange sha io m who reason h db))"
proof -
  obtain x db1 where "applyRestrictiveChange sha io m who reason h db = (Inr x, db1)"
    "autonomy_mode_state db1 = autonomy_mode_state (update_mode_row
      \<lparr>mc_mode = m, mc_hours = h, mc_setBy = who, mc_reason = reason, mc_approvalRequestId = None,
       mc_auditBeforeApply = False\<rparr> (w_now io) db)"
    by (rule applyRestrictive_result)
  with mode_bounded_written [OF this(2)] assms show ?thesis by simp
qed

lemma bump_bounded: "mode_bounded config db \<Longrightarrow> mode_bounded config (snd (bumpRelaxedCounter now db))"
  by (auto simp: bumpRelaxedCounter_def mode_bounded_def Let_def split: option.splits)

lemma run_mode_op_bounded:
  assumes "limits_ok config" "mode_bounded config db"
  shows "mode_bounded config (run_mode_op sha isUuid config op db)"
proof (cases op)
  case (OpRequest io mode h who)
  obtain res db' where r: "requestModeChange sha config io mode h who db = (res, db')" by fastforce
  show ?thesis
  proof (cases "requiresDualConfirm (mode_at (q_now io) db) mode")
    case True
    with requestModeChange_state [OF r] have "autonomy_mode_state db' = autonomy_mode_state db" by simp
    with assms(2) OpRequest r show ?thesis using mode_bounded_frame by auto
  next
    case False
    with requestModeChange_state [OF r] show ?thesis
      using OpRequest r limitsFor_clamp [OF assms(1)] by (auto intro!: mode_bounded_written)
  qed
next
  case (OpApproved io payload)
  show ?thesis
  proof (cases "parse_approved_change isUuid payload")
    case None
    then show ?thesis using OpApproved assms(2) by (simp add: applyApprovedChange_def)
  next
    case (Some c)
    then obtain m h r where c: "parse_approved_change isUuid payload = Some (m, h, r)" by (cases c) auto
    let ?input = "\<lparr>mc_mode = m, mc_hours = (if m = Supervised then 0 else clampHours (Some h) (limitsFor config m)),
      mc_setBy = ''owner:dual-confirm'', mc_reason = ''approved'', mc_approvalRequestId = Some r, mc_auditBeforeApply = True\<rparr>"
    obtain x db1 where w: "writeState sha io ?input db = (x, db1)" by fastforce
    have "mc_auditBeforeApply ?input" by simp
    from writeState_audited [OF this w] have "db1 = db \<or> mode_bounded config db1"
      using limitsFor_clamp [OF assms(1)] by (cases x) (auto intro!: mode_bounded_written)
    with OpApproved c w assms(2) show ?thesis by (auto simp: applyApprovedChange_def Let_def)
  qed
next
  case (OpExpire io now)
  then show ?thesis using assms(2) applyRestrictive_bounded [of Supervised 0 config]
    by (auto simp: expireIfNeeded_def split: option.split)
next
  case (OpRelax io d tool)
  obtain n db1 where b: "bumpRelaxedCounter (rx_dbNow io) db = (n, db1)" by fastforce
  with bump_bounded [OF assms(2), of "rx_dbNow io"] have "mode_bounded config db1" by simp
  with OpRelax b assms(2) applyRestrictive_bounded [of Supervised 0 config] show ?thesis
    by (auto simp: relax_def Let_def)
qed

text \<open>C10: no relaxed mode lasts forever: after any sequence of requests, approvals, expiry jobs and relaxed
  actions, the effective mode is supervised once the configured maximum has passed since the last change.\<close>

theorem every_relaxed_mode_expires:
  assumes "limits_ok config" "mode_bounded config db"
    and "fold (run_mode_op sha isUuid config) ops db = db'" "autonomy_mode_state db' = Some row"
    and "am_changedAt row + max (l_maxHours (ac_semiAuto config)) (l_maxHours (ac_auto config)) * 3600000 \<le> t"
  shows "mode_at t db' = Supervised"
proof -
  have "mode_bounded config (fold (run_mode_op sha isUuid config) ops db)"
    using assms(2) by (induction ops arbitrary: db) (simp_all add: run_mode_op_bounded [OF assms(1)])
  then have "mode_bounded config db'" by (simp add: assms(3))
  with assms(4) obtain m where m: "parse_mode (am_mode row) = Some m"
    "m \<noteq> Supervised \<Longrightarrow> \<exists>e. am_expiresAt row = Some e \<and> e \<le> am_changedAt row + l_maxHours (limitsFor config m) * 3600000"
    by (auto simp: mode_bounded_def)
  have "l_maxHours (limitsFor config m) * 3600000 \<le>
      max (l_maxHours (ac_semiAuto config)) (l_maxHours (ac_auto config)) * 3600000"
    by (simp add: limitsFor_def)
  with m assms(4,5) show ?thesis
    by (cases "m = Supervised") (auto simp: mode_at_def split: option.split)
qed

section \<open>The emergency brake\<close>

text \<open>A run of calls of \<open>relax\<close>, counting the decisions it relaxed.\<close>

fun relax_all :: "(string \<Rightarrow> string) \<Rightarrow> AutonomyConfig \<Rightarrow> (relax_io \<times> HitlDecision \<times> ToolDefinition option) list
    \<Rightarrow> 's policy_db_scheme \<Rightarrow> nat \<times> 's policy_db_scheme" where
  "relax_all sha config [] db = (0, db)"
| "relax_all sha config ((io, d, tool) # calls) db =
     (case relax sha config io d tool db of (r, db1) \<Rightarrow>
        case relax_all sha config calls db1 of (n, db2) \<Rightarrow>
          ((if r \<noteq> Inr d then Suc n else n), db2))"

lemma relax_supervised:
  assumes "\<And>row. autonomy_mode_state db = Some row \<Longrightarrow> am_mode row = ''supervised''"
  shows "relax sha config io d tool db = (Inr d, db)"
proof -
  have "mode_at (rx_now io) db = Supervised"
    using assms by (auto simp: mode_at_def split: option.splits)
  then show ?thesis by (simp add: relax_def relaxDecision_def)
qed

lemma relax_all_supervised:
  assumes "\<And>row. autonomy_mode_state db = Some row \<Longrightarrow> am_mode row = ''supervised''"
  shows "relax_all sha config calls db = (0, db)"
  by (induction calls) (auto simp: relax_supervised [OF assms])

text \<open>What one call does to the counter.\<close>

lemma relax_step:
  assumes "autonomy_mode_state db = Some row" "rx_dbNow io \<le> am_windowStartedAt row + 3600000"
    and "relax sha config io d tool db = (r, db1)"
  shows "r = Inr d \<and> db1 = db \<or>
    r = Inr d \<and> (\<forall>row1. autonomy_mode_state db1 = Some row1 \<longrightarrow> am_mode row1 = ''supervised'') \<or>
    am_relaxedCount row + 1 \<le> ac_maxRelaxedActionsPerHour config \<and>
      autonomy_mode_state db1 = Some (row\<lparr>am_relaxedCount := am_relaxedCount row + 1\<rparr>)"
proof (cases rule: relaxDecision_cases [of d "mode_at (rx_now io) db" tool])
  case same
  with assms(3) show ?thesis by (simp add: relax_def)
next
  case relaxed
  let ?db = "db\<lparr>autonomy_mode_state := Some (row\<lparr>am_relaxedCount := am_relaxedCount row + 1\<rparr>)\<rparr>"
  have b: "bumpRelaxedCounter (rx_dbNow io) db = (am_relaxedCount row + 1, ?db)"
    using assms(1,2) by (simp add: bumpRelaxedCounter_def Let_def)
  show ?thesis
  proof (cases "am_relaxedCount row + 1 > ac_maxRelaxedActionsPerHour config")
    case True
    obtain x db2 where ar: "applyRestrictiveChange sha (rx_write io) Supervised ''system:circuit-breaker'' ''circuit-breaker'' 0 ?db = (Inr x, db2)"
      "autonomy_mode_state db2 = autonomy_mode_state (update_mode_row
        \<lparr>mc_mode = Supervised, mc_hours = 0, mc_setBy = ''system:circuit-breaker'', mc_reason = ''circuit-breaker'',
         mc_approvalRequestId = None, mc_auditBeforeApply = False\<rparr> (w_now (rx_write io)) ?db)"
      by (rule applyRestrictive_result)
    with assms(3) b relaxed(5) True have "r = Inr d" "db1 = db2" by (auto simp: relax_def Let_def)
    with ar(2) show ?thesis by (simp add: mode_row_update)
  next
    case False
    with assms(3) b relaxed(5) show ?thesis by (auto simp: relax_def Let_def)
  qed
qed


section \<open>The command\<close>

lemma js_lower_digit: "is_digit c \<Longrightarrow> js_lower_char c = c"
  by (simp add: js_lower_char_def is_digit_def)

lemma split_blank_word: "list_all (\<lambda>c. \<not> js_blank c) w \<Longrightarrow> split_blank acc (w @ rest) = split_blank (rev w @ acc) rest"
  by (induction w arbitrary: acc) simp_all

lemma js_trim_id:
  "s \<noteq> [] \<Longrightarrow> \<not> js_blank (hd s) \<Longrightarrow> \<not> js_blank (last s) \<Longrightarrow> js_trim s = s"
proof -
  assume a: "s \<noteq> []" "\<not> js_blank (hd s)" "\<not> js_blank (last s)"
  then have "dropWhile js_blank s = s" "dropWhile js_blank (rev s) = rev s"
    by (simp_all add: dropWhile_eq_self_iff hd_rev)
  then show ?thesis by (simp add: js_trim_def)
qed

lemma digit_not_prefix:
  assumes "is_digit x"
  shows "x \<noteq> CHR ''x''" "x \<noteq> CHR ''X''" "x \<noteq> CHR ''o''" "x \<noteq> CHR ''O''" "x \<noteq> CHR ''b''" "x \<noteq> CHR ''B''"
  using assms by (auto simp: is_digit_def)

lemma read_prefixed_digits: "list_all is_digit s \<Longrightarrow> read_prefixed s = None"
  using digit_not_prefix [of "hd (tl s)"] by (cases s; cases "tl s"; cases "tl (tl s)") (simp_all add: read_prefixed_def)

lemma read_decimal_digits:
  assumes "s \<noteq> []" "list_all is_digit s"
  shows "read_decimal s = Some (of_nat (read_nat s))"
proof -
  have whole: "takeWhile is_digit s = s" "dropWhile is_digit s = []"
    using assms(2) by (simp_all add: takeWhile_eq_all_conv dropWhile_eq_Nil_conv list_all_iff)
  show ?thesis using assms(1) by (simp add: read_decimal_def read_exponent_def Let_def whole)
qed

lemma js_Number_show_int: "0 \<le> h \<Longrightarrow> js_Number (show_int h) = Some (of_int h)"
proof -
  assume h: "0 \<le> h"
  let ?s = "show_int h"
  have d: "list_all is_digit ?s" "?s \<noteq> []" "read_nat ?s = nat h"
    using h show_nat_digits [of "nat h"] by (simp_all add: show_int_def list_all_iff)
  then have "hd ?s \<noteq> CHR ''-''" "hd ?s \<noteq> CHR ''+''" by (cases ?s; auto simp: is_digit_def)+
  with d h show ?thesis by (simp add: js_Number_def read_prefixed_digits read_decimal_digits)
qed

text \<open>The command a client prints for a mode and a number of hours is read back as exactly that change.\<close>

theorem mode_command_roundtrip:
  assumes "0 < h"
  shows "parseModeCommand (Some (mode_name m @ '' '' @ show_int h)) = CmdChange (AliasMode m) (Some h)"
proof -
  have name: "map js_lower_char (mode_name m) = mode_name m" "list_all (\<lambda>c. \<not> js_blank c) (mode_name m)"
    "mode_alias (mode_name m) = Some (AliasMode m)" "mode_name m \<noteq> []"
    by (cases m; simp add: js_lower_char_def js_blank_def Let_def mode_alias_def MODE_ALIASES_def)+
  have d: "list_all is_digit (show_int h)" "show_int h \<noteq> []"
    using assms show_nat_digits [of "nat h"] by (simp_all add: show_int_def list_all_iff)
  then have digits: "map js_lower_char (show_int h) = show_int h" "list_all (\<lambda>c. \<not> js_blank c) (show_int h)"
    by (auto simp: list_all_iff digit_not_blank js_lower_digit intro!: map_idI)
  let ?s = "mode_name m @ '' '' @ show_int h"
  have trim: "js_trim ?s = ?s"
    using name(2,4) digits(2) d(2) by (intro js_trim_id) (auto simp: list_all_iff)
  have blank: "js_blank (CHR '' '')" "js_lower_char (CHR '' '') = CHR '' ''"
    by (simp_all add: js_blank_def js_lower_char_def Let_def)
  have "split_blank [] (map js_lower_char ?s) = [mode_name m, show_int h]"
    using split_blank_word [OF name(2), of "[]" "'' '' @ show_int h"] split_blank_word [OF digits(2), of "[]" "[]"]
      name(1,4) digits(1) d(2) blank by simp
  with trim name(3) js_Number_show_int [of h] assms show ?thesis by (simp add: parseModeCommand_def)
qed

text \<open>A word that names an inherited object property is not answered with "invalid": the command's
  contract that every invalid input is \<open>invalid\<close> fails for it.\<close>

theorem inherited_name_not_invalid:
  assumes "w \<in> set inherited_names"
  shows "parseModeCommand (Some w) = CmdChange (AliasInherited w) None"
  using assms unfolding inherited_names_def by (auto; code_simp)

section \<open>Witnesses\<close>

definition sample_policy :: "autonomy_row option \<Rightarrow> policy_db" where
  "sample_policy row = \<lparr>audit_log = [], audit_next_id = 1, audit_chain_lock = None, pending_approvals = [],
     events = [], autonomy_mode_state = row, feature_flag_hitl_overrides = []\<rparr>"

definition sample_mode_row :: "string \<Rightarrow> timestamp \<Rightarrow> autonomy_row" where
  "sample_mode_row mode expiry = \<lparr>am_mode = mode, am_expiresAt = Some expiry, am_setBy = ''owner:dual-confirm'',
     am_approvalRequestId = None, am_changedAt = 0, am_relaxedCount = 0, am_windowStartedAt = 0\<rparr>"

definition sample_config :: AutonomyConfig where
  "sample_config = \<lparr>ac_semiAuto = \<lparr>l_defaultHours = 24, l_maxHours = 72\<rparr>,
     ac_auto = \<lparr>l_defaultHours = 4, l_maxHours = 24\<rparr>, ac_maxRelaxedActionsPerHour = 20\<rparr>"

definition sample_mode_io :: "timestamp \<Rightarrow> mode_io" where
  "sample_mode_io t = \<lparr>w_now = t, w_uuid = ''u'', w_audit = \<lparr>io_now = t, io_fault = None\<rparr>\<rparr>"

definition sample_request_io :: "timestamp \<Rightarrow> request_io" where
  "sample_request_io t = \<lparr>q_now = t, q_uuid = ''u'', q_write = sample_mode_io t, q_createdAt = t,
     q_audit = \<lparr>io_now = t, io_fault = None\<rparr>\<rparr>"

definition sample_relax_io :: "timestamp \<Rightarrow> relax_io" where
  "sample_relax_io t = \<lparr>rx_now = t, rx_dbNow = t, rx_write = sample_mode_io t\<rparr>"


theorem downgrade_outlives_approval_witness:
  "\<exists>db' :: policy_db. mode_at 7200000 (sample_policy (Some (sample_mode_row ''auto'' 3600000))) = Supervised \<and> mode_at 7200000 db' = SemiAuto"
proof -
  let ?db = "sample_policy (Some (sample_mode_row ''auto'' 3600000))"
  have m: "mode_at (q_now (sample_request_io 5)) ?db = AutoMode"
    and e: "as_expiresAt (getState (q_now (sample_request_io 5)) ?db) = Some 3600000"
    by (simp_all add: sample_request_io_def getState_def sample_policy_def sample_mode_row_def)
  obtain res db' where r: "requestModeChange sample_sha sample_config (sample_request_io 5) SemiAuto (Some 72)
      ''owner:api'' ?db = (res, db')"
    by fastforce
  have "7200000 < w_now (q_write (sample_request_io 5)) + clampHours (Some 72) (ac_semiAuto sample_config) * 60 * 60 * 1000"
    by (simp add: sample_request_io_def sample_mode_io_def clampHours_def sample_config_def)
  from downgrade_outlives_approval [OF m r e _ this] show ?thesis by auto
qed

theorem approved_change_audited_first_witness:
  "\<exists>row (db' :: policy_db). audit_log db' = audit_log (sample_policy None) @ [row] \<and> a_actor row = ''owner:dual-confirm''"
proof -
  let ?p = "Some (JObj [(''mode'', JStr ''auto''), (''hours'', JNum 2), (''approvalRequestId'', JStr ''r1'')])"
  obtain res db' where r: "applyApprovedChange sample_sha (\<lambda>_. True) sample_config (sample_mode_io 5) ?p None
      (sample_policy None) = (res, db')" by fastforce
  have "\<exists>x. res = Inr x"
    using r by (auto simp: applyApprovedChange_def parse_approved_change_def writeState_def Let_def audit_mode_change_def
        recordToolCall_def appendRow_def isLocked_def sample_policy_def sample_mode_io_def)
  then obtain x where x: "res = Inr x" by blast
  have mx: "1 \<le> l_maxHours (ac_semiAuto sample_config)" "1 \<le> l_maxHours (ac_auto sample_config)"
    by (simp_all add: sample_config_def)
  from approved_change_audited_first [OF r mx] x
  have "\<exists>row. audit_log db' = audit_log (sample_policy None) @ [row] \<and> a_actor row = ''owner:dual-confirm''"
    by auto
  then show ?thesis by blast
qed

theorem expiry_job_is_invisible_witness:
  "mode_at 10 (snd (expireIfNeeded sample_sha (sample_mode_io 9) 9 (sample_policy (Some (sample_mode_row ''auto'' 8)))))
     = mode_at 10 (sample_policy (Some (sample_mode_row ''auto'' 8)))"
  by (rule expiry_job_is_invisible [of 9 10, THEN conjunct1]) simp

theorem every_relaxed_mode_expires_witness:
  "mode_at 259200000 (sample_policy (Some (sample_mode_row ''auto'' 86400000))) = Supervised"
proof -
  have "limits_ok sample_config" "mode_bounded sample_config (sample_policy (Some (sample_mode_row ''auto'' 86400000)))"
    by (simp_all add: limits_ok_def sample_config_def mode_bounded_def sample_policy_def sample_mode_row_def limitsFor_def)
  from every_relaxed_mode_expires [OF this, of sample_sha "\<lambda>_. True" "[]"] show ?thesis
    by (simp add: sample_policy_def sample_mode_row_def sample_config_def)
qed


theorem mode_command_roundtrip_witness:
  "parseModeCommand (Some (mode_name SemiAuto @ '' '' @ show_int 24)) = CmdChange (AliasMode SemiAuto) (Some 24)"
  using mode_command_roundtrip [of 24 SemiAuto] by simp

theorem inherited_name_not_invalid_witness:
  "parseModeCommand (Some ''constructor'') = CmdChange (AliasInherited ''constructor'') None"
  using inherited_name_not_invalid [of "''constructor''"] by (simp add: inherited_names_def)

end
