(* ===== verification/Feature_Flags.thy ===== *)
theory Feature_Flags
  imports Autonomy
begin

text \<open>
  Hot feature flags (\<open>src/feature-flags/feature-flags.service.ts\<close>) and the single gate through which
  every tool call gets its effective level (\<open>src/hitl-policy/hitl-policy.service.ts\<close>).

  The parsed YAML file is a value of \<open>FeatureFlagsConfig\<close>; reading and validating the file is the
  argument of \<open>reload\<close> (an error there leaves everything as it was). The keys of \<open>hitlOverrides\<close> are
  distinct, being the keys of an object. The text a database driver makes of a value that is not a
  string is the argument \<open>columnText\<close>.
\<close>

section \<open>Configuration\<close>

record FeatureFlagsConfig =
  ff_integrations :: "IntegrationName \<Rightarrow> bool"
  ff_modelRouting :: "(string \<times> string option) list"
  ff_hitlOverrides :: "(string \<times> HitlLevel) list"

fun level_name :: "HitlLevel \<Rightarrow> string" where
  "level_name Lauto = ''auto''"
| "level_name Lnotify = ''notify''"
| "level_name Lconfirm = ''confirm''"
| "level_name Ldual_confirm = ''dual-confirm''"

lemma level_name_inj [simp]: "level_name a = level_name b \<longleftrightarrow> a = b"
  by (cases a; cases b) simp_all

definition isIntegrationEnabled :: "FeatureFlagsConfig \<Rightarrow> IntegrationName option \<Rightarrow> bool" where
  "isIntegrationEnabled config integration =
     (case integration of None \<Rightarrow> True | Some i \<Rightarrow> ff_integrations config i)"

definition getModelOverride :: "FeatureFlagsConfig \<Rightarrow> string \<Rightarrow> string option" where
  "getModelOverride config taskProfile =
     (case map_of (ff_modelRouting config) taskProfile of None \<Rightarrow> None | Some primary \<Rightarrow> primary)"

section \<open>The overrides table\<close>

definition FEATURE_FLAG_HITL_OVERRIDE_TOOL_NAME :: string where
  "FEATURE_FLAG_HITL_OVERRIDE_TOOL_NAME = ''featureFlagHitlOverride''"

definition SYSTEM_APPROVER :: string where
  "SYSTEM_APPROVER = ''system:configmap-reload''"

definition override_of :: "string \<Rightarrow> 's policy_db_scheme \<Rightarrow> override_row option" where
  "override_of toolName db = lookup_row fo_toolName (feature_flag_hitl_overrides db) toolName"

text \<open>\<open>INSERT \<dots> ON CONFLICT (tool_name) DO UPDATE\<close>: the fresh row takes the column's default
  \<open>approved_at\<close>, an existing one the clock of the process.\<close>

definition upsert_override :: "timestamp \<Rightarrow> timestamp \<Rightarrow> string \<Rightarrow> string \<Rightarrow> string \<Rightarrow> 's policy_db_scheme
    \<Rightarrow> 's policy_db_scheme" where
  "upsert_override dbNow now toolName level approver db = db\<lparr>feature_flag_hitl_overrides :=
     (if override_of toolName db = None
      then feature_flag_hitl_overrides db @ [\<lparr>fo_toolName = toolName, fo_level = level, fo_approvedAt = dbNow,
             fo_approver = approver\<rparr>]
      else update_rows (\<lambda>r. fo_toolName r = toolName)
             (\<lambda>r. r\<lparr>fo_level := level, fo_approver := approver, fo_approvedAt := now\<rparr>)
             (feature_flag_hitl_overrides db))\<rparr>"

section \<open>Reconciling the file with the table\<close>

record flag_io =
  fi_uuid :: uuid
  fi_dbNow :: timestamp
  fi_now :: timestamp
  fi_audit :: audit_io

definition override_payload :: "string \<Rightarrow> HitlLevel \<Rightarrow> json" where
  "override_payload toolName level = JObj [(''targetTool'', JStr toolName), (''newLevel'', JStr (level_name level))]"

definition computeInputsHash :: "(string \<Rightarrow> string) \<Rightarrow> json option \<Rightarrow> string" where
  "computeInputsHash sha data =
     sha (stringify (case data of Some JNull \<Rightarrow> JObj [] | Some v \<Rightarrow> v | None \<Rightarrow> JObj []))"

definition override_plan :: "string \<Rightarrow> HitlLevel \<Rightarrow> string" where
  "override_plan toolName level = ''Bajar hitlLevel de '' @ [CHR 0x22] @ toolName @ [CHR 0x22] @ '' a '' @ [CHR 0x22]
     @ level_name level @ [CHR 0x22] @ '' v'' @ [CHR 0xED] @ ''a feature flag (config/feature-flags.yaml).''"

definition reconcileHitlOverride :: "(string \<Rightarrow> string) \<Rightarrow> flag_io \<Rightarrow> string \<Rightarrow> HitlLevel \<Rightarrow> 's policy_db_scheme
    \<Rightarrow> (jin_error + unit) \<times> 's policy_db_scheme" where
  "reconcileHitlOverride sha io toolName declaredLevel db =
     (case getToolDefinition toolName of
        None \<Rightarrow> (Inr (), db)
      | Some tool \<Rightarrow>
          if map_option fo_level (override_of toolName db) = Some (level_name declaredLevel) then (Inr (), db)
          else if hitlLevelOrdinal declaredLevel \<ge> hitlLevelOrdinal (t_hitlLevel tool)
          then (Inr (), upsert_override (fi_dbNow io) (fi_now io) toolName (level_name declaredLevel) SYSTEM_APPROVER db)
          else let payload = override_payload toolName declaredLevel
            in createPendingApproval sha (fi_dbNow io) (fi_audit io)
                 \<lparr>c_requestId = fi_uuid io, c_toolName = FEATURE_FLAG_HITL_OVERRIDE_TOOL_NAME,
                  c_level = ''dual-confirm'', c_inputsHash = computeInputsHash sha (Some payload),
                  c_planSummary = Some (override_plan toolName declaredLevel), c_payload = Some payload,
                  c_actor = Some ''system:feature-flags'', c_externalInputsSummary = None\<rparr> db)"

text \<open>The loop over the entries stops at the first that throws; \<open>io\<close> gives what each entry meets.\<close>

fun reconcile_all :: "(string \<Rightarrow> string) \<Rightarrow> (string \<Rightarrow> flag_io) \<Rightarrow> (string \<times> HitlLevel) list \<Rightarrow> 's policy_db_scheme
    \<Rightarrow> (jin_error + unit) \<times> 's policy_db_scheme" where
  "reconcile_all sha io [] db = (Inr (), db)"
| "reconcile_all sha io ((toolName, level) # entries) db =
     bind_result (reconcileHitlOverride sha (io toolName) toolName level db) (\<lambda>_. reconcile_all sha io entries)"

definition reload :: "(string \<Rightarrow> string) \<Rightarrow> (string \<Rightarrow> flag_io) \<Rightarrow> jin_error + FeatureFlagsConfig
    \<Rightarrow> FeatureFlagsConfig \<times> 's policy_db_scheme
    \<Rightarrow> (jin_error + unit) \<times> (FeatureFlagsConfig \<times> 's policy_db_scheme)" where
  "reload sha io loaded st =
     (case loaded of
        Inl e \<Rightarrow> (Inl e, st)
      | Inr nextConfig \<Rightarrow>
          (case reconcile_all sha io (ff_hitlOverrides nextConfig) (snd st) of
             (Inl e, db) \<Rightarrow> (Inl e, (fst st, db))
           | (Inr _, db) \<Rightarrow> (Inr (), (nextConfig, db))))"

section \<open>An approved override\<close>

text \<open>The executor of the approved request. Its payload is cast, not validated: a missing or null
  field violates the column's \<open>NOT NULL\<close>.\<close>

definition column_value :: "(json \<Rightarrow> string) \<Rightarrow> json option \<Rightarrow> string option" where
  "column_value columnText v = (case v of None \<Rightarrow> None | Some JNull \<Rightarrow> None | Some (JStr s) \<Rightarrow> Some s
     | Some j \<Rightarrow> Some (columnText j))"

definition applyApprovedOverride :: "(json \<Rightarrow> string) \<Rightarrow> timestamp \<Rightarrow> timestamp \<Rightarrow> 's policy_db_scheme executor" where
  "applyApprovedOverride columnText dbNow now payload rid db =
     (if payload = None \<or> payload = Some JNull then (Inl (OtherError ''TypeError''), db)
      else (case (column_value columnText (json_field ''targetTool'' payload),
                  column_value columnText (json_field ''newLevel'' payload)) of
         (Some toolName, Some level) \<Rightarrow>
           (Inr (JObj [(''ok'', JBool True)]),
            upsert_override dbNow now toolName level ''owner:dual-confirm'' db)
       | _ \<Rightarrow> (Inl (OtherError ''not_null_violation''), db)))"

section \<open>The effective level\<close>

definition resolveEffectiveLevel :: "FeatureFlagsConfig \<Rightarrow> HitlDecision \<Rightarrow> 's policy_db_scheme \<Rightarrow> HitlDecision" where
  "resolveEffectiveLevel config baseline db =
     (case map_of (ff_hitlOverrides config) (d_toolName baseline) of
        None \<Rightarrow> baseline
      | Some declared \<Rightarrow>
          (case override_of (d_toolName baseline) db of
             None \<Rightarrow> baseline
           | Some row \<Rightarrow>
               if fo_level row \<noteq> level_name declared then baseline
               else baseline\<lparr>d_level := declared, d_approvalsRequired := (if declared = Ldual_confirm then 2
                      else if declared = Lconfirm then 1 else 0),
                      d_notifyAfterExecution := (declared = Lnotify)\<rparr>))"

text \<open>\<open>HitlPolicyService.decide\<close>: the static level, then the overrides, then the autonomy mode.\<close>

definition decide :: "(string \<Rightarrow> string) \<Rightarrow> AutonomyConfig \<Rightarrow> FeatureFlagsConfig \<Rightarrow> uuid \<Rightarrow> relax_io
    \<Rightarrow> string \<Rightarrow> json option \<Rightarrow> 's policy_db_scheme \<Rightarrow> (jin_error + HitlDecision) \<times> 's policy_db_scheme" where
  "decide sha modes flags rid io toolName inputs db =
     (case classifyToolCall rid toolName inputs of
        Inl e \<Rightarrow> (Inl e, db)
      | Inr staticDecision \<Rightarrow>
          (let flagged = resolveEffectiveLevel flags staticDecision db in
           if d_level flagged \<noteq> d_level staticDecision then (Inr flagged, db)
           else relax sha modes io flagged (getToolDefinition toolName) db))"

section \<open>Frames\<close>

lemma upsert_override_of:
  "override_of k (upsert_override dbNow now n level who db) =
     (if k = n then Some (case override_of n db of
          None \<Rightarrow> \<lparr>fo_toolName = n, fo_level = level, fo_approvedAt = dbNow, fo_approver = who\<rparr>
        | Some r \<Rightarrow> r\<lparr>fo_level := level, fo_approver := who, fo_approvedAt := now\<rparr>)
      else override_of k db)"
proof -
  have app: "lookup_row fo_toolName (rows @ [r]) k = (case lookup_row fo_toolName rows k of Some x \<Rightarrow> Some x
      | None \<Rightarrow> if fo_toolName r = k then Some r else None)" for rows :: "override_row list" and r k
    by (induction rows) (auto split: option.split)
  show ?thesis
    by (auto simp: override_of_def upsert_override_def app lookup_row_update_rows split: option.split
        dest: lookup_row_SomeD simp del: lookup_row_None_iff)
qed

lemma upsert_frame [simp]:
  "autonomy_mode_state (upsert_override dbNow now n level who db) = autonomy_mode_state db"
  "pending_approvals (upsert_override dbNow now n level who db) = pending_approvals db"
  "audit_log (upsert_override dbNow now n level who db) = audit_log db"
  by (simp_all add: upsert_override_def)

lemma override_frame:
  "feature_flag_hitl_overrides db' = feature_flag_hitl_overrides db \<Longrightarrow> override_of n db' = override_of n db"
  by (simp add: override_of_def)

lemma createPending_overrides [simp]:
  "feature_flag_hitl_overrides (snd (createPendingApproval sha now io i db)) = feature_flag_hitl_overrides db"
  by (auto simp: createPendingApproval_def Let_def recordToolCall_def appendRow_def emit_def split: option.split prod.split)

lemma createPending_pending:
  assumes "createPendingApproval sha now io i db = (res, db')"
  shows "set (pending_approvals db) \<subseteq> set (pending_approvals db')"
    "res = Inr () \<Longrightarrow> new_row i now \<in> set (pending_approvals db')"
  using assms
  by (auto simp: createPendingApproval_def Let_def recordToolCall_def appendRow_def emit_def insertRow_def
      split: option.splits prod.splits if_splits)

lemma emit_overrides [simp]: "feature_flag_hitl_overrides (emit e db) = feature_flag_hitl_overrides db"
  by (simp add: emit_def)

lemma audit_mode_change_overrides [simp]:
  "feature_flag_hitl_overrides (snd (audit_mode_change sha io input previous db)) = feature_flag_hitl_overrides db"
  by (simp add: audit_mode_change_def recordToolCall_def)

lemma writeState_overrides [simp]:
  "feature_flag_hitl_overrides (snd (writeState sha io input db)) = feature_flag_hitl_overrides db"
proof -
  obtain r db1 where a: "audit_mode_change sha io input (mode_at (w_now io) db) db = (r, db1)" by fastforce
  have "feature_flag_hitl_overrides db1 = feature_flag_hitl_overrides db"
    using audit_mode_change_overrides [of sha io input "mode_at (w_now io) db" db] a by simp
  then show ?thesis
    by (auto simp: writeState_def Let_def a update_mode_row_def split: sum.split)
qed

lemma relax_overrides [simp]:
  "feature_flag_hitl_overrides (snd (relax sha config io d tool db)) = feature_flag_hitl_overrides db"
  by (auto simp: relax_def Let_def bumpRelaxedCounter_def applyRestrictiveChange_def split: option.split prod.split)

lemma decide_overrides [simp]:
  "feature_flag_hitl_overrides (snd (decide sha modes flags rid io n inputs db)) = feature_flag_hitl_overrides db"
  by (auto simp: decide_def Let_def split: sum.split)

section \<open>Lowering a level waits for the owner\<close>

definition override_request :: "(string \<Rightarrow> string) \<Rightarrow> flag_io \<Rightarrow> string \<Rightarrow> HitlLevel \<Rightarrow> CreatePendingApprovalInput" where
  "override_request sha io n level =
     \<lparr>c_requestId = fi_uuid io, c_toolName = FEATURE_FLAG_HITL_OVERRIDE_TOOL_NAME, c_level = ''dual-confirm'',
      c_inputsHash = computeInputsHash sha (Some (override_payload n level)),
      c_planSummary = Some (override_plan n level), c_payload = Some (override_payload n level),
      c_actor = Some ''system:feature-flags'', c_externalInputsSummary = None\<rparr>"

lemma reconcile_cases:
  assumes "reconcileHitlOverride sha io n level db = (res, db')"
  obtains (unknown) "getToolDefinition n = None" "res = Inr ()" "db' = db"
  | (inForce) t where "getToolDefinition n = Some t" "map_option fo_level (override_of n db) = Some (level_name level)"
      "res = Inr ()" "db' = db"
  | (raised) t where "getToolDefinition n = Some t" "t_hitlLevel t \<le> level" "res = Inr ()"
      "db' = upsert_override (fi_dbNow io) (fi_now io) n (level_name level) SYSTEM_APPROVER db"
  | (asked) t i where "getToolDefinition n = Some t" "level < t_hitlLevel t"
      "createPendingApproval sha (fi_dbNow io) (fi_audit io) i db = (res, db')"
      "c_toolName i = FEATURE_FLAG_HITL_OVERRIDE_TOOL_NAME" "c_level i = ''dual-confirm''"
      "c_payload i = Some (override_payload n level)"
proof (cases "getToolDefinition n")
  case None
  with assms show thesis by (intro unknown) (simp_all add: reconcileHitlOverride_def)
next
  case (Some t)
  show thesis
  proof (cases "map_option fo_level (override_of n db) = Some (level_name level)")
    case True
    with assms Some show thesis by (intro inForce) (simp_all add: reconcileHitlOverride_def)
  next
    case False
    then have r: "(res, db') = (if t_hitlLevel t \<le> level
        then (Inr (), upsert_override (fi_dbNow io) (fi_now io) n (level_name level) SYSTEM_APPROVER db)
        else createPendingApproval sha (fi_dbNow io) (fi_audit io) (override_request sha io n level) db)"
      using assms Some by (simp add: reconcileHitlOverride_def HitlLevel_le_iff override_request_def Let_def split: if_splits del: map_option_eq_Some)
    show thesis
    proof (cases "t_hitlLevel t \<le> level")
      case True
      with r Some show thesis by (intro raised) simp_all
    next
      case False
      with r have "createPendingApproval sha (fi_dbNow io) (fi_audit io) (override_request sha io n level) db = (res, db')"
        by simp
      from asked [OF Some _ this] False show thesis by (simp add: override_request_def)
    qed
  qed
qed

text \<open>A row below the static level is never the work of a reload.\<close>

lemma reconcile_low_row:
  assumes "reconcileHitlOverride sha io n level db = (res, db')" "override_of k db' = Some row"
    and "getToolDefinition k = Some t" "fo_level row = level_name l" "l < t_hitlLevel t"
  shows "override_of k db = Some row"
  using assms(1)
proof (cases rule: reconcile_cases)
  case (raised t')
  with assms show ?thesis by (auto simp: upsert_override_of split: if_splits option.splits)
next
  case (asked t' i)
  have "override_of k db' = override_of k db"
    by (rule override_frame) (use asked(3) createPending_overrides [of sha "fi_dbNow io" "fi_audit io" i db] in simp)
  with assms(2) show ?thesis by simp
qed (use assms(2) in simp_all)

lemma reconcile_all_low_row:
  assumes "reconcile_all sha io entries db = (res, db')" "override_of k db' = Some row"
    and "getToolDefinition k = Some t" "fo_level row = level_name l" "l < t_hitlLevel t"
  shows "override_of k db = Some row"
  using assms(1)
proof (induction entries arbitrary: db)
  case Nil
  with assms(2) show ?case by simp
next
  case (Cons e entries)
  obtain n level where e: "e = (n, level)" by (cases e)
  obtain r db1 where r: "reconcileHitlOverride sha (io n) n level db = (r, db1)" by fastforce
  have "override_of k db1 = Some row"
    using Cons.prems Cons.IH [of db1] r e assms(2) by (cases r) auto
  with reconcile_low_row [OF r _ assms(3-5)] show ?case by simp
qed

lemma reconcile_all_pending: "set (pending_approvals db) \<subseteq> set (pending_approvals (snd (reconcile_all sha io entries db)))"
proof (induction entries arbitrary: db)
  case (Cons e entries)
  obtain n level where e: "e = (n, level)" by (cases e)
  obtain r db1 where r: "reconcileHitlOverride sha (io n) n level db = (r, db1)" by fastforce
  then have "set (pending_approvals db) \<subseteq> set (pending_approvals db1)"
    by (cases rule: reconcile_cases) (auto dest: createPending_pending(1))
  with Cons.IH [of db1] r e show ?case by (cases r) auto
qed simp

text \<open>What the overrides of the file lead to: a row that says the same, or a pending dual confirmation.\<close>

definition asked_for :: "string \<Rightarrow> HitlLevel \<Rightarrow> 's policy_db_scheme \<Rightarrow> bool" where
  "asked_for n level db \<longleftrightarrow> (\<exists>p \<in> set (pending_approvals db). p_toolName p = FEATURE_FLAG_HITL_OVERRIDE_TOOL_NAME \<and>
     p_level p = ''dual-confirm'' \<and> p_payload p = Some (override_payload n level))"

lemma reconcile_other:
  assumes "reconcileHitlOverride sha io n level db = (res, db')" "k \<noteq> n"
  shows "override_of k db' = override_of k db"
  using assms(1)
proof (cases rule: reconcile_cases)
  case (asked t i)
  show ?thesis
    by (rule override_frame) (use asked(3) createPending_overrides [of sha "fi_dbNow io" "fi_audit io" i db] in simp)
qed (use assms(2) in \<open>simp_all add: upsert_override_of\<close>)

lemma reconcile_all_other:
  assumes "k \<notin> fst ` set entries"
  shows "override_of k (snd (reconcile_all sha io entries db)) = override_of k db"
  using assms
proof (induction entries arbitrary: db)
  case (Cons e entries)
  obtain n level where e: "e = (n, level)" by (cases e)
  obtain r db1 where r: "reconcileHitlOverride sha (io n) n level db = (r, db1)" by fastforce
  with Cons e reconcile_other [OF r, of k] show ?case by (cases r) auto
qed simp

lemma reconcile_settles:
  assumes "reconcileHitlOverride sha io n level db = (Inr (), db')" "getToolDefinition n = Some t"
  shows "map_option fo_level (override_of n db') = Some (level_name level) \<or> level < t_hitlLevel t \<and> asked_for n level db'"
  using assms(1)
proof (cases rule: reconcile_cases)
  case (raised t')
  then show ?thesis by (simp add: upsert_override_of split: option.split)
next
  case (asked t' i)
  with createPending_pending(2) [OF asked(3)] assms(2) show ?thesis
    by (auto simp: asked_for_def new_row_def intro!: bexI [of _ "new_row i (fi_dbNow io)"])
qed (use assms(2) in simp_all)

lemma asked_for_mono: "asked_for n l db \<Longrightarrow> set (pending_approvals db) \<subseteq> set (pending_approvals db') \<Longrightarrow> asked_for n l db'"
  by (auto simp: asked_for_def)

lemma reconcile_all_settles:
  assumes "reconcile_all sha io entries db = (Inr (), db')" "distinct (map fst entries)" "(n, level) \<in> set entries"
    and "getToolDefinition n = Some t"
  shows "map_option fo_level (override_of n db') = Some (level_name level) \<or> level < t_hitlLevel t \<and> asked_for n level db'"
  using assms(1-3)
proof (induction entries arbitrary: db)
  case (Cons e entries)
  obtain m l where e: "e = (m, l)" by (cases e)
  obtain r db1 where r: "reconcileHitlOverride sha (io m) m l db = (r, db1)" by fastforce
  with Cons.prems(1) e have all: "reconcile_all sha io entries db1 = (Inr (), db')" and ok: "r = Inr ()"
    by (cases r; simp)+
  show ?case
  proof (cases "m = n")
    case True
    with Cons.prems e have l: "l = level" and out: "n \<notin> fst ` set entries" by force+
    from reconcile_settles [OF r [unfolded ok True l] assms(4)] reconcile_all_other [OF out, of sha io db1]
      asked_for_mono [OF _ reconcile_all_pending [of db1 sha io entries]] all
    show ?thesis by auto
  next
    case False
    with Cons.prems e Cons.IH [OF all] show ?thesis by auto
  qed
qed simp


lemma resolve_cases_level:
  obtains (baseline) "resolveEffectiveLevel config d db = d"
  | (override) l row where "map_of (ff_hitlOverrides config) (d_toolName d) = Some l"
      "override_of (d_toolName d) db = Some row" "fo_level row = level_name l"
      "resolveEffectiveLevel config d db = d\<lparr>d_level := l, d_approvalsRequired := approvalsRequiredFor l,
         d_notifyAfterExecution := (l = Lnotify)\<rparr>"
proof (cases "map_of (ff_hitlOverrides config) (d_toolName d)")
  case None
  then show thesis by (intro baseline) (simp add: resolveEffectiveLevel_def)
next
  case (Some l)
  note declared = this
  show thesis
  proof (cases "override_of (d_toolName d) db")
    case None
    with declared show thesis by (intro baseline) (simp add: resolveEffectiveLevel_def)
  next
    case (Some row)
    show thesis
    proof (cases "fo_level row = level_name l")
      case True
      from override [OF declared Some True] True show thesis
        by (cases l) (simp_all add: resolveEffectiveLevel_def declared Some)
    next
      case False
      with declared Some show thesis by (intro baseline) (simp add: resolveEffectiveLevel_def)
    qed
  qed
qed

lemma reload_low_rows:
  assumes "reload sha io loaded (config, db) = (res, (config', db'))" "classifyToolCall rid n inputs = Inr d"
    and "getToolDefinition n = Some t"
  shows "d_level (resolveEffectiveLevel config' d db') < t_hitlLevel t \<Longrightarrow>
      \<exists>row. override_of n db = Some row \<and> override_of n db' = Some row \<and>
        fo_level row = level_name (d_level (resolveEffectiveLevel config' d db'))"
    and "res = Inr () \<Longrightarrow> distinct (map fst (ff_hitlOverrides config')) \<Longrightarrow> (n, l) \<in> set (ff_hitlOverrides config') \<Longrightarrow>
      l < t_hitlLevel t \<Longrightarrow> (\<exists>row. override_of n db = Some row \<and> fo_level row = level_name l) \<or> asked_for n l db'"
proof -
  have d: "d_toolName d = n" "d_level d = t_hitlLevel t"
    using assms(2,3) by (auto elim!: classifyToolCall_InrE)
  consider (failed) e where "loaded = Inl e" "config' = config" "db' = db" "res = Inl e"
    | (loaded) c r where "loaded = Inr c" "reconcile_all sha io (ff_hitlOverrides c) db = (r, db')" "res = r"
        "r = Inr () \<Longrightarrow> config' = c"
    using assms(1) by (auto simp: reload_def split: sum.splits prod.splits)
  note outcome = this
  have low: "override_of n db = Some row"
    if "override_of n db' = Some row" "fo_level row = level_name k" "k < t_hitlLevel t" for row k
    using outcome
  proof cases
    case failed
    with that show ?thesis by simp
  next
    case (loaded c r)
    from reconcile_all_low_row [OF loaded(2) that(1) assms(3) that(2,3)] show ?thesis .
  qed
  show "\<exists>row. override_of n db = Some row \<and> override_of n db' = Some row \<and>
      fo_level row = level_name (d_level (resolveEffectiveLevel config' d db'))"
    if "d_level (resolveEffectiveLevel config' d db') < t_hitlLevel t"
  proof (cases rule: resolve_cases_level [of config' d db'])
    case baseline
    with that d show ?thesis by simp
  next
    case (override l row)
    with that d low [of row l] show ?thesis by simp
  qed
  show "(\<exists>row. override_of n db = Some row \<and> fo_level row = level_name l) \<or> asked_for n l db'"
    if "res = Inr ()" "distinct (map fst (ff_hitlOverrides config'))" "(n, l) \<in> set (ff_hitlOverrides config')"
      "l < t_hitlLevel t"
    using outcome
  proof cases
    case failed
    with that(1) show ?thesis by simp
  next
    case (loaded c r)
    with that(1) have "reconcile_all sha io (ff_hitlOverrides config') db = (Inr (), db')" by simp
    from reconcile_all_settles [OF this that(2,3) assms(3)] low that(4) show ?thesis by auto
  qed
qed

text \<open>Reloading the flags never lowers a protection by itself. A tool whose effective level after the
  reload is below its static level owes it to a row that was in the table before the reload and says
  exactly that level (only the executor of an approved request writes such a row). And after a reload
  that ends normally every lowering the file declares is either in force by such a row or waits as a
  dual-confirm request that carries it.\<close>

theorem reload_never_lowers:
  assumes "reload sha io loaded (config, db) = (res, (config', db'))" "classifyToolCall rid n inputs = Inr d"
    and "getToolDefinition n = Some t"
  shows "(d_level (resolveEffectiveLevel config' d db') < t_hitlLevel t \<longrightarrow>
      (\<exists>row. override_of n db = Some row \<and> override_of n db' = Some row \<and>
        fo_level row = level_name (d_level (resolveEffectiveLevel config' d db')))) \<and>
    (res = Inr () \<and> distinct (map fst (ff_hitlOverrides config')) \<longrightarrow>
      (\<forall>(m, l) \<in> set (ff_hitlOverrides config'). m = n \<and> l < t_hitlLevel t \<longrightarrow>
        (\<exists>row. override_of n db = Some row \<and> fo_level row = level_name l) \<or> asked_for n l db'))"
  using reload_low_rows [OF assms] by blast

section \<open>The gate\<close>

lemma relax_cases:
  assumes "relax sha config io d tool db = (Inr d', db')"
  obtains (same) "d' = d"
  | (relaxed) "mode_at (rx_now io) db \<noteq> Supervised" "d_level d = Lconfirm" "\<And>t. tool = Some t \<Longrightarrow> \<not> t_humanDecision t"
      "\<And>t. tool = Some t \<Longrightarrow> mode_at (rx_now io) db = SemiAuto \<Longrightarrow> \<not> t_guardedInSemiAuto t"
      "d_level d' = Lnotify" "d_relaxedBy d' = Some (''autonomy:'' @ mode_name (mode_at (rx_now io) db))"
      "fst (bumpRelaxedCounter (rx_dbNow io) db) \<le> ac_maxRelaxedActionsPerHour config"
proof (cases rule: relaxDecision_cases [of d "mode_at (rx_now io) db" tool])
  case same
  with assms show thesis by (intro that(1)) (simp add: relax_def)
next
  case relaxed
  obtain n db1 where b: "bumpRelaxedCounter (rx_dbNow io) db = (n, db1)" by fastforce
  show thesis
  proof (cases "n > ac_maxRelaxedActionsPerHour config")
    case True
    with assms relaxed b show thesis
      by (intro that(1)) (auto simp: relax_def bind_result_Inr_iff)
  next
    case False
    with assms relaxed b have d': "d' = fst (relaxDecision d (mode_at (rx_now io) db) tool)" by (simp add: relax_def)
    show thesis by (rule that(2)) (use relaxed b False d' in auto)
  qed
qed

lemma decide_level:
  assumes "decide sha modes flags rid io n inputs db = (Inr d, db')"
  shows "\<exists>t. getToolDefinition n = Some t \<and> (d_level d < t_hitlLevel t \<longrightarrow>
      map_of (ff_hitlOverrides flags) n = Some (d_level d) \<and>
        map_option fo_level (override_of n db) = Some (level_name (d_level d))
    \<or> t_hitlLevel t = Lconfirm \<and> d_level d = Lnotify \<and> \<not> t_humanDecision t \<and>
        mode_at (rx_now io) db \<noteq> Supervised \<and> (mode_at (rx_now io) db = SemiAuto \<longrightarrow> \<not> t_guardedInSemiAuto t) \<and>
        fst (bumpRelaxedCounter (rx_dbNow io) db) \<le> ac_maxRelaxedActionsPerHour modes \<and>
        d_relaxedBy d = Some (''autonomy:'' @ mode_name (mode_at (rx_now io) db)))"
proof -
  obtain s where s: "classifyToolCall rid n inputs = Inr s"
    using assms by (auto simp: decide_def split: sum.splits)
  then obtain t where t: "getToolDefinition n = Some t" "d_toolName s = n" "d_level s = t_hitlLevel t"
    by (auto elim!: classifyToolCall_InrE)
  let ?f = "resolveEffectiveLevel flags s db"
  show ?thesis
  proof (cases "d_level ?f = d_level s")
    case False
    then have "d = ?f" using assms s by (auto simp: decide_def Let_def)
    with False t show ?thesis by (cases rule: resolve_cases_level [of flags s db]) auto
  next
    case True
    then have r: "relax sha modes io ?f (Some t) db = (Inr d, db')" using assms s t by (simp add: decide_def)
    then show ?thesis
    proof (cases rule: relax_cases)
      case same
      with True t show ?thesis by auto
    next
      case relaxed
      with True t show ?thesis by auto
    qed
  qed
qed

text \<open>C13: the gate lets a call through with less protection than the registry gives its tool in only two
  cases. Either the owner's file declares exactly that level and the table holds it, or the tool asks
  for one approval, does not represent a human decision, the autonomy mode in force covers it, the
  brake has not been reached, and the decision names the mode. A tool the registry does not know is
  refused.\<close>

theorem gate_opens_only_by_owner:
  assumes "decide sha modes flags rid io n inputs db = (Inr d, db')"
  shows "\<exists>t. getToolDefinition n = Some t \<and> (d_level d < t_hitlLevel t \<longrightarrow>
      map_of (ff_hitlOverrides flags) n = Some (d_level d) \<and>
        map_option fo_level (override_of n db) = Some (level_name (d_level d))
    \<or> t_hitlLevel t = Lconfirm \<and> d_level d = Lnotify \<and> \<not> t_humanDecision t \<and>
        mode_at (rx_now io) db \<noteq> Supervised \<and> (mode_at (rx_now io) db = SemiAuto \<longrightarrow> \<not> t_guardedInSemiAuto t) \<and>
        fst (bumpRelaxedCounter (rx_dbNow io) db) \<le> ac_maxRelaxedActionsPerHour modes \<and>
        d_relaxedBy d = Some (''autonomy:'' @ mode_name (mode_at (rx_now io) db)))"
  using assms by (rule decide_level)

section \<open>Witnesses\<close>

definition sample_flags :: "(string \<times> HitlLevel) list \<Rightarrow> FeatureFlagsConfig" where
  "sample_flags overrides = \<lparr>ff_integrations = (\<lambda>_. True), ff_modelRouting = [], ff_hitlOverrides = overrides\<rparr>"

definition sample_flag_io :: "string \<Rightarrow> flag_io" where
  "sample_flag_io n = \<lparr>fi_uuid = ''u'', fi_dbNow = 7, fi_now = 7, fi_audit = \<lparr>io_now = 7, io_fault = None\<rparr>\<rparr>"

lemma sample_tool: "\<exists>t. getToolDefinition ''sendEmail'' = Some t \<and> t_hitlLevel t = Lconfirm \<and> t_name t = ''sendEmail''"
  by (simp add: getToolDefinition_def TOOL_REGISTRY_BY_NAME_def registry_defs)

theorem reload_never_lowers_witness:
  "\<exists>db'. reload sample_sha sample_flag_io (Inr (sample_flags [(''sendEmail'', Lnotify)])) (sample_flags [], sample_policy None)
      = (Inr (), (sample_flags [(''sendEmail'', Lnotify)], db')) \<and> asked_for ''sendEmail'' Lnotify db'"
proof -
  obtain t where t: "getToolDefinition ''sendEmail'' = Some t" "t_hitlLevel t = Lconfirm" "t_name t = ''sendEmail''"
    using sample_tool by blast
  have c: "classifyToolCall ''u'' ''sendEmail'' () = Inr \<lparr>d_requestId = ''u'', d_toolName = ''sendEmail'', d_level = Lconfirm,
      d_approvalsRequired = 1, d_notifyAfterExecution = False, d_relaxedBy = None\<rparr>"
    using t by (simp add: classifyToolCall_def)
  have "\<exists>db'. reload sample_sha sample_flag_io (Inr (sample_flags [(''sendEmail'', Lnotify)])) (sample_flags [], sample_policy None)
      = (Inr (), (sample_flags [(''sendEmail'', Lnotify)], db'))"
    using t by (simp add: reload_def sample_flags_def reconcileHitlOverride_def override_of_def sample_policy_def Let_def
        createPendingApproval_def getPending_def recordToolCall_def appendRow_def isLocked_def sample_flag_io_def)
  then obtain db' where r: "reload sample_sha sample_flag_io (Inr (sample_flags [(''sendEmail'', Lnotify)]))
      (sample_flags [], sample_policy None) = (Inr (), (sample_flags [(''sendEmail'', Lnotify)], db'))" by blast
  have "asked_for ''sendEmail'' Lnotify db'"
    using reload_never_lowers [OF r c t(1)] t(2)
    by (simp add: sample_flags_def override_of_def sample_policy_def HitlLevel_less_iff)
  with r show ?thesis by blast
qed

theorem gate_opens_only_by_owner_witness:
  "\<exists>d db'. decide sample_sha sample_config (sample_flags []) ''u'' (sample_relax_io 5) ''sendEmail'' None
      (sample_policy (Some (sample_mode_row ''auto'' 3600000))) = (Inr d, db') \<and> d_level d = Lnotify \<and>
    d_relaxedBy d = Some ''autonomy:auto''"
proof -
  let ?db = "sample_policy (Some (sample_mode_row ''auto'' 3600000))"
  have "\<exists>d db'. decide sample_sha sample_config (sample_flags []) ''u'' (sample_relax_io 5) ''sendEmail'' None ?db = (Inr d, db')
      \<and> d_level d = Lnotify"
    by (simp add: decide_def classifyToolCall_def getToolDefinition_def TOOL_REGISTRY_BY_NAME_def registry_defs
        resolveEffectiveLevel_def sample_flags_def relax_def relaxDecision_def getState_def sample_policy_def
        sample_mode_row_def sample_relax_io_def bumpRelaxedCounter_def Let_def sample_config_def)
  then obtain d db' where r: "decide sample_sha sample_config (sample_flags []) ''u'' (sample_relax_io 5) ''sendEmail'' None ?db
      = (Inr d, db')" "d_level d = Lnotify" by blast
  have "mode_at (rx_now (sample_relax_io 5)) ?db = AutoMode"
    by (simp add: sample_relax_io_def sample_policy_def sample_mode_row_def getState_def)
  with gate_opens_only_by_owner [OF r(1)] sample_tool r(2) have "d_relaxedBy d = Some ''autonomy:auto''"
    by (auto simp: sample_flags_def HitlLevel_less_iff)
  with r show ?thesis by blast
qed

end
