(* ===== verification/Model_Messages.thy ===== *)
theory Model_Messages
  imports Complex_Main Jin_Errors Js_Text
begin

text \<open>
  The vendor-independent messages exchanged with the models (\<open>src/model-provider/model-provider.types.ts\<close>),
  the token estimate (\<open>src/budget/cost.ts\<close>), the agent's plan (\<open>src/agent/agent.logic.ts\<close>) and the pure
  part of the compaction of a chat history (\<open>src/agent/history-compaction.logic.ts\<close>).

  The keys of a block are serialised in the order in which the code writes them.
\<close>

section \<open>Messages\<close>

datatype Role = RUser | RAssistant

record ModelToolCall =
  tc_id :: string
  tc_name :: string
  tc_input :: "json option"

datatype ModelMessageContentBlock =
    BText string
  | BToolUse ModelToolCall
  | BToolResult string json "bool option"

datatype MessageContent = CText string | CBlocks "ModelMessageContentBlock list"

record ModelMessage =
  m_role :: Role
  m_content :: MessageContent

datatype ModelStopReason = EndTurn | ToolUse | MaxTokens | Refusal

datatype ModelEffort = EffortLow | EffortMedium | EffortHigh

record ModelToolDeclaration =
  td_name :: string
  td_description :: string
  td_inputSchema :: json

record ModelCompletionRequest =
  rq_systemPrompt :: "string option"
  rq_messages :: "ModelMessage list"
  rq_maxOutputTokens :: int
  rq_temperature :: rat
  rq_tools :: "ModelToolDeclaration list option"
  rq_effort :: "ModelEffort option"

record ModelCompletionResponse =
  rs_content :: string
  rs_modelId :: string
  rs_inputTokens :: int
  rs_outputTokens :: int
  rs_toolCalls :: "ModelToolCall list option"
  rs_stopReason :: ModelStopReason

section \<open>Messages as text\<close>

fun optional_entry :: "string \<Rightarrow> json option \<Rightarrow> (string \<times> json) list" where
  "optional_entry k None = []"
| "optional_entry k (Some v) = [(k, v)]"

definition toolCall_json :: "ModelToolCall \<Rightarrow> json" where
  "toolCall_json c = JObj ([(''id'', JStr (tc_id c)), (''name'', JStr (tc_name c))] @ optional_entry ''input'' (tc_input c))"

fun block_json :: "ModelMessageContentBlock \<Rightarrow> json" where
  "block_json (BText t) = JObj [(''type'', JStr ''text''), (''text'', JStr t)]"
| "block_json (BToolUse c) = JObj [(''type'', JStr ''tool_use''), (''toolCall'', toolCall_json c)]"
| "block_json (BToolResult i out e) = JObj ([(''type'', JStr ''tool_result''), (''toolCallId'', JStr i), (''output'', out)]
     @ optional_entry ''isError'' (map_option JBool e))"

definition messageContentToText :: "ModelMessage \<Rightarrow> string" where
  "messageContentToText message =
     (case m_content message of CText t \<Rightarrow> t | CBlocks bs \<Rightarrow> stringify (JArr (map block_json bs)))"

definition CHARS_PER_TOKEN_ESTIMATE :: nat where
  "CHARS_PER_TOKEN_ESTIMATE = 4"

text \<open>\<open>Math.ceil(length / 4)\<close>\<close>

definition estimateTokens :: "string \<Rightarrow> int" where
  "estimateTokens t = int ((length t + (CHARS_PER_TOKEN_ESTIMATE - 1)) div CHARS_PER_TOKEN_ESTIMATE)"

lemma estimateTokens_nonneg [simp]: "0 \<le> estimateTokens t"
  by (simp add: estimateTokens_def)

lemma estimateTokens_ceil: "4 * estimateTokens t \<ge> int (length t) \<and> 4 * (estimateTokens t - 1) < int (length t)"
proof -
  have "length t \<le> 4 * ((length t + 3) div 4)" "4 * ((length t + 3) div 4) < length t + 4" by presburger+
  then show ?thesis by (simp add: estimateTokens_def CHARS_PER_TOKEN_ESTIMATE_def)
qed

definition estimateMessagesTokens :: "ModelMessage list \<Rightarrow> int" where
  "estimateMessagesTokens messages = foldl (\<lambda>sum message. sum + estimateTokens (messageContentToText message)) 0 messages"

section \<open>The agent's plan\<close>

datatype AgentStepStatus = StepPending | StepInProgress | StepDone | StepFailed

definition AGENT_STEP_STATUSES :: "(string \<times> AgentStepStatus) list" where
  "AGENT_STEP_STATUSES = [(''pending'', StepPending), (''in-progress'', StepInProgress), (''done'', StepDone),
     (''failed'', StepFailed)]"

record AgentStep =
  s_description :: string
  s_status :: AgentStepStatus
  s_note :: "string option"

type_synonym AgentPlan = "AgentStep list"

definition declarePlan :: "string list \<Rightarrow> AgentPlan" where
  "declarePlan steps = map (\<lambda>d. \<lparr>s_description = d, s_status = StepPending, s_note = None\<rparr>) steps"

definition updatePlanStep :: "AgentPlan \<Rightarrow> int \<Rightarrow> AgentStepStatus \<Rightarrow> string option \<Rightarrow> jin_error + AgentPlan" where
  "updatePlanStep plan stepIndex status note =
     (if stepIndex < 0 \<or> stepIndex \<ge> int (length plan)
      then Inl (AgentPlanStepOutOfBoundsError stepIndex (length plan))
      else Inr (map (\<lambda>(i, step). if int i = stepIndex
          then step\<lparr>s_status := status, s_note := (case note of Some n \<Rightarrow> Some n | None \<Rightarrow> s_note step)\<rparr>
          else step) (enumerate 0 plan)))"

lemma updatePlanStep_length: "updatePlanStep plan i st n = Inr plan' \<Longrightarrow> length plan' = length plan"
  by (auto simp: updatePlanStep_def split: if_splits)

lemma updatePlanStep_nth:
  assumes "updatePlanStep plan i st n = Inr plan'" "k < length plan"
  shows "s_description (plan' ! k) = s_description (plan ! k)"
    and "int k \<noteq> i \<Longrightarrow> plan' ! k = plan ! k" and "int k = i \<Longrightarrow> s_status (plan' ! k) = st"
  using assms by (auto simp: updatePlanStep_def nth_enumerate_eq split: if_splits)

definition buildToolCallKey :: "string \<Rightarrow> json option \<Rightarrow> string" where
  "buildToolCallKey toolName input =
     toolName @ '':'' @ stringify (case input of Some v \<Rightarrow> v | None \<Rightarrow> JNull)"

text \<open>\<open>JSON.stringify(undefined)\<close> is \<open>undefined\<close>.\<close>

fun stringifyToolResult :: "json option \<Rightarrow> string option" where
  "stringifyToolResult (Some (JStr s)) = Some s"
| "stringifyToolResult (Some v) = Some (stringify v)"
| "stringifyToolResult None = None"

section \<open>Compaction of the history\<close>

record HistoryCompactionConfig =
  hc_maxHistoryTokens :: int
  hc_preserveLastTurns :: nat

record HistoryCompactionPlan =
  toCompact :: "ModelMessage list"
  toPreserve :: "ModelMessage list"

definition turn_start :: "ModelMessage \<Rightarrow> bool" where
  "turn_start message \<longleftrightarrow> m_role message = RUser \<and> (case m_content message of CText _ \<Rightarrow> True | CBlocks _ \<Rightarrow> False)"

definition findTurnStartIndices :: "ModelMessage list \<Rightarrow> nat list" where
  "findTurnStartIndices messages = map fst (filter (\<lambda>(i, m). turn_start m) (enumerate 0 messages))"

definition planHistoryCompaction :: "ModelMessage list \<Rightarrow> HistoryCompactionConfig \<Rightarrow> HistoryCompactionPlan option" where
  "planHistoryCompaction messages config =
     (if estimateMessagesTokens messages \<le> hc_maxHistoryTokens config then None
      else let turnStarts = findTurnStartIndices messages in
        if length turnStarts \<le> hc_preserveLastTurns config then None
        else let boundaryTurnIndex = length turnStarts - hc_preserveLastTurns config in
          if boundaryTurnIndex \<ge> length turnStarts then None
          else let boundaryMessageIndex = turnStarts ! boundaryTurnIndex in
            if boundaryMessageIndex = 0 then None
            else Some \<lparr>toCompact = take boundaryMessageIndex messages, toPreserve = drop boundaryMessageIndex messages\<rparr>)"

definition ROLE_LABELS :: "Role \<Rightarrow> string" where
  "ROLE_LABELS r = (case r of RUser \<Rightarrow> ''Usuario'' | RAssistant \<Rightarrow> ''Jin'')"

fun block_transcript :: "ModelMessageContentBlock \<Rightarrow> string" where
  "block_transcript (BText t) = t"
| "block_transcript (BToolUse c) = ''[llam'' @ [CHR 0xF3] @ '' a la tool '' @ tc_name c @ '']''"
| "block_transcript (BToolResult i out e) =
     ''[resultado de tool: '' @ (case out of JStr s \<Rightarrow> s | _ \<Rightarrow> stringify out) @ '']''"

definition renderMessagesAsTranscript :: "ModelMessage list \<Rightarrow> string" where
  "renderMessagesAsTranscript messages = join [CHR 0x0A] (map (\<lambda>message.
     ROLE_LABELS (m_role message) @ '': '' @ (case m_content message of
         CText t \<Rightarrow> t
       | CBlocks bs \<Rightarrow> join [CHR 0x0A] (map block_transcript bs))) messages)"

section \<open>The cut falls between turns\<close>

lemma enumerate_filter_nth:
  assumes "k < length (filter (\<lambda>(i, m). P m) (enumerate n xs))"
  shows "\<exists>b. fst (filter (\<lambda>(i, m). P m) (enumerate n xs) ! k) = n + b \<and> b < length xs \<and> P (xs ! b) \<and>
    length (filter P (take b xs)) = k"
  using assms
proof (induction xs arbitrary: n k)
  case (Cons x xs)
  show ?case
  proof (cases "P x \<and> k = 0")
    case True
    then show ?thesis by (intro exI [of _ 0]) simp
  next
    case False
    let ?k = "if P x then k - 1 else k"
    from False Cons.prems have k: "?k < length (filter (\<lambda>(i, m). P m) (enumerate (Suc n) xs))"
      by (auto split: if_splits)
    from Cons.IH [OF k] obtain b where
      b: "fst (filter (\<lambda>(i, m). P m) (enumerate (Suc n) xs) ! ?k) = Suc n + b" "b < length xs" "P (xs ! b)"
        "length (filter P (take b xs)) = ?k" by blast
    with False show ?thesis by (intro exI [of _ "Suc b"]) (auto simp: nth_Cons' split: if_splits)
  qed
qed simp

lemma length_enumerate_filter: "length (filter (\<lambda>(i, m). P m) (enumerate n xs)) = length (filter P xs)"
  by (induction xs arbitrary: n) simp_all

text \<open>When the history is compacted it is cut in two, exactly between two turns: what is kept starts with
  the owner's text and holds exactly the configured number of turns, so a tool call is never separated
  from its result and the turn that just ran is never part of what is summarised.\<close>

theorem compaction_keeps_last_turns:
  assumes "planHistoryCompaction messages config = Some plan"
  shows "toCompact plan @ toPreserve plan = messages \<and> toCompact plan \<noteq> [] \<and> toPreserve plan \<noteq> [] \<and>
    turn_start (hd (toPreserve plan)) \<and>
    length (filter turn_start (toPreserve plan)) = hc_preserveLastTurns config \<and>
    hc_maxHistoryTokens config < estimateMessagesTokens messages"
proof -
  define f where "f = filter (\<lambda>(i, m). turn_start m) (enumerate 0 messages)"
  define k where "k = length f - hc_preserveLastTurns config"
  define b where "b = fst (f ! k)"
  have idx: "findTurnStartIndices messages = map fst f" by (simp add: findTurnStartIndices_def f_def)
  have big: "hc_maxHistoryTokens config < estimateMessagesTokens messages"
    and more: "hc_preserveLastTurns config < length f" and k: "k < length f"
    using assms by (auto simp: planHistoryCompaction_def idx Let_def k_def [symmetric] split: if_splits)
  then have b0: "b \<noteq> 0" and plan: "plan = \<lparr>toCompact = take b messages, toPreserve = drop b messages\<rparr>"
    using assms by (auto simp: planHistoryCompaction_def idx Let_def k_def [symmetric] b_def split: if_splits)
  have at: "b < length messages" "turn_start (messages ! b)" "length (filter turn_start (take b messages)) = k"
    using enumerate_filter_nth [OF k [unfolded f_def]] by (auto simp: b_def f_def)
  have "length f = length (filter turn_start messages)" by (simp add: f_def length_enumerate_filter)
  moreover have "length (filter turn_start messages) =
      length (filter turn_start (take b messages)) + length (filter turn_start (drop b messages))"
    by (metis append_take_drop_id filter_append length_append)
  ultimately have "length (filter turn_start (drop b messages)) = hc_preserveLastTurns config"
    using at(3) more unfolding k_def by linarith
  moreover have "turn_start (hd (drop b messages))" using at(1,2) by (simp add: hd_drop_conv_nth)
  moreover have "take b messages \<noteq> []" "drop b messages \<noteq> []" using at(1) b0 by auto
  ultimately show ?thesis using big by (simp add: plan)
qed

definition sample_turns :: "ModelMessage list" where
  "sample_turns = [\<lparr>m_role = RUser, m_content = CText ''first question''\<rparr>,
     \<lparr>m_role = RAssistant, m_content = CBlocks [BText ''answer'']\<rparr>, \<lparr>m_role = RUser, m_content = CText ''second''\<rparr>]"

theorem compaction_keeps_last_turns_witness:
  "\<exists>plan. planHistoryCompaction sample_turns \<lparr>hc_maxHistoryTokens = 3, hc_preserveLastTurns = 1\<rparr> = Some plan \<and>
     toCompact plan @ toPreserve plan = sample_turns \<and> length (filter turn_start (toPreserve plan)) = 1"
proof -
  have "4 \<le> estimateMessagesTokens sample_turns"
    by (simp add: estimateMessagesTokens_def sample_turns_def messageContentToText_def estimateTokens_def
        CHARS_PER_TOKEN_ESTIMATE_def)
  then obtain plan where p: "planHistoryCompaction sample_turns \<lparr>hc_maxHistoryTokens = 3, hc_preserveLastTurns = 1\<rparr> = Some plan"
    by (auto simp: planHistoryCompaction_def findTurnStartIndices_def sample_turns_def turn_start_def Let_def)
  with compaction_keeps_last_turns [OF p] show ?thesis by auto
qed

end
