(* ===== verification/Model_Router.thy ===== *)
theory Model_Router
  imports Model_Messages Js_Date "HOL-Library.Sublist"
begin

text \<open>
  Choice and failover of the language models (\<open>src/model-provider/\<close>): the pure selector
  (\<open>router.logic.ts\<close>), the owner's preference (\<open>chat-model-preference.service.ts\<close>), the candidates and the
  vendor (\<open>router.service.ts\<close>), one retry and one fallback, also when the text is streamed
  (\<open>failover.service.ts\<close>), and the sampling and thinking parameters of a vendor (\<open>sampling.ts\<close>,
  \<open>anthropic.provider.ts\<close>).

  The vendors' SDKs are arguments: a call takes the state of the world and returns an answer or an error
  with the next state, so that two calls of the same request may differ. A streamed call also returns the
  text deltas it has shown. Ratios are exact rationals.
\<close>

section \<open>Configuration\<close>

datatype TaskProfile = ReasoningHeavy | CodingDefault | LongContext | ExtractionFast | ChatConversational
  | CodeExecutionPlanner | MemoryConsolidation | HistoryCompaction | VisionAnalysis

fun profile_name :: "TaskProfile \<Rightarrow> string" where
  "profile_name ReasoningHeavy = ''reasoning_heavy''"
| "profile_name CodingDefault = ''coding_default''"
| "profile_name LongContext = ''long_context''"
| "profile_name ExtractionFast = ''extraction_fast''"
| "profile_name ChatConversational = ''chat_conversational''"
| "profile_name CodeExecutionPlanner = ''code_execution_planner''"
| "profile_name MemoryConsolidation = ''memory_consolidation''"
| "profile_name HistoryCompaction = ''history_compaction''"
| "profile_name VisionAnalysis = ''vision_analysis''"

text \<open>The validated file has every profile with all its fields; \<open>None\<close> stands for an undefined field of a
  profile that the file lacks and an override makes up.\<close>

record ModelProfileConfig =
  mp_primary :: "string option"
  mp_fallback :: "string option"
  mp_maxTokensInput :: "int option"

type_synonym ModelsConfig = "TaskProfile \<Rightarrow> ModelProfileConfig option"

datatype Vendor = VAnthropic | VGoogle | VOpenAI

fun vendor_name :: "Vendor \<Rightarrow> string" where
  "vendor_name VAnthropic = ''anthropic''"
| "vendor_name VGoogle = ''google''"
| "vendor_name VOpenAI = ''openai''"

record ChatModelOption =
  co_vendor :: Vendor
  co_modelId :: string
  co_supportsEffort :: bool

record ChatModelPreference =
  cm_vendor :: Vendor
  cm_modelId :: string
  cm_effort :: "ModelEffort option"
  cm_setBy :: string
  cm_changedAt :: string

record SelectModelHints =
  h_estimatedInputTokens :: "int option"
  h_latencyLow :: bool
  h_budgetRemaining :: "rat option"

datatype Tier = Primary | Fallback

section \<open>The selector\<close>

definition LOW_BUDGET_REMAINING_THRESHOLD :: rat where
  "LOW_BUDGET_REMAINING_THRESHOLD = 1 / 5"

definition selectModel :: "ModelsConfig \<Rightarrow> TaskProfile \<Rightarrow> SelectModelHints \<Rightarrow> jin_error + string option \<times> Tier" where
  "selectModel profiles taskProfile hints =
     (case profiles taskProfile of
        None \<Rightarrow> Inl (UnknownTaskProfileError (profile_name taskProfile))
      | Some profile \<Rightarrow>
          (let tooLong = (case (h_estimatedInputTokens hints, mp_maxTokensInput profile) of
                 (Some e, Some m) \<Rightarrow> e > m | _ \<Rightarrow> False);
               lowBudget = (case h_budgetRemaining hints of
                 Some b \<Rightarrow> b < LOW_BUDGET_REMAINING_THRESHOLD | None \<Rightarrow> False);
               tier = (if lowBudget then Fallback else if h_latencyLow hints then Fallback
                 else if tooLong then Fallback else Primary)
           in Inr (if tier = Primary then mp_primary profile else mp_fallback profile, tier)))"

section \<open>The owner's preference\<close>

record pref_row =
  pr_vendor :: "Vendor option"
  pr_modelId :: "string option"
  pr_effort :: "ModelEffort option"
  pr_setBy :: string
  pr_changedAt :: timestamp

record pref_state =
  chat_model_preference :: "pref_row option"
  cached :: "ChatModelPreference option"

definition readFromDb :: "pref_row option \<Rightarrow> ChatModelPreference option" where
  "readFromDb row = (case row of
      None \<Rightarrow> None
    | Some r \<Rightarrow> (case (pr_vendor r, pr_modelId r) of
        (Some v, Some m) \<Rightarrow> if m = [] then None
          else Some \<lparr>cm_vendor = v, cm_modelId = m, cm_effort = pr_effort r, cm_setBy = pr_setBy r,
                 cm_changedAt = toISOString (pr_changedAt r)\<rparr>
      | _ \<Rightarrow> None))"

definition refresh :: "pref_state \<Rightarrow> pref_state" where
  "refresh st = st\<lparr>cached := readFromDb (chat_model_preference st)\<rparr>"

definition getPreference :: "pref_state \<Rightarrow> ChatModelPreference option" where
  "getPreference st = cached st"

definition setPreference :: "ChatModelOption list \<Rightarrow> timestamp \<Rightarrow> string \<Rightarrow> string \<Rightarrow> ModelEffort option \<Rightarrow> string
    \<Rightarrow> pref_state \<Rightarrow> (jin_error + ChatModelPreference) \<times> pref_state" where
  "setPreference catalog now vendor modelId requested setBy st =
     (case List.find (\<lambda>c. vendor_name (co_vendor c) = vendor \<and> co_modelId c = modelId) catalog of
        None \<Rightarrow> (Inl (InvalidChatModelOptionError vendor modelId), st)
      | Some option \<Rightarrow>
          (let effort = (if co_supportsEffort option then requested else None);
               pref = \<lparr>cm_vendor = co_vendor option, cm_modelId = co_modelId option, cm_effort = effort,
                 cm_setBy = setBy, cm_changedAt = toISOString now\<rparr>
           in (Inr pref, st\<lparr>chat_model_preference := map_option (\<lambda>r. r\<lparr>pr_vendor := Some (co_vendor option),
                   pr_modelId := Some (co_modelId option), pr_effort := effort, pr_setBy := setBy,
                   pr_changedAt := now\<rparr>) (chat_model_preference st),
                 cached := Some pref\<rparr>)))"

definition clearPreference :: "timestamp \<Rightarrow> string \<Rightarrow> pref_state \<Rightarrow> pref_state" where
  "clearPreference now setBy st = st\<lparr>chat_model_preference := map_option (\<lambda>r. r\<lparr>pr_vendor := None, pr_modelId := None,
     pr_effort := None, pr_setBy := setBy, pr_changedAt := now\<rparr>) (chat_model_preference st), cached := None\<rparr>"

section \<open>Candidates\<close>

record candidates =
  cd_selected :: "string option"
  cd_tier :: Tier
  cd_secondary :: "string option"
  cd_effort :: "ModelEffort option"

text \<open>\<open>flagOverride\<close> is the feature flag's primary model for the profile; an empty name is no override.\<close>

definition resolveCandidates :: "ModelsConfig \<Rightarrow> ChatModelPreference option \<Rightarrow> (TaskProfile \<Rightarrow> string option)
    \<Rightarrow> TaskProfile \<Rightarrow> SelectModelHints \<Rightarrow> jin_error + candidates" where
  "resolveCandidates profiles preference flagOverride taskProfile hints =
     (let chatPreference = (if taskProfile = ChatConversational then preference else None);
          modelOverride = (case chatPreference of Some p \<Rightarrow> Some (cm_modelId p) | None \<Rightarrow> flagOverride taskProfile);
          effectiveProfiles = (case modelOverride of
              Some m \<Rightarrow> if m = [] then profiles
                else profiles(taskProfile \<mapsto> (case profiles taskProfile of
                    Some p \<Rightarrow> p\<lparr>mp_primary := Some m\<rparr>
                  | None \<Rightarrow> \<lparr>mp_primary = Some m, mp_fallback = None, mp_maxTokensInput = None\<rparr>))
            | None \<Rightarrow> profiles)
      in case selectModel effectiveProfiles taskProfile hints of
           Inl e \<Rightarrow> Inl e
         | Inr (selected, tier) \<Rightarrow>
             (case effectiveProfiles taskProfile of
                None \<Rightarrow> Inl (UnknownTaskProfileError (profile_name taskProfile))
              | Some profile \<Rightarrow> Inr \<lparr>cd_selected = selected, cd_tier = tier,
                  cd_secondary = (if selected = mp_primary profile then mp_fallback profile else mp_primary profile),
                  cd_effort = (case chatPreference of Some p \<Rightarrow> cm_effort p | None \<Rightarrow> None)\<rparr>))"

definition withEffort :: "ModelCompletionRequest \<Rightarrow> ModelEffort option \<Rightarrow> ModelCompletionRequest" where
  "withEffort request effort = (case effort of None \<Rightarrow> request | Some e \<Rightarrow> request\<lparr>rq_effort := Some e\<rparr>)"

definition providerFor :: "string option \<Rightarrow> jin_error + Vendor" where
  "providerFor modelId = (case modelId of
      None \<Rightarrow> Inl (OtherError ''TypeError'')
    | Some m \<Rightarrow> if prefix ''claude-'' m then Inr VAnthropic
        else if prefix ''gemini-'' m then Inr VGoogle
        else if prefix ''gpt-'' m then Inr VOpenAI
        else Inl (UnknownModelVendorError m))"

section \<open>Failover\<close>

type_synonym ('w, 'a) call = "'w \<Rightarrow> (jin_error + 'a) \<times> 'w"
type_synonym delta = "string \<times> string"
type_synonym ('w, 'a) streamed_call = "'w \<Rightarrow> delta list \<times> (jin_error + 'a) \<times> 'w"

record FailoverContext =
  fc_taskProfile :: string
  fc_primaryModelId :: "string option"
  fc_fallbackModelId :: "string option"

definition retryOnce :: "('w, 'a) call \<Rightarrow> ('w, 'a) call" where
  "retryOnce fn w = (case fn w of (Inr a, w1) \<Rightarrow> (Inr a, w1) | (Inl _, w1) \<Rightarrow> fn w1)"

definition executeWithFailover :: "FailoverContext \<Rightarrow> ('w, 'a) call \<Rightarrow> ('w, 'a) call \<Rightarrow> ('w, 'a) call" where
  "executeWithFailover context callPrimary callFallback w =
     (case retryOnce callPrimary w of
        (Inr a, w1) \<Rightarrow> (Inr a, w1)
      | (Inl _, w1) \<Rightarrow>
          (case callFallback w1 of
             (Inr a, w2) \<Rightarrow> (Inr a, w2)
           | (Inl _, w2) \<Rightarrow> (Inl (AllProvidersFailedError (fc_taskProfile context) (fc_primaryModelId context)
               (fc_fallbackModelId context)), w2)))"

definition retryOnceStream :: "('w, 'a) streamed_call \<Rightarrow> ('w, 'a) streamed_call" where
  "retryOnceStream fn w =
     (case fn w of
        (ds, Inr a, w1) \<Rightarrow> (ds, Inr a, w1)
      | (ds, Inl e, w1) \<Rightarrow>
          if ds \<noteq> [] then (ds, Inl e, w1)
          else (case fn w1 of (ds2, r, w2) \<Rightarrow> (ds @ ds2, r, w2)))"

definition executeWithFailoverStream :: "FailoverContext \<Rightarrow> ('w, 'a) streamed_call \<Rightarrow> ('w, 'a) streamed_call
    \<Rightarrow> ('w, 'a) streamed_call" where
  "executeWithFailoverStream context callPrimary callFallback w =
     (case retryOnceStream callPrimary w of
        (ds, Inr a, w1) \<Rightarrow> (ds, Inr a, w1)
      | (ds, Inl _, w1) \<Rightarrow>
          if ds \<noteq> []
          then (ds, Inl (StreamAlreadyPartiallyEmittedError (fc_taskProfile context) (fc_primaryModelId context)), w1)
          else (case callFallback w1 of
              (ds2, Inr a, w2) \<Rightarrow> (ds @ ds2, Inr a, w2)
            | (ds2, Inl _, w2) \<Rightarrow>
                if ds @ ds2 \<noteq> []
                then (ds @ ds2, Inl (StreamAlreadyPartiallyEmittedError (fc_taskProfile context)
                    (fc_fallbackModelId context)), w2)
                else (ds @ ds2, Inl (AllProvidersFailedError (fc_taskProfile context) (fc_primaryModelId context)
                    (fc_fallbackModelId context)), w2)))"

section \<open>The router\<close>

text \<open>The vendors' clients; a vendor without streaming has no \<open>pv_stream\<close>.\<close>

record 'w providers =
  pv_complete :: "Vendor \<Rightarrow> string \<Rightarrow> ModelCompletionRequest \<Rightarrow> ('w, ModelCompletionResponse) call"
  pv_stream :: "Vendor \<Rightarrow> (string \<Rightarrow> ModelCompletionRequest \<Rightarrow> ('w, ModelCompletionResponse) streamed_call) option"

definition call_model :: "'w providers \<Rightarrow> ModelCompletionRequest \<Rightarrow> string option \<Rightarrow> ('w, ModelCompletionResponse) call" where
  "call_model pv request modelId w =
     (case providerFor modelId of
        Inl e \<Rightarrow> (Inl e, w)
      | Inr vendor \<Rightarrow> pv_complete pv vendor (the modelId) request w)"

definition completeOrStream :: "'w providers \<Rightarrow> ModelCompletionRequest \<Rightarrow> string option
    \<Rightarrow> ('w, ModelCompletionResponse) streamed_call" where
  "completeOrStream pv request modelId w =
     (case providerFor modelId of
        Inl e \<Rightarrow> ([], Inl e, w)
      | Inr vendor \<Rightarrow>
          (case pv_stream pv vendor of
             Some stream \<Rightarrow> stream (the modelId) request w
           | None \<Rightarrow>
               (case pv_complete pv vendor (the modelId) request w of
                  (Inr response, w1) \<Rightarrow> ([(rs_content response, rs_content response)], Inr response, w1)
                | (Inl e, w1) \<Rightarrow> ([], Inl e, w1))))"

record router_config =
  rc_profiles :: ModelsConfig
  rc_preference :: "ChatModelPreference option"
  rc_override :: "TaskProfile \<Rightarrow> string option"

definition router_complete :: "'w providers \<Rightarrow> router_config \<Rightarrow> TaskProfile \<Rightarrow> ModelCompletionRequest \<Rightarrow> SelectModelHints
    \<Rightarrow> ('w, ModelCompletionResponse) call" where
  "router_complete pv rc taskProfile request hints w =
     (case resolveCandidates (rc_profiles rc) (rc_preference rc) (rc_override rc) taskProfile hints of
        Inl e \<Rightarrow> (Inl e, w)
      | Inr cd \<Rightarrow>
          (let effectiveRequest = withEffort request (cd_effort cd)
           in executeWithFailover \<lparr>fc_taskProfile = profile_name taskProfile, fc_primaryModelId = cd_selected cd,
                  fc_fallbackModelId = cd_secondary cd\<rparr>
                (call_model pv effectiveRequest (cd_selected cd))
                (call_model pv effectiveRequest (cd_secondary cd)) w))"

definition router_completeStream :: "'w providers \<Rightarrow> router_config \<Rightarrow> TaskProfile \<Rightarrow> ModelCompletionRequest
    \<Rightarrow> SelectModelHints \<Rightarrow> ('w, ModelCompletionResponse) streamed_call" where
  "router_completeStream pv rc taskProfile request hints w =
     (case resolveCandidates (rc_profiles rc) (rc_preference rc) (rc_override rc) taskProfile hints of
        Inl e \<Rightarrow> ([], Inl e, w)
      | Inr cd \<Rightarrow>
          (let effectiveRequest = withEffort request (cd_effort cd)
           in executeWithFailoverStream \<lparr>fc_taskProfile = profile_name taskProfile, fc_primaryModelId = cd_selected cd,
                  fc_fallbackModelId = cd_secondary cd\<rparr>
                (completeOrStream pv effectiveRequest (cd_selected cd))
                (completeOrStream pv effectiveRequest (cd_secondary cd)) w))"

section \<open>Parameters of a vendor\<close>

definition NO_SAMPLING_PREFIXES :: "string list" where
  "NO_SAMPLING_PREFIXES = [''claude-fable-5'', ''claude-mythos-5'', ''claude-opus-5'', ''claude-opus-4-8'',
     ''claude-opus-4-7'', ''claude-sonnet-5'']"

definition ALWAYS_ON_THINKING_PREFIXES :: "string list" where
  "ALWAYS_ON_THINKING_PREFIXES = [''claude-opus-5-5'', ''claude-sonnet-5-5'']"

definition anthropicModelAcceptsSampling :: "string \<Rightarrow> bool" where
  "anthropicModelAcceptsSampling modelId \<longleftrightarrow> \<not> list_ex (\<lambda>p. prefix p modelId) NO_SAMPLING_PREFIXES"

definition hasThinkingAlwaysOn :: "string \<Rightarrow> bool" where
  "hasThinkingAlwaysOn modelId \<longleftrightarrow> list_ex (\<lambda>p. prefix p modelId) ALWAYS_ON_THINKING_PREFIXES"

definition ALWAYS_ON_THINKING_MIN_MAX_TOKENS :: int where
  "ALWAYS_ON_THINKING_MIN_MAX_TOKENS = 16000"

definition anthropicMaxTokens :: "string \<Rightarrow> int \<Rightarrow> int" where
  "anthropicMaxTokens modelId requested =
     (if hasThinkingAlwaysOn modelId then max requested ALWAYS_ON_THINKING_MIN_MAX_TOKENS else requested)"

datatype ThinkingParams = NoThinking | ThinkingDisabled | ThinkingAdaptive ModelEffort | ThinkingEnabled int

definition anthropicThinkingParams :: "string \<Rightarrow> ModelEffort option \<Rightarrow> int \<Rightarrow> ThinkingParams" where
  "anthropicThinkingParams modelId requested maxOutputTokens =
     (case requested of
        None \<Rightarrow> NoThinking
      | Some effort \<Rightarrow>
          if \<not> anthropicModelAcceptsSampling modelId
          then (if effort = EffortLow \<and> \<not> hasThinkingAlwaysOn modelId then ThinkingDisabled else ThinkingAdaptive effort)
          else if effort = EffortLow then NoThinking
          else (let desiredBudget = (if effort = EffortHigh then 8192 else 2048);
                    budgetTokens = min desiredBudget (maxOutputTokens - 512)
                in if budgetTokens < 1024 then NoThinking else ThinkingEnabled budgetTokens))"

record anthropic_params =
  ap_model :: string
  ap_max_tokens :: int
  ap_temperature :: "rat option"
  ap_system :: "string option"
  ap_messages :: "ModelMessage list"
  ap_tools :: "ModelToolDeclaration list option"
  ap_thinking :: ThinkingParams

text \<open>What the Anthropic provider asks for; the messages are passed on block by block.\<close>

definition buildCreateParams :: "string \<Rightarrow> ModelCompletionRequest \<Rightarrow> anthropic_params" where
  "buildCreateParams modelId request =
     (let maxTokens = anthropicMaxTokens modelId (rq_maxOutputTokens request);
          thinking = anthropicThinkingParams modelId (rq_effort request) maxTokens
      in \<lparr>ap_model = modelId, ap_max_tokens = maxTokens,
          ap_temperature = (if anthropicModelAcceptsSampling modelId \<and>
                (case thinking of ThinkingEnabled _ \<Rightarrow> False | _ \<Rightarrow> True)
            then Some (rq_temperature request) else None),
          ap_system = rq_systemPrompt request, ap_messages = rq_messages request, ap_tools = rq_tools request,
          ap_thinking = thinking\<rparr>)"

section \<open>Failover\<close>

text \<open>The reference: try the calls of a list in turn, each in the world the previous one left.\<close>

fun first_success :: "jin_error \<Rightarrow> ('w, 'a) call list \<Rightarrow> ('w, 'a) call" where
  "first_success e [] w = (Inl e, w)"
| "first_success e (c # cs) w = (case c w of (Inr a, w1) \<Rightarrow> (Inr a, w1) | (Inl _, w1) \<Rightarrow> first_success e cs w1)"

lemma failover_first_success:
  "executeWithFailover context p f w = first_success
     (AllProvidersFailedError (fc_taskProfile context) (fc_primaryModelId context) (fc_fallbackModelId context)) [p, p, f] w"
  by (auto simp: executeWithFailover_def retryOnce_def split: prod.split sum.split)

lemma retryOnceStream_last:
  assumes "retryOnceStream p w = (ds, r, w')"
  shows "\<exists>w0. p w0 = (ds, r, w')"
  using assms by (auto simp: retryOnceStream_def split: prod.splits sum.splits if_splits)

text \<open>C15: an answer shown while it is written comes from one model only. Whatever fails and is retried, all the
  text shown is the text of one single attempt, the last one made; the answer is that attempt's, and when
  it failed the error says whether the owner had already seen something of it.\<close>

theorem stream_never_mixes_models:
  assumes "executeWithFailoverStream context callPrimary callFallback w = (ds, r, w')"
  shows "\<exists>w0 attempt. (callPrimary w0 = (ds, attempt, w') \<or> callFallback w0 = (ds, attempt, w')) \<and>
    (case r of
       Inr a \<Rightarrow> attempt = Inr a
     | Inl e \<Rightarrow> (\<exists>e0. attempt = Inl e0) \<and>
         (if ds = [] then e = AllProvidersFailedError (fc_taskProfile context) (fc_primaryModelId context)
              (fc_fallbackModelId context)
          else \<exists>m \<in> {fc_primaryModelId context, fc_fallbackModelId context}.
              e = StreamAlreadyPartiallyEmittedError (fc_taskProfile context) m))"
proof -
  obtain ds1 r1 w1 where p: "retryOnceStream callPrimary w = (ds1, r1, w1)" by (cases "retryOnceStream callPrimary w")
  from retryOnceStream_last [OF p] obtain w0 where w0: "callPrimary w0 = (ds1, r1, w1)" by blast
  show ?thesis
  proof (cases r1)
    case (Inr a)
    with assms p w0 show ?thesis by (auto simp: executeWithFailoverStream_def)
  next
    case (Inl e1)
    show ?thesis
    proof (cases "ds1 = []")
      case False
      with assms p Inl have "ds = ds1" "w' = w1"
          "r = Inl (StreamAlreadyPartiallyEmittedError (fc_taskProfile context) (fc_primaryModelId context))"
        by (auto simp: executeWithFailoverStream_def)
      with w0 Inl False show ?thesis by (intro exI [of _ w0] exI [of _ "Inl e1"]) simp
    next
      case True
      obtain ds2 r2 w2 where f: "callFallback w1 = (ds2, r2, w2)" by (cases "callFallback w1")
      with True assms p Inl have "ds = ds2" "w' = w2"
          "r = (case r2 of Inr a \<Rightarrow> Inr a | Inl _ \<Rightarrow> Inl (if ds2 \<noteq> []
             then StreamAlreadyPartiallyEmittedError (fc_taskProfile context) (fc_fallbackModelId context)
             else AllProvidersFailedError (fc_taskProfile context) (fc_primaryModelId context) (fc_fallbackModelId context)))"
        by (auto simp: executeWithFailoverStream_def split: sum.splits if_splits)
      with f show ?thesis by (cases r2) auto
    qed
  qed
qed

text \<open>Without a streaming vendor the streamed call is the plain one, with the whole text as one delta.\<close>

definition one_delta :: "('w, ModelCompletionResponse) call \<Rightarrow> ('w, ModelCompletionResponse) streamed_call" where
  "one_delta c w = (case c w of
     (Inr a, w1) \<Rightarrow> ([(rs_content a, rs_content a)], Inr a, w1) | (Inl e, w1) \<Rightarrow> ([], Inl e, w1))"

lemma failover_one_delta:
  "snd (executeWithFailoverStream context (one_delta p) (one_delta f) w) = executeWithFailover context p f w"
proof -
  obtain r1 w1 where 1: "p w = (r1, w1)" by fastforce
  obtain r2 w2 where 2: "p w1 = (r2, w2)" by fastforce
  obtain r3 w3 where 3: "f w2 = (r3, w3)" by fastforce
  show ?thesis
    by (cases r1; cases r2; cases r3)
      (simp_all add: executeWithFailoverStream_def executeWithFailover_def retryOnceStream_def retryOnce_def one_delta_def 1 2 3)
qed

lemma stream_degrades:
  assumes "\<And>v. pv_stream pv v = None"
  shows "snd (router_completeStream pv rc tp request hints w) = router_complete pv rc tp request hints w"
proof -
  have "completeOrStream pv rq m = one_delta (call_model pv rq m)" for rq m
    by (rule ext) (auto simp: completeOrStream_def one_delta_def call_model_def assms split: sum.split prod.split)
  then show ?thesis
    by (simp add: router_completeStream_def router_complete_def Let_def failover_one_delta split: sum.split)
qed

section \<open>Which model\<close>

lemma low_budget_selects_fallback:
  assumes "selectModel profiles tp hints = Inr (m, tier)" "profiles tp = Some profile"
    and "h_budgetRemaining hints = Some b" "b < LOW_BUDGET_REMAINING_THRESHOLD"
  shows "tier = Fallback \<and> m = mp_fallback profile"
  using assms by (auto simp: selectModel_def Let_def)

lemma candidates_of_profile:
  assumes "resolveCandidates profiles pref flag tp hints = Inr cd" "profiles tp = Some profile"
  shows "cd_secondary cd \<in> {mp_fallback profile, mp_primary profile, map_option cm_modelId pref, flag tp}"
    and "cd_selected cd \<in> {mp_fallback profile, mp_primary profile, map_option cm_modelId pref, flag tp}"
  using assms by (auto simp: resolveCandidates_def selectModel_def Let_def split: option.splits if_splits sum.splits)

text \<open>A failing model is replaced by the other model of the profile, except in one case: when the owner
  prefers the very model the profile falls back to, both candidates are that model and the profile's own
  primary is never tried.\<close>

theorem preferred_fallback_has_no_substitute:
  assumes "resolveCandidates profiles preference flagOverride tp hints = Inr cd" "profiles tp = Some profile"
    and "mp_primary profile \<noteq> mp_fallback profile" "flagOverride tp = None"
  shows "cd_selected cd = cd_secondary cd \<longleftrightarrow>
    tp = ChatConversational \<and> (\<exists>p. preference = Some p \<and> cm_modelId p \<noteq> [] \<and> Some (cm_modelId p) = mp_fallback profile)"
  using assms
  by (cases preference) (auto simp: resolveCandidates_def selectModel_def Let_def split: if_splits)

section \<open>Thinking parameters\<close>

text \<open>A manual thinking budget respects the vendor's bounds, is never sent with a temperature, and a model whose
  thinking is always on is never asked to switch it off.\<close>

lemma thinking_params_valid:
  "anthropicThinkingParams m e n = ThinkingEnabled b \<Longrightarrow> 1024 \<le> b \<and> b \<le> n - 512 \<and> anthropicModelAcceptsSampling m"
  "hasThinkingAlwaysOn m \<Longrightarrow> anthropicThinkingParams m e n \<noteq> ThinkingDisabled"
  "ap_temperature (buildCreateParams m rq) = Some t \<Longrightarrow> anthropicModelAcceptsSampling m \<and>
     ap_thinking (buildCreateParams m rq) \<noteq> ThinkingEnabled b"
  by (auto simp: anthropicThinkingParams_def buildCreateParams_def Let_def split: option.splits if_splits)

lemma always_on_rejects_sampling: "hasThinkingAlwaysOn m \<Longrightarrow> \<not> anthropicModelAcceptsSampling m"
proof -
  have "prefix ''claude-opus-5-5'' m \<Longrightarrow> prefix ''claude-opus-5'' m"
    "prefix ''claude-sonnet-5-5'' m \<Longrightarrow> prefix ''claude-sonnet-5'' m"
    by (rule prefix_order.trans [of _ "''claude-opus-5-5''"]; simp) (rule prefix_order.trans [of _ "''claude-sonnet-5-5''"]; simp)
  then show "hasThinkingAlwaysOn m \<Longrightarrow> ?thesis"
    by (auto simp: hasThinkingAlwaysOn_def ALWAYS_ON_THINKING_PREFIXES_def anthropicModelAcceptsSampling_def
        NO_SAMPLING_PREFIXES_def)
qed

text \<open>The vendor may be asked for more output than the request says.\<close>

lemma max_tokens_bound:
  "ap_max_tokens (buildCreateParams m rq) \<le> max (rq_maxOutputTokens rq) ALWAYS_ON_THINKING_MIN_MAX_TOKENS"
  "\<not> hasThinkingAlwaysOn m \<Longrightarrow> ap_max_tokens (buildCreateParams m rq) = rq_maxOutputTokens rq"
  by (auto simp: buildCreateParams_def anthropicMaxTokens_def Let_def)

section \<open>Witnesses\<close>

definition sample_profile :: ModelProfileConfig where
  "sample_profile = \<lparr>mp_primary = Some ''claude-sonnet-5'', mp_fallback = Some ''claude-haiku-4-5'', mp_maxTokensInput = Some 50000\<rparr>"

definition sample_hints :: SelectModelHints where
  "sample_hints = \<lparr>h_estimatedInputTokens = Some 10, h_latencyLow = False, h_budgetRemaining = Some 1\<rparr>"

definition sample_preference :: ChatModelPreference where
  "sample_preference = \<lparr>cm_vendor = VAnthropic, cm_modelId = ''claude-haiku-4-5'', cm_effort = None,
     cm_setBy = ''owner:api'', cm_changedAt = ''''\<rparr>"

theorem stream_never_mixes_models_witness:
  "\<exists>r. executeWithFailoverStream \<lparr>fc_taskProfile = ''chat_conversational'', fc_primaryModelId = Some ''a'',
      fc_fallbackModelId = Some ''b''\<rparr> (\<lambda>n. ([(''Ho'', ''Ho'')], Inl (OtherError ''529''), n + 1))
      (\<lambda>n. ([], Inr ''x'', n)) (0 :: nat) = ([(''Ho'', ''Ho'')], r, 1) \<and>
    r \<in> {Inl (StreamAlreadyPartiallyEmittedError ''chat_conversational'' (Some ''a'')),
         Inl (StreamAlreadyPartiallyEmittedError ''chat_conversational'' (Some ''b''))}"
proof -
  let ?c = "\<lparr>fc_taskProfile = ''chat_conversational'', fc_primaryModelId = Some ''a'', fc_fallbackModelId = Some ''b''\<rparr>"
  let ?p = "\<lambda>n :: nat. ([(''Ho'', ''Ho'')] :: delta list, Inl (OtherError ''529'') :: jin_error + string, n + 1)"
  let ?f = "\<lambda>n :: nat. ([] :: delta list, Inr ''x'' :: jin_error + string, n)"
  obtain r where r: "executeWithFailoverStream ?c ?p ?f 0 = ([(''Ho'', ''Ho'')], r, 1)"
    by (simp add: executeWithFailoverStream_def retryOnceStream_def)
  from stream_never_mixes_models [OF r] r show ?thesis by (auto split: sum.splits)
qed

theorem preferred_fallback_has_no_substitute_witness:
  "\<exists>cd. resolveCandidates (\<lambda>_. Some sample_profile) (Some sample_preference) (\<lambda>_. None) ChatConversational sample_hints = Inr cd
     \<and> cd_selected cd = cd_secondary cd"
proof -
  have "\<exists>cd. resolveCandidates (\<lambda>_. Some sample_profile) (Some sample_preference) (\<lambda>_. None) ChatConversational
      sample_hints = Inr cd"
    by (simp add: resolveCandidates_def selectModel_def sample_preference_def sample_profile_def sample_hints_def
        LOW_BUDGET_REMAINING_THRESHOLD_def)
  then obtain cd where cd: "resolveCandidates (\<lambda>_. Some sample_profile) (Some sample_preference) (\<lambda>_. None) ChatConversational
      sample_hints = Inr cd" by blast
  have "cd_selected cd = cd_secondary cd"
    using preferred_fallback_has_no_substitute [OF cd, of sample_profile]
    by (simp add: sample_profile_def sample_preference_def)
  with cd show ?thesis by blast
qed


end
