(* ===== verification/Budget.thy ===== *)
theory Budget
  imports Feature_Flags Model_Router
begin

text \<open>
  Token and money budget (\<open>src/budget/\<close>): prices and cost (\<open>cost.ts\<close>), thresholds (\<open>budget.logic.ts\<close>),
  the session map and the daily and hourly tables (\<open>budget.service.ts\<close>), the runaway kill switch
  (\<open>kill-switch.logic.ts\<close>, \<open>kill-switch.service.ts\<close>), the alert monitor (\<open>budget-alert.monitor.ts\<close>) and the
  guard around the model router (\<open>budget-guarded-router.service.ts\<close>).

  Token counts are 32-bit integer columns, whose overflow is an error of the upsert; money is an exact
  rational, rounded to six decimals when it is stored in its \<open>numeric(12, 6)\<close> column. \<open>tz\<close> is the offset
  of the process's time zone in milliseconds.
\<close>

section \<open>Configuration and tables\<close>

record BudgetConfig =
  b_sessionMaxInputTokens :: int
  b_sessionMaxOutputTokens :: int
  b_dailyMaxTokens :: int
  b_dailyMaxUsd :: rat
  b_runawayMultiplier :: rat
  b_runawayLookbackHours :: int
  b_runawayMinHourlyTokens :: int

record ModelPrice =
  inputPerMillion :: rat
  outputPerMillion :: rat

record SessionUsage =
  su_inputTokens :: int
  su_outputTokens :: int

record DailyUsage =
  du_inputTokens :: int
  du_outputTokens :: int
  du_costUsd :: rat

record daily_row = DailyUsage +
  dr_date :: string
  dr_updatedAt :: timestamp

record hour_row =
  hr_hourBucket :: timestamp
  hr_inputTokens :: int
  hr_outputTokens :: int
  hr_costUsd :: rat

record kill_row =
  ks_active :: bool
  ks_activatedAt :: "timestamp option"
  ks_reason :: "string option"

datatype metric = TokensConsumed string string int | BudgetRemaining rat | RunawayDetected

record budget_db = policy_db +
  budget_daily_usage :: "daily_row list"
  budget_hourly_usage :: "hour_row list"
  budget_kill_switch :: "kill_row option"
  sessionUsage :: "string \<rightharpoonup> SessionUsage"
  metrics :: "metric list"

section \<open>Cost\<close>

text \<open>\<open>/^(.+)-\d{8}$/\<close>: the name before a date suffix.\<close>

definition dated_alias :: "string \<Rightarrow> string option" where
  "dated_alias modelId =
     (let n = length modelId; alias = take (n - 9) modelId; suffix = drop (n - 9) modelId
      in if n \<ge> 10 \<and> hd suffix = CHR ''-'' \<and> list_all is_digit (tl suffix) \<and> CHR 0x0A \<notin> set alias \<and> CHR 0x0D \<notin> set alias
         then Some alias else None)"

definition resolvePrice :: "(string \<rightharpoonup> ModelPrice) \<Rightarrow> string \<Rightarrow> ModelPrice option" where
  "resolvePrice prices modelId =
     (case prices modelId of
        Some exact \<Rightarrow> Some exact
      | None \<Rightarrow> (case dated_alias modelId of None \<Rightarrow> None | Some alias \<Rightarrow> prices alias))"

definition computeCostUsd :: "(string \<rightharpoonup> ModelPrice) \<Rightarrow> string \<Rightarrow> int \<Rightarrow> int \<Rightarrow> jin_error + rat" where
  "computeCostUsd prices modelId inputTokens outputTokens =
     (case resolvePrice prices modelId of
        None \<Rightarrow> Inl (OtherError ''No hay precio configurado'')
      | Some price \<Rightarrow> Inr (of_int inputTokens / 1000000 * inputPerMillion price
          + of_int outputTokens / 1000000 * outputPerMillion price))"

section \<open>Thresholds\<close>

definition computeDailyUsageRatio :: "'u DailyUsage_scheme \<Rightarrow> BudgetConfig \<Rightarrow> rat" where
  "computeDailyUsageRatio daily config =
     max (of_int (du_inputTokens daily + du_outputTokens daily) / of_int (b_dailyMaxTokens config))
         (du_costUsd daily / b_dailyMaxUsd config)"

definition wouldExceedSessionBudget :: "SessionUsage \<Rightarrow> int \<Rightarrow> int \<Rightarrow> BudgetConfig \<Rightarrow> bool" where
  "wouldExceedSessionBudget session estimatedInputTokens maxOutputTokens config \<longleftrightarrow>
     su_inputTokens session + estimatedInputTokens > b_sessionMaxInputTokens config \<or>
     su_outputTokens session + maxOutputTokens > b_sessionMaxOutputTokens config"

text \<open>Local calendar date and hour.\<close>

definition todayLocalDate :: "int \<Rightarrow> timestamp \<Rightarrow> string" where
  "todayLocalDate tz now = (case local_date tz now of (y, m, d) \<Rightarrow>
     show_int y @ ''-'' @ padStart 2 (CHR ''0'') (show_int m) @ ''-'' @ padStart 2 (CHR ''0'') (show_int d))"

definition currentHourBucket :: "int \<Rightarrow> timestamp \<Rightarrow> timestamp" where
  "currentHourBucket tz now = local_hour_start tz now"

section \<open>The budget service\<close>

definition getSessionUsage :: "string \<Rightarrow> 's budget_db_scheme \<Rightarrow> SessionUsage" where
  "getSessionUsage sessionId db = (case sessionUsage db sessionId of
     Some u \<Rightarrow> u | None \<Rightarrow> \<lparr>su_inputTokens = 0, su_outputTokens = 0\<rparr>)"

definition getDailyUsage :: "int \<Rightarrow> timestamp \<Rightarrow> 's budget_db_scheme \<Rightarrow> DailyUsage" where
  "getDailyUsage tz now db = (case lookup_row dr_date (budget_daily_usage db) (todayLocalDate tz now) of
     Some r \<Rightarrow> DailyUsage.truncate r
   | None \<Rightarrow> \<lparr>du_inputTokens = 0, du_outputTokens = 0, du_costUsd = 0\<rparr>)"

definition getDailyUsageRatio :: "BudgetConfig \<Rightarrow> int \<Rightarrow> timestamp \<Rightarrow> 's budget_db_scheme \<Rightarrow> rat" where
  "getDailyUsageRatio config tz now db = computeDailyUsageRatio (getDailyUsage tz now db) config"

definition checkBeforeCall :: "BudgetConfig \<Rightarrow> int \<Rightarrow> timestamp \<Rightarrow> string \<Rightarrow> int \<Rightarrow> int \<Rightarrow> 's budget_db_scheme \<Rightarrow> jin_error + rat" where
  "checkBeforeCall config tz now sessionId estimatedInputTokens maxOutputTokens db =
     (if wouldExceedSessionBudget (getSessionUsage sessionId db) estimatedInputTokens maxOutputTokens config
      then Inl (SessionBudgetExceededError sessionId)
      else let usedRatio = getDailyUsageRatio config tz now db in
        if usedRatio \<ge> 1 then Inl DailyBudgetExceededError else Inr (max 0 (1 - usedRatio)))"

text \<open>The columns: a 32-bit \<open>integer\<close>, and \<open>numeric(12, 6)\<close>, which rounds to six decimals.\<close>

definition int4_ok :: "int \<Rightarrow> bool" where
  "int4_ok n \<longleftrightarrow> - (2 ^ 31) \<le> n \<and> n < 2 ^ 31"

definition numeric_12_6 :: "rat \<Rightarrow> rat" where
  "numeric_12_6 x = of_int \<lfloor>x * 1000000 + 1 / 2\<rfloor> / 1000000"

definition numeric_ok :: "rat \<Rightarrow> bool" where
  "numeric_ok x \<longleftrightarrow> \<bar>x\<bar> < 1000000"

definition upsert_daily :: "string \<Rightarrow> timestamp \<Rightarrow> int \<Rightarrow> int \<Rightarrow> rat \<Rightarrow> 's budget_db_scheme
    \<Rightarrow> (jin_error + unit) \<times> 's budget_db_scheme" where
  "upsert_daily today updatedAt inp out cost db =
     (let old = lookup_row dr_date (budget_daily_usage db) today;
          inp' = (case old of Some r \<Rightarrow> du_inputTokens r + inp | None \<Rightarrow> inp);
          out' = (case old of Some r \<Rightarrow> du_outputTokens r + out | None \<Rightarrow> out);
          cost' = numeric_12_6 (case old of Some r \<Rightarrow> du_costUsd r + cost | None \<Rightarrow> cost)
      in if \<not> int4_ok inp' \<or> \<not> int4_ok out' \<or> \<not> numeric_ok cost' then (Inl (OtherError ''numeric_value_out_of_range''), db)
         else (Inr (), db\<lparr>budget_daily_usage := (case old of
               None \<Rightarrow> budget_daily_usage db @
                 [\<lparr>du_inputTokens = inp', du_outputTokens = out', du_costUsd = cost', dr_date = today, dr_updatedAt = updatedAt\<rparr>]
             | Some _ \<Rightarrow> update_rows (\<lambda>r. dr_date r = today) (\<lambda>r. r\<lparr>du_inputTokens := inp', du_outputTokens := out',
                   du_costUsd := cost', dr_updatedAt := updatedAt\<rparr>) (budget_daily_usage db))\<rparr>))"

definition upsert_hourly :: "timestamp \<Rightarrow> int \<Rightarrow> int \<Rightarrow> rat \<Rightarrow> 's budget_db_scheme \<Rightarrow> (jin_error + unit) \<times> 's budget_db_scheme" where
  "upsert_hourly bucket inp out cost db =
     (let old = lookup_row hr_hourBucket (budget_hourly_usage db) bucket;
          inp' = (case old of Some r \<Rightarrow> hr_inputTokens r + inp | None \<Rightarrow> inp);
          out' = (case old of Some r \<Rightarrow> hr_outputTokens r + out | None \<Rightarrow> out);
          cost' = numeric_12_6 (case old of Some r \<Rightarrow> hr_costUsd r + cost | None \<Rightarrow> cost)
      in if \<not> int4_ok inp' \<or> \<not> int4_ok out' \<or> \<not> numeric_ok cost' then (Inl (OtherError ''numeric_value_out_of_range''), db)
         else (Inr (), db\<lparr>budget_hourly_usage := (case old of
               None \<Rightarrow> budget_hourly_usage db @
                 [\<lparr>hr_hourBucket = bucket, hr_inputTokens = inp', hr_outputTokens = out', hr_costUsd = cost'\<rparr>]
             | Some _ \<Rightarrow> update_rows (\<lambda>r. hr_hourBucket r = bucket) (\<lambda>r. r\<lparr>hr_inputTokens := inp', hr_outputTokens := out',
                   hr_costUsd := cost'\<rparr>) (budget_hourly_usage db))\<rparr>))"

record usage_io =
  u_day :: timestamp
  u_updatedAt :: timestamp
  u_hour :: timestamp
  u_after :: timestamp

definition recordUsage :: "BudgetConfig \<Rightarrow> (string \<rightharpoonup> ModelPrice) \<Rightarrow> int \<Rightarrow> usage_io \<Rightarrow> string \<Rightarrow> string \<Rightarrow> string
    \<Rightarrow> int \<Rightarrow> int \<Rightarrow> 's budget_db_scheme \<Rightarrow> (jin_error + unit) \<times> 's budget_db_scheme" where
  "recordUsage config prices tz io sessionId modelId taskProfile inp out db =
     (case computeCostUsd prices modelId inp out of
        Inl e \<Rightarrow> (Inl e, db)
      | Inr costUsd \<Rightarrow>
          (let session = getSessionUsage sessionId db;
               db1 = db\<lparr>sessionUsage := (sessionUsage db)(sessionId \<mapsto>
                 \<lparr>su_inputTokens = su_inputTokens session + inp, su_outputTokens = su_outputTokens session + out\<rparr>)\<rparr>
           in bind_result (upsert_daily (todayLocalDate tz (u_day io)) (u_updatedAt io) inp out costUsd db1)
                (\<lambda>_ db2. bind_result (upsert_hourly (currentHourBucket tz (u_hour io)) inp out costUsd db2)
                  (\<lambda>_ db3. (Inr (), db3\<lparr>metrics := metrics db3 @ [TokensConsumed modelId taskProfile (inp + out),
                     BudgetRemaining (max 0 (1 - getDailyUsageRatio config tz (u_after io) db3))]\<rparr>)))))"

definition getLimits :: "BudgetConfig \<Rightarrow> int \<times> rat" where
  "getLimits config = (b_dailyMaxTokens config, b_dailyMaxUsd config)"

section \<open>The kill switch\<close>

definition isRunawayDetected :: "int \<Rightarrow> hour_row list \<Rightarrow> BudgetConfig \<Rightarrow> bool" where
  "isRunawayDetected currentHourUsage lookbackHours config =
     (if lookbackHours = [] then False
      else if currentHourUsage < b_runawayMinHourlyTokens config then False
      else let lookbackTotal = foldl (\<lambda>sum hour. sum + hr_inputTokens hour + hr_outputTokens hour) 0 lookbackHours;
               avgHourlyUsage = of_int lookbackTotal / of_int (b_runawayLookbackHours config)
        in if avgHourlyUsage \<le> 0 then False
           else of_int currentHourUsage > avgHourlyUsage * b_runawayMultiplier config)"

definition isActive :: "'s budget_db_scheme \<Rightarrow> bool" where
  "isActive db = (case budget_kill_switch db of Some r \<Rightarrow> ks_active r | None \<Rightarrow> False)"

definition upsertState :: "kill_row \<Rightarrow> 's budget_db_scheme \<Rightarrow> 's budget_db_scheme" where
  "upsertState state db = db\<lparr>budget_kill_switch := Some state\<rparr>"

definition unpause :: "'s budget_db_scheme \<Rightarrow> 's budget_db_scheme" where
  "unpause db = upsertState \<lparr>ks_active = False, ks_activatedAt = None, ks_reason = None\<rparr> db"

definition getHourUsageDetail :: "BudgetConfig \<Rightarrow> int \<Rightarrow> timestamp \<Rightarrow> 's budget_db_scheme \<Rightarrow> int \<times> hour_row list" where
  "getHourUsageDetail config tz now db =
     (let currentBucket = currentHourBucket tz now;
          lookbackStart = currentBucket - b_runawayLookbackHours config * 60 * 60 * 1000;
          currentRow = lookup_row hr_hourBucket (budget_hourly_usage db) currentBucket
      in ((case currentRow of Some r \<Rightarrow> hr_inputTokens r + hr_outputTokens r | None \<Rightarrow> 0),
          filter (\<lambda>r. lookbackStart \<le> hr_hourBucket r \<and> hr_hourBucket r < currentBucket) (budget_hourly_usage db)))"

text \<open>\<open>describe\<close> stands for the text of the reason, which quotes the numbers.\<close>

definition checkRunaway :: "BudgetConfig \<Rightarrow> int \<Rightarrow> (int \<Rightarrow> BudgetConfig \<Rightarrow> string) \<Rightarrow> timestamp \<Rightarrow> timestamp
    \<Rightarrow> 's budget_db_scheme \<Rightarrow> 's budget_db_scheme" where
  "checkRunaway config tz reason now activatedAt db =
     (if isActive db then db
      else case getHourUsageDetail config tz now db of (currentHourTokens, lookbackRows) \<Rightarrow>
        if isRunawayDetected currentHourTokens lookbackRows config
        then let db1 = upsertState \<lparr>ks_active = True, ks_activatedAt = Some activatedAt,
                   ks_reason = Some (reason currentHourTokens config)\<rparr> db
          in db1\<lparr>metrics := metrics db1 @ [RunawayDetected]\<rparr>
        else db)"

record KillSwitchStatus =
  st_active :: bool
  st_activatedAt :: "string option"
  st_reason :: "string option"
  st_currentHourTokens :: int
  st_avgHourlyTokens :: rat

definition getStatus :: "BudgetConfig \<Rightarrow> int \<Rightarrow> timestamp \<Rightarrow> 's budget_db_scheme \<Rightarrow> KillSwitchStatus" where
  "getStatus config tz now db =
     (case getHourUsageDetail config tz now db of (currentHourTokens, lookbackRows) \<Rightarrow>
       (let lookbackTotal = foldl (\<lambda>sum hour. sum + hr_inputTokens hour + hr_outputTokens hour) 0 lookbackRows;
            row = budget_kill_switch db
        in \<lparr>st_active = isActive db,
            st_activatedAt = (case row of Some r \<Rightarrow> map_option toISOString (ks_activatedAt r) | None \<Rightarrow> None),
            st_reason = (case row of Some r \<Rightarrow> ks_reason r | None \<Rightarrow> None),
            st_currentHourTokens = currentHourTokens,
            st_avgHourlyTokens = (if lookbackRows \<noteq> [] then of_int lookbackTotal / of_int (b_runawayLookbackHours config)
              else 0)\<rparr>))"

section \<open>The alert monitor\<close>

datatype budget_event = ThresholdCrossed rat rat | KillSwitchActivated "string option" "string option"

record monitor =
  notifiedThresholdsToday :: "rat list"
  lastResetDate :: string
  lastKillSwitchActive :: bool

definition DAILY_ALERT_THRESHOLDS :: "rat list" where
  "DAILY_ALERT_THRESHOLDS = [4 / 5, 1]"

definition checkKillSwitch :: "KillSwitchStatus \<Rightarrow> monitor \<Rightarrow> budget_event list \<times> monitor" where
  "checkKillSwitch status m =
     (if st_active status \<and> \<not> lastKillSwitchActive m then [KillSwitchActivated (st_reason status) (st_activatedAt status)] else [],
      m\<lparr>lastKillSwitchActive := st_active status\<rparr>)"

text \<open>The day of the alerts is the UTC date of the clock.\<close>

definition checkDailyThresholds :: "timestamp \<Rightarrow> rat \<Rightarrow> monitor \<Rightarrow> budget_event list \<times> monitor" where
  "checkDailyThresholds now ratio m =
     (let today = take 10 (toISOString now);
          m1 = (if today \<noteq> lastResetDate m then m\<lparr>notifiedThresholdsToday := [], lastResetDate := today\<rparr> else m);
          crossed = filter (\<lambda>t. ratio \<ge> t \<and> t \<notin> set (notifiedThresholdsToday m1)) DAILY_ALERT_THRESHOLDS
      in (map (ThresholdCrossed ratio) crossed, m1\<lparr>notifiedThresholdsToday := notifiedThresholdsToday m1 @ crossed\<rparr>))"

definition monitor_check :: "BudgetConfig \<Rightarrow> int \<Rightarrow> timestamp \<Rightarrow> 's budget_db_scheme \<Rightarrow> monitor \<Rightarrow> budget_event list \<times> monitor" where
  "monitor_check config tz now db m =
     (case checkKillSwitch (getStatus config tz now db) m of (e1, m1) \<Rightarrow>
       (case checkDailyThresholds now (getDailyUsageRatio config tz now db) m1 of (e2, m2) \<Rightarrow> (e1 @ e2, m2)))"

section \<open>The guarded router\<close>

definition tools_json :: "ModelToolDeclaration list \<Rightarrow> json" where
  "tools_json tools = JArr (map (\<lambda>t. JObj [(''name'', JStr (td_name t)), (''description'', JStr (td_description t)),
     (''inputSchema'', td_inputSchema t)]) tools)"

definition estimateRequestTokens :: "ModelCompletionRequest \<Rightarrow> int" where
  "estimateRequestTokens request =
     (case rq_systemPrompt request of Some p \<Rightarrow> if p = [] then 0 else estimateTokens p | None \<Rightarrow> 0)
     + estimateMessagesTokens (rq_messages request)
     + (case rq_tools request of Some tools \<Rightarrow> estimateTokens (stringify (tools_json tools)) | None \<Rightarrow> 0)"

record guard_env =
  ge_budget :: BudgetConfig
  ge_prices :: "string \<rightharpoonup> ModelPrice"
  ge_tz :: int
  ge_router :: router_config

record guard_io =
  gi_uuid :: uuid
  gi_check :: timestamp
  gi_usage :: usage_io

definition guarded :: "guard_env \<Rightarrow> guard_io \<Rightarrow> TaskProfile \<Rightarrow> ModelCompletionRequest \<Rightarrow> SelectModelHints option
    \<Rightarrow> string option \<Rightarrow> (SelectModelHints \<Rightarrow> 'w \<Rightarrow> 'd \<times> (jin_error + ModelCompletionResponse) \<times> 'w) \<Rightarrow> 'd
    \<Rightarrow> 's budget_db_scheme \<times> 'w \<Rightarrow> 'd \<times> (jin_error + ModelCompletionResponse) \<times> 's budget_db_scheme \<times> 'w" where
  "guarded env io taskProfile request hints sessionId call nothing st =
     (case st of (db, w) \<Rightarrow>
       if isActive db then (nothing, Inl (KillSwitchActiveError ''todas las llamadas al ModelProvider'') , db, w)
       else let effectiveSessionId = (case sessionId of Some s \<Rightarrow> s | None \<Rightarrow> gi_uuid io);
                estimated = (case hints of
                    Some h \<Rightarrow> (case h_estimatedInputTokens h of Some e \<Rightarrow> e | None \<Rightarrow> estimateRequestTokens request)
                  | None \<Rightarrow> estimateRequestTokens request)
         in case checkBeforeCall (ge_budget env) (ge_tz env) (gi_check io) effectiveSessionId estimated
                (rq_maxOutputTokens request) db of
              Inl e \<Rightarrow> (nothing, Inl e, db, w)
            | Inr budgetRemaining \<Rightarrow>
                (case call \<lparr>h_estimatedInputTokens = Some estimated,
                      h_latencyLow = (case hints of Some h \<Rightarrow> h_latencyLow h | None \<Rightarrow> False),
                      h_budgetRemaining = Some budgetRemaining\<rparr> w of
                   (d, Inl e, w1) \<Rightarrow> (d, Inl e, db, w1)
                 | (d, Inr response, w1) \<Rightarrow>
                     (case recordUsage (ge_budget env) (ge_prices env) (ge_tz env) (gi_usage io) effectiveSessionId
                          (rs_modelId response) (profile_name taskProfile) (rs_inputTokens response)
                          (rs_outputTokens response) db of
                        (Inl e, db1) \<Rightarrow> (d, Inl e, db1, w1)
                      | (Inr _, db1) \<Rightarrow> (d, Inr response, db1, w1))))"

text \<open>\<open>complete\<close> and \<open>completeStream\<close> repeat the same steps around their own router call.\<close>

definition guarded_complete :: "'w providers \<Rightarrow> guard_env \<Rightarrow> guard_io \<Rightarrow> TaskProfile \<Rightarrow> ModelCompletionRequest
    \<Rightarrow> SelectModelHints option \<Rightarrow> string option \<Rightarrow> 's budget_db_scheme \<times> 'w
    \<Rightarrow> (jin_error + ModelCompletionResponse) \<times> 's budget_db_scheme \<times> 'w" where
  "guarded_complete pv env io taskProfile request hints sessionId st =
     snd (guarded env io taskProfile request hints sessionId
       (\<lambda>h w. ((), router_complete pv (ge_router env) taskProfile request h w)) () st)"

definition guarded_completeStream :: "'w providers \<Rightarrow> guard_env \<Rightarrow> guard_io \<Rightarrow> TaskProfile \<Rightarrow> ModelCompletionRequest
    \<Rightarrow> SelectModelHints option \<Rightarrow> string option \<Rightarrow> 's budget_db_scheme \<times> 'w
    \<Rightarrow> delta list \<times> (jin_error + ModelCompletionResponse) \<times> 's budget_db_scheme \<times> 'w" where
  "guarded_completeStream pv env io taskProfile request hints sessionId st =
     guarded env io taskProfile request hints sessionId
       (router_completeStream pv (ge_router env) taskProfile request) [] st"

section \<open>The guard\<close>

lemma guarded_cases:
  assumes "guarded env io tp rq hints sid call nothing (db, w) = (d, res, db', w')"
  obtains (blocked) e where "res = Inl e" "d = nothing" "db' = db" "w' = w"
      "isActive db \<Longrightarrow> e = KillSwitchActiveError ''todas las llamadas al ModelProvider''"
  | (called) est h r where "\<not> isActive db"
      "est = (case hints of Some h \<Rightarrow> (case h_estimatedInputTokens h of Some e \<Rightarrow> e | None \<Rightarrow> estimateRequestTokens rq)
        | None \<Rightarrow> estimateRequestTokens rq)"
      "\<not> wouldExceedSessionBudget (getSessionUsage (case sid of Some s \<Rightarrow> s | None \<Rightarrow> gi_uuid io) db) est
         (rq_maxOutputTokens rq) (ge_budget env)"
      "getDailyUsageRatio (ge_budget env) (ge_tz env) (gi_check io) db < 1"
      "call h w = (d, r, w')"
      "\<And>e. r = Inl e \<Longrightarrow> res = Inl e \<and> db' = db"
      "\<And>a. r = Inr a \<Longrightarrow> \<exists>x. recordUsage (ge_budget env) (ge_prices env) (ge_tz env) (gi_usage io)
          (case sid of Some s \<Rightarrow> s | None \<Rightarrow> gi_uuid io) (rs_modelId a) (profile_name tp) (rs_inputTokens a)
          (rs_outputTokens a) db = (x, db') \<and> (case x of Inl e \<Rightarrow> res = Inl e | Inr _ \<Rightarrow> res = Inr a)"
proof (cases "isActive db")
  case True
  with assms show thesis by (intro blocked) (auto simp: guarded_def)
next
  case False
  let ?sid = "case sid of Some s \<Rightarrow> s | None \<Rightarrow> gi_uuid io"
  define est where "est = (case hints of Some h \<Rightarrow> (case h_estimatedInputTokens h of Some e \<Rightarrow> e
      | None \<Rightarrow> estimateRequestTokens rq) | None \<Rightarrow> estimateRequestTokens rq)"
  note run = assms [unfolded guarded_def Let_def, simplified False prod.case if_False, folded est_def]
  show thesis
  proof (cases "checkBeforeCall (ge_budget env) (ge_tz env) (gi_check io) ?sid est (rq_maxOutputTokens rq) db")
    case (Inl e)
    with run False show thesis by (intro blocked) auto
  next
    case (Inr b)
    define h where "h = \<lparr>h_estimatedInputTokens = Some est, h_latencyLow = (case hints of Some h \<Rightarrow> h_latencyLow h | None \<Rightarrow> False),
        h_budgetRemaining = Some b\<rparr>"
    from Inr have ok: "\<not> wouldExceedSessionBudget (getSessionUsage ?sid db) est (rq_maxOutputTokens rq) (ge_budget env)"
        "getDailyUsageRatio (ge_budget env) (ge_tz env) (gi_check io) db < 1"
      by (auto simp: checkBeforeCall_def Let_def split: if_splits)
    obtain d1 r w1 where c: "call h w = (d1, r, w1)" by (cases "call h w")
    show thesis
      by (rule called [OF False est_def ok, of h r])
        (use run Inr c in \<open>auto simp: h_def [symmetric] split: sum.splits prod.splits\<close>)
  qed
qed

lemma upsert_frames [simp]:
  "sessionUsage (snd (upsert_daily day t inp out c db)) = sessionUsage db"
  "budget_kill_switch (snd (upsert_daily day t inp out c db)) = budget_kill_switch db"
  "budget_hourly_usage (snd (upsert_daily day t inp out c db)) = budget_hourly_usage db"
  "sessionUsage (snd (upsert_hourly hour inp out c db)) = sessionUsage db"
  "budget_kill_switch (snd (upsert_hourly hour inp out c db)) = budget_kill_switch db"
  "budget_daily_usage (snd (upsert_hourly hour inp out c db)) = budget_daily_usage db"
  by (simp_all add: upsert_daily_def upsert_hourly_def Let_def)

definition add_session :: "string \<Rightarrow> int \<Rightarrow> int \<Rightarrow> 's budget_db_scheme \<Rightarrow> (string \<rightharpoonup> SessionUsage)" where
  "add_session sid inp out db = (sessionUsage db)(sid \<mapsto>
     \<lparr>su_inputTokens = su_inputTokens (getSessionUsage sid db) + inp,
      su_outputTokens = su_outputTokens (getSessionUsage sid db) + out\<rparr>)"

lemma recordUsage_cases:
  assumes "recordUsage config prices tz io sid m tp inp out db = (x, db')"
  obtains (unpriced) e where "x = Inl e" "db' = db"
  | (recorded) "sessionUsage db' = add_session sid inp out db" "budget_kill_switch db' = budget_kill_switch db"
proof (cases "computeCostUsd prices m inp out")
  case (Inl e)
  with assms show thesis by (intro unpriced) (auto simp: recordUsage_def)
next
  case (Inr c)
  let ?db1 = "db\<lparr>sessionUsage := add_session sid inp out db\<rparr>"
  obtain r2 db2 where 2: "upsert_daily (todayLocalDate tz (u_day io)) (u_updatedAt io) inp out c ?db1 = (r2, db2)" by fastforce
  obtain r3 db3 where 3: "upsert_hourly (currentHourBucket tz (u_hour io)) inp out c db2 = (r3, db3)" by fastforce
  have s2: "sessionUsage db2 = add_session sid inp out db" "budget_kill_switch db2 = budget_kill_switch db"
    using upsert_frames(1,2) [of "todayLocalDate tz (u_day io)" "u_updatedAt io" inp out c ?db1] unfolding 2 by simp_all
  then have s3: "sessionUsage db3 = add_session sid inp out db" "budget_kill_switch db3 = budget_kill_switch db"
    using upsert_frames(4,5) [of "currentHourBucket tz (u_hour io)" inp out c db2] unfolding 3 by simp_all
  note run = assms [unfolded recordUsage_def Let_def Inr sum.case, folded add_session_def, unfolded 2]
  show thesis
    by (rule recorded) (use run s2 s3 3 in \<open>cases r2; cases r3; auto\<close>)+
qed

lemma getSessionUsage_add:
  "sessionUsage db' = add_session sid inp out db \<Longrightarrow> getSessionUsage k db' = (if k = sid
     then \<lparr>su_inputTokens = su_inputTokens (getSessionUsage sid db) + inp,
       su_outputTokens = su_outputTokens (getSessionUsage sid db) + out\<rparr>
     else getSessionUsage k db)"
  by (simp add: getSessionUsage_def [of k] add_session_def)

lemma recordUsage_session:
  assumes "recordUsage config prices tz io sid m tp inp out db = (x, db')"
  shows "getSessionUsage k db' = getSessionUsage k db \<or>
    k = sid \<and> getSessionUsage k db' = \<lparr>su_inputTokens = su_inputTokens (getSessionUsage sid db) + inp,
      su_outputTokens = su_outputTokens (getSessionUsage sid db) + out\<rparr>"
    and "x = Inr () \<Longrightarrow> getSessionUsage sid db' = \<lparr>su_inputTokens = su_inputTokens (getSessionUsage sid db) + inp,
      su_outputTokens = su_outputTokens (getSessionUsage sid db) + out\<rparr>"
  using assms by (cases rule: recordUsage_cases; simp add: getSessionUsage_add)+

text \<open>The model is only asked when the system is not paused, the session still has room for the estimated
  input and for all the output asked for, and the day's budget is not used up; otherwise the call ends
  in an error without touching the world, the tables or the session. An answer that is returned has been
  added to the session.\<close>

theorem model_called_only_within_budget:
  assumes "guarded_complete pv env io tp rq hints (Some sid) (db, w) = (res, db', w')"
  shows "(isActive db \<longrightarrow> res = Inl (KillSwitchActiveError ''todas las llamadas al ModelProvider'')) \<and>
    (isActive db \<or> 1 \<le> getDailyUsageRatio (ge_budget env) (ge_tz env) (gi_check io) db \<or>
       hints = None \<and> wouldExceedSessionBudget (getSessionUsage sid db) (estimateRequestTokens rq) (rq_maxOutputTokens rq)
         (ge_budget env) \<longrightarrow> (\<exists>e. res = Inl e) \<and> db' = db \<and> w' = w) \<and>
    (\<forall>a. res = Inr a \<longrightarrow> getSessionUsage sid db' =
       \<lparr>su_inputTokens = su_inputTokens (getSessionUsage sid db) + rs_inputTokens a,
        su_outputTokens = su_outputTokens (getSessionUsage sid db) + rs_outputTokens a\<rparr>)"
proof -
  obtain d where g: "guarded env io tp rq hints (Some sid) (\<lambda>h w. ((), router_complete pv (ge_router env) tp rq h w)) () (db, w)
      = (d, res, db', w')"
    using assms by (cases "guarded env io tp rq hints (Some sid) (\<lambda>h w. ((), router_complete pv (ge_router env) tp rq h w)) () (db, w)")
      (simp add: guarded_complete_def)
  then show ?thesis
  proof (cases rule: guarded_cases)
    case (blocked e)
    then show ?thesis by simp
  next
    case (called est h r)
    have "getSessionUsage sid db' = \<lparr>su_inputTokens = su_inputTokens (getSessionUsage sid db) + rs_inputTokens a,
        su_outputTokens = su_outputTokens (getSessionUsage sid db) + rs_outputTokens a\<rparr>" if "res = Inr a" for a
    proof -
      from that called(6) obtain a' where "r = Inr a'" by (cases r) auto
      from called(7) [OF this] obtain y where y: "recordUsage (ge_budget env) (ge_prices env) (ge_tz env) (gi_usage io) sid
          (rs_modelId a') (profile_name tp) (rs_inputTokens a') (rs_outputTokens a') db = (y, db')"
          "case y of Inl e \<Rightarrow> res = Inl e | Inr _ \<Rightarrow> res = Inr a'"
        by auto
      with that have "a' = a" and x: "y = Inr ()" by (cases y; simp)+
      from recordUsage_session(2) [OF y(1) x] this(1) show ?thesis by simp
    qed
    with called(1-4) show ?thesis by auto
  qed
qed

section \<open>The session's limits\<close>

text \<open>What the vendors' answers are known to respect: the input is at most the estimate plus \<open>ei\<close>, the output at
  most the requested maximum plus \<open>eo\<close>.\<close>

definition answers_within :: "int \<Rightarrow> int \<Rightarrow> 'w providers \<Rightarrow> bool" where
  "answers_within ei eo pv \<longleftrightarrow> (\<forall>v m rq w a w'. pv_complete pv v m rq w = (Inr a, w') \<or>
      (\<exists>stream ds. pv_stream pv v = Some stream \<and> stream m rq w = (ds, Inr a, w')) \<longrightarrow>
     rs_inputTokens a \<le> estimateRequestTokens rq + ei \<and> rs_outputTokens a \<le> rq_maxOutputTokens rq + eo)"

lemma withEffort_estimate [simp]:
  "estimateRequestTokens (withEffort rq e) = estimateRequestTokens rq"
  "rq_maxOutputTokens (withEffort rq e) = rq_maxOutputTokens rq"
  by (cases e; simp add: withEffort_def estimateRequestTokens_def)+

lemma call_model_within:
  assumes "answers_within ei eo pv" "call_model pv rq m w = (Inr a, w')"
  shows "rs_inputTokens a \<le> estimateRequestTokens rq + ei \<and> rs_outputTokens a \<le> rq_maxOutputTokens rq + eo"
  using assms unfolding call_model_def answers_within_def by (auto split: sum.splits)

lemma completeOrStream_within:
  assumes "answers_within ei eo pv" "completeOrStream pv rq m w = (ds, Inr a, w')"
  shows "rs_inputTokens a \<le> estimateRequestTokens rq + ei \<and> rs_outputTokens a \<le> rq_maxOutputTokens rq + eo"
proof -
  have within: "pv_complete pv v m rq w = (Inr a, w') \<or>
      (\<exists>stream ds. pv_stream pv v = Some stream \<and> stream m rq w = (ds, Inr a, w')) \<Longrightarrow>
      rs_inputTokens a \<le> estimateRequestTokens rq + ei \<and> rs_outputTokens a \<le> rq_maxOutputTokens rq + eo" for v m
    using assms(1) unfolding answers_within_def by blast
  obtain v where v: "providerFor m = Inr v" using assms(2) by (auto simp: completeOrStream_def split: sum.splits)
  show ?thesis
  proof (cases "pv_stream pv v")
    case None
    with assms(2) v show ?thesis
      by (intro within [of v "the m"]) (auto simp: completeOrStream_def split: sum.splits prod.splits)
  next
    case (Some stream)
    with assms(2) v show ?thesis by (intro within [of v "the m"]) (auto simp: completeOrStream_def)
  qed
qed

lemma first_success_Inr: "first_success e cs w = (Inr a, w') \<Longrightarrow> \<exists>c \<in> set cs. \<exists>w0. c w0 = (Inr a, w')"
  by (induction cs arbitrary: w) (auto split: prod.splits sum.splits)

lemma router_complete_within:
  assumes "answers_within ei eo pv" "router_complete pv rc tp rq h w = (Inr a, w')"
  shows "rs_inputTokens a \<le> estimateRequestTokens rq + ei \<and> rs_outputTokens a \<le> rq_maxOutputTokens rq + eo"
proof -
  from assms(2) obtain e m w0 where "call_model pv (withEffort rq e) m w0 = (Inr a, w')"
    by (auto simp: router_complete_def Let_def failover_first_success simp del: first_success.simps
        split: sum.splits dest!: first_success_Inr)
  from call_model_within [OF assms(1) this] show ?thesis by simp
qed

lemma router_completeStream_within:
  assumes "answers_within ei eo pv" "router_completeStream pv rc tp rq h w = (ds, Inr a, w')"
  shows "rs_inputTokens a \<le> estimateRequestTokens rq + ei \<and> rs_outputTokens a \<le> rq_maxOutputTokens rq + eo"
proof -
  from assms(2) obtain fc e m1 m2 where f: "executeWithFailoverStream fc (completeOrStream pv (withEffort rq e) m1)
      (completeOrStream pv (withEffort rq e) m2) w = (ds, Inr a, w')"
    by (auto simp: router_completeStream_def Let_def split: sum.splits)
  from stream_never_mixes_models [OF f] obtain m w0 where "completeOrStream pv (withEffort rq e) m w0 = (ds, Inr a, w')"
    by auto
  from completeOrStream_within [OF assms(1) this] show ?thesis by simp
qed

record guarded_call =
  gc_io :: guard_io
  gc_profile :: TaskProfile
  gc_request :: ModelCompletionRequest
  gc_latency :: "bool option"
  gc_session :: "string option"
  gc_stream :: bool

text \<open>A call as the services make it: none of them gives an estimate of its own.\<close>

definition gc_hints :: "guarded_call \<Rightarrow> SelectModelHints option" where
  "gc_hints c = map_option (\<lambda>l. \<lparr>h_estimatedInputTokens = None, h_latencyLow = l, h_budgetRemaining = None\<rparr>) (gc_latency c)"

definition run_call :: "'w providers \<Rightarrow> guard_env \<Rightarrow> guarded_call \<Rightarrow> 's budget_db_scheme \<times> 'w
    \<Rightarrow> (jin_error + ModelCompletionResponse) \<times> 's budget_db_scheme \<times> 'w" where
  "run_call pv env c st = (if gc_stream c
     then snd (guarded_completeStream pv env (gc_io c) (gc_profile c) (gc_request c) (gc_hints c) (gc_session c) st)
     else guarded_complete pv env (gc_io c) (gc_profile c) (gc_request c) (gc_hints c) (gc_session c) st)"

fun run_calls :: "'w providers \<Rightarrow> guard_env \<Rightarrow> guarded_call list \<Rightarrow> 's budget_db_scheme \<times> 'w \<Rightarrow> 's budget_db_scheme \<times> 'w" where
  "run_calls pv env [] st = st"
| "run_calls pv env (c # cs) st = run_calls pv env cs (snd (run_call pv env c st))"

definition sessions_within :: "BudgetConfig \<Rightarrow> int \<Rightarrow> int \<Rightarrow> 's budget_db_scheme \<Rightarrow> bool" where
  "sessions_within config ei eo db \<longleftrightarrow> (\<forall>sid. su_inputTokens (getSessionUsage sid db) \<le> b_sessionMaxInputTokens config + ei \<and>
     su_outputTokens (getSessionUsage sid db) \<le> b_sessionMaxOutputTokens config + eo)"

lemma guarded_sessions:
  assumes "guarded env io tp rq hints sid call nothing (db, w) = (d, res, db', w')"
    and "sessions_within (ge_budget env) ei eo db"
    and "\<And>h d a w'. call h w = (d, Inr a, w') \<Longrightarrow>
      rs_inputTokens a \<le> estimateRequestTokens rq + ei \<and> rs_outputTokens a \<le> rq_maxOutputTokens rq + eo"
    and "\<And>h. hints = Some h \<Longrightarrow> h_estimatedInputTokens h = None"
  shows "sessions_within (ge_budget env) ei eo db'"
  using assms(1)
proof (cases rule: guarded_cases)
  case (blocked e)
  with assms(2) show ?thesis by simp
next
  case (called est h r)
  have est: "est = estimateRequestTokens rq" using called(2) assms(4) by (auto split: option.splits)
  let ?sid = "case sid of Some s \<Rightarrow> s | None \<Rightarrow> gi_uuid io"
  show ?thesis
  proof (cases r)
    case (Inl e)
    with called(6) assms(2) show ?thesis by simp
  next
    case (Inr a)
    with called(7) obtain x where x: "recordUsage (ge_budget env) (ge_prices env) (ge_tz env) (gi_usage io) ?sid
        (rs_modelId a) (profile_name tp) (rs_inputTokens a) (rs_outputTokens a) db = (x, db')" by blast
    have "rs_inputTokens a \<le> estimateRequestTokens rq + ei \<and> rs_outputTokens a \<le> rq_maxOutputTokens rq + eo"
      using assms(3) called(5) Inr by blast
    with called(3) have room: "su_inputTokens (getSessionUsage ?sid db) + rs_inputTokens a \<le> b_sessionMaxInputTokens (ge_budget env) + ei"
        "su_outputTokens (getSessionUsage ?sid db) + rs_outputTokens a \<le> b_sessionMaxOutputTokens (ge_budget env) + eo"
      unfolding est wouldExceedSessionBudget_def by linarith+
    show ?thesis
      unfolding sessions_within_def
    proof
      fix k
      from recordUsage_session(1) [OF x, of k] assms(2) room
      show "su_inputTokens (getSessionUsage k db') \<le> b_sessionMaxInputTokens (ge_budget env) + ei \<and>
          su_outputTokens (getSessionUsage k db') \<le> b_sessionMaxOutputTokens (ge_budget env) + eo"
        unfolding sessions_within_def by auto
    qed
  qed
qed

text \<open>C16: whatever sequence of calls is made, streamed or not, no session ever goes over its limits by more than the
  error of one estimate: if the answers exceed the estimated input by at most \<open>ei\<close> tokens and the requested
  output by at most \<open>eo\<close>, every session stays within its limits plus these amounts, however many calls it
  makes.\<close>

theorem session_budget_bound:
  assumes "answers_within ei eo pv" "sessions_within (ge_budget env) ei eo db"
  shows "sessions_within (ge_budget env) ei eo (fst (run_calls pv env calls (db, w)))"
  using assms(2)
proof (induction calls arbitrary: db w)
  case Nil
  then show ?case by simp
next
  case (Cons c cs)
  obtain res db1 w1 where r: "run_call pv env c (db, w) = (res, db1, w1)" by (cases "run_call pv env c (db, w)")
  have hints: "gc_hints c = Some h \<Longrightarrow> h_estimatedInputTokens h = None" for h by (auto simp: gc_hints_def)
  have "sessions_within (ge_budget env) ei eo db1"
  proof (cases "gc_stream c")
    case True
    obtain ds where g: "guarded env (gc_io c) (gc_profile c) (gc_request c) (gc_hints c) (gc_session c)
        (router_completeStream pv (ge_router env) (gc_profile c) (gc_request c)) [] (db, w) = (ds, res, db1, w1)"
      using r True by (cases "guarded_completeStream pv env (gc_io c) (gc_profile c) (gc_request c) (gc_hints c) (gc_session c) (db, w)")
        (simp add: run_call_def guarded_completeStream_def)
    show ?thesis
      by (rule guarded_sessions [OF g Cons.prems]) (use router_completeStream_within [OF assms(1)] hints in blast)+
  next
    case False
    obtain d where g: "guarded env (gc_io c) (gc_profile c) (gc_request c) (gc_hints c) (gc_session c)
        (\<lambda>h w. ((), router_complete pv (ge_router env) (gc_profile c) (gc_request c) h w)) () (db, w) = (d, res, db1, w1)"
      using r False by (cases "guarded env (gc_io c) (gc_profile c) (gc_request c) (gc_hints c) (gc_session c)
        (\<lambda>h w. ((), router_complete pv (ge_router env) (gc_profile c) (gc_request c) h w)) () (db, w)")
        (simp add: run_call_def guarded_complete_def)
    show ?thesis
      by (rule guarded_sessions [OF g Cons.prems]) (use router_complete_within [OF assms(1)] hints in \<open>blast+\<close>)
  qed
  from Cons.IH [OF this] r show ?case by simp
qed


section \<open>The kill switch\<close>

datatype budget_op = OpCall guarded_call | OpCheckRunaway timestamp timestamp

fun run_budget_op :: "'w providers \<Rightarrow> guard_env \<Rightarrow> (int \<Rightarrow> BudgetConfig \<Rightarrow> string) \<Rightarrow> budget_op \<Rightarrow> 's budget_db_scheme \<times> 'w
    \<Rightarrow> 's budget_db_scheme \<times> 'w" where
  "run_budget_op pv env reason (OpCall c) st = snd (run_call pv env c st)"
| "run_budget_op pv env reason (OpCheckRunaway now clock) (db, w) =
     (checkRunaway (ge_budget env) (ge_tz env) reason now clock db, w)"

lemma paused_call:
  assumes "isActive db"
  shows "run_call pv env c (db, w) = (Inl (KillSwitchActiveError ''todas las llamadas al ModelProvider''), db, w)"
  using assms by (simp add: run_call_def guarded_complete_def guarded_completeStream_def guarded_def)

lemma paused_op: "isActive db \<Longrightarrow> run_budget_op pv env reason op (db, w) = (db, w)"
  by (cases op) (simp_all add: paused_call checkRunaway_def)

lemma paused_run: "isActive db \<Longrightarrow> foldl (\<lambda>st op. run_budget_op pv env reason op st) (db, w) ops = (db, w)"
  by (induction ops) (simp_all add: paused_op)

text \<open>The code compares the current hour with the average over the whole look-back window.\<close>

definition runaway :: "BudgetConfig \<Rightarrow> int \<Rightarrow> hour_row list \<Rightarrow> bool" where
  "runaway config current rows \<longleftrightarrow> (let total = (\<Sum>r\<leftarrow>rows. hr_inputTokens r + hr_outputTokens r) in
     rows \<noteq> [] \<and> b_runawayMinHourlyTokens config \<le> current \<and> 0 < total \<and>
     b_runawayMultiplier config * of_int total < of_int current * of_int (b_runawayLookbackHours config))"

lemma isRunawayDetected_iff:
  assumes "0 < b_runawayLookbackHours config"
  shows "isRunawayDetected current rows config \<longleftrightarrow> runaway config current rows"
proof -
  have sum: "foldl (\<lambda>sum hour. sum + hr_inputTokens hour + hr_outputTokens hour) n rows =
      n + (\<Sum>r\<leftarrow>rows. hr_inputTokens r + hr_outputTokens r)" for n
    by (induction rows arbitrary: n) simp_all
  have h: "(0 :: rat) < of_int (b_runawayLookbackHours config)" using assms by simp
  have "of_int t / of_int (b_runawayLookbackHours config) \<le> (0 :: rat) \<longleftrightarrow> t \<le> 0" for t :: int
    using h by (simp add: divide_le_0_iff not_less)
  moreover have "of_int t / of_int (b_runawayLookbackHours config) * m < c \<longleftrightarrow> m * of_int t < c * of_int (b_runawayLookbackHours config)"
    for t :: int and m c :: rat
    using h by (simp add: pos_divide_less_eq mult.commute)
  ultimately show ?thesis
    by (auto simp: isRunawayDetected_def runaway_def Let_def sum not_less not_le)
qed

text \<open>C17: the kill switch. When the five-minute check finds a runaway hour (the floor reached and the hour above the
  configured multiple of the average of the window) it pauses the system: whatever calls and checks
  follow, every call is refused and nothing of the state or the world moves, until the owner unpauses.
  Without a runaway hour the check changes nothing.\<close>

theorem runaway_pauses_until_unpause:
  assumes "0 < b_runawayLookbackHours (ge_budget env)" "\<not> isActive db"
    and "getHourUsageDetail (ge_budget env) (ge_tz env) now db = (current, rows)"
    and "checkRunaway (ge_budget env) (ge_tz env) reason now clock db = db1"
  shows "if runaway (ge_budget env) current rows
    then isActive db1 \<and> foldl (\<lambda>st op. run_budget_op pv env reason op st) (db1, w) ops = (db1, w) \<and>
      fst (run_call pv env c (db1, w)) = Inl (KillSwitchActiveError ''todas las llamadas al ModelProvider'') \<and>
      \<not> isActive (unpause db1)
    else db1 = db"
proof (cases "runaway (ge_budget env) current rows")
  case True
  with assms(4) have "isActive db1"
    by (auto simp: checkRunaway_def assms(2,3) isRunawayDetected_iff [OF assms(1)] upsertState_def isActive_def)
  with True show ?thesis
    by (simp add: paused_run paused_call unpause_def upsertState_def isActive_def [of "budget_kill_switch_update _ _"])
next
  case False
  with assms(4) show ?thesis by (auto simp: checkRunaway_def assms(2,3) isRunawayDetected_iff [OF assms(1)])
qed

section \<open>The ledgers\<close>

definition daily_tokens :: "'s budget_db_scheme \<Rightarrow> int" where
  "daily_tokens db = (\<Sum>r\<leftarrow>budget_daily_usage db. du_inputTokens r + du_outputTokens r)"

definition hourly_tokens :: "'s budget_db_scheme \<Rightarrow> int" where
  "hourly_tokens db = (\<Sum>r\<leftarrow>budget_hourly_usage db. hr_inputTokens r + hr_outputTokens r)"

lemma sum_update_rows:
  assumes "distinct (map key rows)" "lookup_row key rows k = Some r" "\<And>r. key (f r) = key r"
  shows "(\<Sum>x\<leftarrow>update_rows (\<lambda>r. key r = k) f rows. (g x :: int)) = (\<Sum>x\<leftarrow>rows. g x) - g r + g (f r)"
  using assms(1,2)
proof (induction rows)
  case (Cons a rows)
  show ?case
  proof (cases "key a = k")
    case True
    with Cons.prems have "k \<notin> key ` set rows" "a = r" by auto
    then have "map (\<lambda>x. g (if key x = k then f x else x)) rows = map g rows" by (intro map_cong) auto
    from arg_cong [OF this, of sum_list] True \<open>a = r\<close> show ?thesis
      by (simp add: update_rows_def comp_def del: map_eq_conv)
  next
    case False
    with Cons show ?thesis by (simp add: update_rows_def)
  qed
qed simp

definition ledgers_wf :: "'s budget_db_scheme \<Rightarrow> bool" where
  "ledgers_wf db \<longleftrightarrow> distinct (map dr_date (budget_daily_usage db)) \<and> distinct (map hr_hourBucket (budget_hourly_usage db))"

lemma upsert_daily_total:
  assumes "upsert_daily day t inp out c db = (Inr u, db')" "distinct (map dr_date (budget_daily_usage db))"
  shows "daily_tokens db' = daily_tokens db + inp + out" "distinct (map dr_date (budget_daily_usage db'))"
proof -
  show "daily_tokens db' = daily_tokens db + inp + out"
  proof (cases "lookup_row dr_date (budget_daily_usage db) day")
    case None
    with assms(1) show ?thesis by (auto simp: upsert_daily_def Let_def daily_tokens_def split: if_splits)
  next
    case (Some r)
    with assms(1) have "budget_daily_usage db' = update_rows (\<lambda>r. dr_date r = day) (\<lambda>x. x\<lparr>du_inputTokens := du_inputTokens r + inp,
        du_outputTokens := du_outputTokens r + out, du_costUsd := numeric_12_6 (du_costUsd r + c), dr_updatedAt := t\<rparr>) (budget_daily_usage db)"
      by (auto simp: upsert_daily_def Let_def split: if_splits)
    then show ?thesis by (simp add: daily_tokens_def sum_update_rows [OF assms(2) Some])
  qed
  show "distinct (map dr_date (budget_daily_usage db'))"
    using assms by (auto simp: upsert_daily_def Let_def split: if_splits option.splits)
qed

lemma upsert_hourly_total:
  assumes "upsert_hourly hour inp out c db = (Inr u, db')" "distinct (map hr_hourBucket (budget_hourly_usage db))"
  shows "hourly_tokens db' = hourly_tokens db + inp + out" "distinct (map hr_hourBucket (budget_hourly_usage db'))"
proof -
  show "hourly_tokens db' = hourly_tokens db + inp + out"
  proof (cases "lookup_row hr_hourBucket (budget_hourly_usage db) hour")
    case None
    with assms(1) show ?thesis by (auto simp: upsert_hourly_def Let_def hourly_tokens_def split: if_splits)
  next
    case (Some r)
    with assms(1) have "budget_hourly_usage db' = update_rows (\<lambda>r. hr_hourBucket r = hour) (\<lambda>x. x\<lparr>hr_inputTokens := hr_inputTokens r + inp,
        hr_outputTokens := hr_outputTokens r + out, hr_costUsd := numeric_12_6 (hr_costUsd r + c)\<rparr>) (budget_hourly_usage db)"
      by (auto simp: upsert_hourly_def Let_def split: if_splits)
    then show ?thesis by (simp add: hourly_tokens_def sum_update_rows [OF assms(2) Some])
  qed
  show "distinct (map hr_hourBucket (budget_hourly_usage db'))"
    using assms by (auto simp: upsert_hourly_def Let_def split: if_splits option.splits)
qed

text \<open>The daily and the hourly ledger record the same tokens: each successful record adds its tokens to both.\<close>

lemma recordUsage_ledgers:
  assumes "recordUsage config prices tz io sid m tp inp out db = (Inr u, db')" "ledgers_wf db"
  shows "daily_tokens db' = daily_tokens db + inp + out \<and> hourly_tokens db' = hourly_tokens db + inp + out \<and> ledgers_wf db'"
proof -
  obtain c where c: "computeCostUsd prices m inp out = Inr c" using assms(1) by (auto simp: recordUsage_def split: sum.splits)
  let ?db1 = "db\<lparr>sessionUsage := add_session sid inp out db\<rparr>"
  note run = assms(1) [unfolded recordUsage_def Let_def c sum.case, folded add_session_def]
  from run obtain db2 db3 where 2: "upsert_daily (todayLocalDate tz (u_day io)) (u_updatedAt io) inp out c ?db1 = (Inr (), db2)"
    and 3: "upsert_hourly (currentHourBucket tz (u_hour io)) inp out c db2 = (Inr (), db3)"
    and db': "budget_daily_usage db' = budget_daily_usage db3" "budget_hourly_usage db' = budget_hourly_usage db3"
    by (auto simp: bind_result_Inr_iff)
  have frames: "budget_hourly_usage db2 = budget_hourly_usage db" "budget_daily_usage db3 = budget_daily_usage db2"
    using upsert_frames(3) [of "todayLocalDate tz (u_day io)" "u_updatedAt io" inp out c ?db1]
      upsert_frames(6) [of "currentHourBucket tz (u_hour io)" inp out c db2] unfolding 2 3 by simp_all
  have d: "distinct (map dr_date (budget_daily_usage ?db1))" "distinct (map hr_hourBucket (budget_hourly_usage db2))"
    using assms(2) frames by (simp_all add: ledgers_wf_def)
  from upsert_daily_total [OF 2 d(1)] upsert_hourly_total [OF 3 d(2)] frames db' show ?thesis
    by (simp add: ledgers_wf_def daily_tokens_def hourly_tokens_def)
qed


section \<open>Witnesses\<close>

definition sample_budget :: BudgetConfig where
  "sample_budget = \<lparr>b_sessionMaxInputTokens = 500000, b_sessionMaxOutputTokens = 100000, b_dailyMaxTokens = 5000000,
     b_dailyMaxUsd = 10, b_runawayMultiplier = 2, b_runawayLookbackHours = 24, b_runawayMinHourlyTokens = 500000\<rparr>"

definition sample_env :: guard_env where
  "sample_env = \<lparr>ge_budget = sample_budget, ge_prices = (\<lambda>m. Some \<lparr>inputPerMillion = 2, outputPerMillion = 10\<rparr>), ge_tz = 0,
     ge_router = \<lparr>rc_profiles = (\<lambda>_. Some sample_profile), rc_preference = None, rc_override = (\<lambda>_. None)\<rparr>\<rparr>"

definition sample_usage_io :: usage_io where
  "sample_usage_io = \<lparr>u_day = 7200000, u_updatedAt = 7200000, u_hour = 7200000, u_after = 7200000\<rparr>"

definition sample_guard_io :: guard_io where
  "sample_guard_io = \<lparr>gi_uuid = ''u'', gi_check = 7200000, gi_usage = sample_usage_io\<rparr>"

definition sample_request :: ModelCompletionRequest where
  "sample_request = \<lparr>rq_systemPrompt = None, rq_messages = [], rq_maxOutputTokens = 8000, rq_temperature = 1, rq_tools = None,
     rq_effort = None\<rparr>"

text \<open>A vendor that answers with four tokens in and five out when that many are allowed, and counts its calls.\<close>

definition sample_answer :: "string \<Rightarrow> ModelCompletionResponse" where
  "sample_answer m = \<lparr>rs_content = ''hola'', rs_modelId = m, rs_inputTokens = 4, rs_outputTokens = 5, rs_toolCalls = None,
     rs_stopReason = EndTurn\<rparr>"

definition sample_providers :: "nat providers" where
  "sample_providers = \<lparr>pv_complete = (\<lambda>v m rq w. if 5 \<le> rq_maxOutputTokens rq then (Inr (sample_answer m), w + 1)
     else (Inl (OtherError ''400''), w)), pv_stream = (\<lambda>v. None)\<rparr>"

definition sample_ledger :: "hour_row list \<Rightarrow> kill_row option \<Rightarrow> budget_db" where
  "sample_ledger hours kill = \<lparr>audit_log = [], audit_next_id = 1, audit_chain_lock = None, pending_approvals = [], events = [],
     autonomy_mode_state = None, feature_flag_hitl_overrides = [], budget_daily_usage = [], budget_hourly_usage = hours,
     budget_kill_switch = kill, sessionUsage = (\<lambda>_. None), metrics = []\<rparr>"

lemma sample_ledger_simps [simp]:
  "isActive (sample_ledger h None) = False" "getSessionUsage s (sample_ledger h k) = \<lparr>su_inputTokens = 0, su_outputTokens = 0\<rparr>"
  "budget_hourly_usage (sample_ledger h k) = h"
  "getDailyUsageRatio sample_budget tz t (sample_ledger h k) = 0"
  by (simp_all add: sample_ledger_def isActive_def getSessionUsage_def getDailyUsageRatio_def getDailyUsage_def
      computeDailyUsageRatio_def sample_budget_def)

theorem model_called_only_within_budget_witness:
  "\<exists>db'. guarded_complete sample_providers sample_env sample_guard_io ChatConversational sample_request None (Some ''s'')
      (sample_ledger [] None, 0) = (Inr (sample_answer ''claude-sonnet-5''), db', 1) \<and>
    getSessionUsage ''s'' db' = \<lparr>su_inputTokens = 4, su_outputTokens = 5\<rparr>"
proof -
  have est: "estimateRequestTokens sample_request = 0"
    by (simp add: estimateRequestTokens_def sample_request_def estimateMessagesTokens_def)
  have cd: "resolveCandidates (\<lambda>_. Some sample_profile) None (\<lambda>_. None) ChatConversational
      \<lparr>h_estimatedInputTokens = Some 0, h_latencyLow = False, h_budgetRemaining = Some 1\<rparr> =
      Inr \<lparr>cd_selected = Some ''claude-sonnet-5'', cd_tier = Primary, cd_secondary = Some ''claude-haiku-4-5'', cd_effort = None\<rparr>"
    by (simp add: resolveCandidates_def selectModel_def sample_profile_def LOW_BUDGET_REMAINING_THRESHOLD_def)
  have run: "router_complete sample_providers (ge_router sample_env) ChatConversational sample_request
      \<lparr>h_estimatedInputTokens = Some 0, h_latencyLow = False, h_budgetRemaining = Some 1\<rparr> 0 =
      (Inr (sample_answer ''claude-sonnet-5''), 1)"
    by (simp add: router_complete_def sample_env_def cd withEffort_def executeWithFailover_def retryOnce_def call_model_def
        providerFor_def sample_providers_def sample_request_def)
  have check: "checkBeforeCall sample_budget 0 7200000 ''s'' 0 8000 (sample_ledger [] None) = Inr 1"
    by (simp add: checkBeforeCall_def wouldExceedSessionBudget_def) (simp add: sample_budget_def)
  have rec: "\<exists>db'. recordUsage sample_budget (ge_prices sample_env) 0 sample_usage_io ''s'' ''claude-sonnet-5'' p 4 5
      (sample_ledger [] None) = (Inr (), db')" for p
    by (simp add: recordUsage_def computeCostUsd_def resolvePrice_def sample_env_def upsert_daily_def upsert_hourly_def
        sample_ledger_def int4_ok_def numeric_ok_def numeric_12_6_def Let_def)
  obtain db' where db': "recordUsage sample_budget (ge_prices sample_env) 0 sample_usage_io ''s'' ''claude-sonnet-5''
      ''chat_conversational'' 4 5 (sample_ledger [] None) = (Inr (), db')" using rec by blast
  have g: "guarded_complete sample_providers sample_env sample_guard_io ChatConversational sample_request None (Some ''s'')
      (sample_ledger [] None, 0) = (Inr (sample_answer ''claude-sonnet-5''), db', 1)"
    using run check db' est
    by (simp add: guarded_complete_def guarded_def sample_guard_io_def)
      (simp add: sample_env_def sample_request_def sample_answer_def)
  from model_called_only_within_budget [OF g] g show ?thesis by (auto simp: sample_answer_def)
qed

theorem session_budget_bound_witness:
  "sessions_within sample_budget 4 0 (fst (run_calls sample_providers sample_env
     (replicate 100 \<lparr>gc_io = sample_guard_io, gc_profile = ChatConversational, gc_request = sample_request, gc_latency = None,
       gc_session = Some ''s'', gc_stream = True\<rparr>) (sample_ledger [] None, 0)))"
proof -
  have est: "0 \<le> estimateRequestTokens rq" for rq
  proof -
    have "0 \<le> n \<Longrightarrow> 0 \<le> foldl (\<lambda>sum message. sum + estimateTokens (messageContentToText message)) n ms" for n ms
      by (induction ms arbitrary: n) simp_all
    then show ?thesis by (auto simp: estimateRequestTokens_def estimateMessagesTokens_def split: option.split)
  qed
  have "answers_within 4 0 sample_providers"
    using est by (auto simp: answers_within_def sample_providers_def sample_answer_def split: if_splits)
  moreover have "sessions_within (ge_budget sample_env) 4 0 (sample_ledger [] None)"
    by (simp add: sessions_within_def) (simp add: sample_env_def sample_budget_def)
  ultimately have "sessions_within (ge_budget sample_env) 4 0 (fst (run_calls sample_providers sample_env calls (sample_ledger [] None, 0)))"
    for calls by (rule session_budget_bound)
  then show ?thesis by (simp add: sample_env_def)
qed

theorem runaway_pauses_until_unpause_witness:
  "\<exists>db1. checkRunaway sample_budget 0 (\<lambda>_ _. ''runaway'') 7200000 7200000 (sample_ledger
      [\<lparr>hr_hourBucket = 3600000, hr_inputTokens = 24000, hr_outputTokens = 0, hr_costUsd = 0\<rparr>,
       \<lparr>hr_hourBucket = 7200000, hr_inputTokens = 500000, hr_outputTokens = 100, hr_costUsd = 0\<rparr>] None) = db1 \<and> isActive db1"
proof -
  let ?rows = "[\<lparr>hr_hourBucket = 3600000, hr_inputTokens = 24000, hr_outputTokens = 0, hr_costUsd = 0\<rparr>,
       \<lparr>hr_hourBucket = 7200000, hr_inputTokens = 500000, hr_outputTokens = 100, hr_costUsd = 0\<rparr>]"
  have d: "getHourUsageDetail (ge_budget sample_env) (ge_tz sample_env) 7200000 (sample_ledger ?rows None) = (500100, [hd ?rows])"
    by (simp add: getHourUsageDetail_def currentHourBucket_def local_hour_start_def sample_env_def sample_budget_def MS_PER_HOUR_def)
  have r: "runaway (ge_budget sample_env) 500100 [hd ?rows]"
    by (simp add: runaway_def sample_env_def sample_budget_def)
  have h: "0 < b_runawayLookbackHours (ge_budget sample_env)" by (simp add: sample_env_def sample_budget_def)
  from runaway_pauses_until_unpause [OF h _ d refl, where reason = "\<lambda>_ _. ''runaway''" and clock = 7200000
      and pv = sample_providers and w = 0 and ops = "[]"] r
  have "isActive (checkRunaway (ge_budget sample_env) (ge_tz sample_env) (\<lambda>_ _. ''runaway'') 7200000 7200000
      (sample_ledger ?rows None))"
    by simp
  then show ?thesis by (simp add: sample_env_def)
qed

end
