(* ===== verification/Agent_Turn.thy ===== *)
theory Agent_Turn
  imports Budget Untrusted_Content
begin

text \<open>
  The agent's turn (\<open>src/agent/agent.service.ts\<close>, \<open>src/agent/history-compaction.service.ts\<close>): the loop of
  model calls and tool calls, the two planning tools, the handling of a real tool call (integration
  switch, cap of identical failures, gate, deferral or execution, audit, notification, wrapping of the
  result) and the compaction of the history at the end.

  The loop runs on its remaining number of iterations. What each call meets (clock readings, fresh ids)
  is indexed by the iteration and the position of the call. The system prompt, the declarations of the
  tools and the text of an error are arguments. The texts shown to the model or the owner contain
  characters beyond Latin-1 (a dash, an ellipsis); they are written by their UTF-8 bytes.
\<close>

section \<open>Configuration and state\<close>

record AgentConfig =
  ac_maxIterationsPerTurn :: nat
  ac_maxConsecutiveToolFailures :: nat
  ac_maxConcurrentSubAgents :: nat
  ac_maxHistoryTokens :: int
  ac_preserveLastTurns :: nat
  ac_maxOutputTokens :: int

record agent_env =
  ag_sha :: "string \<Rightarrow> string"
  ag_modes :: AutonomyConfig
  ag_flags :: FeatureFlagsConfig
  ag_config :: AgentConfig
  ag_guard :: guard_env
  ag_errText :: "jin_error \<Rightarrow> string"
  ag_systemPrompt :: "string \<Rightarrow> string"
  ag_declare :: "string \<Rightarrow> ModelToolDeclaration"

datatype outcome = OSuccess | OError | ODeferred

datatype AgentProgressEvent =
    PPlan AgentPlan
  | PStarted string string "json option"
  | PFinished string string outcome "string option"
  | PTextDelta nat string string

text \<open>What the loop accumulates; \<open>ts_progress\<close> is what was emitted to a listener, when there is one.\<close>

record turn_state =
  ts_plan :: AgentPlan
  ts_pendingApprovals :: "(uuid \<times> string) list"
  ts_failures :: "string \<rightharpoonup> nat"
  ts_blocks :: "ModelMessageContentBlock list"
  ts_progress :: "AgentProgressEvent list"

record AgentTurnResult =
  tr_finalResponse :: string
  tr_plan :: AgentPlan
  tr_pendingApprovals :: "(uuid \<times> string) list"
  tr_iterationsUsed :: nat
  tr_modelsUsed :: "string list"
  tr_compactedHistory :: "ModelMessage list option"

definition em_dash :: string where
  "em_dash = [CHR 0xE2, CHR 0x80, CHR 0x94]"

definition progress :: "bool \<Rightarrow> AgentProgressEvent \<Rightarrow> turn_state \<Rightarrow> turn_state" where
  "progress on e ts = (if on then ts\<lparr>ts_progress := ts_progress ts @ [e]\<rparr> else ts)"

definition push_block :: "ModelMessageContentBlock \<Rightarrow> turn_state \<Rightarrow> turn_state" where
  "push_block b ts = ts\<lparr>ts_blocks := ts_blocks ts @ [b]\<rparr>"

definition buildToolResultBlock :: "string \<Rightarrow> string \<Rightarrow> bool \<Rightarrow> ModelMessageContentBlock" where
  "buildToolResultBlock toolCallId output isError = BToolResult toolCallId (JStr output) (if isError then Some True else None)"

definition PROGRESS_INPUT_MAX_CHARS :: nat where
  "PROGRESS_INPUT_MAX_CHARS = 4000"

definition truncateForProgress :: "json option \<Rightarrow> json option" where
  "truncateForProgress input = (case input of
      None \<Rightarrow> None
    | Some v \<Rightarrow> (let serialized = stringify v in
        if length serialized \<le> PROGRESS_INPUT_MAX_CHARS then Some v
        else Some (JStr (take PROGRESS_INPUT_MAX_CHARS serialized @ [CHR 0xE2, CHR 0x80, CHR 0xA6] @ ''[truncado]''))))"

section \<open>The planning tools\<close>

definition DECLARE_PLAN_TOOL_NAME :: string where
  "DECLARE_PLAN_TOOL_NAME = ''declarePlan''"

definition UPDATE_PLAN_STEP_TOOL_NAME :: string where
  "UPDATE_PLAN_STEP_TOOL_NAME = ''updatePlanStep''"

fun json_strings :: "json list \<Rightarrow> string list option" where
  "json_strings [] = Some []"
| "json_strings (JStr s # js) = map_option ((#) s) (json_strings js)"
| "json_strings _ = None"

definition parse_declarePlan :: "json option \<Rightarrow> string list option" where
  "parse_declarePlan input = (case json_field ''steps'' input of Some (JArr js) \<Rightarrow> json_strings js | _ \<Rightarrow> None)"

definition parse_updatePlanStep :: "json option \<Rightarrow> (int \<times> AgentStepStatus \<times> string option) option" where
  "parse_updatePlanStep input =
     (case (json_field ''stepIndex'' input, json_field ''status'' input) of
        (Some (JNum i), Some (JStr st)) \<Rightarrow>
          (case map_of AGENT_STEP_STATUSES st of
             None \<Rightarrow> None
           | Some status \<Rightarrow>
               (case json_field ''note'' input of
                  None \<Rightarrow> Some (i, status, None)
                | Some (JStr n) \<Rightarrow> Some (i, status, Some n)
                | Some _ \<Rightarrow> None))
      | _ \<Rightarrow> None)"

text \<open>\<open>zodText\<close> is the validation library's message.\<close>

definition handleDeclarePlan :: "string \<Rightarrow> ModelToolCall \<Rightarrow> turn_state \<Rightarrow> turn_state" where
  "handleDeclarePlan zodText call ts =
     (case parse_declarePlan (tc_input call) of
        None \<Rightarrow> (push_block (buildToolResultBlock (tc_id call)
            (''Input inv'' @ [CHR 0xE1] @ ''lido para declarePlan: '' @ zodText) True) ts)\<lparr>ts_plan := []\<rparr>
      | Some steps \<Rightarrow>
          (let plan = declarePlan steps
           in (push_block (buildToolResultBlock (tc_id call)
                (''Plan declarado con '' @ show_nat (length plan) @ '' paso(s).'') False) ts)\<lparr>ts_plan := plan\<rparr>))"

definition handleUpdatePlanStep :: "string \<Rightarrow> (jin_error \<Rightarrow> string) \<Rightarrow> ModelToolCall \<Rightarrow> turn_state \<Rightarrow> turn_state" where
  "handleUpdatePlanStep zodText errText call ts =
     (case parse_updatePlanStep (tc_input call) of
        None \<Rightarrow> push_block (buildToolResultBlock (tc_id call)
            (''Input inv'' @ [CHR 0xE1] @ ''lido para updatePlanStep: '' @ zodText) True) ts
      | Some (i, status, note) \<Rightarrow>
          (case updatePlanStep (ts_plan ts) i status note of
             Inl e \<Rightarrow> push_block (buildToolResultBlock (tc_id call) (errText e) True) ts
           | Inr updated \<Rightarrow> (push_block (buildToolResultBlock (tc_id call)
               (''Paso '' @ show_int i @ '' actualizado.'') False) ts)\<lparr>ts_plan := updated\<rparr>))"

definition buildToolDeclarations :: "(string \<Rightarrow> ModelToolDeclaration) \<Rightarrow> string list option \<Rightarrow> ModelToolDeclaration list" where
  "buildToolDeclarations declareTool allowedTools =
     map declareTool ([DECLARE_PLAN_TOOL_NAME, UPDATE_PLAN_STEP_TOOL_NAME] @
       map t_name (filter (\<lambda>t. case allowedTools of None \<Rightarrow> True | Some ns \<Rightarrow> t_name t \<in> set ns) listRegisteredTools))"

section \<open>A real tool call\<close>

record tool_io =
  ti_uuid :: uuid
  ti_relax :: relax_io
  ti_createdAt :: timestamp
  ti_audit :: audit_io

datatype tool_outcome = Deferred uuid | Executed string

definition deferral_input :: "(string \<Rightarrow> string) \<Rightarrow> HitlDecision \<Rightarrow> ModelToolCall \<Rightarrow> string \<Rightarrow> string \<Rightarrow> ModelMessage list
    \<Rightarrow> CreatePendingApprovalInput" where
  "deferral_input sha decision call sessionId actorLabel messages =
     \<lparr>c_requestId = d_requestId decision, c_toolName = tc_name call, c_level = level_name (d_level decision),
      c_inputsHash = computeInputsHash sha (tc_input call),
      c_planSummary = Some (''Tool '' @ [CHR 0x22] @ tc_name call @ [CHR 0x22] @ '' invocada por '' @ actorLabel
        @ '' (sesi'' @ [CHR 0xF3] @ ''n '' @ sessionId @ '')''),
      c_payload = tc_input call, c_actor = Some actorLabel,
      c_externalInputsSummary = summarizeUntrustedSources messages\<rparr>"

text \<open>The body of the \<open>try\<close>: gate, then either a pending approval or execution followed by the audit row, the
  notification and the wrapping of the result. An error leaves what was already written.\<close>

definition tool_attempt :: "agent_env \<Rightarrow> 's budget_db_scheme executors \<Rightarrow> tool_io \<Rightarrow> ModelToolCall \<Rightarrow> string \<Rightarrow> string \<Rightarrow> string
    \<Rightarrow> ModelMessage list \<Rightarrow> 's budget_db_scheme \<Rightarrow> (jin_error + tool_outcome) \<times> 's budget_db_scheme" where
  "tool_attempt env reg io call sessionId sessionNonce actorLabel messages db =
     bind_result (decide (ag_sha env) (ag_modes env) (ag_flags env) (ti_uuid io) (ti_relax io) (tc_name call) (tc_input call) db)
       (\<lambda>decision db1.
          let inputsHash = computeInputsHash (ag_sha env) (tc_input call) in
          if d_level decision = Lconfirm \<or> d_level decision = Ldual_confirm
          then bind_result (createPendingApproval (ag_sha env) (ti_createdAt io) (ti_audit io)
                 (deferral_input (ag_sha env) decision call sessionId actorLabel messages) db1)
               (\<lambda>_ db2. (Inr (Deferred (d_requestId decision)), db2))
          else bind_result (execute reg (tc_name call) (tc_input call) (Some (d_requestId decision)) db1)
            (\<lambda>result db2. bind_result (recordToolCall (ag_sha env) (ti_audit io) (d_requestId decision) actorLabel (tc_name call)
                  inputsHash
                  (map_option (\<lambda>r. ''Autoejecutada sin aprobaci'' @ [CHR 0xF3] @ ''n ('' @ r @ ''): '' @ [CHR 0x22] @ tc_name call
                     @ [CHR 0x22] @ '' era confirm'') (d_relaxedBy decision))
                  (if d_level decision = Lauto then ''auto'' else ''notified'') None db2)
              (\<lambda>_ db3.
                 let db4 = (if d_level decision = Lnotify
                       then emit (ActionNotified (d_requestId decision) (tc_name call) actorLabel (d_relaxedBy decision)) db3
                       else db3)
                 in (map_sum id Executed (wrapUntrustedContent (case stringifyToolResult (Some result) of Some t \<Rightarrow> t | None \<Rightarrow> [])
                       (tc_name call) sessionNonce), db4))))"

definition tool_error :: "bool \<Rightarrow> ModelToolCall \<Rightarrow> string \<Rightarrow> turn_state \<Rightarrow> turn_state" where
  "tool_error on call summary ts = progress on (PFinished (tc_id call) (tc_name call) OError (Some summary))
     (push_block (buildToolResultBlock (tc_id call) summary True) ts)"

definition integration_disabled :: "FeatureFlagsConfig \<Rightarrow> string \<Rightarrow> bool" where
  "integration_disabled flags name = (case getToolDefinition name of
      Some t \<Rightarrow> t_integration t \<noteq> None \<and> \<not> isIntegrationEnabled flags (t_integration t)
    | None \<Rightarrow> False)"

definition integration_name :: "IntegrationName \<Rightarrow> string" where
  "integration_name i = (case i of Icanvas \<Rightarrow> ''canvas'' | Igoogle \<Rightarrow> ''google'' | Imcp \<Rightarrow> ''mcp'' | Itelegram \<Rightarrow> ''telegram'')"

definition failure_count :: "string \<Rightarrow> turn_state \<Rightarrow> nat" where
  "failure_count key ts = (case ts_failures ts key of Some n \<Rightarrow> n | None \<Rightarrow> 0)"

definition handleRealToolCall :: "agent_env \<Rightarrow> 's budget_db_scheme executors \<Rightarrow> tool_io \<Rightarrow> ModelToolCall \<Rightarrow> string \<Rightarrow> string \<Rightarrow> string
    \<Rightarrow> ModelMessage list \<Rightarrow> bool \<Rightarrow> turn_state \<times> 's budget_db_scheme \<Rightarrow> turn_state \<times> 's budget_db_scheme" where
  "handleRealToolCall env reg io call sessionId sessionNonce actorLabel messages on st =
     (case st of (ts, db) \<Rightarrow>
       let ts1 = progress on (PStarted (tc_id call) (tc_name call) (truncateForProgress (tc_input call))) ts;
           failureKey = buildToolCallKey (tc_name call) (tc_input call);
           priorFailures = failure_count failureKey ts
       in if integration_disabled (ag_flags env) (tc_name call)
          then (tool_error on call (''La integraci'' @ [CHR 0xF3] @ ''n '' @ [CHR 0x22]
                 @ (case getToolDefinition (tc_name call) of Some t \<Rightarrow>
                      (case t_integration t of Some i \<Rightarrow> integration_name i | None \<Rightarrow> []) | None \<Rightarrow> [])
                 @ [CHR 0x22] @ '' est'' @ [CHR 0xE1] @ '' desactivada (feature flag). No se ejecut'' @ [CHR 0xF3] @ '' ''
                 @ [CHR 0x22] @ tc_name call @ [CHR 0x22] @ ''.'') ts1, db)
          else if priorFailures \<ge> ac_maxConsecutiveToolFailures (ag_config env)
          then (tool_error on call (''Este intento exacto de '' @ [CHR 0x22] @ tc_name call @ [CHR 0x22] @ '' ya fall'' @ [CHR 0xF3]
                 @ '' '' @ show_nat priorFailures @ '' veces seguidas '' @ em_dash @ '' no se reintenta m'' @ [CHR 0xE1]
                 @ ''s. Prob'' @ [CHR 0xE1] @ '' un enfoque distinto o report'' @ [CHR 0xE1] @ '' el fallo.'') ts1, db)
          else (case tool_attempt env reg io call sessionId sessionNonce actorLabel messages db of
              (Inl e, db1) \<Rightarrow>
                (tool_error on call (''Error ejecutando '' @ tc_name call @ '': '' @ ag_errText env e)
                   (ts1\<lparr>ts_failures := (ts_failures ts1)(failureKey \<mapsto> priorFailures + 1)\<rparr>), db1)
            | (Inr (Deferred requestId), db1) \<Rightarrow>
                (let summary = ''Acci'' @ [CHR 0xF3] @ ''n diferida '' @ em_dash @ '' requiere aprobaci'' @ [CHR 0xF3]
                       @ ''n humana (requestId: '' @ requestId @ ''). No se ejecut'' @ [CHR 0xF3] @ '' todav'' @ [CHR 0xED] @ ''a.''
                 in (progress on (PFinished (tc_id call) (tc_name call) ODeferred (Some summary))
                      (push_block (buildToolResultBlock (tc_id call) summary False)
                        (ts1\<lparr>ts_pendingApprovals := ts_pendingApprovals ts1 @ [(requestId, tc_name call)],
                             ts_failures := (ts_failures ts1)(failureKey := None)\<rparr>)), db1))
            | (Inr (Executed sanitized), db1) \<Rightarrow>
                (progress on (PFinished (tc_id call) (tc_name call) OSuccess None)
                   (push_block (buildToolResultBlock (tc_id call) sanitized False)
                     (ts1\<lparr>ts_failures := (ts_failures ts1)(failureKey := None)\<rparr>)), db1)))"

section \<open>The calls of one answer\<close>

fun handle_calls :: "agent_env \<Rightarrow> 's budget_db_scheme executors \<Rightarrow> string \<Rightarrow> (nat \<Rightarrow> tool_io) \<Rightarrow> nat \<Rightarrow> ModelToolCall list \<Rightarrow> string
    \<Rightarrow> string \<Rightarrow> string \<Rightarrow> ModelMessage list \<Rightarrow> bool \<Rightarrow> turn_state \<times> 's budget_db_scheme \<Rightarrow> turn_state \<times> 's budget_db_scheme" where
  "handle_calls env reg zodText io i [] sessionId nonce actor messages on st = st"
| "handle_calls env reg zodText io i (call # calls) sessionId nonce actor messages on (ts, db) =
     handle_calls env reg zodText io (i + 1) calls sessionId nonce actor messages on
       (if tc_name call = DECLARE_PLAN_TOOL_NAME
        then (let ts1 = handleDeclarePlan zodText call ts in (progress on (PPlan (ts_plan ts1)) ts1, db))
        else if tc_name call = UPDATE_PLAN_STEP_TOOL_NAME
        then (let ts1 = handleUpdatePlanStep zodText (ag_errText env) call ts in (progress on (PPlan (ts_plan ts1)) ts1, db))
        else handleRealToolCall env reg (io i) call sessionId nonce actor messages on (ts, db))"

section \<open>The end of a turn\<close>

definition resolveFinalResponseText :: "ModelCompletionResponse \<Rightarrow> string" where
  "resolveFinalResponseText response =
     (if rs_stopReason response = MaxTokens \<and> js_trim (rs_content response) = []
      then ''El modelo se qued'' @ [CHR 0xF3] @ '' sin espacio de salida antes de terminar (gast'' @ [CHR 0xF3]
         @ '' el tope pensando). No es un filtro de seguridad. Prob'' @ [CHR 0xE1] @ '' bajar el esfuerzo en M'' @ [CHR 0xE1] @ ''s ''
         @ [CHR 0xE2, CHR 0x86, CHR 0x92] @ '' Ajustes '' @ [CHR 0xE2, CHR 0x86, CHR 0x92]
         @ '' Modelo del chat, o pedime un paso m'' @ [CHR 0xE1] @ ''s chico.''
      else if rs_stopReason response = Refusal \<or> js_trim (rs_content response) = []
      then ''No pude generar una respuesta para este pedido: el modelo cort'' @ [CHR 0xF3]
         @ '' la respuesta sin devolver contenido (probablemente su propio filtro de seguridad, no un error de Jin). Prob''
         @ [CHR 0xE1] @ '' reformular el objetivo o dividirlo en pasos m'' @ [CHR 0xE1] @ ''s chicos.''
      else rs_content response)"

definition SUMMARY_PREFIX :: string where
  "SUMMARY_PREFIX = ''[Resumen autom'' @ [CHR 0xE1] @ ''tico de turnos previos]'' @ [CHR 0x0A]"

text \<open>\<open>HistoryCompactionService.compact\<close>: it never throws. \<open>consolidate\<close> is the memory's operation, whose
  failure is only logged; it may change the world.\<close>

definition compaction_request :: "string \<Rightarrow> string \<Rightarrow> ModelCompletionRequest" where
  "compaction_request systemPrompt transcript = \<lparr>rq_systemPrompt = Some systemPrompt,
     rq_messages = [\<lparr>m_role = RUser, m_content = CText transcript\<rparr>], rq_maxOutputTokens = 1000, rq_temperature = 1 / 5,
     rq_tools = None, rq_effort = None\<rparr>"

definition compact :: "'w providers \<Rightarrow> guard_env \<Rightarrow> guard_io \<Rightarrow> string \<Rightarrow> (string \<Rightarrow> string \<Rightarrow> 'w \<Rightarrow> (jin_error + unit) \<times> 'w) \<Rightarrow> string
    \<Rightarrow> HistoryCompactionPlan \<Rightarrow> 's budget_db_scheme \<times> 'w \<Rightarrow> ModelMessage option \<times> 's budget_db_scheme \<times> 'w" where
  "compact pv genv io summaryPrompt consolidate sessionId plan st =
     (let transcript = renderMessagesAsTranscript (toCompact plan)
      in case guarded_complete pv genv io HistoryCompaction (compaction_request summaryPrompt transcript) None (Some sessionId) st of
           (Inl _, db, w) \<Rightarrow> (None, db, w)
         | (Inr response, db, w) \<Rightarrow>
             (Some \<lparr>m_role = RUser, m_content = CText (SUMMARY_PREFIX @ rs_content response)\<rparr>,
              db, snd (consolidate sessionId transcript w)))"

section \<open>The turn\<close>

record AgentTurnInput =
  in_sessionId :: string
  in_objective :: string
  in_history :: "ModelMessage list option"
  in_allowedTools :: "string list option"
  in_actorLabel :: "string option"
  in_onProgress :: bool

record turn_io =
  io_guard :: "nat \<Rightarrow> guard_io"
  io_tool :: "nat \<Rightarrow> nat \<Rightarrow> tool_io"
  io_compact :: guard_io
  io_zodText :: string
  io_nonceBytes :: "nat \<Rightarrow> 8 word list"

record 'w services =
  sv_models :: "'w providers"
  sv_summaryPrompt :: string
  sv_consolidate :: "string \<Rightarrow> string \<Rightarrow> 'w \<Rightarrow> (jin_error + unit) \<times> 'w"

definition finalizeTurn :: "agent_env \<Rightarrow> 'w services \<Rightarrow> turn_io \<Rightarrow> string \<Rightarrow> ModelMessage list \<Rightarrow> string \<Rightarrow> turn_state \<Rightarrow> nat
    \<Rightarrow> string list \<Rightarrow> 's budget_db_scheme \<times> 'w \<Rightarrow> (jin_error + AgentTurnResult) \<times> 's budget_db_scheme \<times> 'w" where
  "finalizeTurn env sv io sessionId messages finalResponse ts iterationsUsed modelsUsed st =
     (let base = \<lparr>tr_finalResponse = finalResponse, tr_plan = ts_plan ts, tr_pendingApprovals = ts_pendingApprovals ts,
            tr_iterationsUsed = iterationsUsed, tr_modelsUsed = modelsUsed, tr_compactedHistory = None\<rparr>
      in case planHistoryCompaction messages \<lparr>hc_maxHistoryTokens = ac_maxHistoryTokens (ag_config env),
             hc_preserveLastTurns = ac_preserveLastTurns (ag_config env)\<rparr> of
           None \<Rightarrow> (Inr base, st)
         | Some plan \<Rightarrow>
             (case compact (sv_models sv) (ag_guard env) (io_compact io) (sv_summaryPrompt sv) (sv_consolidate sv) sessionId plan st of
                (None, st1) \<Rightarrow> (Inr base, st1)
              | (Some summary, st1) \<Rightarrow> (Inr (base\<lparr>tr_compactedHistory := Some (summary # toPreserve plan)\<rparr>), st1)))"

definition turn_request :: "agent_env \<Rightarrow> AgentTurnInput \<Rightarrow> string \<Rightarrow> ModelMessage list \<Rightarrow> ModelCompletionRequest" where
  "turn_request env input sessionNonce messages = \<lparr>rq_systemPrompt = Some (ag_systemPrompt env sessionNonce), rq_messages = messages,
     rq_maxOutputTokens = ac_maxOutputTokens (ag_config env), rq_temperature = 7 / 10,
     rq_tools = Some (buildToolDeclarations (ag_declare env) (in_allowedTools input)), rq_effort = None\<rparr>"

text \<open>One model call, streamed when there is a listener: the deltas are emitted with the number of the iteration,
  also those of a call that then fails.\<close>

definition ask_model :: "agent_env \<Rightarrow> 'w services \<Rightarrow> turn_io \<Rightarrow> AgentTurnInput \<Rightarrow> string \<Rightarrow> nat \<Rightarrow> ModelMessage list \<Rightarrow> turn_state
    \<Rightarrow> 's budget_db_scheme \<times> 'w \<Rightarrow> turn_state \<times> (jin_error + ModelCompletionResponse) \<times> 's budget_db_scheme \<times> 'w" where
  "ask_model env sv io input nonce iteration messages ts st =
     (if in_onProgress input
      then (case guarded_completeStream (sv_models sv) (ag_guard env) (io_guard io iteration) ChatConversational
                (turn_request env input nonce messages) None (Some (in_sessionId input)) st of
              (ds, r) \<Rightarrow> (ts\<lparr>ts_progress := ts_progress ts @ map (\<lambda>(d, s). PTextDelta iteration d s) ds\<rparr>, r))
      else (ts, guarded_complete (sv_models sv) (ag_guard env) (io_guard io iteration) ChatConversational
                (turn_request env input nonce messages) None (Some (in_sessionId input)) st))"

definition with_progress :: "turn_state \<Rightarrow> 'r \<times> 's \<Rightarrow> 'r \<times> AgentProgressEvent list \<times> 's" where
  "with_progress ts r = (fst r, ts_progress ts, snd r)"

fun turn_loop :: "agent_env \<Rightarrow> 's budget_db_scheme executors \<Rightarrow> 'w services \<Rightarrow> turn_io \<Rightarrow> AgentTurnInput \<Rightarrow> string \<Rightarrow> nat \<Rightarrow> nat
    \<Rightarrow> ModelMessage list \<Rightarrow> turn_state \<Rightarrow> string list \<Rightarrow> 's budget_db_scheme \<times> 'w
    \<Rightarrow> (jin_error + AgentTurnResult) \<times> AgentProgressEvent list \<times> 's budget_db_scheme \<times> 'w" where
  "turn_loop env reg sv io input nonce 0 used messages ts models st =
     with_progress ts (finalizeTurn env sv io (in_sessionId input) messages
       (''Se alcanz'' @ [CHR 0xF3] @ '' el l'' @ [CHR 0xED] @ ''mite de iteraciones del turno sin llegar a una respuesta final.'')
       ts used models st)"
| "turn_loop env reg sv io input nonce (Suc remaining) used messages ts models st =
     (let currentIteration = used + 1 in
      case ask_model env sv io input nonce currentIteration messages ts st of
        (ts1, Inl e, st1) \<Rightarrow> (Inl e, ts_progress ts1, st1)
      | (ts1, Inr response, (db, w)) \<Rightarrow>
          (let models1 = (if rs_modelId response \<in> set models then models else models @ [rs_modelId response])
           in case rs_toolCalls response of
                Some (call # calls) \<Rightarrow>
                  if rs_stopReason response \<noteq> ToolUse
                  then with_progress ts1 (finalizeTurn env sv io (in_sessionId input) messages (resolveFinalResponseText response) ts1
                         currentIteration models1 (db, w))
                  else (let messages1 = messages @ [\<lparr>m_role = RAssistant, m_content = CBlocks (map BToolUse (call # calls))\<rparr>]
                    in case handle_calls env reg (io_zodText io) (io_tool io currentIteration) 0 (call # calls)
                           (in_sessionId input) nonce (case in_actorLabel input of Some a \<Rightarrow> a | None \<Rightarrow> ''agent'') messages1
                           (in_onProgress input) (ts1\<lparr>ts_blocks := []\<rparr>, db) of
                         (ts2, db2) \<Rightarrow>
                           turn_loop env reg sv io input nonce remaining currentIteration
                             (messages1 @ [\<lparr>m_role = RUser, m_content = CBlocks (ts_blocks ts2)\<rparr>]) ts2 models1 (db2, w))
              | _ \<Rightarrow> with_progress ts1 (finalizeTurn env sv io (in_sessionId input) messages (resolveFinalResponseText response) ts1
                      currentIteration models1 (db, w))))"

text \<open>The answer, what was emitted to the listener, and the final state.\<close>

definition runTurn :: "agent_env \<Rightarrow> 's budget_db_scheme executors \<Rightarrow> 'w services \<Rightarrow> turn_io \<Rightarrow> AgentTurnInput
    \<Rightarrow> 's budget_db_scheme \<times> 'w \<Rightarrow> (jin_error + AgentTurnResult) \<times> AgentProgressEvent list \<times> 's budget_db_scheme \<times> 'w" where
  "runTurn env reg sv io input st =
     turn_loop env reg sv io input (generateSessionNonce (io_nonceBytes io)) (ac_maxIterationsPerTurn (ag_config env)) 0
       ((case in_history input of Some h \<Rightarrow> h | None \<Rightarrow> []) @ [\<lparr>m_role = RUser, m_content = CText (in_objective input)\<rparr>])
       \<lparr>ts_plan = [], ts_pendingApprovals = [], ts_failures = (\<lambda>_. None), ts_blocks = [], ts_progress = []\<rparr> [] st"

section \<open>Every call is answered\<close>

fun block_call_id :: "ModelMessageContentBlock \<Rightarrow> string option" where
  "block_call_id (BToolResult i out e) = Some i"
| "block_call_id _ = None"

lemma progress_simps [simp]:
  "ts_blocks (progress on e ts) = ts_blocks ts" "ts_failures (progress on e ts) = ts_failures ts"
  "ts_pendingApprovals (progress on e ts) = ts_pendingApprovals ts" "ts_plan (progress on e ts) = ts_plan ts"
  by (simp_all add: progress_def)

lemma push_block_simps [simp]:
  "ts_blocks (push_block b ts) = ts_blocks ts @ [b]" "ts_failures (push_block b ts) = ts_failures ts"
  "ts_pendingApprovals (push_block b ts) = ts_pendingApprovals ts" "ts_plan (push_block b ts) = ts_plan ts"
  by (simp_all add: push_block_def)

lemma tool_error_simps [simp]:
  "ts_blocks (tool_error on call summary ts) = ts_blocks ts @ [buildToolResultBlock (tc_id call) summary True]"
  "ts_failures (tool_error on call summary ts) = ts_failures ts"
  "ts_pendingApprovals (tool_error on call summary ts) = ts_pendingApprovals ts"
  by (simp_all add: tool_error_def)

lemma block_call_id_build [simp]: "block_call_id (buildToolResultBlock i out e) = Some i"
  by (simp add: buildToolResultBlock_def)

text \<open>The outcomes of a real tool call.\<close>

lemma handleRealToolCall_cases:
  assumes "handleRealToolCall env reg io call sid nonce actor messages on (ts, db) = (ts', db')"
  defines "key \<equiv> buildToolCallKey (tc_name call) (tc_input call)"
  obtains (refused) summary where "db' = db" "ts_failures ts' = ts_failures ts" "ts_pendingApprovals ts' = ts_pendingApprovals ts"
      "ts_blocks ts' = ts_blocks ts @ [buildToolResultBlock (tc_id call) summary True]"
      "integration_disabled (ag_flags env) (tc_name call) \<or> ac_maxConsecutiveToolFailures (ag_config env) \<le> failure_count key ts"
  | (failed) e where "\<not> integration_disabled (ag_flags env) (tc_name call)"
      "failure_count key ts < ac_maxConsecutiveToolFailures (ag_config env)"
      "tool_attempt env reg io call sid nonce actor messages db = (Inl e, db')"
      "ts_failures ts' = (ts_failures ts)(key \<mapsto> failure_count key ts + 1)" "ts_pendingApprovals ts' = ts_pendingApprovals ts"
      "ts_blocks ts' = ts_blocks ts @ [buildToolResultBlock (tc_id call) (''Error ejecutando '' @ tc_name call @ '': '' @ ag_errText env e) True]"
  | (deferred) rid summary where "\<not> integration_disabled (ag_flags env) (tc_name call)"
      "failure_count key ts < ac_maxConsecutiveToolFailures (ag_config env)"
      "tool_attempt env reg io call sid nonce actor messages db = (Inr (Deferred rid), db')"
      "ts_failures ts' = (ts_failures ts)(key := None)" "ts_pendingApprovals ts' = ts_pendingApprovals ts @ [(rid, tc_name call)]"
      "ts_blocks ts' = ts_blocks ts @ [buildToolResultBlock (tc_id call) summary False]"
  | (executed) out where "\<not> integration_disabled (ag_flags env) (tc_name call)"
      "failure_count key ts < ac_maxConsecutiveToolFailures (ag_config env)"
      "tool_attempt env reg io call sid nonce actor messages db = (Inr (Executed out), db')"
      "ts_failures ts' = (ts_failures ts)(key := None)" "ts_pendingApprovals ts' = ts_pendingApprovals ts"
      "ts_blocks ts' = ts_blocks ts @ [buildToolResultBlock (tc_id call) out False]"
proof (cases "integration_disabled (ag_flags env) (tc_name call) \<or> ac_maxConsecutiveToolFailures (ag_config env) \<le> failure_count key ts")
  case True
  show thesis
  proof (cases "integration_disabled (ag_flags env) (tc_name call)")
    case dis: True
    show thesis by (rule refused [OF _ _ _ _ True]; use assms(1) dis in \<open>simp add: handleRealToolCall_def Let_def\<close>) auto
  next
    case False
    with True have "ac_maxConsecutiveToolFailures (ag_config env) \<le> failure_count key ts" by simp
    with False show thesis
      by (intro refused [OF _ _ _ _ True]; use assms(1) in \<open>simp add: handleRealToolCall_def Let_def key_def\<close>) auto
  qed
next
  case False
  then have ok: "\<not> integration_disabled (ag_flags env) (tc_name call)"
    "failure_count key ts < ac_maxConsecutiveToolFailures (ag_config env)" by simp_all
  obtain r db1 where a: "tool_attempt env reg io call sid nonce actor messages db = (r, db1)" by fastforce
  note run = assms(1) [unfolded handleRealToolCall_def prod.case Let_def a, folded key_def]
  show thesis
  proof (cases r)
    case (Inl e)
    with run ok a show thesis by (intro failed [OF ok]) auto
  next
    case (Inr x)
    show thesis
    proof (cases x)
      case (Deferred rid)
      with Inr run ok a show thesis by (intro deferred [OF ok]) auto
    next
      case (Executed out)
      with Inr run ok a show thesis by (intro executed [OF ok]) auto
    qed
  qed
qed

lemma handleDeclarePlan_simps [simp]:
  "\<exists>b. ts_blocks (handleDeclarePlan z call ts) = ts_blocks ts @ [b] \<and> block_call_id b = Some (tc_id call)"
  "ts_failures (handleDeclarePlan z call ts) = ts_failures ts"
  by (auto simp: handleDeclarePlan_def Let_def split: option.split)

lemma handleUpdatePlanStep_simps [simp]:
  "\<exists>b. ts_blocks (handleUpdatePlanStep z err call ts) = ts_blocks ts @ [b] \<and> block_call_id b = Some (tc_id call)"
  "ts_failures (handleUpdatePlanStep z err call ts) = ts_failures ts"
  by (auto simp: handleUpdatePlanStep_def split: option.split sum.split)

definition one_call :: "agent_env \<Rightarrow> 's budget_db_scheme executors \<Rightarrow> string \<Rightarrow> tool_io \<Rightarrow> ModelToolCall \<Rightarrow> string \<Rightarrow> string \<Rightarrow> string
    \<Rightarrow> ModelMessage list \<Rightarrow> bool \<Rightarrow> turn_state \<times> 's budget_db_scheme \<Rightarrow> turn_state \<times> 's budget_db_scheme" where
  "one_call env reg zodText io call sessionId nonce actor messages on st = (case st of (ts, db) \<Rightarrow>
      if tc_name call = DECLARE_PLAN_TOOL_NAME
      then (let ts1 = handleDeclarePlan zodText call ts in (progress on (PPlan (ts_plan ts1)) ts1, db))
      else if tc_name call = UPDATE_PLAN_STEP_TOOL_NAME
      then (let ts1 = handleUpdatePlanStep zodText (ag_errText env) call ts in (progress on (PPlan (ts_plan ts1)) ts1, db))
      else handleRealToolCall env reg io call sessionId nonce actor messages on (ts, db))"

lemma handle_calls_Cons:
  "handle_calls env reg z io i (call # calls) sid nonce actor messages on st =
     handle_calls env reg z io (i + 1) calls sid nonce actor messages on
       (one_call env reg z (io i) call sid nonce actor messages on st)"
  by (cases st) (simp add: one_call_def)

lemma one_call_answers:
  "\<exists>b. ts_blocks (fst (one_call env reg z io call sid nonce actor messages on st)) = ts_blocks (fst st) @ [b] \<and>
     block_call_id b = Some (tc_id call)"
proof -
  obtain ts db where st: "st = (ts, db)" by (cases st)
  obtain ts' db' where h: "handleRealToolCall env reg io call sid nonce actor messages on (ts, db) = (ts', db')" by fastforce
  then have "\<exists>b. ts_blocks ts' = ts_blocks ts @ [b] \<and> block_call_id b = Some (tc_id call)"
    by (cases rule: handleRealToolCall_cases) auto
  with h st show ?thesis by (auto simp: one_call_def Let_def)
qed

text \<open>Every tool call of an answer is answered, exactly once and in order: the results handed back to the model
  carry the ids of its calls, whatever each call led to.\<close>

theorem every_tool_call_answered:
  "\<exists>bs. ts_blocks (fst (handle_calls env reg z io i calls sid nonce actor messages on st)) = ts_blocks (fst st) @ bs \<and>
     map block_call_id bs = map (\<lambda>c. Some (tc_id c)) calls"
proof (induction calls arbitrary: i st)
  case Nil
  then show ?case by (cases st) simp
next
  case (Cons call calls)
  let ?st = "one_call env reg z (io i) call sid nonce actor messages on st"
  obtain b where b: "ts_blocks (fst ?st) = ts_blocks (fst st) @ [b]" "block_call_id b = Some (tc_id call)"
    using one_call_answers by blast
  obtain bs where "ts_blocks (fst (handle_calls env reg z io (i + 1) calls sid nonce actor messages on ?st)) = ts_blocks (fst ?st) @ bs"
      "map block_call_id bs = map (\<lambda>c. Some (tc_id c)) calls"
    using Cons.IH by blast
  with b show ?case by (intro exI [of _ "b # bs"]) (simp add: handle_calls_Cons del: handle_calls.simps)
qed

section \<open>Failures are capped\<close>

definition failures_capped :: "agent_env \<Rightarrow> turn_state \<Rightarrow> bool" where
  "failures_capped env ts \<longleftrightarrow> (\<forall>key. failure_count key ts \<le> ac_maxConsecutiveToolFailures (ag_config env))"

lemma one_call_capped:
  assumes "failures_capped env (fst st)"
  shows "failures_capped env (fst (one_call env reg z io call sid nonce actor messages on st))"
proof -
  obtain ts db where st: "st = (ts, db)" by (cases st)
  obtain ts' db' where h: "handleRealToolCall env reg io call sid nonce actor messages on (ts, db) = (ts', db')" by fastforce
  then have "failures_capped env ts'"
    using assms unfolding st failures_capped_def
    by (cases rule: handleRealToolCall_cases) (auto simp: failure_count_def split: option.splits if_splits)
  with h st assms show ?thesis by (auto simp: one_call_def Let_def failures_capped_def failure_count_def)
qed

lemma handle_calls_capped:
  "failures_capped env (fst st) \<Longrightarrow> failures_capped env (fst (handle_calls env reg z io i calls sid nonce actor messages on st))"
proof (induction calls arbitrary: i st)
  case Nil
  then show ?case by (cases st) simp
next
  case (Cons call calls)
  then show ?case by (simp add: handle_calls_Cons one_call_capped del: handle_calls.simps)
qed

section \<open>Calls the owner decides\<close>

text \<open>A tool that needs the owner: it asks for approval, the file declares no level below \<open>confirm\<close> for it, and no
  autonomy mode in force at the call covers it.\<close>

definition owner_decides :: "agent_env \<Rightarrow> string \<Rightarrow> (AutonomyMode \<Rightarrow> bool) \<Rightarrow> bool" where
  "owner_decides env name covered \<longleftrightarrow> (\<exists>t. getToolDefinition name = Some t \<and> Lconfirm \<le> t_hitlLevel t \<and>
     (\<forall>l. map_of (ff_hitlOverrides (ag_flags env)) name = Some l \<longrightarrow> Lconfirm \<le> l) \<and>
     (\<forall>m. covered m \<longrightarrow> m = Supervised \<or> t_humanDecision t \<or> m = SemiAuto \<and> t_guardedInSemiAuto t))"

lemma decide_owner:
  assumes "owner_decides env name covered" "covered (mode_at (rx_now rio) db)"
  obtains d where "decide sha modes (ag_flags env) rid rio name inputs db = (Inr d, db)" "Lconfirm \<le> d_level d" "d_requestId d = rid"
proof -
  from assms obtain t where t: "getToolDefinition name = Some t" "Lconfirm \<le> t_hitlLevel t"
    and declared: "\<And>l. map_of (ff_hitlOverrides (ag_flags env)) name = Some l \<Longrightarrow> Lconfirm \<le> l"
    and mode: "mode_at (rx_now rio) db = Supervised \<or> t_humanDecision t \<or> mode_at (rx_now rio) db = SemiAuto \<and> t_guardedInSemiAuto t"
    by (auto simp: owner_decides_def)
  obtain s where s: "classifyToolCall rid name inputs = Inr s" "d_toolName s = name" "d_level s = t_hitlLevel t" "d_requestId s = rid"
    using t by (auto simp: classifyToolCall_def getToolDefinition_Some_iff)
  let ?f = "resolveEffectiveLevel (ag_flags env) s db"
  have f: "Lconfirm \<le> d_level ?f" "d_requestId ?f = rid"
    using s t(2) declared by (cases rule: resolve_cases_level [of "ag_flags env" s db]; auto)+
  have "relaxDecision ?f (mode_at (rx_now rio) db) (Some t) = (?f, None)"
    using mode by (auto simp: relaxDecision_def)
  then have "decide sha modes (ag_flags env) rid rio name inputs db = (Inr ?f, db)"
    by (simp add: decide_def s t relax_def Let_def)
  with f that show thesis by blast
qed

lemma at_least_confirm: "Lconfirm \<le> l \<longleftrightarrow> l = Lconfirm \<or> l = Ldual_confirm"
  by (cases l) (simp_all add: HitlLevel_le_iff)

lemma tool_attempt_owner:
  assumes "owner_decides env (tc_name call) covered" "covered (mode_at (rx_now (ti_relax io)) db)"
  obtains d where "Lconfirm \<le> d_level d" "d_requestId d = ti_uuid io"
    "\<And>reg. tool_attempt env reg io call sid nonce actor messages db =
      bind_result (createPendingApproval (ag_sha env) (ti_createdAt io) (ti_audit io)
        (deferral_input (ag_sha env) d call sid actor messages) db) (\<lambda>_ db2. (Inr (Deferred (ti_uuid io)), db2))"
proof -
  from decide_owner [OF assms] obtain d where d: "decide (ag_sha env) (ag_modes env) (ag_flags env) (ti_uuid io) (ti_relax io) (tc_name call)
      (tc_input call) db = (Inr d, db)" "Lconfirm \<le> d_level d" "d_requestId d = ti_uuid io" by blast
  then show thesis by (intro that [of d]) (auto simp: tool_attempt_def at_least_confirm)
qed

lemma handleRealToolCall_reg:
  assumes "tool_attempt env reg io call sid nonce actor messages db = tool_attempt env reg' io call sid nonce actor messages db"
  shows "handleRealToolCall env reg io call sid nonce actor messages on (ts, db) =
    handleRealToolCall env reg' io call sid nonce actor messages on (ts, db)"
  unfolding handleRealToolCall_def prod.case Let_def assms ..

text \<open>C18: a call of a tool that the owner decides is never executed by the turn. Whatever executors are registered,
  it is turned into one pending approval that carries the tool, its exact input and the external
  sources the model had read, and the model is told that nothing ran yet.\<close>

theorem owner_decided_call_is_deferred:
  assumes "owner_decides env (tc_name call) (\<lambda>m. m = mode_at (rx_now (ti_relax io)) db)"
    and "\<not> integration_disabled (ag_flags env) (tc_name call)"
    and "failure_count (buildToolCallKey (tc_name call) (tc_input call)) ts < ac_maxConsecutiveToolFailures (ag_config env)"
    and "\<not> isLocked db" "io_fault (ti_audit io) = None" "getPending (ti_uuid io) db = None"
  shows "\<exists>ts' db' row. (\<forall>reg. handleRealToolCall env reg io call sid nonce actor messages on (ts, db) = (ts', db')) \<and>
    ts_pendingApprovals ts' = ts_pendingApprovals ts @ [(ti_uuid io, tc_name call)] \<and>
    pending_approvals db' = pending_approvals db @ [row] \<and> p_requestId row = ti_uuid io \<and>
    p_toolName row = tc_name call \<and> p_payload row = tc_input call \<and> p_level row \<in> {''confirm'', ''dual-confirm''} \<and>
    p_externalInputsSummary row = summarizeUntrustedSources messages \<and>
    p_firstApprovedAt row = None \<and> p_executingAt row = None"
proof -
  obtain d where d: "Lconfirm \<le> d_level d" "d_requestId d = ti_uuid io"
    and attempt: "\<And>reg. tool_attempt env reg io call sid nonce actor messages db =
      bind_result (createPendingApproval (ag_sha env) (ti_createdAt io) (ti_audit io)
        (deferral_input (ag_sha env) d call sid actor messages) db) (\<lambda>_ db2. (Inr (Deferred (ti_uuid io)), db2))"
    using tool_attempt_owner [OF assms(1) refl] by blast
  let ?i = "deferral_input (ag_sha env) d call sid actor messages"
  let ?row = "new_row ?i (ti_createdAt io)"
  have id: "c_requestId ?i = ti_uuid io" by (simp add: deferral_input_def d)
  obtain db' where c: "createPendingApproval (ag_sha env) (ti_createdAt io) (ti_audit io) ?i db = (Inr (), db')"
    and p: "pending_approvals db' = pending_approvals db @ [?row]"
    using assms(4-6) id
    by (auto simp: createPendingApproval_def Let_def recordToolCall_def appendRow_def isLocked_def emit_def insertRow_def split: option.splits)
  obtain ts0 db0 where 0: "handleRealToolCall env (\<lambda>_. None) io call sid nonce actor messages on (ts, db) = (ts0, db0)" by fastforce
  have all: "handleRealToolCall env reg io call sid nonce actor messages on (ts, db) = (ts0, db0)" for reg
    using 0 handleRealToolCall_reg [of env reg io call sid nonce actor messages db "\<lambda>_. None"] by (simp add: attempt)
  from 0 have "db0 = db' \<and> ts_pendingApprovals ts0 = ts_pendingApprovals ts @ [(ti_uuid io, tc_name call)]"
    by (cases rule: handleRealToolCall_cases) (use assms(2,3) attempt c in auto)
  with all p d show ?thesis
    by (intro exI [of _ ts0] exI [of _ db0] exI [of _ ?row])
      (auto simp: new_row_def deferral_input_def at_least_confirm)
qed

section \<open>Human decisions\<close>

lemma tool_attempt_other:
  assumes "owner_decides env n (\<lambda>_. True)" "\<And>m. m \<noteq> n \<Longrightarrow> reg' m = reg m"
  shows "tool_attempt env reg' io call sid nonce actor messages db = tool_attempt env reg io call sid nonce actor messages db"
proof (cases "tc_name call = n")
  case True
  from tool_attempt_owner [of env call "\<lambda>_. True" io db sid nonce actor messages] assms(1) True show ?thesis by metis
next
  case False
  then have "execute reg' (tc_name call) = execute reg (tc_name call)" by (intro ext) (simp add: execute_def assms(2))
  then show ?thesis by (simp add: tool_attempt_def cong: if_cong)
qed

lemma handle_calls_other:
  assumes "owner_decides env n (\<lambda>_. True)" "\<And>m. m \<noteq> n \<Longrightarrow> reg' m = reg m"
  shows "handle_calls env reg' z io i calls sid nonce actor messages on st =
    handle_calls env reg z io i calls sid nonce actor messages on st"
proof (induction calls arbitrary: i st)
  case Nil
  then show ?case by (cases st) simp
next
  case (Cons call calls)
  have "one_call env reg' z io' call sid nonce actor messages on st = one_call env reg z io' call sid nonce actor messages on st"
    for io'
    by (cases st) (simp add: one_call_def handleRealToolCall_reg [OF tool_attempt_other [OF assms]])
  with Cons show ?case by (simp add: handle_calls_Cons del: handle_calls.simps)
qed

lemma turn_loop_other:
  assumes "owner_decides env n (\<lambda>_. True)" "\<And>m. m \<noteq> n \<Longrightarrow> reg' m = reg m"
  shows "turn_loop env reg' sv io input nonce remaining used messages ts models st =
    turn_loop env reg sv io input nonce remaining used messages ts models st"
proof (induction remaining arbitrary: used messages ts models st)
  case (Suc remaining)
  have "handle_calls env reg' = handle_calls env reg"
    by (intro ext handle_calls_other [OF assms])
  then show ?case unfolding turn_loop.simps Suc.IH by (simp only:)
qed simp


section \<open>The length of a turn\<close>

lemma finalizeTurn_fields:
  assumes "finalizeTurn env sv io sid messages text ts used models st = (Inr r, st')"
  shows "tr_iterationsUsed r = used \<and> tr_modelsUsed r = models \<and> tr_pendingApprovals r = ts_pendingApprovals ts"
  using assms by (auto simp: finalizeTurn_def Let_def split: option.splits prod.splits)

lemma with_progress_InrD: "with_progress ts x = (Inr r, rest) \<Longrightarrow> \<exists>st'. x = (Inr r, st')"
  by (cases x) (auto simp: with_progress_def)

lemma turn_loop_bounds:
  assumes "turn_loop env reg sv io input nonce remaining used messages ts models st = (Inr r, rest)"
    and "distinct models" "length models \<le> used"
  shows "used \<le> tr_iterationsUsed r \<and> tr_iterationsUsed r \<le> used + remaining \<and> (0 < remaining \<longrightarrow> used < tr_iterationsUsed r) \<and>
    distinct (tr_modelsUsed r) \<and> length (tr_modelsUsed r) \<le> tr_iterationsUsed r"
  using assms
proof (induction remaining arbitrary: used messages ts models st)
  case 0
  then show ?case by (auto dest!: with_progress_InrD finalizeTurn_fields)
next
  case (Suc remaining)
  obtain ts1 ans db w where a: "ask_model env sv io input nonce (used + 1) messages ts st = (ts1, ans, db, w)"
    by (cases "ask_model env sv io input nonce (used + 1) messages ts st")
  from Suc.prems(1) a obtain resp where resp: "ans = Inr resp" by (cases ans) (auto simp: Let_def)
  define models1 where "models1 = (if rs_modelId resp \<in> set models then models else models @ [rs_modelId resp])"
  have m1: "distinct models1" "length models1 \<le> used + 1" using Suc.prems(2,3) by (auto simp: models1_def)
  consider (final) "with_progress ts1 (finalizeTurn env sv io (in_sessionId input) messages (resolveFinalResponseText resp) ts1
        (used + 1) models1 (db, w)) = (Inr r, rest)"
    | (again) messages2 ts2 db2 where
        "turn_loop env reg sv io input nonce remaining (used + 1) messages2 ts2 models1 (db2, w) = (Inr r, rest)"
  proof (cases "rs_toolCalls resp")
    case None
    with Suc.prems(1) a resp that(1) show thesis by (simp add: Let_def models1_def)
  next
    case (Some calls)
    show thesis
    proof (cases calls)
      case Nil
      with Some Suc.prems(1) a resp that(1) show thesis by (simp add: Let_def models1_def)
    next
      case (Cons c cs)
      with Some Suc.prems(1) a resp that show thesis
        by (auto simp: Let_def models1_def simp del: handle_calls.simps split: if_splits prod.splits)
    qed
  qed
  then show ?case
  proof cases
    case final
    then obtain st' where "finalizeTurn env sv io (in_sessionId input) messages (resolveFinalResponseText resp) ts1
        (used + 1) models1 (db, w) = (Inr r, st')" by (auto dest: with_progress_InrD)
    from finalizeTurn_fields [OF this] m1 show ?thesis by simp
  next
    case again
    from Suc.IH [OF again m1] show ?thesis by simp
  qed
qed


section \<open>Execution before the audit\<close>

text \<open>An action that needs no approval is executed before it is audited. With the audit chain locked its effect
  stays, no row of the log records it, and the model is told that it failed, so that it may try again.\<close>

theorem executed_without_audit_when_locked:
  assumes "decide (ag_sha env) (ag_modes env) (ag_flags env) (ti_uuid io) (ti_relax io) (tc_name call) (tc_input call) db = (Inr d, db1)"
    and "d_level d < Lconfirm" "reg (tc_name call) = Some ex" "ex (tc_input call) (Some (d_requestId d)) db1 = (Inr out, db2)"
    and "isLocked db2" "\<not> integration_disabled (ag_flags env) (tc_name call)"
    and "failure_count (buildToolCallKey (tc_name call) (tc_input call)) ts < ac_maxConsecutiveToolFailures (ag_config env)"
  shows "\<exists>ts'. handleRealToolCall env reg io call sid nonce actor messages on (ts, db) = (ts', db2) \<and>
    failure_count (buildToolCallKey (tc_name call) (tc_input call)) ts' =
      failure_count (buildToolCallKey (tc_name call) (tc_input call)) ts + 1 \<and>
    ts_blocks ts' = ts_blocks ts @ [buildToolResultBlock (tc_id call)
      (''Error ejecutando '' @ tc_name call @ '': '' @ ag_errText env AuditChainLockedError) True]"
proof -
  have "d_level d \<noteq> Lconfirm" "d_level d \<noteq> Ldual_confirm" using assms(2) by (auto simp: HitlLevel_less_iff)
  then have a: "tool_attempt env reg io call sid nonce actor messages db = (Inl AuditChainLockedError, db2)"
    using assms(1,3-5) by (simp add: tool_attempt_def execute_def recordToolCall_def appendRow_def)
  obtain ts' db' where h: "handleRealToolCall env reg io call sid nonce actor messages on (ts, db) = (ts', db')" by fastforce
  then have "db' = db2 \<and> failure_count (buildToolCallKey (tc_name call) (tc_input call)) ts' =
      failure_count (buildToolCallKey (tc_name call) (tc_input call)) ts + 1 \<and>
    ts_blocks ts' = ts_blocks ts @ [buildToolResultBlock (tc_id call)
      (''Error ejecutando '' @ tc_name call @ '': '' @ ag_errText env AuditChainLockedError) True]"
    by (cases rule: handleRealToolCall_cases) (use assms(6,7) a in \<open>auto simp: failure_count_def\<close>)
  with h show ?thesis by blast
qed

section \<open>Witnesses\<close>

definition sample_agent :: "AutonomyConfig \<Rightarrow> agent_env" where
  "sample_agent modes = \<lparr>ag_sha = sample_sha, ag_modes = modes, ag_flags = sample_flags [],
     ag_config = \<lparr>ac_maxIterationsPerTurn = 3, ac_maxConsecutiveToolFailures = 2, ac_maxConcurrentSubAgents = 2, ac_maxHistoryTokens = 1000,
       ac_preserveLastTurns = 2, ac_maxOutputTokens = 8000\<rparr>,
     ag_guard = sample_env, ag_errText = (\<lambda>_. ''error''), ag_systemPrompt = (\<lambda>_. []),
     ag_declare = (\<lambda>n. \<lparr>td_name = n, td_description = [], td_inputSchema = JObj []\<rparr>)\<rparr>"

definition sample_tool_io :: "uuid \<Rightarrow> tool_io" where
  "sample_tool_io u = \<lparr>ti_uuid = u, ti_relax = sample_relax_io 5, ti_createdAt = 5, ti_audit = \<lparr>io_now = 5, io_fault = None\<rparr>\<rparr>"

definition sample_call :: "string \<Rightarrow> ModelToolCall" where
  "sample_call name = \<lparr>tc_id = ''c1'', tc_name = name, tc_input = None\<rparr>"

definition sample_state :: turn_state where
  "sample_state = \<lparr>ts_plan = [], ts_pendingApprovals = [], ts_failures = (\<lambda>_. None), ts_blocks = [], ts_progress = []\<rparr>"

definition sample_turn_input :: AgentTurnInput where
  "sample_turn_input = \<lparr>in_sessionId = ''s'', in_objective = ''hola'', in_history = None, in_allowedTools = Some [],
     in_actorLabel = None, in_onProgress = False\<rparr>"

definition sample_turn_io :: turn_io where
  "sample_turn_io = \<lparr>io_guard = (\<lambda>_. sample_guard_io), io_tool = (\<lambda>_ _. sample_tool_io ''u''), io_compact = sample_guard_io,
     io_zodText = [], io_nonceBytes = (\<lambda>n. replicate n 0)\<rparr>"

definition sample_services :: "nat services" where
  "sample_services = \<lparr>sv_models = sample_providers, sv_summaryPrompt = [], sv_consolidate = (\<lambda>_ _ w. (Inr (), w))\<rparr>"

theorem owner_decided_call_is_deferred_witness:
  "\<exists>ts' db'. handleRealToolCall (sample_agent sample_config) (\<lambda>_. Some (\<lambda>_ _ db. (Inr JNull, db))) (sample_tool_io ''u'')
      (sample_call ''sendEmail'') ''s'' ''n'' ''agent'' [] True (sample_state, sample_ledger [] None) = (ts', db') \<and>
    ts_pendingApprovals ts' = [(''u'', ''sendEmail'')] \<and> map p_toolName (pending_approvals db') = [''sendEmail'']"
proof -
  obtain t where t: "getToolDefinition ''sendEmail'' = Some t" "t_hitlLevel t = Lconfirm" using sample_tool by blast
  have m: "mode_at (rx_now (ti_relax (sample_tool_io ''u''))) (sample_ledger [] None) = Supervised"
    by (simp add: mode_at_def getState_def sample_ledger_def SAFE_STATE_def)
  have "owner_decides (sample_agent sample_config) (tc_name (sample_call ''sendEmail''))
      (\<lambda>m. m = mode_at (rx_now (ti_relax (sample_tool_io ''u''))) (sample_ledger [] None))"
    using t m by (simp add: owner_decides_def sample_agent_def sample_call_def sample_flags_def)
  moreover have "\<not> integration_disabled (ag_flags (sample_agent sample_config)) (tc_name (sample_call ''sendEmail''))"
    by (simp add: integration_disabled_def sample_agent_def sample_flags_def isIntegrationEnabled_def split: option.split)
  moreover have "failure_count (buildToolCallKey (tc_name (sample_call ''sendEmail'')) (tc_input (sample_call ''sendEmail''))) sample_state
      < ac_maxConsecutiveToolFailures (ag_config (sample_agent sample_config))"
    by (simp add: failure_count_def sample_state_def sample_agent_def)
  moreover have "\<not> isLocked (sample_ledger [] None)" "io_fault (ti_audit (sample_tool_io ''u'')) = None"
    "getPending (ti_uuid (sample_tool_io ''u'')) (sample_ledger [] None) = None"
    by (simp_all add: isLocked_def sample_ledger_def sample_tool_io_def getPending_def)
  ultimately show ?thesis
    using owner_decided_call_is_deferred [of "sample_agent sample_config" "sample_call ''sendEmail''" "sample_tool_io ''u''"
        "sample_ledger [] None" sample_state "''s''" "''n''" "''agent''" "[]" True]
    by (simp add: sample_call_def sample_state_def sample_tool_io_def) (auto simp: sample_ledger_def)
qed


theorem executed_without_audit_when_locked_witness:
  "let db = (sample_ledger [] None)\<lparr>audit_chain_lock := Some \<lparr>l_locked = True, l_lockedAt = None, l_reason = None\<rparr>\<rparr>;
       effect = (\<lambda>db'. db'\<lparr>sessionUsage := (\<lambda>_. None)(''s'' \<mapsto> \<lparr>su_inputTokens = 1, su_outputTokens = 1\<rparr>)\<rparr>)
   in \<exists>ts'. handleRealToolCall (sample_agent sample_config) (\<lambda>_. Some (\<lambda>_ _ db'. (Inr JNull, effect db'))) (sample_tool_io ''u'')
      (sample_call ''readEmails'') ''s'' ''n'' ''agent'' [] True (sample_state, db) = (ts', effect db) \<and> ts_blocks ts' \<noteq> []"
proof -
  let ?db = "(sample_ledger [] None)\<lparr>audit_chain_lock := Some \<lparr>l_locked = True, l_lockedAt = None, l_reason = None\<rparr>\<rparr>"
  let ?reg = "\<lambda>_. Some (\<lambda>_ _ db'. (Inr JNull, db'\<lparr>sessionUsage := (\<lambda>_. None)(''s'' \<mapsto> \<lparr>su_inputTokens = 1, su_outputTokens = 1\<rparr>)\<rparr>))" and ?env = "sample_agent sample_config"
  have "\<exists>d. decide (ag_sha ?env) (ag_modes ?env) (ag_flags ?env) (ti_uuid (sample_tool_io ''u'')) (ti_relax (sample_tool_io ''u''))
      (tc_name (sample_call ''readEmails'')) (tc_input (sample_call ''readEmails'')) ?db = (Inr d, ?db) \<and> d_level d < Lconfirm"
    by (simp add: decide_def classifyToolCall_def getToolDefinition_def TOOL_REGISTRY_BY_NAME_def registry_defs
        resolveEffectiveLevel_def sample_flags_def relax_def relaxDecision_def getState_def sample_ledger_def
        Let_def sample_agent_def sample_call_def override_of_def HitlLevel_less_iff)
  then obtain d where d: "decide (ag_sha ?env) (ag_modes ?env) (ag_flags ?env) (ti_uuid (sample_tool_io ''u''))
      (ti_relax (sample_tool_io ''u'')) (tc_name (sample_call ''readEmails'')) (tc_input (sample_call ''readEmails'')) ?db = (Inr d, ?db)"
    "d_level d < Lconfirm" by blast
  have "\<not> integration_disabled (ag_flags ?env) (tc_name (sample_call ''readEmails''))"
    by (simp add: integration_disabled_def sample_agent_def sample_flags_def isIntegrationEnabled_def split: option.split)
  moreover have "failure_count (buildToolCallKey (tc_name (sample_call ''readEmails'')) (tc_input (sample_call ''readEmails''))) sample_state
      < ac_maxConsecutiveToolFailures (ag_config ?env)"
    by (simp add: failure_count_def sample_state_def sample_agent_def)
  moreover have "isLocked (?db\<lparr>sessionUsage := [''s'' \<mapsto> \<lparr>su_inputTokens = 1, su_outputTokens = 1\<rparr>]\<rparr>)"
    by (simp add: isLocked_def)
  ultimately obtain ts' where "handleRealToolCall ?env ?reg (sample_tool_io ''u'') (sample_call ''readEmails'') ''s'' ''n'' ''agent'' []
      True (sample_state, ?db) = (ts', ?db\<lparr>sessionUsage := [''s'' \<mapsto> \<lparr>su_inputTokens = 1, su_outputTokens = 1\<rparr>]\<rparr>)"
    "ts_blocks ts' \<noteq> []"
    using executed_without_audit_when_locked [where reg = ?reg, OF d refl refl, of sample_state "''s''" "''n''" "''agent''" "[]" True]
    by auto
  then show ?thesis unfolding Let_def by blast
qed

lemma sample_model_call:
  assumes "0 \<le> estimateRequestTokens rq" "estimateRequestTokens rq \<le> 50000" "rq_maxOutputTokens rq \<le> 8000"
    and "\<And>v m w. pv_complete pv v m rq w = (Inr ((sample_answer m)\<lparr>rs_content := content\<rparr>), w + 1)"
  shows "\<exists>db'. guarded_complete pv sample_env sample_guard_io profile rq None (Some sid)
      (sample_ledger [] None, 0 :: nat) = (Inr ((sample_answer ''claude-sonnet-5'')\<lparr>rs_content := content\<rparr>), db', 1)"
proof -
  let ?hints = "\<lparr>h_estimatedInputTokens = Some (estimateRequestTokens rq), h_latencyLow = False, h_budgetRemaining = Some 1\<rparr>"
  have cd: "resolveCandidates (\<lambda>_. Some sample_profile) None (\<lambda>_. None) profile ?hints =
      Inr \<lparr>cd_selected = Some ''claude-sonnet-5'', cd_tier = Primary, cd_secondary = Some ''claude-haiku-4-5'', cd_effort = None\<rparr>"
    using assms(2) by (simp add: resolveCandidates_def selectModel_def sample_profile_def LOW_BUDGET_REMAINING_THRESHOLD_def)
  have run: "router_complete pv (ge_router sample_env) profile rq ?hints 0 =
      (Inr ((sample_answer ''claude-sonnet-5'')\<lparr>rs_content := content\<rparr>), 1)"
    using assms(4) by (simp add: router_complete_def sample_env_def cd withEffort_def executeWithFailover_def retryOnce_def call_model_def
        providerFor_def)
  have check: "checkBeforeCall sample_budget 0 7200000 sid (estimateRequestTokens rq) (rq_maxOutputTokens rq) (sample_ledger [] None) = Inr 1"
    using assms(1-3) by (simp add: checkBeforeCall_def wouldExceedSessionBudget_def) (simp add: sample_budget_def)
  have "\<exists>db'. recordUsage sample_budget (ge_prices sample_env) 0 sample_usage_io sid ''claude-sonnet-5'' p 4 5
      (sample_ledger [] None) = (Inr (), db')" for p
    by (simp add: recordUsage_def computeCostUsd_def resolvePrice_def sample_env_def upsert_daily_def upsert_hourly_def
        sample_ledger_def int4_ok_def numeric_ok_def numeric_12_6_def Let_def)
  then obtain db' where "recordUsage sample_budget (ge_prices sample_env) 0 sample_usage_io sid ''claude-sonnet-5''
      (profile_name profile) 4 5 (sample_ledger [] None) = (Inr (), db')" by blast
  then show ?thesis
    using run check
    by (simp add: guarded_complete_def guarded_def sample_guard_io_def)
      (simp add: sample_env_def sample_answer_def)
qed


end
