(* ===== verification/Ledger.thy ===== *)
theory Ledger
  imports Js_Date Jin_Errors
begin

text \<open>
  The task ledger of the multi-agent runs (\<open>src/agent/ledger.repository.ts\<close>, \<open>src/agent/orchestrator.types.ts\<close>):
  its three tables, the operations on them and the paginated listing of the runs.

  The tickets of a run are written by one statement, so they share their \<open>created_at\<close> and the listing by
  that column leaves their order open; here it is the order of insertion. The columns \<open>updated_at\<close>, and
  \<open>created_at\<close> of tickets and comments, are read by nothing else and left out. A statement that breaks a
  key of the schema is refused with the database's own error.
\<close>

section \<open>Types\<close>

datatype AgentTicketStatus = TkPending | TkInProgress | TkDone | TkFailed | TkBlocked

datatype AgentRunStatus = RunRunning | RunBlocked | RunDone | RunFailed | RunKilled

datatype AgentCommentAuthorType = ByOrchestrator | BySubAgent | ByOwner

datatype AgentCommentKind = KNote | KResult | KConflict | KResolution

fun ticket_status_name :: "AgentTicketStatus \<Rightarrow> string" where
  "ticket_status_name TkPending = ''pending''"
| "ticket_status_name TkInProgress = ''in-progress''"
| "ticket_status_name TkDone = ''done''"
| "ticket_status_name TkFailed = ''failed''"
| "ticket_status_name TkBlocked = ''blocked''"

fun author_name :: "AgentCommentAuthorType \<Rightarrow> string" where
  "author_name ByOrchestrator = ''orchestrator''"
| "author_name BySubAgent = ''sub_agent''"
| "author_name ByOwner = ''owner''"

fun kind_name :: "AgentCommentKind \<Rightarrow> string" where
  "kind_name KNote = ''note''"
| "kind_name KResult = ''result''"
| "kind_name KConflict = ''conflict''"
| "kind_name KResolution = ''resolution''"

record DecomposedTicketDraft =
  dr_description :: string
  dr_allowedTools :: "string list"
  dr_dependsOnIndexes :: "nat list"

text \<open>A dependency on an index outside the list of drafts is \<open>undefined\<close>, stored as \<open>null\<close>.\<close>

record Ticket =
  tk_id :: uuid
  tk_runId :: uuid
  tk_description :: string
  tk_status :: AgentTicketStatus
  tk_assignedSubAgentId :: "string option"
  tk_allowedTools :: "string list"
  tk_dependsOn :: "uuid option list"
  tk_result :: "string option"

record TicketComment =
  tc_ticketId :: uuid
  tc_authorType :: AgentCommentAuthorType
  tc_authorId :: "string option"
  tc_kind :: AgentCommentKind
  tc_body :: string

record RunSummary =
  rn_id :: uuid
  rn_objective :: string
  rn_status :: AgentRunStatus
  rn_parentSessionId :: string
  rn_finalResponse :: "string option"
  rn_createdAt :: timestamp
  rn_completedAt :: "timestamp option"

text \<open>\<open>run_events\<close> are the \<open>orchestration.run.changed\<close> events emitted so far.\<close>

record ledger =
  agent_orchestration_runs :: "RunSummary list"
  agent_tickets :: "Ticket list"
  agent_ticket_comments :: "TicketComment list"
  run_events :: "uuid list"

section \<open>Operations\<close>

definition createRun :: "uuid \<Rightarrow> timestamp \<Rightarrow> string \<Rightarrow> string \<Rightarrow> ledger \<Rightarrow> (jin_error + uuid) \<times> ledger" where
  "createRun rid now objective parentSessionId lg =
     (if rid \<in> rn_id ` set (agent_orchestration_runs lg) then (Inl (OtherError ''agent_orchestration_runs_pkey''), lg)
      else (Inr rid, lg\<lparr>agent_orchestration_runs := agent_orchestration_runs lg @
        [\<lparr>rn_id = rid, rn_objective = objective, rn_status = RunRunning, rn_parentSessionId = parentSessionId,
          rn_finalResponse = None, rn_createdAt = now, rn_completedAt = None\<rparr>]\<rparr>))"

definition nth_id :: "uuid list \<Rightarrow> nat \<Rightarrow> uuid option" where
  "nth_id ids i = (if i < length ids then Some (ids ! i) else None)"

definition draft_tickets :: "uuid \<Rightarrow> uuid list \<Rightarrow> DecomposedTicketDraft list \<Rightarrow> Ticket list" where
  "draft_tickets runId ids drafts = map (\<lambda>(i, draft). \<lparr>tk_id = i, tk_runId = runId, tk_description = dr_description draft,
     tk_status = TkPending, tk_assignedSubAgentId = None, tk_allowedTools = dr_allowedTools draft,
     tk_dependsOn = map (nth_id ids) (dr_dependsOnIndexes draft), tk_result = None\<rparr>) (zip ids drafts)"

text \<open>\<open>newId\<close> gives the fresh id of each draft.\<close>

definition createTickets :: "(nat \<Rightarrow> uuid) \<Rightarrow> uuid \<Rightarrow> DecomposedTicketDraft list \<Rightarrow> ledger \<Rightarrow> (jin_error + Ticket list) \<times> ledger" where
  "createTickets newId runId drafts lg =
     (let ids = map newId [0..<length drafts]; rows = draft_tickets runId ids drafts in
      if rows = [] then (Inr [], lg)
      else if runId \<notin> rn_id ` set (agent_orchestration_runs lg) then (Inl (OtherError ''agent_tickets_run_id_fk''), lg)
      else if \<not> distinct (map tk_id (agent_tickets lg @ rows)) then (Inl (OtherError ''agent_tickets_pkey''), lg)
      else (Inr rows, lg\<lparr>agent_tickets := agent_tickets lg @ rows\<rparr>))"

definition getTickets :: "uuid \<Rightarrow> ledger \<Rightarrow> Ticket list" where
  "getTickets runId lg = filter (\<lambda>t. tk_runId t = runId) (agent_tickets lg)"

definition updateTicketStatus :: "uuid \<Rightarrow> AgentTicketStatus \<Rightarrow> string option \<Rightarrow> ledger \<Rightarrow> ledger" where
  "updateTicketStatus ticketId status result lg = lg\<lparr>agent_tickets := update_rows (\<lambda>t. tk_id t = ticketId)
     (\<lambda>t. case result of Some r \<Rightarrow> t\<lparr>tk_status := status, tk_result := Some r\<rparr> | None \<Rightarrow> t\<lparr>tk_status := status\<rparr>)
     (agent_tickets lg)\<rparr>"

definition assignSubAgent :: "uuid \<Rightarrow> string \<Rightarrow> ledger \<Rightarrow> ledger" where
  "assignSubAgent ticketId subAgentId lg = lg\<lparr>agent_tickets := update_rows (\<lambda>t. tk_id t = ticketId)
     (\<lambda>t. t\<lparr>tk_assignedSubAgentId := Some subAgentId\<rparr>) (agent_tickets lg)\<rparr>"

text \<open>The ticket must exist. A text that is not a UUID is no ticket either.\<close>

definition addComment :: "TicketComment \<Rightarrow> ledger \<Rightarrow> (jin_error + unit) \<times> ledger" where
  "addComment c lg =
     (if tc_ticketId c \<notin> tk_id ` set (agent_tickets lg) then (Inl (OtherError ''agent_ticket_comments_ticket_id_fk''), lg)
      else (Inr (), lg\<lparr>agent_ticket_comments := agent_ticket_comments lg @ [c]\<rparr>))"

definition getComments :: "uuid \<Rightarrow> ledger \<Rightarrow> TicketComment list" where
  "getComments ticketId lg = filter (\<lambda>c. tc_ticketId c = ticketId) (agent_ticket_comments lg)"

definition getCompletedSiblings :: "uuid \<Rightarrow> uuid \<Rightarrow> ledger \<Rightarrow> Ticket list" where
  "getCompletedSiblings runId excludeTicketId lg =
     filter (\<lambda>t. tk_id t \<noteq> excludeTicketId \<and> tk_status t = TkDone) (getTickets runId lg)"

definition completeRun :: "uuid \<Rightarrow> timestamp \<Rightarrow> AgentRunStatus \<Rightarrow> string option \<Rightarrow> ledger \<Rightarrow> ledger" where
  "completeRun runId now status finalResponse lg = lg\<lparr>agent_orchestration_runs := update_rows (\<lambda>r. rn_id r = runId)
     (\<lambda>r. r\<lparr>rn_status := status, rn_finalResponse := finalResponse, rn_completedAt := Some now\<rparr>) (agent_orchestration_runs lg)\<rparr>"

definition run_changed :: "uuid \<Rightarrow> ledger \<Rightarrow> ledger" where
  "run_changed runId lg = lg\<lparr>run_events := run_events lg @ [runId]\<rparr>"

definition getRun :: "uuid \<Rightarrow> ledger \<Rightarrow> RunSummary option" where
  "getRun runId lg = lookup_row rn_id (agent_orchestration_runs lg) runId"

text \<open>\<open>parse_date\<close> is \<open>new Date(cursor)\<close>; comparing with an invalid date is an error of the driver.\<close>

definition listRuns :: "(string \<Rightarrow> timestamp option) \<Rightarrow> nat \<Rightarrow> string option \<Rightarrow> ledger
    \<Rightarrow> jin_error + (RunSummary list \<times> string option)" where
  "listRuns parse_date limit cursor lg =
     (let page = (\<lambda>below. let rows = take (limit + 1) (filter (\<lambda>r. below (rn_createdAt r))
               (rev (sort_key rn_createdAt (agent_orchestration_runs lg))));
             hasMore = limit < length rows;
             items = (if hasMore then take limit rows else rows)
           in Inr (items, if hasMore then (case rev items of r # _ \<Rightarrow> Some (toISOString (rn_createdAt r)) | [] \<Rightarrow> None) else None))
      in case cursor of
           None \<Rightarrow> page (\<lambda>_. True)
         | Some c \<Rightarrow> if c = [] then page (\<lambda>_. True)
             else (case parse_date c of None \<Rightarrow> Inl (OtherError ''RangeError'') | Some d \<Rightarrow> page (\<lambda>t. t < d)))"

section \<open>How the operations move the tickets\<close>

lemma update_ticket_fields [frame_simps]:
  "agent_orchestration_runs (updateTicketStatus k s r lg) = agent_orchestration_runs lg"
  "agent_ticket_comments (updateTicketStatus k s r lg) = agent_ticket_comments lg"
  "agent_orchestration_runs (assignSubAgent k a lg) = agent_orchestration_runs lg"
  "agent_ticket_comments (assignSubAgent k a lg) = agent_ticket_comments lg"
  "agent_tickets (run_changed k lg) = agent_tickets lg"
  "agent_orchestration_runs (run_changed k lg) = agent_orchestration_runs lg"
  "agent_ticket_comments (run_changed k lg) = agent_ticket_comments lg"
  "agent_tickets (completeRun k now st resp lg) = agent_tickets lg"
  "agent_tickets (snd (addComment c lg)) = agent_tickets lg"
  "agent_orchestration_runs (snd (addComment c lg)) = agent_orchestration_runs lg"
  "agent_tickets (snd (createRun k now obj sid lg)) = agent_tickets lg"
  by (simp_all add: updateTicketStatus_def assignSubAgent_def run_changed_def completeRun_def addComment_def createRun_def)

definition ticket_of :: "uuid \<Rightarrow> ledger \<Rightarrow> Ticket option" where
  "ticket_of k lg = lookup_row tk_id (agent_tickets lg) k"

definition with_status :: "AgentTicketStatus \<Rightarrow> string option \<Rightarrow> Ticket \<Rightarrow> Ticket" where
  "with_status s result t = (case result of Some r \<Rightarrow> t\<lparr>tk_status := s, tk_result := Some r\<rparr> | None \<Rightarrow> t\<lparr>tk_status := s\<rparr>)"

lemma with_status_simps [simp]:
  "tk_id (with_status s r t) = tk_id t" "tk_runId (with_status s r t) = tk_runId t" "tk_status (with_status s r t) = s"
  "tk_dependsOn (with_status s r t) = tk_dependsOn t"
  by (simp_all add: with_status_def split: option.split)

lemma ticket_of_update:
  "ticket_of j (updateTicketStatus k s r lg) = (if j = k then map_option (with_status s r) (ticket_of k lg) else ticket_of j lg)"
proof -
  have "updateTicketStatus k s r lg = lg\<lparr>agent_tickets := update_rows (\<lambda>t. tk_id t = k) (with_status s r) (agent_tickets lg)\<rparr>"
    by (simp add: updateTicketStatus_def with_status_def [abs_def])
  then have "ticket_of j (updateTicketStatus k s r lg) =
      map_option (\<lambda>t. if tk_id t = k then with_status s r t else t) (ticket_of j lg)"
    by (simp add: ticket_of_def lookup_row_update_rows)
  then show ?thesis
    by (cases "ticket_of j lg") (auto simp: ticket_of_def simp del: lookup_row_None_iff dest: lookup_row_SomeD)
qed

lemma ticket_of_assign:
  "ticket_of j (assignSubAgent k a lg) =
     (if j = k then map_option (\<lambda>t. t\<lparr>tk_assignedSubAgentId := Some a\<rparr>) (ticket_of k lg) else ticket_of j lg)"
proof -
  have "ticket_of j (assignSubAgent k a lg) =
      map_option (\<lambda>t. if tk_id t = k then t\<lparr>tk_assignedSubAgentId := Some a\<rparr> else t) (ticket_of j lg)"
    by (simp add: ticket_of_def assignSubAgent_def lookup_row_update_rows)
  then show ?thesis
    by (cases "ticket_of j lg") (auto simp: ticket_of_def simp del: lookup_row_None_iff dest: lookup_row_SomeD)
qed

lemma ticket_of_id: "ticket_of k lg = Some t \<Longrightarrow> tk_id t = k"
  by (auto simp: ticket_of_def dest: lookup_row_SomeD)

lemma ticket_of_same_tickets: "agent_tickets lg' = agent_tickets lg \<Longrightarrow> ticket_of k lg' = ticket_of k lg"
  by (simp add: ticket_of_def)

text \<open>The tickets of a run that have not started, in the order of the board.\<close>

definition pending_ids :: "uuid \<Rightarrow> ledger \<Rightarrow> uuid list" where
  "pending_ids run lg = map tk_id (filter (\<lambda>t. tk_status t = TkPending) (getTickets run lg))"

lemma pending_ids_update:
  assumes "s \<noteq> TkPending"
  shows "pending_ids run (updateTicketStatus k s r lg) = filter (\<lambda>j. j \<noteq> k) (pending_ids run lg)"
proof -
  have "map tk_id (filter (\<lambda>t. tk_status t = TkPending) (filter (\<lambda>t. tk_runId t = run)
      (update_rows (\<lambda>t. tk_id t = k) (with_status s r) ts))) =
    filter (\<lambda>j. j \<noteq> k) (map tk_id (filter (\<lambda>t. tk_status t = TkPending) (filter (\<lambda>t. tk_runId t = run) ts)))" for ts
    using assms by (induction ts) (simp_all add: update_rows_def)
  moreover have "agent_tickets (updateTicketStatus k s r lg) = update_rows (\<lambda>t. tk_id t = k) (with_status s r) (agent_tickets lg)"
    by (simp add: updateTicketStatus_def with_status_def [abs_def])
  ultimately show ?thesis by (simp add: pending_ids_def getTickets_def)
qed

lemma pending_ids_assign: "pending_ids run (assignSubAgent k a lg) = pending_ids run lg"
proof -
  have "map tk_id (filter (\<lambda>t. tk_status t = TkPending) (filter (\<lambda>t. tk_runId t = run)
      (update_rows (\<lambda>t. tk_id t = k) (\<lambda>t. t\<lparr>tk_assignedSubAgentId := Some a\<rparr>) ts))) =
    map tk_id (filter (\<lambda>t. tk_status t = TkPending) (filter (\<lambda>t. tk_runId t = run) ts))" for ts
    by (induction ts) (simp_all add: update_rows_def)
  then show ?thesis by (simp add: pending_ids_def getTickets_def assignSubAgent_def)
qed

lemma tickets_update_ids [simp]:
  "map tk_id (agent_tickets (updateTicketStatus k s r lg)) = map tk_id (agent_tickets lg)"
  "map tk_id (agent_tickets (assignSubAgent k a lg)) = map tk_id (agent_tickets lg)"
  by (simp_all add: updateTicketStatus_def assignSubAgent_def split: option.split)

section \<open>What an orchestrator relies on\<close>

text \<open>
  A board answers for the ticket with an id and changes exactly that ticket. A client that starts a ticket only
  when its dependencies are done, and never touches a finished one, keeps the dependencies in order.
\<close>

locale task_board =
  fixes look :: "uuid \<Rightarrow> 'b \<Rightarrow> Ticket option"
    and set_status :: "uuid \<Rightarrow> AgentTicketStatus \<Rightarrow> string option \<Rightarrow> 'b \<Rightarrow> 'b"
  assumes look_id: "look k b = Some t \<Longrightarrow> tk_id t = k"
    and look_set_status: "look j (set_status k s r b) = (if j = k then map_option (with_status s r) (look k b) else look j b)"
begin

definition done_in :: "'b \<Rightarrow> uuid option \<Rightarrow> bool" where
  "done_in b d \<longleftrightarrow> (\<exists>j u. d = Some j \<and> look j b = Some u \<and> tk_status u = TkDone)"

definition deps_in_order :: "'b \<Rightarrow> bool" where
  "deps_in_order b \<longleftrightarrow> (\<forall>k t. look k b = Some t \<longrightarrow> tk_status t \<noteq> TkPending \<longrightarrow> (\<forall>d \<in> set (tk_dependsOn t). done_in b d))"

lemma done_in_set_status:
  assumes "done_in b d" "\<forall>u. look k b = Some u \<longrightarrow> tk_status u \<noteq> TkDone"
  shows "done_in (set_status k s r b) d"
proof -
  from assms(1) obtain j u where j: "d = Some j" "look j b = Some u" "tk_status u = TkDone" by (auto simp: done_in_def)
  with assms(2) have "j \<noteq> k" by auto
  with j show ?thesis by (auto simp: done_in_def look_set_status)
qed

lemma start_keeps_order:
  assumes "deps_in_order b" "\<forall>u. look k b = Some u \<longrightarrow> tk_status u \<noteq> TkDone"
    and "\<forall>u. look k b = Some u \<longrightarrow> (\<forall>d \<in> set (tk_dependsOn u). done_in b d)"
  shows "deps_in_order (set_status k s r b)"
  unfolding deps_in_order_def
proof (intro allI impI ballI)
  fix j t d assume t: "look j (set_status k s r b) = Some t" "tk_status t \<noteq> TkPending" "d \<in> set (tk_dependsOn t)"
  have "done_in b d"
  proof (cases "j = k")
    case True
    with t obtain u where "look k b = Some u" "t = with_status s r u" by (auto simp: look_set_status)
    with t(3) assms(3) show ?thesis by auto
  next
    case False
    with t assms(1) show ?thesis by (auto simp: look_set_status deps_in_order_def)
  qed
  then show "done_in (set_status k s r b) d" using assms(2) by (rule done_in_set_status)
qed

lemma move_keeps_order:
  assumes "deps_in_order b" "\<forall>u. look k b = Some u \<longrightarrow> tk_status u \<notin> {TkPending, TkDone}"
  shows "deps_in_order (set_status k s r b)"
  using assms by (intro start_keeps_order) (auto simp: deps_in_order_def)

lemma deps_in_order_cong:
  assumes "deps_in_order b" "\<And>k. map_option (\<lambda>t. (tk_status t, tk_dependsOn t)) (look k b') =
      map_option (\<lambda>t. (tk_status t, tk_dependsOn t)) (look k b)"
  shows "deps_in_order b'"
proof -
  have same: "look k b' = Some t \<Longrightarrow> \<exists>u. look k b = Some u \<and> tk_status u = tk_status t \<and> tk_dependsOn u = tk_dependsOn t"
    "look k b = Some t \<Longrightarrow> \<exists>u. look k b' = Some u \<and> tk_status u = tk_status t" for k t
    using assms(2) [of k] by (cases "look k b"; cases "look k b'"; simp)+
  then have "done_in b d \<Longrightarrow> done_in b' d" for d
    by (auto simp: done_in_def) metis
  with same(1) assms(1) show ?thesis unfolding deps_in_order_def by metis
qed

end

interpretation board: task_board ticket_of updateTicketStatus
  by unfold_locales (auto simp: ticket_of_update dest: ticket_of_id)

end
