(* ===== verification/Js_Json.thy ===== *)
theory Js_Json
  imports Js_Text "HOL-Library.AList"
begin

text \<open>
  \<open>JSON.parse\<close> of the language, as far as the code needs it: the grammar of JSON over characters of the
  Latin-1 range and integral numbers. A text with another number (a fraction, an exponent) or with an
  escape beyond Latin-1 is outside the values of \<open>json\<close> and is refused here like a syntax error.

  The parser runs on fuel; \<open>parse_stringify\<close> shows that the fuel of \<open>JSON_parse\<close> is enough for every
  text that \<open>JSON.stringify\<close> writes.
\<close>

section \<open>Tokens\<close>

definition is_ws :: "char \<Rightarrow> bool" where
  "is_ws c \<longleftrightarrow> c \<in> {CHR 0x20, CHR 0x09, CHR 0x0A, CHR 0x0D}"

definition skip_ws :: "string \<Rightarrow> string" where
  "skip_ws s = dropWhile is_ws s"

definition is_hex :: "char \<Rightarrow> bool" where
  "is_hex c \<longleftrightarrow> is_digit c \<or> c \<in> set ''abcdef''"

definition to_lower_hex :: "char \<Rightarrow> char" where
  "to_lower_hex c = (let n = (of_char c :: nat) in if 65 \<le> n \<and> n \<le> 70 then char_of (n + 32) else c)"

fun parse_chars :: "string \<Rightarrow> (string \<times> string) option" where
  "parse_chars [] = None"
| "parse_chars (c # s) =
     (if c = CHR 0x22 then Some ([], s)
      else if (of_char c :: nat) < 32 then None
      else if c \<noteq> CHR 0x5C then map_option (\<lambda>(t, r). (c # t, r)) (parse_chars s)
      else (case s of
          [] \<Rightarrow> None
        | e # r1 \<Rightarrow>
            if e \<in> {CHR 0x22, CHR 0x5C, CHR ''/''} then map_option (\<lambda>(t, r). (e # t, r)) (parse_chars r1)
            else if e \<in> {CHR ''b'', CHR ''t'', CHR ''n'', CHR ''f'', CHR ''r''}
            then map_option (\<lambda>(t, r). (fst (json_unescape (CHR 0x5C # e # [])) # t, r)) (parse_chars r1)
            else if e = CHR ''u''
            then (case r1 of
                p # q # h # k # r2 \<Rightarrow>
                  if p = CHR ''0'' \<and> q = CHR ''0'' \<and> is_hex (to_lower_hex h) \<and> is_hex (to_lower_hex k)
                  then map_option (\<lambda>(t, r). (char_of (16 * hex_val (to_lower_hex h) + hex_val (to_lower_hex k)) # t, r))
                         (parse_chars r2)
                  else None
              | _ \<Rightarrow> None)
            else None))"

definition parse_digits :: "string \<Rightarrow> (nat \<times> string) option" where
  "parse_digits s = (let ds = takeWhile is_digit s; r = dropWhile is_digit s in
     if ds = [] \<or> (hd ds = CHR ''0'' \<and> 1 < length ds) \<or> (r \<noteq> [] \<and> hd r \<in> {CHR ''.'', CHR ''e'', CHR ''E''}) then None
     else Some (read_nat ds, r))"

section \<open>Values\<close>

fun parse_value :: "nat \<Rightarrow> string \<Rightarrow> (json \<times> string) option"
  and parse_items :: "nat \<Rightarrow> string \<Rightarrow> (json list \<times> string) option"
  and parse_entries :: "nat \<Rightarrow> string \<Rightarrow> ((string \<times> json) list \<times> string) option" where
  "parse_value 0 s = None"
| "parse_value (Suc n) s = (case skip_ws s of
      [] \<Rightarrow> None
    | c # r \<Rightarrow>
        if c = CHR 0x22 then map_option (\<lambda>(t, r). (JStr t, r)) (parse_chars r)
        else if c = CHR ''['' then
          (if skip_ws r \<noteq> [] \<and> hd (skip_ws r) = CHR '']'' then Some (JArr [], tl (skip_ws r))
           else map_option (\<lambda>(vs, r). (JArr vs, r)) (parse_items n r))
        else if c = CHR ''{'' then
          (if skip_ws r \<noteq> [] \<and> hd (skip_ws r) = CHR ''}'' then Some (JObj [], tl (skip_ws r))
           else map_option (\<lambda>(kvs, r). (JObj (foldl (\<lambda>obj (k, v). AList.update k v obj) [] kvs), r)) (parse_entries n r))
        else if c = CHR ''-'' then map_option (\<lambda>(k, r). (JNum (- int k), r)) (parse_digits r)
        else if is_digit c then map_option (\<lambda>(k, r). (JNum (int k), r)) (parse_digits (c # r))
        else if take 4 (c # r) = ''null'' then Some (JNull, drop 4 (c # r))
        else if take 4 (c # r) = ''true'' then Some (JBool True, drop 4 (c # r))
        else if take 5 (c # r) = ''false'' then Some (JBool False, drop 5 (c # r))
        else None)"
| "parse_items 0 s = None"
| "parse_items (Suc n) s = (case parse_value n s of
      None \<Rightarrow> None
    | Some (v, r) \<Rightarrow> (case skip_ws r of
          c # r1 \<Rightarrow> if c = CHR '','' then map_option (\<lambda>(vs, r). (v # vs, r)) (parse_items n r1)
            else if c = CHR '']'' then Some ([v], r1) else None
        | [] \<Rightarrow> None))"
| "parse_entries 0 s = None"
| "parse_entries (Suc n) s = (case skip_ws s of
      q # s1 \<Rightarrow> if q \<noteq> CHR 0x22 then None
        else (case parse_chars s1 of
            None \<Rightarrow> None
          | Some (k, r) \<Rightarrow> (case skip_ws r of
                c # r1 \<Rightarrow> if c \<noteq> CHR '':'' then None
                  else (case parse_value n r1 of
                      None \<Rightarrow> None
                    | Some (v, r2) \<Rightarrow> (case skip_ws r2 of
                          d # r3 \<Rightarrow> if d = CHR '','' then map_option (\<lambda>(kvs, r). ((k, v) # kvs, r)) (parse_entries n r3)
                            else if d = CHR ''}'' then Some ([(k, v)], r3) else None
                        | [] \<Rightarrow> None))
              | [] \<Rightarrow> None))
    | [] \<Rightarrow> None)"

definition JSON_parse :: "string \<Rightarrow> json option" where
  "JSON_parse s = (case parse_value (2 * length s + 2) s of
      Some (v, r) \<Rightarrow> if skip_ws r = [] then Some v else None
    | None \<Rightarrow> None)"

section \<open>Conversion to a string\<close>

text \<open>\<open>String(v)\<close>, as in a template literal; \<open>None\<close> is \<open>undefined\<close>.\<close>

fun js_String :: "json \<Rightarrow> string" and js_element :: "json \<Rightarrow> string" where
  "js_String JNull = ''null''"
| "js_String (JBool b) = (if b then ''true'' else ''false'')"
| "js_String (JNum i) = show_int i"
| "js_String (JStr s) = s"
| "js_String (JArr vs) = join '','' (map js_element vs)"
| "js_String (JObj kvs) = ''[object Object]''"
| "js_element JNull = []"
| "js_element (JBool b) = (if b then ''true'' else ''false'')"
| "js_element (JNum i) = show_int i"
| "js_element (JStr s) = s"
| "js_element (JArr vs) = join '','' (map js_element vs)"
| "js_element (JObj kvs) = ''[object Object]''"

definition js_template :: "json option \<Rightarrow> string" where
  "js_template v = (case v of Some j \<Rightarrow> js_String j | None \<Rightarrow> ''undefined'')"

section \<open>What is printed is read back\<close>

fun json_wf :: "json \<Rightarrow> bool" where
  "json_wf (JArr vs) = (\<forall>v \<in> set vs. json_wf v)"
| "json_wf (JObj kvs) = (distinct (map fst kvs) \<and> (\<forall>kv \<in> set kvs. json_wf (snd kv)))"
| "json_wf _ = True"

lemma skip_ws_hd: "c \<notin> {CHR 0x20, CHR 0x09, CHR 0x0A, CHR 0x0D} \<Longrightarrow> skip_ws (c # s) = c # s"
  by (simp add: skip_ws_def is_ws_def)

lemma skip_ws_fixed [simp]:
  "skip_ws [] = []" "skip_ws (CHR '','' # s) = CHR '','' # s" "skip_ws (CHR '']'' # s) = CHR '']'' # s"
  "skip_ws (CHR ''}'' # s) = CHR ''}'' # s" "skip_ws (CHR '':'' # s) = CHR '':'' # s" "skip_ws (CHR 0x22 # s) = CHR 0x22 # s"
  "skip_ws (CHR ''['' # s) = CHR ''['' # s" "skip_ws (CHR ''{'' # s) = CHR ''{'' # s" "skip_ws (CHR ''-'' # s) = CHR ''-'' # s"
  by (simp_all add: skip_ws_def is_ws_def)

lemma skip_ws_tag: "char_tag c < 7 \<Longrightarrow> skip_ws (c # s) = c # s"
  by (rule skip_ws_hd) (auto simp: char_tag_def is_digit_def)

lemma skip_ws_stringify: "skip_ws (stringify v @ x) = stringify v @ x"
proof -
  obtain c s where s: "stringify v = c # s" "char_tag c = json_tag v" by (rule stringify_hdE)
  then have "char_tag c < 7" by (cases v) auto
  with s show ?thesis by (simp add: skip_ws_tag)
qed

lemma hex_char_lower:
  assumes "d < 16"
  shows "is_hex (hex_char d)" "to_lower_hex (hex_char d) = hex_char d"
proof -
  let ?P = "\<lambda>d. is_hex (hex_char d) \<and> to_lower_hex (hex_char d) = hex_char d"
  have "?P 10" "?P 11" "?P 12" "?P 13" "?P 14" "?P 15" by code_simp+
  moreover have "d < 10 \<Longrightarrow> ?P d"
    by (simp add: is_hex_def to_lower_hex_def hex_char_def digit_char_def is_digit_def)
  moreover have "d < 10 \<or> d \<in> {10, 11, 12, 13, 14, 15}" using assms by auto
  ultimately show "is_hex (hex_char d)" "to_lower_hex (hex_char d) = hex_char d" by auto
qed

lemma parse_chars_escape: "parse_chars (json_escape c @ y) = map_option (\<lambda>(t, r). (c # t, r)) (parse_chars y)"
proof -
  let ?n = "of_char c :: nat"
  consider "?n \<in> {8, 9, 10, 12, 13}" | "?n = 34 \<or> ?n = 92" | "?n < 32" "?n \<notin> {8, 9, 10, 12, 13}"
    | "\<not> ?n < 32" "?n \<noteq> 34" "?n \<noteq> 92"
    by auto
  then show ?thesis
  proof cases
    case 1
    then show ?thesis
      by (elim insertE emptyE) (simp_all add: json_escape_short json_unescape_simps char_of_eqI)
  next
    case 2
    then show ?thesis using json_literals [of c] by (elim disjE) (simp_all add: json_escape_short)
  next
    case 3
    then have "?n div 16 < 16" "?n mod 16 < 16" by auto
    then show ?thesis
      unfolding json_escape_control [OF 3] by (simp add: hex_char_lower)
  next
    case 4
    then have "c \<noteq> CHR 0x5C" "c \<noteq> CHR 0x22" by (auto simp only: json_special_chars)
    then show ?thesis unfolding json_escape_plain [OF 4] using 4 by simp
  qed
qed

lemma parse_chars_quoted: "parse_chars (concat (map json_escape s) @ CHR 0x22 # x) = Some (s, x)"
proof (induction s)
  case (Cons c s)
  then show ?case using parse_chars_escape [of c "concat (map json_escape s) @ CHR 0x22 # x"] by simp
qed simp

lemma show_nat_leading_zero: "hd (show_nat k) = CHR ''0'' \<Longrightarrow> length (show_nat k) = 1"
proof (induction k rule: show_nat.induct)
  case (1 k)
  show ?case
  proof (cases "k < 10")
    case True
    then show ?thesis by (subst show_nat.simps) simp
  next
    case False
    with 1(2) have "hd (show_nat (k div 10)) = CHR ''0''" by (simp add: show_nat.simps [of k])
    with 1(1) False have one: "length (show_nat (k div 10)) = 1" by simp
    with \<open>hd (show_nat (k div 10)) = CHR ''0''\<close> have "show_nat (k div 10) = ''0''" by (cases "show_nat (k div 10)") auto
    moreover have "read_nat ''0'' = 0" by code_simp
    ultimately have "k div 10 = 0" using read_show_nat [of "k div 10"] by simp
    with False show ?thesis by simp
  qed
qed

lemma parse_digits_show: "delim x \<Longrightarrow> parse_digits (show_nat k @ x) = Some (k, x)"
proof -
  assume x: "delim x"
  have "takeWhile is_digit (show_nat k @ x) = show_nat k" "dropWhile is_digit (show_nat k @ x) = x"
    using show_nat_digits [of k] delim_not_digit [OF x]
    by (auto simp: takeWhile_append dropWhile_append takeWhile_eq_Nil_iff) (cases x; auto)+
  moreover have "x = [] \<or> hd x \<notin> {CHR ''.'', CHR ''e'', CHR ''E''}" using x by (auto simp: delim_def)
  ultimately show ?thesis using show_nat_leading_zero [of k] by (auto simp: parse_digits_def Let_def)
qed

lemma AList_foldl_distinct:
  assumes "distinct (map fst (obj @ kvs))"
  shows "foldl (\<lambda>obj (k, v). AList.update k v obj) obj kvs = obj @ kvs"
  using assms
proof (induction kvs arbitrary: obj)
  case (Cons kv kvs)
  obtain k v where kv: "kv = (k, v)" by (cases kv)
  have "k \<notin> fst ` set obj \<Longrightarrow> AList.update k v obj = obj @ [(k, v)]" by (induction obj) auto
  moreover have "k \<notin> fst ` set obj" using Cons.prems kv by auto
  ultimately show ?case using Cons.IH [of "obj @ [(k, v)]"] Cons.prems kv by simp
qed simp

lemma parse_items_join:
  assumes "\<And>v n x. v \<in> set vs \<Longrightarrow> delim x \<Longrightarrow> 2 * length (stringify v) < n \<Longrightarrow> parse_value n (stringify v @ x) = Some (v, x)"
    and "vs \<noteq> []" "2 * length (join '','' (map stringify vs)) + 1 < n"
  shows "parse_items n (join '','' (map stringify vs) @ CHR '']'' # x) = Some (vs, x)"
  using assms
proof (induction vs arbitrary: n)
  case (Cons v vs)
  from Cons.prems(3) obtain m where n: "n = Suc m" by (cases n) auto
  show ?case
  proof (cases vs)
    case Nil
    with Cons.prems n show ?thesis by (simp add: delim_def)
  next
    case (Cons w ws)
    then have j: "join '','' (map stringify (v # vs)) = stringify v @ CHR '','' # join '','' (map stringify vs)" by simp
    have "parse_value m (stringify v @ CHR '','' # join '','' (map stringify vs) @ CHR '']'' # x) =
        Some (v, CHR '','' # join '','' (map stringify vs) @ CHR '']'' # x)"
      using Cons.prems(1,3) n j by (simp add: delim_def)
    moreover have "parse_items m (join '','' (map stringify vs) @ CHR '']'' # x) = Some (vs, x)"
      using Cons.prems(1,3) n j Cons by (intro Cons.IH) auto
    ultimately show ?thesis using n unfolding j by simp
  qed
qed simp

lemma parse_entries_join:
  assumes "\<And>kv n x. kv \<in> set kvs \<Longrightarrow> delim x \<Longrightarrow> 2 * length (stringify (snd kv)) < n
      \<Longrightarrow> parse_value n (stringify (snd kv) @ x) = Some (snd kv, x)"
    and "kvs \<noteq> []" "2 * length (join '','' (map json_entry kvs)) + 1 < n"
  shows "parse_entries n (join '','' (map json_entry kvs) @ CHR ''}'' # x) = Some (kvs, x)"
  using assms
proof (induction kvs arbitrary: n)
  case (Cons kv kvs)
  obtain k v where kv: "kv = (k, v)" by (cases kv)
  from Cons.prems(3) obtain m where n: "n = Suc m" by (cases n) auto
  have q: "json_quote k @ z = CHR 0x22 # concat (map json_escape k) @ CHR 0x22 # z" for z by (simp add: json_quote_def)
  show ?case
  proof (cases kvs)
    case Nil
    with Cons.prems n kv show ?thesis by (simp add: json_entry_def q parse_chars_quoted delim_def)
  next
    case (Cons w ws)
    then have j: "join '','' (map json_entry (kv # kvs)) = json_quote k @ CHR '':'' # stringify v @ CHR '','' # join '','' (map json_entry kvs)"
      by (simp add: kv json_entry_def)
    have "parse_value m (stringify v @ CHR '','' # join '','' (map json_entry kvs) @ CHR ''}'' # x) =
        Some (v, CHR '','' # join '','' (map json_entry kvs) @ CHR ''}'' # x)"
      using Cons.prems(1) [of kv] Cons.prems(3) n j kv by (simp add: delim_def)
    moreover have "parse_entries m (join '','' (map json_entry kvs) @ CHR ''}'' # x) = Some (kvs, x)"
      using Cons.prems(1,3) n j Cons by (intro Cons.IH) auto
    ultimately show ?thesis using n kv unfolding j by (simp add: q parse_chars_quoted)
  qed
qed simp

lemma parse_value_stringify:
  "json_wf v \<Longrightarrow> delim x \<Longrightarrow> 2 * length (stringify v) < n \<Longrightarrow> parse_value n (stringify v @ x) = Some (v, x)"
proof (induction v arbitrary: n x)
  case (JNum i)
  then obtain m where n: "n = Suc m" by (cases n) auto
  show ?case
  proof (cases "i < 0")
    case True
    with JNum n show ?thesis by (simp add: show_int_def parse_digits_show)
  next
    case False
    obtain c r where s: "show_nat (nat i) = c # r" by (cases "show_nat (nat i)") auto
    then have d: "is_digit c" by (rule show_nat_hd_digit)
    then have "c \<notin> {CHR 0x22, CHR ''['', CHR ''{'', CHR ''-''}" "skip_ws (c # z) = c # z" for z
      by (auto simp: is_digit_def char_tag_digit intro!: skip_ws_tag)
    with False JNum n d s show ?thesis using parse_digits_show [of x "nat i"] by (simp add: show_int_def)
  qed
next
  case (JStr t)
  then obtain m where n: "n = Suc m" by (cases n) auto
  then show ?case by (simp add: json_quote_def parse_chars_quoted)
next
  case (JArr vs)
  then obtain m where n: "n = Suc m" by (cases n) auto
  show ?case
  proof (cases vs)
    case Nil
    with n show ?thesis by simp
  next
    case (Cons v us)
    let ?j = "join '','' (map stringify vs)"
    have "parse_items m (?j @ CHR '']'' # x) = Some (vs, x)"
      using JArr n Cons by (intro parse_items_join) auto
    moreover obtain c s where c: "stringify v = c # s" "char_tag c = json_tag v" by (rule stringify_hdE)
    moreover have "c \<noteq> CHR '']''" "skip_ws (?j @ CHR '']'' # x) = ?j @ CHR '']'' # x"
      using stringify_delim_free [OF c(1)] skip_ws_stringify [of v] Cons by (simp_all add: join_concat)
    ultimately show ?thesis using n Cons by (simp add: join_concat)
  qed
next
  case (JObj kvs)
  then obtain m where n: "n = Suc m" by (cases n) auto
  show ?case
  proof (cases kvs)
    case Nil
    with n show ?thesis by simp
  next
    case (Cons kv us)
    let ?j = "join '','' (map json_entry kvs)"
    have "parse_entries m (?j @ CHR ''}'' # x) = Some (kvs, x)"
    proof (rule parse_entries_join)
      show "parse_value n (stringify (snd kv) @ y) = Some (snd kv, y)"
        if "kv \<in> set kvs" "delim y" "2 * length (stringify (snd kv)) < n" for kv n y
        using JObj.IH [of kv "snd kv" y n] JObj.prems(1) that by (cases kv) auto
      show "2 * length ?j + 1 < m" using JObj.prems(3) n by (simp add: stringify_JObj del: stringify.simps)
    qed (use Cons in simp)
    moreover obtain s where "?j = CHR 0x22 # s" using Cons by (cases kv) (auto simp: join_concat json_entry_def json_quote_def)
    ultimately show ?thesis using n JObj.prems(1) AList_foldl_distinct [of "[]" kvs]
      by (simp add: stringify_JObj del: stringify.simps(6))
  qed
next
  case (JBool b)
  then obtain m where "n = Suc m" by (cases n) auto
  then show ?case by (simp add: skip_ws_def is_ws_def is_digit_def)
next
  case JNull
  then obtain m where "n = Suc m" by (cases n) auto
  then show ?case by (simp add: skip_ws_def is_ws_def is_digit_def)
qed

theorem parse_stringify: "json_wf v \<Longrightarrow> JSON_parse (stringify v) = Some v"
  using parse_value_stringify [of v "[]" "2 * length (stringify v) + 2"] by (simp add: JSON_parse_def delim_def del: parse_value.simps)

end
