(* ===== verification/Orchestrator.thy ===== *)
theory Orchestrator
  imports Agent_Turn Ledger Js_Json
begin

text \<open>
  The multi-agent orchestrator (\<open>src/agent/orchestrator.service.ts\<close>, \<open>src/agent/orchestrator.logic.ts\<close>) with the two
  model calls around it: the decomposition of an objective into tickets
  (\<open>src/agent/ticket-decomposition.service.ts\<close>) and the reconciliation of their results
  (\<open>src/agent/reconciliation.service.ts\<close>).

  The sub-agents of a batch run at the same time. Each is a small program that moves by one database
  operation or one whole turn of the agent; the order in which they move is a schedule, an argument of the
  model, completed so that all of them finish. The first failure ends the wait for the batch, and the others
  are left where they are. The state is the ledger, and the pair of the database and the outside world in
  which the turns of the agent run.
\<close>

section \<open>Pure logic\<close>

definition status_by_id :: "Ticket list \<Rightarrow> uuid \<rightharpoonup> AgentTicketStatus" where
  "status_by_id tickets = map_of (rev (map (\<lambda>t. (tk_id t, tk_status t)) tickets))"

definition dep_done :: "Ticket list \<Rightarrow> uuid option \<Rightarrow> bool" where
  "dep_done tickets d = (case d of Some k \<Rightarrow> status_by_id tickets k = Some TkDone | None \<Rightarrow> False)"

definition computeReadyBatch :: "Ticket list \<Rightarrow> Ticket list" where
  "computeReadyBatch tickets = filter (\<lambda>t. tk_status t = TkPending \<and> list_all (dep_done tickets) (tk_dependsOn t)) tickets"

definition chunk :: "'a list \<Rightarrow> nat \<Rightarrow> jin_error + 'a list list" where
  "chunk items n = (if n < 1 then Inl (OtherError (''chunk: size debe ser >= 1, recibido '' @ show_nat n))
     else Inr (chunks_of n items))"

datatype riskLevel = Low | Material

record ReconciliationConflict =
  cf_ticketIds :: "string list"
  cf_summary :: string
  cf_riskLevel :: riskLevel
  cf_proposedResolution :: string

record ReconciliationOutput =
  ro_finalResponse :: string
  ro_conflicts :: "ReconciliationConflict list"

definition computeRunStatus :: "Ticket list \<Rightarrow> ReconciliationOutput option \<Rightarrow> AgentRunStatus" where
  "computeRunStatus tickets reconciliation =
     (let hasUnresolvedMaterialConflict = (case reconciliation of
            Some r \<Rightarrow> list_ex (\<lambda>c. cf_riskLevel c = Material) (ro_conflicts r) | None \<Rightarrow> False);
          hasUnfinished = list_ex (\<lambda>t. tk_status t \<in> {TkPending, TkInProgress, TkBlocked}) tickets
      in if hasUnfinished \<or> hasUnresolvedMaterialConflict then RunBlocked
         else if list_ex (\<lambda>t. tk_status t = TkFailed) tickets then RunFailed
         else RunDone)"

definition buildBoardContextMessages :: "Ticket list \<Rightarrow> ModelMessage list" where
  "buildBoardContextMessages completedSiblings =
     (if completedSiblings = [] then []
      else let summary = join [CHR 0x0A] (map (\<lambda>t. ''- '' @ tk_description t @ [CHR 0x0A] @ ''  Resultado: ''
             @ (case tk_result t of Some r \<Rightarrow> r | None \<Rightarrow> ''(sin resultado)'')) completedSiblings)
        in [\<lparr>m_role = RUser, m_content = CText (''Estado actual del tablero '' @ em_dash
               @ '' esto es lo que otros sub-agentes ya resolvieron en este mismo objetivo:'' @ [CHR 0x0A, CHR 0x0A] @ summary)\<rparr>,
            \<lparr>m_role = RAssistant, m_content = CText
               ''Entendido, tengo en cuenta el estado del tablero para mi propia tarea.''\<rparr>])"

section \<open>Decomposition\<close>

definition json_string_min1 :: "json option \<Rightarrow> string option" where
  "json_string_min1 j = (case j of Some (JStr s) \<Rightarrow> if s = [] then None else Some s | _ \<Rightarrow> None)"

definition json_string_array :: "json option \<Rightarrow> string list option" where
  "json_string_array j = (case j of Some (JArr js) \<Rightarrow> json_strings js | _ \<Rightarrow> None)"

fun json_naturals :: "json list \<Rightarrow> nat list option" where
  "json_naturals [] = Some []"
| "json_naturals (JNum i # js) = (if i < 0 then None else map_option ((#) (nat i)) (json_naturals js))"
| "json_naturals _ = None"

definition parse_draft :: "json \<Rightarrow> DecomposedTicketDraft option" where
  "parse_draft j = (case (json_string_min1 (json_field ''description'' (Some j)),
         json_string_array (json_field ''allowedTools'' (Some j)),
         (case json_field ''dependsOnIndexes'' (Some j) of Some (JArr js) \<Rightarrow> json_naturals js | _ \<Rightarrow> None)) of
       (Some d, Some tools, Some deps) \<Rightarrow> Some \<lparr>dr_description = d, dr_allowedTools = tools, dr_dependsOnIndexes = deps\<rparr>
     | _ \<Rightarrow> None)"

definition parse_drafts :: "string \<Rightarrow> jin_error + DecomposedTicketDraft list" where
  "parse_drafts rawContent = (case JSON_parse rawContent of
      Some (JArr js) \<Rightarrow> (case those (map parse_draft js) of
          Some ds \<Rightarrow> if ds = [] then Inl (TicketDecompositionParseError (take 200 rawContent)) else Inr ds
        | None \<Rightarrow> Inl (TicketDecompositionParseError (take 200 rawContent)))
    | _ \<Rightarrow> Inl (TicketDecompositionParseError (take 200 rawContent)))"

definition sanitizeAllowedTools :: "string list \<Rightarrow> DecomposedTicketDraft \<Rightarrow> DecomposedTicketDraft" where
  "sanitizeAllowedTools validNames draft =
     draft\<lparr>dr_allowedTools := filter (\<lambda>name. name \<in> set validNames) (dr_allowedTools draft)\<rparr>"

text \<open>The prose of the registry and of the system prompts is an argument.\<close>

definition decomposition_prompt :: "(string \<Rightarrow> string) \<Rightarrow> string \<Rightarrow> string" where
  "decomposition_prompt toolText objective = ''Objetivo del owner:'' @ [CHR 0x0A] @ objective @ [CHR 0x0A, CHR 0x0A]
     @ ''Cat'' @ [CHR 0xE1] @ ''logo de tools disponibles:'' @ [CHR 0x0A]
     @ join [CHR 0x0A] (map (\<lambda>t. ''- '' @ t_name t @ '': '' @ toolText (t_name t)) listRegisteredTools)"

definition reasoning_request :: "string \<Rightarrow> string \<Rightarrow> ModelCompletionRequest" where
  "reasoning_request systemPrompt userPrompt = \<lparr>rq_systemPrompt = Some systemPrompt,
     rq_messages = [\<lparr>m_role = RUser, m_content = CText userPrompt\<rparr>], rq_maxOutputTokens = 3000, rq_temperature = 1 / 5,
     rq_tools = None, rq_effort = None\<rparr>"

record orchestrator_texts =
  ot_toolText :: "string \<Rightarrow> string"
  ot_decompose :: string
  ot_reconcile :: string

definition decompose :: "'w providers \<Rightarrow> guard_env \<Rightarrow> guard_io \<Rightarrow> orchestrator_texts \<Rightarrow> uuid \<Rightarrow> string
    \<Rightarrow> 's budget_db_scheme \<times> 'w \<Rightarrow> (jin_error + DecomposedTicketDraft list) \<times> 's budget_db_scheme \<times> 'w" where
  "decompose pv genv io texts runId objective st =
     bind_result (guarded_complete pv genv io ReasoningHeavy
         (reasoning_request (ot_decompose texts) (decomposition_prompt (ot_toolText texts) objective)) None (Some runId) st)
       (\<lambda>response st1. (map_sum id (map (sanitizeAllowedTools (map t_name listRegisteredTools)))
           (parse_drafts (rs_content response)), st1))"

section \<open>Reconciliation\<close>

definition comment_line :: "TicketComment \<Rightarrow> string" where
  "comment_line c = ''  ['' @ author_name (tc_authorType c) @ ''/'' @ kind_name (tc_kind c) @ ''] '' @ tc_body c"

definition ticket_lines :: "(uuid \<Rightarrow> TicketComment list) \<Rightarrow> Ticket \<Rightarrow> string" where
  "ticket_lines comments t =
     (let commentsText = join [CHR 0x0A] (map comment_line (comments (tk_id t)))
      in ''Ticket '' @ tk_id t @ '' (status: '' @ ticket_status_name (tk_status t) @ ''): '' @ tk_description t @ [CHR 0x0A]
         @ ''  Resultado: '' @ (case tk_result t of Some r \<Rightarrow> r | None \<Rightarrow> ''(sin resultado todav'' @ [CHR 0xED] @ ''a)'') @ [CHR 0x0A]
         @ (if commentsText = [] then [] else commentsText @ [CHR 0x0A]))"

definition reconciliation_prompt :: "Ticket list \<Rightarrow> (uuid \<Rightarrow> TicketComment list) \<Rightarrow> string" where
  "reconciliation_prompt tickets comments =
     ''Board del run:'' @ [CHR 0x0A, CHR 0x0A] @ join [CHR 0x0A] (map (ticket_lines comments) tickets)"

definition parse_conflict :: "json \<Rightarrow> ReconciliationConflict option" where
  "parse_conflict j = (case (json_string_array (json_field ''ticketIds'' (Some j)), json_string_min1 (json_field ''summary'' (Some j)),
         json_field ''riskLevel'' (Some j), json_string_min1 (json_field ''proposedResolution'' (Some j))) of
       (Some ids, Some summary, Some (JStr risk), Some resolution) \<Rightarrow>
         (if risk = ''low'' then Some \<lparr>cf_ticketIds = ids, cf_summary = summary, cf_riskLevel = Low, cf_proposedResolution = resolution\<rparr>
          else if risk = ''material''
          then Some \<lparr>cf_ticketIds = ids, cf_summary = summary, cf_riskLevel = Material, cf_proposedResolution = resolution\<rparr>
          else None)
     | _ \<Rightarrow> None)"

definition parse_reconciliation :: "string \<Rightarrow> jin_error + ReconciliationOutput" where
  "parse_reconciliation rawContent = (case JSON_parse rawContent of
      None \<Rightarrow> Inl (ReconciliationParseError (take 200 rawContent))
    | Some j \<Rightarrow> (case (json_string_min1 (json_field ''finalResponse'' (Some j)), json_field ''conflicts'' (Some j)) of
        (Some final, Some (JArr js)) \<Rightarrow> (case those (map parse_conflict js) of
            Some cs \<Rightarrow> Inr \<lparr>ro_finalResponse = final, ro_conflicts = cs\<rparr>
          | None \<Rightarrow> Inl (ReconciliationParseError (take 200 rawContent)))
      | _ \<Rightarrow> Inl (ReconciliationParseError (take 200 rawContent))))"

definition reconcile :: "'w providers \<Rightarrow> guard_env \<Rightarrow> guard_io \<Rightarrow> orchestrator_texts \<Rightarrow> uuid \<Rightarrow> Ticket list
    \<Rightarrow> (uuid \<Rightarrow> TicketComment list) \<Rightarrow> 's budget_db_scheme \<times> 'w \<Rightarrow> (jin_error + ReconciliationOutput) \<times> 's budget_db_scheme \<times> 'w" where
  "reconcile pv genv io texts runId tickets comments st =
     bind_result (guarded_complete pv genv io ReasoningHeavy
         (reasoning_request (ot_reconcile texts) (reconciliation_prompt tickets comments)) None (Some runId) st)
       (\<lambda>response st1. (parse_reconciliation (rs_content response), st1))"

section \<open>A sub-agent\<close>

text \<open>Where a sub-agent stands: the operation it performs next, or how it ended.\<close>

datatype sub_pc =
    SStart
  | SAssign
  | SSiblings
  | STurn "ModelMessage list"
  | SComment AgentTurnResult
  | SFinish AgentTurnResult
  | SFail string
  | SNote string
  | SEnd
  | SRaised jin_error

definition is_kill :: "jin_error \<Rightarrow> bool" where
  "is_kill e = (case e of KillSwitchActiveError _ \<Rightarrow> True | _ \<Rightarrow> False)"

definition sub_failed :: "(jin_error \<Rightarrow> string) \<Rightarrow> jin_error \<Rightarrow> sub_pc" where
  "sub_failed errText e = (if is_kill e then SRaised e else SFail (errText e))"

text \<open>\<open>turn\<close> is the agent's turn for this ticket.\<close>

definition turn_input :: "uuid \<Rightarrow> Ticket \<Rightarrow> ModelMessage list \<Rightarrow> AgentTurnInput" where
  "turn_input runId ticket history = \<lparr>in_sessionId = runId @ '':'' @ tk_id ticket, in_objective = tk_description ticket,
     in_history = Some history, in_allowedTools = Some (tk_allowedTools ticket), in_actorLabel = Some (''agent:'' @ tk_id ticket),
     in_onProgress = False\<rparr>"

definition sub_comment :: "Ticket \<Rightarrow> AgentCommentAuthorType \<Rightarrow> string option \<Rightarrow> AgentCommentKind \<Rightarrow> string \<Rightarrow> TicketComment" where
  "sub_comment ticket who whoId kind body =
     \<lparr>tc_ticketId = tk_id ticket, tc_authorType = who, tc_authorId = whoId, tc_kind = kind, tc_body = body\<rparr>"

fun sub_step :: "(jin_error \<Rightarrow> string) \<Rightarrow> (AgentTurnInput \<Rightarrow> 'd \<Rightarrow> (jin_error + AgentTurnResult) \<times> 'd) \<Rightarrow> uuid \<Rightarrow> Ticket
    \<Rightarrow> sub_pc \<Rightarrow> ledger \<times> 'd \<Rightarrow> sub_pc \<times> ledger \<times> 'd" where
  "sub_step errText turn runId ticket SStart (lg, d) = (SAssign, updateTicketStatus (tk_id ticket) TkInProgress None lg, d)"
| "sub_step errText turn runId ticket SAssign (lg, d) =
     (SSiblings, run_changed runId (assignSubAgent (tk_id ticket) (tk_id ticket) lg), d)"
| "sub_step errText turn runId ticket SSiblings (lg, d) =
     (STurn (buildBoardContextMessages (getCompletedSiblings runId (tk_id ticket) lg)), lg, d)"
| "sub_step errText turn runId ticket (STurn history) (lg, d) =
     (case turn (turn_input runId ticket history) d of
        (Inl e, d1) \<Rightarrow> (sub_failed errText e, lg, d1)
      | (Inr result, d1) \<Rightarrow> (SComment result, lg, d1))"
| "sub_step errText turn runId ticket (SComment result) (lg, d) =
     (case addComment (sub_comment ticket BySubAgent (Some (tk_id ticket)) KResult (tr_finalResponse result)) lg of
        (Inl e, lg1) \<Rightarrow> (sub_failed errText e, lg1, d)
      | (Inr _, lg1) \<Rightarrow> (SFinish result, lg1, d))"
| "sub_step errText turn runId ticket (SFinish result) (lg, d) =
     (SEnd, run_changed runId (updateTicketStatus (tk_id ticket)
        (if tr_pendingApprovals result \<noteq> [] then TkBlocked else TkDone) (Some (tr_finalResponse result)) lg), d)"
| "sub_step errText turn runId ticket (SFail msg) (lg, d) =
     (SNote msg, updateTicketStatus (tk_id ticket) TkFailed None lg, d)"
| "sub_step errText turn runId ticket (SNote msg) (lg, d) =
     (case addComment (sub_comment ticket ByOrchestrator None KNote (''Sub-agente fall'' @ [CHR 0xF3] @ '': '' @ msg)) lg of
        (Inl e, lg1) \<Rightarrow> (SRaised e, lg1, d)
      | (Inr _, lg1) \<Rightarrow> (SEnd, run_changed runId lg1, d))"
| "sub_step errText turn runId ticket SEnd st = (SEnd, st)"
| "sub_step errText turn runId ticket (SRaised e) st = (SRaised e, st)"

section \<open>A batch\<close>

type_synonym agents = "(Ticket \<times> sub_pc) list"

fun raised :: "sub_pc \<Rightarrow> jin_error option" where
  "raised (SRaised e) = Some e"
| "raised _ = None"

text \<open>The first failure of the batch, if any.\<close>

definition first_raised :: "agents \<Rightarrow> jin_error option" where
  "first_raised ags = (case List.map_filter (\<lambda>(_, pc). raised pc) ags of [] \<Rightarrow> None | e # _ \<Rightarrow> Some e)"

definition agent_step :: "(jin_error \<Rightarrow> string) \<Rightarrow> (uuid \<Rightarrow> AgentTurnInput \<Rightarrow> 'd \<Rightarrow> (jin_error + AgentTurnResult) \<times> 'd) \<Rightarrow> uuid \<Rightarrow> nat
    \<Rightarrow> agents \<times> ledger \<times> 'd \<Rightarrow> agents \<times> ledger \<times> 'd" where
  "agent_step errText turn runId i s = (case s of (ags, st) \<Rightarrow>
     if i < length ags
     then (case ags ! i of (ticket, pc) \<Rightarrow>
       (case sub_step errText (turn (tk_id ticket)) runId ticket pc st of (pc', st') \<Rightarrow> (ags[i := (ticket, pc')], st')))
     else (ags, st))"

fun run_schedule :: "(jin_error \<Rightarrow> string) \<Rightarrow> (uuid \<Rightarrow> AgentTurnInput \<Rightarrow> 'd \<Rightarrow> (jin_error + AgentTurnResult) \<times> 'd) \<Rightarrow> uuid \<Rightarrow> nat list
    \<Rightarrow> agents \<times> ledger \<times> 'd \<Rightarrow> agents \<times> ledger \<times> 'd" where
  "run_schedule errText turn runId [] s = s"
| "run_schedule errText turn runId (i # is) s =
     (let s' = agent_step errText turn runId i s
      in if first_raised (fst s') \<noteq> None then s' else run_schedule errText turn runId is s')"

text \<open>After the given order every agent still gets the turns it needs to finish.\<close>

definition completed_schedule :: "nat list \<Rightarrow> nat \<Rightarrow> nat list" where
  "completed_schedule sched n = sched @ concat (replicate 8 [0..<n])"

definition run_batch :: "(jin_error \<Rightarrow> string) \<Rightarrow> (uuid \<Rightarrow> AgentTurnInput \<Rightarrow> 'd \<Rightarrow> (jin_error + AgentTurnResult) \<times> 'd) \<Rightarrow> uuid \<Rightarrow> nat list
    \<Rightarrow> Ticket list \<Rightarrow> ledger \<times> 'd \<Rightarrow> agents \<times> ledger \<times> 'd" where
  "run_batch errText turn runId sched batch st =
     run_schedule errText turn runId (completed_schedule sched (length batch)) (map (\<lambda>t. (t, SStart)) batch, st)"

text \<open>The batches of one round: \<open>Inr True\<close> when the kill switch cut the run. The agents of the batch in which a
  failure happened are returned where they stand.\<close>

fun run_chunks :: "(jin_error \<Rightarrow> string) \<Rightarrow> (uuid \<Rightarrow> AgentTurnInput \<Rightarrow> 'd \<Rightarrow> (jin_error + AgentTurnResult) \<times> 'd) \<Rightarrow> uuid \<Rightarrow> (nat \<Rightarrow> nat list)
    \<Rightarrow> Ticket list list \<Rightarrow> ledger \<times> 'd \<Rightarrow> (jin_error + bool) \<times> agents \<times> ledger \<times> 'd" where
  "run_chunks errText turn runId sched [] st = (Inr False, [], st)"
| "run_chunks errText turn runId sched (batch # batches) st =
     (case run_batch errText turn runId (sched 0) batch st of (ags, st1) \<Rightarrow>
        (case first_raised ags of
           Some e \<Rightarrow> (if is_kill e then Inr True else Inl e, ags, st1)
         | None \<Rightarrow> run_chunks errText turn runId (\<lambda>k. sched (Suc k)) batches st1))"

text \<open>The rounds; \<open>None\<close> when the fuel ends first. \<open>paused\<close> reads the kill switch.\<close>

fun runBatchesUntilDone :: "(jin_error \<Rightarrow> string) \<Rightarrow> ('d \<Rightarrow> bool) \<Rightarrow> nat \<Rightarrow> (uuid \<Rightarrow> AgentTurnInput \<Rightarrow> 'd \<Rightarrow> (jin_error + AgentTurnResult) \<times> 'd)
    \<Rightarrow> uuid \<Rightarrow> (nat \<Rightarrow> nat \<Rightarrow> nat list) \<Rightarrow> nat \<Rightarrow> Ticket list \<Rightarrow> ledger \<times> 'd
    \<Rightarrow> ((jin_error + bool) \<times> agents \<times> ledger \<times> 'd) option" where
  "runBatchesUntilDone errText paused maxAgents turn runId sched 0 tickets st = None"
| "runBatchesUntilDone errText paused maxAgents turn runId sched (Suc fuel) tickets st =
     (if paused (snd st) then Some (Inr True, [], st)
      else let ready = computeReadyBatch tickets in
        if ready = [] then Some (Inr False, [], st)
        else (case chunk ready maxAgents of
            Inl e \<Rightarrow> Some (Inl e, [], st)
          | Inr batches \<Rightarrow>
              (case run_chunks errText turn runId (sched 0) batches st of
                 (Inr False, ags, st1) \<Rightarrow>
                   runBatchesUntilDone errText paused maxAgents turn runId (\<lambda>k. sched (Suc k)) fuel (getTickets runId (fst st1)) st1
               | (r, ags, st1) \<Rightarrow> Some (r, ags, st1))))"

section \<open>Escalation of conflicts\<close>

definition RESOLVE_CONFLICT_TOOL_NAME :: string where
  "RESOLVE_CONFLICT_TOOL_NAME = ''resolveAgentConflict''"

definition conflict_comment :: "AgentCommentKind \<Rightarrow> string \<Rightarrow> string \<Rightarrow> TicketComment" where
  "conflict_comment kind body ticketId =
     \<lparr>tc_ticketId = ticketId, tc_authorType = ByOrchestrator, tc_authorId = None, tc_kind = kind, tc_body = body\<rparr>"

fun add_comments :: "TicketComment list \<Rightarrow> ledger \<Rightarrow> (jin_error + unit) \<times> ledger" where
  "add_comments [] lg = (Inr (), lg)"
| "add_comments (c # cs) lg = bind_result (addComment c lg) (\<lambda>_. add_comments cs)"

definition conflict_payload :: "uuid \<Rightarrow> string \<Rightarrow> ReconciliationConflict \<Rightarrow> json option" where
  "conflict_payload runId primaryTicketId conflict = Some (JObj [(''ticketId'', JStr primaryTicketId),
     (''conflictSummary'', JStr (cf_summary conflict)), (''proposedResolution'', JStr (cf_proposedResolution conflict)),
     (''runId'', JStr runId)])"

definition conflict_approval :: "(string \<Rightarrow> string) \<Rightarrow> uuid \<Rightarrow> string \<Rightarrow> ReconciliationConflict \<Rightarrow> HitlDecision \<Rightarrow> CreatePendingApprovalInput" where
  "conflict_approval sha runId primaryTicketId conflict decision =
     \<lparr>c_requestId = d_requestId decision, c_toolName = RESOLVE_CONFLICT_TOOL_NAME, c_level = level_name (d_level decision),
      c_inputsHash = computeInputsHash sha (conflict_payload runId primaryTicketId conflict),
      c_planSummary = Some (''Conflicto material en run '' @ runId @ '' (tickets '' @ join '', '' (cf_ticketIds conflict) @ ''): ''
        @ cf_summary conflict),
      c_payload = conflict_payload runId primaryTicketId conflict, c_actor = Some ''orchestrator'', c_externalInputsSummary = None\<rparr>"

definition escalate :: "agent_env \<Rightarrow> tool_io \<Rightarrow> uuid \<Rightarrow> string \<Rightarrow> ReconciliationConflict \<Rightarrow> 's budget_db_scheme
    \<Rightarrow> (jin_error + uuid) \<times> 's budget_db_scheme" where
  "escalate env io runId primaryTicketId conflict db =
     bind_result (decide (ag_sha env) (ag_modes env) (ag_flags env) (ti_uuid io) (ti_relax io) RESOLVE_CONFLICT_TOOL_NAME
         (conflict_payload runId primaryTicketId conflict) db)
       (\<lambda>decision db1. bind_result (createPendingApproval (ag_sha env) (ti_createdAt io) (ti_audit io)
            (conflict_approval (ag_sha env) runId primaryTicketId conflict decision) db1)
          (\<lambda>_ db2. (Inr (d_requestId decision), db2)))"

text \<open>The requests raised so far are accumulated with the ticket they are about.\<close>

fun applyReconciliation :: "agent_env \<Rightarrow> (nat \<Rightarrow> tool_io) \<Rightarrow> uuid \<Rightarrow> ReconciliationConflict list \<Rightarrow> (uuid \<times> uuid) list
    \<Rightarrow> ledger \<times> 's budget_db_scheme \<Rightarrow> (jin_error + (uuid \<times> uuid) list) \<times> ledger \<times> 's budget_db_scheme" where
  "applyReconciliation env io runId [] pendingApprovals st = (Inr pendingApprovals, st)"
| "applyReconciliation env io runId (conflict # conflicts) pendingApprovals (lg, db) =
     (if cf_riskLevel conflict = Low
      then (case add_comments (map (conflict_comment KResolution (cf_summary conflict @ '' '' @ em_dash @ '' resuelto en modo-auto: ''
                @ cf_proposedResolution conflict)) (cf_ticketIds conflict)) lg of
              (Inl e, lg1) \<Rightarrow> (Inl e, lg1, db)
            | (Inr _, lg1) \<Rightarrow> applyReconciliation env (\<lambda>k. io (Suc k)) runId conflicts pendingApprovals (lg1, db))
      else (case cf_ticketIds conflict of
              [] \<Rightarrow> applyReconciliation env (\<lambda>k. io (Suc k)) runId conflicts pendingApprovals (lg, db)
            | primaryTicketId # _ \<Rightarrow>
                if primaryTicketId = [] then applyReconciliation env (\<lambda>k. io (Suc k)) runId conflicts pendingApprovals (lg, db)
                else (case escalate env (io 0) runId primaryTicketId conflict db of
                        (Inl e, db1) \<Rightarrow> (Inl e, lg, db1)
                      | (Inr rid, db1) \<Rightarrow>
                          (case add_comments (map (conflict_comment KConflict (cf_summary conflict)) (cf_ticketIds conflict)) lg of
                             (Inl e, lg1) \<Rightarrow> (Inl e, lg1, db1)
                           | (Inr _, lg1) \<Rightarrow> applyReconciliation env (\<lambda>k. io (Suc k)) runId conflicts
                               (pendingApprovals @ [(rid, primaryTicketId)]) (lg1, db1)))))"

section \<open>A whole objective\<close>

record OrchestrationResult =
  or_runId :: uuid
  or_status :: AgentRunStatus
  or_finalResponse :: "string option"
  or_pendingApprovals :: "(uuid \<times> uuid) list"

record orch_io =
  oi_runId :: uuid
  oi_createdAt :: timestamp
  oi_decompose :: guard_io
  oi_ticketId :: "nat \<Rightarrow> uuid"
  oi_sched :: "nat \<Rightarrow> nat \<Rightarrow> nat list"
  oi_turn :: "uuid \<Rightarrow> turn_io"
  oi_reconcile :: guard_io
  oi_conflict :: "nat \<Rightarrow> tool_io"
  oi_completedAt :: timestamp

definition ticket_turn :: "agent_env \<Rightarrow> 's budget_db_scheme executors \<Rightarrow> 'w services \<Rightarrow> (uuid \<Rightarrow> turn_io) \<Rightarrow> uuid \<Rightarrow> AgentTurnInput
    \<Rightarrow> 's budget_db_scheme \<times> 'w \<Rightarrow> (jin_error + AgentTurnResult) \<times> 's budget_db_scheme \<times> 'w" where
  "ticket_turn env reg sv io k input d = (case runTurn env reg sv (io k) input d of (r, _, d') \<Rightarrow> (r, d'))"

text \<open>After the batches: reconciliation, escalation, final status.\<close>

definition finishObjective :: "agent_env \<Rightarrow> orchestrator_texts \<Rightarrow> 'w services \<Rightarrow> orch_io \<Rightarrow> ledger \<times> 's budget_db_scheme \<times> 'w
    \<Rightarrow> (jin_error + OrchestrationResult) \<times> ledger \<times> 's budget_db_scheme \<times> 'w" where
  "finishObjective env texts sv io st = (case st of (lg, d) \<Rightarrow>
     let runId = oi_runId io in
     case reconcile (sv_models sv) (ag_guard env) (oi_reconcile io) texts runId (getTickets runId lg) (\<lambda>k. getComments k lg) d of
       (Inl e, d1) \<Rightarrow> (Inl e, lg, d1)
     | (Inr out, db1, w1) \<Rightarrow>
         (case applyReconciliation env (oi_conflict io) runId (ro_conflicts out) [] (lg, db1) of
            (Inl e, lg2, db2) \<Rightarrow> (Inl e, lg2, db2, w1)
          | (Inr approvals, lg2, db2) \<Rightarrow>
              (let lg3 = (if approvals \<noteq> [] then run_changed runId lg2 else lg2);
                   finalStatus = computeRunStatus (getTickets runId lg3) (Some out);
                   lg4 = run_changed runId (completeRun runId (oi_completedAt io) finalStatus (Some (ro_finalResponse out)) lg3)
               in (Inr \<lparr>or_runId = runId, or_status = finalStatus, or_finalResponse = Some (ro_finalResponse out),
                        or_pendingApprovals = approvals\<rparr>, lg4, db2, w1))))"

text \<open>\<open>None\<close> is never the answer: there are at most as many rounds as tickets.\<close>

definition runObjective :: "agent_env \<Rightarrow> orchestrator_texts \<Rightarrow> 's budget_db_scheme executors \<Rightarrow> 'w services \<Rightarrow> orch_io \<Rightarrow> string \<Rightarrow> string
    \<Rightarrow> ledger \<times> 's budget_db_scheme \<times> 'w
    \<Rightarrow> ((jin_error + OrchestrationResult) \<times> agents \<times> ledger \<times> 's budget_db_scheme \<times> 'w) option" where
  "runObjective env texts reg sv io sessionId objective st = (case st of (lg, d) \<Rightarrow>
     (case createRun (oi_runId io) (oi_createdAt io) objective sessionId lg of
        (Inl e, lg1) \<Rightarrow> Some (Inl e, [], lg1, d)
      | (Inr runId, lg1) \<Rightarrow>
          (case decompose (sv_models sv) (ag_guard env) (oi_decompose io) texts runId objective d of
             (Inl e, d1) \<Rightarrow> Some (Inl e, [], lg1, d1)
           | (Inr drafts, d1) \<Rightarrow>
               (case createTickets (oi_ticketId io) runId drafts lg1 of
                  (Inl e, lg2) \<Rightarrow> Some (Inl e, [], lg2, d1)
                | (Inr tickets, lg2) \<Rightarrow>
                    (case runBatchesUntilDone (ag_errText env) (\<lambda>d. isActive (fst d)) (ac_maxConcurrentSubAgents (ag_config env))
                            (ticket_turn env reg sv (oi_turn io)) runId (oi_sched io) (Suc (length tickets)) tickets
                            (run_changed runId lg2, d1) of
                       None \<Rightarrow> None
                     | Some (Inl e, ags, st3) \<Rightarrow> Some (Inl e, ags, st3)
                     | Some (Inr killed, ags, lg3, d3) \<Rightarrow>
                         if killed
                         then Some (Inr \<lparr>or_runId = runId, or_status = RunKilled, or_finalResponse = None, or_pendingApprovals = []\<rparr>, ags,
                                run_changed runId (completeRun runId (oi_completedAt io) RunKilled None lg3), d3)
                         else (case finishObjective env texts sv io (lg3, d3) of (r, st4) \<Rightarrow> Some (r, ags, st4)))))))"


text \<open>The executor of \<open>resolveAgentConflict\<close> (\<open>src/agent/orchestrator.module.ts\<close>): the owner's decision as a comment.\<close>

definition resolve_conflict_executor :: "json option \<Rightarrow> ledger \<Rightarrow> (jin_error + json) \<times> ledger" where
  "resolve_conflict_executor payload lg =
     (if payload = None \<or> payload = Some JNull then (Inl (OtherError ''TypeError''), lg)
      else (case json_field ''ticketId'' payload of
          Some (JStr ticketId) \<Rightarrow>
            bind_result (addComment \<lparr>tc_ticketId = ticketId, tc_authorType = ByOwner, tc_authorId = None, tc_kind = KResolution,
                tc_body = js_template (json_field ''conflictSummary'' payload) @ '' '' @ em_dash @ '' resuelto por el owner: ''
                  @ js_template (json_field ''proposedResolution'' payload)\<rparr> lg)
              (\<lambda>_ lg1. (Inr (JObj [(''ticketId'', JStr ticketId), (''resolved'', JBool True)]), lg1))
        | _ \<Rightarrow> (Inl (OtherError ''agent_ticket_comments_ticket_id''), lg)))"

section \<open>What a sub-agent does to the board\<close>

text \<open>The status of its ticket at each point, and that a ticket starts after its dependencies.\<close>

definition pc_statuses :: "sub_pc \<Rightarrow> AgentTicketStatus set" where
  "pc_statuses pc = (case pc of
      SStart \<Rightarrow> {TkPending} | SAssign \<Rightarrow> {TkInProgress} | SSiblings \<Rightarrow> {TkInProgress} | STurn _ \<Rightarrow> {TkInProgress}
    | SComment _ \<Rightarrow> {TkInProgress} | SFinish _ \<Rightarrow> {TkInProgress} | SFail _ \<Rightarrow> {TkInProgress} | SNote _ \<Rightarrow> {TkFailed}
    | SEnd \<Rightarrow> {TkDone, TkBlocked, TkFailed} | SRaised _ \<Rightarrow> {TkInProgress, TkFailed})"

definition agent_inv :: "uuid \<Rightarrow> ledger \<Rightarrow> Ticket \<times> sub_pc \<Rightarrow> bool" where
  "agent_inv run lg a = (case a of (t, pc) \<Rightarrow>
     (\<exists>u. ticket_of (tk_id t) lg = Some u \<and> tk_status u \<in> pc_statuses pc \<and>
        (pc = SStart \<longrightarrow> (\<forall>d \<in> set (tk_dependsOn u). board.done_in lg d))) \<and>
     (pc \<noteq> SStart \<longrightarrow> tk_id t \<notin> set (pending_ids run lg)))"

definition ticket_key :: "Ticket \<Rightarrow> uuid \<times> uuid \<times> uuid option list" where
  "ticket_key t = (tk_id t, tk_runId t, tk_dependsOn t)"

lemma ticket_keys [simp]:
  "map ticket_key (agent_tickets (updateTicketStatus k s r lg)) = map ticket_key (agent_tickets lg)"
  "map ticket_key (agent_tickets (assignSubAgent k a lg)) = map ticket_key (agent_tickets lg)"
  by (simp_all add: updateTicketStatus_def assignSubAgent_def ticket_key_def split: option.split)

lemma same_keys:
  assumes "map ticket_key ts = map ticket_key us"
  shows "map tk_id ts = map tk_id us" "tk_runId ` set ts = tk_runId ` set us"
proof -
  have "map tk_id vs = map fst (map ticket_key vs)" "map tk_runId vs = map (fst \<circ> snd) (map ticket_key vs)" for vs
    by (simp_all add: ticket_key_def)
  then have "map tk_id ts = map tk_id us" "map tk_runId ts = map tk_runId us" by (simp_all only: assms)
  then show "map tk_id ts = map tk_id us" "tk_runId ` set ts = tk_runId ` set us" by (simp, metis list.set_map)
qed

text \<open>How one operation may move the board: no other ticket moves, what is done stays done, nothing becomes pending.\<close>

definition board_step :: "uuid \<Rightarrow> uuid \<Rightarrow> ledger \<Rightarrow> ledger \<Rightarrow> bool" where
  "board_step run k lg lg' \<longleftrightarrow> (\<forall>j. j \<noteq> k \<longrightarrow> ticket_of j lg' = ticket_of j lg) \<and>
     map ticket_key (agent_tickets lg') = map ticket_key (agent_tickets lg) \<and>
     (\<forall>d. board.done_in lg d \<longrightarrow> board.done_in lg' d) \<and>
     (\<exists>P. pending_ids run lg' = filter P (pending_ids run lg))"

lemma filter_all: "\<exists>P. xs = filter P xs"
  by (rule exI [of _ "\<lambda>_. True"]) simp

lemma pending_same: "agent_tickets lg' = agent_tickets lg \<Longrightarrow> pending_ids run lg' = pending_ids run lg"
  by (simp add: pending_ids_def getTickets_def)

lemma done_same:
  assumes "agent_tickets lg' = agent_tickets lg"
  shows "board.done_in lg' = board.done_in lg"
  unfolding fun_eq_iff board.done_in_def ticket_of_same_tickets [OF assms] by simp

lemma board_step_refl [simp]: "board_step run k lg lg"
  by (simp add: board_step_def filter_all)

lemma board_step_same:
  assumes "board_step run k lg lg1" "agent_tickets lg2 = agent_tickets lg1"
  shows "board_step run k lg lg2"
  using assms(1) unfolding board_step_def assms(2) pending_same [OF assms(2)] done_same [OF assms(2)]
    ticket_of_same_tickets [OF assms(2)] .

lemma agent_inv_same:
  assumes "agent_tickets lg2 = agent_tickets lg1"
  shows "agent_inv run lg2 a = agent_inv run lg1 a"
  unfolding agent_inv_def ticket_of_same_tickets [OF assms] pending_same [OF assms] done_same [OF assms] ..

lemma board_step_status:
  assumes "ticket_of k lg = Some u" "tk_status u \<noteq> TkDone" "s \<noteq> TkPending"
  shows "board_step run k lg (updateTicketStatus k s r lg)"
  using assms by (auto simp: board_step_def ticket_of_update pending_ids_update intro: board.done_in_set_status)

lemma done_assign: "board.done_in (assignSubAgent k a lg) d = board.done_in lg d"
proof -
  have "(\<exists>u. ticket_of j (assignSubAgent k a lg) = Some u \<and> tk_status u = TkDone) \<longleftrightarrow> (\<exists>u. ticket_of j lg = Some u \<and> tk_status u = TkDone)" for j
    by (cases "ticket_of k lg") (auto simp: ticket_of_assign)
  then show ?thesis unfolding board.done_in_def by metis
qed

lemma board_step_assign: "board_step run k lg (assignSubAgent k a lg)"
  by (simp add: board_step_def ticket_of_assign pending_ids_assign done_assign filter_all)

lemma deps_same:
  assumes "board.deps_in_order lg" "agent_tickets lg' = agent_tickets lg"
  shows "board.deps_in_order lg'"
  using assms(1) by (rule board.deps_in_order_cong) (simp add: ticket_of_same_tickets [OF assms(2)])

lemma deps_assign: "board.deps_in_order lg \<Longrightarrow> board.deps_in_order (assignSubAgent k a lg)"
  by (erule board.deps_in_order_cong) (simp add: ticket_of_assign option.map_comp comp_def split: option.split)

lemma pending_not_self: "s \<noteq> TkPending \<Longrightarrow> k \<notin> set (pending_ids run (updateTicketStatus k s r lg))"
  by (simp add: pending_ids_update)

lemma sub_step_board:
  assumes "sub_step errText turn run t pc (lg, d) = (pc', lg', d')" "agent_inv run lg (t, pc)" "board.deps_in_order lg"
  shows "board_step run (tk_id t) lg lg' \<and> agent_inv run lg' (t, pc') \<and> board.deps_in_order lg'"
proof -
  from assms(2) obtain u where u: "ticket_of (tk_id t) lg = Some u" "tk_status u \<in> pc_statuses pc"
    and np: "pc \<noteq> SStart \<longrightarrow> tk_id t \<notin> set (pending_ids run lg)"
    and dd: "pc = SStart \<longrightarrow> (\<forall>d \<in> set (tk_dependsOn u). board.done_in lg d)"
    by (auto simp: agent_inv_def)
  define ok where "ok lg1 pc1 \<longleftrightarrow> board_step run (tk_id t) lg lg1 \<and> agent_inv run lg1 (t, pc1) \<and> board.deps_in_order lg1" for lg1 pc1
  have same: "ok lg1 pc1" if "agent_tickets lg1 = agent_tickets lg" "tk_status u \<in> pc_statuses pc1" "pc1 \<noteq> SStart" "pc \<noteq> SStart" for lg1 pc1
  proof -
    have "agent_inv run lg (t, pc1)" using that u np by (simp add: agent_inv_def)
    then show ?thesis
      using deps_same [OF assms(3) that(1)] board_step_same [OF board_step_refl that(1)] agent_inv_same [OF that(1)]
      by (simp add: ok_def)
  qed
  have status: "ok (updateTicketStatus (tk_id t) s r lg) pc1"
    if "tk_status u = TkInProgress \<or> pc = SStart" "s \<noteq> TkPending" "s \<in> pc_statuses pc1" "pc1 \<noteq> SStart" for s r pc1
  proof -
    have nd: "tk_status u \<noteq> TkDone" using that(1) u(2) by (auto simp: pc_statuses_def)
    have "board.deps_in_order (updateTicketStatus (tk_id t) s r lg)"
    proof (cases "pc = SStart")
      case True
      with u dd nd assms(3) show ?thesis by (intro board.start_keeps_order) auto
    next
      case False
      with u that(1) assms(3) show ?thesis by (intro board.move_keeps_order) auto
    qed
    moreover have "agent_inv run (updateTicketStatus (tk_id t) s r lg) (t, pc1)"
      using that(2-4) u by (simp add: agent_inv_def ticket_of_update pending_ids_update)
    ultimately show ?thesis using nd that(2) u by (simp add: ok_def board_step_status)
  qed
  have changed: "ok (run_changed run lg1) pc1" if "ok lg1 pc1" for lg1 pc1
  proof -
    have e: "agent_tickets (run_changed run lg1) = agent_tickets lg1" by (simp add: run_changed_def)
    from that show ?thesis
      using deps_same [OF _ e] board_step_same [OF _ e] agent_inv_same [OF e] by (simp add: ok_def)
  qed
  have "ok lg' pc'"
  proof (cases pc)
    case SStart
    with assms(1) status [of TkInProgress SAssign None] show ?thesis by (simp add: pc_statuses_def)
  next
    case SAssign
    with u np assms(3) have "ok (assignSubAgent (tk_id t) (tk_id t) lg) SSiblings"
      by (simp add: ok_def agent_inv_def ticket_of_assign pending_ids_assign pc_statuses_def board_step_assign deps_assign)
    from changed [OF this] SAssign assms(1) show ?thesis by simp
  next
    case SSiblings
    with assms(1) u same [of lg pc'] show ?thesis by (auto simp: pc_statuses_def)
  next
    case (STurn h)
    with assms(1) u same [of lg pc'] show ?thesis
      by (auto simp: pc_statuses_def sub_failed_def split: prod.splits sum.splits)
  next
    case (SComment r)
    with assms(1) have "agent_tickets lg' = agent_tickets lg"
      by (auto simp: addComment_def split: prod.splits sum.splits if_splits)
    with SComment assms(1) u show ?thesis
      by (intro same) (auto simp: pc_statuses_def sub_failed_def split: prod.splits sum.splits if_splits)
  next
    case (SFinish r)
    with u have "tk_status u = TkInProgress" by (simp add: pc_statuses_def)
    then have "ok (updateTicketStatus (tk_id t) (if tr_pendingApprovals r \<noteq> [] then TkBlocked else TkDone) (Some (tr_finalResponse r)) lg) SEnd"
      by (intro status) (auto simp: pc_statuses_def)
    from changed [OF this] SFinish assms(1) show ?thesis by auto
  next
    case (SFail m)
    with u assms(1) status [of TkFailed pc' None] show ?thesis by (auto simp: pc_statuses_def)
  next
    case (SNote m)
    let ?c = "sub_comment t ByOrchestrator None KNote (''Sub-agente fall'' @ [CHR 0xF3] @ '': '' @ m)"
    have c: "ok (snd (addComment ?c lg)) pc1" if "pc1 = SEnd \<or> (\<exists>e. pc1 = SRaised e)" for pc1
      using that u SNote by (intro same) (auto simp: frame_simps pc_statuses_def)
    obtain r lg1 where a: "addComment ?c lg = (r, lg1)" by (cases "addComment ?c lg")
    with c have "ok lg1 SEnd" "\<And>e. ok lg1 (SRaised e)" by auto
    with changed [of lg1 SEnd] SNote assms(1) a show ?thesis by (cases r) auto
  next
    case SEnd
    with assms(1) u same [of lg pc'] show ?thesis by auto
  next
    case (SRaised e)
    with assms(1) u same [of lg pc'] show ?thesis by auto
  qed
  then show ?thesis by (simp add: ok_def)
qed


section \<open>Batches\<close>

definition ids_of :: "agents \<Rightarrow> uuid list" where
  "ids_of ags = map (\<lambda>a. tk_id (fst a)) ags"

definition batch_inv :: "uuid \<Rightarrow> agents \<Rightarrow> ledger \<Rightarrow> bool" where
  "batch_inv run ags lg \<longleftrightarrow> distinct (ids_of ags) \<and> list_all (agent_inv run lg) ags \<and> board.deps_in_order lg"

definition board_moves :: "uuid \<Rightarrow> uuid list \<Rightarrow> ledger \<Rightarrow> ledger \<Rightarrow> bool" where
  "board_moves run ks lg lg' \<longleftrightarrow> (\<forall>j. j \<notin> set ks \<longrightarrow> ticket_of j lg' = ticket_of j lg) \<and>
     map ticket_key (agent_tickets lg') = map ticket_key (agent_tickets lg) \<and>
     (\<forall>d. board.done_in lg d \<longrightarrow> board.done_in lg' d) \<and>
     (\<exists>P. pending_ids run lg' = filter P (pending_ids run lg))"

lemma board_moves_refl [simp]: "board_moves run ks lg lg"
  by (simp add: board_moves_def filter_all)

lemma board_step_moves: "board_step run k lg lg' \<Longrightarrow> k \<in> set ks \<Longrightarrow> board_moves run ks lg lg'"
  by (auto simp: board_step_def board_moves_def)

lemma board_moves_trans:
  assumes "board_moves run ks lg lg1" "board_moves run ks' lg1 lg2"
  shows "board_moves run (ks @ ks') lg lg2"
proof -
  obtain P Q where "pending_ids run lg1 = filter P (pending_ids run lg)" "pending_ids run lg2 = filter Q (pending_ids run lg1)"
    using assms by (auto simp: board_moves_def)
  then have "pending_ids run lg2 = filter (\<lambda>x. P x \<and> Q x) (pending_ids run lg)" by simp
  with assms show ?thesis by (auto simp: board_moves_def)
qed

lemma board_moves_cong: "board_moves run ks lg lg' \<Longrightarrow> set ks = set ks' \<Longrightarrow> board_moves run ks' lg lg'"
  by (simp add: board_moves_def)

lemma agent_inv_moves:
  assumes "board_moves run ks lg lg'" "tk_id (fst a) \<notin> set ks" "agent_inv run lg a"
  shows "agent_inv run lg' a"
proof -
  obtain t pc where a: "a = (t, pc)" by (cases a)
  have "ticket_of (tk_id t) lg' = ticket_of (tk_id t) lg" "set (pending_ids run lg') \<subseteq> set (pending_ids run lg)"
    using assms(1,2) a by (auto simp: board_moves_def)
  with assms(1,3) a show ?thesis by (auto simp: agent_inv_def board_moves_def)
qed

lemma ids_of_fst:
  assumes "map fst ags' = map fst ags"
  shows "ids_of ags' = ids_of ags"
proof -
  have "ids_of as = map tk_id (map fst as)" for as by (simp add: ids_of_def)
  then show ?thesis by (simp only: assms)
qed

lemma agent_step_batch:
  assumes "agent_step errText turn run i (ags, lg, d) = (ags', lg', d')" "batch_inv run ags lg"
  shows "batch_inv run ags' lg' \<and> board_moves run (ids_of ags) lg lg' \<and> map fst ags' = map fst ags"
proof (cases "i < length ags")
  case False
  with assms show ?thesis by (simp add: agent_step_def)
next
  case True
  obtain t pc where a: "ags ! i = (t, pc)" by (cases "ags ! i")
  obtain pc' lg1 d1 where s: "sub_step errText (turn (tk_id t)) run t pc (lg, d) = (pc', lg1, d1)"
    by (cases "sub_step errText (turn (tk_id t)) run t pc (lg, d)")
  with True a assms(1) have r: "ags' = ags[i := (t, pc')]" "lg' = lg1" by (simp_all add: agent_step_def)
  have inv: "agent_inv run lg (t, pc)" "board.deps_in_order lg" "distinct (ids_of ags)"
    using assms(2) True a by (auto simp: batch_inv_def list_all_length)
  from sub_step_board [OF s inv(1,2)]
  have st: "board_step run (tk_id t) lg lg1" "agent_inv run lg1 (t, pc')" "board.deps_in_order lg1" by simp_all
  have ids: "map fst ags' = map fst ags" using True a r(1) by (intro nth_equalityI) (auto simp: nth_list_update)
  then have ids2: "ids_of ags' = ids_of ags" by (rule ids_of_fst)
  have mem: "tk_id t \<in> set (ids_of ags)" using True a by (force simp: ids_of_def in_set_conv_nth)
  have "list_all (agent_inv run lg1) ags'"
    unfolding list_all_length
  proof (intro allI impI)
    fix j assume j: "j < length ags'"
    show "agent_inv run lg1 (ags' ! j)"
    proof (cases "j = i")
      case True
      with j r st show ?thesis by simp
    next
      case False
      with j r True inv(3) have "tk_id (fst (ags ! j)) \<noteq> tk_id (fst (ags ! i))"
        by (simp add: ids_of_def distinct_conv_nth)
      then have "tk_id (fst (ags ! j)) \<noteq> tk_id t" by (simp add: a)
      moreover have "agent_inv run lg (ags ! j)" using assms(2) j r by (auto simp: batch_inv_def list_all_length)
      ultimately show ?thesis
        using agent_inv_moves [OF board_step_moves [OF st(1)], of "[tk_id t]" "ags ! j"] False r(1) by simp
    qed
  qed
  with st inv(3) ids ids2 mem r show ?thesis by (auto simp: batch_inv_def intro: board_step_moves)
qed

lemma run_schedule_batch:
  "run_schedule errText turn run sched (ags, lg, d) = (ags', lg', d') \<Longrightarrow> batch_inv run ags lg \<Longrightarrow>
    batch_inv run ags' lg' \<and> board_moves run (ids_of ags) lg lg' \<and> map fst ags' = map fst ags"
proof (induction sched arbitrary: ags lg d)
  case (Cons i sched)
  obtain ags1 lg1 d1 where s: "agent_step errText turn run i (ags, lg, d) = (ags1, lg1, d1)"
    by (cases "agent_step errText turn run i (ags, lg, d)")
  note 1 = agent_step_batch [OF s Cons.prems(2)]
  show ?case
  proof (cases "first_raised ags1 = None")
    case False
    with Cons.prems(1) s 1 show ?thesis by (simp add: Let_def)
  next
    case True
    with Cons.prems(1) s have "run_schedule errText turn run sched (ags1, lg1, d1) = (ags', lg', d')" by (simp add: Let_def)
    from Cons.IH [OF this] 1 have 2: "batch_inv run ags' lg'" "board_moves run (ids_of ags1) lg1 lg'" "map fst ags' = map fst ags1"
      by blast+
    from 1 have same: "ids_of ags1 = ids_of ags" "map fst ags1 = map fst ags" using ids_of_fst by blast+
    have "board_moves run (ids_of ags @ ids_of ags) lg lg'" using 1 2(2) unfolding same by (blast intro: board_moves_trans)
    then have "board_moves run (ids_of ags) lg lg'" by (rule board_moves_cong) simp
    with 2(1,3) same(2) show ?thesis by simp
  qed
qed simp

section \<open>Every batch finishes\<close>

fun steps_left :: "sub_pc \<Rightarrow> nat" where
  "steps_left SStart = 7"
| "steps_left SAssign = 6"
| "steps_left SSiblings = 5"
| "steps_left (STurn _) = 4"
| "steps_left (SComment _) = 3"
| "steps_left (SFinish _) = 1"
| "steps_left (SFail _) = 2"
| "steps_left (SNote _) = 1"
| "steps_left SEnd = 0"
| "steps_left (SRaised _) = 0"

lemma sub_step_left: "steps_left (fst (sub_step errText turn run t pc st)) \<le> steps_left pc - 1"
  by (cases st; cases pc) (auto simp: sub_failed_def split: prod.splits sum.splits)

lemma agent_step_left:
  assumes "j < length ags"
  shows "steps_left (snd (fst (agent_step errText turn run i (ags, st)) ! j)) \<le> steps_left (snd (ags ! j)) - (if i = j then 1 else 0)"
    and "length (fst (agent_step errText turn run i (ags, st))) = length ags"
  using assms sub_step_left [of errText "turn (tk_id (fst (ags ! i)))" run "fst (ags ! i)" "snd (ags ! i)" st]
  by (auto simp: agent_step_def nth_list_update split: prod.splits)

lemma run_schedule_left:
  assumes "first_raised (fst (run_schedule errText turn run sched (ags, st))) = None" "j < length ags"
  shows "steps_left (snd (fst (run_schedule errText turn run sched (ags, st)) ! j)) \<le> steps_left (snd (ags ! j)) - count_list sched j"
  using assms
proof (induction sched arbitrary: ags st)
  case (Cons i sched)
  obtain ags1 st1 where s: "agent_step errText turn run i (ags, st) = (ags1, st1)"
    by (cases "agent_step errText turn run i (ags, st)")
  from agent_step_left [OF Cons.prems(2), of errText turn run i st] s
  have l: "steps_left (snd (ags1 ! j)) \<le> steps_left (snd (ags ! j)) - (if i = j then 1 else 0)" "length ags1 = length ags" by simp_all
  show ?case
  proof (cases "first_raised ags1 = None")
    case False
    with Cons.prems(1) s show ?thesis by (simp add: Let_def)
  next
    case True
    with Cons.prems s l(2) Cons.IH [of ags1 st1] l(1) show ?thesis by (simp add: Let_def split: if_splits)
  qed
qed simp

lemma count_completed: "j < n \<Longrightarrow> 8 \<le> count_list (completed_schedule sched n) j"
proof -
  have "count_list [0..<n] j = (if j < n then 1 else 0)" by (induction n) auto
  moreover assume "j < n"
  ultimately have "count_list [0..<n] j = 1" by simp
  then have "count_list (concat (replicate m [0..<n])) j = m" for m by (induction m) simp_all
  then show ?thesis by (simp add: completed_schedule_def)
qed

lemma steps_left_0: "steps_left pc = 0 \<longleftrightarrow> pc = SEnd \<or> (\<exists>e. pc = SRaised e)"
  by (cases pc) simp_all

lemma first_raised_None: "first_raised ags = None \<longleftrightarrow> (\<forall>a \<in> set ags. raised (snd a) = None)"
  by (induction ags) (auto simp: first_raised_def List.map_filter_simps split: option.splits)

lemma run_batch_finishes:
  assumes "run_batch errText turn run sched batch st = (ags, st')" "first_raised ags = None"
  shows "\<forall>a \<in> set ags. snd a = SEnd"
proof
  fix a assume a: "a \<in> set ags"
  let ?ags = "map (\<lambda>t. (t, SStart)) batch"
  have len: "length (fst (run_schedule errText turn run is (ags0, st0))) = length ags0" for "is" ags0 st0
  proof (induction "is" arbitrary: ags0 st0)
    case (Cons i "is")
    obtain ags1 st1 where "agent_step errText turn run i (ags0, st0) = (ags1, st1)"
      by (cases "agent_step errText turn run i (ags0, st0)")
    moreover from this have "length ags1 = length ags0" by (auto simp: agent_step_def split: prod.splits if_splits)
    ultimately show ?case using Cons by (simp add: Let_def)
  qed simp
  from assms(1) have r: "fst (run_schedule errText turn run (completed_schedule sched (length batch)) (?ags, st)) = ags"
    by (simp add: run_batch_def)
  with len [of "completed_schedule sched (length batch)" ?ags st] have l: "length ags = length batch" by simp
  from a obtain j where j: "j < length ags" "ags ! j = a" by (auto simp: in_set_conv_nth)
  have "steps_left (snd a) \<le> 7 - count_list (completed_schedule sched (length batch)) j"
    using run_schedule_left [of errText turn run "completed_schedule sched (length batch)" ?ags st j] r assms(2) j l by simp
  with count_completed [of j "length batch" sched] j l have "steps_left (snd a) = 0" by simp
  with assms(2) a show "snd a = SEnd" by (auto simp: steps_left_0 first_raised_None)
qed


section \<open>Rounds\<close>

definition unique_ids :: "ledger \<Rightarrow> bool" where
  "unique_ids lg \<longleftrightarrow> distinct (map tk_id (agent_tickets lg))"

lemma ticket_of_member: "unique_ids lg \<Longrightarrow> ticket_of k lg = Some t \<longleftrightarrow> t \<in> set (agent_tickets lg) \<and> tk_id t = k"
  by (simp add: unique_ids_def ticket_of_def lookup_row_Some_iff)

lemma unique_ids_moves: "board_moves run ks lg lg' \<Longrightarrow> unique_ids lg' \<longleftrightarrow> unique_ids lg"
  using same_keys(1) [of "agent_tickets lg'" "agent_tickets lg"] by (simp add: board_moves_def unique_ids_def)

lemma ready_starts:
  assumes "unique_ids lg" "t \<in> set (computeReadyBatch (getTickets run lg))"
  shows "agent_inv run lg (t, SStart)" "tk_id t \<in> set (pending_ids run lg)"
proof -
  from assms(2) have t: "t \<in> set (agent_tickets lg)" "tk_runId t = run" "tk_status t = TkPending"
    "\<forall>d \<in> set (tk_dependsOn t). dep_done (getTickets run lg) d"
    by (auto simp: computeReadyBatch_def getTickets_def list_all_iff)
  have "board.done_in lg d" if "dep_done (getTickets run lg) d" for d
  proof -
    from that obtain k where k: "d = Some k" "status_by_id (getTickets run lg) k = Some TkDone"
      by (auto simp: dep_done_def split: option.splits)
    then obtain u where "u \<in> set (getTickets run lg)" "tk_id u = k" "tk_status u = TkDone"
      by (auto simp: status_by_id_def dest!: map_of_SomeD)
    with assms(1) k show ?thesis by (auto simp: board.done_in_def ticket_of_member getTickets_def)
  qed
  with t assms(1) show "agent_inv run lg (t, SStart)"
    by (auto simp: agent_inv_def ticket_of_member pc_statuses_def)
  from t show "tk_id t \<in> set (pending_ids run lg)" by (auto simp: pending_ids_def getTickets_def)
qed

definition finished_in :: "ledger \<Rightarrow> uuid \<Rightarrow> bool" where
  "finished_in lg k \<longleftrightarrow> (\<exists>u. ticket_of k lg = Some u \<and> tk_status u \<in> {TkDone, TkBlocked, TkFailed})"

lemma run_batch_ok:
  assumes "run_batch errText turn run sched batch (lg, d) = (ags, lg', d')" "distinct (map tk_id batch)"
    and "\<forall>t \<in> set batch. agent_inv run lg (t, SStart)" "board.deps_in_order lg"
  shows "board.deps_in_order lg' \<and> board_moves run (map tk_id batch) lg lg' \<and> map fst ags = batch \<and> list_all (agent_inv run lg') ags"
    and "first_raised ags = None \<Longrightarrow> \<forall>t \<in> set batch. tk_id t \<notin> set (pending_ids run lg') \<and> finished_in lg' (tk_id t)"
proof -
  let ?ags = "map (\<lambda>t. (t, SStart)) batch"
  have ids: "ids_of ?ags = map tk_id batch" "map fst ?ags = batch" by (simp_all add: ids_of_def comp_def)
  with assms have "batch_inv run ?ags lg" by (auto simp: batch_inv_def list_all_iff)
  from run_schedule_batch [OF assms(1) [unfolded run_batch_def] this] ids
  show 1: "board.deps_in_order lg' \<and> board_moves run (map tk_id batch) lg lg' \<and> map fst ags = batch \<and> list_all (agent_inv run lg') ags"
    by (simp add: batch_inv_def)
  show "\<forall>t \<in> set batch. tk_id t \<notin> set (pending_ids run lg') \<and> finished_in lg' (tk_id t)" if "first_raised ags = None"
  proof
    fix t assume "t \<in> set batch"
    with 1 have "t \<in> fst ` set ags" by (metis list.set_map)
    then obtain pc where a: "(t, pc) \<in> set ags" by force
    with run_batch_finishes [OF assms(1) that] have "pc = SEnd" by force
    with a 1 have "agent_inv run lg' (t, SEnd)" by (auto simp: list_all_iff)
    then show "tk_id t \<notin> set (pending_ids run lg') \<and> finished_in lg' (tk_id t)"
      by (auto simp: agent_inv_def finished_in_def pc_statuses_def)
  qed
qed

lemma finished_in_moves: "board_moves run ks lg lg' \<Longrightarrow> k \<notin> set ks \<Longrightarrow> finished_in lg k \<Longrightarrow> finished_in lg' k"
  by (simp add: board_moves_def finished_in_def)

lemma pending_moves: "board_moves run ks lg lg' \<Longrightarrow> k \<notin> set (pending_ids run lg) \<Longrightarrow> k \<notin> set (pending_ids run lg')"
  by (auto simp: board_moves_def)

lemma run_chunks_ok:
  "run_chunks errText turn run sched batches (lg, d) = (r, ags, lg', d') \<Longrightarrow> distinct (map tk_id (concat batches)) \<Longrightarrow>
    \<forall>t \<in> set (concat batches). agent_inv run lg (t, SStart) \<Longrightarrow> board.deps_in_order lg \<Longrightarrow>
    board.deps_in_order lg' \<and> board_moves run (map tk_id (concat batches)) lg lg' \<and>
    (r = Inr False \<longrightarrow> ags = [] \<and> (\<forall>t \<in> set (concat batches). tk_id t \<notin> set (pending_ids run lg') \<and> finished_in lg' (tk_id t)))"
proof (induction batches arbitrary: lg d sched)
  case (Cons batch batches)
  obtain as lg1 d1 where b: "run_batch errText turn run (sched 0) batch (lg, d) = (as, lg1, d1)"
    by (cases "run_batch errText turn run (sched 0) batch (lg, d)")
  have "distinct (map tk_id batch)" "\<forall>t \<in> set batch. agent_inv run lg (t, SStart)" using Cons.prems(2,3) by auto
  note batch = run_batch_ok [OF b this Cons.prems(4)]
  show ?case
  proof (cases "first_raised as")
    case (Some e)
    with Cons.prems(1) b have "lg' = lg1" "r \<noteq> Inr False" by (simp_all split: if_splits) auto
    moreover have "board_moves run (map tk_id (concat (batch # batches))) lg lg1"
      using batch(1) by (auto simp: board_moves_def)
    ultimately show ?thesis using batch(1) by simp
  next
    case None
    with Cons.prems(1) b have rest: "run_chunks errText turn run (\<lambda>k. sched (Suc k)) batches (lg1, d1) = (r, ags, lg', d')" by simp
    have disj: "set (map tk_id batch) \<inter> set (map tk_id (concat batches)) = {}" using Cons.prems(2) by auto
    have "\<forall>t \<in> set (concat batches). agent_inv run lg1 (t, SStart)"
    proof
      fix t assume t: "t \<in> set (concat batches)"
      then have "tk_id t \<notin> set (map tk_id batch)" "agent_inv run lg (t, SStart)" using disj Cons.prems(3) by auto
      with batch(1) show "agent_inv run lg1 (t, SStart)"
        using agent_inv_moves [of run "map tk_id batch" lg lg1 "(t, SStart)"] by simp
    qed
    moreover have "distinct (map tk_id (concat batches))" using Cons.prems(2) by simp
    ultimately have "board.deps_in_order lg' \<and> board_moves run (map tk_id (concat batches)) lg1 lg' \<and>
      (r = Inr False \<longrightarrow> ags = [] \<and> (\<forall>t \<in> set (concat batches). tk_id t \<notin> set (pending_ids run lg') \<and> finished_in lg' (tk_id t)))"
      using batch(1) by (intro Cons.IH [OF rest]) auto
    then have ih: "board.deps_in_order lg'" "board_moves run (map tk_id (concat batches)) lg1 lg'"
      "r = Inr False \<longrightarrow> ags = [] \<and> (\<forall>t \<in> set (concat batches). tk_id t \<notin> set (pending_ids run lg') \<and> finished_in lg' (tk_id t))"
      by blast+
    have "board_moves run (map tk_id (concat (batch # batches))) lg lg'"
      using board_moves_trans [of run "map tk_id batch" lg lg1 "map tk_id (concat batches)" lg'] batch(1) ih(2) by simp
    moreover have "\<forall>t \<in> set batch. tk_id t \<notin> set (pending_ids run lg') \<and> finished_in lg' (tk_id t)"
    proof
      fix t assume t: "t \<in> set batch"
      with disj have "tk_id t \<notin> set (map tk_id (concat batches))" by auto
      with t batch(2) [OF None] show "tk_id t \<notin> set (pending_ids run lg') \<and> finished_in lg' (tk_id t)"
        using finished_in_moves [OF ih(2)] pending_moves [OF ih(2)] by simp
    qed
    ultimately show ?thesis using ih(1,3) by auto
  qed
qed simp

definition none_in_progress :: "uuid \<Rightarrow> ledger \<Rightarrow> bool" where
  "none_in_progress run lg \<longleftrightarrow> list_all (\<lambda>t. tk_status t \<noteq> TkInProgress) (getTickets run lg)"

lemma none_in_progress_round:
  assumes "none_in_progress run lg" "unique_ids lg" "board_moves run ks lg lg'" "\<forall>k \<in> set ks. finished_in lg' k"
  shows "none_in_progress run lg'"
  unfolding none_in_progress_def list_all_iff
proof
  fix t assume t: "t \<in> set (getTickets run lg')"
  have u: "unique_ids lg'" using assms(2,3) by (simp add: unique_ids_moves)
  with t have l: "ticket_of (tk_id t) lg' = Some t" by (simp add: ticket_of_member getTickets_def)
  show "tk_status t \<noteq> TkInProgress"
  proof (cases "tk_id t \<in> set ks")
    case True
    with assms(4) l show ?thesis by (auto simp: finished_in_def)
  next
    case False
    with assms(3) l have "ticket_of (tk_id t) lg = Some t" by (simp add: board_moves_def)
    with assms(1,2) t show ?thesis by (simp add: none_in_progress_def list_all_iff ticket_of_member getTickets_def)
  qed
qed

declare runBatchesUntilDone.simps(2) [simp del]

lemma rounds_ok:
  assumes "unique_ids lg" "board.deps_in_order lg" "length (pending_ids run lg) < fuel" "none_in_progress run lg"
  shows "\<exists>r ags lg' d'. runBatchesUntilDone errText paused maxAgents turn run sched fuel (getTickets run lg) (lg, d) =
      Some (r, ags, lg', d') \<and> board.deps_in_order lg' \<and> unique_ids lg' \<and> (\<exists>ks. board_moves run ks lg lg') \<and>
    (r = Inr False \<longrightarrow> none_in_progress run lg' \<and> computeReadyBatch (getTickets run lg') = [])"
  using assms
proof (induction fuel arbitrary: lg d sched)
  case (Suc fuel)
  let ?ready = "computeReadyBatch (getTickets run lg)"
  have same: "\<exists>ks. board_moves run ks lg lg" using board_moves_refl by blast
  consider "paused d" | "\<not> paused d" "?ready = []" | "\<not> paused d" "?ready \<noteq> []" "maxAgents = 0" | "\<not> paused d" "?ready \<noteq> []" "0 < maxAgents"
    by auto
  then show ?case
  proof cases
    case 4
    then have ch: "chunk ?ready maxAgents = Inr (chunks_of maxAgents ?ready)" by (simp add: chunk_def)
    have cc: "concat (chunks_of maxAgents ?ready) = ?ready" using 4 by (simp add: concat_chunks_of)
    obtain r ags lg1 d1 where rc: "run_chunks errText turn run (sched 0) (chunks_of maxAgents ?ready) (lg, d) = (r, ags, lg1, d1)"
      by (cases "run_chunks errText turn run (sched 0) (chunks_of maxAgents ?ready) (lg, d)")
    have "distinct (map tk_id ?ready)"
      using Suc.prems(1) by (auto simp: unique_ids_def computeReadyBatch_def getTickets_def intro!: distinct_map_filter)
    then have "distinct (map tk_id (concat (chunks_of maxAgents ?ready)))" unfolding cc .
    moreover have "\<forall>t \<in> set (concat (chunks_of maxAgents ?ready)). agent_inv run lg (t, SStart)"
      unfolding cc using ready_starts(1) [OF Suc.prems(1)] by blast
    ultimately have "board.deps_in_order lg1 \<and> board_moves run (map tk_id ?ready) lg lg1 \<and>
      (r = Inr False \<longrightarrow> ags = [] \<and> (\<forall>t \<in> set ?ready. tk_id t \<notin> set (pending_ids run lg1) \<and> finished_in lg1 (tk_id t)))"
      using run_chunks_ok [OF rc _ _ Suc.prems(2)] unfolding cc by blast
    then have ok: "board.deps_in_order lg1" "board_moves run (map tk_id ?ready) lg lg1"
      "r = Inr False \<longrightarrow> ags = [] \<and> (\<forall>t \<in> set ?ready. tk_id t \<notin> set (pending_ids run lg1) \<and> finished_in lg1 (tk_id t))"
      by blast+
    have u1: "unique_ids lg1" using ok(2) Suc.prems(1) by (simp add: unique_ids_moves)
    show ?thesis
    proof (cases "r = Inr False")
      case False
      then have "runBatchesUntilDone errText paused maxAgents turn run sched (Suc fuel) (getTickets run lg) (lg, d) = Some (r, ags, lg1, d1)"
        using 4 ch rc by (cases r) (auto simp: Let_def runBatchesUntilDone.simps(2))
      with False ok(1,2) u1 show ?thesis by blast
    next
      case True
      then have step: "runBatchesUntilDone errText paused maxAgents turn run sched (Suc fuel) (getTickets run lg) (lg, d) =
          runBatchesUntilDone errText paused maxAgents turn run (\<lambda>k. sched (Suc k)) fuel (getTickets run lg1) (lg1, d1)"
        using 4 ch rc by (simp add: Let_def runBatchesUntilDone.simps(2))
      obtain t where t: "t \<in> set ?ready" using 4 by (cases ?ready) auto
      obtain P where P: "pending_ids run lg1 = filter P (pending_ids run lg)" using ok(2) by (auto simp: board_moves_def)
      have "tk_id t \<in> set (pending_ids run lg)" using ready_starts(2) [OF Suc.prems(1) t] .
      moreover have "tk_id t \<notin> set (pending_ids run lg1)" using ok(3) True t by blast
      ultimately have "length (pending_ids run lg1) < length (pending_ids run lg)"
        unfolding P by (auto intro: length_filter_less)
      with Suc.prems(3) have "length (pending_ids run lg1) < fuel" by simp
      moreover have "none_in_progress run lg1"
        using none_in_progress_round [OF Suc.prems(4,1) ok(2)] ok(3) True by auto
      ultimately obtain r' ags' lg' d' where ih: "runBatchesUntilDone errText paused maxAgents turn run (\<lambda>k. sched (Suc k)) fuel
            (getTickets run lg1) (lg1, d1) = Some (r', ags', lg', d')" "board.deps_in_order lg'" "unique_ids lg'"
          "\<exists>ks. board_moves run ks lg1 lg'"
          "r' = Inr False \<longrightarrow> none_in_progress run lg' \<and> computeReadyBatch (getTickets run lg') = []"
        using Suc.IH [OF u1 ok(1)] by blast
      from ok(2) ih(4) have "\<exists>ks. board_moves run ks lg lg'" by (blast intro: board_moves_trans)
      with ih show ?thesis unfolding step by blast
    qed
  next
    case 1
    then show ?thesis using same Suc.prems by (simp add: runBatchesUntilDone.simps(2))
  next
    case 2
    then show ?thesis using same Suc.prems by (simp add: runBatchesUntilDone.simps(2) Let_def)
  next
    case 3
    then show ?thesis using same Suc.prems by (simp add: runBatchesUntilDone.simps(2) Let_def chunk_def)
  qed
qed simp

section \<open>What the tables of the runs and the comments see\<close>

lemma sub_step_runs: "agent_orchestration_runs (fst (snd (sub_step errText turn run t pc st))) = agent_orchestration_runs (fst st)"
  by (cases st; cases pc) (auto simp: frame_simps addComment_def split: prod.splits sum.splits if_splits)

lemma agent_step_runs:
  "agent_orchestration_runs (fst (snd (agent_step errText turn run i (ags, st)))) = agent_orchestration_runs (fst st)"
  using sub_step_runs [of errText "turn (tk_id (fst (ags ! i)))" run "fst (ags ! i)" "snd (ags ! i)" st]
  by (auto simp: agent_step_def split: prod.splits)

lemma run_schedule_runs:
  "agent_orchestration_runs (fst (snd (run_schedule errText turn run sched (ags, st)))) = agent_orchestration_runs (fst st)"
proof (induction sched arbitrary: ags st)
  case (Cons i sched)
  obtain ags1 st1 where s: "agent_step errText turn run i (ags, st) = (ags1, st1)"
    by (cases "agent_step errText turn run i (ags, st)")
  with agent_step_runs [of errText turn run i ags st] Cons.IH [of ags1 st1] show ?case by (simp add: Let_def)
qed simp

lemma run_chunks_runs:
  "run_chunks errText turn run sched batches st = (r, ags, st') \<Longrightarrow> agent_orchestration_runs (fst st') = agent_orchestration_runs (fst st)"
proof (induction batches arbitrary: sched st)
  case (Cons batch batches)
  obtain as st1 where b: "run_batch errText turn run (sched 0) batch st = (as, st1)" by (cases "run_batch errText turn run (sched 0) batch st")
  then have "agent_orchestration_runs (fst st1) = agent_orchestration_runs (fst st)"
    using run_schedule_runs [of errText turn run "completed_schedule (sched 0) (length batch)" "map (\<lambda>t. (t, SStart)) batch" st]
    by (simp add: run_batch_def)
  with Cons.prems Cons.IH b show ?case by (auto split: option.splits)
qed simp

lemma rounds_runs:
  "runBatchesUntilDone errText paused maxAgents turn run sched fuel tickets st = Some (r, ags, st')
    \<Longrightarrow> agent_orchestration_runs (fst st') = agent_orchestration_runs (fst st)"
proof (induction fuel arbitrary: sched tickets st)
  case (Suc fuel)
  show ?case
  proof (cases "paused (snd st) \<or> computeReadyBatch tickets = [] \<or> maxAgents = 0")
    case True
    with Suc.prems show ?thesis by (auto simp: runBatchesUntilDone.simps(2) chunk_def Let_def split: if_splits)
  next
    case False
    obtain r1 ags1 st1 where c: "run_chunks errText turn run (sched 0) (chunks_of maxAgents (computeReadyBatch tickets)) st = (r1, ags1, st1)"
      by (cases "run_chunks errText turn run (sched 0) (chunks_of maxAgents (computeReadyBatch tickets)) st")
    from run_chunks_runs [OF c] have 1: "agent_orchestration_runs (fst st1) = agent_orchestration_runs (fst st)" .
    show ?thesis
    proof (cases "r1 = Inr False")
      case True
      with Suc.prems False c have "runBatchesUntilDone errText paused maxAgents turn run (\<lambda>k. sched (Suc k)) fuel
          (getTickets run (fst st1)) st1 = Some (r, ags, st')"
        by (simp add: runBatchesUntilDone.simps(2) chunk_def Let_def)
      from Suc.IH [OF this] 1 show ?thesis by simp
    next
      case no: False
      with Suc.prems False c have "st' = st1"
        by (cases r1) (auto simp: runBatchesUntilDone.simps(2) chunk_def Let_def)
      with 1 show ?thesis by simp
    qed
  qed
qed simp

lemma add_comments_frame [frame_simps]:
  "agent_tickets (snd (add_comments cs lg)) = agent_tickets lg"
  "agent_orchestration_runs (snd (add_comments cs lg)) = agent_orchestration_runs lg"
proof (induction cs arbitrary: lg)
  case (Cons c cs)
  {
    case 1
    show ?case using Cons.IH(1) [of "snd (addComment c lg)"] by (auto simp: addComment_def)
  next
    case 2
    show ?case using Cons.IH(2) [of "snd (addComment c lg)"] by (auto simp: addComment_def)
  }
qed simp_all

lemma applyReconciliation_frame:
  "applyReconciliation env io run cs acc (lg, db) = (r, lg', db') \<Longrightarrow>
    agent_tickets lg' = agent_tickets lg \<and> agent_orchestration_runs lg' = agent_orchestration_runs lg"
proof (induction cs arbitrary: io acc lg db)
  case (Cons c cs)
  have snd: "add_comments l lg = (x, lg1) \<Longrightarrow> agent_tickets lg1 = agent_tickets lg \<and> agent_orchestration_runs lg1 = agent_orchestration_runs lg"
    for l x lg1 using add_comments_frame [of l lg] by simp
  from Cons.prems show ?case
    by (auto split: if_splits list.splits prod.splits sum.splits simp del: add_comments.simps dest!: Cons.IH dest: snd)
qed simp

section \<open>The ledger stays in order\<close>

definition ledger_ok :: "ledger \<Rightarrow> bool" where
  "ledger_ok lg \<longleftrightarrow> distinct (map tk_id (agent_tickets lg)) \<and> distinct (map rn_id (agent_orchestration_runs lg)) \<and>
     (\<forall>t \<in> set (agent_tickets lg). tk_runId t \<in> rn_id ` set (agent_orchestration_runs lg)) \<and>
     (\<forall>t \<in> set (agent_tickets lg). tk_status t \<noteq> TkPending \<longrightarrow>
        (\<forall>d \<in> set (tk_dependsOn t). \<exists>u \<in> set (agent_tickets lg). d = Some (tk_id u) \<and> tk_status u = TkDone))"

lemma done_in_iff:
  assumes "unique_ids lg"
  shows "board.done_in lg d \<longleftrightarrow> (\<exists>u \<in> set (agent_tickets lg). d = Some (tk_id u) \<and> tk_status u = TkDone)"
  using assms by (auto simp: board.done_in_def ticket_of_member)

lemma deps_in_order_iff:
  assumes "unique_ids lg"
  shows "board.deps_in_order lg \<longleftrightarrow> (\<forall>t \<in> set (agent_tickets lg). tk_status t \<noteq> TkPending \<longrightarrow>
    (\<forall>d \<in> set (tk_dependsOn t). \<exists>u \<in> set (agent_tickets lg). d = Some (tk_id u) \<and> tk_status u = TkDone))"
  using assms by (auto simp: board.deps_in_order_def done_in_iff ticket_of_member)

lemma ledger_ok_iff:
  "ledger_ok lg \<longleftrightarrow> unique_ids lg \<and> distinct (map rn_id (agent_orchestration_runs lg)) \<and> board.deps_in_order lg \<and>
     (\<forall>t \<in> set (agent_tickets lg). tk_runId t \<in> rn_id ` set (agent_orchestration_runs lg))"
  by (auto simp: ledger_ok_def unique_ids_def [symmetric] deps_in_order_iff)

lemma draft_tickets_simps [simp]:
  "length ids = length drafts \<Longrightarrow> map tk_id (draft_tickets run ids drafts) = ids"
  "t \<in> set (draft_tickets run ids drafts) \<Longrightarrow> tk_runId t = run"
  "t \<in> set (draft_tickets run ids drafts) \<Longrightarrow> tk_status t = TkPending"
  by (auto simp: draft_tickets_def comp_def split_def)

lemma created_board:
  assumes "createRun run now obj sid lg = (Inr run', lg1)" "createTickets newId run' drafts lg1 = (Inr tickets, lg2)" "ledger_ok lg"
  shows "run' = run \<and> ledger_ok lg2 \<and> getTickets run lg2 = tickets \<and> none_in_progress run lg2 \<and>
    length (pending_ids run lg2) = length tickets \<and>
    lookup_row rn_id (agent_orchestration_runs lg2) run = Some \<lparr>rn_id = run, rn_objective = obj, rn_status = RunRunning,
      rn_parentSessionId = sid, rn_finalResponse = None, rn_createdAt = now, rn_completedAt = None\<rparr>"
proof -
  let ?row = "\<lparr>rn_id = run, rn_objective = obj, rn_status = RunRunning, rn_parentSessionId = sid, rn_finalResponse = None,
    rn_createdAt = now, rn_completedAt = None\<rparr>"
  from assms(1) have 1: "run' = run" "run \<notin> rn_id ` set (agent_orchestration_runs lg)"
    "lg1 = lg\<lparr>agent_orchestration_runs := agent_orchestration_runs lg @ [?row]\<rparr>"
    by (auto simp: createRun_def split: if_splits)
  have fresh: "tk_runId t \<noteq> run" if "t \<in> set (agent_tickets lg)" for t
    using 1(2) assms(3) that by (auto simp: ledger_ok_def)
  have tickets: "tickets = draft_tickets run (map newId [0..<length drafts]) drafts"
    and lg2: "agent_tickets lg2 = agent_tickets lg @ tickets" "agent_orchestration_runs lg2 = agent_orchestration_runs lg @ [?row]"
    and dist: "distinct (map tk_id (agent_tickets lg @ tickets))"
    using assms(2,3) unfolding 1(1,3) createTickets_def Let_def ledger_ok_def
    by (auto simp del: map_append distinct_append split: if_splits)
  have new: "tk_runId t = run" "tk_status t = TkPending" if "t \<in> set tickets" for t
    using that unfolding tickets by simp_all
  have get: "getTickets run lg2 = tickets"
    using fresh new by (simp add: getTickets_def lg2 filter_empty_conv)
  have "ledger_ok lg2"
    using assms(3) 1(2) dist new unfolding ledger_ok_def lg2 by (simp add: ball_Un) blast
  moreover have "length (pending_ids run lg2) = length tickets" using new by (simp add: pending_ids_def get)
  moreover have "none_in_progress run lg2" using new by (auto simp: none_in_progress_def get list_all_iff)
  moreover have "lookup_row rn_id (agent_orchestration_runs lg2) run = Some ?row"
  proof -
    have "distinct (map rn_id (agent_orchestration_runs lg2))" using 1(2) assms(3) by (simp add: lg2 ledger_ok_def)
    then show ?thesis by (simp add: lookup_row_Some_iff lg2)
  qed
  ultimately show ?thesis using 1 get by blast
qed

lemma ledger_ok_same:
  assumes "ledger_ok lg" "agent_tickets lg' = agent_tickets lg" "map rn_id (agent_orchestration_runs lg') = map rn_id (agent_orchestration_runs lg)"
  shows "ledger_ok lg'"
proof -
  have "rn_id ` set (agent_orchestration_runs lg') = rn_id ` set (agent_orchestration_runs lg)" using assms(3) by (metis list.set_map)
  with assms show ?thesis by (simp add: ledger_ok_def)
qed

lemma run_changed_frame [frame_simps]:
  "ledger_ok (run_changed k lg) = ledger_ok lg" "getTickets run (run_changed k lg) = getTickets run lg"
  by (simp_all add: ledger_ok_def run_changed_def getTickets_def)

lemma completeRun_frame:
  "ledger_ok lg \<Longrightarrow> ledger_ok (completeRun k now st resp lg)" "getTickets run (completeRun k now st resp lg) = getTickets run lg"
proof -
  have "map rn_id (agent_orchestration_runs (completeRun k now st resp lg)) = map rn_id (agent_orchestration_runs lg)"
    by (simp add: completeRun_def)
  then show "ledger_ok lg \<Longrightarrow> ledger_ok (completeRun k now st resp lg)" by (rule ledger_ok_same [rotated 2]) (simp_all add: frame_simps)
  show "getTickets run (completeRun k now st resp lg) = getTickets run lg" by (simp add: getTickets_def frame_simps)
qed

lemma moved_ledger_ok:
  assumes "ledger_ok lg" "board_moves run ks lg lg'" "board.deps_in_order lg'" "agent_orchestration_runs lg' = agent_orchestration_runs lg"
  shows "ledger_ok lg'"
proof -
  have "tk_runId ` set (agent_tickets lg') = tk_runId ` set (agent_tickets lg)"
    using assms(2) by (intro same_keys) (simp add: board_moves_def)
  then have "\<forall>t \<in> set (agent_tickets lg'). tk_runId t \<in> tk_runId ` set (agent_tickets lg)" by blast
  moreover have "unique_ids lg'" using assms(1) unique_ids_moves [OF assms(2)] by (simp add: ledger_ok_iff)
  ultimately show ?thesis using assms(1,3,4) by (auto simp: ledger_ok_iff)
qed

section \<open>A whole objective, step by step\<close>

text \<open>What the board and the row of the run look like for each answer.\<close>

definition objective_state :: "uuid \<Rightarrow> jin_error + OrchestrationResult \<Rightarrow> agents \<Rightarrow> ledger \<Rightarrow> bool" where
  "objective_state run r ags lg = (case r of
      Inl e \<Rightarrow> \<exists>row. getRun run lg = Some row \<and> rn_status row = RunRunning
    | Inr res \<Rightarrow> (\<exists>row. getRun run lg = Some row \<and> rn_status row = or_status res \<and> rn_finalResponse row = or_finalResponse res) \<and>
        or_runId res = run \<and>
        (or_status res \<noteq> RunKilled \<longrightarrow> none_in_progress run lg \<and> computeReadyBatch (getTickets run lg) = []) \<and>
        (or_status res = RunDone \<longrightarrow> (\<forall>t \<in> set (getTickets run lg). tk_status t = TkDone)))"

lemma getRun_complete:
  assumes "getRun k lg = Some row"
  shows "getRun k (completeRun k now st resp lg) = Some (row\<lparr>rn_status := st, rn_finalResponse := resp, rn_completedAt := Some now\<rparr>)"
  using assms lookup_row_SomeD [of rn_id "agent_orchestration_runs lg" k row]
  by (simp add: getRun_def completeRun_def lookup_row_update_rows)

lemma getRun_same: "agent_orchestration_runs lg' = agent_orchestration_runs lg \<Longrightarrow> getRun k lg' = getRun k lg"
  by (simp add: getRun_def)

lemma getTickets_same: "agent_tickets lg' = agent_tickets lg \<Longrightarrow> getTickets k lg' = getTickets k lg"
  by (simp add: getTickets_def)

lemma none_in_progress_same: "getTickets run lg' = getTickets run lg \<Longrightarrow> none_in_progress run lg' = none_in_progress run lg"
  by (simp add: none_in_progress_def)

lemma computeRunStatus_cases:
  "computeRunStatus ts rec \<in> {RunBlocked, RunFailed, RunDone}"
  "computeRunStatus ts rec = RunDone \<Longrightarrow> t \<in> set ts \<Longrightarrow> tk_status t = TkDone"
  by (auto simp: computeRunStatus_def Let_def list_ex_iff split: if_splits) (cases "tk_status t"; auto)

lemma finishObjective_state:
  assumes "finishObjective env texts sv io (lg, d) = (r, lg', d')" "ledger_ok lg" "getRun (oi_runId io) lg = Some row"
    "rn_status row = RunRunning" "none_in_progress (oi_runId io) lg" "computeReadyBatch (getTickets (oi_runId io) lg) = []"
  shows "ledger_ok lg' \<and> objective_state (oi_runId io) r ags lg'"
proof -
  let ?run = "oi_runId io"
  obtain rec d1 where rec: "reconcile (sv_models sv) (ag_guard env) (oi_reconcile io) texts ?run (getTickets ?run lg) (\<lambda>k. getComments k lg) d =
      (rec, d1)" by (cases "reconcile (sv_models sv) (ag_guard env) (oi_reconcile io) texts ?run (getTickets ?run lg) (\<lambda>k. getComments k lg) d")
  show ?thesis
  proof (cases rec)
    case (Inl e)
    with assms rec show ?thesis by (auto simp: finishObjective_def Let_def objective_state_def)
  next
    case (Inr out)
    obtain db1 w1 where d1: "d1 = (db1, w1)" by (cases d1)
    obtain ap lg2 db2 where ap: "applyReconciliation env (oi_conflict io) ?run (ro_conflicts out) [] (lg, db1) = (ap, lg2, db2)"
      by (cases "applyReconciliation env (oi_conflict io) ?run (ro_conflicts out) [] (lg, db1)")
    from applyReconciliation_frame [OF ap] have t2: "agent_tickets lg2 = agent_tickets lg"
      and r2: "agent_orchestration_runs lg2 = agent_orchestration_runs lg" by auto
    have ok2: "ledger_ok lg2" using ledger_ok_same [OF assms(2) t2] r2 by simp
    have run2: "getRun ?run lg2 = Some row" using getRun_same [OF r2] assms(3) by simp
    show ?thesis
    proof (cases ap)
      case (Inl e)
      with assms(1,4) rec Inr d1 ap ok2 run2 show ?thesis by (auto simp: finishObjective_def Let_def objective_state_def)
    next
      case (Inr approvals)
      define lg3 where "lg3 = (if approvals \<noteq> [] then run_changed ?run lg2 else lg2)"
      define status where "status = computeRunStatus (getTickets ?run lg3) (Some out)"
      have t3: "agent_tickets lg3 = agent_tickets lg" and r3: "agent_orchestration_runs lg3 = agent_orchestration_runs lg"
        using t2 r2 by (simp_all add: lg3_def frame_simps)
      have ok3: "ledger_ok lg3" using ledger_ok_same [OF assms(2) t3] r3 by simp
      have r: "r = Inr \<lparr>or_runId = ?run, or_status = status, or_finalResponse = Some (ro_finalResponse out), or_pendingApprovals = approvals\<rparr>"
        and lg': "lg' = run_changed ?run (completeRun ?run (oi_completedAt io) status (Some (ro_finalResponse out)) lg3)"
        using assms(1) rec \<open>rec = Inr out\<close> d1 ap Inr by (simp_all add: finishObjective_def Let_def lg3_def status_def)
      have ok': "ledger_ok lg'" by (simp add: lg' frame_simps completeRun_frame ok3)
      have get': "getTickets ?run lg' = getTickets ?run lg" using t3 by (simp add: lg' getTickets_def frame_simps)
      have run': "getRun ?run lg' = Some (row\<lparr>rn_status := status, rn_finalResponse := Some (ro_finalResponse out),
          rn_completedAt := Some (oi_completedAt io)\<rparr>)"
        using getRun_complete [of ?run lg3 row] getRun_same [OF r3] assms(3) by (simp add: lg' getRun_def frame_simps)
      have get3: "getTickets ?run lg3 = getTickets ?run lg" using getTickets_same [OF t3] .
      show ?thesis
        using ok' run' assms(5,6) none_in_progress_same [OF get'] computeRunStatus_cases(2) [of "getTickets ?run lg" "Some out"]
        by (auto simp: objective_state_def r get' get3 status_def)
    qed
  qed
qed

lemma runObjective_state:
  assumes "ledger_ok lg"
  shows "\<exists>r ags lg' d'. runObjective env texts reg sv io sid obj (lg, d) = Some (r, ags, lg', d') \<and> ledger_ok lg' \<and>
    (oi_runId io \<in> rn_id ` set (agent_orchestration_runs lg) \<or> objective_state (oi_runId io) r ags lg')"
proof -
  let ?run = "oi_runId io"
  obtain rr lg1 where cr: "createRun ?run (oi_createdAt io) obj sid lg = (rr, lg1)" by (cases "createRun ?run (oi_createdAt io) obj sid lg")
  show ?thesis
  proof (cases rr)
    case (Inl e)
    with cr assms show ?thesis by (auto simp: runObjective_def createRun_def split: if_splits)
  next
    case (Inr run')
    with cr have run': "run' = ?run" by (auto simp: createRun_def split: if_splits)
    note cr = cr [unfolded Inr run']
    obtain dd d1 where de: "decompose (sv_models sv) (ag_guard env) (oi_decompose io) texts ?run obj d = (dd, d1)"
      by (cases "decompose (sv_models sv) (ag_guard env) (oi_decompose io) texts ?run obj d")
    have empty: "createTickets (oi_ticketId io) ?run [] lg1 = (Inr [], lg1)" by (simp add: createTickets_def draft_tickets_def)
    from created_board [OF cr empty assms]
    have ok1: "ledger_ok lg1" and run1: "\<exists>row. getRun ?run lg1 = Some row \<and> rn_status row = RunRunning" by (auto simp: getRun_def)
    show ?thesis
    proof (cases dd)
      case (Inl e)
      with cr de ok1 run1 show ?thesis by (simp add: runObjective_def objective_state_def)
    next
      case (Inr drafts)
      obtain tt lg2 where ct: "createTickets (oi_ticketId io) ?run drafts lg1 = (tt, lg2)" by (cases "createTickets (oi_ticketId io) ?run drafts lg1")
      show ?thesis
      proof (cases tt)
        case (Inl e)
        with ct have "lg2 = lg1" by (auto simp: createTickets_def Let_def split: if_splits)
        with cr de \<open>dd = Inr drafts\<close> ct Inl ok1 run1 show ?thesis by (simp add: runObjective_def objective_state_def)
      next
        case (Inr tickets)
        let ?lg = "run_changed ?run lg2"
        from created_board [OF cr ct [unfolded Inr] assms]
        have ok2: "ledger_ok ?lg" and get2: "getTickets ?run ?lg = tickets" and np: "none_in_progress ?run ?lg"
          and len: "length (pending_ids ?run ?lg) = length tickets"
          and run2: "\<exists>row. getRun ?run ?lg = Some row \<and> rn_status row = RunRunning"
          by (auto simp: frame_simps none_in_progress_def pending_ids_def getRun_def)
        from ok2 have u: "unique_ids ?lg" and o: "board.deps_in_order ?lg" by (simp_all add: ledger_ok_iff)
        let ?rounds = "runBatchesUntilDone (ag_errText env) (\<lambda>d. isActive (fst d)) (ac_maxConcurrentSubAgents (ag_config env))
          (ticket_turn env reg sv (oi_turn io)) ?run (oi_sched io) (Suc (length tickets)) tickets (?lg, d1)"
        obtain r ags lg3 d3 where rounds: "?rounds = Some (r, ags, lg3, d3)" and o3: "board.deps_in_order lg3"
          and mv: "\<exists>ks. board_moves ?run ks ?lg lg3"
          and fin: "r = Inr False \<longrightarrow> none_in_progress ?run lg3 \<and> computeReadyBatch (getTickets ?run lg3) = []"
          using rounds_ok [OF u o _ np, of "Suc (length tickets)"] len unfolding get2 by (metis lessI)
        have r3: "agent_orchestration_runs lg3 = agent_orchestration_runs ?lg" using rounds_runs [OF rounds] by simp
        from mv obtain ks where "board_moves ?run ks ?lg lg3" ..
        from moved_ledger_ok [OF ok2 this o3 r3] have ok3: "ledger_ok lg3" .
        from run2 getRun_same [OF r3] obtain row where row: "getRun ?run lg3 = Some row" "rn_status row = RunRunning" by auto
        note eq = cr de \<open>dd = Inr drafts\<close> ct Inr rounds
        show ?thesis
        proof (cases r)
          case (Inl e)
          with eq ok3 row show ?thesis by (simp add: runObjective_def objective_state_def)
        next
          case (Inr killed)
          show ?thesis
          proof (cases killed)
            case True
            let ?lg' = "run_changed ?run (completeRun ?run (oi_completedAt io) RunKilled None lg3)"
            have "ledger_ok ?lg'" by (simp add: frame_simps completeRun_frame ok3)
            moreover have "getRun ?run ?lg' = Some (row\<lparr>rn_status := RunKilled, rn_finalResponse := None, rn_completedAt := Some (oi_completedAt io)\<rparr>)"
              using getRun_complete [OF row(1)] by (simp add: getRun_def frame_simps)
            ultimately show ?thesis using eq Inr True by (simp add: runObjective_def objective_state_def)
          next
            case False
            obtain q lg4 d4 where f: "finishObjective env texts sv io (lg3, d3) = (q, lg4, d4)"
              by (cases "finishObjective env texts sv io (lg3, d3)")
            from finishObjective_state [OF f ok3 row] fin Inr False have "ledger_ok lg4 \<and> objective_state ?run q ags lg4" by simp
            with eq Inr False f show ?thesis by (simp add: runObjective_def)
          qed
        qed
      qed
    qed
  qed
qed

section \<open>Theorems\<close>

text \<open>An objective always comes to an answer: whatever the models answer, however its sub-agents are scheduled and
  whatever depends on what (cycles included), the rounds of batches end after at most one round per ticket.\<close>

theorem objective_always_answers:
  assumes "ledger_ok lg"
  shows "\<exists>r ags st'. runObjective env texts reg sv io sid obj (lg, d) = Some (r, ags, st')"
  using runObjective_state [OF assms, of env texts reg sv io sid obj d] by blast

text \<open>C21: no ticket is ever started before the tickets it depends on are done: the ledger keeps this, with its keys,
  through a whole objective, for every schedule of the sub-agents and also when the run is cut or fails.\<close>

theorem dependencies_before_dependents:
  assumes "runObjective env texts reg sv io sid obj (lg, d) = Some (r, ags, lg', d')" "ledger_ok lg"
  shows "ledger_ok lg' \<and> (\<forall>t \<in> set (agent_tickets lg'). tk_status t \<noteq> TkPending \<longrightarrow>
    (\<forall>dep \<in> set (tk_dependsOn t). \<exists>u \<in> set (agent_tickets lg'). dep = Some (tk_id u) \<and> tk_status u = TkDone))"
proof -
  have ok: "ledger_ok lg'" using runObjective_state [OF assms(2), of env texts reg sv io sid obj d] assms(1) by auto
  then show ?thesis by (simp add: ledger_ok_def)
qed


text \<open>An objective that fails after its run was created leaves the run in the status \<open>running\<close>, with nothing that
  will ever change it.\<close>

theorem failed_objective_stays_running:
  assumes "runObjective env texts reg sv io sid obj (lg, d) = Some (Inl e, ags, lg', d')" "ledger_ok lg"
    and "oi_runId io \<notin> rn_id ` set (agent_orchestration_runs lg)"
  shows "\<exists>row. getRun (oi_runId io) lg' = Some row \<and> rn_status row = RunRunning"
  using runObjective_state [OF assms(2), of env texts reg sv io sid obj d] assms(1,3) by (auto simp: objective_state_def)

section \<open>Conflicts\<close>

lemma escalate_row:
  assumes "escalate env io run k c db = (Inr rid, db')"
    and "\<forall>l. map_of (ff_hitlOverrides (ag_flags env)) RESOLVE_CONFLICT_TOOL_NAME = Some l \<longrightarrow> Lconfirm \<le> l"
  obtains row where "pending_approvals db' = pending_approvals db @ [row]" "p_requestId row = rid" "p_toolName row = RESOLVE_CONFLICT_TOOL_NAME"
    "p_level row \<in> {''confirm'', ''dual-confirm''}" "p_payload row = conflict_payload run k c"
    "p_firstApprovedAt row = None" "p_executingAt row = None"
proof -
  have "\<exists>t. getToolDefinition RESOLVE_CONFLICT_TOOL_NAME = Some t \<and> t_humanDecision t \<and> t_hitlLevel t = Lconfirm"
    by (simp add: getToolDefinition_def TOOL_REGISTRY_BY_NAME_def registry_defs RESOLVE_CONFLICT_TOOL_NAME_def)
  with assms(2) have "owner_decides env RESOLVE_CONFLICT_TOOL_NAME (\<lambda>_. True)" by (auto simp: owner_decides_def)
  from decide_owner [OF this] obtain dec where dec: "decide (ag_sha env) (ag_modes env) (ag_flags env) (ti_uuid io) (ti_relax io)
      RESOLVE_CONFLICT_TOOL_NAME (conflict_payload run k c) db = (Inr dec, db)" "Lconfirm \<le> d_level dec" by blast
  let ?i = "conflict_approval (ag_sha env) run k c dec"
  from assms(1) dec(1) have cr: "createPendingApproval (ag_sha env) (ti_createdAt io) (ti_audit io) ?i db = (Inr (), db')"
    and rid: "rid = d_requestId dec"
    by (auto simp: escalate_def bind_result_Inr_iff)
  from cr have "pending_approvals db' = pending_approvals db @ [new_row ?i (ti_createdAt io)]"
    by (auto simp: createPendingApproval_def Let_def recordToolCall_def appendRow_def insertRow_def emit_def
        split: if_splits prod.splits sum.splits option.splits)
  then show thesis
    using dec(2) rid by (intro that) (auto simp: new_row_def conflict_approval_def at_least_confirm)
qed

definition escalates :: "ReconciliationConflict \<Rightarrow> bool" where
  "escalates c \<longleftrightarrow> cf_riskLevel c = Material \<and> cf_ticketIds c \<noteq> [] \<and> hd (cf_ticketIds c) \<noteq> []"


text \<open>A material conflict that names no ticket is dropped, yet it blocks the run: the run ends \<open>blocked\<close> with no
  pending approval that could unblock it.\<close>

theorem conflict_without_ticket_blocks_silently:
  assumes "reconcile (sv_models sv) (ag_guard env) (oi_reconcile io) texts (oi_runId io) (getTickets (oi_runId io) lg)
      (\<lambda>k. getComments k lg) d = (Inr out, db, w)"
    and "\<forall>c \<in> set (ro_conflicts out). cf_riskLevel c = Material \<and> cf_ticketIds c = []" "ro_conflicts out \<noteq> []"
  shows "\<exists>res lg'. finishObjective env texts sv io (lg, d) = (Inr res, lg', db, w) \<and> or_status res = RunBlocked \<and>
    or_pendingApprovals res = []"
proof -
  have "applyReconciliation env ios (oi_runId io) cs acc (lg, db) = (Inr acc, lg, db)"
    if "\<forall>c \<in> set cs. cf_riskLevel c = Material \<and> cf_ticketIds c = []" for cs ios acc
    using that by (induction cs arbitrary: ios) simp_all
  from this [OF assms(2)] have "applyReconciliation env (oi_conflict io) (oi_runId io) (ro_conflicts out) [] (lg, db) = (Inr [], lg, db)" .
  moreover have "list_ex (\<lambda>c. cf_riskLevel c = Material) (ro_conflicts out)"
    using assms(2,3) by (cases "ro_conflicts out") auto
  ultimately show ?thesis using assms(1) by (simp add: finishObjective_def Let_def computeRunStatus_def)
qed

section \<open>Witnesses\<close>

definition sample_texts :: orchestrator_texts where
  "sample_texts = \<lparr>ot_toolText = (\<lambda>_. []), ot_decompose = [], ot_reconcile = []\<rparr>"

definition sample_orch_io :: orch_io where
  "sample_orch_io = \<lparr>oi_runId = ''run'', oi_createdAt = 1, oi_decompose = sample_guard_io, oi_ticketId = (\<lambda>i. ''t'' @ show_nat i),
     oi_sched = (\<lambda>_ _. [1, 0, 1]), oi_turn = (\<lambda>_. sample_turn_io), oi_reconcile = sample_guard_io,
     oi_conflict = (\<lambda>i. sample_tool_io (''c'' @ show_nat i)), oi_completedAt = 9\<rparr>"

definition sample_ticket :: "uuid \<Rightarrow> AgentTicketStatus \<Rightarrow> uuid option list \<Rightarrow> Ticket" where
  "sample_ticket k status deps = \<lparr>tk_id = k, tk_runId = ''old'', tk_description = ''leer'', tk_status = status,
     tk_assignedSubAgentId = None, tk_allowedTools = [], tk_dependsOn = deps, tk_result = None\<rparr>"

text \<open>A board with an older run: a ticket that is done, one that waited for it, one that waits for itself.\<close>

definition sample_board :: ledger where
  "sample_board = \<lparr>agent_orchestration_runs = [\<lparr>rn_id = ''old'', rn_objective = ''algo'', rn_status = RunBlocked, rn_parentSessionId = ''s'',
       rn_finalResponse = None, rn_createdAt = 0, rn_completedAt = Some 0\<rparr>],
     agent_tickets = [sample_ticket ''a'' TkDone [], sample_ticket ''b'' TkBlocked [Some ''a''], sample_ticket ''c'' TkPending [Some ''c'']],
     agent_ticket_comments = [], run_events = []\<rparr>"

lemma sample_board_ok: "ledger_ok sample_board" "''run'' \<notin> rn_id ` set (agent_orchestration_runs sample_board)"
  by (simp_all add: ledger_ok_def sample_board_def sample_ticket_def)

theorem objective_always_answers_witness:
  "\<exists>r ags st'. runObjective (sample_agent sample_config) sample_texts (\<lambda>_. None) sample_services sample_orch_io ''s'' ''objetivo''
      (sample_board, sample_ledger [] None, 0) = Some (r, ags, st')"
  by (rule objective_always_answers) (rule sample_board_ok)

theorem dependencies_before_dependents_witness:
  "\<exists>r ags lg' d'. runObjective (sample_agent sample_config) sample_texts (\<lambda>_. None) sample_services sample_orch_io ''s'' ''objetivo''
      (sample_board, sample_ledger [] None, 0) = Some (r, ags, lg', d') \<and> ledger_ok lg'"
proof -
  obtain r ags lg' d' where r: "runObjective (sample_agent sample_config) sample_texts (\<lambda>_. None) sample_services sample_orch_io ''s''
      ''objetivo'' (sample_board, sample_ledger [] None, 0) = Some (r, ags, lg', d')"
    using runObjective_state [OF sample_board_ok(1)] by blast
  from dependencies_before_dependents [OF r sample_board_ok(1)] r show ?thesis by blast
qed


theorem failed_objective_stays_running_witness:
  "\<exists>e ags lg' d'. runObjective (sample_agent sample_config) sample_texts (\<lambda>_. None) sample_services sample_orch_io ''s'' ''objetivo''
      (sample_board, sample_ledger [] (Some \<lparr>ks_active = True, ks_activatedAt = None, ks_reason = None\<rparr>), 0) = Some (Inl e, ags, lg', d') \<and>
    (\<exists>row. getRun ''run'' lg' = Some row \<and> rn_status row = RunRunning)"
proof -
  let ?db = "sample_ledger [] (Some \<lparr>ks_active = True, ks_activatedAt = None, ks_reason = None\<rparr>)"
  have "\<exists>e. decompose (sv_models sample_services) sample_env sample_guard_io sample_texts ''run'' ''objetivo'' (?db, 0) = (Inl e, ?db, 0)"
    by (simp add: decompose_def guarded_complete_def guarded_def checkBeforeCall_def isActive_def sample_ledger_def sample_guard_io_def)
  then obtain e where "decompose (sv_models sample_services) sample_env sample_guard_io sample_texts ''run'' ''objetivo'' (?db, 0) = (Inl e, ?db, 0)"
    by blast
  moreover obtain lg1 where "createRun ''run'' 1 ''objetivo'' ''s'' sample_board = (Inr ''run'', lg1)"
    using sample_board_ok(2) by (simp add: createRun_def)
  ultimately have r: "runObjective (sample_agent sample_config) sample_texts (\<lambda>_. None) sample_services sample_orch_io ''s'' ''objetivo''
      (sample_board, ?db, 0) = Some (Inl e, [], lg1, ?db, 0)"
    by (simp add: runObjective_def sample_orch_io_def sample_agent_def)
  have "oi_runId sample_orch_io \<notin> rn_id ` set (agent_orchestration_runs sample_board)" using sample_board_ok(2) by (simp add: sample_orch_io_def)
  from failed_objective_stays_running [OF r sample_board_ok(1) this] r show ?thesis by (auto simp: sample_orch_io_def)
qed

definition sample_conflict :: "string list \<Rightarrow> ReconciliationConflict" where
  "sample_conflict ids = \<lparr>cf_ticketIds = ids, cf_summary = ''fechas'', cf_riskLevel = Material, cf_proposedResolution = ''lunes''\<rparr>"


theorem conflict_without_ticket_blocks_silently_witness:
  "\<exists>sv res lg' d'. finishObjective (sample_agent sample_config) sample_texts (sv :: nat services) sample_orch_io (sample_board, sample_ledger [] None, 0)
      = (Inr res, lg', d') \<and> or_status res = RunBlocked \<and> or_pendingApprovals res = []"
proof -
  let ?j = "JObj [(''finalResponse'', JStr ''listo''), (''conflicts'', JArr [JObj [(''ticketIds'', JArr []), (''summary'', JStr ''fechas''),
    (''riskLevel'', JStr ''material''), (''proposedResolution'', JStr ''lunes'')]])]"
  let ?sv = "sample_services\<lparr>sv_models := sample_providers\<lparr>pv_complete := (\<lambda>v m rq w. (Inr ((sample_answer m)\<lparr>rs_content := stringify ?j\<rparr>), w + 1))\<rparr>\<rparr>"
  let ?rq = "reasoning_request [] (reconciliation_prompt [] (\<lambda>k. getComments k sample_board))"
  have est: "estimateRequestTokens ?rq = 4"
    by (simp add: estimateRequestTokens_def reasoning_request_def reconciliation_prompt_def estimateMessagesTokens_def
        messageContentToText_def estimateTokens_def CHARS_PER_TOKEN_ESTIMATE_def)
  have p: "JSON_parse (stringify ?j) = Some ?j" by (rule parse_stringify) simp
  have get: "getTickets ''run'' sample_board = []" by (simp add: getTickets_def sample_board_def sample_ticket_def)
  from sample_model_call [of ?rq "sv_models ?sv" "stringify ?j" ReasoningHeavy "''run''"] est obtain db' where
    "guarded_complete (sv_models ?sv) sample_env sample_guard_io ReasoningHeavy ?rq None (Some ''run'') (sample_ledger [] None, 0) =
      (Inr ((sample_answer ''claude-sonnet-5'')\<lparr>rs_content := stringify ?j\<rparr>), db', 1)"
    by (auto simp: reasoning_request_def simp del: stringify.simps)
  then have "reconcile (sv_models ?sv) (ag_guard (sample_agent sample_config)) (oi_reconcile sample_orch_io) sample_texts (oi_runId sample_orch_io)
      (getTickets (oi_runId sample_orch_io) sample_board) (\<lambda>k. getComments k sample_board) (sample_ledger [] None, 0) =
      (Inr \<lparr>ro_finalResponse = ''listo'', ro_conflicts = [\<lparr>cf_ticketIds = [], cf_summary = ''fechas'', cf_riskLevel = Material,
        cf_proposedResolution = ''lunes''\<rparr>]\<rparr>, db', 1)"
    by (simp add: reconcile_def sample_orch_io_def sample_agent_def sample_texts_def get parse_reconciliation_def p
        json_string_min1_def parse_conflict_def json_string_array_def del: stringify.simps)
  from conflict_without_ticket_blocks_silently [OF this] show ?thesis
    by (simp del: stringify.simps) (elim exE conjE, intro exI conjI)
qed

end
