(* ===== verification/Js_Unicode.thy ===== *)
theory Js_Unicode
  imports Js_Text "HOL-Library.Word"
begin

text \<open>
  JavaScript text beyond Latin-1, for the code that handles raw bytes of a terminal: a text is the
  list of its code points, \<open>length\<close> counts UTF-16 units, bytes are 8-bit words. The theory holds the
  UTF-8 codec of the platform (the encoder, the WHATWG decoder with its replacement characters,
  and the \<open>StringDecoder\<close> of Node that is fed one byte at a time), the white space of \<open>\s\<close>, the
  collapsing of white space and \<open>trim\<close>.
\<close>

type_synonym byte = "8 word"
type_synonym codepoints = "nat list"

section \<open>White space\<close>

definition js_space :: "nat \<Rightarrow> bool" where
  "js_space c \<longleftrightarrow> (9 \<le> c \<and> c \<le> 13) \<or> c = 32 \<or> c = 0xA0 \<or> c = 0x1680 \<or> (0x2000 \<le> c \<and> c \<le> 0x200A)
     \<or> c = 0x2028 \<or> c = 0x2029 \<or> c = 0x202F \<or> c = 0x205F \<or> c = 0x3000 \<or> c = 0xFEFF"

text \<open>\<open>replace(/\s+/g, ' ')\<close>, for any notion of space: each run becomes one separator.\<close>

function collapse_runs :: "('a \<Rightarrow> bool) \<Rightarrow> 'a \<Rightarrow> 'a list \<Rightarrow> 'a list" where
  "collapse_runs p sp [] = []"
| "collapse_runs p sp (c # cs) =
     (if p c then sp # collapse_runs p sp (dropWhile p cs) else c # collapse_runs p sp cs)"
  by pat_completeness auto
termination
  by (relation "measure (\<lambda>(p, sp, cs). length cs)") (auto simp: le_imp_less_Suc length_dropWhile_le)

definition trim_by :: "('a \<Rightarrow> bool) \<Rightarrow> 'a list \<Rightarrow> 'a list" where
  "trim_by p xs = rev (dropWhile p (rev (dropWhile p xs)))"

definition squash :: "codepoints \<Rightarrow> codepoints" where
  "squash xs = trim_by js_space (collapse_runs js_space 32 xs)"

lemma collapse_runs_id: "\<forall>c \<in> set xs. \<not> p c \<Longrightarrow> collapse_runs p sp xs = xs"
  by (induction xs) auto

lemma set_collapse_runs: "set (collapse_runs p sp xs) \<subseteq> insert sp (set xs)"
proof (induction p sp xs rule: collapse_runs.induct)
  case (2 p sp c cs)
  then show ?case using set_dropWhileD [of _ p cs] by (auto split: if_splits)
qed simp

lemma length_collapse_runs: "length (collapse_runs p sp xs) \<le> length xs"
proof (induction p sp xs rule: collapse_runs.induct)
  case (2 p sp c cs)
  then show ?case
    using length_dropWhile_le [of p cs] by (cases "p c") (auto intro: le_trans)
qed simp

lemma sublist_trim_by: "sublist (trim_by p xs) xs"
proof -
  have "suffix (dropWhile p ys) ys" for ys :: "'a list" by (rule suffix_dropWhile)
  then have "prefix (rev (dropWhile p (rev ys))) ys" for ys :: "'a list"
    by (metis rev_rev_ident suffix_to_prefix)
  then show ?thesis
    unfolding trim_by_def
    by (meson prefix_imp_sublist sublist_order.order.trans suffix_dropWhile suffix_imp_sublist)
qed

text \<open>A block without spaces that shows after collapsing was already in the text.\<close>

lemma prefix_collapse_runs:
  assumes "prefix w (collapse_runs p sp xs)" "\<forall>c \<in> set w. \<not> p c" "p sp"
  shows "prefix w xs"
  using assms
proof (induction xs arbitrary: w)
  case (Cons c cs)
  show ?case
  proof (cases w)
    case (Cons d ds)
    with Cons.prems have "\<not> p c" "d = c" "prefix ds (collapse_runs p sp cs)"
      by (auto split: if_splits)
    then show ?thesis using Cons Cons.IH [of ds] Cons.prems by auto
  qed simp
qed simp

lemma sublist_collapse_runs:
  assumes "sublist w (collapse_runs p sp xs)" "\<forall>c \<in> set w. \<not> p c" "p sp"
  shows "sublist w xs"
  using assms
proof (induction p sp xs rule: collapse_runs.induct)
  case (2 p sp c cs)
  have drop: "sublist w (dropWhile p cs) \<Longrightarrow> sublist w (c # cs)"
    by (meson sublist_Cons_right sublist_order.order.trans suffix_dropWhile suffix_imp_sublist)
  show ?case
  proof (cases "prefix w (collapse_runs p sp (c # cs))")
    case True
    then show ?thesis using prefix_collapse_runs [OF True] 2 by (blast intro: prefix_imp_sublist)
  next
    case False
    then show ?thesis
      using 2 drop by (cases "p c") (auto simp: sublist_Cons_right)
  qed
qed simp

lemma sublist_squash:
  assumes "sublist w (squash xs)" "\<forall>c \<in> set w. \<not> js_space c"
  shows "sublist w xs"
proof -
  have "sublist w (collapse_runs js_space 32 xs)"
    using assms(1) sublist_trim_by unfolding squash_def by (metis sublist_order.order.trans)
  then show ?thesis using assms(2) by (rule sublist_collapse_runs) (simp add: js_space_def)
qed

section \<open>UTF-16 units\<close>

definition units :: "nat \<Rightarrow> nat" where
  "units c = (if 0x10000 \<le> c then 2 else 1)"

definition js_length :: "codepoints \<Rightarrow> nat" where
  "js_length xs = sum_list (map units xs)"

text \<open>
  \<open>slice(0, n)\<close> cuts by UTF-16 units; a pair cut in the middle leaves its high surrogate.
\<close>

fun js_take :: "nat \<Rightarrow> codepoints \<Rightarrow> codepoints" where
  "js_take n [] = []"
| "js_take n (c # cs) =
     (if n = 0 then [] else if units c \<le> n then c # js_take (n - units c) cs
      else [0xD800 + (c - 0x10000) div 0x400])"

lemma js_length_simps [simp]:
  "js_length [] = 0" "js_length (c # cs) = units c + js_length cs"
  "js_length (xs @ ys) = js_length xs + js_length ys"
  by (simp_all add: js_length_def)

lemma length_le_js_length: "length xs \<le> js_length xs"
  by (induction xs) (auto simp: units_def)

lemma js_length_js_take: "\<forall>c \<in> set xs. c < 0x110000 \<Longrightarrow> js_length (js_take n xs) \<le> n"
proof (induction xs arbitrary: n)
  case (Cons c cs)
  then have "c < 0x110000" by simp
  then have "c - 0x10000 < 0x100000" by arith
  then have "(c - 0x10000) div 0x400 < 0x400" by (simp add: div_less_iff_less_mult)
  then have "units (0xD800 + (c - 0x10000) div 0x400) = 1" by (simp add: units_def)
  moreover have "0 < n \<Longrightarrow> \<not> units c \<le> n \<Longrightarrow> n = 1" by (simp add: units_def split: if_splits)
  ultimately show ?case
    using Cons.IH [of "n - units c"] Cons.prems by (auto simp del: One_nat_def)
qed simp

lemma js_take_all: "js_length xs \<le> n \<Longrightarrow> js_take n xs = xs"
proof (induction xs arbitrary: n)
  case (Cons c cs)
  then show ?case using Cons.IH [of "n - units c"] by (auto simp: units_def split: if_splits)
qed simp

text \<open>Cutting a text never creates a block of characters outside the surrogates.\<close>

lemma prefix_js_take:
  assumes "prefix w (js_take n xs)" "\<forall>c \<in> set w. c < 0xD800"
  shows "prefix w xs"
  using assms
proof (induction xs arbitrary: n w)
  case (Cons c cs)
  show ?case
  proof (cases w)
    case (Cons d ds)
    with Cons.prems have "d = c \<and> prefix ds (js_take (n - units c) cs)"
      by (auto split: if_splits)
    then show ?thesis using Cons Cons.IH [of ds "n - units c"] Cons.prems(2) by auto
  qed simp
qed simp

lemma sublist_js_take:
  assumes "sublist w (js_take n xs)" "\<forall>c \<in> set w. c < 0xD800"
  shows "sublist w xs"
  using assms
proof (induction xs arbitrary: n)
  case (Cons c cs)
  show ?case
  proof (cases "prefix w (js_take n (c # cs))")
    case True
    then show ?thesis using prefix_js_take [OF True Cons.prems(2)] by (blast intro: prefix_imp_sublist)
  next
    case False
    then have "w \<noteq> []" by auto
    with False Cons show ?thesis
      by (auto simp: sublist_Cons_right split: if_splits)
  qed
qed simp

section \<open>UTF-8\<close>

text \<open>
  The encoder (\<open>Buffer.from(text)\<close>, and what the database driver and SHA-256 are given). A lone
  surrogate is encoded as the replacement character.
\<close>

definition REPLACEMENT :: nat where "REPLACEMENT = 0xFFFD"

definition utf8_code :: "nat \<Rightarrow> nat list" where
  "utf8_code c =
     (if c < 0x80 then [c]
      else if c < 0x800 then [0xC0 + c div 64, 0x80 + c mod 64]
      else if 0xD800 \<le> c \<and> c < 0xE000 then [0xEF, 0xBF, 0xBD]
      else if c < 0x10000 then [0xE0 + c div 4096, 0x80 + c div 64 mod 64, 0x80 + c mod 64]
      else [0xF0 + c div 262144, 0x80 + c div 4096 mod 64, 0x80 + c div 64 mod 64, 0x80 + c mod 64])"

definition utf8_bytes :: "codepoints \<Rightarrow> byte list" where
  "utf8_bytes xs = map of_nat (concat (map utf8_code xs))"

text \<open>The same bytes as the character list the other theories use for stored text.\<close>

definition utf8_text :: "codepoints \<Rightarrow> string" where
  "utf8_text xs = map char_of (concat (map utf8_code xs))"

definition codes :: "string \<Rightarrow> codepoints" where
  "codes s = map of_char s"

text \<open>
  The decoder: what a lead byte announces (how many continuation bytes, the range of the first of
  them, the bits it contributes), and the replacement of each maximal ill-formed part.
\<close>

definition lead_info :: "nat \<Rightarrow> (nat \<times> nat \<times> nat \<times> nat) option" where
  "lead_info b =
     (if 0xC2 \<le> b \<and> b \<le> 0xDF then Some (1, 0x80, 0xBF, b - 0xC0)
      else if 0xE0 \<le> b \<and> b \<le> 0xEF then
        Some (2, if b = 0xE0 then 0xA0 else 0x80, if b = 0xED then 0x9F else 0xBF, b - 0xE0)
      else if 0xF0 \<le> b \<and> b \<le> 0xF4 then
        Some (3, if b = 0xF0 then 0x90 else 0x80, if b = 0xF4 then 0x8F else 0xBF, b - 0xF0)
      else None)"

fun take_cont :: "nat \<Rightarrow> nat \<Rightarrow> nat \<Rightarrow> nat \<Rightarrow> byte list \<Rightarrow> nat \<times> byte list" where
  "take_cont 0 lo hi v bs = (v, bs)"
| "take_cont (Suc n) lo hi v [] = (REPLACEMENT, [])"
| "take_cont (Suc n) lo hi v (b # bs) =
     (if lo \<le> unat b \<and> unat b \<le> hi then take_cont n 0x80 0xBF (v * 64 + (unat b - 0x80)) bs
      else (REPLACEMENT, b # bs))"

lemma length_take_cont: "length (snd (take_cont n lo hi v bs)) \<le> length bs"
proof (induction n lo hi v bs rule: take_cont.induct)
  case (3 n lo hi v b bs)
  then show ?case by (simp add: le_SucI)
qed simp_all

function utf8_decode :: "byte list \<Rightarrow> codepoints" where
  "utf8_decode [] = []"
| "utf8_decode (b # bs) =
     (if unat b < 0x80 then unat b # utf8_decode bs
      else case lead_info (unat b) of
          None \<Rightarrow> REPLACEMENT # utf8_decode bs
        | Some (n, lo, hi, v) \<Rightarrow>
            fst (take_cont n lo hi v bs) # utf8_decode (snd (take_cont n lo hi v bs)))"
  by pat_completeness auto
termination
  by (relation "measure length") (auto simp: le_imp_less_Suc length_take_cont)

text \<open>
  \<open>StringDecoder('utf8')\<close> fed one byte: a lead byte waits for the continuation bytes it announces; a
  byte that does not continue flushes what waits and starts afresh. \<open>end\<close> flushes too.
\<close>

record string_decoder =
  sd_buffered :: "byte list"
  sd_missing :: nat

definition new_decoder :: string_decoder where
  "new_decoder = \<lparr> sd_buffered = [], sd_missing = 0 \<rparr>"

definition is_cont :: "byte \<Rightarrow> bool" where
  "is_cont b \<longleftrightarrow> 0x80 \<le> unat b \<and> unat b < 0xC0"

definition announced :: "byte \<Rightarrow> nat" where
  "announced b =
     (if 0xC0 \<le> unat b \<and> unat b < 0xE0 then 2
      else if 0xE0 \<le> unat b \<and> unat b < 0xF0 then 3
      else if 0xF0 \<le> unat b \<and> unat b < 0xF8 then 4
      else 0)"

definition decoder_fresh :: "byte \<Rightarrow> codepoints \<times> string_decoder" where
  "decoder_fresh b =
     (if announced b = 0 then (utf8_decode [b], new_decoder)
      else ([], \<lparr> sd_buffered = [b], sd_missing = announced b - 1 \<rparr>))"

definition decoder_write :: "byte \<Rightarrow> string_decoder \<Rightarrow> codepoints \<times> string_decoder" where
  "decoder_write b d =
     (if sd_missing d = 0 then decoder_fresh b
      else if \<not> is_cont b then
        (case decoder_fresh b of (out, d') \<Rightarrow> (utf8_decode (sd_buffered d) @ out, d'))
      else if sd_missing d = 1 then (utf8_decode (sd_buffered d @ [b]), new_decoder)
      else ([], \<lparr> sd_buffered = sd_buffered d @ [b], sd_missing = sd_missing d - 1 \<rparr>))"

definition decoder_end :: "string_decoder \<Rightarrow> codepoints \<times> string_decoder" where
  "decoder_end d = (utf8_decode (sd_buffered d), new_decoder)"

section \<open>Decoding what was encoded\<close>

text \<open>The scalar values: code points that are not surrogates.\<close>

definition scalar :: "nat \<Rightarrow> bool" where
  "scalar c \<longleftrightarrow> c < 0xD800 \<or> 0xE000 \<le> c \<and> c < 0x110000"

lemma unat_byte [simp]: "n < 256 \<Longrightarrow> unat (of_nat n :: byte) = n"
  by (simp add: unat_of_nat)

lemma split4096:
  fixes c :: nat
  obtains a b d where "c = 4096 * a + 64 * b + d" "b < 64" "d < 64"
    "c div 4096 = a" "c div 64 mod 64 = b" "c mod 64 = d"
proof
  have "c = 64 * (64 * (c div 64 div 64) + c div 64 mod 64) + c mod 64"
    by (metis mult_div_mod_eq)
  then show "c = 4096 * (c div 4096) + 64 * (c div 64 mod 64) + c mod 64"
    by (simp add: div_mult2_eq [symmetric] algebra_simps)
qed simp_all

lemma split262144:
  fixes c :: nat
  obtains z a b d where "c = 262144 * z + 4096 * a + 64 * b + d" "a < 64" "b < 64" "d < 64"
    "c div 262144 = z" "c div 4096 mod 64 = a" "c div 64 mod 64 = b" "c mod 64 = d"
proof
  have "c = 64 * (64 * (64 * (c div 64 div 64 div 64) + c div 64 div 64 mod 64) + c div 64 mod 64)
      + c mod 64"
    by (metis mult_div_mod_eq)
  then show "c = 262144 * (c div 262144) + 4096 * (c div 4096 mod 64) + 64 * (c div 64 mod 64) + c mod 64"
    by (simp add: div_mult2_eq [symmetric] algebra_simps)
qed simp_all

lemma utf8_two:
  assumes "unat x = 0xC0 + a" "unat y = 0x80 + d" "0x80 \<le> 64 * a + d" "64 * a + d < 0x800" "d < 64"
  shows "utf8_decode (x # y # bs) = (64 * a + d) # utf8_decode bs"
proof -
  have "2 \<le> a" "a < 32" using assms(3-5) by arith+
  then show ?thesis using assms(1,2,5) by (simp add: lead_info_def)
qed

lemma utf8_three:
  assumes "unat x = 0xE0 + a" "unat y = 0x80 + b" "unat z = 0x80 + d"
    "0x800 \<le> 4096 * a + 64 * b + d" "4096 * a + 64 * b + d < 0x10000"
    "scalar (4096 * a + 64 * b + d)" "b < 64" "d < 64"
  shows "utf8_decode (x # y # z # bs) = (4096 * a + 64 * b + d) # utf8_decode bs"
proof -
  have "a < 16" "a = 0 \<Longrightarrow> 32 \<le> b" "a = 13 \<Longrightarrow> b < 32"
    using assms(4-8) unfolding scalar_def by arith+
  then show ?thesis using assms(1-3,7,8) by (auto simp: lead_info_def numeral_2_eq_2 algebra_simps)
qed

lemma utf8_four:
  assumes "unat w = 0xF0 + e" "unat x = 0x80 + a" "unat y = 0x80 + b" "unat z = 0x80 + d"
    "0x10000 \<le> 262144 * e + 4096 * a + 64 * b + d"
    "262144 * e + 4096 * a + 64 * b + d < 0x110000" "a < 64" "b < 64" "d < 64"
  shows "utf8_decode (w # x # y # z # bs) = (262144 * e + 4096 * a + 64 * b + d) # utf8_decode bs"
proof -
  have "e < 5" "e = 0 \<Longrightarrow> 16 \<le> a" "e = 4 \<Longrightarrow> a < 16"
    using assms(5-9) by arith+
  then show ?thesis
    using assms(1-4,7-9) by (auto simp: lead_info_def numeral_3_eq_3 algebra_simps)
qed

lemma utf8_decode_code:
  assumes "scalar c"
  shows "utf8_decode (map of_nat (utf8_code c) @ bs) = c # utf8_decode bs"
proof -
  consider "c < 0x80" | "0x80 \<le> c" "c < 0x800" | "0x800 \<le> c" "c < 0x10000" | "0x10000 \<le> c" by linarith
  then show ?thesis
  proof cases
    case 1 then show ?thesis by (simp add: utf8_code_def)
  next
    case 2
    then have "c div 64 < 32" by (simp add: div_less_iff_less_mult)
    then have u: "unat (of_nat (0xC0 + c div 64) :: byte) = 0xC0 + c div 64"
      "unat (of_nat (0x80 + c mod 64) :: byte) = 0x80 + c mod 64"
      by (intro unat_byte; simp add: trans_less_add1)+
    have "utf8_decode (map of_nat [0xC0 + c div 64, 0x80 + c mod 64] @ bs)
      = (64 * (c div 64) + c mod 64) # utf8_decode bs"
      unfolding list.map append.simps by (rule utf8_two [OF u]) (use 2 in auto)
    then show ?thesis using 2 by (simp add: utf8_code_def del: utf8_decode.simps of_nat_add)
  next
    case 3
    from split4096 [of c] obtain a b d where c: "c = 4096 * a + 64 * b + d" "b < 64" "d < 64"
      "c div 4096 = a" "c div 64 mod 64 = b" "c mod 64 = d" .
    have "a < 16" using c(1) 3 by arith
    then have u: "unat (of_nat (0xE0 + a) :: byte) = 0xE0 + a"
      "unat (of_nat (0x80 + b) :: byte) = 0x80 + b" "unat (of_nat (0x80 + d) :: byte) = 0x80 + d"
      using c(2,3) by (intro unat_byte; simp)+
    have "utf8_decode (map of_nat [0xE0 + a, 0x80 + b, 0x80 + d] @ bs) = c # utf8_decode bs"
      unfolding list.map append.simps c(1)
      by (rule utf8_three [OF u]) (use 3 assms c(1-3) in auto)
    moreover have "utf8_code c = [0xE0 + a, 0x80 + b, 0x80 + d]"
      using 3 assms c(4-6) by (auto simp: utf8_code_def scalar_def)
    ultimately show ?thesis by (simp only:)
  next
    case 4
    from split262144 [of c] obtain e a b d where c: "c = 262144 * e + 4096 * a + 64 * b + d"
      "a < 64" "b < 64" "d < 64" "c div 262144 = e" "c div 4096 mod 64 = a" "c div 64 mod 64 = b"
      "c mod 64 = d" .
    have "c < 0x110000" using assms 4 by (auto simp: scalar_def)
    then have "e < 5" using c(1) by arith
    then have u: "unat (of_nat (0xF0 + e) :: byte) = 0xF0 + e"
      "unat (of_nat (0x80 + a) :: byte) = 0x80 + a"
      "unat (of_nat (0x80 + b) :: byte) = 0x80 + b" "unat (of_nat (0x80 + d) :: byte) = 0x80 + d"
      using c(2-4) by (intro unat_byte; simp)+
    have "utf8_decode (map of_nat [0xF0 + e, 0x80 + a, 0x80 + b, 0x80 + d] @ bs) = c # utf8_decode bs"
      unfolding list.map append.simps c(1)
      by (rule utf8_four [OF u]) (use 4 \<open>c < 0x110000\<close> c(1-4) in auto)
    moreover have "utf8_code c = [0xF0 + e, 0x80 + a, 0x80 + b, 0x80 + d]"
      using 4 c(5-8) by (auto simp: utf8_code_def)
    ultimately show ?thesis by (simp only:)
  qed
qed

lemma utf8_decode_bytes [simp]:
  "\<forall>c \<in> set xs. scalar c \<Longrightarrow> utf8_decode (utf8_bytes xs) = xs"
  by (induction xs) (simp_all add: utf8_bytes_def utf8_decode_code)

text \<open>Fed byte by byte, the decoder gives out each character with its last byte and waits for nothing more.\<close>

fun decoder_writes :: "byte list \<Rightarrow> string_decoder \<Rightarrow> codepoints \<times> string_decoder" where
  "decoder_writes [] d = ([], d)"
| "decoder_writes (b # bs) d =
     (case decoder_write b d of (out, d') \<Rightarrow>
        (case decoder_writes bs d' of (out', d'') \<Rightarrow> (out @ out', d'')))"

lemma decoder_writes_append [simp]:
  "decoder_writes (xs @ ys) d =
     (fst (decoder_writes xs d) @ fst (decoder_writes ys (snd (decoder_writes xs d))),
      snd (decoder_writes ys (snd (decoder_writes xs d))))"
  by (induction xs arbitrary: d) (simp_all split: prod.splits)

lemma decoder_waits:
  assumes "sd_missing d = Suc (length bs)" "\<forall>b \<in> set (bs @ [b']). is_cont b"
  shows "decoder_writes (bs @ [b']) d = (utf8_decode (sd_buffered d @ bs @ [b']), new_decoder)"
  using assms by (induction bs arbitrary: d) (simp_all add: decoder_write_def)

lemma utf8_code_shape:
  assumes "scalar c" "0x80 \<le> c"
  obtains b bs b' where "map of_nat (utf8_code c) = b # bs @ [b' :: byte]"
    "announced b = length bs + 2" "\<forall>x \<in> set (bs @ [b']). is_cont x"
proof -
  have cont: "is_cont (of_nat (0x80 + n))" if "n < 64" for n
  proof -
    from that have "unat (of_nat (0x80 + n) :: byte) = 0x80 + n" by (intro unat_byte) simp
    then show ?thesis unfolding is_cont_def using that by (simp del: of_nat_add)
  qed
  have lead: "announced (of_nat n) = k" if "n < 256"
      "k = (if 0xC0 \<le> n \<and> n < 0xE0 then 2 else if 0xE0 \<le> n \<and> n < 0xF0 then 3
        else if 0xF0 \<le> n \<and> n < 0xF8 then 4 else 0)" for n k
    using that by (simp only: announced_def unat_byte)
  have small: "c < 0x800 \<Longrightarrow> c div 64 < 32" "c < 0x10000 \<Longrightarrow> c div 4096 < 16"
    "c div 262144 < 5"
    using assms(1) by (auto simp: div_less_iff_less_mult scalar_def)
  consider "c < 0x800" | "0x800 \<le> c" "c < 0x10000" | "0x10000 \<le> c" by linarith
  then show ?thesis
  proof cases
    case 1
    then have "announced (of_nat (0xC0 + c div 64)) = 0 + 2"
      using small by (intro lead) auto
    with 1 assms that [of "of_nat (0xC0 + c div 64)" "[]" "of_nat (0x80 + c mod 64)"] cont [of "c mod 64"]
    show ?thesis by (simp add: utf8_code_def del: of_nat_add)
  next
    case 2
    then have "announced (of_nat (0xE0 + c div 4096)) = 1 + 2"
      using small by (intro lead) auto
    with 2 assms that [of "of_nat (0xE0 + c div 4096)" "[of_nat (0x80 + c div 64 mod 64)]"
        "of_nat (0x80 + c mod 64)"] cont [of "c mod 64"] cont [of "c div 64 mod 64"]
    show ?thesis by (auto simp add: utf8_code_def scalar_def simp del: of_nat_add)
  next
    case 3
    then have "announced (of_nat (0xF0 + c div 262144)) = 2 + 2"
      using small by (intro lead) auto
    with 3 assms that [of "of_nat (0xF0 + c div 262144)"
        "[of_nat (0x80 + c div 4096 mod 64), of_nat (0x80 + c div 64 mod 64)]"
        "of_nat (0x80 + c mod 64)"] cont [of "c mod 64"] cont [of "c div 64 mod 64"]
      cont [of "c div 4096 mod 64"]
    show ?thesis by (auto simp add: utf8_code_def simp del: of_nat_add)
  qed
qed

lemma decoder_writes_code:
  assumes "scalar c"
  shows "decoder_writes (map of_nat (utf8_code c)) new_decoder = ([c], new_decoder)"
proof (cases "c < 0x80")
  case True
  then have "unat (of_nat c :: byte) = c" by simp
  with True show ?thesis
    by (simp add: utf8_code_def decoder_write_def decoder_fresh_def new_decoder_def announced_def)
next
  case False
  then obtain b bs b' where *: "map of_nat (utf8_code c) = b # bs @ [b']"
    "announced b = length bs + 2" "\<forall>x \<in> set (bs @ [b']). is_cont x"
    using utf8_code_shape [OF assms] by (metis linorder_not_less)
  have "utf8_decode (b # bs @ [b']) = [c]"
    using utf8_decode_code [OF assms, of "[]"] * by simp
  then show ?thesis
    using * decoder_waits [of "\<lparr>sd_buffered = [b], sd_missing = Suc (length bs)\<rparr>" bs b']
    by (simp add: decoder_write_def decoder_fresh_def new_decoder_def del: decoder_writes_append)
qed

lemma decoder_writes_bytes:
  "\<forall>c \<in> set xs. scalar c \<Longrightarrow> decoder_writes (utf8_bytes xs) new_decoder = (xs, new_decoder)"
  by (induction xs) (simp_all add: utf8_bytes_def decoder_writes_code)

end
