(* ===== verification/Pty_Input.thy ===== *)
theory Pty_Input
  imports Js_Unicode
begin

text \<open>
  The gate of the interactive terminal (\<open>src/terminal/pty-input-gate.ts\<close>): it rebuilds, from the
  raw bytes the owner types, the line that has to be audited before its Enter reaches the shell.
  The state of \<open>PtyInputGate\<close> is a record; \<open>feed\<close> returns the steps and the gate it leaves. Facts:
  the steps carry the bytes unchanged, cutting the input in pieces changes neither the lines nor
  the byte each line precedes, a text typed in UTF-8 is the line of the audit, and the gate stays
  within its bounds. An Enter inside an unfinished escape sequence is the case the gate lets pass.
\<close>

section \<open>The gate\<close>

record PtyInputStep =
  st_bytes :: "byte list"
  st_line :: "codepoints option"

definition MAX_LINE_CHARS :: nat where "MAX_LINE_CHARS = 4096"

definition ESC :: byte where "ESC = 0x1b"
definition CR :: byte where "CR = 0x0d"
definition LF :: byte where "LF = 0x0a"
definition BACKSPACE :: byte where "BACKSPACE = 0x08"
definition DEL :: byte where "DEL = 0x7f"
definition CTRL_C :: byte where "CTRL_C = 0x03"
definition CTRL_U :: byte where "CTRL_U = 0x15"
definition CTRL_W :: byte where "CTRL_W = 0x17"

lemmas key_defs = ESC_def CR_def LF_def BACKSPACE_def DEL_def CTRL_C_def CTRL_U_def CTRL_W_def

datatype EscapeState = EscNone | EscEsc | EscCsi | EscSs3

record PtyInputGate =
  ig_line :: codepoints
  ig_decoder :: string_decoder
  ig_escape :: EscapeState

definition new_gate :: PtyInputGate where
  "new_gate = \<lparr> ig_line = [], ig_decoder = new_decoder, ig_escape = EscNone \<rparr>"

definition gate_reset :: "PtyInputGate \<Rightarrow> PtyInputGate" where
  "gate_reset g = g\<lparr> ig_line := [], ig_decoder := new_decoder, ig_escape := EscNone \<rparr>"

definition takeLine :: "PtyInputGate \<Rightarrow> codepoints option \<times> PtyInputGate" where
  "takeLine g =
     (case decoder_end (ig_decoder g) of (rest, d) \<Rightarrow>
        let line = squash (ig_line g @ rest)
        in (if 0 < length line then Some line else None, g\<lparr> ig_line := [], ig_decoder := d \<rparr>))"

definition consumeEscape :: "byte \<Rightarrow> PtyInputGate \<Rightarrow> PtyInputGate" where
  "consumeEscape b g =
     (case ig_escape g of
        EscEsc \<Rightarrow> g\<lparr> ig_escape := (if b = 0x5b then EscCsi else if b = 0x4f then EscSs3 else EscNone) \<rparr>
      | EscCsi \<Rightarrow> if 0x40 \<le> b \<and> b \<le> 0x7e then g\<lparr> ig_escape := EscNone \<rparr> else g
      | _ \<Rightarrow> g\<lparr> ig_escape := EscNone \<rparr>)"

text \<open>
  \<open>line.replace(/\s*\S*$/, '')\<close>: the leftmost match takes the trailing run without spaces and the
  spaces before it.
\<close>

definition drop_word :: "codepoints \<Rightarrow> codepoints" where
  "drop_word line = rev (dropWhile js_space (dropWhile (\<lambda>c. \<not> js_space c) (rev line)))"

definition applyKey :: "byte \<Rightarrow> PtyInputGate \<Rightarrow> PtyInputGate" where
  "applyKey b g =
     (if b = BACKSPACE \<or> b = DEL then g\<lparr> ig_line := butlast (ig_line g) \<rparr>
      else if b = CTRL_C \<or> b = CTRL_U then g\<lparr> ig_line := [], ig_decoder := new_decoder \<rparr>
      else if b = CTRL_W then g\<lparr> ig_line := drop_word (ig_line g) \<rparr>
      else if b < 0x20 then g
      else (case decoder_write b (ig_decoder g) of (out, d) \<Rightarrow>
        g\<lparr> ig_decoder := d,
           ig_line := (if js_length (ig_line g) < MAX_LINE_CHARS then ig_line g @ out else ig_line g) \<rparr>))"

text \<open>The loop of \<open>feed\<close>: \<open>seg\<close> is the part of the input from \<open>start\<close> on.\<close>

fun feed_from :: "byte list \<Rightarrow> byte list \<Rightarrow> PtyInputGate \<Rightarrow> PtyInputStep list \<times> PtyInputGate" where
  "feed_from seg [] g = (if seg = [] then [] else [\<lparr> st_bytes = seg, st_line = None \<rparr>], g)"
| "feed_from seg (b # bs) g =
     (if ig_escape g \<noteq> EscNone then feed_from (seg @ [b]) bs (consumeEscape b g)
      else if b = ESC then feed_from (seg @ [b]) bs (g\<lparr> ig_escape := EscEsc \<rparr>)
      else if b = CR \<or> b = LF then
        (case takeLine g of (line, g') \<Rightarrow>
           case feed_from [] bs g' of (steps, g'') \<Rightarrow>
             (\<lparr> st_bytes = seg @ [b], st_line = line \<rparr> # steps, g''))
      else feed_from (seg @ [b]) bs (applyKey b g))"

definition feed :: "byte list \<Rightarrow> PtyInputGate \<Rightarrow> PtyInputStep list \<times> PtyInputGate" where
  "feed data g = feed_from [] data g"

section \<open>The steps are the input\<close>

lemma feed_from_bytes: "concat (map st_bytes (fst (feed_from seg data g))) = seg @ data"
  by (induction seg data g rule: feed_from.induct) (auto split: prod.splits simp del: append_eq_append_conv)

text \<open>
  A reference reading of the input, one byte at a time: for each byte, the line that has to be
  audited before it.
\<close>

definition key :: "byte \<Rightarrow> PtyInputGate \<Rightarrow> codepoints option \<times> PtyInputGate" where
  "key b g =
     (if ig_escape g \<noteq> EscNone then (None, consumeEscape b g)
      else if b = ESC then (None, g\<lparr> ig_escape := EscEsc \<rparr>)
      else if b = CR \<or> b = LF then takeLine g
      else (None, applyKey b g))"

fun keys :: "byte list \<Rightarrow> PtyInputGate \<Rightarrow> (byte \<times> codepoints option) list \<times> PtyInputGate" where
  "keys [] g = ([], g)"
| "keys (b # bs) g =
     (case key b g of (line, g') \<Rightarrow> case keys bs g' of (ks, g'') \<Rightarrow> ((b, line) # ks, g''))"

definition step_keys :: "PtyInputStep \<Rightarrow> (byte \<times> codepoints option) list" where
  "step_keys s = map (\<lambda>b. (b, None)) (butlast (st_bytes s)) @ [(last (st_bytes s), st_line s)]"

definition steps_keys :: "PtyInputStep list \<Rightarrow> (byte \<times> codepoints option) list" where
  "steps_keys ss = concat (map step_keys ss)"

lemma steps_keys_simps [simp]:
  "steps_keys [] = []" "steps_keys (s # ss) = step_keys s @ steps_keys ss"
  "steps_keys (ss @ ts) = steps_keys ss @ steps_keys ts"
  by (simp_all add: steps_keys_def)

lemma keys_append:
  "keys (xs @ ys) g =
     (fst (keys xs g) @ fst (keys ys (snd (keys xs g))), snd (keys ys (snd (keys xs g))))"
  by (induction xs arbitrary: g) (auto split: prod.splits)

lemma step_keys_quiet: "seg \<noteq> [] \<Longrightarrow> step_keys \<lparr> st_bytes = seg, st_line = None \<rparr> = map (\<lambda>b. (b, None)) seg"
  by (cases seg rule: rev_cases) (auto simp: step_keys_def)

lemma feed_from_keys:
  "steps_keys (fst (feed_from seg data g)) = map (\<lambda>b. (b, None)) seg @ fst (keys data g)
   \<and> snd (feed_from seg data g) = snd (keys data g)"
proof (induction seg data g rule: feed_from.induct)
  case (1 seg g)
  then show ?case by (auto simp: step_keys_quiet)
next
  case (2 seg b bs g)
  then show ?case by (auto simp: key_def step_keys_def split: prod.splits)
qed

lemma feed_keys: "steps_keys (fst (feed data g)) = fst (keys data g)" "snd (feed data g) = snd (keys data g)"
  using feed_from_keys [of "[]" data g] by (simp_all add: feed_def)

text \<open>Cutting the input in pieces, as the network may do, changes nothing: the lines to audit, the
  byte each one has to precede, the bytes and the gate that is left are those of the whole input.
\<close>

theorem feed_in_pieces:
  "steps_keys (fst (feed (xs @ ys) g)) =
     steps_keys (fst (feed xs g)) @ steps_keys (fst (feed ys (snd (feed xs g))))
   \<and> snd (feed (xs @ ys) g) = snd (feed ys (snd (feed xs g)))
   \<and> concat (map st_bytes (fst (feed (xs @ ys) g))) = xs @ ys"
  using feed_from_bytes [of "[]" "xs @ ys" g] by (simp add: feed_keys keys_append) (simp add: feed_def)

section \<open>A typed line is the audited line\<close>

definition plain_key :: "byte \<Rightarrow> bool" where
  "plain_key b \<longleftrightarrow> 0x20 \<le> unat b \<and> unat b \<noteq> 0x7f"

lemma plain_key_applyKey:
  assumes "plain_key b" "ig_escape g = EscNone"
  shows "key b g = (None, g\<lparr> ig_decoder := snd (decoder_write b (ig_decoder g)),
     ig_line := (if js_length (ig_line g) < MAX_LINE_CHARS then ig_line g @ fst (decoder_write b (ig_decoder g))
       else ig_line g) \<rparr>)"
proof -
  have "b \<noteq> ESC" "b \<noteq> CR" "b \<noteq> LF" "b \<noteq> BACKSPACE" "b \<noteq> DEL" "b \<noteq> CTRL_C" "b \<noteq> CTRL_U" "b \<noteq> CTRL_W"
    using assms(1) by (auto simp: plain_key_def key_defs)
  moreover have "\<not> b < 0x20" using assms(1) by (simp add: plain_key_def word_less_nat_alt)
  ultimately show ?thesis
    using assms(2) by (simp add: key_def applyKey_def split: prod.splits)
qed

lemma plain_keys:
  assumes "\<forall>b \<in> set bs. plain_key b" "ig_escape g = EscNone"
    "decoder_writes bs (ig_decoder g) = (out, d)" "js_length (ig_line g @ out) \<le> MAX_LINE_CHARS"
  shows "keys bs g = (map (\<lambda>b. (b, None)) bs, g\<lparr> ig_line := ig_line g @ out, ig_decoder := d \<rparr>)"
  using assms
proof (induction bs arbitrary: g out)
  case (Cons b bs)
  obtain o1 d1 where w: "decoder_write b (ig_decoder g) = (o1, d1)" by force
  obtain o2 where r: "decoder_writes bs d1 = (o2, d)" "out = o1 @ o2"
    using Cons.prems(3) w by (auto split: prod.splits)
  have line: "(if js_length (ig_line g) < MAX_LINE_CHARS then ig_line g @ o1 else ig_line g) = ig_line g @ o1"
    using Cons.prems(4) r(2) length_le_js_length [of o1] by (cases o1) auto
  let ?g = "g\<lparr> ig_decoder := d1, ig_line := ig_line g @ o1 \<rparr>"
  have "keys bs ?g = (map (\<lambda>b. (b, None)) bs, ?g\<lparr> ig_line := ig_line ?g @ o2, ig_decoder := d \<rparr>)"
    using Cons.prems r by (intro Cons.IH) auto
  moreover have "key b g = (None, ?g)"
    using plain_key_applyKey [of b g] Cons.prems(1,2) by (simp only: w fst_conv snd_conv line list.set_intros)
  ultimately show ?case using r by simp
qed simp

lemma plain_feed:
  assumes "\<forall>b \<in> set bs. plain_key b" "ig_escape g = EscNone"
  shows "feed_from seg (bs @ rest) g = feed_from (seg @ bs) rest (snd (keys bs g))"
  using assms
proof (induction bs arbitrary: g seg)
  case (Cons b bs)
  have "b \<noteq> ESC" "b \<noteq> CR" "b \<noteq> LF" using Cons.prems(1) by (auto simp: plain_key_def key_defs)
  with Cons.prems have "feed_from seg ((b # bs) @ rest) g = feed_from (seg @ [b]) (bs @ rest) (snd (key b g))"
    by (simp add: key_def)
  also have "\<dots> = feed_from ((seg @ [b]) @ bs) rest (snd (keys bs (snd (key b g))))"
    using Cons.prems by (intro Cons.IH) (simp_all add: plain_key_applyKey)
  finally show ?case by (simp split: prod.splits)
qed simp

text \<open>The characters a line is typed with: scalar values that are no control keys.\<close>

definition typed_char :: "nat \<Rightarrow> bool" where
  "typed_char c \<longleftrightarrow> scalar c \<and> 0x20 \<le> c \<and> c \<noteq> 0x7f"

lemma utf8_plain:
  assumes "typed_char c"
  shows "\<forall>n \<in> set (utf8_code c). 0x20 \<le> n \<and> n < 256 \<and> n \<noteq> 0x7f"
proof -
  have "c < 0x110000" using assms by (auto simp: typed_char_def scalar_def)
  then have "c div 262144 < 5" "c < 0x10000 \<Longrightarrow> c div 4096 < 16" "c < 0x800 \<Longrightarrow> c div 64 < 32"
    by (auto simp: div_less_iff_less_mult)
  moreover have "c div 4096 mod 64 < 64" "c div 64 mod 64 < 64" "c mod 64 < 64" by simp_all
  ultimately show ?thesis using assms by (auto simp: utf8_code_def typed_char_def)
qed

lemma typed_plain: "\<forall>c \<in> set xs. typed_char c \<Longrightarrow> \<forall>b \<in> set (utf8_bytes xs). plain_key b"
proof -
  have "plain_key (of_nat n)" if "0x20 \<le> n" "n < 256" "n \<noteq> 0x7f" for n
    using that by (simp add: plain_key_def)
  moreover assume "\<forall>c \<in> set xs. typed_char c"
  ultimately show ?thesis using utf8_plain by (fastforce simp: utf8_bytes_def)
qed

lemma typed_keys:
  assumes "\<forall>c \<in> set xs. typed_char c" "js_length xs \<le> MAX_LINE_CHARS"
  shows "keys (utf8_bytes xs) new_gate = (map (\<lambda>b. (b, None)) (utf8_bytes xs), new_gate\<lparr> ig_line := xs \<rparr>)"
  using plain_keys [OF typed_plain [OF assms(1)], of new_gate xs new_decoder] assms
    decoder_writes_bytes [of xs]
  by (simp add: new_gate_def typed_char_def)

text \<open>C26: What the owner types is what the audit reads: a text of up to 4096 UTF-16 units sent in UTF-8
  and closed by Enter is one step, with all the bytes and with the text, its white space collapsed,
  as the line to audit (none when the text is blank); the gate is left as new.
\<close>

theorem typed_line_is_audited_line:
  assumes "\<forall>c \<in> set xs. typed_char c" "js_length xs \<le> MAX_LINE_CHARS" "e = CR \<or> e = LF"
  shows "feed (utf8_bytes xs @ [e]) new_gate =
    ([\<lparr> st_bytes = utf8_bytes xs @ [e], st_line = (if squash xs = [] then None else Some (squash xs)) \<rparr>],
     new_gate)"
proof -
  have "e \<noteq> ESC" using assms(3) by (auto simp: key_defs)
  moreover have "takeLine (new_gate\<lparr> ig_line := xs \<rparr>)
    = (if squash xs = [] then None else Some (squash xs), new_gate)"
    by (simp add: takeLine_def decoder_end_def new_gate_def new_decoder_def)
  moreover have "ig_escape (new_gate\<lparr> ig_line := xs \<rparr>) = EscNone" "ig_escape new_gate = EscNone"
    by (simp_all add: new_gate_def)
  ultimately show ?thesis
    using assms(3) by (simp add: feed_def plain_feed [OF typed_plain [OF assms(1)]] typed_keys [OF assms(1,2)])
qed

lemma typed_line_is_audited_line_witness:
  "feed (utf8_bytes [0x6C, 0x73, 0x20, 0x20, 0xF1, 0x1F600] @ [CR]) new_gate =
    ([\<lparr> st_bytes = utf8_bytes [0x6C, 0x73, 0x20, 0x20, 0xF1, 0x1F600] @ [CR],
        st_line = Some [0x6C, 0x73, 0x20, 0xF1, 0x1F600] \<rparr>], new_gate)"
proof -
  let ?xs = "[0x6C, 0x73, 0x20, 0x20, 0xF1, 0x1F600]"
  have sq: "squash ?xs = [0x6C, 0x73, 0x20, 0xF1, 0x1F600]"
    by (simp add: squash_def trim_by_def js_space_def)
  have "\<forall>c \<in> set ?xs. typed_char c" by (simp add: typed_char_def scalar_def)
  moreover have "js_length ?xs \<le> MAX_LINE_CHARS" by (simp add: MAX_LINE_CHARS_def units_def)
  ultimately have "feed (utf8_bytes ?xs @ [CR]) new_gate =
    ([\<lparr> st_bytes = utf8_bytes ?xs @ [CR], st_line = (if squash ?xs = [] then None else Some (squash ?xs)) \<rparr>],
     new_gate)"
    by (rule typed_line_is_audited_line) simp
  then show ?thesis by (simp only: sq list.distinct if_False)
qed

section \<open>Where an Enter can be\<close>

definition is_enter :: "byte \<Rightarrow> bool" where
  "is_enter b \<longleftrightarrow> b = CR \<or> b = LF"

lemma feed_from_enter:
  assumes "ig_escape g = EscNone" "ESC \<notin> set data" "\<forall>b \<in> set seg. \<not> is_enter b"
  shows "\<forall>s \<in> set (fst (feed_from seg data g)). \<forall>b \<in> set (butlast (st_bytes s)). \<not> is_enter b"
  using assms
proof (induction data arbitrary: seg g)
  case (Cons b bs)
  from Cons.prems have b: "b \<noteq> ESC" "ESC \<notin> set bs" by auto
  show ?case
  proof (cases "is_enter b")
    case True
    have "ig_escape (snd (takeLine g)) = EscNone"
      using Cons.prems(1) by (simp add: takeLine_def Let_def split: prod.splits)
    then have "\<forall>s \<in> set (fst (feed_from [] bs (snd (takeLine g)))).
        \<forall>b \<in> set (butlast (st_bytes s)). \<not> is_enter b"
      by (rule Cons.IH) (simp_all add: b)
    then show ?thesis
      using True Cons.prems(1,3) b(1) by (simp add: is_enter_def split: prod.splits)
  next
    case False
    have "ig_escape (applyKey b g) = EscNone"
      using Cons.prems(1) by (simp add: applyKey_def split: prod.splits)
    then have "\<forall>s \<in> set (fst (feed_from (seg @ [b]) bs (applyKey b g))).
        \<forall>b \<in> set (butlast (st_bytes s)). \<not> is_enter b"
      by (rule Cons.IH) (use Cons.prems(3) False b in auto)
    then show ?thesis
      using False Cons.prems(1) b(1) by (simp add: is_enter_def)
  qed
qed (auto dest: in_set_butlastD)

text \<open>Outside escape sequences an Enter is always the last byte of its step.\<close>

lemma enter_ends_its_step:
  assumes "ig_escape g = EscNone" "ESC \<notin> set data" "s \<in> set (fst (feed data g))"
  shows "\<forall>b \<in> set (butlast (st_bytes s)). \<not> is_enter b"
  using feed_from_enter [OF assms(1,2), of "[]"] assms(3) by (simp add: feed_def)

text \<open>A step with a line always ends in Enter, and its line is not blank.\<close>

lemma feed_from_line:
  "s \<in> set (fst (feed_from seg data g)) \<Longrightarrow> st_line s = Some l \<Longrightarrow> is_enter (last (st_bytes s)) \<and> l \<noteq> []"
proof (induction seg data g rule: feed_from.induct)
  case (1 seg g)
  then show ?case by (auto split: if_splits)
next
  case (2 seg b bs g)
  show ?case
  proof (cases "ig_escape g = EscNone \<and> b \<noteq> ESC \<and> is_enter b")
    case True
    then show ?thesis using 2
      by (auto simp: is_enter_def takeLine_def Let_def split: prod.splits if_splits)
  next
    case False
    then show ?thesis using 2 by (auto simp: is_enter_def split: if_splits)
  qed
qed

lemma feed_line:
  "s \<in> set (fst (feed data g)) \<Longrightarrow> st_line s = Some l \<Longrightarrow> is_enter (last (st_bytes s)) \<and> l \<noteq> []"
  unfolding feed_def by (rule feed_from_line)

section \<open>Bounds\<close>

definition decoder_wf :: "string_decoder \<Rightarrow> bool" where
  "decoder_wf d \<longleftrightarrow> length (sd_buffered d) + sd_missing d \<le> 4 \<and> (sd_missing d = 0 \<longrightarrow> sd_buffered d = [])"

definition gate_wf :: "PtyInputGate \<Rightarrow> bool" where
  "gate_wf g \<longleftrightarrow> decoder_wf (ig_decoder g) \<and> js_length (ig_line g) \<le> MAX_LINE_CHARS + 3"

lemma take_cont_units:
  "0 < n \<Longrightarrow> units (fst (take_cont n lo hi v bs)) + length (snd (take_cont n lo hi v bs)) \<le> Suc (length bs)"
proof (induction n lo hi v bs rule: take_cont.induct)
  case (3 n lo hi v b bs)
  show ?case
  proof (cases "lo \<le> unat b \<and> unat b \<le> hi")
    case True
    then show ?thesis using 3 by (cases "n = 0") (simp_all add: units_def)
  next
    case False
    then show ?thesis by (auto simp: units_def REPLACEMENT_def)
  qed
qed (simp_all add: units_def REPLACEMENT_def)

lemma lead_info_pos: "lead_info b = Some (n, x) \<Longrightarrow> 0 < n"
  by (auto simp: lead_info_def split: if_splits)

lemma js_length_utf8_decode: "js_length (utf8_decode bs) \<le> length bs"
proof (induction bs rule: utf8_decode.induct)
  case (2 b bs)
  show ?case
  proof (cases "unat b < 0x80")
    case True
    then show ?thesis using 2(1) by (simp add: units_def)
  next
    case False
    show ?thesis
    proof (cases "lead_info (unat b)")
      case None
      then show ?thesis using False 2(2) by (simp add: units_def REPLACEMENT_def)
    next
      case (Some x)
      obtain n lo hi v where x: "x = (n, lo, hi, v)" by (cases x)
      have "units (fst (take_cont n lo hi v bs)) + length (snd (take_cont n lo hi v bs)) \<le> Suc (length bs)"
        using Some x by (intro take_cont_units lead_info_pos) auto
      moreover have "js_length (utf8_decode (snd (take_cont n lo hi v bs))) \<le> length (snd (take_cont n lo hi v bs))"
        using 2(3) False Some x by simp
      ultimately show ?thesis using False Some x by simp
    qed
  qed
qed simp

lemma decoder_write_bound:
  assumes "decoder_wf d"
  shows "js_length (fst (decoder_write b d)) \<le> 4 \<and> decoder_wf (snd (decoder_write b d))"
proof -
  have one: "js_length (utf8_decode [b]) \<le> 1"
    using js_length_utf8_decode [of "[b]"] by simp
  then have fresh: "js_length (fst (decoder_fresh b)) \<le> 1" "decoder_wf (snd (decoder_fresh b))"
    by (auto simp: decoder_fresh_def decoder_wf_def new_decoder_def announced_def simp del: utf8_decode.simps)
  have "js_length (utf8_decode (sd_buffered d)) \<le> length (sd_buffered d)"
    "js_length (utf8_decode (sd_buffered d @ [b])) \<le> Suc (length (sd_buffered d))"
    using js_length_utf8_decode [of "sd_buffered d"] js_length_utf8_decode [of "sd_buffered d @ [b]"] by simp_all
  then show ?thesis
    using assms fresh
    by (auto simp: decoder_write_def decoder_wf_def new_decoder_def split: prod.splits simp del: utf8_decode.simps)
qed

lemma js_length_butlast: "js_length (butlast xs) \<le> js_length xs"
  by (induction xs) auto

lemma js_length_sublist: "sublist xs ys \<Longrightarrow> js_length xs \<le> js_length ys"
  by (auto simp: sublist_def)

lemma js_length_rev [simp]: "js_length (rev xs) = js_length xs"
  by (simp add: js_length_def rev_map [symmetric] sum_list_rev)

lemma js_length_dropWhile: "js_length (dropWhile p xs) \<le> js_length xs"
  by (induction xs) auto

lemma js_length_drop_word: "js_length (drop_word xs) \<le> js_length xs"
  unfolding drop_word_def js_length_rev
  by (metis js_length_dropWhile js_length_rev le_trans)

lemma gate_wf_new [simp]: "gate_wf new_gate"
  by (simp add: gate_wf_def new_gate_def decoder_wf_def new_decoder_def)

lemma gate_wf_applyKey: "gate_wf g \<Longrightarrow> gate_wf (applyKey b g)"
proof -
  assume wf: "gate_wf g"
  have "js_length (fst (decoder_write b (ig_decoder g))) \<le> 4" "decoder_wf (snd (decoder_write b (ig_decoder g)))"
    using decoder_write_bound wf by (auto simp: gate_wf_def)
  then show ?thesis
    using wf js_length_butlast [of "ig_line g"] js_length_drop_word [of "ig_line g"]
    by (auto simp: applyKey_def gate_wf_def decoder_wf_def new_decoder_def split: prod.splits)
qed

lemma gate_wf_key: "gate_wf g \<Longrightarrow> gate_wf (snd (key b g))"
  using gate_wf_applyKey [of g b]
  by (auto simp: key_def takeLine_def decoder_end_def consumeEscape_def gate_wf_def decoder_wf_def
      new_decoder_def Let_def split: EscapeState.splits)

lemma gate_wf_keys: "gate_wf g \<Longrightarrow> gate_wf (snd (keys bs g))"
proof (induction bs arbitrary: g)
  case (Cons b bs)
  then show ?case using gate_wf_key [of g b] by (auto split: prod.splits) (metis snd_conv)
qed simp

text \<open>However much is typed without an Enter, the gate keeps at most 4099 units of it.\<close>

lemma gate_wf_feed: "gate_wf g \<Longrightarrow> gate_wf (snd (feed data g))"
  by (simp add: feed_keys gate_wf_keys)

lemma gate_wf_reset [simp]: "gate_wf (gate_reset g)"
  by (simp add: gate_wf_def gate_reset_def decoder_wf_def new_decoder_def)

section \<open>The Enter that is not audited\<close>

text \<open>Inside an escape sequence the gate looks for its end and for nothing else, so an Enter there
  is forwarded as any other byte: a typed text followed by Escape and Enter is one step without a
  line, whatever the text is, and the text waits in the gate for the next Enter.
\<close>

theorem enter_inside_escape_not_audited:
  assumes "\<forall>c \<in> set xs. typed_char c" "js_length xs \<le> MAX_LINE_CHARS"
  shows "feed (utf8_bytes xs @ [ESC, CR]) new_gate =
     ([\<lparr> st_bytes = utf8_bytes xs @ [ESC, CR], st_line = None \<rparr>], new_gate\<lparr> ig_line := xs \<rparr>)"
proof -
  have "ig_escape new_gate = EscNone" by (simp add: new_gate_def)
  moreover have "consumeEscape CR (new_gate\<lparr> ig_line := xs, ig_escape := EscEsc \<rparr>) = new_gate\<lparr> ig_line := xs \<rparr>"
    by (simp add: consumeEscape_def new_gate_def key_defs)
  ultimately show ?thesis
    by (simp add: feed_def plain_feed [OF typed_plain [OF assms(1)]] typed_keys [OF assms])
qed

lemma enter_inside_escape_not_audited_witness:
  "fst (feed (utf8_bytes (codes ''ls;'') @ [ESC, CR]) new_gate) =
     [\<lparr> st_bytes = utf8_bytes (codes ''ls;'') @ [ESC, CR], st_line = None \<rparr>]"
proof -
  have "codes ''ls;'' = [108, 115, 59]" by (simp add: codes_def)
  then show ?thesis
    using enter_inside_escape_not_audited [of "codes ''ls;''"]
    by (simp add: typed_char_def scalar_def MAX_LINE_CHARS_def units_def)
qed

end
