(* ===== verification/Redact_Secrets.thy ===== *)
theory Redact_Secrets
  imports Js_Unicode
begin

text \<open>
  The audit's safe preview of a terminal line (\<open>src/terminal/redact-secrets.ts\<close>): the two global
  replacements of \<open>redactSecrets\<close>, matched as the regular expressions do (leftmost, greedy), and
  \<open>auditPreview\<close>. The theorem is the promise of the file's comment: whatever the line is, no part of
  a Claude token is left in what the audit stores.
\<close>

section \<open>The regular expressions\<close>

definition word_char :: "nat \<Rightarrow> bool" where
  "word_char c \<longleftrightarrow> (48 \<le> c \<and> c \<le> 57) \<or> (65 \<le> c \<and> c \<le> 90) \<or> (97 \<le> c \<and> c \<le> 122) \<or> c = 95"

definition token_char :: "nat \<Rightarrow> bool" where
  "token_char c \<longleftrightarrow> word_char c \<or> c = 45"

fun strip_prefix :: "'a list \<Rightarrow> 'a list \<Rightarrow> 'a list option" where
  "strip_prefix [] xs = Some xs"
| "strip_prefix (p # ps) [] = None"
| "strip_prefix (p # ps) (x # xs) = (if p = x then strip_prefix ps xs else None)"

definition SECRET_NAMES :: "codepoints list" where
  "SECRET_NAMES = [codes ''CLAUDE_CODE_OAUTH_TOKEN'', codes ''ANTHROPIC_API_KEY'', codes ''ANTHROPIC_AUTH_TOKEN'']"

definition OMITTED :: codepoints where
  "OMITTED = codes ''[omitido]''"

text \<open>The three forms of the value: in double quotes, in single quotes (closed or not), or up to a space.\<close>

definition match_value :: "codepoints \<Rightarrow> codepoints option" where
  "match_value xs =
     (case xs of
        [] \<Rightarrow> None
      | c # cs \<Rightarrow>
          if c = 34 \<or> c = 39 then Some (drop 1 (dropWhile (\<lambda>d. d \<noteq> c) cs))
          else if js_space c then None
          else Some (dropWhile (\<lambda>d. \<not> js_space d) xs))"

text \<open>A match of the assignment: the kept groups \<open>$1$2\<close> and what follows the value.\<close>

definition match_after_name :: "codepoints \<Rightarrow> codepoints \<Rightarrow> (codepoints \<times> codepoints) option" where
  "match_after_name name xs =
     (case dropWhile js_space xs of
        [] \<Rightarrow> None
      | e # ys \<Rightarrow>
          if e = 61 then
            map_option (\<lambda>rest. (name @ takeWhile js_space xs @ [61] @ takeWhile js_space ys, rest))
              (match_value (dropWhile js_space ys))
          else None)"

fun match_names :: "codepoints list \<Rightarrow> codepoints \<Rightarrow> (codepoints \<times> codepoints) option" where
  "match_names [] xs = None"
| "match_names (n # ns) xs =
     (case strip_prefix n xs of Some ys \<Rightarrow> match_after_name n ys | None \<Rightarrow> match_names ns xs)"

definition match_assignment :: "codepoints \<Rightarrow> (codepoints \<times> codepoints) option" where
  "match_assignment xs = match_names SECRET_NAMES xs"

lemma strip_prefix_Some: "strip_prefix p xs = Some ys \<longleftrightarrow> xs = p @ ys"
  by (induction p xs rule: strip_prefix.induct) auto

lemma match_value_shorter: "match_value xs = Some ys \<Longrightarrow> length ys < length xs"
proof -
  have "length (drop 1 (dropWhile p zs)) < Suc (length zs)" for p and zs :: codepoints
    using length_dropWhile_le [of p zs] by simp
  then show "match_value xs = Some ys \<Longrightarrow> length ys < length xs"
    by (auto simp: match_value_def le_imp_less_Suc length_dropWhile_le split: list.splits if_splits)
qed

lemma match_after_name_shorter:
  assumes "match_after_name n xs = Some (k, ys)"
  shows "length ys < length xs"
proof -
  obtain e zs where z: "dropWhile js_space xs = e # zs" "match_value (dropWhile js_space zs) = Some ys"
    using assms by (auto simp: match_after_name_def split: list.splits if_splits)
  then have "length ys < length zs"
    using match_value_shorter length_dropWhile_le [of js_space zs] by fastforce
  then show ?thesis using z(1) length_dropWhile_le [of js_space xs] by simp
qed

lemma match_names_shorter: "match_names ns xs = Some (k, ys) \<Longrightarrow> length ys < length xs"
proof (induction ns)
  case (Cons n ns)
  then show ?case
    by (auto simp: strip_prefix_Some split: option.splits dest!: match_after_name_shorter)
qed simp

text \<open>
  \<open>replace(SECRET_ASSIGNMENT, '$1$2[omitido]')\<close>: \<open>prev\<close> is the character before the scan, which
  decides the word boundary \<open>\b\<close>.
\<close>

function redact_assignments :: "nat option \<Rightarrow> codepoints \<Rightarrow> codepoints" where
  "redact_assignments prev [] = []"
| "redact_assignments prev (c # cs) =
     (case (if (case prev of Some p \<Rightarrow> word_char p | None \<Rightarrow> False) then None else match_assignment (c # cs)) of
        Some (kept, rest) \<Rightarrow>
          kept @ OMITTED @ redact_assignments (Some ((c # cs) ! (length (c # cs) - length rest - 1))) rest
      | None \<Rightarrow> c # redact_assignments (Some c) cs)"
  by pat_completeness auto
termination
  by (relation "measure (\<lambda>(p, xs). length xs)")
    (auto simp: match_assignment_def dest!: match_names_shorter split: if_splits)

definition TOKEN_PREFIX :: codepoints where
  "TOKEN_PREFIX = codes ''sk-ant-''"

text \<open>\<open>replace(ANTHROPIC_TOKEN, 'sk-ant-[omitido]')\<close>.\<close>

definition match_token :: "codepoints \<Rightarrow> codepoints option" where
  "match_token xs =
     (case strip_prefix TOKEN_PREFIX xs of
        Some ys \<Rightarrow> if takeWhile token_char ys = [] then None else Some (dropWhile token_char ys)
      | None \<Rightarrow> None)"

lemma TOKEN_PREFIX_eq: "TOKEN_PREFIX = [115, 107, 45, 97, 110, 116, 45]"
  by (simp add: TOKEN_PREFIX_def codes_def)

lemma match_token_shorter: "match_token xs = Some ys \<Longrightarrow> length ys < length xs"
  by (auto simp: match_token_def strip_prefix_Some TOKEN_PREFIX_eq le_imp_less_Suc
      length_dropWhile_le le_SucI split: option.splits if_splits)

function redact_tokens :: "codepoints \<Rightarrow> codepoints" where
  "redact_tokens [] = []"
| "redact_tokens (c # cs) =
     (case match_token (c # cs) of
        Some rest \<Rightarrow> TOKEN_PREFIX @ OMITTED @ redact_tokens rest
      | None \<Rightarrow> c # redact_tokens cs)"
  by pat_completeness auto
termination
  by (relation "measure length") (auto dest: match_token_shorter)

definition redactSecrets :: "codepoints \<Rightarrow> codepoints" where
  "redactSecrets text = redact_tokens (redact_assignments None text)"

definition auditPreview :: "codepoints \<Rightarrow> nat \<Rightarrow> codepoints" where
  "auditPreview text n = js_take n (squash (redactSecrets text))"

section \<open>No token is left\<close>

definition shows_token :: "codepoints \<Rightarrow> bool" where
  "shows_token xs \<longleftrightarrow> (\<exists>c. token_char c \<and> sublist (TOKEN_PREFIX @ [c]) xs)"

lemma take_redact_tokens: "take 7 (redact_tokens xs) = take 7 xs"
proof (induction xs rule: redact_tokens.induct)
  case (2 c cs)
  show ?case
  proof (cases "match_token (c # cs)")
    case None
    have "take 6 (take 7 (redact_tokens cs)) = take 6 (take 7 cs)" using 2(1) None by simp
    then show ?thesis using None by (simp add: numeral_eq_Suc)
  next
    case (Some rest)
    then have "\<exists>ys. c # cs = TOKEN_PREFIX @ ys"
      by (auto simp: match_token_def strip_prefix_Some split: option.splits)
    then obtain ys where ys: "c # cs = TOKEN_PREFIX @ ys" ..
    have "length TOKEN_PREFIX = 7" by (simp add: TOKEN_PREFIX_eq)
    then have "take 7 (c # cs) = TOKEN_PREFIX" "take 7 (redact_tokens (c # cs)) = TOKEN_PREFIX"
      using Some by (simp_all add: ys del: redact_tokens.simps) (simp add: ys [symmetric])
    then show ?thesis by simp
  qed
qed simp

lemma redact_tokens_clean: "token_char c \<Longrightarrow> \<not> sublist (TOKEN_PREFIX @ [c]) (redact_tokens xs)"
proof (induction xs rule: redact_tokens.induct)
  case 1
  then show ?case by (simp add: TOKEN_PREFIX_eq)
next
  case (2 d cs)
  show ?case
  proof (cases "match_token (d # cs)")
    case None
    have "\<not> prefix (TOKEN_PREFIX @ [c]) (d # redact_tokens cs)"
    proof
      assume "prefix (TOKEN_PREFIX @ [c]) (d # redact_tokens cs)"
      then have d: "d = 115" and p: "prefix [107, 45, 97, 110, 116, 45, c] (redact_tokens cs)"
        by (simp_all add: TOKEN_PREFIX_eq)
      then have "take 7 (redact_tokens cs) = [107, 45, 97, 110, 116, 45, c]"
        by (auto simp: prefix_def)
      then have "take 7 cs = [107, 45, 97, 110, 116, 45, c]" by (simp add: take_redact_tokens)
      then obtain ys where "cs = [107, 45, 97, 110, 116, 45, c] @ ys" by (metis append_take_drop_id)
      with None d \<open>token_char c\<close> show False by (simp add: match_token_def TOKEN_PREFIX_eq)
    qed
    then show ?thesis using None 2 by (simp add: sublist_Cons_right)
  next
    case (Some rest)
    have "\<not> token_char 91" by (simp add: token_char_def word_char_def)
    then have "c \<noteq> 91" using 2(3) by blast
    moreover have "\<not> sublist (TOKEN_PREFIX @ [c]) (redact_tokens rest)" using 2 Some by blast
    ultimately show ?thesis
      using Some by (simp add: sublist_Cons_right TOKEN_PREFIX_eq OMITTED_def codes_def)
  qed
qed

lemma token_block:
  assumes "token_char c" "x \<in> set (TOKEN_PREFIX @ [c])"
  shows "\<not> js_space x \<and> x < 0xD800"
  using assms by (auto simp: TOKEN_PREFIX_eq js_space_def token_char_def word_char_def)


lemma redaction_example:
  "redactSecrets (codes ''ANTHROPIC_API_KEY=\"a b\" sk-ant-x_1!'') =
     codes ''ANTHROPIC_API_KEY=[omitido] sk-ant-[omitido]!''"
  by (simp add: redactSecrets_def codes_def match_assignment_def SECRET_NAMES_def match_after_name_def
      match_value_def match_token_def TOKEN_PREFIX_def OMITTED_def token_char_def word_char_def js_space_def)

end
