(* ===== verification/Js_Base64.thy ===== *)
theory Js_Base64
  imports Js_Unicode
begin

text \<open>
  \<open>toString('base64')\<close> and \<open>Buffer.from(s, 'base64')\<close> of the platform, as the terminal uses them for
  the bytes of its output; the decoder skips the characters outside the alphabet and takes the URL
  variant too. What is encoded is decoded back.
\<close>

definition base64_char :: "nat \<Rightarrow> char" where
  "base64_char n = char_of
     (if n < 26 then n + 65 else if n < 52 then n + 71 else if n < 62 then n - 4
      else if n = 62 then 43 else 47)"

definition base64_value :: "char \<Rightarrow> nat option" where
  "base64_value c = (let n = of_char c in
     if 65 \<le> n \<and> n \<le> 90 then Some (n - 65)
     else if 97 \<le> n \<and> n \<le> 122 then Some (n - 71)
     else if 48 \<le> n \<and> n \<le> 57 then Some (n + 4)
     else if n = 43 \<or> n = 45 then Some 62
     else if n = 47 \<or> n = 95 then Some 63
     else None)"

fun to_sextets :: "nat list \<Rightarrow> nat list" where
  "to_sextets [] = []"
| "to_sextets [a] = [a div 4, a mod 4 * 16]"
| "to_sextets [a, b] = [a div 4, a mod 4 * 16 + b div 16, b mod 16 * 4]"
| "to_sextets (a # b # c # r) =
     a div 4 # (a mod 4 * 16 + b div 16) # (b mod 16 * 4 + c div 64) # c mod 64 # to_sextets r"

fun of_sextets :: "nat list \<Rightarrow> nat list" where
  "of_sextets (w # x # y # z # r) =
     (w * 4 + x div 16) # (x mod 16 * 16 + y div 4) # (y mod 4 * 64 + z) # of_sextets r"
| "of_sextets [w, x, y] = [w * 4 + x div 16, x mod 16 * 16 + y div 4]"
| "of_sextets [w, x] = [w * 4 + x div 16]"
| "of_sextets _ = []"

definition base64_pad :: "nat \<Rightarrow> string" where
  "base64_pad n = (if n mod 3 = 1 then ''=='' else if n mod 3 = 2 then ''='' else [])"

definition base64_encode :: "byte list \<Rightarrow> string" where
  "base64_encode bs = map base64_char (to_sextets (map unat bs)) @ base64_pad (length bs)"

definition base64_decode :: "string \<Rightarrow> byte list" where
  "base64_decode s = map of_nat (of_sextets (List.map_filter base64_value s))"

lemma base64_value_char [simp]: "n < 64 \<Longrightarrow> base64_value (base64_char n) = Some n"
  by (auto simp: base64_value_def base64_char_def Let_def)

lemma to_sextets_bound: "\<forall>a \<in> set as. a < 256 \<Longrightarrow> \<forall>n \<in> set (to_sextets as). n < 64"
proof (induction as rule: to_sextets.induct)
  case (4 a b c r)
  then have "a div 4 < 64" "b div 16 < 16" "c div 64 < 4" "a mod 4 < 4" "b mod 16 < 16"
    by (auto simp: div_less_iff_less_mult)
  with 4 show ?case by auto
next
  case (3 a b)
  then have "a div 4 < 64" "b div 16 < 16" "a mod 4 < 4" "b mod 16 < 16"
    by (auto simp: div_less_iff_less_mult)
  then show ?case by auto
qed (auto simp: div_less_iff_less_mult)

lemma map_filter_base64: "\<forall>n \<in> set ns. n < 64 \<Longrightarrow> List.map_filter base64_value (map base64_char ns) = ns"
  by (induction ns) (simp_all add: List.map_filter_def)

lemma base64_pad_skipped [simp]: "List.map_filter base64_value (base64_pad n) = []"
  by (simp add: base64_pad_def List.map_filter_def base64_value_def)

lemma of_to_sextets: "\<forall>a \<in> set as. a < 256 \<Longrightarrow> of_sextets (to_sextets as) = as"
proof (induction as rule: to_sextets.induct)
  case (4 a b c r)
  then show ?case by (simp add: div_less_iff_less_mult div_add1_eq)
qed (simp_all add: div_less_iff_less_mult)

lemma unat_bound: "unat (b :: byte) < 256"
  using unsigned_less [of b] by simp

lemma base64_roundtrip [simp]: "base64_decode (base64_encode bs) = bs"
proof -
  have small: "\<forall>a \<in> set (map unat bs). a < 256"
  proof
    fix a assume "a \<in> set (map unat bs)"
    then obtain b :: byte where "a = unat b" by auto
    then show "a < 256" using unat_bound [of b] by simp
  qed
  then have "\<forall>n \<in> set (to_sextets (map unat bs)). n < 64" by (rule to_sextets_bound)
  moreover have "List.map_filter f (xs @ ys) = List.map_filter f xs @ List.map_filter f ys"
    for f :: "char \<Rightarrow> nat option" and xs ys
    by (simp add: List.map_filter_def)
  ultimately have "List.map_filter base64_value (base64_encode bs) = to_sextets (map unat bs)"
    by (simp add: base64_encode_def map_filter_base64)
  then show ?thesis using of_to_sextets [OF small] by (simp add: base64_decode_def comp_def)
qed

end
