(* ===== verification/Terminal_Pty.thy ===== *)
theory Terminal_Pty
  imports Pty_Input Redact_Secrets Js_Base64 Audit_Chain Js_Json Feature_Flags
begin

text \<open>
  The interactive terminal of the owner (\<open>src/terminal/terminal-pty.service.ts\<close>): sessions with their
  input gate, their recent output, their timers and the audit around them. The state is the
  database of the audit extended with the two maps of the service, what each listener has heard and
  what each terminal has been sent (\<open>pw_wire\<close>, in the order of the effects). The executor is the
  outside world: what its calls answer are arguments, and a call counts as sent when it is made.
  The texts handed to the audit are their UTF-8 bytes. Fixed messages to the app are constructors.

  The asynchronous parts are split where the code awaits: opening has a part before its first
  \<open>await\<close> (\<open>open_begin\<close>) and one after (\<open>open_finish\<close>); input is queued by \<open>pty_input\<close> and processed
  in order by \<open>pty_drain\<close>, as the chain of promises does.
\<close>

section \<open>The sessions\<close>

definition TERMINAL_ACTOR :: string where "TERMINAL_ACTOR = ''owner:terminal''"
definition RUN_TERMINAL_COMMAND_TOOL :: string where "RUN_TERMINAL_COMMAND_TOOL = ''runTerminalCommand''"
definition OPEN_TERMINAL_PTY_TOOL :: string where "OPEN_TERMINAL_PTY_TOOL = ''openTerminalPty''"
definition CLOSE_TERMINAL_PTY_TOOL :: string where "CLOSE_TERMINAL_PTY_TOOL = ''closeTerminalPty''"
definition AUDIT_COMMAND_PREVIEW_LENGTH :: nat where "AUDIT_COMMAND_PREVIEW_LENGTH = 120"

definition PTY_RING_BYTES :: nat where "PTY_RING_BYTES = 256 * 1024"
definition PTY_KEEPALIVE_DEFAULT_MS :: int where "PTY_KEEPALIVE_DEFAULT_MS = 60 * 60 * 1000"
definition PTY_KEEPALIVE_MIN_MS :: int where "PTY_KEEPALIVE_MIN_MS = 5 * 60 * 1000"
definition PTY_KEEPALIVE_MAX_MS :: int where "PTY_KEEPALIVE_MAX_MS = 4 * 60 * 60 * 1000"
definition MAX_INPUT_BYTES_PER_SECOND :: nat where "MAX_INPUT_BYTES_PER_SECOND = 512 * 1024"
definition REPLAY_CHUNK_BYTES :: nat where "REPLAY_CHUNK_BYTES = 48 * 1024"
definition ENDED_LINGER_MS :: int where "ENDED_LINGER_MS = 30000"
definition PUMP_MAX_RETRIES :: nat where "PUMP_MAX_RETRIES = 5"

datatype pty_text = TxtTooMuchInput | TxtLineNotAudited | TxtGone | TxtConnectionLost | TxtFailed
  | TxtGiven json

datatype PtyEvent = EvOut string | EvExit int | EvError pty_text | EvNotice pty_text

record PtySize =
  sz_cols :: int
  sz_rows :: int

record PtySession =
  ps_ptyId :: string
  ps_workspaceId :: string
  ps_startedAt :: timestamp
  ps_gate :: PtyInputGate
  ps_aborted :: bool
  ps_ring :: "byte list list"
  ps_ringBytes :: nat
  ps_listener :: "nat option"
  ps_keepAliveMs :: int
  ps_detachTimer :: "timestamp option"
  ps_lingerTimer :: "timestamp option"
  ps_queue :: "byte list list"
  ps_ended :: "PtyEvent option"
  ps_bytesIn :: nat
  ps_bytesOut :: nat
  ps_rateWindowStart :: timestamp
  ps_rateBytes :: nat
  ps_forgotten :: bool

text \<open>What a terminal's shell is sent, with the audit rows of its lines in between.\<close>

datatype pty_effect = Audited codepoints | Typed "byte list" | Cancelled

record pty_world = audit_db +
  pw_sessions :: "string \<rightharpoonup> PtySession"
  pw_byWorkspace :: "string \<rightharpoonup> string"
  pw_opening :: "(string \<times> string) list"
  pw_heard :: "(nat \<times> PtyEvent) list"
  pw_wire :: "string \<Rightarrow> pty_effect list"

definition put_session :: "PtySession \<Rightarrow> pty_world \<Rightarrow> pty_world" where
  "put_session s w = w\<lparr> pw_sessions := (pw_sessions w)(ps_ptyId s \<mapsto> s) \<rparr>"

text \<open>
  A session object outlives its entry in the service's map: \<open>pw_sessions\<close> holds the objects, and the
  map's \<open>get\<close> finds those that are not forgotten.
\<close>

definition get_session :: "string \<Rightarrow> pty_world \<Rightarrow> PtySession option" where
  "get_session pid w =
     (case pw_sessions w pid of Some s \<Rightarrow> if ps_forgotten s then None else Some s | None \<Rightarrow> None)"

definition to_wire :: "string \<Rightarrow> pty_effect list \<Rightarrow> pty_world \<Rightarrow> pty_world" where
  "to_wire pid es w = w\<lparr> pw_wire := (pw_wire w)(pid := pw_wire w pid @ es) \<rparr>"

definition hear :: "nat \<Rightarrow> PtyEvent list \<Rightarrow> pty_world \<Rightarrow> pty_world" where
  "hear l es w = w\<lparr> pw_heard := pw_heard w @ map (Pair l) es \<rparr>"

definition notify :: "PtySession \<Rightarrow> PtyEvent \<Rightarrow> pty_world \<Rightarrow> pty_world" where
  "notify s ev w = (case ps_listener s of Some l \<Rightarrow> hear l [ev] w | None \<Rightarrow> w)"

definition clampKeepAlive :: "int option \<Rightarrow> int" where
  "clampKeepAlive requested =
     (case requested of
        None \<Rightarrow> PTY_KEEPALIVE_DEFAULT_MS
      | Some ms \<Rightarrow> min PTY_KEEPALIVE_MAX_MS (max PTY_KEEPALIVE_MIN_MS ms))"

section \<open>The audit of the terminal\<close>

definition pty_audit :: "(string \<Rightarrow> string) \<Rightarrow> audit_io \<Rightarrow> uuid \<Rightarrow> string \<Rightarrow> json \<Rightarrow> string
    \<Rightarrow> 's audit_db_scheme \<Rightarrow> (jin_error + unit) \<times> 's audit_db_scheme" where
  "pty_audit sha io requestId toolName inputs planSummary w =
     (case recordToolCall sha io requestId TERMINAL_ACTOR toolName (computeInputsHash sha (Some inputs))
        (Some planSummary) ''auto'' None w of
        (Inl e, w') \<Rightarrow> (Inl e, w')
      | (Inr row, w') \<Rightarrow> (Inr (), w'))"

definition line_inputs :: "string \<Rightarrow> codepoints \<Rightarrow> json" where
  "line_inputs workspaceId line =
     JObj [(''workspaceId'', JStr workspaceId), (''command'', JStr (utf8_text line)),
           (''interactive'', JBool True)]"

definition line_summary :: "codepoints \<Rightarrow> string" where
  "line_summary line = ''terminal (interactiva): '' @ utf8_text (auditPreview line AUDIT_COMMAND_PREVIEW_LENGTH)"

section \<open>Ending a session\<close>

definition close_inputs :: "PtySession \<Rightarrow> string \<Rightarrow> timestamp \<Rightarrow> json" where
  "close_inputs s reason now =
     JObj [(''workspaceId'', JStr (ps_workspaceId s)), (''reason'', JStr reason),
           (''bytesIn'', JNum (int (ps_bytesIn s))), (''bytesOut'', JNum (int (ps_bytesOut s))),
           (''seconds'', JNum ((now - ps_startedAt s + 500) div 1000))]"

definition ended_session :: "timestamp \<Rightarrow> PtyEvent \<Rightarrow> PtySession \<Rightarrow> PtySession" where
  "ended_session now ev s = s\<lparr> ps_ended := Some ev, ps_aborted := True, ps_detachTimer := None,
     ps_lingerTimer := Some (now + ENDED_LINGER_MS) \<rparr>"

definition release_workspace :: "string \<Rightarrow> string \<Rightarrow> pty_world \<Rightarrow> pty_world" where
  "release_workspace ws i w =
     (if pw_byWorkspace w ws = Some i then w\<lparr> pw_byWorkspace := (pw_byWorkspace w)(ws := None) \<rparr> else w)"

definition finish :: "(string \<Rightarrow> string) \<Rightarrow> audit_io \<Rightarrow> uuid \<Rightarrow> timestamp \<Rightarrow> string \<Rightarrow> PtyEvent \<Rightarrow> string
    \<Rightarrow> pty_world \<Rightarrow> pty_world" where
  "finish sha io u now pid ev reason w =
     (case pw_sessions w pid of
        None \<Rightarrow> w
      | Some s \<Rightarrow>
          if ps_ended s \<noteq> None then w
          else
            let w1 = put_session (ended_session now ev s) w;
                w2 = release_workspace (ps_workspaceId s) (ps_ptyId s) w1;
                w3 = notify s ev w2
            in snd (pty_audit sha io u CLOSE_TERMINAL_PTY_TOOL (close_inputs s reason now)
                 (''terminal interactiva: cerrar ('' @ reason @ '')'') w3))"

text \<open>The executor's refusal to close is only logged.\<close>

definition pty_close :: "(string \<Rightarrow> string) \<Rightarrow> audit_io \<Rightarrow> uuid \<Rightarrow> timestamp \<Rightarrow> string \<Rightarrow> string
    \<Rightarrow> pty_world \<Rightarrow> pty_world" where
  "pty_close sha io u now pid reason w =
     (case get_session pid w of
        None \<Rightarrow> w
      | Some s \<Rightarrow> if ps_ended s \<noteq> None then w else finish sha io u now pid (EvExit (-1)) reason w)"

text \<open>The linger timer: an ended session is kept for a while so that the app hears the end.\<close>

definition linger_expires :: "timestamp \<Rightarrow> string \<Rightarrow> pty_world \<Rightarrow> pty_world" where
  "linger_expires now pid w =
     (case pw_sessions w pid of
        Some s \<Rightarrow> (case ps_lingerTimer s of
            Some t \<Rightarrow> if t \<le> now then put_session (s\<lparr> ps_forgotten := True \<rparr>) w else w
          | None \<Rightarrow> w)
      | None \<Rightarrow> w)"

section \<open>Attaching and detaching\<close>

definition replay :: "byte list list \<Rightarrow> PtyEvent list" where
  "replay ring = map (\<lambda>c. EvOut (base64_encode c)) (chunks_of REPLAY_CHUNK_BYTES (concat ring))"

definition attach :: "PtySession \<Rightarrow> nat \<Rightarrow> pty_world \<Rightarrow> pty_world" where
  "attach s listener w =
     hear listener (replay (ps_ring s) @ (case ps_ended s of Some ev \<Rightarrow> [ev] | None \<Rightarrow> []))
       (put_session (s\<lparr> ps_detachTimer := None, ps_listener := Some listener \<rparr>) w)"

definition armDetachTimer :: "timestamp \<Rightarrow> PtySession \<Rightarrow> PtySession" where
  "armDetachTimer now s = s\<lparr> ps_detachTimer := Some (now + ps_keepAliveMs s) \<rparr>"

definition detach :: "timestamp \<Rightarrow> string \<Rightarrow> nat \<Rightarrow> pty_world \<Rightarrow> pty_world" where
  "detach now pid listener w =
     (case get_session pid w of
        None \<Rightarrow> w
      | Some s \<Rightarrow>
          if ps_listener s \<noteq> Some listener then w
          else let s' = s\<lparr> ps_listener := None \<rparr> in
            put_session (if ps_ended s \<noteq> None then s' else armDetachTimer now s') w)"

text \<open>The countdown of a session without app.\<close>

definition detach_fires :: "(string \<Rightarrow> string) \<Rightarrow> audit_io \<Rightarrow> uuid \<Rightarrow> timestamp \<Rightarrow> string \<Rightarrow> pty_world \<Rightarrow> pty_world" where
  "detach_fires sha io u now pid w =
     (case pw_sessions w pid of
        Some s \<Rightarrow> (case ps_detachTimer s of
            Some t \<Rightarrow> if t \<le> now then pty_close sha io u now pid ''sin app conectada'' w else w
          | None \<Rightarrow> w)
      | None \<Rightarrow> w)"

definition setKeepAlive :: "timestamp \<Rightarrow> string \<Rightarrow> int option \<Rightarrow> pty_world \<Rightarrow> pty_world" where
  "setKeepAlive now pid keepAliveMs w =
     (case get_session pid w of
        None \<Rightarrow> w
      | Some s \<Rightarrow>
          if ps_ended s \<noteq> None then w
          else let s' = s\<lparr> ps_keepAliveMs := clampKeepAlive keepAliveMs \<rparr> in
            put_session (if ps_detachTimer s' \<noteq> None then armDetachTimer now s' else s') w)"

definition require :: "string \<Rightarrow> pty_world \<Rightarrow> jin_error + PtySession" where
  "require pid w =
     (case get_session pid w of
        None \<Rightarrow> Inl (TerminalUpstreamError 404 ''La terminal interactiva ya no existe: abre otra.'' None)
      | Some s \<Rightarrow> Inr s)"

text \<open>What the executor answers to \<open>ptyResize\<close> is what the caller gets; an ended session is not resized.\<close>

definition pty_resize :: "string \<Rightarrow> jin_error option \<Rightarrow> pty_world \<Rightarrow> jin_error + unit" where
  "pty_resize pid answer w =
     (case require pid w of
        Inl e \<Rightarrow> Inl e
      | Inr s \<Rightarrow> if ps_ended s \<noteq> None then Inr () else (case answer of Some e \<Rightarrow> Inl e | None \<Rightarrow> Inr ()))"

section \<open>Opening\<close>

datatype open_step = Resumed string | Reserved

text \<open>
  \<open>openOrAttach\<close> up to its first \<open>await\<close>: an open terminal is attached to, another opening in course
  is a conflict, otherwise the workspace is reserved.
\<close>

definition open_begin :: "string \<Rightarrow> nat \<Rightarrow> int option \<Rightarrow> uuid \<Rightarrow> pty_world \<Rightarrow> (jin_error + open_step) \<times> pty_world" where
  "open_begin ws listener keepAliveMs reservation w =
     (let existingId = pw_byWorkspace w ws;
          existing = (case existingId of Some i \<Rightarrow> get_session i w | None \<Rightarrow> None)
      in case existing of
           Some s \<Rightarrow>
             if ps_ended s = None then
               let s' = (case keepAliveMs of Some _ \<Rightarrow> s\<lparr> ps_keepAliveMs := clampKeepAlive keepAliveMs \<rparr> | None \<Rightarrow> s)
               in (Inr (Resumed (ps_ptyId s)), attach s' listener w)
             else (Inr Reserved, w\<lparr> pw_byWorkspace := (pw_byWorkspace w)(ws \<mapsto> reservation),
               pw_opening := (reservation, ws) # pw_opening w \<rparr>)
         | None \<Rightarrow>
             if existingId \<noteq> None then
               (Inl (TerminalUpstreamError 409
                  (''La terminal de este proyecto se est'' @ [CHR 0xC3, CHR 0xA1] @ '' abriendo: espera un momento.'') None), w)
             else (Inr Reserved, w\<lparr> pw_byWorkspace := (pw_byWorkspace w)(ws \<mapsto> reservation),
               pw_opening := (reservation, ws) # pw_opening w \<rparr>))"

definition new_session :: "string \<Rightarrow> string \<Rightarrow> timestamp \<Rightarrow> int option \<Rightarrow> PtySession" where
  "new_session pid ws now keepAliveMs =
     \<lparr> ps_ptyId = pid, ps_workspaceId = ws, ps_startedAt = now, ps_gate = new_gate, ps_aborted = False,
       ps_ring = [], ps_ringBytes = 0, ps_listener = None, ps_keepAliveMs = clampKeepAlive keepAliveMs,
       ps_detachTimer = None, ps_lingerTimer = None, ps_queue = [], ps_ended = None, ps_bytesIn = 0,
       ps_bytesOut = 0, ps_rateWindowStart = now, ps_rateBytes = 0,
       ps_forgotten = False \<rparr>"

definition drop_opening :: "uuid \<Rightarrow> string \<Rightarrow> pty_world \<Rightarrow> pty_world" where
  "drop_opening reservation ws w = w\<lparr> pw_opening := filter (\<lambda>p. p \<noteq> (reservation, ws)) (pw_opening w) \<rparr>"

text \<open>
  The rest of the opening, with what the audit and the executor's \<open>openPty\<close> answered: the session is
  stored and attached, or the reservation is released.
\<close>

definition open_finish :: "string \<Rightarrow> nat \<Rightarrow> int option \<Rightarrow> uuid \<Rightarrow> timestamp \<Rightarrow> jin_error + string \<Rightarrow> pty_world
    \<Rightarrow> (jin_error + string) \<times> pty_world" where
  "open_finish ws listener keepAliveMs reservation now answer w =
     (case answer of
        Inr pid \<Rightarrow>
          let w1 = drop_opening reservation ws w;
              w2 = w1\<lparr> pw_byWorkspace := (pw_byWorkspace w1)(ws \<mapsto> pid), pw_wire := (pw_wire w1)(pid := []) \<rparr>
          in (Inr pid, attach (new_session pid ws now keepAliveMs) listener w2)
      | Inl e \<Rightarrow> (Inl e, release_workspace ws reservation (drop_opening reservation ws w)))"

definition open_inputs :: "string \<Rightarrow> PtySize \<Rightarrow> json" where
  "open_inputs ws sz = JObj [(''workspaceId'', JStr ws), (''cols'', JNum (sz_cols sz)), (''rows'', JNum (sz_rows sz))]"

text \<open>The whole operation: the pty is asked for only after its audit row is written.\<close>

definition openOrAttach :: "(string \<Rightarrow> string) \<Rightarrow> audit_io \<Rightarrow> uuid \<Rightarrow> string \<Rightarrow> PtySize \<Rightarrow> nat \<Rightarrow> int option \<Rightarrow> uuid
    \<Rightarrow> timestamp \<Rightarrow> jin_error + string \<Rightarrow> pty_world \<Rightarrow> (jin_error + (string \<times> bool)) \<times> pty_world" where
  "openOrAttach sha io u ws sz listener keepAliveMs reservation now openPty w =
     (case open_begin ws listener keepAliveMs reservation w of
        (Inl e, w1) \<Rightarrow> (Inl e, w1)
      | (Inr (Resumed pid), w1) \<Rightarrow> (Inr (pid, True), w1)
      | (Inr Reserved, w1) \<Rightarrow>
          (case pty_audit sha io u OPEN_TERMINAL_PTY_TOOL (open_inputs ws sz) ''terminal interactiva: abrir'' w1 of
             (Inl e, w2) \<Rightarrow> (Inl e, snd (open_finish ws listener keepAliveMs reservation now (Inl e) w2))
           | (Inr _, w2) \<Rightarrow>
               (case open_finish ws listener keepAliveMs reservation now openPty w2 of
                  (Inl e, w3) \<Rightarrow> (Inl e, w3)
                | (Inr pid, w3) \<Rightarrow> (Inr (pid, False), w3))))"

section \<open>Input\<close>

definition withinRate :: "timestamp \<Rightarrow> nat \<Rightarrow> PtySession \<Rightarrow> bool \<times> PtySession" where
  "withinRate now bytes s =
     (let s1 = (if 1000 \<le> now - ps_rateWindowStart s then s\<lparr> ps_rateWindowStart := now, ps_rateBytes := 0 \<rparr> else s);
          s2 = s1\<lparr> ps_rateBytes := ps_rateBytes s1 + bytes \<rparr>
      in (ps_rateBytes s2 \<le> MAX_INPUT_BYTES_PER_SECOND, s2))"

text \<open>\<open>input\<close>: the keys join the chain of what is still to be processed.\<close>

definition pty_input :: "timestamp \<Rightarrow> string \<Rightarrow> byte list \<Rightarrow> pty_world \<Rightarrow> (jin_error + unit) \<times> pty_world" where
  "pty_input now pid data w =
     (case require pid w of
        Inl e \<Rightarrow> (Inl e, w)
      | Inr s \<Rightarrow>
          if ps_ended s \<noteq> None then (Inr (), w)
          else (case withinRate now (length data) s of (ok, s1) \<Rightarrow>
            if \<not> ok then (Inr (), notify s1 (EvNotice TxtTooMuchInput) (put_session s1 w))
            else (Inr (), put_session (s1\<lparr> ps_bytesIn := ps_bytesIn s1 + length data,
                   ps_queue := ps_queue s1 @ [data] \<rparr>) w)))"

text \<open>The answers of the outside world to the steps of one input: the audit's and the executor's.\<close>

record step_io =
  si_uuid :: uuid
  si_audit :: audit_io
  si_sent :: "jin_error option"

text \<open>
  The loop of \<open>process\<close>: a line is audited, then its bytes are sent; the first failure of either
  leaves the loop.
\<close>

fun process_steps :: "(string \<Rightarrow> string) \<Rightarrow> (nat \<Rightarrow> step_io) \<Rightarrow> nat \<Rightarrow> string \<Rightarrow> string \<Rightarrow> PtyInputStep list
    \<Rightarrow> pty_world \<Rightarrow> (jin_error + unit) \<times> pty_world" where
  "process_steps sha io i ws pid [] w = (Inr (), w)"
| "process_steps sha io i ws pid (st # sts) w =
     bind_result
       (case st_line st of
          Some line \<Rightarrow> bind_result
            (pty_audit sha (si_audit (io i)) (si_uuid (io i)) RUN_TERMINAL_COMMAND_TOOL (line_inputs ws line)
              (line_summary line) w)
            (\<lambda>_ w. (Inr (), to_wire pid [Audited line] w))
        | None \<Rightarrow> (Inr (), w))
       (\<lambda>_ w. case si_sent (io i) of
          Some e \<Rightarrow> (Inl e, to_wire pid [Typed (st_bytes st)] w)
        | None \<Rightarrow> process_steps sha io (Suc i) ws pid sts (to_wire pid [Typed (st_bytes st)] w))"

text \<open>\<open>feed\<close> runs over the whole input before the first step is processed.\<close>

definition pty_process :: "(string \<Rightarrow> string) \<Rightarrow> (nat \<Rightarrow> step_io) \<Rightarrow> PtySession \<Rightarrow> byte list \<Rightarrow> pty_world
    \<Rightarrow> (jin_error + unit) \<times> pty_world" where
  "pty_process sha io s data w =
     (case feed data (ps_gate s) of (steps, g) \<Rightarrow>
        process_steps sha io 0 (ps_workspaceId s) (ps_ptyId s) steps (put_session (s\<lparr> ps_gate := g \<rparr>) w))"

text \<open>
  The gate forgets the line, the shell gets Ctrl+C (its failure is ignored), the app a notice.
\<close>

definition onInputFailure :: "PtySession \<Rightarrow> pty_world \<Rightarrow> pty_world" where
  "onInputFailure s w =
     notify s (EvNotice TxtLineNotAudited)
       (to_wire (ps_ptyId s) [Cancelled] (put_session (s\<lparr> ps_gate := gate_reset (ps_gate s) \<rparr>) w))"

text \<open>One link of the chain: the oldest input is processed, its failure handled.\<close>

definition pty_drain :: "(string \<Rightarrow> string) \<Rightarrow> (nat \<Rightarrow> step_io) \<Rightarrow> string \<Rightarrow> pty_world \<Rightarrow> pty_world" where
  "pty_drain sha io pid w =
     (case pw_sessions w pid of
        None \<Rightarrow> w
      | Some s \<Rightarrow> (case ps_queue s of
            [] \<Rightarrow> w
          | data # rest \<Rightarrow>
              let s1 = s\<lparr> ps_queue := rest \<rparr> in
              (case pty_process sha io s1 data w of
                 (Inr _, w') \<Rightarrow> w'
               | (Inl _, w') \<Rightarrow> (case pw_sessions w' pid of
                     Some s' \<Rightarrow> onInputFailure s' w'
                   | None \<Rightarrow> w'))))"

section \<open>Output\<close>

text \<open>The recent output: whole pieces are dropped from the front while there is too much.\<close>

fun trim_ring :: "byte list list \<Rightarrow> nat \<Rightarrow> byte list list \<times> nat" where
  "trim_ring (x # y # r) n =
     (if PTY_RING_BYTES < n then trim_ring (y # r) (n - length x) else (x # y # r, n))"
| "trim_ring r n = (r, n)"

definition remember :: "byte list \<Rightarrow> PtySession \<Rightarrow> PtySession" where
  "remember bytes s =
     (case trim_ring (ps_ring s @ [bytes]) (ps_ringBytes s + length bytes) of (ring, n) \<Rightarrow>
        s\<lparr> ps_ring := ring, ps_ringBytes := n \<rparr>)"

text \<open>A property of a parsed value: \<open>undefined\<close> unless it is an object that has it.\<close>

fun json_prop :: "string \<Rightarrow> json \<Rightarrow> json option" where
  "json_prop k (JObj kvs) = map_of kvs k"
| "json_prop k _ = None"

text \<open>An output line: its bytes are remembered and passed on, or keep a session without app alive.\<close>

definition out_data :: "json \<Rightarrow> string option" where
  "out_data ev =
     (if json_prop ''t'' ev = Some (JStr ''out'')
      then (case json_prop ''d'' ev of Some (JStr d) \<Rightarrow> Some d | _ \<Rightarrow> None) else None)"

definition take_output :: "timestamp \<Rightarrow> PtySession \<Rightarrow> string \<Rightarrow> pty_world \<Rightarrow> pty_world" where
  "take_output now s data w =
     (let bytes = base64_decode data;
          s1 = remember bytes (s\<lparr> ps_bytesOut := ps_bytesOut s + length bytes \<rparr>)
      in case ps_listener s1 of
           Some l \<Rightarrow> hear l [EvOut data] (put_session s1 w)
         | None \<Rightarrow> put_session (if ps_detachTimer s1 \<noteq> None then armDetachTimer now s1 else s1) w)"

text \<open>
  \<open>handleLine\<close>: what a line of the stream does, and whether the session ended with it. The line
  \<open>null\<close> has no properties to read and throws.
\<close>

definition handleLine :: "(string \<Rightarrow> string) \<Rightarrow> audit_io \<Rightarrow> uuid \<Rightarrow> timestamp \<Rightarrow> string \<Rightarrow> string \<Rightarrow> pty_world
    \<Rightarrow> (jin_error + bool) \<times> pty_world" where
  "handleLine sha io u now pid raw w =
     (case (JSON_parse raw, pw_sessions w pid) of
        (Some ev, Some s) \<Rightarrow>
          if ev = JNull then (Inl (OtherError ''TypeError''), w)
          else (case out_data ev of
              Some data \<Rightarrow> (Inr False, take_output now s data w)
            | None \<Rightarrow>
                if json_prop ''t'' ev = Some (JStr ''exit'') then
                  (Inr True, finish sha io u now pid
                     (EvExit (case json_prop ''code'' ev of Some (JNum c) \<Rightarrow> c | _ \<Rightarrow> -1))
                     (''el shell termin'' @ [CHR 0xC3, CHR 0xB3]) w)
                else if json_prop ''t'' ev = Some (JStr ''error'') then
                  (Inr True, finish sha io u now pid
                     (EvError (case json_prop ''message'' ev of Some m \<Rightarrow> if m = JNull then TxtFailed else TxtGiven m
                        | None \<Rightarrow> TxtFailed))
                     ''error de la terminal'' w)
                else (Inr False, w))
      | _ \<Rightarrow> (Inr False, w))"

lemma rest_shorter: "x \<in> set xs \<Longrightarrow> length (dropWhile p xs) - Suc 0 < length xs"
  using length_dropWhile_le [of p xs] by (cases xs) (auto simp: le_imp_less_Suc length_dropWhile_le)

text \<open>\<open>readStream\<close>: the complete lines of what has been read; the rest waits for the next piece.\<close>

function read_lines :: "(string \<Rightarrow> string) \<Rightarrow> audit_io \<Rightarrow> uuid \<Rightarrow> timestamp \<Rightarrow> string \<Rightarrow> string \<Rightarrow> pty_world
    \<Rightarrow> ((jin_error + bool) \<times> pty_world) \<times> string" where
  "read_lines sha io u now pid pending w =
     (if CHR 0x0A \<notin> set pending then ((Inr False, w), pending)
      else
        let raw = js_trim (takeWhile (\<lambda>c. c \<noteq> CHR 0x0A) pending);
            rest = drop 1 (dropWhile (\<lambda>c. c \<noteq> CHR 0x0A) pending)
        in if raw = [] then read_lines sha io u now pid rest w
           else (case handleLine sha io u now pid raw w of
               (Inl e, w') \<Rightarrow> ((Inl e, w'), rest)
             | (Inr True, w') \<Rightarrow> ((Inr True, w'), rest)
             | (Inr False, w') \<Rightarrow> read_lines sha io u now pid rest w'))"
  by pat_completeness auto
termination
by (relation "measure (\<lambda>(sha, io, u, now, pid, pending, w). length pending)")
  (auto simp: rest_shorter)

declare read_lines.simps [simp del]

fun readStream :: "(string \<Rightarrow> string) \<Rightarrow> audit_io \<Rightarrow> uuid \<Rightarrow> timestamp \<Rightarrow> string \<Rightarrow> string list \<Rightarrow> string \<Rightarrow> pty_world
    \<Rightarrow> (jin_error + unit) \<times> pty_world" where
  "readStream sha io u now pid [] pending w = (Inr (), w)"
| "readStream sha io u now pid (piece # pieces) pending w =
     (case read_lines sha io u now pid (pending @ piece) w of
        ((Inl e, w'), _) \<Rightarrow> (Inl e, w')
      | ((Inr True, w'), _) \<Rightarrow> (Inr (), w')
      | ((Inr False, w'), pending') \<Rightarrow> readStream sha io u now pid pieces pending' w')"

text \<open>
  \<open>pump\<close> over the attempts to read the output, each a refusal of the executor or a stream given by
  its pieces of text: it reads again after a stream that just stops, gives up on a terminal that is
  gone or after too many failures in a row, and stops when the session has ended.
\<close>

datatype attempt = Refused jin_error | Streamed "string list"

definition pump_failure :: "(string \<Rightarrow> string) \<Rightarrow> audit_io \<Rightarrow> uuid \<Rightarrow> timestamp \<Rightarrow> string \<Rightarrow> nat \<Rightarrow> jin_error \<Rightarrow> pty_world
    \<Rightarrow> nat option \<times> pty_world" where
  "pump_failure sha io u now pid failures e w =
     (case pw_sessions w pid of
        None \<Rightarrow> (None, w)
      | Some s \<Rightarrow>
          if ps_aborted s \<or> ps_ended s \<noteq> None then (None, w)
          else if (case e of TerminalUpstreamError st m c \<Rightarrow> terminal_status st c = 404 | _ \<Rightarrow> False) then
            (None, finish sha io u now pid (EvError TxtGone)
               (''ya no exist'' @ [CHR 0xC3, CHR 0xAD] @ ''a en el Executor'') w)
          else if PUMP_MAX_RETRIES < Suc failures then
            (None, finish sha io u now pid (EvError TxtConnectionLost)
               (''conexi'' @ [CHR 0xC3, CHR 0xB3] @ ''n perdida'') w)
          else (Some (Suc failures), w))"

fun pump :: "(string \<Rightarrow> string) \<Rightarrow> audit_io \<Rightarrow> uuid \<Rightarrow> timestamp \<Rightarrow> string \<Rightarrow> nat \<Rightarrow> attempt list \<Rightarrow> pty_world \<Rightarrow> pty_world" where
  "pump sha io u now pid failures [] w = w"
| "pump sha io u now pid failures (a # as) w =
     (case pw_sessions w pid of
        None \<Rightarrow> w
      | Some s \<Rightarrow>
          if ps_ended s \<noteq> None \<or> ps_aborted s then w
          else
            (case (case a of
                Refused e \<Rightarrow> pump_failure sha io u now pid failures e w
              | Streamed pieces \<Rightarrow> (case readStream sha io u now pid pieces [] w of
                    (Inr _, w') \<Rightarrow> (Some 0, w')
                  | (Inl e, w') \<Rightarrow> pump_failure sha io u now pid 0 e w'))
             of (None, w') \<Rightarrow> w'
              | (Some n, w') \<Rightarrow> pump sha io u now pid n as w'))"

section \<open>What each operation leaves alone\<close>

lemma appendRow_pty [simp]:
  fixes w :: pty_world
  shows "pw_sessions (snd (appendRow sha io d w)) = pw_sessions w"
    "pw_byWorkspace (snd (appendRow sha io d w)) = pw_byWorkspace w"
    "pw_opening (snd (appendRow sha io d w)) = pw_opening w"
    "pw_heard (snd (appendRow sha io d w)) = pw_heard w"
    "pw_wire (snd (appendRow sha io d w)) = pw_wire w"
  by (auto simp: appendRow_def Let_def split: option.splits)

lemma snd_pty_audit: "snd (pty_audit sha io u t inp plan w) =
    snd (appendRow sha io (toolCallData u TERMINAL_ACTOR t (computeInputsHash sha (Some inp)) (Some plan) ''auto'' None) w)"
  by (simp add: pty_audit_def recordToolCall_def split: prod.splits sum.splits)

lemma pty_audit_pty [simp]:
  fixes w :: pty_world
  shows "pw_sessions (snd (pty_audit sha io u t inp plan w)) = pw_sessions w"
    "pw_byWorkspace (snd (pty_audit sha io u t inp plan w)) = pw_byWorkspace w"
    "pw_opening (snd (pty_audit sha io u t inp plan w)) = pw_opening w"
    "pw_heard (snd (pty_audit sha io u t inp plan w)) = pw_heard w"
    "pw_wire (snd (pty_audit sha io u t inp plan w)) = pw_wire w"
  by (simp_all add: snd_pty_audit del: data_defs)

lemma pty_audit_eqD:
  fixes w y :: pty_world
  assumes "pty_audit sha io u t inp plan w = (x, y)"
  shows "pw_sessions y = pw_sessions w" "pw_byWorkspace y = pw_byWorkspace w"
    "pw_opening y = pw_opening w" "pw_heard y = pw_heard w" "pw_wire y = pw_wire w"
  using pty_audit_pty [of sha io u t inp plan w] assms by simp_all

lemma hear_simps [simp]:
  "pw_sessions (hear l es w) = pw_sessions w" "pw_byWorkspace (hear l es w) = pw_byWorkspace w"
  "pw_opening (hear l es w) = pw_opening w" "pw_wire (hear l es w) = pw_wire w"
  "pw_heard (hear l es w) = pw_heard w @ map (Pair l) es"
  by (simp_all add: hear_def)

lemma notify_simps [simp]:
  "pw_sessions (notify s ev w) = pw_sessions w" "pw_byWorkspace (notify s ev w) = pw_byWorkspace w"
  "pw_opening (notify s ev w) = pw_opening w" "pw_wire (notify s ev w) = pw_wire w"
  by (simp_all add: notify_def split: option.splits)

lemma put_session_simps [simp]:
  "pw_sessions (put_session s w) = (pw_sessions w)(ps_ptyId s \<mapsto> s)"
  "pw_byWorkspace (put_session s w) = pw_byWorkspace w"
  "pw_opening (put_session s w) = pw_opening w" "pw_wire (put_session s w) = pw_wire w"
  "pw_heard (put_session s w) = pw_heard w"
  by (simp_all add: put_session_def)

lemma to_wire_simps [simp]:
  "pw_sessions (to_wire pid es w) = pw_sessions w" "pw_byWorkspace (to_wire pid es w) = pw_byWorkspace w"
  "pw_opening (to_wire pid es w) = pw_opening w" "pw_heard (to_wire pid es w) = pw_heard w"
  "pw_wire (to_wire pid es w) = (pw_wire w)(pid := pw_wire w pid @ es)"
  by (simp_all add: to_wire_def)

lemma get_session_Some [simp]: "get_session pid w = Some s \<longleftrightarrow> pw_sessions w pid = Some s \<and> \<not> ps_forgotten s"
  by (auto simp: get_session_def split: option.splits)

section \<open>An audit before every line\<close>

text \<open>
  The reading of a wire: the bytes are read again by a gate as new, a line may only be closed by the
  piece that follows its own audit, and a piece without audit closes none. \<open>Cancelled\<close> starts afresh.
\<close>

fun watch :: "PtyInputGate \<Rightarrow> pty_effect list \<Rightarrow> PtyInputGate" where
  "watch g [] = g"
| "watch g (Audited l # es) = watch g es"
| "watch g (Typed bs # es) = watch (snd (feed bs g)) es"
| "watch g (Cancelled # es) = watch new_gate es"

fun guarded :: "PtyInputGate \<Rightarrow> codepoints option \<Rightarrow> pty_effect list \<Rightarrow> bool" where
  "guarded g due [] = (due = None)"
| "guarded g due (Audited l # es) = (due = None \<and> guarded g (Some l) es)"
| "guarded g due (Typed bs # es) =
     (fst (feed bs g) = [\<lparr> st_bytes = bs, st_line = due \<rparr>] \<and> guarded (snd (feed bs g)) None es)"
| "guarded g due (Cancelled # es) = (due = None \<and> guarded new_gate None es)"

lemma watch_append [simp]: "watch g (xs @ ys) = watch (watch g xs) ys"
  by (induction g xs rule: watch.induct) simp_all

lemma guarded_append:
  "guarded g due xs \<Longrightarrow> guarded (watch g xs) None ys \<Longrightarrow> guarded g due (xs @ ys)"
  by (induction g due xs rule: guarded.induct) auto

lemma feed_from_split:
  assumes "feed_from seg data g = (s # ss, g')"
  shows "\<exists>d1 d2 g1. data = d1 @ d2 \<and> st_bytes s = seg @ d1 \<and> feed_from seg d1 g = ([s], g1) \<and> feed d2 g1 = (ss, g')"
  using assms
proof (induction seg data g arbitrary: s ss g' rule: feed_from.induct)
  case (1 seg g)
  then show ?case by (intro exI [of _ "[]"] exI [of _ g]) (auto simp: feed_def split: if_splits)
next
  case (2 seg b bs g)
  consider "ig_escape g \<noteq> EscNone" | "ig_escape g = EscNone" "b = ESC"
    | "ig_escape g = EscNone" "b \<noteq> ESC" "b = CR \<or> b = LF"
    | "ig_escape g = EscNone" "b \<noteq> ESC" "\<not> (b = CR \<or> b = LF)" by blast
  then show ?case
  proof cases
    case c: 1
    have f: "feed_from (seg @ [b]) bs (consumeEscape b g) = (s # ss, g')" using 2(5) c by simp
    from 2(1) [OF c f] obtain d1 d2 g1 where "bs = d1 @ d2" "st_bytes s = (seg @ [b]) @ d1"
      "feed_from (seg @ [b]) d1 (consumeEscape b g) = ([s], g1)" "feed d2 g1 = (ss, g')" by blast
    with c show ?thesis by (intro exI [of _ "b # d1"] exI [of _ d2] exI [of _ g1]) simp
  next
    case c: 2
    have f: "feed_from (seg @ [b]) bs (g\<lparr> ig_escape := EscEsc \<rparr>) = (s # ss, g')" using 2(5) c by simp
    from 2(2) [OF _ c(2) f] c(1) obtain d1 d2 g1 where "bs = d1 @ d2" "st_bytes s = (seg @ [b]) @ d1"
      "feed_from (seg @ [b]) d1 (g\<lparr> ig_escape := EscEsc \<rparr>) = ([s], g1)" "feed d2 g1 = (ss, g')" by blast
    with c show ?thesis by (intro exI [of _ "b # d1"] exI [of _ d2] exI [of _ g1]) simp
  next
    case c: 3
    obtain line g1 where t: "takeLine g = (line, g1)" by force
    obtain ss' g2 where r: "feed_from [] bs g1 = (ss', g2)" by force
    have "s = \<lparr> st_bytes = seg @ [b], st_line = line \<rparr>" "ss = ss'" "g' = g2"
      using 2(5) c t r by simp_all
    moreover have "feed_from seg [b] g = ([\<lparr> st_bytes = seg @ [b], st_line = line \<rparr>], g1)"
      using c t by simp
    ultimately show ?thesis using r
      by (intro exI [of _ "[b]"] exI [of _ bs] exI [of _ g1]) (simp add: feed_def del: feed_from.simps)
  next
    case c: 4
    have f: "feed_from (seg @ [b]) bs (applyKey b g) = (s # ss, g')" using 2(5) c by simp
    from 2(4) [OF _ c(2,3) f] c(1) obtain d1 d2 g1 where "bs = d1 @ d2" "st_bytes s = (seg @ [b]) @ d1"
      "feed_from (seg @ [b]) d1 (applyKey b g) = ([s], g1)" "feed d2 g1 = (ss, g')" by blast
    with c show ?thesis by (intro exI [of _ "b # d1"] exI [of _ d2] exI [of _ g1]) simp
  qed
qed

text \<open>A step fed again from where the gate stood gives that step, and the rest follows from there.\<close>

lemma feed_step:
  assumes "feed data g = (s # ss, g')"
  obtains g1 d2 where "feed (st_bytes s) g = ([s], g1)" "feed d2 g1 = (ss, g')"
  using feed_from_split [of "[]" data g s ss g'] assms by (auto simp: feed_def)

lemma process_steps_pty:
  fixes w :: pty_world
  assumes "process_steps sha io i ws pid steps w = (r, w')"
  shows "pw_sessions w' = pw_sessions w \<and> pw_byWorkspace w' = pw_byWorkspace w
    \<and> pw_opening w' = pw_opening w \<and> (\<forall>q. q \<noteq> pid \<longrightarrow> pw_wire w' q = pw_wire w q)"
  using assms
proof (induction steps arbitrary: i w)
  case (Cons st sts)
  obtain r1 w1 where a: "(case st_line st of
      Some line \<Rightarrow> bind_result (pty_audit sha (si_audit (io i)) (si_uuid (io i)) RUN_TERMINAL_COMMAND_TOOL
        (line_inputs ws line) (line_summary line) w) (\<lambda>_ w. (Inr (), to_wire pid [Audited line] w))
    | None \<Rightarrow> (Inr (), w)) = (r1, w1)" by force
  have w1: "pw_sessions w1 = pw_sessions w \<and> pw_byWorkspace w1 = pw_byWorkspace w
    \<and> pw_opening w1 = pw_opening w \<and> (\<forall>q. q \<noteq> pid \<longrightarrow> pw_wire w1 q = pw_wire w q)"
  proof (cases "st_line st")
    case None
    then show ?thesis using a by simp
  next
    case (Some line)
    let ?p = "pty_audit sha (si_audit (io i)) (si_uuid (io i)) RUN_TERMINAL_COMMAND_TOOL (line_inputs ws line)
      (line_summary line) w"
    obtain x y where p: "?p = (x, y)" by force
    then show ?thesis using a Some pty_audit_eqD [OF p] by (cases x) auto
  qed
  show ?case
  proof (cases r1)
    case (Inl e)
    then show ?thesis using a w1 Cons.prems by simp
  next
    case (Inr u)
    show ?thesis
    proof (cases "si_sent (io i)")
      case None
      have "process_steps sha io (Suc i) ws pid sts (to_wire pid [Typed (st_bytes st)] w1) = (r, w')"
        using Cons.prems a Inr None by simp
      from Cons.IH [OF this] w1 show ?thesis by simp
    next
      case (Some e)
      then show ?thesis using Cons.prems a Inr w1 by auto
    qed
  qed
qed simp

text \<open>The lines a wire says were audited, and the row each of them has in the log.\<close>

fun audited :: "pty_effect list \<Rightarrow> codepoints list" where
  "audited [] = []"
| "audited (Audited l # es) = l # audited es"
| "audited (_ # es) = audited es"

lemma audited_append [simp]: "audited (xs @ ys) = audited xs @ audited ys"
  by (induction xs rule: audited.induct) simp_all

definition line_row :: "(string \<Rightarrow> string) \<Rightarrow> string \<Rightarrow> codepoints \<Rightarrow> AuditLogRow \<Rightarrow> bool" where
  "line_row sha ws line row \<longleftrightarrow>
     a_actor row = TERMINAL_ACTOR \<and> a_toolName row = Some RUN_TERMINAL_COMMAND_TOOL
     \<and> a_inputsHash row = computeInputsHash sha (Some (line_inputs ws line))
     \<and> a_planSummary row = Some (line_summary line) \<and> a_approvalStatus row = ''auto''"

lemma line_audit_row:
  fixes w y :: pty_world
  assumes "pty_audit sha io u RUN_TERMINAL_COMMAND_TOOL (line_inputs ws line) (line_summary line) w = (x, y)"
  shows "case x of Inr _ \<Rightarrow> \<exists>row. audit_log y = audit_log w @ [row] \<and> line_row sha ws line row
    | Inl _ \<Rightarrow> audit_log y = audit_log w"
  using assms
  by (auto simp: pty_audit_def recordToolCall_def appendRow_def Let_def line_row_def mk_row_def
      split: if_splits option.splits)

lemma process_steps_wire:
  fixes w :: pty_world
  assumes "feed data g = (steps, g')" "process_steps sha io i ws pid steps w = (r, w')"
  shows "\<exists>es rows. pw_wire w' pid = pw_wire w pid @ es \<and> guarded g None es \<and> (isl r \<or> watch g es = g')
    \<and> audit_log w' = audit_log w @ rows \<and> list_all2 (line_row sha ws) (audited es) rows
    \<and> (\<not> isl r \<longrightarrow> concat (map st_bytes steps) = concat (map (\<lambda>e. case e of Typed bs \<Rightarrow> bs | _ \<Rightarrow> []) es))"
  using assms
proof (induction steps arbitrary: i w data g)
  case Nil
  then have "data = []" using feed_from_bytes [of "[]" data g] by (simp add: feed_def)
  then have "g' = g" using Nil by (simp add: feed_def)
  then show ?case using Nil by (intro exI [of _ "[]"]) simp
next
  case (Cons st sts)
  from Cons.prems(1) obtain g1 d2 where f: "feed (st_bytes st) g = ([st], g1)" "feed d2 g1 = (sts, g')"
    by (rule feed_step)
  let ?step = "case st_line st of
      Some line \<Rightarrow> bind_result (pty_audit sha (si_audit (io i)) (si_uuid (io i)) RUN_TERMINAL_COMMAND_TOOL
        (line_inputs ws line) (line_summary line) w) (\<lambda>_ w. (Inr (), to_wire pid [Audited line] w))
    | None \<Rightarrow> (Inr (), w)"
  obtain r1 w1 where a: "?step = (r1, w1)" by force
  have w1: "\<exists>rows. (if isl r1 then pw_wire w1 pid = pw_wire w pid \<and> audit_log w1 = audit_log w
      else pw_wire w1 pid = pw_wire w pid @ (case st_line st of Some l \<Rightarrow> [Audited l] | None \<Rightarrow> [])
        \<and> audit_log w1 = audit_log w @ rows
        \<and> list_all2 (line_row sha ws) (case st_line st of Some l \<Rightarrow> [l] | None \<Rightarrow> []) rows)"
  proof (cases "st_line st")
    case None
    then show ?thesis using a by auto
  next
    case (Some line)
    obtain x y where p: "pty_audit sha (si_audit (io i)) (si_uuid (io i)) RUN_TERMINAL_COMMAND_TOOL
        (line_inputs ws line) (line_summary line) w = (x, y)" by force
    from a Some have b: "bind_result (x, y) (\<lambda>_ w. (Inr (), to_wire pid [Audited line] w)) = (r1, w1)"
      by (simp only: p option.case)
    show ?thesis
    proof (cases x)
      case (Inl e)
      then show ?thesis using b line_audit_row [OF p] pty_audit_eqD [OF p] by auto
    next
      case (Inr v)
      with line_audit_row [OF p] obtain row where "audit_log y = audit_log w @ [row]" "line_row sha ws line row"
        by auto
      then show ?thesis
        using b Inr Some pty_audit_eqD [OF p] by (intro exI [of _ "[row]"]) (auto simp: to_wire_def)
    qed
  qed
  have run: "process_steps sha io i ws pid (st # sts) w = bind_result (r1, w1) (\<lambda>_ w. case si_sent (io i) of
      Some e \<Rightarrow> (Inl e, to_wire pid [Typed (st_bytes st)] w)
    | None \<Rightarrow> process_steps sha io (Suc i) ws pid sts (to_wire pid [Typed (st_bytes st)] w))"
    by (simp only: process_steps.simps a)
  let ?au = "case st_line st of Some l \<Rightarrow> [Audited l] | None \<Rightarrow> []"
  have au: "guarded g None (?au @ Typed (st_bytes st) # es) = guarded g1 None es"
    "watch g (?au @ Typed (st_bytes st) # es) = watch g1 es"
    "audited (?au @ Typed (st_bytes st) # es) = (case st_line st of Some l \<Rightarrow> [l] | None \<Rightarrow> []) @ audited es"
    "concat (map (\<lambda>e. case e of Typed bs \<Rightarrow> bs | _ \<Rightarrow> []) (?au @ Typed (st_bytes st) # es))
      = st_bytes st @ concat (map (\<lambda>e. case e of Typed bs \<Rightarrow> bs | _ \<Rightarrow> []) es)" for es
    using f(1) by (cases st; auto split: option.splits)+
  show ?case
  proof (cases r1)
    case (Inl e)
    with w1 run Cons.prems(2) have "r = Inl e" "w' = w1" "pw_wire w1 pid = pw_wire w pid" "audit_log w1 = audit_log w"
      by auto
    then show ?thesis by (intro exI [of _ "[]"]) simp
  next
    case (Inr v)
    from w1 Inr obtain rows where rows: "pw_wire w1 pid = pw_wire w pid @ ?au" "audit_log w1 = audit_log w @ rows"
      "list_all2 (line_row sha ws) (case st_line st of Some l \<Rightarrow> [l] | None \<Rightarrow> []) rows" by auto
    let ?w2 = "to_wire pid [Typed (st_bytes st)] w1"
    have w2: "pw_wire ?w2 pid = pw_wire w pid @ ?au @ [Typed (st_bytes st)]" "audit_log ?w2 = audit_log w @ rows"
      using rows by (simp_all add: to_wire_def)
    show ?thesis
    proof (cases "si_sent (io i)")
      case (Some e)
      then have "r = Inl e" "w' = ?w2" using run Inr Cons.prems(2) by auto
      then show ?thesis
        using w2 rows au [of "[]"] by (intro exI [of _ "?au @ [Typed (st_bytes st)]"] exI [of _ rows]) simp
    next
      case None
      then have "process_steps sha io (Suc i) ws pid sts ?w2 = (r, w')" using run Inr Cons.prems(2) by simp
      from Cons.IH [OF f(2) this] obtain es rows2 where
        es: "pw_wire w' pid = pw_wire ?w2 pid @ es" "guarded g1 None es" "isl r \<or> watch g1 es = g'"
          "audit_log w' = audit_log ?w2 @ rows2" "list_all2 (line_row sha ws) (audited es) rows2"
          "\<not> isl r \<longrightarrow> concat (map st_bytes sts) = concat (map (\<lambda>e. case e of Typed bs \<Rightarrow> bs | _ \<Rightarrow> []) es)"
        by blast
      then show ?thesis
        using w2 rows(3) au [of es]
        by (intro exI [of _ "?au @ Typed (st_bytes st) # es"] exI [of _ "rows @ rows2"])
          (simp add: list_all2_appendI)
    qed
  qed
qed

section \<open>The service as a step relation\<close>

text \<open>
  One step is what the service does between two awaits. The ids drawn by \<open>randomUUID\<close> and by the
  executor are fresh; every other argument, the answers of the outside world included, is free.
\<close>

definition fresh_id :: "string \<Rightarrow> pty_world \<Rightarrow> bool" where
  "fresh_id i w \<longleftrightarrow> pw_sessions w i = None \<and> i \<notin> fst ` set (pw_opening w)"

inductive pty_step :: "(string \<Rightarrow> string) \<Rightarrow> pty_world \<Rightarrow> pty_world \<Rightarrow> bool" for sha where
  begin_open: "fresh_id r w \<Longrightarrow> pty_step sha w (snd (open_begin ws l ka r w))"
| audit_open: "pty_step sha w (snd (pty_audit sha io u t inputs plan w))"
| finish_open: "(r, ws) \<in> set (pw_opening w) \<Longrightarrow> (\<And>pid. answer = Inr pid \<Longrightarrow> fresh_id pid w)
    \<Longrightarrow> pty_step sha w (snd (open_finish ws l ka r now answer w))"
| keys: "pty_step sha w (snd (pty_input now pid data w))"
| link: "pty_step sha w (pty_drain sha ios pid w)"
| detached: "pty_step sha w (detach now pid l w)"
| keep_alive: "pty_step sha w (setKeepAlive now pid ka w)"
| countdown: "pty_step sha w (detach_fires sha io u now pid w)"
| closed: "pty_step sha w (pty_close sha io u now pid reason w)"
| forgotten: "pty_step sha w (linger_expires now pid w)"
| out_line: "pty_step sha w (snd (handleLine sha io u now pid raw w))"
| lost: "pty_step sha w (snd (pump_failure sha io u now pid n e w))"

definition empty_world :: "pty_world \<Rightarrow> bool" where
  "empty_world w \<longleftrightarrow> pw_sessions w = Map.empty \<and> pw_byWorkspace w = Map.empty \<and> pw_opening w = []"

definition live :: "PtySession \<Rightarrow> bool" where
  "live s \<longleftrightarrow> ps_ended s = None"

definition session_ok :: "pty_world \<Rightarrow> string \<Rightarrow> PtySession \<Rightarrow> bool" where
  "session_ok w pid s \<longleftrightarrow>
     ps_ptyId s = pid \<and> guarded new_gate None (pw_wire w pid) \<and> watch new_gate (pw_wire w pid) = ps_gate s
     \<and> (live s \<longrightarrow> pw_byWorkspace w (ps_workspaceId s) = Some pid \<and> \<not> ps_forgotten s \<and> ps_lingerTimer s = None)"

definition pty_inv :: "pty_world \<Rightarrow> bool" where
  "pty_inv w \<longleftrightarrow>
     (\<forall>pid s. pw_sessions w pid = Some s \<longrightarrow> session_ok w pid s)
     \<and> (\<forall>(r, ws) \<in> set (pw_opening w). pw_byWorkspace w ws = Some r \<and> pw_sessions w r = None)
     \<and> (\<forall>ws i. pw_byWorkspace w ws = Some i \<longrightarrow>
          (i, ws) \<in> set (pw_opening w)
          \<or> (\<exists>s. pw_sessions w i = Some s \<and> ps_workspaceId s = ws \<and> live s))"

lemma pty_invD:
  assumes "pty_inv w"
  shows "pw_sessions w pid = Some s \<Longrightarrow> session_ok w pid s"
    "(r, ws) \<in> set (pw_opening w) \<Longrightarrow> pw_byWorkspace w ws = Some r \<and> pw_sessions w r = None"
    "pw_byWorkspace w ws = Some i \<Longrightarrow> (i, ws) \<in> set (pw_opening w)
      \<or> (\<exists>s. pw_sessions w i = Some s \<and> ps_workspaceId s = ws \<and> live s)"
  using assms by (auto simp: pty_inv_def)

lemma pty_invI:
  assumes "\<And>pid s. pw_sessions w pid = Some s \<Longrightarrow> session_ok w pid s"
    "\<And>r ws. (r, ws) \<in> set (pw_opening w) \<Longrightarrow> pw_byWorkspace w ws = Some r \<and> pw_sessions w r = None"
    "\<And>ws i. pw_byWorkspace w ws = Some i \<Longrightarrow> (i, ws) \<in> set (pw_opening w)
      \<or> (\<exists>s. pw_sessions w i = Some s \<and> ps_workspaceId s = ws \<and> live s)"
  shows "pty_inv w"
  unfolding pty_inv_def using assms by auto

lemma pty_inv_same:
  assumes "pty_inv w" "pw_sessions w' = pw_sessions w" "pw_byWorkspace w' = pw_byWorkspace w"
    "pw_opening w' = pw_opening w" "pw_wire w' = pw_wire w"
  shows "pty_inv w'"
  using assms by (simp add: pty_inv_def session_ok_def)

lemma pty_inv_frame [intro]:
  "pty_inv w \<Longrightarrow> pty_inv (hear l es w)" "pty_inv w \<Longrightarrow> pty_inv (notify s ev w)"
  "pty_inv w \<Longrightarrow> pty_inv (snd (pty_audit sha io u t inp plan w))"
  by (erule pty_inv_same; simp)+

text \<open>A change of a session that keeps its identity, its gate and how it stands keeps the invariant.\<close>

definition same_core :: "PtySession \<Rightarrow> PtySession \<Rightarrow> bool" where
  "same_core s s' \<longleftrightarrow> ps_ptyId s' = ps_ptyId s \<and> ps_workspaceId s' = ps_workspaceId s \<and> ps_gate s' = ps_gate s
     \<and> ps_ended s' = ps_ended s \<and> (live s \<longrightarrow> ps_forgotten s' = ps_forgotten s \<and> ps_lingerTimer s' = ps_lingerTimer s)"

lemma pty_inv_update:
  assumes inv: "pty_inv w" and s: "pw_sessions w pid = Some s"
    and w': "pw_sessions w' = (pw_sessions w)(pid \<mapsto> s')" "pw_byWorkspace w' = pw_byWorkspace w"
      "pw_opening w' = pw_opening w" "\<And>q. q \<noteq> pid \<Longrightarrow> pw_wire w' q = pw_wire w q"
    and s': "session_ok w' pid s'" "live s' = live s" "ps_workspaceId s' = ps_workspaceId s"
  shows "pty_inv w'"
  unfolding pty_inv_def w'(1-3)
proof (intro conjI allI impI ballI)
  fix q t assume t: "((pw_sessions w)(pid \<mapsto> s')) q = Some t"
  show "session_ok w' q t"
  proof (cases "q = pid")
    case True
    then show ?thesis using t s'(1) by simp
  next
    case False
    with t have "session_ok w q t" using pty_invD(1) [OF inv] by simp
    then show ?thesis using False w' by (simp add: session_ok_def)
  qed
next
  fix x assume "x \<in> set (pw_opening w)"
  then show "case x of (r, ws) \<Rightarrow> pw_byWorkspace w ws = Some r \<and> ((pw_sessions w)(pid \<mapsto> s')) r = None"
    using pty_invD(2) [OF inv, of "fst x" "snd x"] s by (auto split: prod.splits)
next
  fix ws i assume "pw_byWorkspace w ws = Some i"
  from pty_invD(3) [OF inv this] s s'(2,3)
  show "(i, ws) \<in> set (pw_opening w) \<or> (\<exists>t. ((pw_sessions w)(pid \<mapsto> s')) i = Some t
    \<and> ps_workspaceId t = ws \<and> live t)" by auto
qed

lemma pty_inv_put:
  assumes "pty_inv w" "pw_sessions w pid = Some s" "same_core s s'"
  shows "pty_inv (put_session s' w)"
proof (rule pty_inv_update [OF assms(1,2)])
  have ok: "session_ok w pid s" using assms(1,2) by (rule pty_invD)
  with assms(3) have id: "ps_ptyId s' = pid" by (auto simp: session_ok_def same_core_def)
  then show "pw_sessions (put_session s' w) = (pw_sessions w)(pid \<mapsto> s')" by simp
  show "session_ok (put_session s' w) pid s'"
    using ok assms(3) id by (auto simp: session_ok_def same_core_def live_def)
qed (use assms(3) in \<open>simp_all add: same_core_def live_def\<close>)

lemma pty_inv_attach:
  assumes "pty_inv w" "pw_sessions w pid = Some s" "same_core s s'"
  shows "pty_inv (attach s' l w)"
proof -
  have "same_core s (s'\<lparr> ps_detachTimer := None, ps_listener := Some l \<rparr>)"
    using assms(3) by (simp add: same_core_def)
  from pty_inv_put [OF assms(1,2) this] show ?thesis by (auto simp: attach_def)
qed

lemma pty_inv_finish: "pty_inv w \<Longrightarrow> pty_inv (finish sha io u now pid ev reason w)"
proof -
  assume inv: "pty_inv w"
  show ?thesis
  proof (cases "pw_sessions w pid")
    case None
    then show ?thesis using inv by (simp add: finish_def)
  next
    case (Some s)
    show ?thesis
    proof (cases "ps_ended s")
      case None
      have ok: "session_ok w pid s" using inv Some by (rule pty_invD)
      then have bw: "pw_byWorkspace w (ps_workspaceId s) = Some pid" and id: "ps_ptyId s = pid"
        using None by (simp_all add: session_ok_def live_def)
      define v where "v = release_workspace (ps_workspaceId s) pid (put_session (ended_session now ev s) w)"
      have w: "pw_sessions v = (pw_sessions w)(pid \<mapsto> ended_session now ev s)"
        "pw_byWorkspace v = (pw_byWorkspace w)(ps_workspaceId s := None)"
        "pw_opening v = pw_opening w" "pw_wire v = pw_wire w"
        using bw id by (simp_all add: v_def release_workspace_def ended_session_def put_session_def)
      have "pty_inv v"
        unfolding pty_inv_def w
      proof (intro conjI allI impI ballI)
        fix q t assume t: "((pw_sessions w)(pid \<mapsto> ended_session now ev s)) q = Some t"
        show "session_ok v q t"
        proof (cases "q = pid")
          case True
          then show ?thesis using t ok by (auto simp: session_ok_def w live_def ended_session_def)
        next
          case False
          with t have "session_ok w q t" using inv pty_invD(1) by fastforce
          then show ?thesis using False by (auto simp: session_ok_def w bw)
        qed
      next
        fix x assume "x \<in> set (pw_opening w)"
        then show "case x of (r, ws) \<Rightarrow> ((pw_byWorkspace w)(ps_workspaceId s := None)) ws = Some r
          \<and> ((pw_sessions w)(pid \<mapsto> ended_session now ev s)) r = None"
          using pty_invD(2) [OF inv, of "fst x" "snd x"] bw Some by (auto split: prod.splits)
      next
        fix ws i assume "((pw_byWorkspace w)(ps_workspaceId s := None)) ws = Some i"
        then have "ws \<noteq> ps_workspaceId s" "pw_byWorkspace w ws = Some i" by (auto split: if_splits)
        with pty_invD(3) [OF inv this(2)] Some
        show "(i, ws) \<in> set (pw_opening w) \<or> (\<exists>t. ((pw_sessions w)(pid \<mapsto> ended_session now ev s)) i = Some t
          \<and> ps_workspaceId t = ws \<and> live t)" by auto
      qed
      then show ?thesis using Some None id by (auto simp: finish_def Let_def v_def)
    next
      case (Some ev')
      then show ?thesis using inv \<open>pw_sessions w pid = Some s\<close> by (simp add: finish_def)
    qed
  qed
qed

lemma pty_inv_begin:
  assumes inv: "pty_inv w" and fresh: "fresh_id r w"
  shows "pty_inv (snd (open_begin ws l ka r w))"
proof (cases "pw_byWorkspace w ws")
  case None
  define v where "v = w\<lparr> pw_byWorkspace := (pw_byWorkspace w)(ws \<mapsto> r), pw_opening := (r, ws) # pw_opening w \<rparr>"
  have v: "pw_sessions v = pw_sessions w" "pw_byWorkspace v = (pw_byWorkspace w)(ws \<mapsto> r)"
    "pw_opening v = (r, ws) # pw_opening w" "pw_wire v = pw_wire w"
    by (simp_all add: v_def)
  have "pty_inv v"
  proof (rule pty_invI)
    fix pid s assume "pw_sessions v pid = Some s"
    then show "session_ok v pid s"
      using pty_invD(1) [OF inv, of pid s] None by (auto simp: session_ok_def v)
  next
    fix r' ws' assume "(r', ws') \<in> set (pw_opening v)"
    then show "pw_byWorkspace v ws' = Some r' \<and> pw_sessions v r' = None"
      using pty_invD(2) [OF inv, of r' ws'] None fresh by (auto simp: v fresh_id_def)
  next
    fix ws' i assume "pw_byWorkspace v ws' = Some i"
    then show "(i, ws') \<in> set (pw_opening v) \<or> (\<exists>s. pw_sessions v i = Some s \<and> ps_workspaceId s = ws' \<and> live s)"
      using pty_invD(3) [OF inv, of ws' i] by (auto simp: v split: if_splits)
  qed
  then show ?thesis using None by (simp add: open_begin_def v_def)
next
  case (Some i)
  show ?thesis
  proof (cases "get_session i w")
    case None
    then show ?thesis using Some inv by (simp add: open_begin_def)
  next
    case s: (Some s)
    then have st: "pw_sessions w i = Some s" by simp
    have "live s" using pty_invD(3) [OF inv Some] st pty_invD(2) [OF inv] by fastforce
    then show ?thesis
      using pty_inv_attach [OF inv st, of s] pty_inv_attach [OF inv st, of "s\<lparr> ps_keepAliveMs := clampKeepAlive ka \<rparr>"]
        Some s by (auto simp: open_begin_def Let_def live_def same_core_def simp del: get_session_Some
          split: option.splits)
  qed
qed

lemma pty_inv_drop:
  assumes inv: "pty_inv w" and o: "(r, ws) \<in> set (pw_opening w)"
  shows "pty_inv (release_workspace ws r (drop_opening r ws w))"
proof -
  have bw: "pw_byWorkspace w ws = Some r" "pw_sessions w r = None" using pty_invD(2) [OF inv o] by auto
  define v where "v = release_workspace ws r (drop_opening r ws w)"
  have v: "pw_sessions v = pw_sessions w" "pw_byWorkspace v = (pw_byWorkspace w)(ws := None)"
    "pw_opening v = filter (\<lambda>p. p \<noteq> (r, ws)) (pw_opening w)" "pw_wire v = pw_wire w"
    using bw by (simp_all add: v_def release_workspace_def drop_opening_def)
  have "pty_inv v"
  proof (rule pty_invI)
    fix pid s assume "pw_sessions v pid = Some s"
    then show "session_ok v pid s"
      using pty_invD(1) [OF inv, of pid s] bw by (auto simp: session_ok_def v)
  next
    fix r' ws' assume "(r', ws') \<in> set (pw_opening v)"
    then have "(r', ws') \<in> set (pw_opening w)" "(r', ws') \<noteq> (r, ws)" by (auto simp: v)
    then show "pw_byWorkspace v ws' = Some r' \<and> pw_sessions v r' = None"
      using pty_invD(2) [OF inv, of r' ws'] bw by (auto simp: v)
  next
    fix ws' i assume "pw_byWorkspace v ws' = Some i"
    then have "ws' \<noteq> ws" "pw_byWorkspace w ws' = Some i" by (auto simp: v split: if_splits)
    then show "(i, ws') \<in> set (pw_opening v) \<or> (\<exists>s. pw_sessions v i = Some s \<and> ps_workspaceId s = ws' \<and> live s)"
      using pty_invD(3) [OF inv, of ws' i] by (auto simp: v)
  qed
  then show ?thesis by (simp add: v_def)
qed

lemma pty_inv_commit:
  assumes inv: "pty_inv w" and o: "(r, ws) \<in> set (pw_opening w)" and fresh: "fresh_id pid w"
  shows "pty_inv (snd (open_finish ws l ka r now (Inr pid) w))"
proof -
  have bw: "pw_byWorkspace w ws = Some r" "pw_sessions w r = None" using pty_invD(2) [OF inv o] by auto
  have new: "pw_sessions w pid = None" "pid \<notin> fst ` set (pw_opening w)" using fresh by (simp_all add: fresh_id_def)
  let ?s = "(new_session pid ws now ka)\<lparr> ps_detachTimer := None, ps_listener := Some l \<rparr>"
  define v where "v = snd (open_finish ws l ka r now (Inr pid) w)"
  have v: "pw_sessions v = (pw_sessions w)(pid \<mapsto> ?s)" "pw_byWorkspace v = (pw_byWorkspace w)(ws \<mapsto> pid)"
    "pw_opening v = filter (\<lambda>p. p \<noteq> (r, ws)) (pw_opening w)" "pw_wire v = (pw_wire w)(pid := [])"
    by (simp_all add: v_def open_finish_def Let_def attach_def drop_opening_def new_session_def)
  have s: "session_ok v pid ?s" by (simp add: session_ok_def v new_session_def)
  have "session_ok v q t" if "pw_sessions w q = Some t" for q t
    using pty_invD(1) [OF inv that] that bw new by (auto simp: session_ok_def v)
  then have "session_ok v q t" if "pw_sessions v q = Some t" for q t
    using that s by (cases "q = pid") (auto simp: v)
  moreover have "pw_byWorkspace v ws' = Some r' \<and> pw_sessions v r' = None" if "(r', ws') \<in> set (pw_opening v)" for r' ws'
  proof -
    from that have m: "(r', ws') \<in> set (pw_opening w)" "(r', ws') \<noteq> (r, ws)" by (auto simp: v)
    then have "ws' \<noteq> ws" "r' \<noteq> pid" using pty_invD(2) [OF inv m(1)] bw new(2) by force+
    then show ?thesis using pty_invD(2) [OF inv m(1)] by (simp add: v)
  qed
  moreover have "(i, ws') \<in> set (pw_opening v) \<or> (\<exists>t. pw_sessions v i = Some t \<and> ps_workspaceId t = ws' \<and> live t)"
    if "pw_byWorkspace v ws' = Some i" for i ws'
  proof (cases "ws' = ws")
    case True
    then show ?thesis using that by (auto simp: v new_session_def live_def)
  next
    case False
    then have "pw_byWorkspace w ws' = Some i" using that by (simp add: v)
    from pty_invD(3) [OF inv this] False new show ?thesis by (auto simp: v)
  qed
  ultimately have "pty_inv v" unfolding pty_inv_def by auto
  then show ?thesis by (simp add: v_def)
qed

lemma pty_inv_drain:
  assumes inv: "pty_inv w"
  shows "pty_inv (pty_drain sha ios pid w)"
proof (cases "pw_sessions w pid")
  case None
  then show ?thesis using inv by (simp add: pty_drain_def)
next
  case (Some s)
  have ok: "session_ok w pid s" using inv Some by (rule pty_invD)
  then have id: "ps_ptyId s = pid" by (simp add: session_ok_def)
  show ?thesis
  proof (cases "ps_queue s")
    case Nil
    then show ?thesis using inv Some by (simp add: pty_drain_def)
  next
    case (Cons data rest)
    obtain steps g where f: "feed data (ps_gate s) = (steps, g)" by force
    let ?s = "s\<lparr> ps_queue := rest, ps_gate := g \<rparr>"
    obtain r w' where p: "process_steps sha ios 0 (ps_workspaceId s) pid steps (put_session ?s w) = (r, w')" by force
    from process_steps_wire [OF f p] obtain es where es: "pw_wire w' pid = pw_wire w pid @ es"
      "guarded (ps_gate s) None es" "isl r \<or> watch (ps_gate s) es = g" by auto
    have w': "pw_sessions w' = (pw_sessions w)(pid \<mapsto> ?s)" "pw_byWorkspace w' = pw_byWorkspace w"
      "pw_opening w' = pw_opening w" "\<And>q. q \<noteq> pid \<Longrightarrow> pw_wire w' q = pw_wire w q"
      using process_steps_pty [OF p] id by auto
    have guard: "guarded new_gate None (pw_wire w' pid)" "watch new_gate (pw_wire w' pid) = watch (ps_gate s) es"
      using ok es(1,2) by (auto simp: session_ok_def intro: guarded_append)
    show ?thesis
    proof (cases r)
      case (Inr u)
      have "session_ok w' pid ?s"
        using ok es(3) guard Inr w'(2) by (simp add: session_ok_def live_def)
      then have "pty_inv w'"
        by (intro pty_inv_update [OF inv Some w'(1-3)]) (use w'(4) in \<open>simp_all add: live_def\<close>)
      then show ?thesis using Some Cons f p Inr id by (simp add: pty_drain_def pty_process_def)
    next
      case (Inl e)
      let ?t = "?s\<lparr> ps_gate := new_gate \<rparr>"
      define v where "v = onInputFailure ?s w'"
      have reset: "gate_reset g = new_gate" by (simp add: gate_reset_def new_gate_def)
      have v: "pw_sessions v = (pw_sessions w)(pid \<mapsto> ?t)" "pw_byWorkspace v = pw_byWorkspace w"
        "pw_opening v = pw_opening w" "\<And>q. q \<noteq> pid \<Longrightarrow> pw_wire v q = pw_wire w q"
        "pw_wire v pid = pw_wire w' pid @ [Cancelled]"
        using w' id reset by (simp_all add: v_def onInputFailure_def)
      have "session_ok v pid ?t"
        using ok guard v by (auto simp: session_ok_def live_def intro: guarded_append)
      then have "pty_inv v"
        by (intro pty_inv_update [OF inv Some v(1-3)]) (use v(4) in \<open>simp_all add: live_def\<close>)
      then show ?thesis using Some Cons f p Inl id w'(1) by (simp add: pty_drain_def pty_process_def v_def)
    qed
  qed
qed

lemma get_session_pw: "get_session pid w = Some s \<Longrightarrow> pw_sessions w pid = Some s"
  by simp

lemma pty_inv_remaining:
  assumes inv: "pty_inv w"
  shows "pty_inv (snd (pty_input now pid data w))" "pty_inv (detach now pid l w)"
    "pty_inv (setKeepAlive now pid ka w)" "pty_inv (pty_close sha io u now pid reason w)"
    "pty_inv (detach_fires sha io u now pid w)" "pty_inv (linger_expires now pid w)"
proof -
  have put: "pty_inv (put_session s' w)" if "pw_sessions w q = Some s" "same_core s s'" for q s s'
    using inv that by (rule pty_inv_put)
  show "pty_inv (snd (pty_input now pid data w))"
  proof (cases "get_session pid w")
    case None
    then show ?thesis using inv by (simp add: pty_input_def require_def)
  next
    case (Some s)
    obtain b s1 where r: "withinRate now (length data) s = (b, s1)" by force
    then have "same_core s s1" by (auto simp: withinRate_def Let_def same_core_def split: if_splits)
    then have "same_core s (s1\<lparr> ps_bytesIn := ps_bytesIn s1 + length data, ps_queue := ps_queue s1 @ [data] \<rparr>)"
      by (simp add: same_core_def)
    with \<open>same_core s s1\<close> show ?thesis
      using put [OF get_session_pw [OF Some]] Some r inv
      by (auto simp: pty_input_def require_def simp del: get_session_Some)
  qed
  show "pty_inv (detach now pid l w)"
    using inv put by (auto simp: detach_def armDetachTimer_def same_core_def Let_def split: option.splits)
  show "pty_inv (setKeepAlive now pid ka w)"
    using inv put by (auto simp: setKeepAlive_def armDetachTimer_def same_core_def Let_def split: option.splits)
  show close: "pty_inv (pty_close sha io u now pid reason w)" for reason
    using inv by (auto simp: pty_close_def pty_inv_finish split: option.splits)
  show "pty_inv (detach_fires sha io u now pid w)"
    using inv close by (auto simp: detach_fires_def split: option.splits)
  show "pty_inv (linger_expires now pid w)"
  proof (cases "pw_sessions w pid")
    case None
    then show ?thesis using inv by (simp add: linger_expires_def)
  next
    case (Some s)
    have "same_core s (s\<lparr> ps_forgotten := True \<rparr>)" if "ps_lingerTimer s = Some t" for t
      using pty_invD(1) [OF inv Some] that by (auto simp: session_ok_def same_core_def)
    with put [OF Some] show ?thesis using inv Some by (auto simp: linger_expires_def split: option.splits)
  qed
qed

lemma pty_inv_output:
  assumes inv: "pty_inv w" and s: "pw_sessions w pid = Some s"
  shows "pty_inv (take_output now s data w)"
proof -
  have core: "same_core s (remember bytes (s\<lparr> ps_bytesOut := n \<rparr>))" for bytes n
    by (simp add: remember_def same_core_def split: prod.splits)
  then have "same_core s (armDetachTimer now (remember bytes (s\<lparr> ps_bytesOut := n \<rparr>)))" for bytes n
    by (simp add: same_core_def armDetachTimer_def)
  with core show ?thesis
    by (auto simp: take_output_def Let_def intro!: pty_inv_put [OF inv s] split: option.split)
qed

lemma pty_inv_handleLine: "pty_inv w \<Longrightarrow> pty_inv (snd (handleLine sha io u now pid raw w))"
  unfolding handleLine_def
  by (simp add: pty_inv_output pty_inv_finish split: option.split)

lemma pty_inv_failure:
  assumes "pty_inv w"
  shows "pty_inv (snd (pump_failure sha io u now pid n e w))"
  using assms pty_inv_finish [OF assms] by (auto simp: pump_failure_def split: option.splits)

lemma pty_inv_step:
  assumes "pty_step sha w w'" "pty_inv w"
  shows "pty_inv w'"
  using assms
proof (cases rule: pty_step.cases)
  case (finish_open r ws answer l ka now)
  then show ?thesis
    using assms(2) pty_inv_commit [OF assms(2)] pty_inv_drop [OF assms(2)]
    by (cases answer) (auto simp: open_finish_def)
qed (auto intro: pty_inv_begin pty_inv_remaining pty_inv_handleLine pty_inv_failure pty_inv_drain)

lemma pty_inv_reachable:
  assumes "(pty_step sha)\<^sup>*\<^sup>* w w'" "empty_world w"
  shows "pty_inv w'"
  using assms(1)
proof (induction rule: rtranclp_induct)
  case base
  then show ?case using assms(2) by (simp add: pty_inv_def empty_world_def)
qed (rule pty_inv_step)


definition sample_world :: pty_world where
  "sample_world = \<lparr> audit_log = [], audit_next_id = 1, audit_chain_lock = None, pw_sessions = Map.empty,
     pw_byWorkspace = Map.empty, pw_opening = [], pw_heard = [], pw_wire = (\<lambda>_. []) \<rparr>"

definition sample_open :: pty_world where
  "sample_open = snd (open_finish ''p'' 1 None ''r'' 0 (Inr ''x'') (snd (open_begin ''p'' 1 None ''r'' sample_world)))"

definition sample_typed :: "byte list \<Rightarrow> pty_world" where
  "sample_typed data = snd (pty_input 5 ''x'' data sample_open)"

lemma sample_open_session: "pw_sessions sample_open ''x'' =
    Some ((new_session ''x'' ''p'' 0 None)\<lparr> ps_detachTimer := None, ps_listener := Some 1 \<rparr>)"
  by (simp add: sample_open_def open_finish_def open_begin_def sample_world_def Let_def attach_def
      drop_opening_def new_session_def)

lemma sample_reachable: "(pty_step sha)\<^sup>*\<^sup>* sample_world (pty_drain sha ios ''x'' (sample_typed data))"
proof -
  let ?w1 = "snd (open_begin ''p'' 1 None ''r'' sample_world)"
  have "fresh_id ''r'' sample_world" by (simp add: fresh_id_def sample_world_def)
  then have "pty_step sha sample_world ?w1" by (rule begin_open)
  moreover have "fresh_id ''x'' ?w1" "(''r'', ''p'') \<in> set (pw_opening ?w1)"
    by (simp_all add: fresh_id_def sample_world_def open_begin_def)
  then have "pty_step sha ?w1 sample_open" unfolding sample_open_def by (intro finish_open) auto
  moreover have "pty_step sha sample_open (sample_typed data)" unfolding sample_typed_def by (rule keys)
  moreover have "pty_step sha (sample_typed data) (pty_drain sha ios ''x'' (sample_typed data))" by (rule link)
  ultimately show ?thesis by (meson converse_rtranclp_into_rtranclp rtranclp.rtrancl_refl)
qed

lemma drain_keeps_session:
  fixes w :: pty_world
  assumes "pw_sessions w pid = Some s"
  shows "pw_sessions (pty_drain sha io pid w) pid \<noteq> None"
proof (cases "ps_queue s")
  case Nil
  then show ?thesis using assms by (simp add: pty_drain_def)
next
  case (Cons data rest)
  obtain r w' where r: "pty_process sha io (s\<lparr> ps_queue := rest \<rparr>) data w = (r, w')" by force
  obtain steps g where f: "feed data (ps_gate s) = (steps, g)" by force
  have "pw_sessions w' = pw_sessions (put_session (s\<lparr> ps_queue := rest, ps_gate := g \<rparr>) w)"
    using r process_steps_pty by (auto simp: pty_process_def f)
  then have "pw_sessions w' pid \<noteq> None" using assms by (auto simp: put_session_def)
  then show ?thesis using assms Cons r
    by (cases r) (auto simp: pty_drain_def onInputFailure_def put_session_def)
qed

definition sample_drained :: pty_world where
  "sample_drained = pty_drain id (\<lambda>_. \<lparr> si_uuid = ''u'', si_audit = \<lparr> io_now = 1, io_fault = None \<rparr>, si_sent = None \<rparr>)
     ''x'' (sample_typed [0x6C, 0x0D])"

lemma sample_typed_session: "pw_sessions (sample_typed [0x6C, 0x0D]) ''x'' =
    Some ((new_session ''x'' ''p'' 0 None)\<lparr> ps_detachTimer := None, ps_listener := Some 1, ps_rateBytes := 2,
      ps_bytesIn := 2, ps_queue := [[0x6C, 0x0D]] \<rparr>)"
  by (simp add: sample_typed_def pty_input_def require_def get_session_def sample_open_session new_session_def
      withinRate_def MAX_INPUT_BYTES_PER_SECOND_def)


section \<open>Fail-closed\<close>

definition typed_bytes :: "pty_effect list \<Rightarrow> byte list" where
  "typed_bytes es = concat (map (\<lambda>e. case e of Typed bs \<Rightarrow> bs | _ \<Rightarrow> []) es)"

lemma process_steps_locked:
  fixes w :: pty_world
  assumes "process_steps sha io i ws pid steps w = (r, w')" "isLocked w"
  shows "audit_log w' = audit_log w"
  using assms
proof (induction steps arbitrary: i w)
  case (Cons st sts)
  let ?w2 = "to_wire pid [Typed (st_bytes st)] w"
  have lock: "isLocked ?w2" "audit_log ?w2 = audit_log w"
    using Cons.prems(2) by (simp_all add: to_wire_def isLocked_def)
  show ?case
  proof (cases "st_line st")
    case None
    show ?thesis
    proof (cases "si_sent (io i)")
      case None
      then have "process_steps sha io (Suc i) ws pid sts ?w2 = (r, w')"
        using Cons.prems(1) \<open>st_line st = None\<close> by simp
      from Cons.IH [OF this lock(1)] lock(2) show ?thesis by simp
    next
      case (Some e)
      then show ?thesis using Cons.prems(1) \<open>st_line st = None\<close> lock(2) by auto
    qed
  next
    case (Some l)
    have "pty_audit sha (si_audit (io i)) (si_uuid (io i)) RUN_TERMINAL_COMMAND_TOOL (line_inputs ws l) (line_summary l) w
        = (Inl AuditChainLockedError, w)"
      using Cons.prems(2) by (simp add: pty_audit_def recordToolCall_def appendRow_def)
    then show ?thesis using Cons.prems(1) Some by simp
  qed
qed simp



section \<open>The recent output\<close>

text \<open>The ring of a session: its count is right, and it is over the limit only as one single piece.\<close>

definition ring_ok :: "byte list list \<Rightarrow> nat \<Rightarrow> bool" where
  "ring_ok ring n \<longleftrightarrow> n = length (concat ring) \<and> (n \<le> PTY_RING_BYTES \<or> length ring \<le> 1)"

lemma trim_ring_ok:
  assumes "n = length (concat ring)" "trim_ring ring n = (ring', n')"
  shows "ring_ok ring' n' \<and> suffix (concat ring') (concat ring) \<and> (n \<le> PTY_RING_BYTES \<longrightarrow> ring' = ring)"
  using assms
proof (induction ring n arbitrary: ring' n' rule: trim_ring.induct)
  case (1 x y r n)
  show ?case
  proof (cases "PTY_RING_BYTES < n")
    case True
    with 1(3) have t: "trim_ring (y # r) (n - length x) = (ring', n')" by simp
    have "n - length x = length (concat (y # r))" using 1(2) by simp
    from 1(1) [OF True this t] True show ?thesis by (auto intro: suffix_appendI)
  next
    case False
    then show ?thesis using 1(2,3) by (auto simp: ring_ok_def)
  qed
qed (auto simp: ring_ok_def)

lemma suffix_append_right: "suffix xs ys \<Longrightarrow> suffix (xs @ zs) (ys @ zs)"
  by (auto simp: suffix_def)

lemma suffix_trans: "suffix xs ys \<Longrightarrow> suffix ys zs \<Longrightarrow> suffix xs zs"
  by (auto simp: suffix_def)

lemma remember_ok:
  assumes "ring_ok (ps_ring s) (ps_ringBytes s)"
  shows "ring_ok (ps_ring (remember b s)) (ps_ringBytes (remember b s))
    \<and> suffix (concat (ps_ring (remember b s))) (concat (ps_ring s) @ b)
    \<and> (ps_ringBytes s + length b \<le> PTY_RING_BYTES \<longrightarrow> ps_ring (remember b s) = ps_ring s @ [b])"
proof -
  obtain ring n where t: "trim_ring (ps_ring s @ [b]) (ps_ringBytes s + length b) = (ring, n)" by force
  have "ps_ringBytes s + length b = length (concat (ps_ring s @ [b]))" using assms by (simp add: ring_ok_def)
  from trim_ring_ok [OF this t] show ?thesis by (simp add: remember_def t)
qed

lemma fold_remember:
  assumes "ring_ok (ps_ring s) (ps_ringBytes s)"
  shows "ring_ok (ps_ring (fold remember bs s)) (ps_ringBytes (fold remember bs s))
    \<and> suffix (concat (ps_ring (fold remember bs s))) (concat (ps_ring s) @ concat bs)
    \<and> (ps_ringBytes s + length (concat bs) \<le> PTY_RING_BYTES \<longrightarrow> ps_ring (fold remember bs s) = ps_ring s @ bs)"
  using assms
proof (induction bs arbitrary: s)
  case (Cons b bs)
  have r: "ring_ok (ps_ring (remember b s)) (ps_ringBytes (remember b s))"
    "suffix (concat (ps_ring (remember b s))) (concat (ps_ring s) @ b)"
    "ps_ringBytes s + length b \<le> PTY_RING_BYTES \<longrightarrow> ps_ring (remember b s) = ps_ring s @ [b]"
    using remember_ok [OF Cons.prems] by auto
  have "suffix (concat (ps_ring (fold remember bs (remember b s)))) ((concat (ps_ring s) @ b) @ concat bs)"
    using Cons.IH [OF r(1)] suffix_append_right [OF r(2), of "concat bs"] by (blast intro: suffix_trans)
  moreover have "ps_ringBytes (remember b s) = ps_ringBytes s + length b"
    if "ps_ringBytes s + length b \<le> PTY_RING_BYTES"
    using r(1,3) that Cons.prems by (simp add: ring_ok_def)
  ultimately show ?case using Cons.IH [OF r(1)] r(3) by auto
qed simp

definition event_bytes :: "PtyEvent \<Rightarrow> byte list" where
  "event_bytes ev = (case ev of EvOut d \<Rightarrow> base64_decode d | _ \<Rightarrow> [])"

lemma replay_bytes: "concat (map event_bytes (replay ring)) = concat ring"
proof -
  have "map event_bytes (replay ring) = chunks_of REPLAY_CHUNK_BYTES (concat ring)"
    by (simp add: replay_def event_bytes_def comp_def)
  then show ?thesis by (simp add: concat_chunks_of REPLAY_CHUNK_BYTES_def)
qed

text \<open>An app that attaches again hears exactly the recent output of the shell: after any outputs of
  a new session, what is replayed, decoded, is a suffix of all of it, the whole of it when it fits
  in the ring, in messages of at most 48 KiB; the ring holds more than 256 KiB only when it is a
  single piece.
\<close>

theorem reattach_replays_recent_output:
  fixes bs :: "byte list list"
  shows "\<exists>evs. pw_heard (attach (fold remember bs (new_session pid ws now ka)) l w) = pw_heard w @ map (Pair l) evs
    \<and> suffix (concat (map event_bytes evs)) (concat bs)
    \<and> (length (concat bs) \<le> PTY_RING_BYTES \<longrightarrow> concat (map event_bytes evs) = concat bs)
    \<and> (\<forall>ev \<in> set evs. length (event_bytes ev) \<le> REPLAY_CHUNK_BYTES)
    \<and> (length (concat (ps_ring (fold remember bs (new_session pid ws now ka)))) \<le> PTY_RING_BYTES
      \<or> length (ps_ring (fold remember bs (new_session pid ws now ka))) \<le> 1)"
proof -
  define s where "s = fold remember bs (new_session pid ws now ka)"
  have "ps_ended (fold remember bs t) = ps_ended t" for t
    by (induction bs arbitrary: t) (auto simp: remember_def split: prod.splits)
  then have e: "ps_ended s = None" by (simp add: s_def new_session_def)
  have n: "ps_ring (new_session pid ws now ka) = []" "ps_ringBytes (new_session pid ws now ka) = 0"
    by (simp_all add: new_session_def)
  then have start: "ring_ok (ps_ring (new_session pid ws now ka)) (ps_ringBytes (new_session pid ws now ka))"
    by (simp add: ring_ok_def)
  have ring: "ring_ok (ps_ring s) (ps_ringBytes s)" "suffix (concat (ps_ring s)) (concat bs)"
    "length (concat bs) \<le> PTY_RING_BYTES \<longrightarrow> ps_ring s = bs"
    using fold_remember [OF start, of bs] by (simp_all add: s_def n)
  have "length (event_bytes ev) \<le> REPLAY_CHUNK_BYTES" if "ev \<in> set (replay (ps_ring s))" for ev
    using that length_chunks_of by (auto simp: replay_def event_bytes_def)
  then show ?thesis unfolding s_def [symmetric]
    using ring e replay_bytes [of "ps_ring s"]
    by (intro exI [of _ "replay (ps_ring s)"]) (auto simp: attach_def ring_ok_def)
qed

lemma reattach_replays_recent_output_witness:
  "\<exists>evs. pw_heard (attach (fold remember [[0x68 :: byte], [0x69]] (new_session ''x'' ''p'' 0 None)) 2 sample_world)
       = pw_heard sample_world @ map (Pair 2) evs
     \<and> concat (map event_bytes evs) = [0x68, 0x69]"
proof -
  have "length (concat [[0x68 :: byte], [0x69]]) \<le> PTY_RING_BYTES" by (simp add: PTY_RING_BYTES_def)
  then show ?thesis
    using reattach_replays_recent_output [of "[[0x68 :: byte], [0x69]]" "''x''" "''p''" 0 None 2 sample_world] by force
qed

section \<open>Giving up\<close>

lemma finish_ends:
  assumes "pw_sessions w pid = Some s" "live s" "ps_ptyId s = pid"
  shows "pw_sessions (finish sha io u now pid ev reason w) pid = Some (ended_session now ev s)
    \<and> pw_byWorkspace (finish sha io u now pid ev reason w) (ps_workspaceId s) \<noteq> Some pid
    \<and> (\<forall>l. ps_listener s = Some l \<longrightarrow> (l, ev) \<in> set (pw_heard (finish sha io u now pid ev reason w)))"
proof -
  have r: "pw_sessions (release_workspace ws i v) = pw_sessions v" "pw_heard (release_workspace ws i v) = pw_heard v"
    "pw_byWorkspace (release_workspace ws i v) ws \<noteq> Some i" for ws i v
    by (simp_all add: release_workspace_def)
  have h: "ps_listener s = Some l \<Longrightarrow> (l, ev) \<in> set (pw_heard (notify s ev v))" for l v
    by (simp add: notify_def)
  have id: "ps_ptyId (ended_session now ev s) = pid" using assms(3) by (simp add: ended_session_def)
  have f: "finish sha io u now pid ev reason w = snd (pty_audit sha io u CLOSE_TERMINAL_PTY_TOOL (close_inputs s reason now)
      (''terminal interactiva: cerrar ('' @ reason @ '')'')
      (notify s ev (release_workspace (ps_workspaceId s) pid (put_session (ended_session now ev s) w))))"
    using assms by (simp add: finish_def Let_def live_def)
  show ?thesis unfolding f by (simp add: r id h)
qed

text \<open>C28: The service does not wait for ever on an executor that refuses: however many refusals came
  before, after more than five in a row, or the first one that says the terminal is gone, the
  session has ended with an error, its app has heard of it and its workspace is free again.
\<close>

theorem pump_gives_up:
  assumes "pw_sessions w pid = Some s" "live s" "\<not> ps_aborted s" "ps_ptyId s = pid"
    "\<forall>a \<in> set as. \<exists>e. a = Refused e" "failures \<le> PUMP_MAX_RETRIES" "PUMP_MAX_RETRIES < failures + length as"
  shows "\<exists>t. pw_sessions (pump sha io u now pid failures as w) pid
        = Some (ended_session now (EvError t) s)
      \<and> t \<in> {TxtGone, TxtConnectionLost}
      \<and> pw_byWorkspace (pump sha io u now pid failures as w) (ps_workspaceId s) \<noteq> Some pid
      \<and> (\<forall>l. ps_listener s = Some l \<longrightarrow> (l, EvError t) \<in> set (pw_heard (pump sha io u now pid failures as w)))"
  using assms
proof (induction as arbitrary: failures)
  case (Cons a as)
  then obtain e where e: "a = Refused e" by auto
  obtain n v where f: "pump_failure sha io u now pid failures e w = (n, v)" by force
  have run: "pump sha io u now pid failures (a # as) w = (case n of None \<Rightarrow> v | Some k \<Rightarrow> pump sha io u now pid k as v)"
    using Cons.prems(1-3) e f by (simp add: live_def split: option.split)
  show ?case
  proof (cases n)
    case None
    then obtain t reason where "v = finish sha io u now pid (EvError t) reason w" "t \<in> {TxtGone, TxtConnectionLost}"
      using f Cons.prems(1-3) by (auto simp: pump_failure_def live_def split: if_splits jin_error.splits)
    then show ?thesis using finish_ends [OF Cons.prems(1,2,4), of sha io u now "EvError t" reason] run None by auto
  next
    case (Some k)
    then have "v = w" "k = Suc failures" "k \<le> PUMP_MAX_RETRIES"
      using f Cons.prems(1-3) by (auto simp: pump_failure_def live_def split: if_splits)
    then show ?thesis using Cons.IH [of k] Cons.prems run Some by simp
  qed
qed simp

lemma pump_gives_up_witness:
  "\<exists>t. pw_sessions (pump id \<lparr> io_now = 9, io_fault = None \<rparr> ''u'' 9 ''x'' 0
      (replicate 6 (Refused TerminalUnavailableError)) sample_open) ''x''
    = Some (ended_session 9 (EvError t) ((new_session ''x'' ''p'' 0 None)\<lparr> ps_detachTimer := None, ps_listener := Some 1 \<rparr>))"
proof -
  let ?s = "(new_session ''x'' ''p'' 0 None)\<lparr> ps_detachTimer := None, ps_listener := Some 1 \<rparr>"
  have "live ?s" "\<not> ps_aborted ?s" "ps_ptyId ?s = ''x''" by (simp_all add: new_session_def live_def)
  moreover have "\<forall>a \<in> set (replicate 6 (Refused TerminalUnavailableError)). \<exists>e. a = Refused e" by simp
  moreover have "(0::nat) \<le> PUMP_MAX_RETRIES"
    "PUMP_MAX_RETRIES < 0 + length (replicate 6 (Refused TerminalUnavailableError))"
    by (simp_all add: PUMP_MAX_RETRIES_def)
  ultimately show ?thesis using pump_gives_up [OF sample_open_session] by blast
qed

end
