(* ===== verification/Owner_Terminal.thy ===== *)
theory Owner_Terminal
  imports Terminal_Pty Hitl_Approvals
begin

text \<open>
  The owner's terminal without the interactive part (\<open>src/terminal/owner-terminal.service.ts\<close> and the
  schemas of \<open>src/terminal/terminal.schemas.ts\<close>): starting a pod and publishing a build wait for an
  approval of fixed level \<open>confirm\<close>; every other operation that changes something is audited first.
  The executor is the outside world: \<open>od_calls\<close> is the list of the calls made to it, what it answers
  is an argument. The texts are of the Latin-1 range, as in the approvals.
\<close>

section \<open>The schemas\<close>

text \<open>The workspace id: a UUID in any case, normalised to lower case.\<close>

definition uuid_shape :: "string \<Rightarrow> bool" where
  "uuid_shape s \<longleftrightarrow> length s = 36
     \<and> (\<forall>i < 36. if i \<in> {8, 13, 18, 23} then s ! i = CHR ''-'' else is_hex (s ! i))"

definition WorkspaceIdSchema :: "json \<Rightarrow> string option" where
  "WorkspaceIdSchema j =
     (case j of JStr s \<Rightarrow> if uuid_shape s then Some (map to_lower_hex s) else None | _ \<Rightarrow> None)"

definition TERMINAL_MAX_FILES :: nat where "TERMINAL_MAX_FILES = 50"
definition TERMINAL_MAX_TOTAL_BYTES :: nat where "TERMINAL_MAX_TOTAL_BYTES = 256 * 1024"
definition TERMINAL_MAX_COMMAND_LENGTH :: nat where "TERMINAL_MAX_COMMAND_LENGTH = 4096"
definition TERMINAL_MAX_TIMEOUT_SECONDS :: int where "TERMINAL_MAX_TIMEOUT_SECONDS = 600"
definition TERMINAL_STATIC_PORT :: int where "TERMINAL_STATIC_PORT = 8080"
definition TERMINAL_FS_MAX_FILE_BYTES :: nat where "TERMINAL_FS_MAX_FILE_BYTES = 512 * 1024"

fun split_on :: "char \<Rightarrow> string \<Rightarrow> string list" where
  "split_on d [] = [[]]"
| "split_on d (c # s) = (if c = d then [] # split_on d s
     else (case split_on d s of w # ws \<Rightarrow> (c # w) # ws | [] \<Rightarrow> [[c]]))"

definition starts_slash :: "string \<Rightarrow> bool" where
  "starts_slash s \<longleftrightarrow> s \<noteq> [] \<and> hd s = CHR ''/''"

definition SafePath :: "string \<Rightarrow> bool" where
  "SafePath p \<longleftrightarrow> 1 \<le> length p \<and> length p \<le> 200 \<and> \<not> starts_slash p \<and> ''..'' \<notin> set (split_on (CHR ''/'') p)"

definition FsFilePath :: "string \<Rightarrow> bool" where
  "FsFilePath p \<longleftrightarrow> 1 \<le> length p \<and> length p \<le> 400 \<and> \<not> starts_slash p \<and> CHR 0x5C \<notin> set p
     \<and> ''..'' \<notin> set (split_on (CHR ''/'') p)"

definition FsDirPath :: "string \<Rightarrow> bool" where
  "FsDirPath p \<longleftrightarrow> p = ''.'' \<or> FsFilePath p"

text \<open>\<open>Buffer.byteLength\<close>: two bytes for a character beyond ASCII.\<close>

definition byte_length :: "string \<Rightarrow> nat" where
  "byte_length s = sum_list (map (\<lambda>c. if (of_char c :: nat) < 128 then 1 else 2) s)"

fun text_entry :: "string \<times> json \<Rightarrow> (string \<times> string) option" where
  "text_entry (p, JStr t) = Some (p, t)"
| "text_entry _ = None"

fun text_entries :: "(string \<times> json) list \<Rightarrow> (string \<times> string) list option" where
  "text_entries [] = Some []"
| "text_entries (e # es) =
     (case (text_entry e, text_entries es) of (Some x, Some xs) \<Rightarrow> Some (x # xs) | _ \<Rightarrow> None)"

definition files_ok :: "(string \<times> string) list \<Rightarrow> bool" where
  "files_ok files \<longleftrightarrow> (\<forall>(p, t) \<in> set files. SafePath p) \<and> length files \<le> TERMINAL_MAX_FILES
     \<and> sum_list (map (\<lambda>(p, t). byte_length p + byte_length t) files) \<le> TERMINAL_MAX_TOTAL_BYTES"

definition TerminalFilesSchema :: "json \<Rightarrow> (string \<times> string) list option" where
  "TerminalFilesSchema j =
     (case j of
        JObj kvs \<Rightarrow> (case text_entries kvs of
            Some files \<Rightarrow> if files_ok files then Some files else None
          | None \<Rightarrow> None)
      | _ \<Rightarrow> None)"

record StartTerminalInput =
  sti_files :: "(string \<times> string) list"
  sti_ttlSeconds :: int
  sti_claudeCode :: "bool option"

text \<open>An optional property: absent, or what its schema makes of it.\<close>

definition optional_prop :: "string \<Rightarrow> (string \<times> json) list \<Rightarrow> 'a \<Rightarrow> (json \<Rightarrow> 'a option) \<Rightarrow> 'a option" where
  "optional_prop k kvs dflt f = (case map_of kvs k of None \<Rightarrow> Some dflt | Some j \<Rightarrow> f j)"

fun json_bool :: "json \<Rightarrow> bool option" where
  "json_bool (JBool b) = Some b"
| "json_bool _ = None"

definition json_int_in :: "int \<Rightarrow> int \<Rightarrow> json \<Rightarrow> int option" where
  "json_int_in lo hi j = (case j of JNum i \<Rightarrow> if lo \<le> i \<and> i \<le> hi then Some i else None | _ \<Rightarrow> None)"

definition zod_error :: jin_error where "zod_error = OtherError ''ZodError''"

text \<open>\<open>StartTerminalApprovedPayloadSchema.parse\<close>, strict: another property is refused.\<close>

definition parse_start :: "json \<Rightarrow> jin_error + (string \<times> StartTerminalInput)" where
  "parse_start j =
     (case j of
        JObj kvs \<Rightarrow>
          if \<not> fst ` set kvs \<subseteq> {''files'', ''ttlSeconds'', ''claudeCode'', ''workspaceId''} then Inl zod_error
          else (case (optional_prop ''files'' kvs [] TerminalFilesSchema,
                      Option.bind (map_of kvs ''ttlSeconds'') (json_int_in 300 (4 * 60 * 60)),
                      optional_prop ''claudeCode'' kvs None (\<lambda>v. map_option Some (json_bool v)),
                      Option.bind (map_of kvs ''workspaceId'') WorkspaceIdSchema) of
              (Some files, Some ttl, Some claude, Some ws) \<Rightarrow>
                Inr (ws, \<lparr> sti_files = files, sti_ttlSeconds = ttl, sti_claudeCode = claude \<rparr>)
            | _ \<Rightarrow> Inl zod_error)
      | _ \<Rightarrow> Inl zod_error)"

record ExposeTerminalInput =
  eti_dir :: string
  eti_slugHint :: "string option"

definition json_text :: "(string \<Rightarrow> bool) \<Rightarrow> json \<Rightarrow> string option" where
  "json_text p j = (case j of JStr s \<Rightarrow> if p s then Some s else None | _ \<Rightarrow> None)"

definition slug_hint_ok :: "string \<Rightarrow> bool" where
  "slug_hint_ok s \<longleftrightarrow> 1 \<le> length s \<and> length s \<le> 40"

text \<open>\<open>ExposeApprovedPayloadSchema.parse\<close>.\<close>

definition parse_expose :: "json \<Rightarrow> jin_error + (string \<times> ExposeTerminalInput)" where
  "parse_expose j =
     (case j of
        JObj kvs \<Rightarrow>
          if \<not> fst ` set kvs \<subseteq> {''dir'', ''slugHint'', ''workspaceId''} then Inl zod_error
          else (case (optional_prop ''dir'' kvs ''dist'' (json_text SafePath),
                      optional_prop ''slugHint'' kvs None (\<lambda>v. map_option Some (json_text slug_hint_ok v)),
                      Option.bind (map_of kvs ''workspaceId'') WorkspaceIdSchema) of
              (Some dir, Some hint, Some ws) \<Rightarrow> Inr (ws, \<lparr> eti_dir = dir, eti_slugHint = hint \<rparr>)
            | _ \<Rightarrow> Inl zod_error)
      | _ \<Rightarrow> Inl zod_error)"

section \<open>The executor and the state\<close>

record FsWriteInput =
  fwi_path :: string
  fwi_content :: string
  fwi_expectedSha256 :: "string option"
  fwi_force :: bool

datatype exec_call =
    XStart string StartTerminalInput "uuid option"
  | XExpose string string "string option" int
  | XStopPod string
  | XDeleteWorkspace string
  | XImport string "(string \<times> string) list"
  | XFsWrite string FsWriteInput
  | XFsMkdir string string
  | XFsDelete string string
  | XOpenExec string string "int option"
  | XStartService string string int
  | XStopService string int
  | XExport string string
  | XFsList string string
  | XFsRead string string
  | XListServices string
  | XServiceLogs string int
  | XProxy string int string string

record owner_db = hitl_db +
  od_calls :: "exec_call list"

definition call_executor :: "(jin_error + json) \<Rightarrow> exec_call \<Rightarrow> owner_db \<Rightarrow> (jin_error + json) \<times> owner_db" where
  "call_executor answer c w = (answer, w\<lparr> od_calls := od_calls w @ [c] \<rparr>)"

text \<open>Audit first: without its row there is no call.\<close>

definition audited_call :: "(string \<Rightarrow> string) \<Rightarrow> audit_io \<Rightarrow> uuid \<Rightarrow> string \<Rightarrow> json \<Rightarrow> string \<Rightarrow> (jin_error + json)
    \<Rightarrow> exec_call \<Rightarrow> owner_db \<Rightarrow> (jin_error + json) \<times> owner_db" where
  "audited_call sha io u tool inputs plan answer c w =
     bind_result (pty_audit sha io u tool inputs plan w) (\<lambda>_ w. call_executor answer c w)"

section \<open>The approvals\<close>

definition START_TERMINAL_SESSION_TOOL :: string where "START_TERMINAL_SESSION_TOOL = ''startTerminalSession''"
definition EXPOSE_TERMINAL_SESSION_TOOL :: string where "EXPOSE_TERMINAL_SESSION_TOOL = ''exposeTerminalSession''"

datatype workspace_status = WsStopped | WsStarting | WsRunning | WsExpired | WsFailed

record TerminalWorkspaceInfo =
  wi_id :: string
  wi_status :: workspace_status
  wi_exposed :: bool

text \<open>\<open>Math.round(seconds / 60)\<close> and the hours when they are whole.\<close>

definition ttlLabel :: "int \<Rightarrow> string" where
  "ttlLabel seconds =
     (if 1 \<le> seconds div 3600 \<and> seconds mod 3600 = 0 then show_int (seconds div 3600) @ '' h''
      else show_int ((seconds + 30) div 60) @ '' min'')"

definition files_json :: "(string \<times> string) list \<Rightarrow> json" where
  "files_json files = JObj (map (\<lambda>(p, t). (p, JStr t)) files)"

definition start_payload :: "string \<Rightarrow> StartTerminalInput \<Rightarrow> json" where
  "start_payload ws i = JObj ([(''workspaceId'', JStr ws), (''files'', files_json (sti_files i)),
     (''ttlSeconds'', JNum (sti_ttlSeconds i))]
     @ (case sti_claudeCode i of Some b \<Rightarrow> [(''claudeCode'', JBool b)] | None \<Rightarrow> []))"

definition start_plan :: "bool \<Rightarrow> StartTerminalInput \<Rightarrow> string" where
  "start_plan existing i =
     (let ttl = ttlLabel (sti_ttlSeconds i); n = length (sti_files i) in
      if sti_claudeCode i = Some True then
        (if existing then ''Reanudar'' else ''Abrir'') @ '' la terminal de este proyecto por '' @ ttl
        @ '' CON ACCESO A CLAUDE CODE: el pod podr'' @ [CHR 0xE1] @ '' salir a los servidores de Anthropic (solo a ellos, por un proxy del cl''
        @ [CHR 0xFA] @ ''ster) y guardar tu token de suscripci'' @ [CHR 0xF3] @ ''n de Claude. Un c'' @ [CHR 0xF3]
        @ ''digo malicioso dentro del pod (p. ej. un paquete de npm) podr'' @ [CHR 0xED]
        @ ''a leer ese token. Los comandos los escribes t'' @ [CHR 0xFA] @ ''.''
      else if existing then
        ''Reanudar la terminal de este proyecto por '' @ ttl @ '': el mismo disco, tal como qued'' @ [CHR 0xF3] @ ''.''
      else ''Abrir una terminal aislada para este proyecto por '' @ ttl @ '' ('' @ show_nat n @ '' archivo''
        @ (if n = 1 then [] else ''s'') @ '' del editor): un pod sin m'' @ [CHR 0xE1]
        @ ''s red que el proxy de npm del cl'' @ [CHR 0xFA] @ ''ster. Los comandos los escribes t'' @ [CHR 0xFA] @ ''.'')"

definition request_approval :: "(string \<Rightarrow> string) \<Rightarrow> timestamp \<Rightarrow> audit_io \<Rightarrow> uuid \<Rightarrow> string \<Rightarrow> string \<Rightarrow> json \<Rightarrow> owner_db
    \<Rightarrow> (jin_error + uuid) \<times> owner_db" where
  "request_approval sha now io rid tool plan payload w =
     bind_result
       (createPendingApproval sha now io
          \<lparr> c_requestId = rid, c_toolName = tool, c_level = ''confirm'',
            c_inputsHash = computeInputsHash sha (Some payload), c_planSummary = Some plan,
            c_payload = Some payload, c_actor = Some TERMINAL_ACTOR, c_externalInputsSummary = None \<rparr> w)
       (\<lambda>_ w. (Inr rid, w))"

text \<open>\<open>workspaces\<close> is what \<open>executor.list()\<close> answered.\<close>

definition find_workspace :: "string \<Rightarrow> TerminalWorkspaceInfo list \<Rightarrow> TerminalWorkspaceInfo option" where
  "find_workspace ws wss = List.find (\<lambda>x. wi_id x = ws) wss"

definition requestStart :: "(string \<Rightarrow> string) \<Rightarrow> timestamp \<Rightarrow> audit_io \<Rightarrow> uuid \<Rightarrow> jin_error + TerminalWorkspaceInfo list
    \<Rightarrow> string \<Rightarrow> StartTerminalInput \<Rightarrow> owner_db \<Rightarrow> (jin_error + uuid) \<times> owner_db" where
  "requestStart sha now io rid workspaces ws i w =
     (case workspaces of
        Inl e \<Rightarrow> (Inl e, w)
      | Inr wss \<Rightarrow>
          let existing = find_workspace ws wss in
          if (case existing of Some x \<Rightarrow> wi_status x = WsRunning \<or> wi_status x = WsStarting | None \<Rightarrow> False)
          then (Inl (TerminalUpstreamError 409 ''Este proyecto ya tiene su terminal abierta.'' None), w)
          else request_approval sha now io rid START_TERMINAL_SESSION_TOOL (start_plan (existing \<noteq> None) i)
                 (start_payload ws i) w)"

definition expose_payload :: "string \<Rightarrow> ExposeTerminalInput \<Rightarrow> json" where
  "expose_payload ws i = JObj ([(''workspaceId'', JStr ws), (''dir'', JStr (eti_dir i))]
     @ (case eti_slugHint i of Some h \<Rightarrow> [(''slugHint'', JStr h)] | None \<Rightarrow> []))"

definition expose_plan :: "ExposeTerminalInput \<Rightarrow> string" where
  "expose_plan i = ''Publicar el directorio '' @ [CHR 0x22] @ eti_dir i @ [CHR 0x22]
     @ '' de la terminal en https://<slug>.jinserver.com: un link p'' @ [CHR 0xFA]
     @ ''blico hasta que venza la sesi'' @ [CHR 0xF3] @ ''n. Sirve los archivos tal cual con el servidor est''
     @ [CHR 0xE1] @ ''tico de Jin.''"

definition requestExpose :: "(string \<Rightarrow> string) \<Rightarrow> timestamp \<Rightarrow> audit_io \<Rightarrow> uuid \<Rightarrow> jin_error + TerminalWorkspaceInfo list
    \<Rightarrow> string \<Rightarrow> ExposeTerminalInput \<Rightarrow> owner_db \<Rightarrow> (jin_error + uuid) \<times> owner_db" where
  "requestExpose sha now io rid workspaces ws i w =
     (case workspaces of
        Inl e \<Rightarrow> (Inl e, w)
      | Inr wss \<Rightarrow>
          (case find_workspace ws wss of
             None \<Rightarrow> (Inl (TerminalUpstreamError 404
               (''La terminal de ese proyecto no est'' @ [CHR 0xE1] @ '' corriendo.'') None), w)
           | Some x \<Rightarrow>
               if wi_status x \<noteq> WsRunning then (Inl (TerminalUpstreamError 404
                 (''La terminal de ese proyecto no est'' @ [CHR 0xE1] @ '' corriendo.'') None), w)
               else if wi_exposed x then (Inl (TerminalUpstreamError 409
                 (''Este proyecto ya public'' @ [CHR 0xF3] @ '' un build. Cierra la terminal para publicar otro.'') None), w)
               else request_approval sha now io rid EXPOSE_TERMINAL_SESSION_TOOL (expose_plan i) (expose_payload ws i) w))"

text \<open>
  The executors of the two approvals: the stored payload is validated again; the request id comes
  from the approval, not from the payload.
\<close>

definition applyStart :: "(jin_error + json) \<Rightarrow> owner_db executor" where
  "applyStart answer payload rid w =
     (case parse_start (case payload of Some j \<Rightarrow> j | None \<Rightarrow> JNull) of
        Inl e \<Rightarrow> (Inl e, w)
      | Inr (ws, i) \<Rightarrow> call_executor answer (XStart ws i rid) w)"

definition applyExpose :: "(jin_error + json) \<Rightarrow> owner_db executor" where
  "applyExpose answer payload rid w =
     (case parse_expose (case payload of Some j \<Rightarrow> j | None \<Rightarrow> JNull) of
        Inl e \<Rightarrow> (Inl e, w)
      | Inr (ws, i) \<Rightarrow> call_executor answer (XExpose ws (eti_dir i) (eti_slugHint i) TERMINAL_STATIC_PORT) w)"

definition onModuleInit :: "(jin_error + json) \<Rightarrow> owner_db executors \<Rightarrow> jin_error + owner_db executors" where
  "onModuleInit answer reg =
     (case register START_TERMINAL_SESSION_TOOL (applyStart answer) reg of
        Inl e \<Rightarrow> Inl e
      | Inr reg1 \<Rightarrow> register EXPOSE_TERMINAL_SESSION_TOOL (applyExpose answer) reg1)"

section \<open>Without approval\<close>

definition STOP_TERMINAL_SESSION_TOOL :: string where "STOP_TERMINAL_SESSION_TOOL = ''stopTerminalSession''"
definition DELETE_TERMINAL_WORKSPACE_TOOL :: string where "DELETE_TERMINAL_WORKSPACE_TOOL = ''deleteTerminalWorkspace''"
definition WRITE_TERMINAL_FILE_TOOL :: string where "WRITE_TERMINAL_FILE_TOOL = ''writeTerminalFile''"
definition MAKE_TERMINAL_DIR_TOOL :: string where "MAKE_TERMINAL_DIR_TOOL = ''makeTerminalDir''"
definition DELETE_TERMINAL_ENTRY_TOOL :: string where "DELETE_TERMINAL_ENTRY_TOOL = ''deleteTerminalEntry''"

definition ws_inputs :: "string \<Rightarrow> (string \<times> json) list \<Rightarrow> json" where
  "ws_inputs ws kvs = JObj ((''workspaceId'', JStr ws) # kvs)"

definition stopPod where
  "stopPod sha io u answer ws =
     audited_call sha io u STOP_TERMINAL_SESSION_TOOL (ws_inputs ws [])
       ''terminal: detener el pod (el disco se conserva)'' answer (XStopPod ws)"

definition deleteWorkspace where
  "deleteWorkspace sha io u answer ws =
     audited_call sha io u DELETE_TERMINAL_WORKSPACE_TOOL (ws_inputs ws [])
       ''terminal: borrar el proyecto (pod y disco)'' answer (XDeleteWorkspace ws)"

definition importFiles where
  "importFiles sha io u answer ws files =
     audited_call sha io u RUN_TERMINAL_COMMAND_TOOL
       (ws_inputs ws [(''files'', JArr (map (\<lambda>(p, t). JStr p) files))])
       (''terminal: copiar '' @ show_nat (length files) @ '' archivo'' @ (if length files = 1 then [] else ''s'')
         @ '' del editor al proyecto'') answer (XImport ws files)"

text \<open>The path goes to the audit, the content never.\<close>

definition fsWrite where
  "fsWrite sha io u answer ws i =
     audited_call sha io u WRITE_TERMINAL_FILE_TOOL
       (ws_inputs ws [(''path'', JStr (fwi_path i)), (''force'', JBool (fwi_force i))])
       (''terminal: guardar '' @ take AUDIT_COMMAND_PREVIEW_LENGTH (fwi_path i)
         @ (if fwi_force i then '' (sobrescribir)'' else [])) answer (XFsWrite ws i)"

definition fsMkdir where
  "fsMkdir sha io u answer ws path =
     audited_call sha io u MAKE_TERMINAL_DIR_TOOL (ws_inputs ws [(''path'', JStr path)])
       (''terminal: crear carpeta '' @ take AUDIT_COMMAND_PREVIEW_LENGTH path) answer (XFsMkdir ws path)"

definition fsDelete where
  "fsDelete sha io u answer ws path =
     audited_call sha io u DELETE_TERMINAL_ENTRY_TOOL (ws_inputs ws [(''path'', JStr path)])
       (''terminal: borrar '' @ take AUDIT_COMMAND_PREVIEW_LENGTH path) answer (XFsDelete ws path)"

definition command_preview :: "string \<Rightarrow> string" where
  "command_preview command = map char_of (auditPreview (codes command) AUDIT_COMMAND_PREVIEW_LENGTH)"

definition exec_command where
  "exec_command sha io u answer ws command timeout =
     audited_call sha io u RUN_TERMINAL_COMMAND_TOOL (ws_inputs ws [(''command'', JStr command)])
       (''terminal: '' @ command_preview command) answer (XOpenExec ws command timeout)"

definition startService where
  "startService sha io u answer ws command port =
     audited_call sha io u RUN_TERMINAL_COMMAND_TOOL
       (ws_inputs ws [(''command'', JStr command), (''port'', JNum port)])
       (''terminal: [servidor :'' @ show_int port @ ''] '' @ command_preview command) answer
       (XStartService ws command port)"

definition stopService where
  "stopService sha io u answer ws port =
     audited_call sha io u RUN_TERMINAL_COMMAND_TOOL (ws_inputs ws [(''stopPort'', JNum port)])
       (''terminal: detener el servidor :'' @ show_int port) answer (XStopService ws port)"

text \<open>Those that only read or forward a request of the owner are not audited.\<close>

definition exportFiles where "exportFiles answer ws dir = call_executor answer (XExport ws dir)"
definition fsList where "fsList answer ws path = call_executor answer (XFsList ws path)"
definition fsRead where "fsRead answer ws path = call_executor answer (XFsRead ws path)"
definition listServices where "listServices answer ws = call_executor answer (XListServices ws)"
definition serviceLogs where "serviceLogs answer ws port = call_executor answer (XServiceLogs ws port)"
definition previewRequest where "previewRequest answer ws port meth target = call_executor answer (XProxy ws port meth target)"

text \<open>All the operations of the service that need no approval.\<close>

datatype owner_op =
    StopPod string | DeleteWorkspace string | ImportFiles string "(string \<times> string) list"
  | FsWrite string FsWriteInput | FsMkdir string string | FsDelete string string
  | Exec string string "int option" | StartService string string int | StopService string int
  | ExportFiles string string | FsList string string | FsRead string string
  | ListServices string | ServiceLogs string int | PreviewRequest string int string string

fun owner_run :: "(string \<Rightarrow> string) \<Rightarrow> audit_io \<Rightarrow> uuid \<Rightarrow> (jin_error + json) \<Rightarrow> owner_op \<Rightarrow> owner_db
    \<Rightarrow> (jin_error + json) \<times> owner_db" where
  "owner_run sha io u answer (StopPod ws) = stopPod sha io u answer ws"
| "owner_run sha io u answer (DeleteWorkspace ws) = deleteWorkspace sha io u answer ws"
| "owner_run sha io u answer (ImportFiles ws fs) = importFiles sha io u answer ws fs"
| "owner_run sha io u answer (FsWrite ws i) = fsWrite sha io u answer ws i"
| "owner_run sha io u answer (FsMkdir ws p) = fsMkdir sha io u answer ws p"
| "owner_run sha io u answer (FsDelete ws p) = fsDelete sha io u answer ws p"
| "owner_run sha io u answer (Exec ws c t) = exec_command sha io u answer ws c t"
| "owner_run sha io u answer (StartService ws c p) = startService sha io u answer ws c p"
| "owner_run sha io u answer (StopService ws p) = stopService sha io u answer ws p"
| "owner_run sha io u answer (ExportFiles ws d) = exportFiles answer ws d"
| "owner_run sha io u answer (FsList ws p) = fsList answer ws p"
| "owner_run sha io u answer (FsRead ws p) = fsRead answer ws p"
| "owner_run sha io u answer (ListServices ws) = listServices answer ws"
| "owner_run sha io u answer (ServiceLogs ws p) = serviceLogs answer ws p"
| "owner_run sha io u answer (PreviewRequest ws p m r) = previewRequest answer ws p m r"

lemmas reading_ops = exportFiles_def fsList_def fsRead_def listServices_def serviceLogs_def previewRequest_def

lemmas audited_ops = stopPod_def deleteWorkspace_def importFiles_def fsWrite_def fsMkdir_def fsDelete_def
  exec_command_def startService_def stopService_def

section \<open>Audited before it is called\<close>

fun reads_only :: "exec_call \<Rightarrow> bool" where
  "reads_only (XExport _ _) = True" | "reads_only (XFsList _ _) = True" | "reads_only (XFsRead _ _) = True"
| "reads_only (XListServices _) = True" | "reads_only (XServiceLogs _ _) = True"
| "reads_only (XProxy _ _ _ _) = True" | "reads_only _ = False"

text \<open>The calls that only an approval makes.\<close>

fun needs_approval :: "exec_call \<Rightarrow> bool" where
  "needs_approval (XStart _ _ _) = True" | "needs_approval (XExpose _ _ _ _) = True"
| "needs_approval _ = False"

text \<open>Whether a text mentions a Claude token.\<close>

definition mentions_token :: "string \<Rightarrow> bool" where
  "mentions_token s \<longleftrightarrow> shows_token (codes s)"

definition owner_row :: "AuditLogRow \<Rightarrow> bool" where
  "owner_row row \<longleftrightarrow> a_actor row = TERMINAL_ACTOR \<and> a_actionType row = ''tool_call''
     \<and> a_approvalStatus row = ''auto'' \<and> a_toolName row \<noteq> None \<and> a_planSummary row \<noteq> None"

definition audit_fails :: "audit_io \<Rightarrow> owner_db \<Rightarrow> bool" where
  "audit_fails io w \<longleftrightarrow> isLocked w \<or> io_fault io \<noteq> None"

definition outcome_ok :: "owner_db \<Rightarrow> bool \<Rightarrow> (jin_error + json) \<times> owner_db \<Rightarrow> bool" where
  "outcome_ok w failing r \<longleftrightarrow>
     (\<exists>e. failing \<and> r = (Inl e, w))
     \<or> (\<exists>rows c. audit_log (snd r) = audit_log w @ rows \<and> od_calls (snd r) = od_calls w @ [c]
          \<and> \<not> needs_approval c \<and> pending_approvals (snd r) = pending_approvals w
          \<and> (if reads_only c then rows = []
             else \<not> failing \<and> (\<exists>row. rows = [row] \<and> owner_row row)))"

lemma pty_audit_cases:
  obtains (failed) e where "isLocked w \<or> io_fault io \<noteq> None" "pty_audit sha io u tool inputs plan w = (Inl e, w)"
  | (written) row where "\<not> isLocked w" "io_fault io = None" "owner_row row"
      "pty_audit sha io u tool inputs plan w
        = (Inr (), w\<lparr> audit_log := audit_log w @ [row], audit_next_id := audit_next_id w + 1 \<rparr>)"
proof (cases "isLocked w \<or> io_fault io \<noteq> None")
  case True
  then show thesis
    by (intro failed [of "if isLocked w then AuditChainLockedError else OtherError (the (io_fault io))"])
      (auto simp: pty_audit_def recordToolCall_def appendRow_def)
next
  case False
  let ?d = "toolCallData u TERMINAL_ACTOR tool (computeInputsHash sha (Some inputs)) (Some plan) ''auto'' None"
  let ?row = "mk_row ?d (io_now io) (audit_next_id w) (last_hash w)
    (computeRowHash sha (last_hash w) (hashable ?d (io_now io)))"
  have "owner_row ?row" by (simp add: owner_row_def mk_row_def)
  moreover have "pty_audit sha io u tool inputs plan w
      = (Inr (), w\<lparr> audit_log := audit_log w @ [?row], audit_next_id := audit_next_id w + 1 \<rparr>)"
    using False by (simp add: pty_audit_def recordToolCall_def appendRow_def Let_def)
  ultimately show thesis using False written by blast
qed

lemma audited_call_ok:
  assumes "\<not> needs_approval c" "\<not> reads_only c"
  shows "outcome_ok w (audit_fails io w) (audited_call sha io u tool inputs plan answer c w)"
proof (cases rule: pty_audit_cases [of w io sha u tool inputs plan])
  case (failed e)
  then show ?thesis by (simp add: audit_fails_def outcome_ok_def audited_call_def)
next
  case (written row)
  then show ?thesis using assms
    by (simp add: audit_fails_def outcome_ok_def audited_call_def call_executor_def)
qed

lemma read_call_ok: "reads_only c \<Longrightarrow> outcome_ok w failing (call_executor answer c w)"
  by (cases c) (simp_all add: outcome_ok_def call_executor_def)

text \<open>C29: Of the operations the owner runs without approval, each one that changes something is
  audited first: either its audit fails and the executor is not called and nothing changes, or one
  row of the owner is written and then exactly one call is made. Reading writes no row. None of
  them starts a pod or publishes a build, and none touches the pending approvals.
\<close>

theorem owner_operations_audited_first:
  "outcome_ok w (audit_fails io w) (owner_run sha io u answer op w)"
  by (cases op; simp only: owner_run.simps audited_ops reading_ops; (rule audited_call_ok read_call_ok; simp))

section \<open>What is approved is what is started\<close>

lemma map_of_payload [simp]: "map_of (map (\<lambda>(p, t). (p, JStr t)) files) k = map_option JStr (map_of files k)"
  by (induction files) auto

lemma text_entries_files: "text_entries (map (\<lambda>(p, t). (p, JStr t)) files) = Some files"
  by (induction files) auto

text \<open>The inputs the controller lets through: what the schema of the request accepts.\<close>

definition start_input_ok :: "string \<Rightarrow> StartTerminalInput \<Rightarrow> bool" where
  "start_input_ok ws i \<longleftrightarrow> uuid_shape ws \<and> map to_lower_hex ws = ws \<and> files_ok (sti_files i)
     \<and> 300 \<le> sti_ttlSeconds i \<and> sti_ttlSeconds i \<le> 4 * 60 * 60"

lemma parse_start_payload:
  assumes "start_input_ok ws i"
  shows "parse_start (start_payload ws i) = Inr (ws, i)"
  using assms
  by (auto simp: parse_start_def start_payload_def optional_prop_def files_json_def TerminalFilesSchema_def
      text_entries_files json_int_in_def WorkspaceIdSchema_def start_input_ok_def split: option.splits)

definition expose_input_ok :: "string \<Rightarrow> ExposeTerminalInput \<Rightarrow> bool" where
  "expose_input_ok ws i \<longleftrightarrow> uuid_shape ws \<and> map to_lower_hex ws = ws \<and> SafePath (eti_dir i)
     \<and> (\<forall>h. eti_slugHint i = Some h \<longrightarrow> slug_hint_ok h)"

lemma parse_expose_payload:
  assumes "expose_input_ok ws i"
  shows "parse_expose (expose_payload ws i) = Inr (ws, i)"
  using assms
  by (auto simp: parse_expose_def expose_payload_def optional_prop_def json_text_def WorkspaceIdSchema_def
      expose_input_ok_def split: option.splits)


lemma createPendingApproval_ok:
  fixes w :: owner_db
  assumes "getPending (c_requestId i) w = None" "\<not> isLocked w" "io_fault io = None"
  obtains row where "createPendingApproval sha now io i w = (Inr (), w\<lparr>
      pending_approvals := pending_approvals w @ [new_row i now], audit_log := audit_log w @ [row],
      audit_next_id := audit_next_id w + 1,
      events := events w @ [PendingApprovalCreated (c_requestId i) (c_toolName i) (c_level i)] \<rparr>)"
    "a_requestId row = c_requestId i" "a_approvalStatus row = ''pending''"
  using assms
  by (auto simp: createPendingApproval_def recordToolCall_def appendRow_def Let_def isLocked_def emit_def mk_row_def)

lemma hitl_calls [simp]:
  fixes w :: owner_db
  shows "od_calls (snd (claimForExecution k now w)) = od_calls w"
    "od_calls (releaseClaim k n w) = od_calls w" "od_calls (removePending k w) = od_calls w"
    "od_calls (snd (recordExecutionFailure sha io k t h w)) = od_calls w"
    "od_calls (ready_state xio k row w) = od_calls w"
proof -
  show c: "od_calls (snd (claimForExecution k now w)) = od_calls w" for now
    by (simp add: claimForExecution_def Let_def split: list.split)
  show "od_calls (releaseClaim k n w) = od_calls w" by (simp add: releaseClaim_def)
  show "od_calls (removePending k w) = od_calls w" by (simp add: removePending_def)
  show "od_calls (snd (recordExecutionFailure sha io k t h w)) = od_calls w"
    by (simp add: recordExecutionFailure_def appendRow_def Let_def split: option.split)
  show "od_calls (ready_state xio k row w) = od_calls w" by (simp add: ready_state_def c)
qed

lemma onModuleInit_start:
  "onModuleInit answer reg = Inr reg' \<Longrightarrow> reg' START_TERMINAL_SESSION_TOOL = Some (applyStart answer)
     \<and> reg' EXPOSE_TERMINAL_SESSION_TOOL = Some (applyExpose answer)"
  by (auto simp: onModuleInit_def register_def START_TERMINAL_SESSION_TOOL_def EXPOSE_TERMINAL_SESSION_TOOL_def
      split: sum.splits if_splits)

text \<open>What approving a pending request of the terminal calls: once, with the stored payload.\<close>

lemma approve_calls:
  fixes w :: owner_db
  assumes wf: "hitl_wf w" and row: "getPending rid w = Some row" "p_level row = ''confirm''" "p_executingAt row = None"
    and audit: "\<not> isLocked w" "io_fault (x_audit xio) = None"
    and ex: "reg (p_toolName row) = Some ex"
    and calls: "\<And>v. ex (p_payload row) (Some rid) v = call_executor answer c v"
  shows "od_calls (snd (resolveAndExecute sha reg xio rid approver w)) = od_calls w @ [c]"
  using wf
proof (cases rule: resolve_cases [where sha = sha and io = xio and k = rid and who = approver])
  case (ran r arow)
  then have r: "r = row" using row by simp
  have "execute reg (p_toolName row) (p_payload row) (Some rid) (ready_state xio rid arow w)
      = call_executor answer c (ready_state xio rid arow w)"
    using ex calls by (simp add: execute_def)
  then show ?thesis
    unfolding ran(7) r by (cases answer) (simp_all add: call_executor_def)
qed (use row audit in \<open>simp_all add: dc_confirm\<close>)

lemma request_approval_asked:
  fixes w :: owner_db
  assumes "request_approval sha now io rid tool plan payload w = (Inr r, w1)" "hitl_wf w"
  shows "r = rid \<and> hitl_wf w1 \<and> od_calls w1 = od_calls w \<and> \<not> isLocked w1
    \<and> (\<exists>row. getPending rid w1 = Some row \<and> p_toolName row = tool \<and> p_level row = ''confirm''
        \<and> p_payload row = Some payload \<and> p_executingAt row = None)
    \<and> (\<exists>arow. audit_log w1 = audit_log w @ [arow] \<and> a_requestId arow = rid \<and> a_approvalStatus arow = ''pending'')"
proof -
  define i where "i = \<lparr> c_requestId = rid, c_toolName = tool, c_level = ''confirm'',
    c_inputsHash = computeInputsHash sha (Some payload), c_planSummary = Some plan,
    c_payload = Some payload, c_actor = Some TERMINAL_ACTOR, c_externalInputsSummary = None \<rparr>"
  have i: "c_requestId i = rid" "c_toolName i = tool" "c_level i = ''confirm''" "c_payload i = Some payload"
    by (simp_all add: i_def)
  have run: "request_approval sha now io rid tool plan payload w
      = bind_result (createPendingApproval sha now io i w) (\<lambda>_ w. (Inr rid, w))"
    by (simp only: request_approval_def i_def)
  have none: "getPending (c_requestId i) w = None"
    by (rule ccontr) (use assms(1) run in \<open>simp add: createPendingApproval_def\<close>)
  have locked: "isLocked (w\<lparr> pending_approvals := ps \<rparr>) = isLocked w" for ps by (simp add: isLocked_def)
  have lock: "\<not> isLocked w"
  proof
    assume "isLocked w"
    then have "createPendingApproval sha now io i w = (Inl AuditChainLockedError,
        w\<lparr> pending_approvals := pending_approvals w @ [new_row i now] \<rparr>)"
      using none by (simp add: createPendingApproval_def recordToolCall_def appendRow_def locked)
    then show False using assms(1) run by simp
  qed
  have fault: "io_fault io = None"
  proof (cases "io_fault io")
    case (Some e)
    then have "createPendingApproval sha now io i w = (Inl (OtherError e),
        w\<lparr> pending_approvals := pending_approvals w @ [new_row i now] \<rparr>)"
      using none lock by (simp add: createPendingApproval_def recordToolCall_def appendRow_def locked)
    then show ?thesis using assms(1) run by simp
  qed
  obtain row where c: "createPendingApproval sha now io i w = (Inr (), w\<lparr>
      pending_approvals := pending_approvals w @ [new_row i now], audit_log := audit_log w @ [row],
      audit_next_id := audit_next_id w + 1,
      events := events w @ [PendingApprovalCreated (c_requestId i) (c_toolName i) (c_level i)] \<rparr>)"
    "a_requestId row = c_requestId i" "a_approvalStatus row = ''pending''"
    by (rule createPendingApproval_ok [OF none lock fault])
  then have w1: "w1 = w\<lparr> pending_approvals := pending_approvals w @ [new_row i now], audit_log := audit_log w @ [row],
      audit_next_id := audit_next_id w + 1,
      events := events w @ [PendingApprovalCreated (c_requestId i) (c_toolName i) (c_level i)] \<rparr>"
    and r: "r = rid" using assms(1) run by simp_all
  have fresh: "rid \<notin> p_requestId ` set (pending_approvals w)" using none i by (simp add: getPending_def)
  have "hitl_wf w1" using assms(2) fresh i by (auto simp: w1 hitl_wf_def new_row_def)
  moreover have "getPending rid w1 = Some (new_row i now)"
  proof -
    have "lookup_row p_requestId rows rid = None \<Longrightarrow>
      lookup_row p_requestId (rows @ [x]) rid = (if p_requestId x = rid then Some x else None)" for rows :: "PendingApprovalRow list" and x
      by (induction rows) (auto simp del: lookup_row_None_iff split: if_splits)
    moreover have "lookup_row p_requestId (pending_approvals w) rid = None" using none i by (simp only: getPending_def)
    ultimately show ?thesis using i by (simp add: w1 getPending_def new_row_def del: lookup_row_None_iff)
  qed
  moreover have "od_calls w1 = od_calls w" "\<not> isLocked w1" "audit_log w1 = audit_log w @ [row]"
    using lock by (simp_all add: w1 isLocked_def)
  ultimately show ?thesis using r i c(2,3) by (simp add: new_row_def)
qed


lemma request_approval_runs:
  assumes "getPending rid w = None" "\<not> isLocked w" "io_fault io = None"
  shows "\<exists>w1. request_approval sha now io rid tool plan payload w = (Inr rid, w1)"
proof -
  define i where "i = \<lparr> c_requestId = rid, c_toolName = tool, c_level = ''confirm'',
    c_inputsHash = computeInputsHash sha (Some payload), c_planSummary = Some plan,
    c_payload = Some payload, c_actor = Some TERMINAL_ACTOR, c_externalInputsSummary = None \<rparr>"
  have "getPending (c_requestId i) w = None" using assms(1) by (simp add: i_def)
  then obtain w1 where "createPendingApproval sha now io i w = (Inr (), w1)"
    using createPendingApproval_ok [OF _ assms(2,3)] by blast
  then show ?thesis by (simp add: request_approval_def i_def)
qed

section \<open>Witness\<close>

definition sample_owner :: owner_db where
  "sample_owner = \<lparr> audit_log = [], audit_next_id = 1, audit_chain_lock = None, pending_approvals = [], events = [],
     od_calls = [] \<rparr>"

definition sample_ws :: string where
  "sample_ws = ''00000000-0000-4000-8000-00000000000a''"

definition sample_start :: StartTerminalInput where
  "sample_start = \<lparr> sti_files = [(''src/a.ts'', ''x'')], sti_ttlSeconds = 3600, sti_claudeCode = Some True \<rparr>"

definition sample_exec_io :: exec_io where
  "sample_exec_io = \<lparr> x_approvalNow = 5, x_claimNow = 5, x_audit = \<lparr> io_now = 5, io_fault = None \<rparr>,
     x_failureAudit = \<lparr> io_now = 5, io_fault = None \<rparr>, x_removeFault = False \<rparr>"

lemma sample_start_ok: "start_input_ok sample_ws sample_start"
proof -
  have "uuid_shape sample_ws" "map to_lower_hex sample_ws = sample_ws" by code_simp+
  moreover have "SafePath ''src/a.ts''" "byte_length ''src/a.ts'' + byte_length ''x'' = 9"
    by (simp_all add: SafePath_def starts_slash_def byte_length_def)
  ultimately show ?thesis
    by (simp add: start_input_ok_def files_ok_def sample_start_def TERMINAL_MAX_FILES_def TERMINAL_MAX_TOTAL_BYTES_def)
qed

lemma sample_request:
  "\<exists>w1. requestStart id 1 \<lparr> io_now = 1, io_fault = None \<rparr> ''rq'' (Inr []) sample_ws sample_start sample_owner
     = (Inr ''rq'', w1)"
proof -
  have "getPending ''rq'' sample_owner = None" "\<not> isLocked sample_owner"
    by (simp_all add: getPending_def isLocked_def sample_owner_def)
  then have "\<exists>w1. request_approval id 1 \<lparr> io_now = 1, io_fault = None \<rparr> ''rq'' START_TERMINAL_SESSION_TOOL
      (start_plan False sample_start) (start_payload sample_ws sample_start) sample_owner = (Inr ''rq'', w1)"
    by (rule request_approval_runs) simp
  then show ?thesis by (simp only: requestStart_def find_workspace_def sum.case Let_def List.find.simps option.case
      if_False not_None_eq option.distinct simp_thms ex_simps)
qed


end
