(* ===== verification/Push.thy ===== *)
theory Push
  imports Ledger Budget Js_Json Js_Unicode
begin

text \<open>
  Push notifications of the iOS app (\<open>src/push/\<close>): the payloads (\<open>push.payloads.ts\<close>), the two tables
  (\<open>push.store.ts\<close>), who is told of what and what an answer of Apple does (\<open>push.types.ts\<close>, \<open>apns.client.ts\<close>,
  \<open>push.service.ts\<close>). Apple's servers are an argument: the answer to each notification; \<open>pd_sent\<close> is
  what was sent. A read of the database that fails is an \<open>Inl\<close>, which the service swallows. Dates of a
  Live Activity are exact rationals. Characters beyond Latin-1 are written by their UTF-8 bytes.
\<close>

section \<open>Types\<close>

datatype ApnsEnvironment = Sandbox | Production

datatype PushKind = PkApprovalNew | PkApprovalExpiring | PkNotifyExecuted | PkBudget | PkKillSwitch
  | PkBridgeMessage | PkMorningSummary | PkChatDone

fun kind_id :: "PushKind \<Rightarrow> string" where
  "kind_id PkApprovalNew = ''approval_new''"
| "kind_id PkApprovalExpiring = ''approval_expiring''"
| "kind_id PkNotifyExecuted = ''notify_executed''"
| "kind_id PkBudget = ''budget''"
| "kind_id PkKillSwitch = ''kill_switch''"
| "kind_id PkBridgeMessage = ''bridge_message''"
| "kind_id PkMorningSummary = ''morning_summary''"
| "kind_id PkChatDone = ''chat_done''"

definition DEFAULT_PREFERENCES :: "PushKind \<Rightarrow> bool" where
  "DEFAULT_PREFERENCES k = (k \<noteq> PkNotifyExecuted)"

definition wantsKind :: "(string \<times> bool) list \<Rightarrow> PushKind \<Rightarrow> bool" where
  "wantsKind preferences k =
     (case map_of preferences (kind_id k) of Some b \<Rightarrow> b | None \<Rightarrow> DEFAULT_PREFERENCES k)"

datatype ActivityMark = MkDone | MkRunning | MkPending | MkConflict | MkFailed
datatype ActivityPhase = PhRunning | PhConflict | PhDone | PhFailed

record ActivityAgent =
  aa_id :: string
  aa_ticket :: string
  aa_working :: bool

record ActivityContentState =
  cs_title :: string
  cs_detail :: "string option"
  cs_startsAt :: "rat option"
  cs_endsAt :: "rat option"
  cs_ready :: bool
  cs_badge :: "string option"
  cs_segments :: "ActivityMark list"
  cs_agents :: "ActivityAgent list"
  cs_phase :: ActivityPhase

datatype ActivityKind = AkDualConfirm | AkKillSwitch | AkChatTurn | AkOrchestration | AkRelaxedMode

fun ACTIVITY_RELEVANCE :: "ActivityKind \<Rightarrow> int" where
  "ACTIVITY_RELEVANCE AkDualConfirm = 100"
| "ACTIVITY_RELEVANCE AkKillSwitch = 80"
| "ACTIVITY_RELEVANCE AkChatTurn = 60"
| "ACTIVITY_RELEVANCE AkOrchestration = 50"
| "ACTIVITY_RELEVANCE AkRelaxedMode = 40"

record LiveAps =
  la_timestamp :: int
  la_event :: string
  la_attributes :: "(ActivityKind \<times> string) option"
  la_state :: ActivityContentState
  la_relevance :: int
  la_dismissal :: "int option"
  la_alert :: "(string \<times> string) option"

datatype ApnsBody = AlertBody json | LiveBody LiveAps

datatype ApnsPushType = PtAlert | PtLiveActivity

record ApnsNotification =
  an_pushType :: ApnsPushType
  an_priority :: int
  an_body :: ApnsBody
  an_collapseId :: "string option"

section \<open>The alerts\<close>

definition MAX_BODY_CHARS :: nat where "MAX_BODY_CHARS = 180"

definition ellipsis :: string where "ellipsis = [CHR 0xE2, CHR 0x80, CHR 0xA6]"
definition diamond :: string where "diamond = [CHR 0xE2, CHR 0x97, CHR 0x86]"
definition snowflake :: string where "snowflake = [CHR 0xE2, CHR 0x9D, CHR 0x84]"
definition middot :: string where "middot = [CHR 0xB7]"

definition truncate_text :: "nat \<Rightarrow> string \<Rightarrow> string" where
  "truncate_text limit text =
     (let clean = trim_by js_blank (collapse_runs js_blank (CHR 0x20) text)
      in if length clean \<le> limit then clean else take (limit - 1) clean @ ellipsis)"

record AlertInput =
  al_title :: string
  al_body :: string
  al_subtitle :: "string option"
  al_category :: string
  al_threadId :: string
  al_link :: string
  al_timeSensitive :: bool
  al_collapseId :: "string option"
  al_mutable :: bool
  al_extra :: "(string \<times> json) list"

definition opt_field :: "bool \<Rightarrow> string \<Rightarrow> json \<Rightarrow> (string \<times> json) list" where
  "opt_field b k v = (if b then [(k, v)] else [])"

definition str_field :: "string \<Rightarrow> string option \<Rightarrow> (string \<times> json) list" where
  "str_field k v = (case v of Some s \<Rightarrow> [(k, JStr s)] | None \<Rightarrow> [])"

definition alert :: "AlertInput \<Rightarrow> ApnsNotification" where
  "alert i = \<lparr> an_pushType = PtAlert, an_priority = 10,
     an_body = AlertBody (JObj ([
       (''aps'', JObj ([
          (''alert'', JObj ([(''title'', JStr (al_title i))] @ str_field ''subtitle'' (al_subtitle i)
             @ [(''body'', JStr (al_body i))])),
          (''sound'', JStr ''default''), (''category'', JStr (al_category i)),
          (''thread-id'', JStr (al_threadId i))]
          @ opt_field (al_timeSensitive i) ''interruption-level'' (JStr ''time-sensitive'')
          @ opt_field (al_mutable i) ''mutable-content'' (JNum 1))),
       (''link'', JStr (al_link i))] @ al_extra i)),
     an_collapseId = al_collapseId i \<rparr>"

definition plain_alert :: "string \<Rightarrow> string \<Rightarrow> string \<Rightarrow> string \<Rightarrow> string \<Rightarrow> AlertInput" where
  "plain_alert title body category threadId link =
     \<lparr> al_title = title, al_body = body, al_subtitle = None, al_category = category, al_threadId = threadId,
       al_link = link, al_timeSensitive = False, al_collapseId = None, al_mutable = False, al_extra = [] \<rparr>"

definition CATEGORY_APPROVAL :: string where "CATEGORY_APPROVAL = ''JIN_APPROVAL''"
definition CATEGORY_INFO :: string where "CATEGORY_INFO = ''JIN_INFO''"
definition CATEGORY_BRIDGE :: string where "CATEGORY_BRIDGE = ''JIN_BRIDGE''"

definition approvalNewPayload :: "uuid \<Rightarrow> string \<Rightarrow> string \<Rightarrow> string option \<Rightarrow> ApnsNotification" where
  "approvalNewPayload requestId toolName level planSummary =
     alert ((plain_alert
        ((if level = ''dual-confirm'' then ([CHR 0xE2, CHR 0x97, CHR 0x86, CHR 0xE2, CHR 0x97, CHR 0x86] @ '' Aprobaci'' @ [CHR 0xF3] @ ''n dual'') else ([CHR 0xE2, CHR 0x97, CHR 0x86] @ '' Aprobaci'' @ [CHR 0xF3] @ ''n'')) @ ('' '' @ [CHR 0xB7] @ '' '') @ toolName)
        (truncate_text MAX_BODY_CHARS (case planSummary of Some p \<Rightarrow> p | None \<Rightarrow> toolName))
        CATEGORY_APPROVAL ''approvals'' (''jin://approval/'' @ requestId))
      \<lparr> al_subtitle := Some ''Toca para leer el payload'', al_timeSensitive := True, al_collapseId := Some requestId,
        al_extra := [(''requestId'', JStr requestId)] \<rparr>)"

definition approvalExpiringPayload :: "uuid \<Rightarrow> string \<Rightarrow> ApnsNotification" where
  "approvalExpiringPayload requestId toolName =
     alert ((plain_alert ((''Por vencer '' @ [CHR 0xB7] @ '' '') @ toolName)
        (''Sigue esperando tu decisi'' @ [CHR 0xF3] @ ''n. Si vence, NO se ejecuta.'')
        CATEGORY_APPROVAL ''approvals'' (''jin://approval/'' @ requestId))
      \<lparr> al_timeSensitive := True, al_collapseId := Some requestId, al_extra := [(''requestId'', JStr requestId)] \<rparr>)"

text \<open>\<open>relaxedBy.replace('autonomy:', '')\<close> takes the first occurrence away.\<close>

fun drop_first :: "string \<Rightarrow> string \<Rightarrow> string" where
  "drop_first p [] = []"
| "drop_first p (c # s) = (if take (length p) (c # s) = p then drop (length p) (c # s) else c # drop_first p s)"

definition notifyExecutedPayload :: "string \<Rightarrow> string option \<Rightarrow> ApnsNotification" where
  "notifyExecutedPayload toolName relaxedBy =
     alert (plain_alert ((''Ejecutada '' @ [CHR 0xB7] @ '' '') @ toolName)
        (case relaxedBy of
           Some r \<Rightarrow> if r \<noteq> [] then (''Se ejecut'' @ [CHR 0xF3] @ '' sola porque el modo '') @ drop_first ''autonomy:'' r @ ('' la relaj'' @ [CHR 0xF3] @ ''.'')
             else (''Acci'' @ [CHR 0xF3] @ ''n de nivel notify: se ejecut'' @ [CHR 0xF3] @ '' y queda en el Audit.'')
         | None \<Rightarrow> (''Acci'' @ [CHR 0xF3] @ ''n de nivel notify: se ejecut'' @ [CHR 0xF3] @ '' y queda en el Audit.''))
        CATEGORY_INFO ''activity'' ''jin://audit'')"

definition budgetPayload :: "rat \<Rightarrow> rat \<Rightarrow> ApnsNotification" where
  "budgetPayload ratio threshold =
     (let percent = show_int \<lfloor>ratio * 100 + 1 / 2\<rfloor> in
      alert ((plain_alert (if 1 \<le> threshold then ''Presupuesto agotado'' else ''Presupuesto al 80 %'')
        (if 1 \<le> threshold then ''Gasto de hoy al '' @ percent @ ('' %: los agentes se detienen hasta ma'' @ [CHR 0xF1] @ ''ana.'') else ''Gasto de hoy al '' @ percent @ ('' % del l'' @ [CHR 0xED] @ ''mite diario.''))
        CATEGORY_INFO ''spend'' ''jin://spend'')
      \<lparr> al_timeSensitive := (1 \<le> threshold) \<rparr>))"

definition killSwitchPayload :: "string option \<Rightarrow> ApnsNotification" where
  "killSwitchPayload reason =
     alert ((plain_alert ([CHR 0xE2, CHR 0x9D, CHR 0x84] @ '' Agentes congelados'')
        (truncate_text MAX_BODY_CHARS (''Kill switch activado''
          @ (case reason of Some r \<Rightarrow> if r \<noteq> [] then '': '' @ r else [] | None \<Rightarrow> [])
          @ ''. Reanudar exige mantener pulsado 3 s en Gasto.''))
        CATEGORY_INFO ''spend'' ''jin://spend'')
      \<lparr> al_timeSensitive := True, al_collapseId := Some ''kill-switch'' \<rparr>)"

definition bridgeMessagePayload :: "uuid \<Rightarrow> string \<Rightarrow> string list option \<Rightarrow> ApnsNotification" where
  "bridgeMessagePayload mid body options =
     (let opts = (case options of Some os \<Rightarrow> os | None \<Rightarrow> []) in
      alert ((plain_alert ''Claude Code'' (truncate_text 400 body) CATEGORY_BRIDGE ''bridge'' ''jin://bridge'')
      \<lparr> al_mutable := (opts \<noteq> []),
        al_extra := (''bridgeMessageId'', JStr mid) # opt_field (opts \<noteq> []) ''options'' (JArr (map JStr opts)) \<rparr>))"

datatype MorningAlertEvent = MorningSummary string | MorningFailed string | MorningMissing

definition markdown_mark :: "char \<Rightarrow> bool" where
  "markdown_mark c \<longleftrightarrow> c \<in> {CHR ''*'', CHR ''_'', CHR 0x60, CHR ''#'', CHR ''>''}"

definition morningSummaryPayload :: "MorningAlertEvent \<Rightarrow> ApnsNotification" where
  "morningSummaryPayload ev =
     alert (plain_alert (''Resumen de la ma'' @ [CHR 0xF1] @ ''ana'')
        (case ev of
           MorningSummary s \<Rightarrow> truncate_text 300 (filter (\<lambda>c. \<not> markdown_mark c) s)
         | MorningFailed e \<Rightarrow> (''El an'' @ [CHR 0xE1] @ ''lisis de la noche fall'' @ [CHR 0xF3] @ '': hoy no hay resumen. Revisa Canvas en la web.'')
         | MorningMissing \<Rightarrow> (''No hubo an'' @ [CHR 0xE1] @ ''lisis a medianoche: hoy no hay resumen.''))
        CATEGORY_INFO ''morning'' ''jin://home'')"

definition chatDonePayload :: "string \<Rightarrow> string \<Rightarrow> bool \<Rightarrow> ApnsNotification" where
  "chatDonePayload conversationId objective finished =
     alert (plain_alert (if finished then (''Jin termin'' @ [CHR 0xF3]) else (''El turno no termin'' @ [CHR 0xF3] @ '' bien''))
        (truncate_text 120 objective) CATEGORY_INFO (''chat-'' @ conversationId) (''jin://chat/'' @ conversationId))"

definition testPayload :: ApnsNotification where
  "testPayload = alert (plain_alert (''Jin '' @ [CHR 0xB7] @ '' prueba'') ''Las notificaciones push funcionan.'' CATEGORY_INFO ''test'' ''jin://settings'')"

section \<open>The Live Activities\<close>

definition APPLE_REFERENCE_EPOCH_SECONDS :: int where "APPLE_REFERENCE_EPOCH_SECONDS = 978307200"

definition appleDate :: "timestamp \<Rightarrow> rat" where
  "appleDate date = of_int date / 1000 - of_int APPLE_REFERENCE_EPOCH_SECONDS"

record SnapshotTicket =
  sn_description :: string
  sn_status :: AgentTicketStatus
  sn_agent :: "string option"
  sn_kinds :: "AgentCommentKind list"
  sn_lastConflictBody :: "string option"

record OrchestrationSnapshot =
  os_objective :: string
  os_status :: AgentRunStatus
  os_createdAt :: timestamp
  os_completedAt :: "timestamp option"
  os_tickets :: "SnapshotTicket list"

definition hasOpenConflict :: "SnapshotTicket \<Rightarrow> bool" where
  "hasOpenConflict t \<longleftrightarrow> KConflict \<in> set (sn_kinds t) \<and> KResolution \<notin> set (sn_kinds t)"

definition ticket_mark :: "SnapshotTicket \<Rightarrow> ActivityMark" where
  "ticket_mark t =
     (if hasOpenConflict t then MkConflict
      else case sn_status t of TkDone \<Rightarrow> MkDone | TkInProgress \<Rightarrow> MkRunning | TkFailed \<Rightarrow> MkFailed | _ \<Rightarrow> MkPending)"

text \<open>An agent's current ticket is the one in progress, else its last one. An empty id is no agent.\<close>

definition agent_entry :: "SnapshotTicket list \<Rightarrow> string \<Rightarrow> ActivityAgent" where
  "agent_entry tickets agent =
     (let own = filter (\<lambda>t. sn_agent t = Some agent) tickets;
          current = List.find (\<lambda>t. sn_status t = TkInProgress) own
      in \<lparr> aa_id = agent,
           aa_ticket = (case current of Some t \<Rightarrow> sn_description t
             | None \<Rightarrow> if own = [] then [] else sn_description (last own)),
           aa_working = (current \<noteq> None) \<rparr>)"

fun snapshot_agents :: "SnapshotTicket list \<Rightarrow> SnapshotTicket list \<Rightarrow> ActivityAgent list \<Rightarrow> ActivityAgent list" where
  "snapshot_agents tickets [] agents = agents"
| "snapshot_agents tickets (t # ts) agents =
     (case sn_agent t of
        None \<Rightarrow> snapshot_agents tickets ts agents
      | Some a \<Rightarrow>
          if a = [] \<or> (\<exists>x \<in> set agents. aa_id x = a) then snapshot_agents tickets ts agents
          else snapshot_agents tickets ts (agents @ [agent_entry tickets a]))"

definition orchestration_phase :: "AgentRunStatus \<Rightarrow> ActivityMark list \<Rightarrow> ActivityPhase" where
  "orchestration_phase status segments =
     (case status of
        RunRunning \<Rightarrow> if MkConflict \<in> set segments then PhConflict else PhRunning
      | RunBlocked \<Rightarrow> PhConflict
      | RunDone \<Rightarrow> if MkFailed \<in> set segments then PhFailed else PhDone
      | _ \<Rightarrow> PhFailed)"

definition orchestrationContentState :: "OrchestrationSnapshot \<Rightarrow> ActivityContentState" where
  "orchestrationContentState s =
     (let segments = map ticket_mark (os_tickets s);
          phase = orchestration_phase (os_status s) segments;
          finished = (phase = PhDone \<or> phase = PhFailed);
          conflictBody = (if phase = PhConflict
            then Option.bind (List.find hasOpenConflict (os_tickets s)) sn_lastConflictBody else None)
      in \<lparr> cs_title = os_objective s,
           cs_detail = (case conflictBody of Some b \<Rightarrow> if b \<noteq> [] then Some b else None | None \<Rightarrow> None),
           cs_startsAt = Some (appleDate (os_createdAt s)),
           cs_endsAt = (if finished then map_option appleDate (os_completedAt s) else None),
           cs_ready = finished,
           cs_badge = (if segments \<noteq> []
             then Some (show_nat (length (filter (\<lambda>m. m = MkDone) segments)) @ ''/'' @ show_nat (length segments))
             else None),
           cs_segments = segments,
           cs_agents = snapshot_agents (os_tickets s) (os_tickets s) [],
           cs_phase = phase \<rparr>)"

definition killSwitchContentState :: "string option \<Rightarrow> timestamp option \<Rightarrow> ActivityContentState" where
  "killSwitchContentState reason activatedAt =
     \<lparr> cs_title = ''Agentes congelados'',
       cs_detail = (case reason of Some r \<Rightarrow> if r \<noteq> [] then Some r else None | None \<Rightarrow> None),
       cs_startsAt = map_option appleDate activatedAt, cs_endsAt = None, cs_ready = False,
       cs_badge = Some ''kill'', cs_segments = [], cs_agents = [], cs_phase = PhRunning \<rparr>"

definition liveActivityUpdatePayload :: "ActivityKind \<Rightarrow> ActivityContentState \<Rightarrow> int option \<Rightarrow> (string \<times> string) option
    \<Rightarrow> timestamp \<Rightarrow> ApnsNotification" where
  "liveActivityUpdatePayload k state dismissAfter al now =
     \<lparr> an_pushType = PtLiveActivity, an_priority = (if al \<noteq> None \<or> dismissAfter \<noteq> None then 10 else 5),
       an_body = LiveBody \<lparr> la_timestamp = now div 1000,
         la_event = (if dismissAfter \<noteq> None then ''end'' else ''update''), la_attributes = None, la_state = state,
         la_relevance = ACTIVITY_RELEVANCE k, la_dismissal = map_option (\<lambda>d. now div 1000 + d) dismissAfter,
         la_alert = al \<rparr>,
       an_collapseId = None \<rparr>"

definition liveActivityStartPayload :: "ActivityKind \<Rightarrow> string \<Rightarrow> ActivityContentState \<Rightarrow> string \<times> string
    \<Rightarrow> timestamp \<Rightarrow> ApnsNotification" where
  "liveActivityStartPayload k referenceId state al now =
     \<lparr> an_pushType = PtLiveActivity, an_priority = 10,
       an_body = LiveBody \<lparr> la_timestamp = now div 1000, la_event = ''start'',
         la_attributes = Some (k, referenceId), la_state = state, la_relevance = ACTIVITY_RELEVANCE k,
         la_dismissal = None, la_alert = Some al \<rparr>,
       an_collapseId = None \<rparr>"

section \<open>The tables\<close>

record PushDeviceRow =
  dv_token :: string
  dv_environment :: ApnsEnvironment
  dv_preferences :: "(string \<times> bool) list"
  dv_createdAt :: timestamp
  dv_lastSeenAt :: timestamp

datatype Purpose = PurUpdate | PurStart

record PushActivityTokenRow =
  at_token :: string
  at_environment :: ApnsEnvironment
  at_purpose :: Purpose
  at_kind :: "string option"
  at_referenceId :: "string option"
  at_createdAt :: timestamp

record push_db =
  pd_devices :: "PushDeviceRow list"
  pd_tokens :: "PushActivityTokenRow list"
  pd_sent :: "(ApnsEnvironment \<times> string \<times> ApnsNotification) list"

definition ACTIVITY_TOKEN_MAX_AGE_MS :: int where "ACTIVITY_TOKEN_MAX_AGE_MS = 12 * 60 * 60 * 1000"

text \<open>\<open>INSERT \<dots> ON CONFLICT (token) DO UPDATE\<close>: the row with the key is updated, or the new one added.\<close>

definition upsert_row :: "('r \<Rightarrow> string) \<Rightarrow> 'r \<Rightarrow> ('r \<Rightarrow> 'r) \<Rightarrow> 'r list \<Rightarrow> 'r list" where
  "upsert_row tok row f rows =
     (if \<exists>r \<in> set rows. tok r = tok row then update_rows (\<lambda>r. tok r = tok row) f rows else rows @ [row])"

definition upsertDevice :: "string \<Rightarrow> ApnsEnvironment \<Rightarrow> (string \<times> bool) list \<Rightarrow> timestamp \<Rightarrow> push_db \<Rightarrow> push_db" where
  "upsertDevice token env preferences now db = db\<lparr> pd_devices := upsert_row dv_token
     \<lparr> dv_token = token, dv_environment = env, dv_preferences = preferences, dv_createdAt = now, dv_lastSeenAt = now \<rparr>
     (\<lambda>r. r\<lparr> dv_environment := env, dv_preferences := preferences, dv_lastSeenAt := now \<rparr>) (pd_devices db) \<rparr>"

definition deleteDevice :: "string \<Rightarrow> push_db \<Rightarrow> push_db" where
  "deleteDevice token db = db\<lparr> pd_devices := delete_rows (\<lambda>r. dv_token r = token) (pd_devices db) \<rparr>"

definition upsertActivityToken :: "string \<Rightarrow> ApnsEnvironment \<Rightarrow> Purpose \<Rightarrow> string option \<Rightarrow> string option \<Rightarrow> timestamp
    \<Rightarrow> push_db \<Rightarrow> push_db" where
  "upsertActivityToken token env purpose k referenceId now db =
     (let kept = (if purpose = PurStart
            then delete_rows (\<lambda>r. at_purpose r = PurStart \<and> at_environment r = env) (pd_tokens db)
            else pd_tokens db)
      in db\<lparr> pd_tokens := upsert_row at_token
           \<lparr> at_token = token, at_environment = env, at_purpose = purpose, at_kind = k, at_referenceId = referenceId,
             at_createdAt = now \<rparr>
           (\<lambda>r. r\<lparr> at_kind := k, at_referenceId := referenceId \<rparr>) kept \<rparr>)"

definition deleteActivityToken :: "string \<Rightarrow> push_db \<Rightarrow> push_db" where
  "deleteActivityToken token db = db\<lparr> pd_tokens := delete_rows (\<lambda>r. at_token r = token) (pd_tokens db) \<rparr>"

definition pruneActivityTokens :: "timestamp \<Rightarrow> push_db \<Rightarrow> push_db" where
  "pruneActivityTokens now db = db\<lparr> pd_tokens :=
     delete_rows (\<lambda>r. at_purpose r = PurUpdate \<and> at_createdAt r < now - ACTIVITY_TOKEN_MAX_AGE_MS) (pd_tokens db) \<rparr>"

definition activityTokensFor :: "timestamp \<Rightarrow> string \<Rightarrow> push_db \<Rightarrow> PushActivityTokenRow list \<times> push_db" where
  "activityTokensFor now referenceId db =
     (let db1 = pruneActivityTokens now db
      in (filter (\<lambda>r. at_purpose r = PurUpdate \<and> at_referenceId r = Some referenceId) (pd_tokens db1), db1))"

definition startTokens :: "push_db \<Rightarrow> PushActivityTokenRow list" where
  "startTokens db = filter (\<lambda>r. at_purpose r = PurStart) (pd_tokens db)"

section \<open>Sending\<close>

text \<open>What Apple answers: a status and a body, or no answer at all. A send never throws.\<close>

datatype apns_answer = ApnsReply nat string | ApnsDown string

datatype ApnsSendResult = SendOk | SendFailed nat string bool

definition INVALID_TOKEN_REASONS :: "string set" where
  "INVALID_TOKEN_REASONS = {''BadDeviceToken'', ''Unregistered'', ''DeviceTokenNotForTopic'', ''ExpiredToken''}"

definition parseReason :: "string \<Rightarrow> string" where
  "parseReason body =
     (case JSON_parse body of
        Some JNull \<Rightarrow> if take 100 body \<noteq> [] then take 100 body else ''Unknown''
      | Some (JObj kvs) \<Rightarrow> (case map_of kvs ''reason'' of Some (JStr r) \<Rightarrow> r | _ \<Rightarrow> ''Unknown'')
      | Some _ \<Rightarrow> ''Unknown''
      | None \<Rightarrow> if take 100 body \<noteq> [] then take 100 body else ''Unknown'')"

definition apns_result :: "apns_answer \<Rightarrow> ApnsSendResult" where
  "apns_result a =
     (case a of
        ApnsReply status body \<Rightarrow>
          if status = 200 then SendOk
          else SendFailed status (parseReason body) (status = 410 \<or> parseReason body \<in> INVALID_TOKEN_REASONS)
      | ApnsDown reason \<Rightarrow> SendFailed 0 reason False)"

type_synonym apns = "ApnsEnvironment \<Rightarrow> string \<Rightarrow> ApnsNotification \<Rightarrow> apns_answer"

definition send :: "apns \<Rightarrow> ApnsEnvironment \<Rightarrow> string \<Rightarrow> ApnsNotification \<Rightarrow> push_db \<Rightarrow> ApnsSendResult \<times> push_db" where
  "send apple env token n db = (apns_result (apple env token n), db\<lparr> pd_sent := pd_sent db @ [(env, token, n)] \<rparr>)"

fun broadcast_to :: "apns \<Rightarrow> PushKind option \<Rightarrow> ApnsNotification \<Rightarrow> PushDeviceRow list \<Rightarrow> nat \<times> nat \<Rightarrow> push_db
    \<Rightarrow> (nat \<times> nat) \<times> push_db" where
  "broadcast_to apple k n [] (sent, failed) db = ((sent, failed), db)"
| "broadcast_to apple k n (d # ds) (sent, failed) db =
     (if (case k of Some k' \<Rightarrow> \<not> wantsKind (dv_preferences d) k' | None \<Rightarrow> False)
      then broadcast_to apple k n ds (sent, failed) db
      else (case send apple (dv_environment d) (dv_token d) n db of
          (SendOk, db1) \<Rightarrow> broadcast_to apple k n ds (sent + 1, failed) db1
        | (SendFailed st r invalid, db1) \<Rightarrow>
            broadcast_to apple k n ds (sent, failed + 1) (if invalid then deleteDevice (dv_token d) db1 else db1)))"

definition broadcast :: "apns \<Rightarrow> PushKind option \<Rightarrow> ApnsNotification \<Rightarrow> push_db \<Rightarrow> (nat \<times> nat) \<times> push_db" where
  "broadcast apple k n db = broadcast_to apple k n (pd_devices db) (0, 0) db"

fun send_to_tokens :: "apns \<Rightarrow> ApnsNotification \<Rightarrow> PushActivityTokenRow list \<Rightarrow> push_db \<Rightarrow> push_db" where
  "send_to_tokens apple n [] db = db"
| "send_to_tokens apple n (t # ts) db =
     (case send apple (at_environment t) (at_token t) n db of
        (SendFailed st r True, db1) \<Rightarrow> send_to_tokens apple n ts (deleteActivityToken (at_token t) db1)
      | (_, db1) \<Rightarrow> send_to_tokens apple n ts db1)"

definition startActivity :: "apns \<Rightarrow> ApnsNotification \<Rightarrow> push_db \<Rightarrow> push_db" where
  "startActivity apple n db = send_to_tokens apple n (startTokens db) db"

section \<open>The service\<close>

text \<open>
  \<open>apple\<close> is \<open>None\<close> when the keys are missing: push is off. \<open>guard\<close> with what the builder made, or the
  error it threw, which is logged and goes no further.
\<close>

definition push_guard :: "apns option \<Rightarrow> PushKind \<Rightarrow> jin_error + ApnsNotification option \<Rightarrow> push_db \<Rightarrow> push_db" where
  "push_guard client k built db =
     (case (client, built) of
        (Some apple, Inr (Some n)) \<Rightarrow> snd (broadcast apple (Some k) n db)
      | _ \<Rightarrow> db)"

text \<open>\<open>row\<close>: what the query of the approval's plan answered, \<open>Inr None\<close> when there is no row.\<close>

definition onApprovalCreated :: "apns option \<Rightarrow> jin_error + string option option \<Rightarrow> uuid \<Rightarrow> string \<Rightarrow> string \<Rightarrow> push_db \<Rightarrow> push_db" where
  "onApprovalCreated client row requestId toolName level =
     push_guard client PkApprovalNew
       (case row of Inl e \<Rightarrow> Inl e
        | Inr plan \<Rightarrow> Inr (Some (approvalNewPayload requestId toolName level
            (case plan of Some p \<Rightarrow> p | None \<Rightarrow> None))))"

definition onApprovalEscalated :: "apns option \<Rightarrow> uuid \<Rightarrow> string \<Rightarrow> push_db \<Rightarrow> push_db" where
  "onApprovalEscalated client requestId toolName =
     push_guard client PkApprovalExpiring (Inr (Some (approvalExpiringPayload requestId toolName)))"

definition onActionNotified :: "apns option \<Rightarrow> string \<Rightarrow> string option \<Rightarrow> push_db \<Rightarrow> push_db" where
  "onActionNotified client toolName relaxedBy =
     push_guard client PkNotifyExecuted (Inr (Some (notifyExecutedPayload toolName relaxedBy)))"

definition onBudgetThreshold :: "apns option \<Rightarrow> rat \<Rightarrow> rat \<Rightarrow> push_db \<Rightarrow> push_db" where
  "onBudgetThreshold client ratio threshold = push_guard client PkBudget (Inr (Some (budgetPayload ratio threshold)))"

text \<open>Push off starts no Live Activity: without a client the start of one throws, and is swallowed.\<close>

definition onKillSwitch :: "apns option \<Rightarrow> timestamp \<Rightarrow> string option \<Rightarrow> timestamp option \<Rightarrow> push_db \<Rightarrow> push_db" where
  "onKillSwitch client now reason activatedAt db =
     (let db1 = push_guard client PkKillSwitch (Inr (Some (killSwitchPayload reason))) db in
      case client of
        None \<Rightarrow> db1
      | Some apple \<Rightarrow> startActivity apple
          (liveActivityStartPayload AkKillSwitch ''kill'' (killSwitchContentState reason activatedAt)
             (([CHR 0xE2, CHR 0x9D, CHR 0x84] @ '' Agentes congelados''), ''Kill switch activado.'') now) db1)"

definition onRelayMessage :: "apns option \<Rightarrow> jin_error + (string \<times> string list option) option \<Rightarrow> string \<Rightarrow> uuid \<Rightarrow> push_db \<Rightarrow> push_db" where
  "onRelayMessage client row direction mid db =
     (if direction \<noteq> ''out'' then db
      else push_guard client PkBridgeMessage
        (case row of Inl e \<Rightarrow> Inl e
         | Inr r \<Rightarrow> Inr (map_option (\<lambda>(body, options). bridgeMessagePayload mid body options) r)) db)"

definition onMorningAlert :: "apns option \<Rightarrow> MorningAlertEvent \<Rightarrow> push_db \<Rightarrow> push_db" where
  "onMorningAlert client ev = push_guard client PkMorningSummary (Inr (Some (morningSummaryPayload ev)))"

definition onChatTurnFinished :: "apns option \<Rightarrow> string \<Rightarrow> string \<Rightarrow> bool \<Rightarrow> push_db \<Rightarrow> push_db" where
  "onChatTurnFinished client sessionId objective finished =
     push_guard client PkChatDone (Inr (Some (chatDonePayload sessionId objective finished)))"

definition snapshot_ticket :: "ledger \<Rightarrow> Ticket \<Rightarrow> SnapshotTicket" where
  "snapshot_ticket lg t =
     (let comments = getComments (tk_id t) lg;
          conflicts = filter (\<lambda>c. tc_kind c = KConflict) comments
      in \<lparr> sn_description = tk_description t, sn_status = tk_status t, sn_agent = tk_assignedSubAgentId t,
           sn_kinds = map tc_kind comments,
           sn_lastConflictBody = (if conflicts = [] then None else Some (tc_body (last conflicts))) \<rparr>)"

definition orchestrationSnapshot :: "uuid \<Rightarrow> ledger \<Rightarrow> OrchestrationSnapshot option" where
  "orchestrationSnapshot runId lg =
     map_option (\<lambda>run. \<lparr> os_objective = rn_objective run, os_status = rn_status run, os_createdAt = rn_createdAt run,
         os_completedAt = rn_completedAt run, os_tickets = map (snapshot_ticket lg) (getTickets runId lg) \<rparr>)
       (getRun runId lg)"

definition run_alert :: "ActivityContentState \<Rightarrow> (string \<times> string) option" where
  "run_alert state =
     (case cs_phase state of
        PhConflict \<Rightarrow> Some (''Conflicto'', (''Un sub-agente necesita tu decisi'' @ [CHR 0xF3] @ ''n''))
      | PhDone \<Rightarrow> Some (''Terminado'', cs_title state)
      | PhFailed \<Rightarrow> Some ((''Termin'' @ [CHR 0xF3] @ '' con fallos''), cs_title state)
      | PhRunning \<Rightarrow> None)"

definition onRunChanged :: "apns option \<Rightarrow> timestamp \<Rightarrow> uuid \<Rightarrow> ledger \<Rightarrow> push_db \<Rightarrow> push_db" where
  "onRunChanged client now runId lg db =
     (case (client, orchestrationSnapshot runId lg) of
        (Some apple, Some snapshot) \<Rightarrow>
          let state = orchestrationContentState snapshot in
          (case activityTokensFor now runId db of
             ([], db1) \<Rightarrow>
               if cs_phase state = PhRunning \<and> (\<forall>m \<in> set (cs_segments state). m = MkPending)
               then startActivity apple (liveActivityStartPayload AkOrchestration runId state
                      (''Jin reparte el trabajo'', os_objective snapshot) now) db1
               else db1
           | (tokens, db1) \<Rightarrow>
               send_to_tokens apple (liveActivityUpdatePayload AkOrchestration state
                 (if cs_phase state = PhDone then Some 4 else None) (run_alert state) now) tokens db1)
      | _ \<Rightarrow> db)"

definition sendTest :: "apns option \<Rightarrow> push_db \<Rightarrow> (bool \<times> nat \<times> nat) \<times> push_db" where
  "sendTest client db =
     (case client of
        None \<Rightarrow> ((False, 0, 0), db)
      | Some apple \<Rightarrow> (case broadcast apple None testPayload db of ((sent, failed), db1) \<Rightarrow> ((True, sent, failed), db1)))"

section \<open>Who is told\<close>

text \<open>Apple's verdict that a device's token will never work again.\<close>

definition gone :: "apns \<Rightarrow> ApnsNotification \<Rightarrow> PushDeviceRow \<Rightarrow> bool" where
  "gone apple n d =
     (case apns_result (apple (dv_environment d) (dv_token d) n) of SendFailed _ _ invalid \<Rightarrow> invalid | SendOk \<Rightarrow> False)"

definition told :: "PushKind option \<Rightarrow> PushDeviceRow \<Rightarrow> bool" where
  "told k d = (case k of Some k' \<Rightarrow> wantsKind (dv_preferences d) k' | None \<Rightarrow> True)"

lemma gone_iff: "apns_result (apple (dv_environment d) (dv_token d) n) = SendFailed st r invalid \<Longrightarrow> gone apple n d = invalid"
  "apns_result (apple (dv_environment d) (dv_token d) n) = SendOk \<Longrightarrow> \<not> gone apple n d"
  by (simp_all add: gone_def)

lemma broadcast_to_skips: "\<not> told k d \<Longrightarrow> broadcast_to apple k n (d # ds) c db = broadcast_to apple k n ds c db"
  by (cases c; cases k) (simp_all add: told_def)

lemma broadcast_to_sends: "told k d \<Longrightarrow> broadcast_to apple k n (d # ds) c db
    = broadcast_to apple k n ds (if apns_result (apple (dv_environment d) (dv_token d) n) = SendOk
          then (fst c + 1, snd c) else (fst c, snd c + 1))
        (db\<lparr> pd_sent := pd_sent db @ [(dv_environment d, dv_token d, n)],
             pd_devices := if gone apple n d then delete_rows (\<lambda>r. dv_token r = dv_token d) (pd_devices db) else pd_devices db \<rparr>)"
  by (cases c; cases k; cases "apns_result (apple (dv_environment d) (dv_token d) n)")
    (simp_all add: told_def send_def gone_iff deleteDevice_def)

lemma broadcast_to_effect:
  "snd (broadcast_to apple k n ds c db) = db\<lparr>
      pd_sent := pd_sent db @ map (\<lambda>d. (dv_environment d, dv_token d, n)) (filter (told k) ds),
      pd_devices := filter (\<lambda>r. \<not> (\<exists>d \<in> set ds. dv_token d = dv_token r \<and> told k d \<and> gone apple n d)) (pd_devices db) \<rparr>
    \<and> fst (fst (broadcast_to apple k n ds c db)) + snd (fst (broadcast_to apple k n ds c db))
      = fst c + snd c + length (filter (told k) ds)"
proof (induction ds arbitrary: c db)
  case Nil
  show ?case by (cases c) simp
next
  case (Cons d ds)
  show ?case
  proof (cases "told k d")
    case False
    then show ?thesis using Cons.IH [of c db] by (simp add: broadcast_to_skips)
  next
    case True
    then show ?thesis
      by (cases "gone apple n d")
        (simp_all add: broadcast_to_sends Cons.IH delete_rows_def conj_commute eq_commute [of "dv_token d"])
  qed
qed

text \<open>A notification goes once to each registered device whose preferences want its kind, in the
  order of the table, and to no other; afterwards exactly the devices whose token Apple called
  invalid have been forgotten. With push off, or when the notification could not be built, nothing
  is sent and nothing changes.
\<close>

theorem push_reaches_who_wants_it:
  assumes "distinct (map dv_token (pd_devices db))"
  shows "push_guard (Some apple) k (Inr (Some n)) db = db\<lparr>
      pd_sent := pd_sent db @ map (\<lambda>d. (dv_environment d, dv_token d, n))
        (filter (\<lambda>d. wantsKind (dv_preferences d) k) (pd_devices db)),
      pd_devices := filter (\<lambda>d. \<not> (wantsKind (dv_preferences d) k \<and> gone apple n d)) (pd_devices db) \<rparr>
    \<and> push_guard None k built db = db \<and> push_guard client k (Inl e) db = db"
proof -
  have same: "d = r" if "d \<in> set (pd_devices db)" "r \<in> set (pd_devices db)" "dv_token d = dv_token r" for d r
    using assms that by (meson distinct_map inj_onD)
  then have "filter (\<lambda>r. \<not> (\<exists>d \<in> set (pd_devices db). dv_token d = dv_token r \<and> told (Some k) d \<and> gone apple n d)) (pd_devices db)
      = filter (\<lambda>d. \<not> (wantsKind (dv_preferences d) k \<and> gone apple n d)) (pd_devices db)"
    by (intro filter_cong refl) (auto simp: told_def)
  moreover have "told (Some k) = (\<lambda>d. wantsKind (dv_preferences d) k)"
    by (rule ext) (simp add: told_def)
  ultimately show ?thesis
    using broadcast_to_effect [of apple "Some k" n "pd_devices db" "(0, 0)" db]
    by (cases client) (simp_all add: push_guard_def broadcast_def)
qed

lemma push_reaches_who_wants_it_witness:
  "let dev = (\<lambda>t ps. \<lparr> dv_token = t, dv_environment = Production, dv_preferences = ps, dv_createdAt = 0, dv_lastSeenAt = 0 \<rparr>);
       db = \<lparr> pd_devices = [dev ''a'' [], dev ''b'' [(''budget'', False)]], pd_tokens = [], pd_sent = [] \<rparr>;
       apple = (\<lambda>env t n. ApnsReply 410 [])
   in push_guard (Some apple) PkBudget (Inr (Some testPayload)) db
      = \<lparr> pd_devices = [dev ''b'' [(''budget'', False)]], pd_tokens = [], pd_sent = [(Production, ''a'', testPayload)] \<rparr>"
  unfolding Let_def
  by (subst push_reaches_who_wants_it [THEN conjunct1])
    (simp_all add: wantsKind_def DEFAULT_PREFERENCES_def gone_def apns_result_def)

section \<open>What a Live Activity shows\<close>

lemma snapshot_agents_ids:
  assumes "distinct (map aa_id as)" "\<forall>x \<in> set as. aa_id x \<noteq> []"
  shows "distinct (map aa_id (snapshot_agents all ts as))
    \<and> aa_id ` set (snapshot_agents all ts as) = aa_id ` set as \<union> {a. a \<noteq> [] \<and> Some a \<in> sn_agent ` set ts}
    \<and> set (snapshot_agents all ts as) \<subseteq> set as \<union> range (agent_entry all)"
  using assms
proof (induction ts arbitrary: as)
  case (Cons t ts)
  show ?case
  proof (cases "sn_agent t")
    case None
    then show ?thesis using Cons by auto
  next
    case (Some a)
    show ?thesis
    proof (cases "a = [] \<or> (\<exists>x \<in> set as. aa_id x = a)")
      case True
      then show ?thesis using Cons.IH [OF Cons.prems] Some Cons.prems(2) by auto
    next
      case False
      have id: "aa_id (agent_entry all a) = a" by (simp add: agent_entry_def Let_def)
      have "distinct (map aa_id (as @ [agent_entry all a]))" "\<forall>x \<in> set (as @ [agent_entry all a]). aa_id x \<noteq> []"
        using Cons.prems False id by (auto simp del: distinct_append) (auto simp: id)
      from Cons.IH [OF this] show ?thesis using Some False id by auto
    qed
  qed
qed simp

lemma content_segments [simp]: "cs_segments (orchestrationContentState s) = map ticket_mark (os_tickets s)"
  and content_phase [simp]: "cs_phase (orchestrationContentState s)
        = orchestration_phase (os_status s) (map ticket_mark (os_tickets s))"
  and content_agents [simp]: "cs_agents (orchestrationContentState s) = snapshot_agents (os_tickets s) (os_tickets s) []"
  by (simp_all add: orchestrationContentState_def Let_def)

lemma mark_iff:
  "ticket_mark t = MkConflict \<longleftrightarrow> hasOpenConflict t"
  "ticket_mark t = MkFailed \<longleftrightarrow> sn_status t = TkFailed \<and> \<not> hasOpenConflict t"
  "ticket_mark t = MkDone \<longleftrightarrow> sn_status t = TkDone \<and> \<not> hasOpenConflict t"
  by (cases "sn_status t"; simp add: ticket_mark_def)+

lemma mark_conflict: "MkConflict \<in> ticket_mark ` set ts \<longleftrightarrow> (\<exists>t \<in> set ts. hasOpenConflict t)"
  unfolding image_iff using mark_iff(1) by metis

lemma mark_failed: "MkFailed \<in> ticket_mark ` set ts \<longleftrightarrow> (\<exists>t \<in> set ts. sn_status t = TkFailed \<and> \<not> hasOpenConflict t)"
  unfolding image_iff using mark_iff(2) by metis

lemma content_ready: "cs_ready (orchestrationContentState s) \<longleftrightarrow> os_status s \<noteq> RunRunning \<and> os_status s \<noteq> RunBlocked"
  by (cases "os_status s") (simp_all add: orchestrationContentState_def orchestration_phase_def Let_def)

lemma content_badge: "os_tickets s \<noteq> [] \<Longrightarrow> cs_badge (orchestrationContentState s)
    = Some (show_nat (length (filter (\<lambda>t. sn_status t = TkDone \<and> \<not> hasOpenConflict t) (os_tickets s)))
        @ ''/'' @ show_nat (length (os_tickets s)))"
  by (simp add: orchestrationContentState_def Let_def filter_map o_def mark_iff)

lemma phase_conflict: "orchestration_phase st (map ticket_mark ts) = PhConflict
    \<longleftrightarrow> st = RunBlocked \<or> st = RunRunning \<and> (\<exists>t \<in> set ts. hasOpenConflict t)"
  by (cases st) (simp_all add: orchestration_phase_def mark_conflict)

lemma phase_done: "orchestration_phase st (map ticket_mark ts) = PhDone
    \<longleftrightarrow> st = RunDone \<and> \<not> (\<exists>t \<in> set ts. sn_status t = TkFailed \<and> \<not> hasOpenConflict t)"
  by (cases st) (simp_all add: orchestration_phase_def mark_failed)

text \<open>An agent that some ticket names shows a ticket of its own.\<close>

lemma agent_entry_own:
  assumes "Some a \<in> sn_agent ` set ts"
  shows "\<exists>t \<in> set ts. sn_agent t = Some a \<and> sn_description t = aa_ticket (agent_entry ts a)"
proof -
  let ?own = "filter (\<lambda>t. sn_agent t = Some a) ts"
  have "?own \<noteq> []" using assms by (auto simp: filter_empty_conv)
  then have l: "last ?own \<in> set ts \<and> sn_agent (last ?own) = Some a" using last_in_set [of ?own] by fastforce
  show ?thesis
  proof (cases "List.find (\<lambda>t. sn_status t = TkInProgress) ?own")
    case None
    then have "aa_ticket (agent_entry ts a) = sn_description (last ?own)"
      using \<open>?own \<noteq> []\<close> by (simp add: agent_entry_def Let_def)
    then show ?thesis using l by auto
  next
    case (Some t)
    then obtain i where "i < length ?own" "t = ?own ! i" by (auto simp: find_Some_iff)
    then have "t \<in> set ?own" using nth_mem by blast
    then show ?thesis using Some by (auto simp: agent_entry_def Let_def)
  qed
qed

text \<open>What the Live Activity of a run shows is what the ledger says: one mark for each ticket of
  the run; the badge counts the tickets done, without open conflict, out of all; it asks for the
  owner exactly when the run is blocked, or runs with an open conflict; it is finished exactly when
  the run is neither running nor blocked, and then well only if the run is done and no ticket without
  open conflict has failed; each assigned agent appears once, with a ticket of its own.
\<close>

theorem live_activity_tells_the_ledger:
  assumes "orchestrationSnapshot runId lg = Some snap"
  shows "let st = orchestrationContentState snap; tickets = map (snapshot_ticket lg) (getTickets runId lg) in
    getRun runId lg \<noteq> None
    \<and> length (cs_segments st) = length (getTickets runId lg)
    \<and> (tickets \<noteq> [] \<longrightarrow> cs_badge st = Some (show_nat (length (filter (\<lambda>t. sn_status t = TkDone \<and> \<not> hasOpenConflict t) tickets))
         @ ''/'' @ show_nat (length tickets)))
    \<and> (cs_phase st = PhConflict \<longleftrightarrow> os_status snap = RunBlocked
         \<or> os_status snap = RunRunning \<and> (\<exists>t \<in> set tickets. hasOpenConflict t))
    \<and> (cs_ready st \<longleftrightarrow> os_status snap \<noteq> RunRunning \<and> os_status snap \<noteq> RunBlocked)
    \<and> (cs_phase st = PhDone \<longleftrightarrow> os_status snap = RunDone
         \<and> \<not> (\<exists>t \<in> set tickets. sn_status t = TkFailed \<and> \<not> hasOpenConflict t))
    \<and> distinct (map aa_id (cs_agents st))
    \<and> aa_id ` set (cs_agents st) = {a. a \<noteq> [] \<and> Some a \<in> tk_assignedSubAgentId ` set (getTickets runId lg)}
    \<and> (\<forall>x \<in> set (cs_agents st). \<exists>t \<in> set (getTickets runId lg).
         tk_assignedSubAgentId t = Some (aa_id x) \<and> tk_description t = aa_ticket x)"
proof -
  obtain run where run: "getRun runId lg = Some run"
      and snap: "snap = \<lparr> os_objective = rn_objective run, os_status = rn_status run, os_createdAt = rn_createdAt run,
         os_completedAt = rn_completedAt run, os_tickets = map (snapshot_ticket lg) (getTickets runId lg) \<rparr>"
    using assms by (auto simp: orchestrationSnapshot_def)
  define ts where "ts = map (snapshot_ticket lg) (getTickets runId lg)"
  have tickets: "os_tickets snap = ts" by (simp add: snap ts_def)
  have len: "length ts = length (getTickets runId lg)" by (simp add: ts_def)
  have of_ticket: "sn_agent (snapshot_ticket lg t) = tk_assignedSubAgentId t"
      "sn_description (snapshot_ticket lg t) = tk_description t" for t
    by (simp_all add: snapshot_ticket_def Let_def)
  have named: "sn_agent ` set ts = tk_assignedSubAgentId ` set (getTickets runId lg)"
    by (simp add: ts_def image_image of_ticket)
  note ids = snapshot_agents_ids [of "[]" ts ts, simplified]
  have own: "\<exists>t \<in> set (getTickets runId lg). tk_assignedSubAgentId t = Some (aa_id x) \<and> tk_description t = aa_ticket x"
    if x: "x \<in> set (snapshot_agents ts ts [])" for x
  proof -
    obtain a where a: "x = agent_entry ts a" using ids x by blast
    have "aa_id x = a" by (simp add: a agent_entry_def Let_def)
    moreover have "Some (aa_id x) \<in> sn_agent ` set ts" using ids x by blast
    ultimately have "\<exists>t \<in> set ts. sn_agent t = Some (aa_id x) \<and> sn_description t = aa_ticket x"
      using agent_entry_own [of a ts] a by simp
    then show ?thesis by (auto simp: ts_def of_ticket)
  qed
  show ?thesis
    unfolding Let_def ts_def [symmetric]
    by (intro conjI impI ballI)
      (use run ids own named in \<open>simp_all add: tickets len content_ready content_badge phase_conflict phase_done\<close>)
qed

definition sample_ledger :: ledger where
  "sample_ledger =
     (let ticket = (\<lambda>i st. \<lparr> tk_id = i, tk_runId = ''r'', tk_description = i, tk_status = st,
         tk_assignedSubAgentId = Some ''w'', tk_allowedTools = [], tk_dependsOn = [], tk_result = None \<rparr>)
      in \<lparr> agent_orchestration_runs = [\<lparr> rn_id = ''r'', rn_objective = ''goal'', rn_status = RunDone,
             rn_parentSessionId = ''s'', rn_finalResponse = None, rn_createdAt = 0, rn_completedAt = Some 9000 \<rparr>],
           agent_tickets = [ticket ''a'' TkDone, ticket ''b'' TkFailed], agent_ticket_comments = [], run_events = [] \<rparr>)"

lemma live_activity_tells_the_ledger_witness:
  "let st = orchestrationContentState (the (orchestrationSnapshot ''r'' sample_ledger))
   in cs_phase st \<noteq> PhDone \<and> cs_ready st \<and> length (cs_segments st) = 2 \<and> cs_badge st = Some ''1/2''"
proof -
  have run: "getRun ''r'' sample_ledger = Some (hd (agent_orchestration_runs sample_ledger))"
      "rn_status (hd (agent_orchestration_runs sample_ledger)) = RunDone"
      "getTickets ''r'' sample_ledger = agent_tickets sample_ledger"
    by (simp_all add: sample_ledger_def getRun_def getTickets_def lookup_row_def Let_def)
  then have snap: "orchestrationSnapshot ''r'' sample_ledger = Some (the (orchestrationSnapshot ''r'' sample_ledger))"
      "os_status (the (orchestrationSnapshot ''r'' sample_ledger)) = RunDone"
    by (simp_all add: orchestrationSnapshot_def)
  have t: "map (snapshot_ticket sample_ledger) (agent_tickets sample_ledger)
      = map (\<lambda>(i, st). \<lparr> sn_description = i, sn_status = st, sn_agent = Some ''w'', sn_kinds = [], sn_lastConflictBody = None \<rparr>)
          [(''a'', TkDone), (''b'', TkFailed)]"
    by (simp add: sample_ledger_def snapshot_ticket_def getComments_def Let_def)
  have shown: "length (agent_tickets sample_ledger) = 2" "show_nat 2 = ''2''" "show_nat (Suc (Suc 0)) = ''2''" "show_nat (Suc 0) = ''1''"
    by (simp add: sample_ledger_def Let_def, code_simp, code_simp, code_simp)
  from live_activity_tells_the_ledger [OF snap(1), unfolded Let_def run t] show ?thesis
    by (simp add: Let_def snap(2) shown hasOpenConflict_def del: content_segments content_phase content_agents)
qed

section \<open>The token that starts Live Activities\<close>

lemma upsert_row_keys:
  assumes "distinct (map tok rows)" "\<And>r. tok (f r) = tok r"
  shows "distinct (map tok (upsert_row tok row f rows))"
    and "set (map tok (upsert_row tok row f rows)) = insert (tok row) (set (map tok rows))"
proof -
  have "distinct (map tok (upsert_row tok row f rows))
      \<and> set (map tok (upsert_row tok row f rows)) = insert (tok row) (set (map tok rows))"
  proof (cases "tok row \<in> set (map tok rows)")
    case True
    then have "upsert_row tok row f rows = update_rows (\<lambda>r. tok r = tok row) f rows" by (auto simp: upsert_row_def)
    then have "map tok (upsert_row tok row f rows) = map tok rows" using map_key_update_rows assms(2) by metis
    then show ?thesis using True assms(1) by (simp only: insert_absorb)
  next
    case False
    then have "upsert_row tok row f rows = rows @ [row]" unfolding upsert_row_def by (metis image_eqI list.set_map)
    then show ?thesis using False assms(1) by simp
  qed
  then show "distinct (map tok (upsert_row tok row f rows))"
      "set (map tok (upsert_row tok row f rows)) = insert (tok row) (set (map tok rows))" by blast+
qed

lemma upsertDevice_keys:
  "distinct (map dv_token (pd_devices db)) \<Longrightarrow> distinct (map dv_token (pd_devices (upsertDevice token env ps now db)))"
  by (simp add: upsertDevice_def upsert_row_keys(1))

lemma upsertActivityToken_keys:
  "distinct (map at_token (pd_tokens db)) \<Longrightarrow>
   distinct (map at_token (pd_tokens (upsertActivityToken token env purpose k ref now db)))"
  by (simp add: upsertActivityToken_def Let_def upsert_row_keys(1) delete_rows_def distinct_map_filter)

text \<open>Registering the token that starts Live Activities leaves exactly that token as the start token
  of its environment, unless the token is already in the table as an update token or for the other
  environment: then the conflict keeps its purpose and its environment, and the environment
  is left without any start token.
\<close>

theorem start_token_registration:
  "filter (\<lambda>r. at_environment r = env) (startTokens (upsertActivityToken token env PurStart k ref now db))
    = (if \<exists>r \<in> set (pd_tokens db). at_token r = token \<and> (at_purpose r = PurUpdate \<or> at_environment r \<noteq> env) then []
       else [\<lparr> at_token = token, at_environment = env, at_purpose = PurStart, at_kind = k, at_referenceId = ref,
               at_createdAt = now \<rparr>])"
proof -
  let ?mine = "\<lambda>r. at_purpose r = PurStart \<and> at_environment r = env"
  let ?kept = "delete_rows ?mine (pd_tokens db)"
  let ?f = "\<lambda>r. r\<lparr> at_kind := k, at_referenceId := ref \<rparr>"
  have known: "(\<exists>r \<in> set ?kept. at_token r = token)
      \<longleftrightarrow> (\<exists>r \<in> set (pd_tokens db). at_token r = token \<and> (at_purpose r = PurUpdate \<or> at_environment r \<noteq> env))"
    by (auto simp: delete_rows_def intro: Purpose.exhaust)
  have none: "filter ?mine ?kept = []" "filter ?mine (update_rows (\<lambda>r. at_token r = token) ?f ?kept) = []"
    by (auto simp: delete_rows_def filter_empty_conv update_rows_def)
  have starts: "filter (\<lambda>r. at_environment r = env) (startTokens (upsertActivityToken token env PurStart k ref now db))
      = filter ?mine (upsert_row at_token \<lparr> at_token = token, at_environment = env, at_purpose = PurStart, at_kind = k,
          at_referenceId = ref, at_createdAt = now \<rparr> ?f ?kept)"
    by (simp add: startTokens_def upsertActivityToken_def)
  show ?thesis
    unfolding starts known [symmetric] upsert_row_def using none by simp
qed

lemma start_token_registration_witness:
  "let row = \<lparr> at_token = ''t'', at_environment = Sandbox, at_purpose = PurUpdate, at_kind = None,
         at_referenceId = None, at_createdAt = 0 \<rparr>;
       db = \<lparr> pd_devices = [], pd_tokens = [row], pd_sent = [] \<rparr>
   in filter (\<lambda>r. at_environment r = Sandbox) (startTokens (upsertActivityToken ''t'' Sandbox PurStart None None 5 db)) = []"
  unfolding Let_def by (subst start_token_registration) simp_all

end
