(* ===== verification/Model_Vendors.thy ===== *)
theory Model_Vendors
  imports Model_Router Js_Json
begin

text \<open>
  The three vendors of models (\<open>src/model-provider/anthropic.provider.ts\<close>, \<open>openai.provider.ts\<close>,
  \<open>google.provider.ts\<close>): the translation of a conversation into the messages of each vendor and of its answer into
  the answer of the system. The SDK of a vendor is an argument: a function of the request. Together they are the
  \<open>providers\<close> that \<open>Model_Router\<close> calls.
\<close>

type_synonym ('q, 'a, 'w) sdk = "'q \<Rightarrow> 'w \<Rightarrow> (jin_error + 'a) \<times> 'w"

text \<open>The text of a result: a string as it is, any other value as JSON.\<close>

definition output_text :: "json \<Rightarrow> string" where
  "output_text v = (case v of JStr s \<Rightarrow> s | _ \<Rightarrow> stringify v)"

section \<open>Anthropic\<close>

datatype anthropic_block = ABText string | ABToolUse string string "json option" | ABToolResult string string "bool option"

fun anthropic_block_of :: "ModelMessageContentBlock \<Rightarrow> anthropic_block" where
  "anthropic_block_of (BText t) = ABText t"
| "anthropic_block_of (BToolUse c) = ABToolUse (tc_id c) (tc_name c) (tc_input c)"
| "anthropic_block_of (BToolResult i out e) = ABToolResult i (output_text out) e"

definition toAnthropicContent :: "MessageContent \<Rightarrow> string + anthropic_block list" where
  "toAnthropicContent content = (case content of CText t \<Rightarrow> Inl t | CBlocks bs \<Rightarrow> Inr (map anthropic_block_of bs))"

type_synonym anthropic_message = "Role \<times> (string + anthropic_block list)"

definition anthropic_messages :: "ModelCompletionRequest \<Rightarrow> anthropic_message list" where
  "anthropic_messages request = map (\<lambda>m. (m_role m, toAnthropicContent (m_content m))) (rq_messages request)"

definition anthropic_stop_reason :: "string option \<Rightarrow> ModelStopReason" where
  "anthropic_stop_reason r =
     (if r = Some ''tool_use'' then ToolUse
      else if r = Some ''max_tokens'' then MaxTokens
      else if r = Some ''refusal'' then Refusal
      else EndTurn)"

datatype anthropic_part = APText string | APToolUse string string "json option" | APOther

record anthropic_answer =
  aa_content :: "anthropic_part list"
  aa_model :: string
  aa_input_tokens :: int
  aa_output_tokens :: int
  aa_stop_reason :: "string option"

definition some_calls :: "ModelToolCall list \<Rightarrow> ModelToolCall list option" where
  "some_calls cs = (if cs = [] then None else Some cs)"

definition toCompletionResponse :: "anthropic_answer \<Rightarrow> ModelCompletionResponse" where
  "toCompletionResponse message =
     (let textParts = concat (map (\<lambda>b. case b of APText t \<Rightarrow> [t] | _ \<Rightarrow> []) (aa_content message));
          toolCalls = concat (map (\<lambda>b. case b of APToolUse i n v \<Rightarrow> [\<lparr> tc_id = i, tc_name = n, tc_input = v \<rparr>] | _ \<Rightarrow> []) (aa_content message))
      in \<lparr> rs_content = concat textParts, rs_modelId = aa_model message, rs_inputTokens = aa_input_tokens message,
           rs_outputTokens = aa_output_tokens message, rs_toolCalls = some_calls toolCalls,
           rs_stopReason = anthropic_stop_reason (aa_stop_reason message) \<rparr>)"

definition anthropic_complete ::
  "(anthropic_params \<times> anthropic_message list, anthropic_answer, 'w) sdk \<Rightarrow> string \<Rightarrow> ModelCompletionRequest \<Rightarrow> ('w, ModelCompletionResponse) call" where
  "anthropic_complete create modelId request w =
     (case create (buildCreateParams modelId request, anthropic_messages request) w of
        (Inl e, w1) \<Rightarrow> (Inl e, w1) | (Inr m, w1) \<Rightarrow> (Inr (toCompletionResponse m), w1))"

text \<open>The stream hands on each piece of text with the text so far, then the whole message.\<close>

definition anthropic_completeStream ::
  "(anthropic_params \<times> anthropic_message list \<Rightarrow> ('w, anthropic_answer) streamed_call) \<Rightarrow> string \<Rightarrow> ModelCompletionRequest
     \<Rightarrow> ('w, ModelCompletionResponse) streamed_call" where
  "anthropic_completeStream create modelId request w =
     (case create (buildCreateParams modelId request, anthropic_messages request) w of
        (deltas, Inl e, w1) \<Rightarrow> (deltas, Inl e, w1) | (deltas, Inr m, w1) \<Rightarrow> (deltas, Inr (toCompletionResponse m), w1))"

section \<open>OpenAI\<close>

record openai_call =
  oc_id :: string
  oc_name :: string
  oc_arguments :: string

datatype openai_message =
    OSystem string
  | OUser string
  | OAssistant "string option" "openai_call list option"
  | OTool string string

definition openai_texts :: "ModelMessageContentBlock list \<Rightarrow> string list" where
  "openai_texts bs = concat (map (\<lambda>b. case b of BText t \<Rightarrow> [t] | _ \<Rightarrow> []) bs)"

definition openai_call_of :: "ModelToolCall \<Rightarrow> openai_call" where
  "openai_call_of c = \<lparr> oc_id = tc_id c, oc_name = tc_name c,
     oc_arguments = stringify (case tc_input c of None \<Rightarrow> JObj [] | Some JNull \<Rightarrow> JObj [] | Some v \<Rightarrow> v) \<rparr>"

definition block_calls :: "ModelMessageContentBlock list \<Rightarrow> ModelToolCall list" where
  "block_calls bs = concat (map (\<lambda>b. case b of BToolUse c \<Rightarrow> [c] | _ \<Rightarrow> []) bs)"

definition block_results :: "ModelMessageContentBlock list \<Rightarrow> (string \<times> json) list" where
  "block_results bs = concat (map (\<lambda>b. case b of BToolResult i out _ \<Rightarrow> [(i, out)] | _ \<Rightarrow> []) bs)"

definition openai_message_of :: "ModelMessage \<Rightarrow> openai_message list" where
  "openai_message_of message =
     (case m_content message of
        CText t \<Rightarrow> [if m_role message = RAssistant then OAssistant (Some t) None else OUser t]
      | CBlocks bs \<Rightarrow>
          let textParts = openai_texts bs;
              toolCalls = map openai_call_of (block_calls bs)
          in map (\<lambda>(i, out). OTool i (output_text out)) (block_results bs)
             @ (if textParts \<noteq> [] \<or> toolCalls \<noteq> []
                then [OAssistant (if textParts \<noteq> [] then Some (concat textParts) else None)
                        (if toolCalls \<noteq> [] then Some toolCalls else None)]
                else []))"

definition toOpenAIMessages :: "ModelMessage list \<Rightarrow> openai_message list" where
  "toOpenAIMessages messages = concat (map openai_message_of messages)"

definition openai_stop_reason :: "string option \<Rightarrow> ModelStopReason" where
  "openai_stop_reason r =
     (if r = Some ''tool_calls'' then ToolUse
      else if r = Some ''length'' then MaxTokens
      else if r = Some ''content_filter'' then Refusal
      else EndTurn)"

definition parseToolArguments :: "string \<Rightarrow> json" where
  "parseToolArguments raw = (case JSON_parse raw of Some v \<Rightarrow> v | None \<Rightarrow> JObj [])"

record openai_request =
  or_model :: string
  or_messages :: "openai_message list"
  or_max_completion_tokens :: int
  or_temperature :: "rat option"
  or_reasoning_effort :: "ModelEffort option"
  or_tools :: "ModelToolDeclaration list option"

definition openai_request_of :: "string \<Rightarrow> ModelCompletionRequest \<Rightarrow> openai_request" where
  "openai_request_of modelId request =
     \<lparr> or_model = modelId,
       or_messages = (case rq_systemPrompt request of Some p \<Rightarrow> [OSystem p] | None \<Rightarrow> []) @ toOpenAIMessages (rq_messages request),
       or_max_completion_tokens = rq_maxOutputTokens request,
       or_temperature = (if rq_effort request = None then Some (rq_temperature request) else None),
       or_reasoning_effort = (if rq_tools request \<noteq> None then None else rq_effort request),
       or_tools = rq_tools request \<rparr>"

text \<open>A call of the answer is of a function or of another type; the first choice may be missing.\<close>

record openai_choice =
  ch_content :: "string option"
  ch_tool_calls :: "(bool \<times> openai_call) list"
  ch_finish_reason :: "string option"

record openai_answer =
  oa_choices :: "openai_choice list"
  oa_model :: string
  oa_usage :: "(int \<times> int) option"

definition openai_response :: "openai_answer \<Rightarrow> ModelCompletionResponse" where
  "openai_response r =
     (let choice = (case oa_choices r of [] \<Rightarrow> None | c # _ \<Rightarrow> Some c);
          rawToolCalls = map snd (filter fst (case choice of None \<Rightarrow> [] | Some c \<Rightarrow> ch_tool_calls c));
          toolCalls = map (\<lambda>c. \<lparr> tc_id = oc_id c, tc_name = oc_name c, tc_input = Some (parseToolArguments (oc_arguments c)) \<rparr>) rawToolCalls
      in \<lparr> rs_content = (case choice of Some c \<Rightarrow> (case ch_content c of Some t \<Rightarrow> t | None \<Rightarrow> []) | None \<Rightarrow> []),
           rs_modelId = oa_model r,
           rs_inputTokens = (case oa_usage r of Some u \<Rightarrow> fst u | None \<Rightarrow> 0),
           rs_outputTokens = (case oa_usage r of Some u \<Rightarrow> snd u | None \<Rightarrow> 0),
           rs_toolCalls = some_calls toolCalls,
           rs_stopReason = openai_stop_reason (case choice of Some c \<Rightarrow> ch_finish_reason c | None \<Rightarrow> None) \<rparr>)"

definition openai_complete :: "(openai_request, openai_answer, 'w) sdk \<Rightarrow> string \<Rightarrow> ModelCompletionRequest \<Rightarrow> ('w, ModelCompletionResponse) call" where
  "openai_complete create modelId request w =
     (case create (openai_request_of modelId request) w of
        (Inl e, w1) \<Rightarrow> (Inl e, w1) | (Inr r, w1) \<Rightarrow> (Inr (openai_response r), w1))"

section \<open>Google\<close>

text \<open>\<open>Map.set\<close>: the last call of an identifier names it.\<close>

definition buildToolCallIdToNameMap :: "ModelMessage list \<Rightarrow> string \<rightharpoonup> string" where
  "buildToolCallIdToNameMap messages =
     map_of (rev (concat (map (\<lambda>m. case m_content m of CText _ \<Rightarrow> [] | CBlocks bs \<Rightarrow> map (\<lambda>c. (tc_id c, tc_name c)) (block_calls bs)) messages)))"

datatype gemini_part = GText string | GCall string string json | GResponse string string bool json

fun gemini_part_of :: "(string \<rightharpoonup> string) \<Rightarrow> ModelMessageContentBlock \<Rightarrow> gemini_part" where
  "gemini_part_of names (BText t) = GText t"
| "gemini_part_of names (BToolUse c) =
     GCall (tc_id c) (tc_name c) (case tc_input c of None \<Rightarrow> JObj [] | Some JNull \<Rightarrow> JObj [] | Some v \<Rightarrow> v)"
| "gemini_part_of names (BToolResult i out e) =
     GResponse i (case names i of Some n \<Rightarrow> n | None \<Rightarrow> i) (e = Some True) out"

definition toGeminiParts :: "MessageContent \<Rightarrow> (string \<rightharpoonup> string) \<Rightarrow> gemini_part list" where
  "toGeminiParts content names = (case content of CText t \<Rightarrow> [GText t] | CBlocks bs \<Rightarrow> map (gemini_part_of names) bs)"

definition google_stop_reason :: "bool \<Rightarrow> string option \<Rightarrow> ModelStopReason" where
  "google_stop_reason hasFunctionCalls finishReason =
     (if hasFunctionCalls then ToolUse else if finishReason = Some ''MAX_TOKENS'' then MaxTokens else EndTurn)"

record google_request =
  gr_model :: string
  gr_contents :: "(Role \<times> gemini_part list) list"
  gr_systemInstruction :: "string option"
  gr_maxOutputTokens :: int
  gr_temperature :: rat
  gr_tools :: "ModelToolDeclaration list option"

definition google_request_of :: "string \<Rightarrow> ModelCompletionRequest \<Rightarrow> google_request" where
  "google_request_of modelId request =
     (let names = buildToolCallIdToNameMap (rq_messages request)
      in \<lparr> gr_model = modelId, gr_contents = map (\<lambda>m. (m_role m, toGeminiParts (m_content m) names)) (rq_messages request),
           gr_systemInstruction = rq_systemPrompt request, gr_maxOutputTokens = rq_maxOutputTokens request,
           gr_temperature = rq_temperature request, gr_tools = rq_tools request \<rparr>)"

record google_answer =
  ga_functionCalls :: "(string option \<times> string option \<times> json option) list option"
  ga_text :: "string option"
  ga_modelVersion :: "string option"
  ga_promptTokenCount :: "int option"
  ga_candidatesTokenCount :: "int option"
  ga_finishReason :: "string option"

text \<open>\<open>fresh n\<close> is the identifier drawn for the \<open>n\<close>-th call without one.\<close>

definition google_call_of :: "(nat \<Rightarrow> string) \<Rightarrow> nat \<times> string option \<times> string option \<times> json option \<Rightarrow> ModelToolCall" where
  "google_call_of fresh c =
     (case c of (n, i, name, args) \<Rightarrow>
        \<lparr> tc_id = (case i of Some x \<Rightarrow> x | None \<Rightarrow> fresh n), tc_name = (case name of Some x \<Rightarrow> x | None \<Rightarrow> []),
          tc_input = Some (case args of Some v \<Rightarrow> v | None \<Rightarrow> JObj []) \<rparr>)"

definition google_response :: "(nat \<Rightarrow> string) \<Rightarrow> string \<Rightarrow> google_answer \<Rightarrow> ModelCompletionResponse" where
  "google_response fresh modelId r =
     (let toolCalls = map (google_call_of fresh) (enumerate 0 (case ga_functionCalls r of Some cs \<Rightarrow> cs | None \<Rightarrow> []))
      in \<lparr> rs_content = (case ga_text r of Some t \<Rightarrow> t | None \<Rightarrow> []),
           rs_modelId = (case ga_modelVersion r of Some v \<Rightarrow> v | None \<Rightarrow> modelId),
           rs_inputTokens = (case ga_promptTokenCount r of Some n \<Rightarrow> n | None \<Rightarrow> 0),
           rs_outputTokens = (case ga_candidatesTokenCount r of Some n \<Rightarrow> n | None \<Rightarrow> 0),
           rs_toolCalls = some_calls toolCalls,
           rs_stopReason = google_stop_reason (toolCalls \<noteq> []) (ga_finishReason r) \<rparr>)"

definition google_complete :: "(nat \<Rightarrow> string) \<Rightarrow> (google_request, google_answer, 'w) sdk \<Rightarrow> string \<Rightarrow> ModelCompletionRequest
    \<Rightarrow> ('w, ModelCompletionResponse) call" where
  "google_complete fresh generateContent modelId request w =
     (case generateContent (google_request_of modelId request) w of
        (Inl e, w1) \<Rightarrow> (Inl e, w1) | (Inr r, w1) \<Rightarrow> (Inr (google_response fresh modelId r), w1))"

section \<open>Nothing is lost on the way to a vendor\<close>

text \<open>The calls and the results of a conversation, in order, and the same of what each vendor is sent.\<close>

definition conversation_blocks :: "ModelMessage list \<Rightarrow> ModelMessageContentBlock list" where
  "conversation_blocks messages = concat (map (\<lambda>m. case m_content m of CText _ \<Rightarrow> [] | CBlocks bs \<Rightarrow> bs) messages)"

definition sent_calls :: "ModelMessage list \<Rightarrow> (string \<times> string) list" where
  "sent_calls messages = map (\<lambda>c. (tc_id c, tc_name c)) (block_calls (conversation_blocks messages))"

definition sent_results :: "ModelMessage list \<Rightarrow> (string \<times> string) list" where
  "sent_results messages = map (\<lambda>(i, out). (i, output_text out)) (block_results (conversation_blocks messages))"

definition anthropic_calls :: "anthropic_message list \<Rightarrow> (string \<times> string) list" where
  "anthropic_calls ms = concat (map (\<lambda>b. case b of ABToolUse i n _ \<Rightarrow> [(i, n)] | _ \<Rightarrow> []) (concat (map (\<lambda>(_, c). case c of Inl _ \<Rightarrow> [] | Inr bs \<Rightarrow> bs) ms)))"

definition anthropic_results :: "anthropic_message list \<Rightarrow> (string \<times> string) list" where
  "anthropic_results ms = concat (map (\<lambda>b. case b of ABToolResult i t _ \<Rightarrow> [(i, t)] | _ \<Rightarrow> []) (concat (map (\<lambda>(_, c). case c of Inl _ \<Rightarrow> [] | Inr bs \<Rightarrow> bs) ms)))"

definition openai_calls :: "openai_message list \<Rightarrow> (string \<times> string) list" where
  "openai_calls ms = concat (map (\<lambda>m. case m of OAssistant _ (Some cs) \<Rightarrow> map (\<lambda>c. (oc_id c, oc_name c)) cs | _ \<Rightarrow> []) ms)"

definition openai_results :: "openai_message list \<Rightarrow> (string \<times> string) list" where
  "openai_results ms = concat (map (\<lambda>m. case m of OTool i t \<Rightarrow> [(i, t)] | _ \<Rightarrow> []) ms)"

definition google_calls :: "(Role \<times> gemini_part list) list \<Rightarrow> (string \<times> string) list" where
  "google_calls ms = concat (map (\<lambda>p. case p of GCall i n _ \<Rightarrow> [(i, n)] | _ \<Rightarrow> []) (concat (map snd ms)))"

definition google_results :: "(Role \<times> gemini_part list) list \<Rightarrow> (string \<times> string) list" where
  "google_results ms = concat (map (\<lambda>p. case p of GResponse i _ _ out \<Rightarrow> [(i, output_text out)] | _ \<Rightarrow> []) (concat (map snd ms)))"

lemma blocks_append [simp]:
  "block_calls (a @ b) = block_calls a @ block_calls b" "block_results (a @ b) = block_results a @ block_results b"
  "conversation_blocks (m # ms) = (case m_content m of CText _ \<Rightarrow> [] | CBlocks bs \<Rightarrow> bs) @ conversation_blocks ms"
  by (simp_all add: block_calls_def block_results_def conversation_blocks_def)

lemma blocks_empty [simp]: "block_calls [] = []" "block_results [] = []" "conversation_blocks [] = []"
  by (simp_all add: block_calls_def block_results_def conversation_blocks_def)

lemma anthropic_message_parts:
  "concat (map (\<lambda>b. case b of ABToolUse i n _ \<Rightarrow> [(i, n)] | _ \<Rightarrow> []) (map anthropic_block_of bs)) = map (\<lambda>c. (tc_id c, tc_name c)) (block_calls bs)"
  "concat (map (\<lambda>b. case b of ABToolResult i t _ \<Rightarrow> [(i, t)] | _ \<Rightarrow> []) (map anthropic_block_of bs)) = map (\<lambda>(i, out). (i, output_text out)) (block_results bs)"
  by (induction bs; auto simp: block_calls_def block_results_def split: ModelMessageContentBlock.splits anthropic_block.splits)+

lemma google_message_parts:
  "concat (map (\<lambda>p. case p of GCall i n _ \<Rightarrow> [(i, n)] | _ \<Rightarrow> []) (map (gemini_part_of names) bs)) = map (\<lambda>c. (tc_id c, tc_name c)) (block_calls bs)"
  "concat (map (\<lambda>p. case p of GResponse i _ _ out \<Rightarrow> [(i, output_text out)] | _ \<Rightarrow> []) (map (gemini_part_of names) bs))
     = map (\<lambda>(i, out). (i, output_text out)) (block_results bs)"
proof (induction bs)
  case (Cons b bs)
  { case 1 then show ?case using Cons by (cases b) (simp_all add: block_calls_def) }
  { case 2 then show ?case using Cons by (cases b) (simp_all add: block_results_def) }
qed (simp_all add: block_calls_def block_results_def)

lemma openai_message_parts:
  "openai_calls (openai_message_of m) = map (\<lambda>c. (tc_id c, tc_name c)) (block_calls (case m_content m of CText _ \<Rightarrow> [] | CBlocks bs \<Rightarrow> bs))"
  "openai_results (openai_message_of m) = map (\<lambda>(i, out). (i, output_text out)) (block_results (case m_content m of CText _ \<Rightarrow> [] | CBlocks bs \<Rightarrow> bs))"
proof -
  have tools: "openai_calls (map (\<lambda>(i, out). OTool i (output_text out)) rs) = []"
    "openai_results (map (\<lambda>(i, out). OTool i (output_text out)) rs) = map (\<lambda>(i, out). (i, output_text out)) rs" for rs
    by (induction rs) (auto simp: openai_calls_def openai_results_def)
  have app: "openai_calls (a @ b) = openai_calls a @ openai_calls b" "openai_results (a @ b) = openai_results a @ openai_results b" for a b
    by (simp_all add: openai_calls_def openai_results_def)
  have said: "openai_calls (if ts \<noteq> [] \<or> map openai_call_of cs \<noteq> [] then [OAssistant c (if map openai_call_of cs \<noteq> [] then Some (map openai_call_of cs) else None)] else [])
      = map (\<lambda>c. (tc_id c, tc_name c)) cs"
    "openai_results (if ts \<noteq> [] \<or> map openai_call_of cs \<noteq> [] then [OAssistant c x] else []) = []" for ts :: "string list" and cs c x
    by (auto simp: openai_calls_def openai_results_def openai_call_of_def)
  show "openai_calls (openai_message_of m) = map (\<lambda>c. (tc_id c, tc_name c)) (block_calls (case m_content m of CText _ \<Rightarrow> [] | CBlocks bs \<Rightarrow> bs))"
  proof (cases "m_content m")
    case (CText t)
    then show ?thesis by (simp add: openai_message_of_def openai_calls_def)
  next
    case (CBlocks bs)
    then show ?thesis by (simp only: openai_message_of_def Let_def MessageContent.simps app tools said append.simps)
  qed
  show "openai_results (openai_message_of m) = map (\<lambda>(i, out). (i, output_text out)) (block_results (case m_content m of CText _ \<Rightarrow> [] | CBlocks bs \<Rightarrow> bs))"
  proof (cases "m_content m")
    case (CText t)
    then show ?thesis by (simp add: openai_message_of_def openai_results_def)
  next
    case (CBlocks bs)
    then show ?thesis by (simp only: openai_message_of_def Let_def MessageContent.simps app tools said append_Nil2)
  qed
qed


text \<open>A call of OpenAI that is sent back in the history is read back as the call it was.\<close>

theorem openai_call_roundtrip:
  assumes "json_wf v" "v \<noteq> JNull"
  shows "parseToolArguments (oc_arguments (openai_call_of \<lparr> tc_id = i, tc_name = n, tc_input = Some v \<rparr>)) = v"
  using assms parse_stringify [OF assms(1)] by (cases v) (simp_all add: openai_call_of_def parseToolArguments_def)

text \<open>The text of a message of the owner that comes in blocks is sent to OpenAI as said by the assistant.\<close>

theorem owner_blocks_become_assistant:
  "openai_message_of \<lparr> m_role = RUser, m_content = CBlocks [BText t] \<rparr> = [OAssistant (Some t) None]"
  by (simp add: openai_message_of_def openai_texts_def block_calls_def block_results_def)

text \<open>A result goes to Gemini with the name of the call it answers.\<close>

lemma gemini_result_named:
  assumes "distinct (map fst (sent_calls messages))" "(i, n) \<in> set (sent_calls messages)"
  shows "gemini_part_of (buildToolCallIdToNameMap messages) (BToolResult i out e) = GResponse i n (e = Some True) out"
proof -
  have "concat (map (\<lambda>m. case m_content m of CText _ \<Rightarrow> [] | CBlocks bs \<Rightarrow> map (\<lambda>c. (tc_id c, tc_name c)) (block_calls bs)) messages) = sent_calls messages"
    by (induction messages) (auto simp: sent_calls_def split: MessageContent.splits)
  then have "buildToolCallIdToNameMap messages i = Some n"
    using assms by (simp add: buildToolCallIdToNameMap_def rev_map [symmetric])
  then show ?thesis by simp
qed

section \<open>The providers\<close>

record 'w vendor_sdks =
  vs_anthropic :: "(anthropic_params \<times> anthropic_message list, anthropic_answer, 'w) sdk"
  vs_anthropic_stream :: "anthropic_params \<times> anthropic_message list \<Rightarrow> ('w, anthropic_answer) streamed_call"
  vs_openai :: "(openai_request, openai_answer, 'w) sdk"
  vs_google :: "(google_request, google_answer, 'w) sdk"

definition vendor_providers :: "(nat \<Rightarrow> string) \<Rightarrow> 'w vendor_sdks \<Rightarrow> 'w providers" where
  "vendor_providers fresh sdks =
     \<lparr> pv_complete = (\<lambda>v. case v of
          VAnthropic \<Rightarrow> anthropic_complete (vs_anthropic sdks)
        | VOpenAI \<Rightarrow> openai_complete (vs_openai sdks)
        | VGoogle \<Rightarrow> google_complete fresh (vs_google sdks)),
       pv_stream = (\<lambda>v. case v of VAnthropic \<Rightarrow> Some (anthropic_completeStream (vs_anthropic_stream sdks)) | _ \<Rightarrow> None) \<rparr>"

end
