(* ===== verification/Js_Regex.thy ===== *)
theory Js_Regex
  imports Js_Unicode
begin

text \<open>
  The regular expressions of JavaScript as the code writes them. An expression is data; \<open>matches\<close> lists
  the ways it matches at a position in the order in which the backtracking of the language tries them,
  so the first one is the match; \<open>replace_with\<close> is \<open>replace\<close> with the flag \<open>g\<close> and a function. The theory
  has what the proofs about replacements need: a match consumes a piece of the text, a loop over a
  class consumes characters of the class, and a group holds a piece of the match.
\<close>

section \<open>Expressions and their matches\<close>

text \<open>\<open>^\<close> and \<open>$\<close> are those of the flag \<open>m\<close>. \<open>Upto\<close> is the quantifier \<open>{0,n}\<close>.\<close>

datatype regex =
    Chars "nat \<Rightarrow> bool"
  | Then regex regex
  | Either regex regex
  | Many regex
  | Few regex
  | Upto nat regex
  | Group nat regex
  | LineStart
  | LineEnd
  | NotAfter "nat \<Rightarrow> bool"
  | NotBefore "nat \<Rightarrow> bool"

text \<open>A position: the character before it, the text after it, and the groups matched so far.\<close>

type_synonym cursor = "nat option \<times> codepoints \<times> (nat \<times> codepoints) list"

abbreviation ahead :: "cursor \<Rightarrow> codepoints" where "ahead c \<equiv> fst (snd c)"
abbreviation groups :: "cursor \<Rightarrow> (nat \<times> codepoints) list" where "groups c \<equiv> snd (snd c)"

definition line_break :: "nat \<Rightarrow> bool" where
  "line_break c \<longleftrightarrow> c \<in> {10, 13, 0x2028, 0x2029}"

text \<open>A loop never takes an empty round.\<close>

fun iter :: "bool \<Rightarrow> nat \<Rightarrow> (cursor \<Rightarrow> cursor list) \<Rightarrow> cursor \<Rightarrow> cursor list" where
  "iter greedy 0 m c = [c]"
| "iter greedy (Suc k) m c =
     (let further = concat (map (iter greedy k m) (filter (\<lambda>d. length (ahead d) < length (ahead c)) (m c)))
      in if greedy then further @ [c] else c # further)"

primrec matches :: "regex \<Rightarrow> cursor \<Rightarrow> cursor list" where
  "matches (Chars P) = (\<lambda>(p, s, g). case s of [] \<Rightarrow> [] | x # xs \<Rightarrow> if P x then [(Some x, xs, g)] else [])"
| "matches (Then a b) = (\<lambda>c. concat (map (matches b) (matches a c)))"
| "matches (Either a b) = (\<lambda>c. matches a c @ matches b c)"
| "matches (Many a) = (\<lambda>c. iter True (length (ahead c)) (matches a) c)"
| "matches (Few a) = (\<lambda>c. iter False (length (ahead c)) (matches a) c)"
| "matches (Upto n a) = (\<lambda>c. iter True n (matches a) c)"
| "matches (Group i a) = (\<lambda>(p, s, g). map (\<lambda>(p', s', g'). (p', s', (i, take (length s - length s') s) # g'))
     (matches a (p, s, g)))"
| "matches LineStart = (\<lambda>(p, s, g). if p = None \<or> line_break (the p) then [(p, s, g)] else [])"
| "matches LineEnd = (\<lambda>(p, s, g). if s = [] \<or> line_break (hd s) then [(p, s, g)] else [])"
| "matches (NotAfter P) = (\<lambda>(p, s, g). if p \<noteq> None \<and> P (the p) then [] else [(p, s, g)])"
| "matches (NotBefore P) = (\<lambda>(p, s, g). if s \<noteq> [] \<and> P (hd s) then [] else [(p, s, g)])"

definition Some_of :: "regex \<Rightarrow> regex" where "Some_of r = Then r (Many r)"
definition Few_of :: "regex \<Rightarrow> regex" where "Few_of r = Then r (Few r)"
definition Lit :: "nat \<Rightarrow> regex" where "Lit c = Chars (\<lambda>x. x = c)"

fun Word :: "codepoints \<Rightarrow> regex" where
  "Word [] = Upto 0 LineEnd"
| "Word [c] = Lit c"
| "Word (c # cs) = Then (Lit c) (Word cs)"

section \<open>Replacing\<close>

text \<open>The function is given the match and the groups, and threads a state through the matches.\<close>

function replace_with :: "regex \<Rightarrow> (codepoints \<Rightarrow> (nat \<rightharpoonup> codepoints) \<Rightarrow> 'a \<Rightarrow> codepoints \<times> 'a) \<Rightarrow> nat option
    \<Rightarrow> codepoints \<Rightarrow> 'a \<Rightarrow> codepoints \<times> 'a" where
  "replace_with r f p s a =
     (case matches r (p, s, []) of
        [] \<Rightarrow> (case s of
            [] \<Rightarrow> ([], a)
          | x # xs \<Rightarrow> (case replace_with r f (Some x) xs a of (tail, a1) \<Rightarrow> (x # tail, a1)))
      | (p', s', g) # _ \<Rightarrow>
          (case f (take (length s - length s') s) (map_of g) a of (out, a1) \<Rightarrow>
            if length s' < length s then (case replace_with r f p' s' a1 of (tail, a2) \<Rightarrow> (out @ tail, a2))
            else (case s of
                [] \<Rightarrow> (out, a1)
              | x # xs \<Rightarrow> (case replace_with r f (Some x) xs a1 of (tail, a2) \<Rightarrow> (out @ x # tail, a2)))))"
  by pat_completeness auto
termination
  by (relation "measure (\<lambda>(r, f, p, s, a). length s)") auto

declare replace_with.simps [simp del]

definition replace_matches :: "regex \<Rightarrow> ((nat \<rightharpoonup> codepoints) \<Rightarrow> codepoints) \<Rightarrow> codepoints \<Rightarrow> codepoints" where
  "replace_matches r f s = fst (replace_with r (\<lambda>_ g (_::unit). (f g, ())) None s ())"

section \<open>What a match consumes\<close>

definition passes :: "cursor \<Rightarrow> codepoints \<Rightarrow> cursor \<Rightarrow> bool" where
  "passes c u d \<longleftrightarrow> ahead c = u @ ahead d \<and> fst d = (if u = [] then fst c else Some (last u))"

lemma passes_refl [simp]: "passes c [] c"
  by (simp add: passes_def)

lemma passes_trans: "passes c u d \<Longrightarrow> passes d v e \<Longrightarrow> passes c (u @ v) e"
  by (auto simp: passes_def)

lemma iter_induct:
  assumes "e \<in> set (iter greedy k m c)" "P c"
    and "\<And>d d'. P d \<Longrightarrow> d' \<in> set (m d) \<Longrightarrow> P d'"
  shows "P e"
  using assms(1,2)
proof (induction k arbitrary: c)
  case (Suc k)
  then consider "e = c" | d where "d \<in> set (m c)" "e \<in> set (iter greedy k m d)"
    by (auto simp: Let_def split: if_splits)
  then show ?case
  proof cases
    case 2
    then show ?thesis using Suc.IH Suc.prems(2) assms(3) by blast
  qed (use Suc.prems(2) in simp)
qed simp

lemma iter_pass:
  assumes "e \<in> set (iter greedy k m c)" "\<And>c d. d \<in> set (m c) \<Longrightarrow> \<exists>u. passes c u d"
  shows "\<exists>u. passes c u e"
  using assms(1)
proof (rule iter_induct)
  show "\<exists>u. passes c u c" using passes_refl by blast
next
  fix d d' assume "\<exists>u. passes c u d" "d' \<in> set (m d)"
  then show "\<exists>u. passes c u d'" using assms(2) passes_trans by meson
qed

lemma matches_pass: "d \<in> set (matches r c) \<Longrightarrow> \<exists>u. passes c u d"
proof (induction r arbitrary: c d)
  case (Chars P)
  obtain p s g where c: "c = (p, s, g)" by (cases c)
  with Chars obtain x xs where "s = x # xs" "d = (Some x, xs, g)" by (auto split: list.splits if_splits)
  then have "passes c [x] d" by (simp add: passes_def c)
  then show ?case by blast
next
  case (Then a b)
  then obtain e where e: "e \<in> set (matches a c)" "d \<in> set (matches b e)" by auto
  then show ?case using Then.IH(1) [OF e(1)] Then.IH(2) [OF e(2)] passes_trans by blast
next
  case (Either a b)
  from Either.prems have "d \<in> set (matches a c) \<or> d \<in> set (matches b c)" by simp
  then show ?case using Either.IH(1) [of d c] Either.IH(2) [of d c] by blast
next
  case (Many a)
  from Many.prems have "d \<in> set (iter True (length (ahead c)) (matches a) c)" by simp
  then show ?case using Many.IH by (rule iter_pass)
next
  case (Few a)
  from Few.prems have "d \<in> set (iter False (length (ahead c)) (matches a) c)" by simp
  then show ?case using Few.IH by (rule iter_pass)
next
  case (Upto n a)
  from Upto.prems have "d \<in> set (iter True n (matches a) c)" by simp
  then show ?case using Upto.IH by (rule iter_pass)
next
  case (Group i a)
  obtain p s g where c: "c = (p, s, g)" by (cases c)
  with Group.prems obtain p' s' g' where "(p', s', g') \<in> set (matches a c)" and d: "fst d = p'" "ahead d = s'" by auto
  from Group.IH [OF this(1)] show ?case by (simp add: passes_def d)
next
  case LineStart
  then have "d = c" by (cases c) (simp split: if_splits)
  then show ?case using passes_refl by blast
next
  case LineEnd
  then have "d = c" by (cases c) (simp split: if_splits)
  then show ?case using passes_refl by blast
next
  case (NotAfter P)
  then have "d = c" by (cases c) (simp split: if_splits)
  then show ?case using passes_refl by blast
next
  case (NotBefore P)
  then have "d = c" by (cases c) (simp split: if_splits)
  then show ?case using passes_refl by blast
qed

lemma iter_chars:
  assumes "e \<in> set (iter greedy k (matches (Chars P)) c)"
  shows "\<exists>u. passes c u e \<and> (\<forall>x \<in> set u. P x) \<and> groups e = groups c"
  using assms
proof (rule iter_induct)
  show "\<exists>u. passes c u c \<and> (\<forall>x \<in> set u. P x) \<and> groups c = groups c" by (rule exI [of _ "[]"]) simp
next
  fix d d' assume "\<exists>u. passes c u d \<and> (\<forall>x \<in> set u. P x) \<and> groups d = groups c" "d' \<in> set (matches (Chars P) d)"
  moreover obtain p s g where d: "d = (p, s, g)" by (cases d)
  ultimately obtain u x xs where u: "passes c u d" "\<forall>x \<in> set u. P x" "groups d = groups c"
      and x: "s = x # xs" "P x" "d' = (Some x, xs, g)"
    by (auto split: list.splits if_splits)
  then have "passes d [x] d'" by (simp add: passes_def d)
  then have "passes c (u @ [x]) d'" using u(1) passes_trans by blast
  then show "\<exists>u. passes c u d' \<and> (\<forall>x \<in> set u. P x) \<and> groups d' = groups c"
    using u x d by (intro exI [of _ "u @ [x]"]) auto
qed

section \<open>The parts of a match\<close>

lemma matches_Chars: "d \<in> set (matches (Chars P) c) \<longleftrightarrow> (\<exists>x xs. ahead c = x # xs \<and> P x \<and> d = (Some x, xs, groups c))"
  by (cases c) (auto split: list.splits)

lemma matches_Then: "d \<in> set (matches (Then a b) c) \<longleftrightarrow> (\<exists>e. e \<in> set (matches a c) \<and> d \<in> set (matches b e))"
  by auto

lemma matches_Lit: "d \<in> set (matches (Lit x) c) \<longleftrightarrow> (\<exists>xs. ahead c = x # xs \<and> d = (Some x, xs, groups c))"
  by (auto simp: Lit_def matches_Chars simp del: matches.simps)

lemma matches_zero_width:
  "d \<in> set (matches (NotAfter P) c) \<Longrightarrow> d = c"
  "d \<in> set (matches (NotBefore P) c) \<Longrightarrow> d = c"
  "d \<in> set (matches LineStart c) \<Longrightarrow> d = c"
  "d \<in> set (matches LineEnd c) \<Longrightarrow> d = c \<and> (ahead c = [] \<or> line_break (hd (ahead c)))"
  by (cases c; auto split: if_splits)+

lemma matches_Many_Chars:
  "d \<in> set (matches (Many (Chars P)) c) \<Longrightarrow> \<exists>u. passes c u d \<and> (\<forall>x \<in> set u. P x) \<and> groups d = groups c"
  using iter_chars by simp

lemma matches_Upto_Chars:
  "d \<in> set (matches (Upto n (Chars P)) c) \<Longrightarrow> \<exists>u. passes c u d \<and> (\<forall>x \<in> set u. P x) \<and> groups d = groups c"
  using iter_chars by simp

lemma matches_Some_of_Chars:
  assumes "d \<in> set (matches (Some_of (Chars P)) c)"
  shows "\<exists>u. passes c u d \<and> (\<forall>x \<in> set u. P x) \<and> u \<noteq> [] \<and> groups d = groups c"
proof -
  obtain e x xs where e: "e = (Some x, xs, groups c)" "ahead c = x # xs" "P x" "d \<in> set (matches (Many (Chars P)) e)"
    using assms by (auto simp: Some_of_def matches_Chars simp del: matches.simps(4))
  then obtain u where u: "passes e u d" "\<forall>x \<in> set u. P x" "groups d = groups e"
    using matches_Many_Chars by blast
  have "passes c [x] e" using e by (simp add: passes_def)
  then have "passes c ([x] @ u) d" using u(1) by (rule passes_trans)
  then show ?thesis using u e by (intro exI [of _ "x # u"]) auto
qed

lemma matches_Group:
  assumes "d \<in> set (matches (Group i a) c)"
  shows "\<exists>u e. e \<in> set (matches a c) \<and> passes c u e \<and> d = (fst e, ahead e, (i, u) # groups e)"
proof -
  obtain p s g where c: "c = (p, s, g)" by (cases c)
  with assms obtain p' s' g' where e: "(p', s', g') \<in> set (matches a c)"
      and d: "d = (p', s', (i, take (length s - length s') s) # g')" by auto
  from matches_pass [OF e] obtain u where u: "passes c u (p', s', g')" by blast
  then have "take (length s - length s') s = u" by (simp add: passes_def c)
  then show ?thesis using e u d by (metis fst_conv snd_conv)
qed

lemma matches_Word:
  "w \<noteq> [] \<Longrightarrow> d \<in> set (matches (Word w) c) \<longleftrightarrow> (\<exists>xs. ahead c = w @ xs \<and> d = (Some (last w), xs, groups c))"
proof (induction w arbitrary: c rule: Word.induct)
  case (2 x)
  then show ?case by (simp add: matches_Lit del: matches.simps)
next
  case (3 x y ys)
  then show ?case by (auto simp: matches_Then matches_Lit simp del: matches.simps)
qed simp

text \<open>The groups of \<open>Chars\<close>-only expressions stay; the text of a group comes from the subject.\<close>

fun plain :: "regex \<Rightarrow> bool" where
  "plain (Then a b) \<longleftrightarrow> plain a \<and> plain b" | "plain (Either a b) \<longleftrightarrow> plain a \<and> plain b"
| "plain (Many a) \<longleftrightarrow> plain a" | "plain (Few a) \<longleftrightarrow> plain a" | "plain (Upto n a) \<longleftrightarrow> plain a"
| "plain (Group i a) \<longleftrightarrow> False" | "plain _ \<longleftrightarrow> True"

lemma plain_groups: "plain r \<Longrightarrow> d \<in> set (matches r c) \<Longrightarrow> groups d = groups c"
proof (induction r arbitrary: c d)
  case (Then a b)
  from Then.prems obtain e where "e \<in> set (matches a c)" "d \<in> set (matches b e)" by auto
  then show ?case using Then.IH(1) [of e c] Then.IH(2) [of d e] Then.prems(1) by simp
next
  case (Either a b)
  from Either.prems have "d \<in> set (matches a c) \<or> d \<in> set (matches b c)" by simp
  then show ?case using Either.IH(1) [of d c] Either.IH(2) [of d c] Either.prems(1) by auto
next
  case (Many a)
  from Many.prems(2) have "d \<in> set (iter True (length (ahead c)) (matches a) c)" by simp
  then show ?case by (rule iter_induct) (use Many in \<open>auto simp: surjective_pairing\<close>)
next
  case (Few a)
  from Few.prems(2) have "d \<in> set (iter False (length (ahead c)) (matches a) c)" by simp
  then show ?case by (rule iter_induct) (use Few in auto)
next
  case (Upto n a)
  from Upto.prems(2) have "d \<in> set (iter True n (matches a) c)" by simp
  then show ?case by (rule iter_induct) (use Upto in auto)
qed (auto simp: matches_Chars dest: matches_zero_width simp del: matches.simps)

end
