(* ===== verification/Telegram_Format.thy ===== *)
theory Telegram_Format
  imports Js_Regex
begin

text \<open>
  The text of a model as Telegram's HTML (\<open>src/telegram/telegram-format.ts\<close>): the Markdown converter with its
  regular expressions one by one, the cutting in messages, and the plain-text fallback. A text is a list of
  code points; the cutting works on UTF-16 units, as \<open>length\<close> and \<open>slice\<close> do. Which code points are letters
  or numbers (\<open>\p{L}\<close>, \<open>\p{N}\<close>) is the argument \<open>letnum\<close>, the Unicode table of the platform.

  The comment of the file promises that the only tags of the output are its own; the theorem proves it,
  for every text. The fallback undoes the escaping, and the messages fit in Telegram's limit.
\<close>

section \<open>Escaping\<close>

definition replace_one :: "nat \<Rightarrow> codepoints \<Rightarrow> codepoints \<Rightarrow> codepoints" where
  "replace_one c r s = concat (map (\<lambda>x. if x = c then r else [x]) s)"

definition escapeHtml :: "codepoints \<Rightarrow> codepoints" where
  "escapeHtml text = replace_one 62 (codes ''&gt;'') (replace_one 60 (codes ''&lt;'') (replace_one 38 (codes ''&amp;'') text))"

section \<open>The expressions of the converter\<close>

definition TELEGRAM_CHUNK_LIMIT :: nat where "TELEGRAM_CHUNK_LIMIT = 3900"

definition OPEN :: nat where "OPEN = 0xE000"
definition CLOSE :: nat where "CLOSE = 0xE001"

text \<open>\<open>[^\S\n]\<close> is a blank that is no newline, \<open>.\<close> any character that ends no line.\<close>

definition blank :: regex where "blank = Chars (\<lambda>c. js_space c \<and> c \<noteq> 10)"
definition dot :: regex where "dot = Chars (\<lambda>c. \<not> line_break c)"
definition any_char :: regex where "any_char = Chars (\<lambda>_. True)"
definition except :: "nat list \<Rightarrow> regex" where "except cs = Chars (\<lambda>c. c \<notin> set cs)"

definition lang_char :: "nat \<Rightarrow> bool" where
  "lang_char c \<longleftrightarrow> (65 \<le> c \<and> c \<le> 90) \<or> (97 \<le> c \<and> c \<le> 122) \<or> (48 \<le> c \<and> c \<le> 57) \<or> c \<in> {95, 43, 45}"

definition FENCE :: regex where
  "FENCE = Then (Word (codes ''```'')) (Then (Group 1 (Many (Chars lang_char))) (Then (Many blank)
     (Then (Upto 1 (Lit 10)) (Then (Group 2 (Few any_char)) (Word (codes ''```''))))))"

definition TABLE :: regex where
  "TABLE = Some_of (Then LineStart (Then (Lit 124) (Then (Many dot) (Then (Lit 124) (Then (Many blank)
     (Either (Lit 10) LineEnd))))))"

definition INLINE_CODE :: regex where
  "INLINE_CODE = Then (Lit 96) (Then (Group 1 (Some_of (except [96, 10]))) (Lit 96))"

definition LINK :: regex where
  "LINK = Then (Lit 91) (Then (Group 1 (Some_of (except [93, 10]))) (Then (Word (codes '']('')) (Then
     (Group 2 (Then (Word (codes ''http'')) (Then (Upto 1 (Lit 115)) (Then (Word (codes ''://''))
       (Some_of (Chars (\<lambda>c. \<not> js_space c \<and> c \<noteq> 41)))))))
     (Lit 41))))"

definition HEADING :: regex where
  "HEADING = Then LineStart (Then (Upto 3 blank) (Then (Then (Lit 35) (Upto 5 (Lit 35))) (Then (Some_of blank)
     (Then (Group 1 (Few_of dot)) (Then (Many blank) (Then (Many (Lit 35)) (Then (Many blank) LineEnd)))))))"

definition three_or_more :: "nat \<Rightarrow> regex" where
  "three_or_more c = Then (Word [c, c, c]) (Many (Lit c))"

definition RULE :: regex where
  "RULE = Then LineStart (Then (Many blank) (Then (Either (three_or_more 45) (Either (three_or_more 42) (three_or_more 95)))
     (Then (Many blank) LineEnd)))"

definition QUOTE :: regex where
  "QUOTE = Then LineStart (Then (Word (codes ''&gt;'')) (Then (Upto 1 blank) (Then (Group 1 (Many dot)) LineEnd)))"

definition BULLET :: regex where
  "BULLET = Then LineStart (Then (Group 1 (Many blank)) (Then (Chars (\<lambda>c. c \<in> {45, 42, 43})) (Some_of blank)))"

definition emphasis :: "codepoints \<Rightarrow> regex \<Rightarrow> regex" where
  "emphasis mark body = Then (Word mark) (Then (Group 1 body) (Word mark))"

definition outside :: "(nat \<Rightarrow> bool) \<Rightarrow> regex \<Rightarrow> regex" where
  "outside P r = Then (NotAfter P) (Then r (NotBefore P))"

definition italic_body :: "nat \<Rightarrow> regex" where
  "italic_body c = Then (Chars (\<lambda>x. \<not> js_space x \<and> x \<noteq> c)) (Few (except [10, c]))"

definition BOLD_STARS :: regex where "BOLD_STARS = emphasis [42, 42] (Few_of (except [10, 42]))"
definition BOLD_LINES :: "(nat \<Rightarrow> bool) \<Rightarrow> regex" where
  "BOLD_LINES letnum = outside (\<lambda>c. letnum c \<or> c = 95) (emphasis [95, 95] (Few_of (except [10, 95])))"
definition STRUCK :: regex where "STRUCK = emphasis [126, 126] (Few_of (except [10, 126]))"
definition ITALIC_STAR :: "(nat \<Rightarrow> bool) \<Rightarrow> regex" where
  "ITALIC_STAR letnum = outside (\<lambda>c. letnum c \<or> c = 42) (emphasis [42] (italic_body 42))"
definition ITALIC_LINE :: "(nat \<Rightarrow> bool) \<Rightarrow> regex" where
  "ITALIC_LINE letnum = outside (\<lambda>c. letnum c \<or> c = 95) (emphasis [95] (italic_body 95))"

definition MARKER :: regex where
  "MARKER = Then (Lit OPEN) (Then (Group 1 (Some_of (Chars (\<lambda>c. 48 \<le> c \<and> c \<le> 57)))) (Lit CLOSE))"

section \<open>The converter\<close>

definition tagged :: "string \<Rightarrow> codepoints \<Rightarrow> codepoints" where
  "tagged name body = codes (''<'' @ name @ ''>'') @ body @ codes (''</'' @ name @ ''>'')"

text \<open>A code block is kept aside and replaced by a marker with its number.\<close>

definition stash :: "codepoints \<Rightarrow> codepoints list \<Rightarrow> codepoints \<times> codepoints list" where
  "stash html blocks = (OPEN # codes (show_nat (length blocks)) @ [CLOSE], blocks @ [html])"

text \<open>\<open>replace(/\n$/, '')\<close>\<close>

definition drop_newline :: "codepoints \<Rightarrow> codepoints" where
  "drop_newline s = (if s \<noteq> [] \<and> last s = 10 then butlast s else s)"

definition the_group :: "(nat \<rightharpoonup> codepoints) \<Rightarrow> nat \<Rightarrow> codepoints" where
  "the_group g i = (case g i of Some s \<Rightarrow> s | None \<Rightarrow> [])"

definition fence_html :: "(nat \<rightharpoonup> codepoints) \<Rightarrow> codepoints" where
  "fence_html g =
     (let language = the_group g 1; body = escapeHtml (drop_newline (the_group g 2))
      in if language \<noteq> [] then codes ''<pre><code class=\"language-'' @ escapeHtml language @ codes ''\">'' @ body
             @ codes ''</code></pre>''
         else tagged ''pre'' body)"

definition stash_code :: "codepoints \<Rightarrow> codepoints \<times> codepoints list" where
  "stash_code text0 =
     (case replace_with FENCE (\<lambda>_ g. stash (fence_html g)) None text0 [] of (text1, blocks1) \<Rightarrow>
      (case replace_with TABLE (\<lambda>m _. stash (tagged ''pre'' (escapeHtml (drop_newline m)))) None text1 blocks1 of (text2, blocks2) \<Rightarrow>
        replace_with INLINE_CODE (\<lambda>_ g. stash (tagged ''code'' (escapeHtml (the_group g 1)))) None text2 blocks2))"

definition link_text :: "(nat \<rightharpoonup> codepoints) \<Rightarrow> codepoints" where
  "link_text g = (if trim_by js_space (the_group g 1) = the_group g 2 then the_group g 2
     else the_group g 1 @ codes '' ('' @ the_group g 2 @ codes '')'')"

definition group_in :: "string \<Rightarrow> (nat \<rightharpoonup> codepoints) \<Rightarrow> codepoints" where
  "group_in name g = tagged name (the_group g 1)"

definition QUOTE_JOINT :: codepoints where
  "QUOTE_JOINT = codes ''</blockquote>'' @ [10] @ codes ''<blockquote>''"

definition format_lines :: "codepoints \<Rightarrow> codepoints" where
  "format_lines text =
     (let t5 = replace_matches LINK link_text text;
          t6 = replace_matches HEADING (group_in ''b'') t5;
          t7 = replace_matches RULE (\<lambda>_. replicate 10 0x2500) t6;
          t8 = replace_matches QUOTE (group_in ''blockquote'') t7;
          t8' = replace_matches (Word QUOTE_JOINT) (\<lambda>_. [10]) t8
      in replace_matches BULLET (\<lambda>g. the_group g 1 @ [0x2022, 32]) t8')"

definition format_emphasis :: "(nat \<Rightarrow> bool) \<Rightarrow> codepoints \<Rightarrow> codepoints" where
  "format_emphasis letnum text =
     replace_matches (ITALIC_LINE letnum) (group_in ''i'')
       (replace_matches (ITALIC_STAR letnum) (group_in ''i'')
         (replace_matches STRUCK (group_in ''s'')
           (replace_matches (BOLD_LINES letnum) (group_in ''b'')
             (replace_matches BOLD_STARS (group_in ''b'') text))))"

definition number_of :: "codepoints \<Rightarrow> nat" where
  "number_of ds = foldl (\<lambda>n d. 10 * n + (d - 48)) 0 ds"

definition restore :: "codepoints list \<Rightarrow> codepoints \<Rightarrow> codepoints" where
  "restore blocks text = replace_matches MARKER
     (\<lambda>g. let i = number_of (the_group g 1) in if i < length blocks then blocks ! i else []) text"

definition clean_input :: "codepoints \<Rightarrow> codepoints" where
  "clean_input markdown = filter (\<lambda>c. c \<noteq> OPEN \<and> c \<noteq> CLOSE) (replace_matches (Word [13, 10]) (\<lambda>_. [10]) markdown)"

definition markdownToTelegramHtml :: "(nat \<Rightarrow> bool) \<Rightarrow> codepoints \<Rightarrow> codepoints" where
  "markdownToTelegramHtml letnum markdown =
     (case stash_code (clean_input markdown) of (text, blocks) \<Rightarrow>
        restore blocks (format_emphasis letnum (format_lines (escapeHtml text))))"

section \<open>Messages\<close>

definition htmlToPlain :: "codepoints \<Rightarrow> codepoints" where
  "htmlToPlain html =
     replace_matches (Word (codes ''&amp;'')) (\<lambda>_. [38]) (replace_matches (Word (codes ''&gt;'')) (\<lambda>_. [62])
       (replace_matches (Word (codes ''&lt;'')) (\<lambda>_. [60])
         (replace_matches (Then (Lit 60) (Then (Some_of (except [62])) (Lit 62))) (\<lambda>_. []) html)))"

text \<open>UTF-16 units.\<close>

definition to_units :: "codepoints \<Rightarrow> nat list" where
  "to_units s = concat (map (\<lambda>c. if c < 0x10000 then [c]
     else [0xD800 + (c - 0x10000) div 0x400, 0xDC00 + (c - 0x10000) mod 0x400]) s)"

fun split_lines :: "nat list \<Rightarrow> nat list list" where
  "split_lines [] = [[]]"
| "split_lines (c # s) = (if c = 10 then [] # split_lines s
     else (case split_lines s of w # ws \<Rightarrow> (c # w) # ws | [] \<Rightarrow> [[c]]))"

text \<open>How often an expression matches: the length of what \<open>match\<close> with the flag \<open>g\<close> returns.\<close>

definition count_matches :: "regex \<Rightarrow> nat list \<Rightarrow> nat" where
  "count_matches r s = snd (replace_with r (\<lambda>m _ n. (m, Suc n)) None s 0)"

record split_state =
  sp_chunks :: "nat list list"
  sp_current :: "nat list"
  sp_inPre :: bool

definition flush :: "split_state \<Rightarrow> split_state" where
  "flush st =
     (if \<forall>c \<in> set (sp_current st). js_space c then st
      else st\<lparr> sp_chunks := sp_chunks st @ [sp_current st @ (if sp_inPre st then codes ''</pre>'' else [])],
               sp_current := (if sp_inPre st then codes ''<pre>'' else []) \<rparr>)"

definition add_piece :: "nat \<Rightarrow> nat list \<Rightarrow> split_state \<Rightarrow> split_state" where
  "add_piece limit piece st =
     (let st1 = (if limit < length (sp_current st) + length piece + 1 then flush st else st);
          current = sp_current st1 @ (if sp_current st1 \<noteq> [] then [10] else []) @ piece;
          opens = count_matches (Either (Word (codes ''<pre>'')) (Word (codes ''<pre ''))) piece;
          closes = count_matches (Word (codes ''</pre>'')) piece
      in st1\<lparr> sp_current := current,
              sp_inPre := (if closes > opens then False else if opens > closes then True else sp_inPre st1) \<rparr>)"

definition pieces :: "nat \<Rightarrow> nat list \<Rightarrow> nat list list" where
  "pieces limit line = (if limit < length line then chunks_of limit line else [line])"

definition splitForTelegram :: "nat \<Rightarrow> nat list \<Rightarrow> nat list list" where
  "splitForTelegram limit html =
     (if length html \<le> limit then [html]
      else let st = fold (add_piece limit) (concat (map (pieces limit) (split_lines html)))
                   \<lparr> sp_chunks = [], sp_current = [], sp_inPre = False \<rparr>
           in sp_chunks st @ (if \<forall>c \<in> set (sp_current st). js_space c then [] else [sp_current st]))"

definition modelFooter :: "codepoints list option \<Rightarrow> codepoints" where
  "modelFooter modelsUsed =
     (case modelsUsed of
        None \<Rightarrow> []
      | Some [] \<Rightarrow> []
      | Some (m # ms) \<Rightarrow> [0x1F916, 32] @ m @ concat (map (\<lambda>x. [32, 0x2192, 32] @ x) ms))"

section \<open>Text whose tags are all of a given list\<close>

text \<open>Every \<open><\<close> of the text opens one of the tags, all of which is in the text.\<close>

fun only_tags :: "(codepoints \<Rightarrow> bool) \<Rightarrow> codepoints \<Rightarrow> bool" where
  "only_tags T [] = True"
| "only_tags T (c # s) = ((c = 60 \<longrightarrow> (\<exists>t. T t \<and> prefix t (c # s))) \<and> only_tags T s)"

lemma only_tags_no_bracket: "60 \<notin> set s \<Longrightarrow> only_tags T s"
  by (induction s) auto

lemma only_tags_none: "only_tags (\<lambda>_. False) s \<longleftrightarrow> 60 \<notin> set s"
  by (induction s) auto

lemma only_tags_mono: "only_tags T s \<Longrightarrow> (\<And>t. T t \<Longrightarrow> T' t) \<Longrightarrow> only_tags T' s"
  by (induction s) auto

lemma only_tags_append: "only_tags T a \<Longrightarrow> only_tags T b \<Longrightarrow> only_tags T (a @ b)"
proof (induction a)
  case (Cons c a)
  then have "c = 60 \<longrightarrow> (\<exists>t. T t \<and> prefix t (c # a @ b))" by (metis Cons_prefix_Cons append_Cons only_tags.simps(2) prefix_prefix)
  then show ?case using Cons by simp
qed simp

lemma only_tags_right: "only_tags T (a @ b) \<Longrightarrow> only_tags T b"
  by (induction a) auto

definition tag_char :: "(codepoints \<Rightarrow> bool) \<Rightarrow> nat \<Rightarrow> bool" where
  "tag_char T c \<longleftrightarrow> (\<exists>t. T t \<and> c \<in> set t)"

text \<open>A cut before a character that is in no tag cuts no tag.\<close>

lemma only_tags_left:
  assumes "only_tags T (a @ b)" "b = [] \<or> \<not> tag_char T (hd b)"
  shows "only_tags T a"
  using assms(1)
proof (induction a)
  case (Cons c a)
  have "\<exists>t. T t \<and> prefix t (c # a)" if c: "c = 60"
  proof -
    obtain t where t: "T t" "prefix t ((c # a) @ b)" using Cons.prems c by auto
    then consider "prefix t (c # a)" | w where "t = (c # a) @ w" "prefix w b" "w \<noteq> []"
      by (metis append_Nil2 prefix_append prefix_order.order_refl)
    then show ?thesis
    proof cases
      case 2
      then have "hd b \<in> set t" "b \<noteq> []" by (auto simp: prefix_def)
      then show ?thesis using assms(2) t(1) by (auto simp: tag_char_def)
    qed (use t in blast)
  qed
  then show ?case using Cons by simp
qed simp

lemma only_tags_middle:
  "only_tags T (a @ g @ b) \<Longrightarrow> b = [] \<or> \<not> tag_char T (hd b) \<Longrightarrow> only_tags T g"
  using only_tags_left only_tags_right by blast

lemma only_tags_tag:
  assumes "T t" "only_tags T (tl t)" "t \<noteq> []"
  shows "only_tags T t"
  using assms by (cases t) auto

section \<open>Replacing keeps the tags\<close>

lemma replace_with_no_match:
  "matches r (p, x # xs, []) = [] \<Longrightarrow> fst (replace_with r f p (x # xs) a) = x # fst (replace_with r f (Some x) xs a)"
  by (subst replace_with.simps) (simp split: prod.splits)

lemma replace_with_skip:
  assumes "\<And>u v q. t = u @ v \<Longrightarrow> v \<noteq> [] \<Longrightarrow> matches r (q, v @ s, []) = []"
  shows "\<exists>q. fst (replace_with r f p (t @ s) a) = t @ fst (replace_with r f q s a)"
  using assms
proof (induction t arbitrary: p)
  case Nil
  then show ?case by auto
next
  case (Cons x t)
  have "matches r (p, (x # t) @ s, []) = []" using Cons.prems [of "[]" "x # t"] by simp
  then have "fst (replace_with r f p ((x # t) @ s) a) = x # fst (replace_with r f (Some x) (t @ s) a)"
    by (simp add: replace_with_no_match)
  moreover have "\<exists>q. fst (replace_with r f (Some x) (t @ s) a) = t @ fst (replace_with r f q s a)"
    by (rule Cons.IH) (use Cons.prems in \<open>metis append_Cons\<close>)
  ultimately show ?case by auto
qed

text \<open>What is asked of an expression and its replacement: no match starts inside a tag, and each replacement is clean.\<close>

definition keeps_tags :: "(codepoints \<Rightarrow> bool) \<Rightarrow> regex \<Rightarrow> ((nat \<rightharpoonup> codepoints) \<Rightarrow> codepoints) \<Rightarrow> bool" where
  "keeps_tags T r f \<longleftrightarrow>
     (\<forall>t u v q s. T t \<longrightarrow> t = u @ v \<longrightarrow> u \<noteq> [] \<longrightarrow> v \<noteq> [] \<longrightarrow> matches r (q, v @ s, []) = [])
   \<and> (\<forall>p s d. only_tags T s \<longrightarrow> d \<in> set (matches r (p, s, [])) \<longrightarrow> only_tags T (f (map_of (groups d))) \<and> length (ahead d) < length s)"

lemma replace_with_tags:
  assumes "keeps_tags T r f" "\<And>t. T t \<Longrightarrow> t \<noteq> [] \<and> 60 \<notin> set (tl t)" "only_tags T s"
  shows "only_tags T (fst (replace_with r (\<lambda>_ g (_::unit). (f g, ())) p s ()))"
  using assms(3)
proof (induction "length s" arbitrary: s p rule: less_induct)
  case less
  let ?F = "\<lambda>_ g (_::unit). (f g, ())"
  show ?case
  proof (cases "matches r (p, s, [])")
    case Nil
    show ?thesis
    proof (cases s)
      case Nil
      then show ?thesis using \<open>matches r (p, s, []) = []\<close> by (subst replace_with.simps) simp
    next
      case (Cons x xs)
      note step = replace_with_no_match [OF Nil [unfolded Cons], of ?F "()"]
      show ?thesis
      proof (cases "x = 60")
        case False
        have "only_tags T (fst (replace_with r ?F (Some x) xs ()))" using less.hyps [of xs] less.prems Cons by simp
        then show ?thesis using False step Cons by simp
      next
        case True
        obtain t s' where t: "T t" "s = t @ s'" using less.prems Cons True by (auto simp: prefix_def)
        then obtain t' where t': "t = x # t'" "xs = t' @ s'" using assms(2) [of t] Cons by (cases t) auto
        have "\<exists>q. fst (replace_with r ?F (Some x) (t' @ s') ()) = t' @ fst (replace_with r ?F q s' ())"
        proof (rule replace_with_skip)
          fix u v q assume "t' = u @ v" "v \<noteq> []"
          then show "matches r (q, v @ s', []) = []"
            using assms(1) t(1) t'(1) unfolding keeps_tags_def by (metis append_Cons list.distinct(1))
        qed
        then obtain q where "fst (replace_with r ?F p s ()) = t @ fst (replace_with r ?F q s' ())"
          using step Cons t' by auto
        moreover have "only_tags T t" using only_tags_tag [of T t] t(1) assms(2) [OF t(1)] only_tags_no_bracket [of "tl t" T] by simp
        moreover have "only_tags T (fst (replace_with r ?F q s' ()))"
          using less.hyps [of s'] less.prems t assms(2) [OF t(1)] only_tags_right by simp
        ultimately show ?thesis using only_tags_append by metis
      qed
    qed
  next
    case (Cons d ds)
    obtain p' s' g where d: "d = (p', s', g)" by (cases d)
    have in_d: "d \<in> set (matches r (p, s, []))" using Cons by simp
    have ok: "only_tags T (f (map_of g))" "length s' < length s"
      using assms(1) less.prems in_d unfolding keeps_tags_def by (auto simp: d dest: spec)
    obtain u where "passes (p, s, []) u d" using matches_pass [OF in_d] by blast
    then have "only_tags T s'" using less.prems only_tags_right by (auto simp: passes_def d)
    then have "only_tags T (fst (replace_with r ?F p' s' ()))" using less.hyps ok(2) by blast
    moreover have "fst (replace_with r ?F p s ()) = f (map_of g) @ fst (replace_with r ?F p' s' ())"
      using Cons ok(2) by (subst replace_with.simps) (simp add: d split: prod.splits)
    ultimately show ?thesis using ok(1) only_tags_append by metis
  qed
qed

lemma replace_matches_tags:
  "keeps_tags T r f \<Longrightarrow> (\<And>t. T t \<Longrightarrow> t \<noteq> [] \<and> 60 \<notin> set (tl t)) \<Longrightarrow> only_tags T s \<Longrightarrow> only_tags T (replace_matches r f s)"
  unfolding replace_matches_def by (rule replace_with_tags)

text \<open>Enough for it: a match starts with a character that is in no tag.\<close>

lemma keeps_tagsI:
  assumes "\<And>p s d. d \<in> set (matches r (p, s, [])) \<Longrightarrow> \<exists>x u. s = x # u @ ahead d \<and> \<not> tag_char T x"
    and "\<And>p s d. only_tags T s \<Longrightarrow> d \<in> set (matches r (p, s, [])) \<Longrightarrow> only_tags T (f (map_of (groups d)))"
  shows "keeps_tags T r f"
  unfolding keeps_tags_def
proof (intro conjI allI impI)
  fix t u v q s assume t: "T t" "t = u @ v" "u \<noteq> []" "v \<noteq> []"
  show "matches r (q, v @ s, []) = []"
  proof (rule ccontr)
    assume "matches r (q, v @ s, []) \<noteq> []"
    then obtain d where "d \<in> set (matches r (q, v @ s, []))" by (meson last_in_set)
    then obtain x w where "v @ s = x # w" "\<not> tag_char T x" using assms(1) by blast
    then have "x \<in> set v" using t(4) by (cases v) auto
    then show False using t(1,2) \<open>\<not> tag_char T x\<close> by (auto simp: tag_char_def)
  qed
next
  fix p s d assume "only_tags T s" "d \<in> set (matches r (p, s, []))"
  then show "only_tags T (f (map_of (groups d)))" using assms(2) by blast
next
  fix p s d assume "only_tags T s" "d \<in> set (matches r (p, s, []))"
  then obtain x u where "s = x # u @ ahead d" using assms(1) by blast
  then show "length (ahead d) < length s" by simp
qed

section \<open>The tags of the text\<close>

definition TEXT_TAGS :: "codepoints list" where
  "TEXT_TAGS = map codes [''<b>'', ''</b>'', ''<i>'', ''</i>'', ''<s>'', ''</s>'', ''<blockquote>'', ''</blockquote>'']"

definition CODE_TAGS :: "codepoints list" where
  "CODE_TAGS = map codes [''<pre>'', ''</pre>'', ''<code>'', ''</code>'']"

definition text_tag :: "codepoints \<Rightarrow> bool" where "text_tag t \<longleftrightarrow> t \<in> set TEXT_TAGS"

text \<open>All the tags: those, the four of code, and the one with the language of a block.\<close>

definition telegram_tag :: "codepoints \<Rightarrow> bool" where
  "telegram_tag t \<longleftrightarrow> t \<in> set TEXT_TAGS \<or> t \<in> set CODE_TAGS
     \<or> (\<exists>l. t = codes ''<code class=\"language-'' @ l @ codes ''\">'' \<and> list_all lang_char l)"

lemma codes_append: "codes (a @ b) = codes a @ codes b"
  by (simp add: codes_def)

lemma text_tag_shape: "text_tag t \<Longrightarrow> t \<noteq> [] \<and> 60 \<notin> set (tl t)"
  by (auto simp: text_tag_def TEXT_TAGS_def codes_def)

lemma lang_char_range: "lang_char c \<Longrightarrow> c < 128 \<and> c \<noteq> 60"
  by (auto simp: lang_char_def)

lemma list_lang_range: "list_all lang_char l \<Longrightarrow> x \<in> set l \<Longrightarrow> x < 128 \<and> x \<noteq> 60"
  using lang_char_range by (simp add: list_all_iff)

lemma telegram_tag_shape: "telegram_tag t \<Longrightarrow> t \<noteq> [] \<and> 60 \<notin> set (tl t)"
  by (auto simp: telegram_tag_def TEXT_TAGS_def CODE_TAGS_def codes_def dest: list_lang_range)

definition TEXT_TAG_CHARS :: "nat set" where
  "TEXT_TAG_CHARS = {60, 47, 62, 98, 105, 115, 108, 111, 99, 107, 113, 117, 116, 101}"

lemma text_tag_char: "tag_char text_tag c \<Longrightarrow> c \<in> TEXT_TAG_CHARS"
proof -
  have "set t \<subseteq> TEXT_TAG_CHARS" if "t \<in> set TEXT_TAGS" for t
    using that by (auto simp: TEXT_TAGS_def codes_def TEXT_TAG_CHARS_def)
  then show "tag_char text_tag c \<Longrightarrow> c \<in> TEXT_TAG_CHARS" by (auto simp: tag_char_def text_tag_def)
qed

lemma telegram_tag_char: "tag_char telegram_tag c \<Longrightarrow> c < 128"
  by (auto simp: tag_char_def telegram_tag_def TEXT_TAGS_def CODE_TAGS_def codes_def dest: list_lang_range)

lemma tagged_only_tags:
  assumes "T (codes (''<'' @ name @ ''>''))" "T (codes (''</'' @ name @ ''>''))" "60 \<notin> set (codes name)" "only_tags T s"
  shows "only_tags T (tagged name s)"
proof -
  have "only_tags T (codes (''<'' @ name @ ''>''))" "only_tags T (codes (''</'' @ name @ ''>''))"
    using assms(1-3) by (auto intro!: only_tags_tag only_tags_no_bracket simp: codes_def)
  then show ?thesis unfolding tagged_def using assms(4) only_tags_append by metis
qed

section \<open>The replacements of the text\<close>

lemma not_text_tag_char: "c \<in> {32, 35, 38, 42, 45, 95, 43, 126, 91, 10} \<or> js_space c \<or> line_break c \<Longrightarrow> \<not> tag_char text_tag c"
  using text_tag_char [of c] by (auto simp: TEXT_TAG_CHARS_def js_space_def line_break_def)

lemma emphasis_match:
  assumes "d \<in> set (matches (emphasis mark body) c)" "mark \<noteq> []" "plain body" "groups c = []"
  shows "\<exists>g. ahead c = mark @ g @ mark @ ahead d \<and> groups d = [(1, g)]"
proof -
  obtain e1 e2 where e: "e1 \<in> set (matches (Word mark) c)" "e2 \<in> set (matches (Group 1 body) e1)"
      "d \<in> set (matches (Word mark) e2)"
    using assms(1) unfolding emphasis_def matches_Then by blast
  obtain xs where 1: "ahead c = mark @ xs" "e1 = (Some (last mark), xs, groups c)"
    using e(1) matches_Word [OF assms(2)] by blast
  obtain g e' where 2: "e' \<in> set (matches body e1)" "passes e1 g e'" "e2 = (fst e', ahead e', (1, g) # groups e')"
    using matches_Group [OF e(2)] by blast
  obtain ys where 3: "ahead e2 = mark @ ys" "d = (Some (last mark), ys, groups e2)"
    using e(3) matches_Word [OF assms(2)] by blast
  have "groups e' = []" using plain_groups [OF assms(3) 2(1)] 1(2) assms(4) by simp
  then show ?thesis using 1 2 3 by (auto simp: passes_def)
qed

lemma outside_match: "d \<in> set (matches (outside P r) c) \<Longrightarrow> d \<in> set (matches r c)"
  unfolding outside_def matches_Then using matches_zero_width(1,2) by blast

lemma group_in_tags:
  assumes "name \<in> {''b'', ''i'', ''s'', ''blockquote''}" "only_tags text_tag g"
  shows "only_tags text_tag (group_in name (map_of [(1, g)]))"
proof -
  have "only_tags text_tag (tagged name g)"
    using assms by (intro tagged_only_tags) (auto simp: text_tag_def TEXT_TAGS_def codes_def)
  then show ?thesis by (simp add: group_in_def the_group_def)
qed

lemma keeps_emphasis:
  assumes "mark \<noteq> []" "set mark \<subseteq> {42, 95, 126}" "plain body" "name \<in> {''b'', ''i'', ''s'', ''blockquote''}"
    and "\<And>c d. d \<in> set (matches r c) \<Longrightarrow> d \<in> set (matches (emphasis mark body) c)"
  shows "keeps_tags text_tag r (group_in name)"
proof (rule keeps_tagsI)
  fix p s d assume "d \<in> set (matches r (p, s, []))"
  then have "d \<in> set (matches (emphasis mark body) (p, s, []))" by (rule assms(5))
  from emphasis_match [OF this assms(1,3)] obtain g where "s = mark @ g @ mark @ ahead d" by auto
  then show "\<exists>x u. s = x # u @ ahead d \<and> \<not> tag_char text_tag x"
    using assms(1,2) not_text_tag_char by (cases mark) auto
next
  fix p s d assume s: "only_tags text_tag s" and "d \<in> set (matches r (p, s, []))"
  then have "d \<in> set (matches (emphasis mark body) (p, s, []))" using assms(5) by blast
  from emphasis_match [OF this assms(1,3)] obtain g
    where g: "s = mark @ g @ mark @ ahead d" "groups d = [(1, g)]" by auto
  have "\<not> tag_char text_tag (hd (mark @ ahead d))" using assms(1,2) not_text_tag_char by (cases mark) auto
  then have "only_tags text_tag g" using only_tags_middle [of text_tag mark g "mark @ ahead d"] s g(1) by simp
  then show "only_tags text_tag (group_in name (map_of (groups d)))" using group_in_tags [OF assms(4)] g(2) by simp
qed

lemma format_emphasis_tags:
  assumes "only_tags text_tag s"
  shows "only_tags text_tag (format_emphasis letnum s)"
proof -
  have "keeps_tags text_tag BOLD_STARS (group_in ''b'')" unfolding BOLD_STARS_def
    by (rule keeps_emphasis [where mark = "[42, 42]"]) (auto simp: Few_of_def except_def)
  moreover have "keeps_tags text_tag (BOLD_LINES letnum) (group_in ''b'')" unfolding BOLD_LINES_def
    by (rule keeps_emphasis [where mark = "[95, 95]", OF _ _ _ _ outside_match]) (auto simp: Few_of_def except_def)
  moreover have "keeps_tags text_tag STRUCK (group_in ''s'')" unfolding STRUCK_def
    by (rule keeps_emphasis [where mark = "[126, 126]"]) (auto simp: Few_of_def except_def)
  moreover have "keeps_tags text_tag (ITALIC_STAR letnum) (group_in ''i'')" unfolding ITALIC_STAR_def
    by (rule keeps_emphasis [where mark = "[42]", OF _ _ _ _ outside_match]) (auto simp: italic_body_def except_def)
  moreover have "keeps_tags text_tag (ITALIC_LINE letnum) (group_in ''i'')" unfolding ITALIC_LINE_def
    by (rule keeps_emphasis [where mark = "[95]", OF _ _ _ _ outside_match]) (auto simp: italic_body_def except_def)
  ultimately show ?thesis
    unfolding format_emphasis_def using assms text_tag_shape by (intro replace_matches_tags) auto
qed

definition mark_char :: "nat \<Rightarrow> bool" where
  "mark_char c \<longleftrightarrow> js_space c \<or> line_break c \<or> c \<in> {32, 35, 38, 42, 45, 95, 43, 126, 91, 10}"

lemma mark_no_tag: "mark_char c \<Longrightarrow> \<not> tag_char text_tag c"
  using not_text_tag_char by (auto simp: mark_char_def)

text \<open>Steps over characters between groups.\<close>

lemma skips:
  "d \<in> set (matches (Many blank) c) \<Longrightarrow> \<exists>u. passes c u d \<and> list_all mark_char u \<and> groups d = groups c"
  "d \<in> set (matches (Upto n blank) c) \<Longrightarrow> \<exists>u. passes c u d \<and> list_all mark_char u \<and> groups d = groups c"
  "d \<in> set (matches (Some_of blank) c) \<Longrightarrow> \<exists>u. passes c u d \<and> list_all mark_char u \<and> u \<noteq> [] \<and> groups d = groups c"
  "d \<in> set (matches (Many (Lit 35)) c) \<Longrightarrow> \<exists>u. passes c u d \<and> list_all mark_char u \<and> groups d = groups c"
  "d \<in> set (matches (Upto n (Lit 35)) c) \<Longrightarrow> \<exists>u. passes c u d \<and> list_all mark_char u \<and> groups d = groups c"
  "d \<in> set (matches (Lit x) c) \<Longrightarrow> passes c [x] d \<and> groups d = groups c"
proof -
  show "d \<in> set (matches (Many blank) c) \<Longrightarrow> \<exists>u. passes c u d \<and> list_all mark_char u \<and> groups d = groups c"
    unfolding blank_def by (drule matches_Many_Chars) (auto simp: mark_char_def list_all_iff)
  show "d \<in> set (matches (Upto n blank) c) \<Longrightarrow> \<exists>u. passes c u d \<and> list_all mark_char u \<and> groups d = groups c"
    unfolding blank_def by (drule matches_Upto_Chars) (auto simp: mark_char_def list_all_iff)
  show "d \<in> set (matches (Some_of blank) c) \<Longrightarrow> \<exists>u. passes c u d \<and> list_all mark_char u \<and> u \<noteq> [] \<and> groups d = groups c"
    unfolding blank_def by (drule matches_Some_of_Chars) (auto simp: mark_char_def list_all_iff)
  show "d \<in> set (matches (Many (Lit 35)) c) \<Longrightarrow> \<exists>u. passes c u d \<and> list_all mark_char u \<and> groups d = groups c"
    unfolding Lit_def by (drule matches_Many_Chars) (auto simp: mark_char_def list_all_iff)
  show "d \<in> set (matches (Upto n (Lit 35)) c) \<Longrightarrow> \<exists>u. passes c u d \<and> list_all mark_char u \<and> groups d = groups c"
    unfolding Lit_def by (drule matches_Upto_Chars) (auto simp: mark_char_def list_all_iff)
  show "d \<in> set (matches (Lit x) c) \<Longrightarrow> passes c [x] d \<and> groups d = groups c"
    by (auto simp: matches_Lit passes_def simp del: matches.simps)
qed

text \<open>A match made of marks, one group, marks: the group is cut out cleanly.\<close>

definition framed :: "codepoints \<Rightarrow> cursor \<Rightarrow> bool" where
  "framed s d \<longleftrightarrow> (\<exists>a g b. s = a @ g @ b @ ahead d \<and> a \<noteq> [] \<and> mark_char (hd a)
     \<and> (b @ ahead d = [] \<or> mark_char (hd (b @ ahead d))) \<and> groups d = [(1, g)])"

lemma keeps_framed:
  assumes fr: "\<And>p s d. d \<in> set (matches r (p, s, [])) \<Longrightarrow> framed s d" and name: "name \<in> {''b'', ''i'', ''s'', ''blockquote''}"
  shows "keeps_tags text_tag r (group_in name)"
proof (rule keeps_tagsI)
  fix p s d assume "d \<in> set (matches r (p, s, []))"
  from fr [OF this] obtain a g b where "s = a @ g @ b @ ahead d" "a \<noteq> []" "mark_char (hd a)"
    unfolding framed_def by blast
  then have "s = hd a # (tl a @ g @ b) @ ahead d" "\<not> tag_char text_tag (hd a)" using mark_no_tag by simp_all
  then show "\<exists>x u. s = x # u @ ahead d \<and> \<not> tag_char text_tag x" by blast
next
  fix p s d assume s: "only_tags text_tag s" and d: "d \<in> set (matches r (p, s, []))"
  from fr [OF d] obtain a g b where g: "s = a @ g @ b @ ahead d" "groups d = [(1, g)]"
      "b @ ahead d = [] \<or> mark_char (hd (b @ ahead d))"
    unfolding framed_def by blast
  have "b @ ahead d = [] \<or> \<not> tag_char text_tag (hd (b @ ahead d))" using g(3) mark_no_tag by blast
  then have "only_tags text_tag g" using only_tags_middle [of text_tag a g "b @ ahead d"] s g(1) by blast
  then show "only_tags text_tag (group_in name (map_of (groups d)))" using group_in_tags [OF name] g(2) by simp
qed

lemma heading_framed:
  assumes "d \<in> set (matches HEADING (p, s, []))"
  shows "framed s d"
proof -
  obtain e1 e2 e3 e4 e5 e6 e7 e8 where e:
      "e1 \<in> set (matches LineStart (p, s, []))" "e2 \<in> set (matches (Upto 3 blank) e1)"
      "e3 \<in> set (matches (Lit 35) e2)" "e4 \<in> set (matches (Upto 5 (Lit 35)) e3)"
      "e5 \<in> set (matches (Some_of blank) e4)" "e6 \<in> set (matches (Group 1 (Few_of dot)) e5)"
      "e7 \<in> set (matches (Many blank) e6)" "e8 \<in> set (matches (Many (Lit 35)) e7)"
    and e9: "\<exists>e9. e9 \<in> set (matches (Many blank) e8) \<and> d \<in> set (matches LineEnd e9)"
    using assms unfolding HEADING_def matches_Then by blast
  then obtain e9 where e9: "e9 \<in> set (matches (Many blank) e8)" "d \<in> set (matches LineEnd e9)" by blast
  have s: "e1 = (p, s, [])" using matches_zero_width(3) [OF e(1)] .
  obtain u2 where u2: "passes e1 u2 e2" "list_all mark_char u2" "groups e2 = groups e1" using skips(2) [OF e(2)] by blast
  note u3 = skips(6) [OF e(3)]
  obtain u4 where u4: "passes e3 u4 e4" "groups e4 = groups e3" using skips(5) [OF e(4)] by blast
  obtain u5 where u5: "passes e4 u5 e5" "groups e5 = groups e4" using skips(3) [OF e(5)] by blast
  obtain g e' where g: "e' \<in> set (matches (Few_of dot) e5)" "passes e5 g e'" "e6 = (fst e', ahead e', (1, g) # groups e')"
    using matches_Group [OF e(6)] by blast
  have "groups e' = groups e5" using plain_groups [OF _ g(1)] by (simp add: Few_of_def dot_def)
  obtain u7 where u7: "passes e6 u7 e7" "list_all mark_char u7" "groups e7 = groups e6" using skips(1) [OF e(7)] by blast
  obtain u8 where u8: "passes e7 u8 e8" "list_all mark_char u8" "groups e8 = groups e7" using skips(4) [OF e(8)] by blast
  obtain u9 where u9: "passes e8 u9 e9" "list_all mark_char u9" "groups e9 = groups e8" using skips(1) [OF e9(1)] by blast
  have d: "d = e9 \<and> (ahead e9 = [] \<or> line_break (hd (ahead e9)))" using matches_zero_width(4) [OF e9(2)] .
  have "s = (u2 @ [35] @ u4 @ u5) @ g @ (u7 @ u8 @ u9) @ ahead d"
    using s u2(1) u3 u4(1) u5(1) g(2,3) u7(1) u8(1) u9(1) d by (simp add: passes_def)
  moreover have "mark_char (hd (u2 @ [35] @ u4 @ u5))" using u2(2) by (cases u2) (auto simp: mark_char_def)
  moreover have "list_all mark_char (u7 @ u8 @ u9)" using u7(2) u8(2) u9(2) by simp
  then have "(u7 @ u8 @ u9) @ ahead d = [] \<or> mark_char (hd ((u7 @ u8 @ u9) @ ahead d))"
    using d by (cases "u7 @ u8 @ u9") (auto simp: mark_char_def)
  moreover have "groups d = [(1, g)]"
    using d u9(3) u8(3) u7(3) g(3) \<open>groups e' = groups e5\<close> u5(2) u4(2) u3 u2(3) s by simp
  ultimately show ?thesis unfolding framed_def by (metis append_is_Nil_conv list.distinct(1))
qed

lemma quote_framed:
  assumes "d \<in> set (matches QUOTE (p, s, []))"
  shows "framed s d"
proof -
  obtain e1 e2 e3 e4 where e: "e1 \<in> set (matches LineStart (p, s, []))" "e2 \<in> set (matches (Word (codes ''&gt;'')) e1)"
      "e3 \<in> set (matches (Upto 1 blank) e2)" "e4 \<in> set (matches (Group 1 (Many dot)) e3)" "d \<in> set (matches LineEnd e4)"
    using assms unfolding QUOTE_def matches_Then by blast
  have s: "e1 = (p, s, [])" using matches_zero_width(3) [OF e(1)] .
  have "codes ''&gt;'' \<noteq> []" by (simp add: codes_def)
  then obtain xs where u2: "ahead e1 = codes ''&gt;'' @ xs" "e2 = (Some (last (codes ''&gt;'')), xs, groups e1)"
    using e(2) matches_Word by blast
  obtain u3 where u3: "passes e2 u3 e3" "groups e3 = groups e2" using skips(2) [OF e(3)] by blast
  obtain g e' where g: "e' \<in> set (matches (Many dot) e3)" "passes e3 g e'" "e4 = (fst e', ahead e', (1, g) # groups e')"
    using matches_Group [OF e(4)] by blast
  have ge: "groups e' = groups e3" using plain_groups [OF _ g(1)] by (simp add: dot_def)
  have d: "d = e4 \<and> (ahead e4 = [] \<or> line_break (hd (ahead e4)))" using matches_zero_width(4) [OF e(5)] .
  have "s = (codes ''&gt;'' @ u3) @ g @ [] @ ahead d"
    using s u2 u3(1) g(2,3) d by (simp add: passes_def)
  moreover have "codes ''&gt;'' @ u3 \<noteq> []" "mark_char (hd (codes ''&gt;'' @ u3))" by (simp_all add: codes_def mark_char_def)
  moreover have "[] @ ahead d = [] \<or> mark_char (hd ([] @ ahead d))" using d by (auto simp: mark_char_def)
  moreover have "groups d = [(1, g)]" using d g(3) ge u3(2) u2(2) s by simp
  ultimately show ?thesis unfolding framed_def by blast
qed

lemma keeps_rule: "keeps_tags text_tag RULE (\<lambda>_. replicate 10 0x2500)"
proof (rule keeps_tagsI)
  fix p s d assume "d \<in> set (matches RULE (p, s, []))"
  then obtain e1 e2 e3 where e: "e1 \<in> set (matches LineStart (p, s, []))" "e2 \<in> set (matches (Many blank) e1)"
      "e3 \<in> set (matches (Either (three_or_more 45) (Either (three_or_more 42) (three_or_more 95))) e2)"
      "d \<in> set (matches (Then (Many blank) LineEnd) e3)"
    unfolding RULE_def matches_Then by blast
  have s: "e1 = (p, s, [])" using matches_zero_width(3) [OF e(1)] .
  obtain u where u: "passes e1 u e2" "list_all mark_char u" using skips(1) [OF e(2)] by blast
  obtain c where c: "c \<in> {45, 42, 95}" "e3 \<in> set (matches (three_or_more c) e2)" using e(3) by auto
  then obtain e' where "e' \<in> set (matches (Word [c, c, c]) e2)" "e3 \<in> set (matches (Many (Lit c)) e')"
    unfolding three_or_more_def matches_Then by blast
  moreover from this(2) obtain v where "passes e' v e3" using matches_pass by blast
  moreover obtain w where "passes e3 w d" using e(4) matches_pass by blast
  ultimately have "s = u @ [c, c, c] @ v @ w @ ahead d"
    using u(1) s matches_Word [of "[c, c, c]" e' e2] by (auto simp: passes_def)
  then show "\<exists>x u. s = x # u @ ahead d \<and> \<not> tag_char text_tag x"
    using u(2) c(1) mark_no_tag by (cases u) (auto simp: mark_char_def)
next
  show "only_tags text_tag (replicate 10 0x2500)" by (intro only_tags_no_bracket) simp
qed

lemma js_space_not_bracket: "\<not> js_space 60"
  by (simp add: js_space_def)

lemma keeps_bullet: "keeps_tags text_tag BULLET (\<lambda>g. the_group g 1 @ [0x2022, 32])"
proof -
  have *: "\<exists>g x u. s = g @ x # u @ ahead d \<and> list_all mark_char (g @ [x]) \<and> list_all js_space g \<and> groups d = [(1, g)]"
    if d: "d \<in> set (matches BULLET (p, s, []))" for p s d
  proof -
    obtain e1 e2 e3 where e: "e1 \<in> set (matches LineStart (p, s, []))" "e2 \<in> set (matches (Group 1 (Many blank)) e1)"
        "e3 \<in> set (matches (Chars (\<lambda>c. c \<in> {45, 42, 43})) e2)" "d \<in> set (matches (Some_of blank) e3)"
      using d unfolding BULLET_def matches_Then by blast
    have s: "e1 = (p, s, [])" using matches_zero_width(3) [OF e(1)] .
    obtain g e' where g: "e' \<in> set (matches (Many blank) e1)" "passes e1 g e'" "e2 = (fst e', ahead e', (1, g) # groups e')"
      using matches_Group [OF e(2)] by blast
    obtain g' where g': "passes e1 g' e'" "\<forall>x \<in> set g'. js_space x \<and> x \<noteq> 10" "groups e' = groups e1"
      using matches_Many_Chars g(1) unfolding blank_def by blast
    have "g' = g" using g(2) g'(1) by (auto simp: passes_def)
    obtain x xs where x: "ahead e2 = x # xs" "x \<in> {45, 42, 43}" "e3 = (Some x, xs, groups e2)"
      using e(3) unfolding matches_Chars by auto
    obtain u where u: "passes e3 u d" "groups d = groups e3" using skips(3) [OF e(4)] by blast
    have "s = g @ x # u @ ahead d" using s g(2,3) x(1,3) u(1) by (simp add: passes_def)
    moreover have "groups d = [(1, g)]" using u(2) x(3) g(3) g'(3) s by simp
    moreover have "list_all js_space g" using g'(2) \<open>g' = g\<close> by (simp add: list_all_iff)
    moreover have "list_all mark_char g" using g'(2) \<open>g' = g\<close> by (simp add: list_all_iff mark_char_def)
    moreover have "mark_char x" using x(2) by (auto simp: mark_char_def)
    ultimately show ?thesis by (intro exI [of _ g] exI [of _ x] exI [of _ u]) simp
  qed
  show ?thesis
  proof (rule keeps_tagsI)
    fix p s d assume "d \<in> set (matches BULLET (p, s, []))"
    then obtain g x u where "s = g @ x # u @ ahead d" "list_all mark_char (g @ [x])" using * by blast
    then show "\<exists>x u. s = x # u @ ahead d \<and> \<not> tag_char text_tag x"
      using mark_no_tag by (cases g) fastforce+
  next
    fix p s d assume "d \<in> set (matches BULLET (p, s, []))"
    then obtain g where "list_all js_space g" "groups d = [(1, g)]" using * by blast
    then show "only_tags text_tag (the_group (map_of (groups d)) 1 @ [0x2022, 32])"
      using js_space_not_bracket by (intro only_tags_no_bracket) (auto simp: the_group_def list_all_iff)
  qed
qed

lemma QUOTE_JOINT_shape: "QUOTE_JOINT \<noteq> []" "hd QUOTE_JOINT = 60"
  by (simp_all add: QUOTE_JOINT_def codes_def)

lemma keeps_joint: "keeps_tags text_tag (Word QUOTE_JOINT) (\<lambda>_. [10])"
  unfolding keeps_tags_def
proof (intro conjI allI impI)
  fix t u v q s assume t: "text_tag t" "t = u @ v" "u \<noteq> []" "v \<noteq> []"
  obtain y w where v: "v = y # w" using t(4) by (cases v) auto
  have "y \<in> set (tl t)" using t(2,3) v by (cases u) auto
  then have "y \<noteq> 60" using text_tag_shape [OF t(1)] by metis
  have "d \<notin> set (matches (Word QUOTE_JOINT) (q, v @ s, []))" for d
  proof
    assume "d \<in> set (matches (Word QUOTE_JOINT) (q, v @ s, []))"
    then obtain xs where "v @ s = QUOTE_JOINT @ xs" using QUOTE_JOINT_shape(1) by (auto simp: matches_Word)
    then have "hd (v @ s) = 60" using QUOTE_JOINT_shape by simp
    then show False using v \<open>y \<noteq> 60\<close> by simp
  qed
  then show "matches (Word QUOTE_JOINT) (q, v @ s, []) = []" by (meson last_in_set)
next
  fix p :: "nat option" and s :: codepoints and d :: cursor
  assume "d \<in> set (matches (Word QUOTE_JOINT) (p, s, []))"
  then obtain xs where "s = QUOTE_JOINT @ xs" "ahead d = xs" using QUOTE_JOINT_shape(1) by (auto simp: matches_Word)
  then show "length (ahead d) < length s" using QUOTE_JOINT_shape(1) by simp
qed simp

lemma keeps_link: "keeps_tags (\<lambda>_. False) LINK link_text"
proof (rule keeps_tagsI)
  fix p s d assume "d \<in> set (matches LINK (p, s, []))"
  then obtain e1 where e1: "e1 \<in> set (matches (Lit 91) (p, s, []))"
      "d \<in> set (matches (Then (Group 1 (Some_of (except [93, 10]))) (Then (Word (codes '']('')) (Then
        (Group 2 (Then (Word (codes ''http'')) (Then (Upto 1 (Lit 115)) (Then (Word (codes ''://''))
          (Some_of (Chars (\<lambda>c. \<not> js_space c \<and> c \<noteq> 41))))))) (Lit 41)))) e1)"
    unfolding LINK_def matches_Then [of d "Lit 91"] by blast
  obtain w where "passes e1 w d" using matches_pass [OF e1(2)] by blast
  then have "s = 91 # w @ ahead d" using skips(6) [OF e1(1)] by (simp add: passes_def)
  then show "\<exists>x u. s = x # u @ ahead d \<and> \<not> tag_char (\<lambda>_. False) x" by (auto simp: tag_char_def)
next
  fix p s d assume s: "only_tags (\<lambda>_. False) s" and "d \<in> set (matches LINK (p, s, []))"
  then obtain e1 e2 e3 e4 where e: "e1 \<in> set (matches (Lit 91) (p, s, []))"
      "e2 \<in> set (matches (Group 1 (Some_of (except [93, 10]))) e1)"
      "e3 \<in> set (matches (Word (codes '']('')) e2)"
      "e4 \<in> set (matches (Group 2 (Then (Word (codes ''http'')) (Then (Upto 1 (Lit 115)) (Then (Word (codes ''://''))
        (Some_of (Chars (\<lambda>c. \<not> js_space c \<and> c \<noteq> 41))))))) e3)"
      "d \<in> set (matches (Lit 41) e4)"
    unfolding LINK_def matches_Then by blast
  have 1: "passes (p, s, []) [91] e1" "groups e1 = []" using skips(6) [OF e(1)] by simp_all
  obtain g1 f1 where g1: "f1 \<in> set (matches (Some_of (except [93, 10])) e1)" "passes e1 g1 f1"
      "e2 = (fst f1, ahead f1, (1, g1) # groups f1)" using matches_Group [OF e(2)] by blast
  have "groups f1 = []" using plain_groups [OF _ g1(1)] 1(2) by (simp add: Some_of_def except_def)
  have "codes '']('' \<noteq> []" by (simp add: codes_def)
  then obtain xs where 3: "ahead e2 = codes '']('' @ xs" "e3 = (Some (last (codes '']('')), xs, groups e2)"
    using e(3) matches_Word by blast
  obtain g2 f2 where f2: "f2 \<in> set (matches (Then (Word (codes ''http'')) (Then (Upto 1 (Lit 115)) (Then (Word (codes ''://''))
        (Some_of (Chars (\<lambda>c. \<not> js_space c \<and> c \<noteq> 41)))))) e3)"
      and g2: "passes e3 g2 f2" "e4 = (fst f2, ahead f2, (2, g2) # groups f2)"
    using matches_Group [OF e(4)] by blast
  have "groups f2 = groups e3"
    using f2 by (rule plain_groups [rotated]) (simp add: Some_of_def Lit_def codes_def)
  have 5: "groups d = groups e4" using skips(6) [OF e(5)] by simp
  have "s = [91] @ g1 @ codes '']('' @ g2 @ ahead f2" using 1 g1(2,3) 3 g2(1) by (simp add: passes_def)
  then have "60 \<notin> set g1" "60 \<notin> set g2" using s by (simp_all add: only_tags_none)
  moreover have "groups d = [(2, g2), (1, g1)]"
    using 5 g2(2) \<open>groups f2 = groups e3\<close> 3(2) g1(3) \<open>groups f1 = []\<close> by simp
  ultimately show "only_tags (\<lambda>_. False) (link_text (map_of (groups d)))"
    by (simp add: only_tags_none link_text_def the_group_def codes_def)
qed

section \<open>The output of the converter\<close>

lemma escapeHtml_no_bracket: "60 \<notin> set (escapeHtml s)"
  by (auto simp: escapeHtml_def replace_one_def codes_def)

lemma format_lines_tags:
  assumes "60 \<notin> set s"
  shows "only_tags text_tag (format_lines s)"
proof -
  note keep = replace_matches_tags [of text_tag, OF _ text_tag_shape]
  have "only_tags (\<lambda>_. False) (replace_matches LINK link_text s)"
    by (rule replace_matches_tags [OF keeps_link]) (use assms in \<open>simp_all add: only_tags_none\<close>)
  then have "only_tags text_tag (replace_matches LINK link_text s)" by (rule only_tags_mono) simp
  then have "only_tags text_tag (replace_matches HEADING (group_in ''b'') (replace_matches LINK link_text s))"
    by (rule keep [OF keeps_framed [OF heading_framed], rotated -1]) simp_all
  then have "only_tags text_tag (replace_matches RULE (\<lambda>_. replicate 10 0x2500)
      (replace_matches HEADING (group_in ''b'') (replace_matches LINK link_text s)))"
    by (rule keep [OF keeps_rule, rotated -1])
  then have "only_tags text_tag (replace_matches QUOTE (group_in ''blockquote'') (replace_matches RULE (\<lambda>_. replicate 10 0x2500)
      (replace_matches HEADING (group_in ''b'') (replace_matches LINK link_text s))))"
    by (rule keep [OF keeps_framed [OF quote_framed], rotated -1]) simp_all
  then show ?thesis
    unfolding format_lines_def Let_def by (intro keep [OF keeps_bullet] keep [OF keeps_joint])
qed

text \<open>A fact about the state of a replacement that every call of the function keeps.\<close>

lemma replace_with_state:
  assumes "\<And>p s d m a. d \<in> set (matches r (p, s, [])) \<Longrightarrow> I a \<Longrightarrow> I (snd (f m (map_of (groups d)) a))"
  shows "I a \<Longrightarrow> I (snd (replace_with r f p s a))"
proof (induction "length s" arbitrary: s p a rule: less_induct)
  case less
  show ?case
  proof (cases "matches r (p, s, [])")
    case Nil
    show ?thesis
    proof (cases s)
      case (Cons x xs)
      then have "I (snd (replace_with r f (Some x) xs a))" using less by simp
      then show ?thesis using Nil Cons by (subst replace_with.simps) (simp split: prod.splits, metis snd_conv)
    qed (use Nil less.prems in \<open>subst replace_with.simps, simp\<close>)
  next
    case (Cons d ds)
    obtain p' s' g where d: "d = (p', s', g)" by (cases d)
    have a: "I (snd (f m (map_of g) a))" for m
      using assms [of d p s a m] Cons less.prems by (simp add: d)
    show ?thesis
    proof (cases "length s' < length s")
      case True
      then have "I (snd (replace_with r f p' s' (snd (f m (map_of g) a))))" for m using less.hyps a by blast
      then show ?thesis using Cons True
        by (subst replace_with.simps) (simp add: d split: prod.splits, metis snd_conv)
    next
      case False
      have "I (snd (replace_with r f (Some x) xs (snd (f m (map_of g) a))))" if "s = x # xs" for x xs m
        using less.hyps a that by simp
      then show ?thesis using Cons False a
        by (subst replace_with.simps) (simp add: d split: prod.splits list.splits, metis snd_conv)
    qed
  qed
qed

lemma stash_tags:
  "only_tags T html \<Longrightarrow> list_all (only_tags T) blocks \<Longrightarrow> list_all (only_tags T) (snd (stash html blocks))"
  by (simp add: stash_def)

lemma telegram_tags: "name \<in> {''pre'', ''code''} \<Longrightarrow> only_tags telegram_tag (tagged name (escapeHtml s))"
  by (rule tagged_only_tags)
     (auto simp: telegram_tag_def CODE_TAGS_def codes_def escapeHtml_no_bracket intro!: only_tags_no_bracket)

lemma escapeHtml_lang: "list_all lang_char l \<Longrightarrow> escapeHtml l = l"
proof (induction l)
  case (Cons c l)
  then have "c \<notin> {38, 60, 62}" by (auto simp: lang_char_def)
  then show ?case using Cons by (simp add: escapeHtml_def replace_one_def)
qed (simp add: escapeHtml_def replace_one_def)

lemma fence_language:
  assumes "d \<in> set (matches FENCE (p, s, []))"
  shows "list_all lang_char (the_group (map_of (groups d)) 1)"
proof -
  obtain e1 e2 e3 e4 e5 where e: "e1 \<in> set (matches (Word (codes ''```'')) (p, s, []))"
      "e2 \<in> set (matches (Group 1 (Many (Chars lang_char))) e1)" "e3 \<in> set (matches (Many blank) e2)"
      "e4 \<in> set (matches (Upto 1 (Lit 10)) e3)" "e5 \<in> set (matches (Group 2 (Few any_char)) e4)"
      "d \<in> set (matches (Word (codes ''```'')) e5)"
    using assms unfolding FENCE_def matches_Then by blast
  have tick: "codes ''```'' \<noteq> []" by (simp add: codes_def)
  have "groups e1 = []" using e(1) matches_Word [OF tick] by auto
  obtain l f where l: "f \<in> set (matches (Many (Chars lang_char)) e1)" "passes e1 l f" "e2 = (fst f, ahead f, (1, l) # groups f)"
    using matches_Group [OF e(2)] by blast
  obtain l' where l': "passes e1 l' f" "\<forall>x \<in> set l'. lang_char x" "groups f = groups e1"
    using matches_Many_Chars [OF l(1)] by blast
  have "l' = l" using l(2) l'(1) by (simp add: passes_def)
  have "groups e3 = groups e2" using skips(1) [OF e(3)] by blast
  moreover have "groups e4 = groups e3" by (rule plain_groups [OF _ e(4)]) (simp add: Lit_def)
  moreover obtain b f' where f': "f' \<in> set (matches (Few any_char) e4)" "e5 = (fst f', ahead f', (2, b) # groups f')"
    using matches_Group [OF e(5)] by blast
  moreover have "groups f' = groups e4" by (rule plain_groups [OF _ f'(1)]) (simp add: any_char_def)
  moreover have "groups d = groups e5" using e(6) matches_Word [OF tick] by auto
  ultimately have "groups d = [(2, b), (1, l)]" using l(3) l'(3) \<open>groups e1 = []\<close> by simp
  then show ?thesis using l'(2) \<open>l' = l\<close> by (simp add: the_group_def list_all_iff)
qed

lemma language_tag: "list_all lang_char l \<Longrightarrow> only_tags telegram_tag (codes ''<pre><code class=\"language-'' @ l @ codes ''\">'')"
proof -
  assume l: "list_all lang_char l"
  have "only_tags telegram_tag (codes ''<pre>'')"
    by (rule only_tags_tag) (auto simp: telegram_tag_def CODE_TAGS_def codes_def)
  moreover have "only_tags telegram_tag (codes ''<code class=\"language-'' @ l @ codes ''\">'')"
  proof (rule only_tags_tag)
    show "telegram_tag (codes ''<code class=\"language-'' @ l @ codes ''\">'')" using l unfolding telegram_tag_def by blast
    have "60 \<notin> set l" using list_lang_range [OF l] by blast
    then show "only_tags telegram_tag (tl (codes ''<code class=\"language-'' @ l @ codes ''\">''))"
      by (intro only_tags_no_bracket) (simp add: codes_def)
  qed (simp add: codes_def)
  ultimately have "only_tags telegram_tag (codes ''<pre>'' @ codes ''<code class=\"language-'' @ l @ codes ''\">'')"
    by (rule only_tags_append)
  then show ?thesis by (simp add: codes_def)
qed

lemma fence_html_tags:
  assumes "list_all lang_char (the_group g 1)"
  shows "only_tags telegram_tag (fence_html g)"
proof (cases "the_group g 1 = []")
  case True
  then show ?thesis using telegram_tags by (simp add: fence_html_def)
next
  case False
  have "only_tags telegram_tag (codes ''</code>'')" "only_tags telegram_tag (codes ''</pre>'')"
    by (rule only_tags_tag; auto simp: telegram_tag_def CODE_TAGS_def codes_def)+
  then have "only_tags telegram_tag (codes ''</code></pre>'')"
    using only_tags_append [of telegram_tag "codes ''</code>''" "codes ''</pre>''"] by (simp add: codes_def)
  moreover have "only_tags telegram_tag (escapeHtml (drop_newline (the_group g 2)))"
    using escapeHtml_no_bracket by (rule only_tags_no_bracket)
  ultimately have "only_tags telegram_tag ((codes ''<pre><code class=\"language-'' @ the_group g 1 @ codes ''\">'')
      @ escapeHtml (drop_newline (the_group g 2)) @ codes ''</code></pre>'')"
    by (intro only_tags_append language_tag assms)
  then show ?thesis using False assms by (simp add: fence_html_def escapeHtml_lang Let_def)
qed

lemma stash_code_tags: "list_all (only_tags telegram_tag) (snd (stash_code s))"
proof -
  let ?I = "list_all (only_tags telegram_tag)"
  have "?I (snd (replace_with FENCE (\<lambda>_ g. stash (fence_html g)) None s []))"
    by (rule replace_with_state) (use fence_language in \<open>simp_all add: stash_tags fence_html_tags\<close>)
  then obtain t1 b1 where 1: "replace_with FENCE (\<lambda>_ g. stash (fence_html g)) None s [] = (t1, b1)" "?I b1"
    by (metis prod.collapse)
  have "?I (snd (replace_with TABLE (\<lambda>m _. stash (tagged ''pre'' (escapeHtml (drop_newline m)))) None t1 b1))"
    using _ 1(2) by (rule replace_with_state) (simp add: stash_tags telegram_tags)
  then obtain t2 b2 where 2: "replace_with TABLE (\<lambda>m _. stash (tagged ''pre'' (escapeHtml (drop_newline m)))) None t1 b1 = (t2, b2)"
      "?I b2"
    by (metis prod.collapse)
  have "?I (snd (replace_with INLINE_CODE (\<lambda>_ g. stash (tagged ''code'' (escapeHtml (the_group g 1)))) None t2 b2))"
    using _ 2(2) by (rule replace_with_state) (simp add: stash_tags telegram_tags)
  then show ?thesis by (simp add: stash_code_def 1(1) 2(1))
qed

lemma keeps_restore:
  assumes "list_all (only_tags telegram_tag) blocks"
  shows "keeps_tags telegram_tag MARKER (\<lambda>g. let i = number_of (the_group g 1) in if i < length blocks then blocks ! i else [])"
proof (rule keeps_tagsI)
  fix p s d assume "d \<in> set (matches MARKER (p, s, []))"
  then obtain e1 where e1: "e1 \<in> set (matches (Lit OPEN) (p, s, []))"
      "d \<in> set (matches (Then (Group 1 (Some_of (Chars (\<lambda>c. 48 \<le> c \<and> c \<le> 57)))) (Lit CLOSE)) e1)"
    unfolding MARKER_def matches_Then [of d "Lit OPEN"] by blast
  obtain w where "passes e1 w d" using matches_pass [OF e1(2)] by blast
  then have "s = OPEN # w @ ahead d" using skips(6) [OF e1(1)] by (simp add: passes_def)
  moreover have "\<not> tag_char telegram_tag OPEN" using telegram_tag_char [of OPEN] by (auto simp: OPEN_def)
  ultimately show "\<exists>x u. s = x # u @ ahead d \<and> \<not> tag_char telegram_tag x" by blast
next
  fix p s d
  show "only_tags telegram_tag (let i = number_of (the_group (map_of (groups d)) 1) in if i < length blocks then blocks ! i else [])"
    using assms by (simp add: Let_def list_all_length)
qed

text \<open>C31: The HTML that the converter makes of any text of the model has no tag but its own: every \<open><\<close> of the
  output opens one of \<open><b> <i> <s> <blockquote> <pre> <code>\<close>, their closing tags, or the one that names the
  language of a block in letters, digits, \<open>_ + -\<close>. A tag or a link in the text arrives as text.\<close>

theorem output_has_only_own_tags: "only_tags telegram_tag (markdownToTelegramHtml letnum markdown)"
proof -
  obtain u blocks where st: "stash_code (clean_input markdown) = (u, blocks)" by (cases "stash_code (clean_input markdown)")
  have "only_tags text_tag (format_emphasis letnum (format_lines (escapeHtml u)))"
    using escapeHtml_no_bracket by (intro format_emphasis_tags format_lines_tags)
  then have "only_tags telegram_tag (format_emphasis letnum (format_lines (escapeHtml u)))"
    by (rule only_tags_mono) (simp add: text_tag_def telegram_tag_def)
  moreover have "list_all (only_tags telegram_tag) blocks" using stash_code_tags [of "clean_input markdown"] st by simp
  ultimately have "only_tags telegram_tag (restore blocks (format_emphasis letnum (format_lines (escapeHtml u))))"
    unfolding restore_def by (intro replace_matches_tags keeps_restore telegram_tag_shape)
  then show ?thesis by (simp add: markdownToTelegramHtml_def st)
qed

section \<open>The plain text of an escaped text\<close>

definition escaped :: "nat \<Rightarrow> codepoints" where
  "escaped c = (if c = 38 then codes ''&amp;'' else if c = 60 then codes ''&lt;'' else if c = 62 then codes ''&gt;'' else [c])"

lemma escapeHtml_escaped: "escapeHtml s = concat (map escaped s)"
  by (induction s) (auto simp: escapeHtml_def replace_one_def escaped_def codes_def)

lemma matches_Word_eq:
  "w \<noteq> [] \<Longrightarrow> matches (Word w) (p, s, g) = (if prefix w s then [(Some (last w), drop (length w) s, g)] else [])"
proof (induction w arbitrary: p s rule: Word.induct)
  case (2 c)
  then show ?case by (cases s) (auto simp: Lit_def)
next
  case (3 c d ds)
  then show ?case by (cases s) (auto simp: Lit_def simp del: Word.simps(2))
qed simp

text \<open>Undoing one of the escapes, piece by piece: no match starts inside a piece or runs over its end.\<close>

lemma replace_word_pieces:
  assumes w: "w \<noteq> []" "hd w = 38"
    and e: "\<And>x. e x = w \<or> (38 \<notin> set (tl (e x)) \<and> (\<forall>s. \<not> prefix w (e x @ s)))"
  shows "fst (replace_with (Word w) (\<lambda>_ _ (_::unit). (r, ())) p (concat (map e s)) ())
     = concat (map (\<lambda>x. if e x = w then r else e x) s)"
proof (induction s arbitrary: p)
  case Nil
  then show ?case using w(1) by (simp add: replace_with.simps matches_Word_eq)
next
  case (Cons x s)
  let ?rest = "concat (map e s)"
  show ?case
  proof (cases "e x = w")
    case True
    have "matches (Word w) (p, w @ ?rest, []) = [(Some (last w), ?rest, [])]" using w(1) by (simp add: matches_Word_eq)
    then have "fst (replace_with (Word w) (\<lambda>_ _ (_::unit). (r, ())) p (w @ ?rest) ())
        = r @ fst (replace_with (Word w) (\<lambda>_ _ (_::unit). (r, ())) (Some (last w)) ?rest ())"
      using w(1) by (subst replace_with.simps) (simp split: prod.splits)
    then show ?thesis using True Cons.IH by simp
  next
    case False
    have no: "matches (Word w) (q, v @ ?rest, []) = []" if uv: "e x = u @ v" "v \<noteq> []" for u v q
    proof -
      have "\<not> prefix w (v @ ?rest)"
      proof (cases u)
        case Nil
        then show ?thesis using False e [of x] uv by auto
      next
        case (Cons y u')
        then have "38 \<notin> set v" using False e [of x] uv by auto
        then have "hd w \<noteq> hd v" using w(2) uv(2) by (cases v) auto
        then show ?thesis using w(1) uv(2) by (cases w; cases v) auto
      qed
      then show ?thesis using w(1) by (simp add: matches_Word_eq)
    qed
    obtain q where "fst (replace_with (Word w) (\<lambda>_ _ _. (r, ())) p (e x @ ?rest) ())
        = e x @ fst (replace_with (Word w) (\<lambda>_ _ _. (r, ())) q ?rest ())"
      using replace_with_skip [of "e x" "Word w" ?rest "\<lambda>_ _ _. (r, ())" p "()"] no by blast
    then show ?thesis using False Cons.IH by simp
  qed
qed

lemma replace_matches_unmatched:
  assumes "\<And>p s'. set s' \<subseteq> set s \<Longrightarrow> matches r (p, s', []) = []"
  shows "replace_matches r f s = s"
proof -
  have "set s' \<subseteq> set s \<Longrightarrow> fst (replace_with r (\<lambda>_ g (_::unit). (f g, ())) p s' ()) = s'" for s' p
  proof (induction s' arbitrary: p)
    case Nil
    then show ?case using assms [of "[]" p] by (simp add: replace_with.simps)
  next
    case (Cons x s')
    then show ?case using assms [of "x # s'" p] replace_with_no_match [of r p x s' "\<lambda>_ g (_::unit). (f g, ())" "()"] by simp
  qed
  then show ?thesis by (simp add: replace_matches_def)
qed

text \<open>Taking the plain text of an escaped text gives the text back, whatever it holds: the fallback that is sent
  when Telegram refuses the HTML shows what was escaped.\<close>

theorem plain_of_escaped: "htmlToPlain (escapeHtml s) = s"
proof -
  let ?tag = "Then (Lit 60) (Then (Some_of (except [62])) (Lit 62))"
  have "matches ?tag (p, s', []) = []" if "set s' \<subseteq> set (escapeHtml s)" for p s'
  proof (cases s')
    case (Cons x xs)
    then have "x \<noteq> 60" using that escapeHtml_no_bracket by auto
    then show ?thesis using Cons by (simp add: Lit_def)
  qed (simp add: Lit_def)
  then have tags: "replace_matches ?tag (\<lambda>_. []) (escapeHtml s) = escapeHtml s" by (rule replace_matches_unmatched)
  define e1 where "e1 x = (if escaped x = codes ''&lt;'' then [60] else escaped x)" for x
  define e2 where "e2 x = (if e1 x = codes ''&gt;'' then [62] else e1 x)" for x
  have lt: "replace_matches (Word (codes ''&lt;'')) (\<lambda>_. [60]) (concat (map escaped s)) = concat (map e1 s)"
    unfolding replace_matches_def e1_def by (rule replace_word_pieces) (auto simp: escaped_def codes_def)
  have e1: "e1 x = (if x = 38 then codes ''&amp;'' else if x = 62 then codes ''&gt;'' else [x])" for x
    by (simp add: e1_def escaped_def codes_def)
  have gt: "replace_matches (Word (codes ''&gt;'')) (\<lambda>_. [62]) (concat (map e1 s)) = concat (map e2 s)"
    unfolding replace_matches_def e2_def by (rule replace_word_pieces) (auto simp: e1 codes_def)
  have e2: "e2 x = (if x = 38 then codes ''&amp;'' else [x])" for x
    by (simp add: e2_def e1 codes_def)
  have "replace_matches (Word (codes ''&amp;'')) (\<lambda>_. [38]) (concat (map e2 s))
      = concat (map (\<lambda>x. if e2 x = codes ''&amp;'' then [38] else e2 x) s)"
    unfolding replace_matches_def by (rule replace_word_pieces) (auto simp: e2 codes_def)
  also have "\<dots> = concat (map (\<lambda>x. [x]) s)" by (rule arg_cong [of _ _ concat], rule map_cong) (auto simp: e2 codes_def)
  also have "\<dots> = s" by (induction s) auto
  finally show ?thesis by (simp add: htmlToPlain_def tags) (simp add: escapeHtml_escaped lt gt)
qed

section \<open>The messages fit\<close>

lemma all_blank: "(\<forall>c \<in> set s. js_space c) \<longleftrightarrow> dropWhile js_space s = []"
  by simp

lemma shown_append: "length (dropWhile js_space (a @ b)) \<le> length a + length b"
  using length_dropWhile_le [of js_space "a @ b"] by simp

lemma shown_after_blank: "\<forall>c \<in> set a. js_space c \<Longrightarrow> length (dropWhile js_space (a @ b)) \<le> length b"
  by (simp add: dropWhile_append1 length_dropWhile_le)

definition split_ok :: "nat \<Rightarrow> split_state \<Rightarrow> bool" where
  "split_ok limit st \<longleftrightarrow> list_all (\<lambda>c. length (dropWhile js_space c) \<le> limit + 12) (sp_chunks st)
     \<and> length (dropWhile js_space (sp_current st)) \<le> limit + 6"

lemma flush_ok:
  assumes "split_ok limit st"
  shows "split_ok limit (flush st)
     \<and> ((\<forall>c \<in> set (sp_current (flush st)). js_space c) \<or> sp_current (flush st) = codes ''<pre>'')"
proof -
  have "length (dropWhile js_space (sp_current st @ codes ''</pre>'')) \<le> limit + 12"
    if "\<not> (\<forall>c \<in> set (sp_current st). js_space c)"
    using that assms by (auto simp: split_ok_def codes_def dropWhile_append)
  then show ?thesis
    using assms length_dropWhile_le [of js_space "codes ''<pre>''"]
    by (auto simp: flush_def split_ok_def codes_def)
qed

lemma add_piece_ok:
  assumes ok: "split_ok limit st" and piece: "length piece \<le> limit"
  shows "split_ok limit (add_piece limit piece st)"
proof -
  define st1 where "st1 = (if limit < length (sp_current st) + length piece + 1 then flush st else st)"
  define gap where "gap = (if sp_current st1 \<noteq> [] then [10::nat] else [])"
  have chunks: "sp_chunks (add_piece limit piece st) = sp_chunks st1"
    and current: "sp_current (add_piece limit piece st) = (sp_current st1 @ gap) @ piece"
    by (simp_all add: add_piece_def st1_def gap_def Let_def)
  have ok1: "split_ok limit st1" using ok flush_ok by (simp add: st1_def)
  have "length (dropWhile js_space ((sp_current st1 @ gap) @ piece)) \<le> limit + 6"
  proof (cases "limit < length (sp_current st) + length piece + 1")
    case False
    then show ?thesis using shown_append [of "sp_current st1 @ gap" piece] by (simp add: st1_def gap_def split: if_splits)
  next
    case True
    then consider "\<forall>c \<in> set (sp_current st1). js_space c" | "sp_current st1 = codes ''<pre>''"
      using flush_ok [OF ok] by (auto simp: st1_def)
    then show ?thesis
    proof cases
      case 1
      then have "\<forall>c \<in> set (sp_current st1 @ gap). js_space c" by (auto simp: gap_def js_space_def)
      from shown_after_blank [OF this, of piece] show ?thesis using piece by simp
    next
      case 2
      then show ?thesis using shown_append [of "sp_current st1 @ gap" piece] piece by (simp add: gap_def codes_def)
    qed
  qed
  then show ?thesis using ok1 by (simp add: split_ok_def chunks current)
qed

lemma fold_add_piece_ok:
  "list_all (\<lambda>p. length p \<le> limit) ps \<Longrightarrow> split_ok limit st \<Longrightarrow> split_ok limit (fold (add_piece limit) ps st)"
  by (induction ps arbitrary: st) (simp_all add: add_piece_ok)

lemma pieces_short: "0 < limit \<Longrightarrow> list_all (\<lambda>p. length p \<le> limit) (pieces limit line)"
  using length_chunks_of by (auto simp: pieces_def list_all_iff)

text \<open>C32: However long the answer, every message it is cut in fits in Telegram's 4096 characters once the blanks at its
  beginning, which Telegram drops, are left out: it has at most 3912, a \<open><pre>\<close> reopened and a \<open></pre>\<close> closed included.\<close>

theorem messages_fit:
  "list_all (\<lambda>chunk. length (dropWhile js_space chunk) \<le> TELEGRAM_CHUNK_LIMIT + 12) (splitForTelegram TELEGRAM_CHUNK_LIMIT html)"
proof (cases "length html \<le> TELEGRAM_CHUNK_LIMIT")
  case True
  then show ?thesis using length_dropWhile_le [of js_space html] by (simp add: splitForTelegram_def)
next
  case False
  define ps where "ps = concat (map (pieces TELEGRAM_CHUNK_LIMIT) (split_lines html))"
  define st where "st = fold (add_piece TELEGRAM_CHUNK_LIMIT) ps \<lparr> sp_chunks = [], sp_current = [], sp_inPre = False \<rparr>"
  have "list_all (\<lambda>p. length p \<le> TELEGRAM_CHUNK_LIMIT) ps"
    using pieces_short [of TELEGRAM_CHUNK_LIMIT] by (auto simp: ps_def list_all_iff TELEGRAM_CHUNK_LIMIT_def)
  then have "split_ok TELEGRAM_CHUNK_LIMIT st" unfolding st_def by (rule fold_add_piece_ok) (simp add: split_ok_def)
  moreover have "splitForTelegram TELEGRAM_CHUNK_LIMIT html
      = sp_chunks st @ (if \<forall>c \<in> set (sp_current st). js_space c then [] else [sp_current st])"
    using False by (simp add: splitForTelegram_def Let_def ps_def st_def)
  ultimately show ?thesis by (simp add: split_ok_def)
qed

end
