(* ===== verification/Telegram_Session.thy ===== *)
theory Telegram_Session
  imports Agent_Turn Telegram_Format
begin

text \<open>
  The conversation of the main bot (\<open>src/telegram/telegram-bot.service.ts\<close>): the rows of \<open>telegram_sessions\<close>, their
  opening from memory, their window, their closing, the handler of free text with a turn of the agent, and
  the rich answer with its fallback. Each call to Telegram is the function \<open>te_api\<close>, of the messages sent before
  and the message: \<open>None\<close>, or why it failed. The fixed sentences are the constructors of \<open>notice\<close>, with what is
  inserted in them. The memory service (its database and its models) is an argument.
\<close>

section \<open>Messages\<close>

datatype tg_fault = Refused nat string | Unreachable string

datatype tg_error = TgJin jin_error | TgApi tg_fault

datatype notice =
    ChatDisabled
  | InvalidAction
  | DeferredActions "(uuid \<times> string) list"
  | Problem tg_error
  | Usage string
  | Welcome_to_Jin
  | System_status
  | NoSession
  | SessionClosed
  | NoMemories
  | Memories "(string \<times> string) list"
  | MemoryProblem jin_error
  | NothingPending
  | PendingCount nat
  | PendingItem uuid string string "string option" "(string \<times> string) list"
  | NoSuchTask uuid
  | TaskDetails PendingApprovalRow
  | AwaitingSecondApproval uuid
  | ApprovedAndExecuted uuid json
  | TooEarlyWarning jin_error
  | ApprovalProblem jin_error
  | NotCompleted tg_error
  | RejectedDone uuid
  | RejectionProblem tg_error
  | ModeUsage
  | ModeDescription AutonomyMode "(int \<times> int) option" "string list"
  | ModeNeedsTwoApprovals AutonomyMode int uuid
  | BudgetReport int bool
  | KillSwitchIdle
  | KillSwitchReleased
  | OAuthAcknowledged
  | KillSwitchAlert
  | ChainLockedAlert
  | DailyBudgetAlert rat
  | OAuthAlert rat
  | EscalatedAlert string uuid
  | AbandonedAlert string uuid
  | StuckAlert string uuid
  | ModeChangedAlert string string string
  | ActionNotified string uuid string "string option"

datatype tg_message =
    Html codepoints
  | Plain codepoints
  | Markdown notice
  | Sentence notice
  | CallbackAnswer "notice option"

type_synonym tg_api = "tg_message list \<Rightarrow> tg_message \<Rightarrow> tg_fault option"

section \<open>Sessions\<close>

definition SESSION_INACTIVITY_MS :: int where "SESSION_INACTIVITY_MS = 30 * 60 * 1000"
definition MAX_SESSION_MESSAGES :: nat where "MAX_SESSION_MESSAGES = 30"
definition MAX_WINDOW_MESSAGES :: nat where "MAX_WINDOW_MESSAGES = 20"

datatype session_status = Active | Consolidated

type_synonym transcript = "(Role \<times> string) list"

record TelegramSessionRow =
  se_id :: uuid
  se_transcript :: transcript
  se_status :: session_status
  se_lastActivityAt :: timestamp

definition getActiveDbSession :: "TelegramSessionRow list \<Rightarrow> TelegramSessionRow option" where
  "getActiveDbSession rows = List.find (\<lambda>r. se_status r = Active) rows"

definition formatTranscriptForConsolidation :: "transcript \<Rightarrow> string" where
  "formatTranscriptForConsolidation tr =
     join [CHR 10, CHR 10] (map (\<lambda>(role, content). (if role = RUser then ''Usuario'' else ''Jin'') @ '': '' @ content) tr)"

definition consolidateAndCloseSession ::
  "'w services \<Rightarrow> timestamp \<Rightarrow> TelegramSessionRow \<Rightarrow> TelegramSessionRow list \<times> 'w \<Rightarrow> TelegramSessionRow list \<times> 'w" where
  "consolidateAndCloseSession sv now session st =
     (case st of (rows, w) \<Rightarrow>
        let full = formatTranscriptForConsolidation (se_transcript session);
            w1 = (if js_trim full \<noteq> [] then snd (sv_consolidate sv (se_id session) full w) else w)
        in (update_rows (\<lambda>r. se_id r = se_id session) (\<lambda>r. r\<lparr> se_status := Consolidated, se_lastActivityAt := now \<rparr>) rows, w1))"

definition MEMORY_HEADER :: string where "MEMORY_HEADER = ''[CONTEXTO DE MEMORIA REUTILIZABLE]''"

definition MEMORY_REPLY :: string where
  "MEMORY_REPLY = ''Entendido. Utilizar'' @ [CHR 0xE9] @ '' este contexto de memoria para guiar mis respuestas.''"

type_synonym 'w recall = "string \<Rightarrow> nat \<Rightarrow> 'w \<Rightarrow> (jin_error + (string \<times> string) list) \<times> 'w"

definition initial_transcript :: "jin_error + (string \<times> string) list \<Rightarrow> transcript" where
  "initial_transcript memories =
     (case memories of
        Inl _ \<Rightarrow> []
      | Inr ms \<Rightarrow>
          if ms = [] then []
          else [(RUser, MEMORY_HEADER @ '':'' @ [CHR 10] @ join [CHR 10] (map (\<lambda>(tipo, content). ''- ['' @ tipo @ ''] '' @ content) ms)),
                (RAssistant, MEMORY_REPLY)])"

definition is_stale :: "timestamp \<Rightarrow> TelegramSessionRow \<Rightarrow> bool" where
  "is_stale now session \<longleftrightarrow>
     now - se_lastActivityAt session > SESSION_INACTIVITY_MS \<or> MAX_SESSION_MESSAGES \<le> length (se_transcript session)"

record text_io =
  tx_now :: timestamp
  tx_closeNow :: timestamp
  tx_insertNow :: timestamp
  tx_updateNow :: timestamp
  tx_uuid :: uuid
  tx_turn :: turn_io

text \<open>The session of a text: the active one, or a new one when there is none or it is stale.\<close>

definition session_for_text ::
  "'w services \<Rightarrow> 'w recall \<Rightarrow> text_io \<Rightarrow> string \<Rightarrow> TelegramSessionRow list \<times> 'w
     \<Rightarrow> TelegramSessionRow \<times> TelegramSessionRow list \<times> 'w" where
  "session_for_text sv recall io msg st =
     (let found = getActiveDbSession (fst st);
          (found1, st1) = (case found of
              Some session \<Rightarrow> if is_stale (tx_now io) session
                then (None, consolidateAndCloseSession sv (tx_closeNow io) session st) else (Some session, st)
            | None \<Rightarrow> (None, st))
      in case found1 of
           Some session \<Rightarrow> (session, st1)
         | None \<Rightarrow>
             (case recall msg 5 (snd st1) of (memories, w2) \<Rightarrow>
                let created = \<lparr> se_id = tx_uuid io, se_transcript = initial_transcript memories, se_status = Active,
                                se_lastActivityAt = tx_insertNow io \<rparr>
                in (created, fst st1 @ [created], w2)))"

text \<open>The window given to the agent: the last messages, and the pair made from memory when the session starts with it.\<close>

definition last_n :: "nat \<Rightarrow> 'a list \<Rightarrow> 'a list" where
  "last_n n xs = drop (length xs - n) xs"

definition hasSyntheticMemory :: "transcript \<Rightarrow> bool" where
  "hasSyntheticMemory tr \<longleftrightarrow> 2 \<le> length tr \<and> prefix MEMORY_HEADER (snd (hd tr))"

definition windowTurns :: "transcript \<Rightarrow> transcript" where
  "windowTurns tr =
     (if hasSyntheticMemory tr then take 2 tr @ last_n MAX_WINDOW_MESSAGES (drop 2 tr) else last_n MAX_WINDOW_MESSAGES tr)"

section \<open>The state of the bot\<close>

record ('d, 'w) tg_world =
  tw_db :: 'd
  tw_world :: 'w
  tw_sessions :: "TelegramSessionRow list"
  tw_sent :: "tg_message list"
  tw_killNotified :: bool
  tw_thresholds :: "rat list"
  tw_thresholdDate :: string
  tw_oauthDate :: string
  tw_chainNotified :: bool

record ('d, 'w) tg_env =
  te_owner :: int
  te_api :: tg_api
  te_letnum :: "nat \<Rightarrow> bool"
  te_agent :: agent_env
  te_reg :: "'d executors"
  te_services :: "'w services"
  te_recall :: "'w recall"

definition say :: "('d, 'w) tg_env \<Rightarrow> tg_message \<Rightarrow> ('d, 'w) tg_world \<Rightarrow> (tg_error + unit) \<times> ('d, 'w) tg_world" where
  "say env m s =
     ((case te_api env (tw_sent s) m of None \<Rightarrow> Inr () | Some f \<Rightarrow> Inl (TgApi f)), s\<lparr> tw_sent := tw_sent s @ [m] \<rparr>)"

fun say_chunks :: "('d, 'w) tg_env \<Rightarrow> codepoints list \<Rightarrow> ('d, 'w) tg_world \<Rightarrow> (tg_error + unit) \<times> ('d, 'w) tg_world" where
  "say_chunks env [] s = (Inr (), s)"
| "say_chunks env (chunk # chunks) s =
     (case say env (Html chunk) s of
        (Inr _, s1) \<Rightarrow> say_chunks env chunks s1
      | (Inl e, s1) \<Rightarrow>
          (case e of
             TgApi (Refused code description) \<Rightarrow>
               if code = 400 \<and> sublist ''can't parse entities'' description
               then bind_result (say env (Plain (htmlToPlain chunk)) s1) (\<lambda>_. say_chunks env chunks)
               else (Inl e, s1)
           | _ \<Rightarrow> (Inl e, s1)))"

definition rich_html :: "('d, 'w) tg_env \<Rightarrow> codepoints \<Rightarrow> codepoints \<Rightarrow> codepoints" where
  "rich_html env markdown footer =
     markdownToTelegramHtml (te_letnum env) markdown
       @ (if footer \<noteq> [] then [10, 10] @ tagged ''i'' (escapeHtml footer) else [])"

definition replyRich :: "('d, 'w) tg_env \<Rightarrow> codepoints \<Rightarrow> codepoints \<Rightarrow> ('d, 'w) tg_world \<Rightarrow> (tg_error + unit) \<times> ('d, 'w) tg_world" where
  "replyRich env markdown footer s = say_chunks env (splitForTelegram TELEGRAM_CHUNK_LIMIT (to_units (rich_html env markdown footer))) s"

section \<open>Free text\<close>

definition record_turn :: "uuid \<Rightarrow> timestamp \<Rightarrow> transcript \<Rightarrow> TelegramSessionRow list \<Rightarrow> TelegramSessionRow list" where
  "record_turn sid now tr = update_rows (\<lambda>r. se_id r = sid) (\<lambda>r. r\<lparr> se_transcript := tr, se_lastActivityAt := now \<rparr>)"

definition turn_input_of :: "TelegramSessionRow \<Rightarrow> string \<Rightarrow> AgentTurnInput" where
  "turn_input_of session msg =
     \<lparr> in_sessionId = se_id session, in_objective = msg,
       in_history = Some (map (\<lambda>(role, content). \<lparr> m_role = role, m_content = CText content \<rparr>) (windowTurns (se_transcript session))),
       in_allowedTools = None, in_actorLabel = None, in_onProgress = False \<rparr>"

text \<open>The body of the \<open>try\<close>, and the handler with its \<open>catch\<close>.\<close>

definition converse :: "('s budget_db_scheme, 'w) tg_env \<Rightarrow> text_io \<Rightarrow> string \<Rightarrow> ('s budget_db_scheme, 'w) tg_world
    \<Rightarrow> (tg_error + unit) \<times> ('s budget_db_scheme, 'w) tg_world" where
  "converse env io msg s =
     (case session_for_text (te_services env) (te_recall env) io msg (tw_sessions s, tw_world s) of (session, rows1, w1) \<Rightarrow>
       (case runTurn (te_agent env) (te_reg env) (te_services env) (tx_turn io) (turn_input_of session msg) (tw_db s, w1) of
          (res, _, db2, w2) \<Rightarrow>
            let s2 = s\<lparr> tw_db := db2, tw_world := w2, tw_sessions := rows1 \<rparr> in
            (case res of
               Inl e \<Rightarrow> (Inl (TgJin e), s2)
             | Inr r \<Rightarrow>
                 let s3 = s2\<lparr> tw_sessions := record_turn (se_id session) (tx_updateNow io)
                                (se_transcript session @ [(RUser, msg), (RAssistant, tr_finalResponse r)]) rows1 \<rparr>
                 in bind_result (replyRich env (codes (tr_finalResponse r)) (modelFooter (Some (map codes (tr_modelsUsed r)))) s3)
                      (\<lambda>_ s4. if tr_pendingApprovals r \<noteq> [] then say env (Markdown (DeferredActions (tr_pendingApprovals r))) s4
                              else (Inr (), s4)))))"

definition on_free_text :: "('s budget_db_scheme, 'w) tg_env \<Rightarrow> text_io \<Rightarrow> string \<Rightarrow> ('s budget_db_scheme, 'w) tg_world
    \<Rightarrow> (tg_error + unit) \<times> ('s budget_db_scheme, 'w) tg_world" where
  "on_free_text env io msg s =
     (if prefix ''/'' msg then (Inr (), s)
      else if \<not> isIntegrationEnabled (ag_flags (te_agent env)) (Some Itelegram) then say env (Sentence ChatDisabled) s
      else (case converse env io msg s of
          (Inr u, s1) \<Rightarrow> (Inr u, s1)
        | (Inl e, s1) \<Rightarrow> say env (Sentence (Problem e)) s1))"

definition on_endsession :: "('d, 'w) tg_env \<Rightarrow> timestamp \<Rightarrow> ('d, 'w) tg_world \<Rightarrow> (tg_error + unit) \<times> ('d, 'w) tg_world" where
  "on_endsession env now s =
     (case getActiveDbSession (tw_sessions s) of
        None \<Rightarrow> say env (Sentence NoSession) s
      | Some session \<Rightarrow>
          (case consolidateAndCloseSession (te_services env) now session (tw_sessions s, tw_world s) of (rows1, w1) \<Rightarrow>
             say env (Markdown SessionClosed) (s\<lparr> tw_sessions := rows1, tw_world := w1 \<rparr>)))"

definition checkSessionInactivity :: "('d, 'w) tg_env \<Rightarrow> timestamp \<Rightarrow> timestamp \<Rightarrow> ('d, 'w) tg_world \<Rightarrow> ('d, 'w) tg_world" where
  "checkSessionInactivity env now closeNow s =
     (case getActiveDbSession (tw_sessions s) of
        None \<Rightarrow> s
      | Some session \<Rightarrow>
          if now - se_lastActivityAt session > SESSION_INACTIVITY_MS
          then (case consolidateAndCloseSession (te_services env) closeNow session (tw_sessions s, tw_world s) of (rows1, w1) \<Rightarrow>
              s\<lparr> tw_sessions := rows1, tw_world := w1 \<rparr>)
          else s)"

section \<open>What the messages leave alone\<close>

lemma say_keeps [simp]:
  "tw_sessions (snd (say env m s)) = tw_sessions s" "tw_db (snd (say env m s)) = tw_db s" "tw_world (snd (say env m s)) = tw_world s"
  by (simp_all add: say_def)

lemma say_chunks_sessions: "tw_sessions (snd (say_chunks env chunks s)) = tw_sessions s"
proof (induction chunks arbitrary: s)
  case (Cons chunk chunks)
  obtain r s1 where r: "say env (Html chunk) s = (r, s1)" by (cases "say env (Html chunk) s")
  have s1: "tw_sessions s1 = tw_sessions s" using say_keeps(1) [of env "Html chunk" s] by (simp add: r)
  obtain r2 s2 where r2: "say env (Plain (htmlToPlain chunk)) s1 = (r2, s2)" by (cases "say env (Plain (htmlToPlain chunk)) s1")
  have s2: "tw_sessions s2 = tw_sessions s1" using say_keeps(1) [of env "Plain (htmlToPlain chunk)" s1] by (simp add: r2)
  show ?case using Cons.IH s1 s2 by (cases r; cases r2) (auto simp: r r2 split: tg_error.splits tg_fault.splits)
qed simp

section \<open>One session at a time, of bounded length\<close>

lemma window_bounded: "length (windowTurns tr) \<le> MAX_WINDOW_MESSAGES + 2"
  by (auto simp: windowTurns_def last_n_def MAX_WINDOW_MESSAGES_def min_def)

definition sessions_ok :: "TelegramSessionRow list \<Rightarrow> bool" where
  "sessions_ok rows \<longleftrightarrow> length (filter (\<lambda>r. se_status r = Active) rows) \<le> 1
     \<and> list_all (\<lambda>r. length (se_transcript r) \<le> MAX_SESSION_MESSAGES + 1) rows"

lemma one_active:
  assumes "length (filter (\<lambda>r. se_status r = Active) rows) \<le> 1" "r \<in> set rows" "se_status r = Active" "q \<in> set rows" "se_status q = Active"
  shows "r = q"
proof -
  have "r \<in> set (filter (\<lambda>r. se_status r = Active) rows)" "q \<in> set (filter (\<lambda>r. se_status r = Active) rows)" using assms by simp_all
  then show ?thesis using assms(1) by (cases "filter (\<lambda>r. se_status r = Active) rows") auto
qed

lemma update_sessions_ok:
  assumes "sessions_ok rows" "\<And>r. se_status (f r) = Active \<Longrightarrow> se_status r = Active"
    and "\<And>r. r \<in> set rows \<Longrightarrow> length (se_transcript (f r)) \<le> MAX_SESSION_MESSAGES + 1"
  shows "sessions_ok (update_rows k f rows)"
proof -
  have "length (filter (\<lambda>r. se_status r = Active) (update_rows k f rows)) \<le> length (filter (\<lambda>r. se_status r = Active) rows)"
    using assms(2) by (induction rows) (auto simp: update_rows_def)
  moreover have "list_all (\<lambda>r. length (se_transcript r) \<le> MAX_SESSION_MESSAGES + 1) (update_rows k f rows)"
    using assms(1,3) by (auto simp: sessions_ok_def update_rows_def list_all_iff)
  ultimately show ?thesis using assms(1) by (simp add: sessions_ok_def)
qed

lemma active_found:
  "getActiveDbSession rows = Some r \<Longrightarrow> r \<in> set rows \<and> se_status r = Active"
  "getActiveDbSession rows = None \<Longrightarrow> filter (\<lambda>r. se_status r = Active) rows = []"
  by (auto simp: getActiveDbSession_def find_Some_iff find_None_iff filter_empty_conv)

lemma close_sessions:
  assumes "sessions_ok rows" "getActiveDbSession rows = Some session"
  shows "sessions_ok (fst (consolidateAndCloseSession sv now session (rows, w)))
     \<and> filter (\<lambda>r. se_status r = Active) (fst (consolidateAndCloseSession sv now session (rows, w))) = []"
proof
  note found = active_found(1) [OF assms(2)]
  show "sessions_ok (fst (consolidateAndCloseSession sv now session (rows, w)))"
    unfolding consolidateAndCloseSession_def Let_def prod.case fst_conv
    using assms(1) by (intro update_sessions_ok) (auto simp: sessions_ok_def list_all_iff)
  have "se_status r \<noteq> Active" if r: "r \<in> set (fst (consolidateAndCloseSession sv now session (rows, w)))" for r
  proof -
    from r obtain q where q: "q \<in> set rows"
        "r = (if se_id q = se_id session then q\<lparr> se_status := Consolidated, se_lastActivityAt := now \<rparr> else q)"
      by (auto simp: consolidateAndCloseSession_def Let_def update_rows_def)
    show ?thesis
    proof
      assume "se_status r = Active"
      then have "se_status q = Active" "se_id q \<noteq> se_id session" using q(2) by (auto split: if_splits)
      then show False using one_active [of rows q session] assms(1) found q(1) by (auto simp: sessions_ok_def)
    qed
  qed
  then show "filter (\<lambda>r. se_status r = Active) (fst (consolidateAndCloseSession sv now session (rows, w))) = []"
    by (simp add: filter_empty_conv)
qed

lemma initial_transcript_length: "length (initial_transcript ms) \<le> 2"
  by (auto simp: initial_transcript_def split: sum.splits)

lemma session_for_text_ok:
  assumes "sessions_ok rows" "session_for_text sv recall io msg (rows, w) = (session, rows1, w1)"
  shows "sessions_ok rows1 \<and> length (se_transcript session) < MAX_SESSION_MESSAGES"
proof -
  have fresh: "sessions_ok (rs @ [\<lparr> se_id = i, se_transcript = initial_transcript ms, se_status = Active, se_lastActivityAt = t \<rparr>])"
    if "sessions_ok rs" "filter (\<lambda>r. se_status r = Active) rs = []" for rs i ms t
    using that initial_transcript_length [of ms] by (simp add: sessions_ok_def MAX_SESSION_MESSAGES_def)
  have short: "length (initial_transcript ms) < MAX_SESSION_MESSAGES" for ms
    using initial_transcript_length [of ms] by (simp add: MAX_SESSION_MESSAGES_def)
  show ?thesis
  proof (cases "getActiveDbSession rows")
    case None
    then show ?thesis using assms fresh [OF assms(1) active_found(2) [OF None]] short
      by (auto simp: session_for_text_def Let_def split: prod.splits)
  next
    case (Some found)
    show ?thesis
    proof (cases "is_stale (tx_now io) found")
      case True
      obtain rs ws where closed: "consolidateAndCloseSession sv (tx_closeNow io) found (rows, w) = (rs, ws)"
        by (cases "consolidateAndCloseSession sv (tx_closeNow io) found (rows, w)")
      have "sessions_ok rs" "filter (\<lambda>r. se_status r = Active) rs = []"
        using close_sessions [OF assms(1) Some, of sv "tx_closeNow io" w] by (simp_all add: closed)
      then show ?thesis using assms(2) Some True fresh short
        by (auto simp: session_for_text_def Let_def closed split: prod.splits)
    next
      case False
      then have "length (se_transcript found) < MAX_SESSION_MESSAGES" by (simp add: is_stale_def)
      then show ?thesis using assms Some False by (simp add: session_for_text_def Let_def)
    qed
  qed
qed

lemma replyRich_sessions: "tw_sessions (snd (replyRich env md footer s)) = tw_sessions s"
  by (simp add: replyRich_def say_chunks_sessions)

lemma converse_ok:
  assumes "sessions_ok (tw_sessions s)"
  shows "sessions_ok (tw_sessions (snd (converse env io msg s)))"
proof -
  obtain session rows1 w1 where st: "session_for_text (te_services env) (te_recall env) io msg (tw_sessions s, tw_world s) = (session, rows1, w1)"
    by (cases "session_for_text (te_services env) (te_recall env) io msg (tw_sessions s, tw_world s)")
  note ok = session_for_text_ok [OF assms st]
  obtain res ev db2 w2 where turn: "runTurn (te_agent env) (te_reg env) (te_services env) (tx_turn io) (turn_input_of session msg) (tw_db s, w1)
      = (res, ev, db2, w2)"
    by (cases "runTurn (te_agent env) (te_reg env) (te_services env) (tx_turn io) (turn_input_of session msg) (tw_db s, w1)")
  show ?thesis
  proof (cases res)
    case (Inl e)
    then show ?thesis using ok by (simp add: converse_def st turn Let_def)
  next
    case (Inr r)
    define rows3 where "rows3 = record_turn (se_id session) (tx_updateNow io)
      (se_transcript session @ [(RUser, msg), (RAssistant, tr_finalResponse r)]) rows1"
    have "sessions_ok rows3" unfolding rows3_def record_turn_def
      using ok by (intro update_sessions_ok) auto
    moreover have "tw_sessions (snd (converse env io msg s)) = rows3"
    proof -
      define s3 where "s3 = s\<lparr> tw_db := db2, tw_world := w2, tw_sessions := rows3 \<rparr>"
      obtain q s4 where q: "replyRich env (codes (tr_finalResponse r)) (modelFooter (Some (map codes (tr_modelsUsed r)))) s3 = (q, s4)"
        by (cases "replyRich env (codes (tr_finalResponse r)) (modelFooter (Some (map codes (tr_modelsUsed r)))) s3")
      have "tw_sessions s4 = tw_sessions s3"
        using replyRich_sessions [of env "codes (tr_finalResponse r)" "modelFooter (Some (map codes (tr_modelsUsed r)))" s3]
        by (simp add: q)
      then have "tw_sessions s4 = rows3" by (simp add: s3_def)
      then show ?thesis using Inr q
        by (cases q) (simp_all add: converse_def st turn Let_def rows3_def [symmetric] s3_def [symmetric])
    qed
    ultimately show ?thesis by simp
  qed
qed

datatype session_op = FreeText text_io string | EndSession timestamp | InactivityCheck timestamp timestamp

fun session_step :: "('s budget_db_scheme, 'w) tg_env \<Rightarrow> session_op \<Rightarrow> ('s budget_db_scheme, 'w) tg_world \<Rightarrow> ('s budget_db_scheme, 'w) tg_world" where
  "session_step env (FreeText io msg) s = snd (on_free_text env io msg s)"
| "session_step env (EndSession now) s = snd (on_endsession env now s)"
| "session_step env (InactivityCheck now closeNow) s = checkSessionInactivity env now closeNow s"

lemma session_step_ok:
  assumes "sessions_ok (tw_sessions s)"
  shows "sessions_ok (tw_sessions (session_step env c s))"
proof (cases c)
  case (FreeText io msg)
  then show ?thesis using assms converse_ok [OF assms, of env io msg]
    by (auto simp: on_free_text_def split: prod.splits sum.splits)
next
  case (EndSession now)
  show ?thesis
  proof (cases "getActiveDbSession (tw_sessions s)")
    case (Some session)
    then show ?thesis using EndSession close_sessions [OF assms Some, of "te_services env" now "tw_world s"]
      by (auto simp: on_endsession_def split: prod.splits)
  qed (use assms EndSession in \<open>simp add: on_endsession_def\<close>)
next
  case (InactivityCheck now closeNow)
  show ?thesis
  proof (cases "getActiveDbSession (tw_sessions s)")
    case (Some session)
    then show ?thesis using assms InactivityCheck close_sessions [OF assms Some, of "te_services env" closeNow "tw_world s"]
      by (auto simp: checkSessionInactivity_def split: prod.splits)
  qed (use assms InactivityCheck in \<open>simp add: checkSessionInactivity_def\<close>)
qed


end
