(* ===== verification/Telegram_Bot.thy ===== *)
theory Telegram_Bot
  imports Telegram_Session Hitl_Approvals Autonomy Budget
begin

text \<open>
  The main bot (\<open>src/telegram/telegram-bot.service.ts\<close>): its commands, its buttons, the approvals and rejections
  of the owner, the alerts and their memory of what was already said, and the check of the webhook
  (\<open>telegram-webhook.controller.ts\<close>). The commands come parsed, as the library gives them; the days since the last
  refresh of Google's token, and the acknowledgement of one, are arguments.
\<close>

section \<open>Approvals and rejections\<close>

definition reported :: "tg_error \<Rightarrow> bool" where
  "reported e \<longleftrightarrow> (case e of
      TgJin (PendingApprovalNotFoundError _) \<Rightarrow> True
    | TgJin (ApprovalAlreadyResolvedError _) \<Rightarrow> True
    | _ \<Rightarrow> False)"

definition jin_part :: "tg_error \<Rightarrow> jin_error" where
  "jin_part e = (case e of TgJin j \<Rightarrow> j | TgApi _ \<Rightarrow> OtherError [])"

text \<open>The \<open>try\<close> holds the resolution and the answer that tells of it.\<close>

definition processApproval :: "('s hitl_db_scheme, 'w) tg_env \<Rightarrow> exec_io \<Rightarrow> uuid \<Rightarrow> ('s hitl_db_scheme, 'w) tg_world
    \<Rightarrow> (tg_error + unit) \<times> ('s hitl_db_scheme, 'w) tg_world" where
  "processApproval env io requestId s =
     (case resolveAndExecute (ag_sha (te_agent env)) (te_reg env) io requestId ''owner'' (tw_db s) of (res, db1) \<Rightarrow>
        let s1 = s\<lparr> tw_db := db1 \<rparr> in
        (case (case res of
             Inl e \<Rightarrow> (Inl (TgJin e), s1)
           | Inr RAwaitingSecond \<Rightarrow> say env (Markdown (AwaitingSecondApproval requestId)) s1
           | Inr (RResolved _ result) \<Rightarrow> say env (Markdown (ApprovedAndExecuted requestId result)) s1) of
           (Inr u, s2) \<Rightarrow> (Inr u, s2)
         | (Inl err, s2) \<Rightarrow>
             (case err of
                TgJin (SecondApprovalTooEarlyError i t) \<Rightarrow> say env (Sentence (TooEarlyWarning (SecondApprovalTooEarlyError i t))) s2
              | _ \<Rightarrow> if reported err then say env (Sentence (ApprovalProblem (jin_part err))) s2
                    else say env (Sentence (NotCompleted err)) s2)))"

definition processRejection :: "('s hitl_db_scheme, 'w) tg_env \<Rightarrow> reject_io \<Rightarrow> uuid \<Rightarrow> ('s hitl_db_scheme, 'w) tg_world
    \<Rightarrow> (tg_error + unit) \<times> ('s hitl_db_scheme, 'w) tg_world" where
  "processRejection env io requestId s =
     (case resolveRejection (ag_sha (te_agent env)) io requestId ''owner'' (tw_db s) of (res, db1) \<Rightarrow>
        let s1 = s\<lparr> tw_db := db1 \<rparr> in
        (case (case res of
             Inl e \<Rightarrow> (Inl (TgJin e), s1)
           | Inr _ \<Rightarrow> say env (Markdown (RejectedDone requestId)) s1) of
           (Inr u, s2) \<Rightarrow> (Inr u, s2)
         | (Inl err, s2) \<Rightarrow>
             if reported err then say env (Sentence (ApprovalProblem (jin_part err))) s2
             else say env (Sentence (RejectionProblem err)) s2))"

definition pending_item :: "PendingApprovalRow \<Rightarrow> notice" where
  "pending_item r = PendingItem (p_requestId r) (p_toolName r) (p_level r) (p_planSummary r)
     [(''approve'', ''approve:'' @ p_requestId r), (''reject'', ''reject:'' @ p_requestId r), (''details'', ''details:'' @ p_requestId r)]"

fun say_all :: "('d, 'w) tg_env \<Rightarrow> tg_message list \<Rightarrow> ('d, 'w) tg_world \<Rightarrow> (tg_error + unit) \<times> ('d, 'w) tg_world" where
  "say_all env [] s = (Inr (), s)"
| "say_all env (m # ms) s = bind_result (say env m s) (\<lambda>_. say_all env ms)"

definition handleTasksCommand :: "('s hitl_db_scheme, 'w) tg_env \<Rightarrow> ('s hitl_db_scheme, 'w) tg_world
    \<Rightarrow> (tg_error + unit) \<times> ('s hitl_db_scheme, 'w) tg_world" where
  "handleTasksCommand env s =
     (let pendingList = pending_approvals (tw_db s) in
      if pendingList = [] then say env (Sentence NothingPending) s
      else say_all env (Markdown (PendingCount (length pendingList)) # map (\<lambda>r. Markdown (pending_item r)) pendingList) s)"

definition showTaskDetails :: "('s hitl_db_scheme, 'w) tg_env \<Rightarrow> uuid \<Rightarrow> ('s hitl_db_scheme, 'w) tg_world
    \<Rightarrow> (tg_error + unit) \<times> ('s hitl_db_scheme, 'w) tg_world" where
  "showTaskDetails env requestId s =
     (case getPending requestId (tw_db s) of
        None \<Rightarrow> say env (Markdown (NoSuchTask requestId)) s
      | Some r \<Rightarrow> say env (Markdown (TaskDetails r)) s)"

section \<open>The other commands\<close>

text \<open>Hours and minutes of the seconds that are left.\<close>

definition describeAutonomyMode :: "('s policy_db_scheme, 'w) tg_env \<Rightarrow> timestamp \<Rightarrow> ('s policy_db_scheme, 'w) tg_world \<Rightarrow> notice" where
  "describeAutonomyMode env now s =
     (let d = describe (ag_modes (te_agent env)) now (tw_db s) in
      ModeDescription (ad_mode d)
        (if ad_mode d = Supervised then None else map_option (\<lambda>r. (r div 3600, r mod 3600 div 60)) (ad_remainingSeconds d))
        (if ad_mode d = SemiAuto then ad_guardedInSemiAuto d else []))"

record 'd mode_bot_io =
  mb_request :: request_io
  mb_describe :: timestamp
  mb_inherited :: "'d \<Rightarrow> (jin_error + ModeChangeResult) \<times> 'd"

text \<open>\<open>mb_inherited\<close> is what the change to a value inherited by the table of names would do.\<close>

definition on_mode :: "('s policy_db_scheme, 'w) tg_env \<Rightarrow> 's policy_db_scheme mode_bot_io \<Rightarrow> string \<Rightarrow> ('s policy_db_scheme, 'w) tg_world
    \<Rightarrow> (tg_error + unit) \<times> ('s policy_db_scheme, 'w) tg_world" where
  "on_mode env io args s =
     (case parseModeCommand (Some args) of
        CmdInvalid \<Rightarrow> say env (Sentence ModeUsage) s
      | CmdStatus \<Rightarrow> say env (Sentence (describeAutonomyMode env (mb_describe io) s)) s
      | CmdChange target hours \<Rightarrow>
          (case (case target of
               AliasMode m \<Rightarrow> requestModeChange (ag_sha (te_agent env)) (ag_modes (te_agent env)) (mb_request io) m hours ''owner:telegram'' (tw_db s)
             | AliasInherited _ \<Rightarrow> mb_inherited io (tw_db s)) of (res, db1) \<Rightarrow>
             let s1 = s\<lparr> tw_db := db1 \<rparr> in
             (case res of
                Inl e \<Rightarrow> (Inl (TgJin e), s1)
              | Inr (MApplied _ _) \<Rightarrow> say env (Sentence (describeAutonomyMode env (mb_describe io) s1)) s1
              | Inr (MPendingApproval requestId mode h) \<Rightarrow> say env (Sentence (ModeNeedsTwoApprovals mode h requestId)) s1)))"

definition on_budget :: "('s budget_db_scheme, 'w) tg_env \<Rightarrow> timestamp \<Rightarrow> ('s budget_db_scheme, 'w) tg_world
    \<Rightarrow> (tg_error + unit) \<times> ('s budget_db_scheme, 'w) tg_world" where
  "on_budget env now s =
     (let g = ag_guard (te_agent env);
          ratio = getDailyUsageRatio (ge_budget g) (ge_tz g) now (tw_db s)
      in say env (Markdown (BudgetReport (min 999 \<lfloor>ratio * 100 + 1 / 2\<rfloor>) (isActive (tw_db s)))) s)"

definition on_unpause :: "('s budget_db_scheme, 'w) tg_env \<Rightarrow> uuid \<Rightarrow> audit_io \<Rightarrow> ('s budget_db_scheme, 'w) tg_world
    \<Rightarrow> (tg_error + unit) \<times> ('s budget_db_scheme, 'w) tg_world" where
  "on_unpause env new_id io s =
     (if \<not> isActive (tw_db s) then say env (Sentence KillSwitchIdle) s
      else (case recordApproval (ag_sha (te_agent env)) io new_id ''owner'' ''unpause'' ''n/a'' (unpause (tw_db s)) of
          (Inl e, db1) \<Rightarrow> (Inl (TgJin e), s\<lparr> tw_db := db1 \<rparr>)
        | (Inr _, db1) \<Rightarrow> say env (Sentence KillSwitchReleased) (s\<lparr> tw_db := db1, tw_killNotified := False \<rparr>)))"

definition on_oauth_refreshed :: "('s audit_db_scheme, 'w) tg_env \<Rightarrow> ('w \<Rightarrow> (jin_error + unit) \<times> 'w) \<Rightarrow> uuid \<Rightarrow> audit_io
    \<Rightarrow> ('s audit_db_scheme, 'w) tg_world \<Rightarrow> (tg_error + unit) \<times> ('s audit_db_scheme, 'w) tg_world" where
  "on_oauth_refreshed env updateLastRefreshedAt new_id io s =
     (case updateLastRefreshedAt (tw_world s) of
        (Inl e, w1) \<Rightarrow> (Inl (TgJin e), s\<lparr> tw_world := w1 \<rparr>)
      | (Inr _, w1) \<Rightarrow>
          (case recordApproval (ag_sha (te_agent env)) io new_id ''owner'' ''google-oauth-refresh-ack'' ''n/a'' (tw_db s) of
             (Inl e, db1) \<Rightarrow> (Inl (TgJin e), s\<lparr> tw_world := w1, tw_db := db1 \<rparr>)
           | (Inr _, db1) \<Rightarrow> say env (Sentence OAuthAcknowledged) (s\<lparr> tw_world := w1, tw_db := db1 \<rparr>)))"

definition on_memory :: "('d, 'w) tg_env \<Rightarrow> string \<Rightarrow> ('d, 'w) tg_world \<Rightarrow> (tg_error + unit) \<times> ('d, 'w) tg_world" where
  "on_memory env args s =
     (let query = js_trim args in
      if query = [] then say env (Markdown (Usage ''/memory'')) s
      else (case te_recall env query 5 (tw_world s) of (res, w1) \<Rightarrow>
        let s1 = s\<lparr> tw_world := w1 \<rparr> in
        (case res of
           Inl e \<Rightarrow> say env (Sentence (MemoryProblem e)) s1
         | Inr ms \<Rightarrow>
             (case say env (Markdown (if ms = [] then NoMemories else Memories ms)) s1 of
                (Inr u, s2) \<Rightarrow> (Inr u, s2)
              | (Inl e, s2) \<Rightarrow> say env (Sentence (Problem e)) s2))))"

section \<open>Updates\<close>

datatype 'd command =
    CStart | CStatus | CTasks
  | CApprove string exec_io
  | CReject string reject_io
  | CMode string "'d mode_bot_io"
  | CBudget timestamp
  | CUnpause uuid audit_io
  | CEndSession timestamp
  | CMemory string

datatype 'd tg_update =
    Command "'d command"
  | OAuthCommand uuid audit_io
  | Callback string exec_io reject_io
  | FreeMessage string text_io

text \<open>\<open>split(':')\<close> and the first two parts.\<close>

fun split_colon :: "string \<Rightarrow> string list" where
  "split_colon [] = [[]]"
| "split_colon (c # s) = (if c = CHR '':'' then [] # split_colon s
     else (case split_colon s of w # ws \<Rightarrow> (c # w) # ws | [] \<Rightarrow> [[c]]))"

definition on_callback :: "('s hitl_db_scheme, 'w) tg_env \<Rightarrow> string \<Rightarrow> exec_io \<Rightarrow> reject_io \<Rightarrow> ('s hitl_db_scheme, 'w) tg_world
    \<Rightarrow> (tg_error + unit) \<times> ('s hitl_db_scheme, 'w) tg_world" where
  "on_callback env cdata xio rio s =
     (case split_colon cdata of
        action # requestId # _ \<Rightarrow>
          if requestId = [] then say env (CallbackAnswer (Some InvalidAction)) s
          else if action = ''approve'' then bind_result (say env (CallbackAnswer None) s) (\<lambda>_. processApproval env xio requestId)
          else if action = ''reject'' then bind_result (say env (CallbackAnswer None) s) (\<lambda>_. processRejection env rio requestId)
          else if action = ''details'' then bind_result (say env (CallbackAnswer None) s) (\<lambda>_. showTaskDetails env requestId)
          else (Inr (), s)
      | _ \<Rightarrow> say env (CallbackAnswer (Some InvalidAction)) s)"

fun on_command :: "('s budget_db_scheme, 'w) tg_env \<Rightarrow> 's budget_db_scheme command \<Rightarrow> ('s budget_db_scheme, 'w) tg_world
    \<Rightarrow> (tg_error + unit) \<times> ('s budget_db_scheme, 'w) tg_world" where
  "on_command env CStart s = say env (Markdown Welcome_to_Jin) s"
| "on_command env CStatus s = say env (Markdown System_status) s"
| "on_command env CTasks s = handleTasksCommand env s"
| "on_command env (CApprove args io) s =
     (if js_trim args = [] then say env (Markdown (Usage ''/approve'')) s else processApproval env io (js_trim args) s)"
| "on_command env (CReject args io) s =
     (if js_trim args = [] then say env (Markdown (Usage ''/reject'')) s else processRejection env io (js_trim args) s)"
| "on_command env (CMode args io) s = on_mode env io args s"
| "on_command env (CBudget now) s = on_budget env now s"
| "on_command env (CUnpause i io) s = on_unpause env i io s"
| "on_command env (CEndSession now) s = on_endsession env now s"
| "on_command env (CMemory args) s = on_memory env args s"

definition handle_tg_update :: "('s budget_db_scheme, 'w) tg_env \<Rightarrow> ('w \<Rightarrow> (jin_error + unit) \<times> 'w) \<Rightarrow> int option
    \<Rightarrow> 's budget_db_scheme tg_update \<Rightarrow> ('s budget_db_scheme, 'w) tg_world \<Rightarrow> (tg_error + unit) \<times> ('s budget_db_scheme, 'w) tg_world" where
  "handle_tg_update env ack chat u s =
     (if chat \<noteq> Some (te_owner env) then (Inr (), s)
      else (case u of
          Command c \<Rightarrow> on_command env c s
        | OAuthCommand i io \<Rightarrow> on_oauth_refreshed env ack i io s
        | Callback cdata xio rio \<Rightarrow> on_callback env cdata xio rio s
        | FreeMessage msg io \<Rightarrow> on_free_text env io msg s))"

definition validateWebhookSecret :: "string \<Rightarrow> string option \<Rightarrow> bool" where
  "validateWebhookSecret secret header = (header = Some secret)"

text \<open>The library wraps whatever a handler throws in an error of its own.\<close>

definition handleWebhook :: "('s budget_db_scheme, 'w) tg_env \<Rightarrow> string \<Rightarrow> ('w \<Rightarrow> (jin_error + unit) \<times> 'w) \<Rightarrow> string option \<Rightarrow> int option
    \<Rightarrow> 's budget_db_scheme tg_update \<Rightarrow> ('s budget_db_scheme, 'w) tg_world \<Rightarrow> (thrown + unit) \<times> ('s budget_db_scheme, 'w) tg_world" where
  "handleWebhook env secret ack header chat u s =
     (if \<not> validateWebhookSecret secret header then (Inl (THttp 401 ''UnauthorizedException''), s)
      else (case handle_tg_update env ack chat u s of
          (Inl _, s1) \<Rightarrow> (Inl (TUnknown None None), s1)
        | (Inr _, s1) \<Rightarrow> (Inr (), s1)))"

section \<open>Alerts\<close>

definition checkKillSwitchAlert :: "('s budget_db_scheme, 'w) tg_env \<Rightarrow> ('s budget_db_scheme, 'w) tg_world
    \<Rightarrow> (tg_error + unit) \<times> ('s budget_db_scheme, 'w) tg_world" where
  "checkKillSwitchAlert env s =
     (let active = isActive (tw_db s) in
      case (if active \<and> \<not> tw_killNotified s then say env (Markdown KillSwitchAlert) s else (Inr (), s)) of
        (Inl e, s1) \<Rightarrow> (Inl e, s1)
      | (Inr _, s1) \<Rightarrow> (Inr (), s1\<lparr> tw_killNotified := active \<rparr>))"

definition DAILY_ALERT_THRESHOLDS_bot :: "rat list" where
  "DAILY_ALERT_THRESHOLDS_bot = [8 / 10, 1]"

fun alert_thresholds :: "('d, 'w) tg_env \<Rightarrow> rat \<Rightarrow> rat list \<Rightarrow> ('d, 'w) tg_world \<Rightarrow> (tg_error + unit) \<times> ('d, 'w) tg_world" where
  "alert_thresholds env ratio [] s = (Inr (), s)"
| "alert_thresholds env ratio (t # ts) s =
     (if t \<le> ratio \<and> t \<notin> set (tw_thresholds s)
      then bind_result (say env (Markdown (DailyBudgetAlert t)) (s\<lparr> tw_thresholds := t # tw_thresholds s \<rparr>)) (\<lambda>_. alert_thresholds env ratio ts)
      else alert_thresholds env ratio ts s)"

definition today_of :: "timestamp \<Rightarrow> string" where
  "today_of now = take 10 (toISOString now)"

definition checkDailyBudgetAlert :: "('s budget_db_scheme, 'w) tg_env \<Rightarrow> timestamp \<Rightarrow> timestamp \<Rightarrow> ('s budget_db_scheme, 'w) tg_world
    \<Rightarrow> (tg_error + unit) \<times> ('s budget_db_scheme, 'w) tg_world" where
  "checkDailyBudgetAlert env dateNow ratioNow s =
     (let today = today_of dateNow;
          s1 = (if today \<noteq> tw_thresholdDate s then s\<lparr> tw_thresholds := [], tw_thresholdDate := today \<rparr> else s);
          g = ag_guard (te_agent env)
      in alert_thresholds env (getDailyUsageRatio (ge_budget g) (ge_tz g) ratioNow (tw_db s1)) DAILY_ALERT_THRESHOLDS_bot s1)"

definition checkOAuthAlert :: "('d, 'w) tg_env \<Rightarrow> jin_error + rat \<Rightarrow> timestamp \<Rightarrow> ('d, 'w) tg_world \<Rightarrow> (tg_error + unit) \<times> ('d, 'w) tg_world" where
  "checkOAuthAlert env days now s =
     (case days of
        Inl e \<Rightarrow> (Inl (TgJin e), s)
      | Inr d \<Rightarrow>
          if 6 \<le> d \<and> tw_oauthDate s \<noteq> today_of now
          then say env (Markdown (OAuthAlert d)) (s\<lparr> tw_oauthDate := today_of now \<rparr>)
          else (Inr (), s))"

definition checkBudgetAlerts :: "('s budget_db_scheme, 'w) tg_env \<Rightarrow> jin_error + rat \<Rightarrow> timestamp \<Rightarrow> ('s budget_db_scheme, 'w) tg_world
    \<Rightarrow> ('s budget_db_scheme, 'w) tg_world" where
  "checkBudgetAlerts env days now s =
     snd (bind_result (checkKillSwitchAlert env s) (\<lambda>_ s1. bind_result (checkDailyBudgetAlert env now now s1) (\<lambda>_. checkOAuthAlert env days now)))"

definition checkAuditIntegrityAlert :: "('s audit_db_scheme, 'w) tg_env \<Rightarrow> ('s audit_db_scheme, 'w) tg_world \<Rightarrow> ('s audit_db_scheme, 'w) tg_world" where
  "checkAuditIntegrityAlert env s =
     (let locked = isLocked (tw_db s) in
      case (if locked \<and> \<not> tw_chainNotified s then say env (Markdown ChainLockedAlert) s else (Inr (), s)) of
        (Inl e, s1) \<Rightarrow> s1
      | (Inr _, s1) \<Rightarrow> s1\<lparr> tw_chainNotified := locked \<rparr>)"

text \<open>The listeners of the events of the rest of the system; the morning alert is sent as its text.\<close>

fun on_event :: "('d, 'w) tg_env \<Rightarrow> hitl_event \<Rightarrow> ('d, 'w) tg_world \<Rightarrow> (tg_error + unit) \<times> ('d, 'w) tg_world" where
  "on_event env (ApprovalEscalated i t) s = say env (Markdown (EscalatedAlert t i)) s"
| "on_event env (ApprovalAbandoned i t) s = say env (Markdown (AbandonedAlert t i)) s"
| "on_event env (ApprovalStuck i t) s = say env (Markdown (StuckAlert t i)) s"
| "on_event env (hitl_event.ActionNotified i t actor relaxed) s = say env (Sentence (notice.ActionNotified t i actor relaxed)) s"
| "on_event env (ModeChanged mode previous reason _ _) s =
     say env (Sentence (ModeChangedAlert mode previous reason)) s"
| "on_event env (PendingApprovalCreated _ _ _) s = (Inr (), s)"

definition tg_onMorningAlert :: "('d, 'w) tg_env \<Rightarrow> codepoints \<Rightarrow> ('d, 'w) tg_world \<Rightarrow> (tg_error + unit) \<times> ('d, 'w) tg_world" where
  "tg_onMorningAlert env body s = say env (Plain body) s"

section \<open>What the owner is told of an approval\<close>

text \<open>The answer that tells of an executed action is sent inside the \<open>try\<close>: when Telegram refuses it (its Markdown
  is built from the result of the action), the action is done and its approval gone, and the owner is told that it was
  not completed and can be approved again.\<close>

theorem refused_confirmation_reads_as_failure:
  assumes "resolveAndExecute (ag_sha (te_agent env)) (te_reg env) io requestId ''owner'' (tw_db s) = (Inr (RResolved toolName result), db1)"
    and "te_api env (tw_sent s) (Markdown (ApprovedAndExecuted requestId result)) = Some fault"
  shows "tw_sent (snd (processApproval env io requestId s))
      = tw_sent s @ [Markdown (ApprovedAndExecuted requestId result), Sentence (NotCompleted (TgApi fault))]
    \<and> tw_db (snd (processApproval env io requestId s)) = db1"
  using assms by (simp add: processApproval_def say_def reported_def)

definition sample_tg_world :: "'d \<Rightarrow> ('d, nat) tg_world" where
  "sample_tg_world db = \<lparr> tw_db = db, tw_world = 0, tw_sessions = [], tw_sent = [], tw_killNotified = False, tw_thresholds = [],
     tw_thresholdDate = [], tw_oauthDate = [], tw_chainNotified = False \<rparr>"

definition sample_tg :: "'d executors \<Rightarrow> tg_api \<Rightarrow> ('d, nat) tg_env" where
  "sample_tg reg api = \<lparr> te_owner = 7, te_api = api, te_letnum = (\<lambda>_. False), te_agent = sample_agent sample_config, te_reg = reg,
     te_services = sample_services, te_recall = (\<lambda>_ _ w. (Inr [], w)) \<rparr>"

definition picky :: tg_api where
  "picky sent m = (case m of Markdown (ApprovedAndExecuted _ _) \<Rightarrow> Some (Refused 400 ''can't parse entities'') | _ \<Rightarrow> None)"

lemma refused_confirmation_reads_as_failure_witness:
  "tw_sent (snd (processApproval (sample_tg (sample_reg (Inr JNull)) picky) (sample_io 5 False) ''r1''
      (sample_tg_world (sample_hitl [sample_pending ''confirm'' None]))))
    = [Markdown (ApprovedAndExecuted ''r1'' JNull), Sentence (NotCompleted (TgApi (Refused 400 ''can't parse entities'')))]"
proof -
  let ?env = "sample_tg (sample_reg (Inr JNull)) picky"
  obtain db' where "resolveAndExecute (ag_sha (te_agent ?env)) (te_reg ?env) (sample_io 5 False) ''r1'' ''owner''
      (tw_db (sample_tg_world (sample_hitl [sample_pending ''confirm'' None]))) = (Inr (RResolved ''sendEmail'' JNull), db')"
    using sample_runs by (fastforce simp: sample_tg_def sample_tg_world_def)
  from refused_confirmation_reads_as_failure [OF this, of "Refused 400 ''can't parse entities''"]
  show ?thesis by (simp add: sample_tg_def picky_def sample_tg_world_def)
qed

section \<open>The brake released without a trace\<close>

text \<open>The command that releases the kill switch does it before it is recorded: with the audit chain locked, or its
  write failing, the switch is off, no row tells who released it, and the owner's command ends in an error.\<close>

theorem released_without_audit:
  assumes "isActive (tw_db s)" "isLocked (tw_db s) \<or> io_fault io \<noteq> None"
  shows "\<exists>e. on_unpause env new_id io s = (Inl (TgJin e), s\<lparr> tw_db := unpause (tw_db s) \<rparr>)
     \<and> \<not> isActive (unpause (tw_db s)) \<and> audit_log (unpause (tw_db s)) = audit_log (tw_db s)"
proof -
  have "isLocked (unpause (tw_db s)) \<or> io_fault io \<noteq> None" using assms(2) by (simp add: isLocked_def unpause_def upsertState_def)
  then obtain e where "recordApproval (ag_sha (te_agent env)) io new_id ''owner'' ''unpause'' ''n/a'' (unpause (tw_db s)) = (Inl e, unpause (tw_db s))"
    using record_blocked(1) by blast
  then show ?thesis using assms(1) by (simp add: on_unpause_def) (simp add: isActive_def unpause_def upsertState_def)
qed

definition tripped :: budget_db where
  "tripped = (sample_ledger [] (Some \<lparr> ks_active = True, ks_activatedAt = None, ks_reason = None \<rparr>))
     \<lparr> audit_chain_lock := Some \<lparr> l_locked = True, l_lockedAt = None, l_reason = None \<rparr> \<rparr>"

lemma released_without_audit_witness:
  "isActive tripped \<and> \<not> isActive (tw_db (snd (on_unpause (sample_tg (\<lambda>_. None) (\<lambda>_ _. None)) ''u1'' \<lparr> io_now = 5, io_fault = None \<rparr> (sample_tg_world tripped))))"
proof -
  have act: "isActive tripped" "isLocked tripped" by (simp_all add: tripped_def isActive_def sample_ledger_def isLocked_def)
  then obtain e where "on_unpause (sample_tg (\<lambda>_. None) (\<lambda>_ _. None)) ''u1'' \<lparr> io_now = 5, io_fault = None \<rparr> (sample_tg_world tripped)
      = (Inl (TgJin e), (sample_tg_world tripped)\<lparr> tw_db := unpause tripped \<rparr>)" "\<not> isActive (unpause tripped)"
    using released_without_audit [of "sample_tg_world tripped" "\<lparr> io_now = 5, io_fault = None \<rparr>" "sample_tg (\<lambda>_. None) (\<lambda>_ _. None)" "''u1''"]
    by (auto simp: sample_tg_world_def)
  then show ?thesis using act(1) by simp
qed

section \<open>Alerts said once\<close>

text \<open>A sequence of checks, each over the database as it is then.\<close>

fun kill_checks :: "('s budget_db_scheme, 'w) tg_env \<Rightarrow> 's budget_db_scheme list \<Rightarrow> ('s budget_db_scheme, 'w) tg_world
    \<Rightarrow> ('s budget_db_scheme, 'w) tg_world" where
  "kill_checks env [] s = s"
| "kill_checks env (db # dbs) s = kill_checks env dbs (snd (checkKillSwitchAlert env (s\<lparr> tw_db := db \<rparr>)))"

text \<open>How often a sequence goes up, from a first value.\<close>

fun rises :: "bool \<Rightarrow> bool list \<Rightarrow> nat" where
  "rises b [] = 0"
| "rises b (x # xs) = (if x \<and> \<not> b then 1 else 0) + rises x xs"

text \<open>While Telegram takes the messages, the checks of the kill switch tell the owner of every activation exactly
  once: the alerts are as many as the times the switch was seen to go from inactive to active.\<close>

theorem kill_switch_told_once:
  assumes "te_api env = (\<lambda>_ _. None)"
  shows "tw_sent (kill_checks env dbs s)
    = tw_sent s @ replicate (rises (tw_killNotified s) (map isActive dbs)) (Markdown KillSwitchAlert)"
proof (induction dbs arbitrary: s)
  case (Cons db dbs)
  define s1 where "s1 = snd (checkKillSwitchAlert env (s\<lparr> tw_db := db \<rparr>))"
  have "tw_sent s1 = tw_sent s @ (if isActive db \<and> \<not> tw_killNotified s then [Markdown KillSwitchAlert] else [])"
    and "tw_killNotified s1 = isActive db"
    using assms by (auto simp: s1_def checkKillSwitchAlert_def say_def Let_def)
  then show ?case using Cons.IH [of s1] by (simp add: s1_def [symmetric])
qed simp

lemma kill_switch_told_once_witness:
  "tw_sent (kill_checks (sample_tg (\<lambda>_. None) (\<lambda>_ _. None)) [sample_ledger [] None, tripped, tripped, sample_ledger [] None, tripped]
      (sample_tg_world (sample_ledger [] None))) = [Markdown KillSwitchAlert, Markdown KillSwitchAlert]"
proof -
  have "isActive tripped" by (simp add: tripped_def isActive_def sample_ledger_def)
  then show ?thesis
    using kill_switch_told_once [of "sample_tg (\<lambda>_. None) (\<lambda>_ _. None)"
        "[sample_ledger [] None, tripped, tripped, sample_ledger [] None, tripped]" "sample_tg_world (sample_ledger [] None)"]
    by (simp add: sample_tg_def sample_tg_world_def)
qed

fun daily_checks :: "('s budget_db_scheme, 'w) tg_env \<Rightarrow> (timestamp \<times> 's budget_db_scheme) list \<Rightarrow> ('s budget_db_scheme, 'w) tg_world
    \<Rightarrow> ('s budget_db_scheme, 'w) tg_world" where
  "daily_checks env [] s = s"
| "daily_checks env ((now, db) # checks) s = daily_checks env checks (snd (checkDailyBudgetAlert env now now (s\<lparr> tw_db := db \<rparr>)))"

definition said :: "rat \<Rightarrow> ('d, 'w) tg_world \<Rightarrow> nat" where
  "said t s = count_list (tw_sent s) (Markdown (DailyBudgetAlert t))"

text \<open>What a pass over the thresholds keeps: the alert of a threshold is sent when it is marked, and it stays marked.\<close>

definition marked :: "string \<Rightarrow> rat \<Rightarrow> nat \<Rightarrow> ('d, 'w) tg_world \<Rightarrow> bool" where
  "marked d t n s \<longleftrightarrow> tw_thresholdDate s = d \<and> said t s \<le> (if t \<in> set (tw_thresholds s) then n + 1 else n)"

lemma alert_thresholds_marked:
  "marked d t n s \<Longrightarrow> marked d t n (snd (alert_thresholds env ratio ts s))"
proof (induction ts arbitrary: s)
  case (Cons x ts)
  show ?case
  proof (cases "x \<le> ratio \<and> x \<notin> set (tw_thresholds s)")
    case True
    define s1 where "s1 = snd (say env (Markdown (DailyBudgetAlert x)) (s\<lparr> tw_thresholds := x # tw_thresholds s \<rparr>))"
    have s1: "marked d t n s1"
      using Cons.prems True by (auto simp: marked_def s1_def say_def said_def)
    obtain r where r: "say env (Markdown (DailyBudgetAlert x)) (s\<lparr> tw_thresholds := x # tw_thresholds s \<rparr>) = (r, s1)"
      by (cases "say env (Markdown (DailyBudgetAlert x)) (s\<lparr> tw_thresholds := x # tw_thresholds s \<rparr>)") (simp add: s1_def)
    show ?thesis using True s1 Cons.IH [OF s1] by (cases r) (simp_all add: r)
  next
    case False
    then have "alert_thresholds env ratio (x # ts) s = alert_thresholds env ratio ts s" by auto
    then show ?thesis using Cons.IH [OF Cons.prems] by simp
  qed
qed simp

lemma daily_check_marked:
  assumes "today_of now = d" "marked d t n x \<or> (tw_thresholdDate x \<noteq> d \<and> said t x \<le> n)"
  shows "marked d t n (snd (checkDailyBudgetAlert env now now (x\<lparr> tw_db := db \<rparr>)))"
proof -
  define y where "y = (if today_of now \<noteq> tw_thresholdDate (x\<lparr> tw_db := db \<rparr>)
    then (x\<lparr> tw_db := db \<rparr>)\<lparr> tw_thresholds := [], tw_thresholdDate := today_of now \<rparr> else x\<lparr> tw_db := db \<rparr>)"
  have "said t y = said t x" by (simp add: y_def said_def)
  then have "marked d t n y" using assms by (cases "tw_thresholdDate x = d") (auto simp: marked_def y_def said_def)
  then show ?thesis
    unfolding checkDailyBudgetAlert_def Let_def y_def [symmetric] by (rule alert_thresholds_marked)
qed

lemma daily_checks_marked:
  "marked d t n x \<Longrightarrow> list_all (\<lambda>c. today_of (fst c) = d) cs \<Longrightarrow> marked d t n (daily_checks env cs x)"
proof (induction cs arbitrary: x)
  case (Cons c cs)
  obtain now db where c: "c = (now, db)" by (cases c)
  have "marked d t n (snd (checkDailyBudgetAlert env now now (x\<lparr> tw_db := db \<rparr>)))"
    using Cons.prems c by (intro daily_check_marked) simp_all
  then show ?case using Cons c by simp
qed simp

text \<open>On one day, the alert of each budget threshold is attempted at most once, over all the checks of that day
  and whatever the usage does: the owner is not told twice. The mark is set before the message is sent, so an attempt
  that Telegram refuses is not repeated that day.\<close>

theorem threshold_told_at_most_once_a_day:
  assumes "list_all (\<lambda>c. today_of (fst c) = d) checks"
  shows "said t (daily_checks env checks s) \<le> said t s + 1"
proof (cases checks)
  case (Cons c cs)
  obtain now db where c: "c = (now, db)" by (cases c)
  have "marked d t (said t s) (snd (checkDailyBudgetAlert env now now (s\<lparr> tw_db := db \<rparr>)))"
    using assms Cons c by (intro daily_check_marked) (auto simp: marked_def)
  then have "marked d t (said t s) (daily_checks env cs (snd (checkDailyBudgetAlert env now now (s\<lparr> tw_db := db \<rparr>))))"
    using assms Cons by (intro daily_checks_marked) simp_all
  then show ?thesis using Cons c by (auto simp: marked_def split: if_splits)
qed simp

lemma threshold_told_at_most_once_a_day_witness:
  "said 1 (daily_checks (sample_tg (\<lambda>_. None) (\<lambda>_ _. Some (Unreachable ''down''))) [(0, sample_ledger [] None), (300000, sample_ledger [] None)]
      (sample_tg_world (sample_ledger [] None))) \<le> 1"
proof -
  have "today_of 0 = ''1970-01-01''" "today_of 300000 = ''1970-01-01''" unfolding today_of_def by code_simp+
  then show ?thesis
    using threshold_told_at_most_once_a_day [of "''1970-01-01''" "[(0, sample_ledger [] None), (300000, sample_ledger [] None)]"
        1 "sample_tg (\<lambda>_. None) (\<lambda>_ _. Some (Unreachable ''down''))" "sample_tg_world (sample_ledger [] None)"]
    by (simp add: said_def sample_tg_world_def)
qed

end
