(* ===== verification/Js_Number.thy ===== *)
theory Js_Number
  imports Js_Unicode
begin

text \<open>
  \<open>Number(text)\<close> and \<open>split\<close> on a character. The value of a numeric text is the rational number it
  writes; \<open>rounds_to k\<close> says that the double nearest to it is the integer \<open>k\<close>, which is all the code
  asks when it tests \<open>Number.isInteger\<close> and a range of small integers.
\<close>

section \<open>Splitting\<close>

fun split_chars :: "nat \<Rightarrow> codepoints \<Rightarrow> codepoints list" where
  "split_chars c [] = [[]]"
| "split_chars c (x # s) = (if x = c then [] # split_chars c s
     else (case split_chars c s of w # ws \<Rightarrow> (x # w) # ws | [] \<Rightarrow> [[x]]))"

lemma split_chars_nonempty [simp]: "split_chars c s \<noteq> []"
  by (induction s) (auto split: list.splits)

lemma split_chars_free: "c \<notin> set s \<Longrightarrow> split_chars c s = [s]"
  by (induction s) auto

lemma split_chars_join: "c \<notin> set s \<Longrightarrow> split_chars c (s @ c # r) = s # split_chars c r"
  by (induction s) auto

lemma split_chars_parts: "p \<in> set (split_chars c s) \<Longrightarrow> c \<notin> set p"
proof (induction s arbitrary: p)
  case (Cons x s)
  obtain w ws where "split_chars c s = w # ws" by (metis list.exhaust split_chars_nonempty)
  then show ?case using Cons by (auto split: if_splits)
qed simp

section \<open>Numeric texts\<close>

definition digit :: "nat \<Rightarrow> bool" where
  "digit c \<longleftrightarrow> 48 \<le> c \<and> c \<le> 57"

definition digits_value :: "nat \<Rightarrow> nat list \<Rightarrow> nat" where
  "digits_value base ds = foldl (\<lambda>n d. base * n + d) 0 ds"

definition digit_of :: "nat \<Rightarrow> nat" where
  "digit_of c = (if digit c then c - 48 else if 97 \<le> c then c - 87 else c - 55)"

definition decimal :: "codepoints \<Rightarrow> nat" where
  "decimal s = digits_value 10 (map digit_of s)"

text \<open>The exponent of a decimal text: absent, or \<open>e\<close>, a sign and digits up to the end.\<close>

definition exponent :: "codepoints \<Rightarrow> int option" where
  "exponent s =
     (case s of
        [] \<Rightarrow> Some 0
      | c # r \<Rightarrow>
          if c \<noteq> 101 \<and> c \<noteq> 69 then None
          else let ds = (if r \<noteq> [] \<and> hd r \<in> {43, 45} then tl r else r)
               in if ds = [] \<or> \<not> list_all digit ds then None
                  else Some (if hd r = 45 then - int (decimal ds) else int (decimal ds)))"

text \<open>A value that is not negative, as a fraction of natural numbers.\<close>

type_synonym fraction = "nat \<times> nat"

definition scaled :: "nat \<Rightarrow> int \<Rightarrow> fraction" where
  "scaled m e = (if 0 \<le> e then (m * 10 ^ nat e, 1) else (m, 10 ^ nat (- e)))"

definition decimal_value :: "codepoints \<Rightarrow> fraction option" where
  "decimal_value s =
     (let whole = takeWhile digit s;
          r = dropWhile digit s;
          dotted = (r \<noteq> [] \<and> hd r = 46);
          frac = (if dotted then takeWhile digit (tl r) else []);
          rest = (if dotted then dropWhile digit (tl r) else r)
      in if whole @ frac = [] then None
         else map_option (\<lambda>e. scaled (decimal (whole @ frac)) (e - int (length frac))) (exponent rest))"

definition based :: "nat \<Rightarrow> (nat \<Rightarrow> bool) \<Rightarrow> codepoints \<Rightarrow> fraction option" where
  "based base ok s = (if s = [] \<or> \<not> list_all ok s then None else Some (digits_value base (map digit_of s), 1))"

text \<open>
  The number of a text, its sign first; \<open>None\<close> is \<open>NaN\<close> or an infinity. Blanks around it do not count, and
  the empty text is zero.
\<close>

definition js_number :: "codepoints \<Rightarrow> (bool \<times> fraction) option" where
  "js_number s0 =
     (let s = trim_by js_space s0 in
      if s = [] then Some (False, 0, 1)
      else if take 2 s \<in> {codes ''0x'', codes ''0X''}
        then map_option (Pair False) (based 16 (\<lambda>c. digit c \<or> (65 \<le> c \<and> c \<le> 70) \<or> (97 \<le> c \<and> c \<le> 102)) (drop 2 s))
      else if take 2 s \<in> {codes ''0o'', codes ''0O''} then map_option (Pair False) (based 8 (\<lambda>c. 48 \<le> c \<and> c \<le> 55) (drop 2 s))
      else if take 2 s \<in> {codes ''0b'', codes ''0B''} then map_option (Pair False) (based 2 (\<lambda>c. 48 \<le> c \<and> c \<le> 49) (drop 2 s))
      else if hd s = 45 then map_option (Pair True) (decimal_value (tl s))
      else if hd s = 43 then map_option (Pair False) (decimal_value (tl s))
      else map_option (Pair False) (decimal_value s))"

text \<open>
  The double nearest to \<open>n / d\<close> is \<open>k\<close>: half the distance to the next double is \<open>2 ^ p / 2 ^ 53\<close> above a \<open>k\<close>
  between \<open>2 ^ p\<close> and its double, the same below it, and half of that below \<open>2 ^ p\<close> itself. A tie goes to
  \<open>k\<close>, whose last bit is even; next to zero the distance is that of the smallest positive double.
\<close>

fun log_floor :: "nat \<Rightarrow> nat" where
  "log_floor n = (if n \<le> 1 then 0 else Suc (log_floor (n div 2)))"

declare log_floor.simps [simp del]

definition rounds_to :: "nat \<Rightarrow> fraction \<Rightarrow> bool" where
  "rounds_to k v =
     (case v of (n, d) \<Rightarrow>
        if k = 0 then n * 2 ^ 1075 \<le> d
        else let p = log_floor k in
          n * 2 ^ 53 \<le> (k * 2 ^ 53 + 2 ^ p) * d
          \<and> (k * 2 ^ 54 - (if k = 2 ^ p then 2 ^ p else 2 ^ Suc p)) * d \<le> n * 2 ^ 54)"

text \<open>The integer below a bound that the number of the text is, if it is one (\<open>-0\<close> is the index \<open>0\<close>).\<close>

definition small_integer :: "nat \<Rightarrow> codepoints \<Rightarrow> nat option" where
  "small_integer bound s =
     (case js_number s of
        None \<Rightarrow> None
      | Some (negative, v) \<Rightarrow> List.find (\<lambda>k. rounds_to k v \<and> (negative \<longrightarrow> k = 0)) [0..<bound])"

lemma small_integer_below: "small_integer bound s = Some k \<Longrightarrow> k < bound"
  unfolding small_integer_def by (auto split: option.splits dest!: find_Some_iff [THEN iffD1])

text \<open>The numbers that are written with one digit.\<close>

lemma log_floor_le: "n < 2 ^ Suc p \<Longrightarrow> log_floor n \<le> p"
proof (induction p arbitrary: n)
  case (Suc p)
  then have "log_floor (n div 2) \<le> p" by simp
  then show ?case by (subst log_floor.simps) simp
qed (simp add: log_floor.simps)

lemma rounds_to_whole:
  assumes "k < 16"
  shows "rounds_to k (j, 1) \<longleftrightarrow> k = j"
proof (cases "k = 0")
  case True
  have "j * 2 ^ 1075 \<le> 1 \<longleftrightarrow> j = 0"
  proof (cases j)
    case (Suc i)
    have "(1::nat) < 2 ^ 1075" by (rule one_less_power) simp_all
    then show ?thesis using Suc by (simp del: power_numeral)
  qed simp
  then show ?thesis using True by (simp add: rounds_to_def del: power_numeral)
next
  case False
  define p where "p = log_floor k"
  have "p \<le> 3" using log_floor_le [of k 3] assms by (simp add: p_def)
  then have p: "p = 0 \<or> p = 1 \<or> p = 2 \<or> p = 3" by auto
  then have P: "(2::nat) ^ p \<le> 8" by auto
  define h :: nat where "h = (if k = 2 ^ p then 2 ^ p else 2 ^ Suc p)"
  have h: "h \<le> 16" using P by (simp add: h_def)
  have "rounds_to k (j, 1) \<longleftrightarrow> j * 2 ^ 53 \<le> k * 2 ^ 53 + 2 ^ p \<and> k * 2 ^ 54 - h \<le> j * 2 ^ 54"
    using False by (simp add: rounds_to_def p_def h_def Let_def)
  moreover have "j * 2 ^ 53 \<le> k * 2 ^ 53 + 2 ^ p \<longleftrightarrow> j \<le> k"
    using P by (intro iffI; simp; linarith)
  moreover have "k * 2 ^ 54 - h \<le> j * 2 ^ 54 \<longleftrightarrow> k \<le> j"
    using h by (intro iffI; simp; linarith)
  ultimately show ?thesis by auto
qed

lemma js_number_digit: "j < 10 \<Longrightarrow> js_number [48 + j] = Some (False, j, 1)"
  by (auto simp: js_number_def trim_by_def js_space_def codes_def decimal_value_def digit_def exponent_def scaled_def
      decimal_def digits_value_def digit_of_def Let_def)

lemma small_integer_digit:
  assumes "j < 10" "j < bound" "bound \<le> 10"
  shows "small_integer bound [48 + j] = Some j"
proof -
  have "List.find (\<lambda>k. rounds_to k (j, 1)) [0..<bound] = List.find (\<lambda>k. k = j) [0..<bound]"
    using assms rounds_to_whole by (intro find_cong) auto
  also have "\<dots> = Some j" using assms(2) by (subst find_Some_iff, intro exI [of _ j]) auto
  finally show ?thesis using assms(1) by (simp add: small_integer_def js_number_digit)
qed

end
