(* ===== verification/Relay.thy ===== *)
theory Relay
  imports Jin_Errors Js_Date Js_Number Telegram_Format "HOL-Library.Multiset"
begin

text \<open>
  The bridge between a coding session and the owner (\<open>src/relay\<close>): the rows of \<open>relay_messages\<close> with the
  statements of \<open>relay.store.ts\<close> and the data of the buttons (\<open>relay.types.ts\<close>). Texts and identifiers are lists
  of code points. The order of the rows is the order of insertion; rows with the same time keep it.

  The interface \<open>message_queue\<close> is what the session relies on when it asks for the messages of the owner:
  what is given out was waiting, and what is filed waits. The bot and the service implement it.
\<close>

section \<open>Constants and the data of a button\<close>

definition MAX_OPTIONS :: nat where "MAX_OPTIONS = 10"
definition CALLBACK_PREFIX :: codepoints where "CALLBACK_PREFIX = codes ''q''"
definition MAX_OUT_PER_HOUR :: nat where "MAX_OUT_PER_HOUR = 30"
definition MAX_BODY_LENGTH :: nat where "MAX_BODY_LENGTH = 50000"

definition buildCallbackData :: "codepoints \<Rightarrow> nat \<Rightarrow> codepoints" where
  "buildCallbackData questionId index = CALLBACK_PREFIX @ codes '':'' @ questionId @ codes '':'' @ codes (show_nat index)"

definition parseCallbackData :: "codepoints \<Rightarrow> (codepoints \<times> nat) option" where
  "parseCallbackData cdata =
     (case split_chars 58 cdata of
        [tag, questionId, number] \<Rightarrow>
          if tag \<noteq> CALLBACK_PREFIX \<or> questionId = [] then None
          else map_option (Pair questionId) (small_integer MAX_OPTIONS number)
      | _ \<Rightarrow> None)"

text \<open>The data of a button gives back the question and the option it was built from, for every
  identifier without a colon and every option a question can have.\<close>

theorem callback_roundtrip:
  assumes "58 \<notin> set questionId" "questionId \<noteq> []" "index < MAX_OPTIONS"
  shows "parseCallbackData (buildCallbackData questionId index) = Some (questionId, index)"
proof -
  have number: "codes (show_nat index) = [48 + index]"
    using assms(3) by (simp add: MAX_OPTIONS_def codes_def digit_char_def show_nat.simps)
  have "split_chars 58 (buildCallbackData questionId index) = [CALLBACK_PREFIX, questionId, [48 + index]]"
    unfolding buildCallbackData_def number
    using assms by (simp add: CALLBACK_PREFIX_def codes_def split_chars_join split_chars_free MAX_OPTIONS_def)
  then show ?thesis
    using assms by (simp add: parseCallbackData_def small_integer_digit MAX_OPTIONS_def)
qed

lemma callback_roundtrip_witness:
  "parseCallbackData (buildCallbackData (codes ''7d6f-41a0'') 4) = Some (codes ''7d6f-41a0'', 4)"
  by (rule callback_roundtrip) (simp_all add: codes_def MAX_OPTIONS_def)

section \<open>The table\<close>

datatype direction = MsgOut | MsgIn

record RelayMessageRow =
  rm_id :: codepoints
  rm_direction :: direction
  rm_body :: codepoints
  rm_options :: "codepoints list option"
  rm_answerTo :: "codepoints option"
  rm_telegramMessageId :: "int option"
  rm_createdAt :: timestamp
  rm_consumedAt :: "timestamp option"

definition outbound_row :: "codepoints \<Rightarrow> timestamp \<Rightarrow> codepoints \<Rightarrow> codepoints list option \<Rightarrow> RelayMessageRow" where
  "outbound_row new_id now body opts =
     \<lparr> rm_id = new_id, rm_direction = MsgOut, rm_body = body, rm_options = opts, rm_answerTo = None,
       rm_telegramMessageId = None, rm_createdAt = now, rm_consumedAt = None \<rparr>"

definition insertOutbound ::
  "codepoints \<Rightarrow> timestamp \<Rightarrow> codepoints \<Rightarrow> codepoints list option \<Rightarrow> RelayMessageRow list \<Rightarrow> RelayMessageRow \<times> RelayMessageRow list" where
  "insertOutbound new_id now body opts rows = (outbound_row new_id now body opts, rows @ [outbound_row new_id now body opts])"

definition attachTelegramMessageId :: "codepoints \<Rightarrow> int \<Rightarrow> RelayMessageRow list \<Rightarrow> RelayMessageRow list" where
  "attachTelegramMessageId rid messageId = update_rows (\<lambda>r. rm_id r = rid) (rm_telegramMessageId_update (\<lambda>_. Some messageId))"

definition inbound_row :: "codepoints \<Rightarrow> timestamp \<Rightarrow> codepoints \<Rightarrow> codepoints option \<Rightarrow> RelayMessageRow" where
  "inbound_row new_id now body answerTo =
     \<lparr> rm_id = new_id, rm_direction = MsgIn, rm_body = body, rm_options = None, rm_answerTo = answerTo,
       rm_telegramMessageId = None, rm_createdAt = now, rm_consumedAt = None \<rparr>"

definition insertInbound ::
  "codepoints \<Rightarrow> timestamp \<Rightarrow> codepoints \<Rightarrow> codepoints option \<Rightarrow> RelayMessageRow list \<Rightarrow> RelayMessageRow \<times> RelayMessageRow list" where
  "insertInbound new_id now body answerTo rows = (inbound_row new_id now body answerTo, rows @ [inbound_row new_id now body answerTo])"

text \<open>One statement reads the pending rows and marks them: it returns the rows as it leaves them.\<close>

definition is_waiting :: "RelayMessageRow \<Rightarrow> bool" where
  "is_waiting r \<longleftrightarrow> rm_direction r = MsgIn \<and> rm_consumedAt r = None"

definition consumePending :: "timestamp \<Rightarrow> RelayMessageRow list \<Rightarrow> RelayMessageRow list \<times> RelayMessageRow list" where
  "consumePending now rows =
     (let mark = rm_consumedAt_update (\<lambda>_. Some now)
      in (map mark (filter is_waiting rows), update_rows is_waiting mark rows))"

definition relay_listRecent :: "nat \<Rightarrow> RelayMessageRow list \<Rightarrow> RelayMessageRow list" where
  "relay_listRecent limit rows = rev (take limit (rev (sort_key rm_createdAt rows)))"

definition findOutbound :: "codepoints \<Rightarrow> RelayMessageRow list \<Rightarrow> RelayMessageRow option" where
  "findOutbound rid rows = List.find (\<lambda>r. rm_id r = rid \<and> rm_direction r = MsgOut) rows"

definition findAnswer :: "codepoints \<Rightarrow> RelayMessageRow list \<Rightarrow> RelayMessageRow option" where
  "findAnswer questionId rows =
     (case rev (sort_key rm_createdAt (filter (\<lambda>r. rm_direction r = MsgIn \<and> rm_answerTo r = Some questionId) rows)) of
        [] \<Rightarrow> None
      | r # _ \<Rightarrow> Some r)"

definition pendingQuestions :: "RelayMessageRow list \<Rightarrow> RelayMessageRow list" where
  "pendingQuestions rows = sort_key rm_createdAt (filter (\<lambda>r. rm_direction r = MsgOut \<and> rm_options r \<noteq> None) rows)"

definition outQuotaExceeded :: "timestamp \<Rightarrow> RelayMessageRow list \<Rightarrow> bool" where
  "outQuotaExceeded now rows =
     (MAX_OUT_PER_HOUR \<le> length (filter (\<lambda>r. rm_direction r = MsgOut \<and> now - 60 * 60 * 1000 \<le> rm_createdAt r) rows))"

section \<open>Facts about the statements\<close>

lemma findOutbound_SomeD: "findOutbound rid rows = Some r \<Longrightarrow> r \<in> set rows \<and> rm_id r = rid \<and> rm_direction r = MsgOut"
  by (auto simp: findOutbound_def find_Some_iff)

lemma sort_key_Nil: "sort_key f xs = [] \<longleftrightarrow> xs = []"
  by (metis length_0_conv length_sort)

lemma findAnswer_None: "findAnswer q rows = None \<longleftrightarrow> filter (\<lambda>r. rm_direction r = MsgIn \<and> rm_answerTo r = Some q) rows = []"
proof (cases "rev (sort_key rm_createdAt (filter (\<lambda>r. rm_direction r = MsgIn \<and> rm_answerTo r = Some q) rows))")
  case Nil
  then have "sort_key rm_createdAt (filter (\<lambda>r. rm_direction r = MsgIn \<and> rm_answerTo r = Some q) rows) = []" by simp
  then show ?thesis unfolding sort_key_Nil using Nil by (simp add: findAnswer_def)
next
  case (Cons r rs)
  then have "sort_key rm_createdAt (filter (\<lambda>r. rm_direction r = MsgIn \<and> rm_answerTo r = Some q) rows) \<noteq> []" by force
  then show ?thesis unfolding sort_key_Nil using Cons by (simp add: findAnswer_def)
qed

text \<open>What a session is shown of a row, and the rows that are waiting or filed.\<close>

record RelayInboxMessage =
  im_id :: codepoints
  im_body :: codepoints
  im_answerTo :: "codepoints option"
  im_createdAt :: string

definition inbox_message :: "RelayMessageRow \<Rightarrow> RelayInboxMessage" where
  "inbox_message r = \<lparr> im_id = rm_id r, im_body = rm_body r, im_answerTo = rm_answerTo r, im_createdAt = toISOString (rm_createdAt r) \<rparr>"

definition waiting :: "RelayMessageRow list \<Rightarrow> RelayInboxMessage list" where
  "waiting rows = map inbox_message (filter is_waiting rows)"

definition filed :: "RelayMessageRow list \<Rightarrow> RelayInboxMessage list" where
  "filed rows = map inbox_message (filter (\<lambda>r. rm_direction r = MsgIn) rows)"

lemma inbox_message_marks [simp]:
  "inbox_message (rm_consumedAt_update f r) = inbox_message r"
  "inbox_message (rm_telegramMessageId_update g r) = inbox_message r"
  by (simp_all add: inbox_message_def)

lemma is_waiting_attach [simp]: "is_waiting (rm_telegramMessageId_update g r) = is_waiting r"
  by (simp add: is_waiting_def)

lemma after_outbound [simp]:
  "waiting (snd (insertOutbound i t b os rows)) = waiting rows" "filed (snd (insertOutbound i t b os rows)) = filed rows"
  by (simp_all add: waiting_def filed_def insertOutbound_def outbound_row_def is_waiting_def)

lemma after_inbound [simp]:
  "waiting (snd (insertInbound i t b a rows)) = waiting rows @ [inbox_message (inbound_row i t b a)]"
  "filed (snd (insertInbound i t b a rows)) = filed rows @ [inbox_message (inbound_row i t b a)]"
  by (simp_all add: waiting_def filed_def insertInbound_def inbound_row_def is_waiting_def)

lemma map_update_rows:
  assumes "\<And>r. g (f r) = g r" "\<And>r. P (f r) = P r"
  shows "map g (filter P (update_rows k f rows)) = map g (filter P rows)"
  by (induction rows) (auto simp: update_rows_def assms)

lemma after_attach [simp]:
  "waiting (attachTelegramMessageId i m rows) = waiting rows" "filed (attachTelegramMessageId i m rows) = filed rows"
  by (simp_all add: waiting_def filed_def attachTelegramMessageId_def map_update_rows)

lemma after_consume [simp]:
  "waiting (snd (consumePending t rows)) = []" "filed (snd (consumePending t rows)) = filed rows"
  "map inbox_message (fst (consumePending t rows)) = waiting rows"
proof -
  show "waiting (snd (consumePending t rows)) = []"
    by (induction rows) (auto simp: waiting_def consumePending_def Let_def update_rows_def is_waiting_def)
  show "filed (snd (consumePending t rows)) = filed rows"
    by (simp add: filed_def consumePending_def Let_def map_update_rows)
  show "map inbox_message (fst (consumePending t rows)) = waiting rows"
    by (simp add: waiting_def consumePending_def Let_def o_def)
qed

section \<open>The queue the session relies on\<close>

locale message_queue =
  fixes step :: "'op \<Rightarrow> 's \<Rightarrow> 'm list \<times> 's"
    and held :: "'s \<Rightarrow> 'm list"
    and archive :: "'s \<Rightarrow> 'm list"
  assumes conserved: "mset (fst (step c s)) + mset (held (snd (step c s))) + mset (archive s) = mset (held s) + mset (archive (snd (step c s)))"
    and kept: "prefix (archive s) (archive (snd (step c s)))"

fun run_steps :: "('op \<Rightarrow> 's \<Rightarrow> 'm list \<times> 's) \<Rightarrow> 'op list \<Rightarrow> 's \<Rightarrow> 'm list list \<times> 's" where
  "run_steps step [] s = ([], s)"
| "run_steps step (c # cs) s =
     (case step c s of (out, s1) \<Rightarrow> (case run_steps step cs s1 of (outs, s2) \<Rightarrow> (out # outs, s2)))"

lemma balance:
  assumes "o1 + h1 + a0 = h0 + a1" "o2 + h2 + a1 = h1 + a2"
  shows "(o1 + o2) + h2 + a0 = h0 + (a2 :: 'a multiset)"
proof -
  have "((o1 + o2) + h2 + a0) + (h1 + a1) = (o1 + h1 + a0) + (o2 + h2 + a1)" by (simp add: ac_simps)
  also have "\<dots> = (h0 + a2) + (h1 + a1)" unfolding assms by (simp add: ac_simps)
  finally show ?thesis by (rule add_right_imp_eq)
qed

context message_queue
begin

lemma run_conserved:
  "mset (concat (fst (run_steps step cs s))) + mset (held (snd (run_steps step cs s))) + mset (archive s)
     = mset (held s) + mset (archive (snd (run_steps step cs s)))"
proof (induction cs arbitrary: s)
  case (Cons c cs)
  let ?s1 = "snd (step c s)"
  have "mset (concat (fst (run_steps step (c # cs) s))) = mset (fst (step c s)) + mset (concat (fst (run_steps step cs ?s1)))"
    "snd (run_steps step (c # cs) s) = snd (run_steps step cs ?s1)"
    by (simp_all split: prod.splits)
  moreover have "mset (concat (fst (run_steps step cs ?s1))) + mset (held (snd (run_steps step cs ?s1))) + mset (archive ?s1)
     = mset (held ?s1) + mset (archive (snd (run_steps step cs ?s1)))" by (rule Cons.IH)
  ultimately show ?case using balance [OF conserved [of c s]] by simp
qed simp

lemma archive_kept: "prefix (archive s) (archive (snd (run_steps step cs s)))"
proof (induction cs arbitrary: s)
  case (Cons c cs)
  have "prefix (archive s) (archive (snd (step c s)))" by (rule kept)
  also have "prefix \<dots> (archive (snd (run_steps step cs (snd (step c s)))))" by (rule Cons.IH)
  finally show ?case by (cases "step c s") (auto split: prod.splits)
qed simp

text \<open>From an empty queue, what was given out and what waits is what was filed, each once.\<close>

lemma given_once:
  "held s = [] \<Longrightarrow> archive s = [] \<Longrightarrow> mset (concat (fst (run_steps step cs s))) + mset (held (snd (run_steps step cs s)))
     = mset (archive (snd (run_steps step cs s)))"
  using run_conserved [of cs s] by simp

end

end
