(* ===== verification/Relay_Bot.thy ===== *)
theory Relay_Bot
  imports Relay
begin

text \<open>
  The second bot and the service of the bridge (\<open>relay-bot.service.ts\<close>, \<open>relay.service.ts\<close>), its guard and
  its two controllers. The calls to Telegram (\<open>sendMessage\<close>) are the function \<open>re_api\<close>, of the calls made
  before and the call: the \<open>message_id\<close>, or the description of the refusal. Its other calls only answer the owner:
  they are kept in \<open>rl_notes\<close>, with the fixed sentences as constructors. The clock, the new identifiers and the
  texts are arguments; one request or update is handled at a time.
\<close>

section \<open>The state of the bridge\<close>

record outgoing =
  og_text :: codepoints
  og_html :: bool
  og_keyboard :: "(codepoints \<times> codepoints) list option"

datatype bot_note =
    Welcome
  | UnknownOption
  | QuestionGone
  | AlreadyAnswered codepoints
  | Sent codepoints
  | Edited codepoints
  | Seen

record relay =
  rl_rows :: "RelayMessageRow list"
  rl_calls :: "outgoing list"
  rl_events :: "(codepoints \<times> direction) list"
  rl_notes :: "bot_note list"

definition new_relay :: relay where
  "new_relay = \<lparr> rl_rows = [], rl_calls = [], rl_events = [], rl_notes = [] \<rparr>"

record relay_env =
  re_enabled :: bool
  re_owner :: int
  re_letnum :: "nat \<Rightarrow> bool"
  re_api :: "outgoing list \<Rightarrow> outgoing \<Rightarrow> string + int"

section \<open>Delivering a message\<close>

definition buildKeyboard :: "codepoints \<Rightarrow> codepoints list \<Rightarrow> (codepoints \<times> codepoints) list" where
  "buildKeyboard questionId opts = map (\<lambda>(label, i). (label, buildCallbackData questionId i)) (zip opts [0..<length opts])"

definition call_api :: "relay_env \<Rightarrow> outgoing \<Rightarrow> relay \<Rightarrow> (string + int) \<times> relay" where
  "call_api env m s = (re_api env (rl_calls s) m, s\<lparr> rl_calls := rl_calls s @ [m] \<rparr>)"

definition sendWithPlainFallback ::
  "relay_env \<Rightarrow> codepoints \<Rightarrow> (codepoints \<times> codepoints) list option \<Rightarrow> relay \<Rightarrow> (string + int) \<times> relay" where
  "sendWithPlainFallback env html keyboard s =
     (case call_api env \<lparr> og_text = html, og_html = True, og_keyboard = keyboard \<rparr> s of
        (Inr messageId, s1) \<Rightarrow> (Inr messageId, s1)
      | (Inl description, s1) \<Rightarrow>
          if \<not> sublist ''can't parse entities'' description then (Inl description, s1)
          else call_api env \<lparr> og_text = htmlToPlain html, og_html = False, og_keyboard = keyboard \<rparr> s1)"

fun deliver_chunks ::
  "relay_env \<Rightarrow> (codepoints \<times> codepoints) list option \<Rightarrow> codepoints list \<Rightarrow> int option \<Rightarrow> relay \<Rightarrow> (string + int option) \<times> relay" where
  "deliver_chunks env keyboard [] first s = (Inr first, s)"
| "deliver_chunks env keyboard (chunk # chunks) first s =
     (case sendWithPlainFallback env chunk (if chunks = [] then keyboard else None) s of
        (Inl e, s1) \<Rightarrow> (Inl e, s1)
      | (Inr sent, s1) \<Rightarrow> deliver_chunks env keyboard chunks (if first = None then Some sent else first) s1)"

definition deliver ::
  "relay_env \<Rightarrow> codepoints \<Rightarrow> codepoints list option \<Rightarrow> codepoints \<Rightarrow> relay \<Rightarrow> (string + int option) \<times> relay" where
  "deliver env body opts questionId s =
     (if \<not> re_enabled env then (Inr None, s)
      else deliver_chunks env
        (case opts of None \<Rightarrow> None | Some [] \<Rightarrow> None | Some (o1 # os) \<Rightarrow> Some (buildKeyboard questionId (o1 # os)))
        (splitForTelegram TELEGRAM_CHUNK_LIMIT (to_units (markdownToTelegramHtml (re_letnum env) body))) None s)"

section \<open>The service\<close>

text \<open>The row is written before anything is delivered.\<close>

definition relay_send :: "relay_env \<Rightarrow> timestamp \<Rightarrow> codepoints \<Rightarrow> codepoints \<Rightarrow> codepoints list option \<Rightarrow> relay
    \<Rightarrow> (jin_error + codepoints) \<times> relay" where
  "relay_send env now new_id body opts s =
     (if outQuotaExceeded now (rl_rows s) then (Inl RelayQuotaExceededError, s)
      else (case insertOutbound new_id now body opts (rl_rows s) of (row, rows1) \<Rightarrow>
        (case deliver env body opts (rm_id row) (s\<lparr> rl_rows := rows1 \<rparr>) of
           (Inl description, s1) \<Rightarrow> (Inl (OtherError description), s1)
         | (Inr messageId, s1) \<Rightarrow>
             let s2 = (case messageId of
                   None \<Rightarrow> s1
                 | Some m \<Rightarrow> s1\<lparr> rl_rows := attachTelegramMessageId (rm_id row) m (rl_rows s1) \<rparr>)
             in (Inr (rm_id row), s2\<lparr> rl_events := rl_events s2 @ [(rm_id row, MsgOut)] \<rparr>))))"

definition reply :: "timestamp \<Rightarrow> codepoints \<Rightarrow> codepoints \<Rightarrow> codepoints option \<Rightarrow> relay \<Rightarrow> codepoints \<times> relay" where
  "reply now new_id body answerTo s =
     (case insertInbound new_id now body answerTo (rl_rows s) of (row, rows1) \<Rightarrow>
        (rm_id row, s\<lparr> rl_rows := rows1, rl_events := rl_events s @ [(rm_id row, MsgIn)] \<rparr>))"

record RelayHistoryMessage =
  hm_id :: codepoints
  hm_direction :: direction
  hm_body :: codepoints
  hm_bodyHtml :: codepoints
  hm_options :: "codepoints list option"
  hm_answerTo :: "codepoints option"
  hm_createdAt :: string

definition history_message :: "(nat \<Rightarrow> bool) \<Rightarrow> RelayMessageRow \<Rightarrow> RelayHistoryMessage" where
  "history_message letnum r =
     \<lparr> hm_id = rm_id r, hm_direction = rm_direction r, hm_body = rm_body r, hm_bodyHtml = markdownToTelegramHtml letnum (rm_body r),
       hm_options = rm_options r, hm_answerTo = rm_answerTo r, hm_createdAt = toISOString (rm_createdAt r) \<rparr>"

definition history :: "(nat \<Rightarrow> bool) \<Rightarrow> nat \<Rightarrow> relay \<Rightarrow> RelayHistoryMessage list" where
  "history letnum limit s = map (history_message letnum) (relay_listRecent limit (rl_rows s))"

definition inbox :: "timestamp \<Rightarrow> relay \<Rightarrow> RelayInboxMessage list \<times> relay" where
  "inbox now s =
     (case consumePending now (rl_rows s) of (rows, rows1) \<Rightarrow>
        (map inbox_message (sort_key rm_createdAt rows), s\<lparr> rl_rows := rows1 \<rparr>))"

record RelayAnswer =
  ra_answered :: bool
  ra_body :: "codepoints option"
  ra_answeredAt :: "string option"

definition answer :: "codepoints \<Rightarrow> relay \<Rightarrow> RelayAnswer" where
  "answer questionId s =
     (case findAnswer questionId (rl_rows s) of
        None \<Rightarrow> \<lparr> ra_answered = False, ra_body = None, ra_answeredAt = None \<rparr>
      | Some row \<Rightarrow> \<lparr> ra_answered = True, ra_body = Some (rm_body row), ra_answeredAt = Some (toISOString (rm_createdAt row)) \<rparr>)"

section \<open>The handlers of the bot\<close>

text \<open>What an update carries: the command \<open>/start\<close>, the press of a button, a text that may cite a message, anything else.\<close>

datatype update =
    CommandStart
  | Press codepoints
  | TextMessage codepoints "int option"
  | OtherUpdate

definition note_down :: "bot_note list \<Rightarrow> relay \<Rightarrow> relay" where
  "note_down ns s = s\<lparr> rl_notes := rl_notes s @ ns \<rparr>"

definition answered_html :: "(nat \<Rightarrow> bool) \<Rightarrow> codepoints \<Rightarrow> codepoints \<Rightarrow> codepoints" where
  "answered_html letnum body chosen =
     markdownToTelegramHtml letnum body @ [10, 10] @ tagged ''b'' ([0x2192, 32] @ escapeHtml chosen)"

definition on_press :: "relay_env \<Rightarrow> timestamp \<Rightarrow> codepoints \<Rightarrow> codepoints \<Rightarrow> relay \<Rightarrow> relay" where
  "on_press env now new_id cdata s =
     (case parseCallbackData cdata of
        None \<Rightarrow> note_down [UnknownOption] s
      | Some (questionId, index) \<Rightarrow>
          (case findOutbound questionId (rl_rows s) of
             None \<Rightarrow> note_down [QuestionGone] s
           | Some question \<Rightarrow>
               (case rm_options question of
                  None \<Rightarrow> note_down [QuestionGone] s
                | Some opts \<Rightarrow>
                    if length opts \<le> index then note_down [QuestionGone] s
                    else (case findAnswer (rm_id question) (rl_rows s) of
                        Some existing \<Rightarrow> note_down [AlreadyAnswered (rm_body existing)] s
                      | None \<Rightarrow>
                          note_down [Sent (opts ! index), Edited (answered_html (re_letnum env) (rm_body question) (opts ! index))]
                            (s\<lparr> rl_rows := snd (insertInbound new_id now (opts ! index) (Some (rm_id question)) (rl_rows s)) \<rparr>)))))"

definition findQuestionByTelegramMessageId :: "int \<Rightarrow> relay \<Rightarrow> codepoints option" where
  "findQuestionByTelegramMessageId messageId s =
     map_option rm_id (List.find (\<lambda>q. rm_telegramMessageId q = Some messageId) (pendingQuestions (rl_rows s)))"

definition on_text :: "timestamp \<Rightarrow> codepoints \<Rightarrow> codepoints \<Rightarrow> int option \<Rightarrow> relay \<Rightarrow> relay" where
  "on_text now new_id msg repliedId s =
     (let body = trim_by js_space msg in
      if body = [] then s
      else let answerTo = (case repliedId of None \<Rightarrow> None | Some m \<Rightarrow> findQuestionByTelegramMessageId m s)
        in note_down [Seen] (s\<lparr> rl_rows := snd (insertInbound new_id now body answerTo (rl_rows s)) \<rparr>))"

definition handle_update :: "relay_env \<Rightarrow> timestamp \<Rightarrow> codepoints \<Rightarrow> int option \<Rightarrow> update \<Rightarrow> relay \<Rightarrow> relay" where
  "handle_update env now new_id chat u s =
     (if chat \<noteq> Some (re_owner env) then s
      else (case u of
          CommandStart \<Rightarrow> note_down [Welcome] s
        | Press cdata \<Rightarrow> on_press env now new_id cdata s
        | TextMessage msg repliedId \<Rightarrow> on_text now new_id msg repliedId s
        | OtherUpdate \<Rightarrow> s))"

text \<open>
  The loop of the long polling: each turn of it ends cleanly, or fails after or before the bot had
  started; the second component is what \<open>stopping\<close> holds then. The result is the delays it waited.
\<close>

datatype poll_turn = CleanStop | Fell bool bool

definition poll_delay :: "nat \<Rightarrow> nat" where
  "poll_delay attempt = min 60000 (2000 * 2 ^ (attempt - 1))"

fun runPolling :: "nat \<Rightarrow> poll_turn list \<Rightarrow> nat list" where
  "runPolling attempt [] = []"
| "runPolling attempt (CleanStop # turns) = []"
| "runPolling attempt (Fell started stopping # turns) =
     (if stopping then []
      else let attempt1 = (if started then 0 else attempt) + 1
        in poll_delay attempt1 # runPolling attempt1 turns)"

section \<open>The guard and the controllers\<close>

definition safeEquals :: "codepoints \<Rightarrow> codepoints \<Rightarrow> bool" where
  "safeEquals a b = (length (utf8_bytes a) = length (utf8_bytes b) \<and> utf8_bytes a = utf8_bytes b)"

definition canActivate :: "codepoints option \<Rightarrow> codepoints option \<Rightarrow> thrown + bool" where
  "canActivate expected header =
     (case expected of
        None \<Rightarrow> Inl (TJin RelayDisabledError)
      | Some e \<Rightarrow>
          if e = [] then Inl (TJin RelayDisabledError)
          else let provided = (case header of
                  Some h \<Rightarrow> if prefix (codes ''Bearer '') h then drop 7 h else []
                | None \<Rightarrow> [])
            in if provided = [] \<or> \<not> safeEquals provided e then Inl (THttp 401 ''UnauthorizedException'') else Inr True)"

definition bad_request :: thrown where "bad_request = THttp 400 ''BadRequestException''"

definition assertEnabled :: "relay_env \<Rightarrow> thrown + unit" where
  "assertEnabled env = (if re_enabled env then Inr () else Inl (TJin RelayDisabledError))"

definition valid_body :: "codepoints \<Rightarrow> bool" where
  "valid_body body \<longleftrightarrow> 1 \<le> js_length body \<and> js_length body \<le> MAX_BODY_LENGTH"

definition valid_options :: "codepoints list option \<Rightarrow> bool" where
  "valid_options opts = (case opts of
      None \<Rightarrow> True
    | Some os \<Rightarrow> list_all (\<lambda>x. 1 \<le> js_length x \<and> js_length x \<le> 64) os \<and> 1 \<le> length os \<and> length os \<le> MAX_OPTIONS)"

text \<open>The requests of the session, behind the guard; and those of the owner's dashboard, behind the session of the owner.\<close>

definition post_message :: "relay_env \<Rightarrow> codepoints option \<Rightarrow> codepoints option \<Rightarrow> timestamp \<Rightarrow> codepoints \<Rightarrow> codepoints
    \<Rightarrow> codepoints list option \<Rightarrow> relay \<Rightarrow> (thrown + codepoints) \<times> relay" where
  "post_message env expected header now new_id body opts s =
     (case canActivate expected header of
        Inl e \<Rightarrow> (Inl e, s)
      | Inr _ \<Rightarrow>
          if \<not> valid_body body \<or> \<not> valid_options opts then (Inl bad_request, s)
          else (case assertEnabled env of
              Inl e \<Rightarrow> (Inl e, s)
            | Inr _ \<Rightarrow> (case relay_send env now new_id body opts s of
                (Inl e, s1) \<Rightarrow> (Inl (TJin e), s1)
              | (Inr rid, s1) \<Rightarrow> (Inr rid, s1))))"

definition get_inbox :: "relay_env \<Rightarrow> codepoints option \<Rightarrow> codepoints option \<Rightarrow> timestamp \<Rightarrow> relay
    \<Rightarrow> (thrown + RelayInboxMessage list) \<times> relay" where
  "get_inbox env expected header now s =
     (case canActivate expected header of
        Inl e \<Rightarrow> (Inl e, s)
      | Inr _ \<Rightarrow> (case assertEnabled env of
            Inl e \<Rightarrow> (Inl e, s)
          | Inr _ \<Rightarrow> (case inbox now s of (ms, s1) \<Rightarrow> (Inr ms, s1))))"

text \<open>\<open>isUuid\<close> is the check of the framework's \<open>ParseUUIDPipe\<close>, and of the validation library.\<close>

definition get_answer :: "relay_env \<Rightarrow> (codepoints \<Rightarrow> bool) \<Rightarrow> codepoints option \<Rightarrow> codepoints option \<Rightarrow> codepoints \<Rightarrow> relay
    \<Rightarrow> thrown + RelayAnswer" where
  "get_answer env isUuid expected header questionId s =
     (case canActivate expected header of
        Inl e \<Rightarrow> Inl e
      | Inr _ \<Rightarrow> if \<not> isUuid questionId then Inl bad_request
          else (case assertEnabled env of Inl e \<Rightarrow> Inl e | Inr _ \<Rightarrow> Inr (answer questionId s)))"

definition get_history :: "(nat \<Rightarrow> bool) \<Rightarrow> nat option \<Rightarrow> relay \<Rightarrow> thrown + RelayHistoryMessage list" where
  "get_history letnum limit s =
     (let n = (case limit of None \<Rightarrow> 50 | Some n \<Rightarrow> n)
      in if n = 0 \<or> 500 < n then Inl bad_request else Inr (history letnum n s))"

definition post_reply :: "(codepoints \<Rightarrow> bool) \<Rightarrow> timestamp \<Rightarrow> codepoints \<Rightarrow> codepoints \<Rightarrow> codepoints option \<Rightarrow> relay
    \<Rightarrow> (thrown + codepoints) \<times> relay" where
  "post_reply isUuid now new_id body answerTo s =
     (if \<not> valid_body body \<or> (case answerTo of Some a \<Rightarrow> \<not> isUuid a | None \<Rightarrow> False) then (Inl bad_request, s)
      else (case reply now new_id body answerTo s of (rid, s1) \<Rightarrow> (Inr rid, s1)))"

section \<open>What each part leaves alone\<close>

lemma send_rows:
  "rl_rows (snd (call_api env m s)) = rl_rows s"
  "rl_rows (snd (sendWithPlainFallback env html kb s)) = rl_rows s"
  by (auto simp: call_api_def sendWithPlainFallback_def split: prod.splits sum.splits)

lemma send_events:
  "rl_events (snd (call_api env m s)) = rl_events s"
  "rl_events (snd (sendWithPlainFallback env html kb s)) = rl_events s"
  by (auto simp: call_api_def sendWithPlainFallback_def split: prod.splits sum.splits)

lemma deliver_chunks_keeps:
  "rl_rows (snd (deliver_chunks env kb chunks first s)) = rl_rows s
   \<and> rl_events (snd (deliver_chunks env kb chunks first s)) = rl_events s"
proof (induction env kb chunks first s rule: deliver_chunks.induct)
  case (2 env kb chunk chunks first s)
  obtain r s1 where r: "sendWithPlainFallback env chunk (if chunks = [] then kb else None) s = (r, s1)" by (cases "sendWithPlainFallback env chunk (if chunks = [] then kb else None) s")
  then have "rl_rows s1 = rl_rows s" "rl_events s1 = rl_events s"
    using send_rows(2) [of env chunk _ s] send_events(2) [of env chunk _ s] by (metis snd_conv)+
  then show ?case using 2 [OF r [symmetric]] r by (cases r) (auto simp: r)
qed simp

lemma deliver_keeps:
  "rl_rows (snd (deliver env body opts q s)) = rl_rows s" "rl_events (snd (deliver env body opts q s)) = rl_events s"
  using deliver_chunks_keeps by (auto simp: deliver_def)

text \<open>The rows after a message of the session: none, one more, or one more with its identifier attached.\<close>

lemma send_effect:
  obtains (quota) "outQuotaExceeded now (rl_rows s)" "relay_send env now i body opts s = (Inl RelayQuotaExceededError, s)"
  | (failed) d where "\<not> outQuotaExceeded now (rl_rows s)" "fst (relay_send env now i body opts s) = Inl (OtherError d)"
      "rl_rows (snd (relay_send env now i body opts s)) = rl_rows s @ [outbound_row i now body opts]"
      "rl_events (snd (relay_send env now i body opts s)) = rl_events s"
  | (sent) m where "\<not> outQuotaExceeded now (rl_rows s)" "fst (relay_send env now i body opts s) = Inr i"
      "rl_rows (snd (relay_send env now i body opts s)) = (case m of
         None \<Rightarrow> rl_rows s @ [outbound_row i now body opts]
       | Some x \<Rightarrow> attachTelegramMessageId i x (rl_rows s @ [outbound_row i now body opts]))"
      "rl_events (snd (relay_send env now i body opts s)) = rl_events s @ [(i, MsgOut)]"
proof (cases "outQuotaExceeded now (rl_rows s)")
  case True
  then show ?thesis using that(1) by (simp add: relay_send_def)
next
  case False
  let ?s0 = "s\<lparr> rl_rows := rl_rows s @ [outbound_row i now body opts] \<rparr>"
  obtain r s1 where r: "deliver env body opts i ?s0 = (r, s1)" by (cases "deliver env body opts i ?s0")
  have s1: "rl_rows s1 = rl_rows s @ [outbound_row i now body opts]" "rl_events s1 = rl_events s"
    using deliver_keeps [of env body opts i ?s0] by (simp_all add: r)
  have id: "rm_id (outbound_row i now body opts) = i" by (simp add: outbound_row_def)
  show ?thesis
  proof (cases r)
    case (Inl d)
    then show ?thesis using that(2) [of d] False r s1 by (simp add: relay_send_def insertOutbound_def id)
  next
    case (Inr m)
    then show ?thesis using that(3) [of m] False r s1
      by (cases m) (simp_all add: relay_send_def insertOutbound_def id Let_def)
  qed
qed

text \<open>A message of the session that Telegram does not take stays recorded, as the service promises: the row is
  there, once, before anything was sent, and no event says that it was delivered.\<close>

theorem failed_delivery_is_recorded:
  assumes "fst (relay_send env now new_id body opts s) = Inl (OtherError description)"
  shows "rl_rows (snd (relay_send env now new_id body opts s)) = rl_rows s @ [outbound_row new_id now body opts]
     \<and> rl_events (snd (relay_send env now new_id body opts s)) = rl_events s"
  using assms by (cases rule: send_effect [of now s env new_id body opts]) simp_all

definition deaf_env :: relay_env where
  "deaf_env = \<lparr> re_enabled = True, re_owner = 7, re_letnum = (\<lambda>_. False), re_api = (\<lambda>_ _. Inl ''Too Many Requests'') \<rparr>"

lemma empty_markdown: "markdownToTelegramHtml letnum [] = []"
proof -
  note regexes = FENCE_def TABLE_def INLINE_CODE_def LINK_def HEADING_def RULE_def QUOTE_def BULLET_def MARKER_def emphasis_def
    outside_def BOLD_STARS_def BOLD_LINES_def STRUCK_def ITALIC_STAR_def ITALIC_LINE_def italic_body_def three_or_more_def
    Some_of_def Few_of_def Lit_def blank_def dot_def any_char_def except_def
  have "replace_with FENCE f None [] a = ([], a)" "replace_with TABLE f None [] a = ([], a)"
    "replace_with INLINE_CODE f None [] a = ([], a)" for f :: "codepoints \<Rightarrow> (nat \<rightharpoonup> codepoints) \<Rightarrow> codepoints list \<Rightarrow> codepoints \<times> codepoints list" and a
    by (simp_all add: replace_with.simps regexes codes_def)
  moreover have "replace_matches r f [] = []" if "matches r (None, [], []) = []" for r f
    using that by (simp add: replace_matches_def replace_with.simps)
  ultimately show ?thesis
    by (simp add: markdownToTelegramHtml_def stash_code_def clean_input_def restore_def format_emphasis_def format_lines_def
        escapeHtml_def replace_one_def Let_def QUOTE_JOINT_def codes_def regexes eval_nat_numeral)
qed

lemma failed_delivery_is_recorded_witness:
  "rl_rows (snd (relay_send deaf_env 0 (codes ''a1'') [] None new_relay)) = [outbound_row (codes ''a1'') 0 [] None]
     \<and> rl_events (snd (relay_send deaf_env 0 (codes ''a1'') [] None new_relay)) = []"
proof -
  have "splitForTelegram TELEGRAM_CHUNK_LIMIT (to_units (markdownToTelegramHtml (\<lambda>_. False) [])) = [[]]"
    by (simp add: empty_markdown to_units_def splitForTelegram_def)
  then have "fst (relay_send deaf_env 0 (codes ''a1'') [] None new_relay) = Inl (OtherError ''Too Many Requests'')"
    by (simp add: relay_send_def deliver_def deaf_env_def new_relay_def outQuotaExceeded_def MAX_OUT_PER_HOUR_def
        insertOutbound_def sendWithPlainFallback_def call_api_def)
  from failed_delivery_is_recorded [OF this] show ?thesis by (simp add: new_relay_def)
qed

section \<open>The whole bridge\<close>

datatype relay_call =
    PostMessage "codepoints option" timestamp codepoints codepoints "codepoints list option"
  | GetInbox "codepoints option" timestamp
  | PostReply timestamp codepoints codepoints "codepoints option"
  | BotUpdate timestamp codepoints "int option" update

text \<open>A call, with the messages it gives to the session. \<open>expected\<close> is the token of the configuration.\<close>

definition relay_step :: "relay_env \<Rightarrow> (codepoints \<Rightarrow> bool) \<Rightarrow> codepoints option \<Rightarrow> relay_call \<Rightarrow> relay
    \<Rightarrow> RelayInboxMessage list \<times> relay" where
  "relay_step env isUuid expected c s =
     (case c of
        PostMessage header now new_id body opts \<Rightarrow> ([], snd (post_message env expected header now new_id body opts s))
      | GetInbox header now \<Rightarrow> (case get_inbox env expected header now s of
          (Inl e, s1) \<Rightarrow> ([], s1) | (Inr ms, s1) \<Rightarrow> (ms, s1))
      | PostReply now new_id body answerTo \<Rightarrow> ([], snd (post_reply isUuid now new_id body answerTo s))
      | BotUpdate now new_id chat u \<Rightarrow> ([], handle_update env now new_id chat u s))"

text \<open>What a call can do to the rows.\<close>

datatype row_effect =
    Kept
  | Filed timestamp codepoints codepoints "codepoints option"
  | Asked timestamp codepoints codepoints "codepoints list option" "int option"
  | Read timestamp

fun row_result :: "row_effect \<Rightarrow> RelayMessageRow list \<Rightarrow> RelayMessageRow list" where
  "row_result Kept rows = rows"
| "row_result (Filed now i body a) rows = rows @ [inbound_row i now body a]"
| "row_result (Asked now i body opts m) rows =
     (case m of None \<Rightarrow> rows @ [outbound_row i now body opts]
      | Some x \<Rightarrow> attachTelegramMessageId i x (rows @ [outbound_row i now body opts]))"
| "row_result (Read now) rows = snd (consumePending now rows)"

fun call_time :: "relay_call \<Rightarrow> timestamp" where
  "call_time (PostMessage _ now _ _ _) = now" | "call_time (GetInbox _ now) = now"
| "call_time (PostReply now _ _ _) = now" | "call_time (BotUpdate now _ _ _) = now"

fun effect_of :: "timestamp \<Rightarrow> RelayMessageRow list \<Rightarrow> row_effect \<Rightarrow> RelayInboxMessage list \<Rightarrow> bool" where
  "effect_of now rows Kept out \<longleftrightarrow> out = []"
| "effect_of now rows (Filed t _ _ _) out \<longleftrightarrow> t = now \<and> out = []"
| "effect_of now rows (Asked t _ _ _ _) out \<longleftrightarrow> t = now \<and> out = [] \<and> \<not> outQuotaExceeded now rows"
| "effect_of now rows (Read t) out \<longleftrightarrow> t = now \<and> out = map inbox_message (sort_key rm_createdAt (fst (consumePending now rows)))"

lemma handle_update_effect:
  "\<exists>e. rl_rows (handle_update env now i chat u s) = row_result e (rl_rows s) \<and> effect_of now (rl_rows s) e []"
proof -
  have keep: "\<exists>e. rl_rows s = row_result e (rl_rows s) \<and> effect_of now (rl_rows s) e []" by (rule exI [of _ Kept]) simp
  have one: "\<exists>e. snd (insertInbound i now b a (rl_rows s)) = row_result e (rl_rows s) \<and> effect_of now (rl_rows s) e []" for b a
    by (rule exI [of _ "Filed now i b a"]) (simp add: insertInbound_def)
  show ?thesis
    using keep one
    by (auto simp: handle_update_def on_press_def on_text_def note_down_def Let_def split: update.splits option.splits)
qed

lemma relay_step_effect:
  "\<exists>e. rl_rows (snd (relay_step env isUuid expected c s)) = row_result e (rl_rows s)
     \<and> effect_of (call_time c) (rl_rows s) e (fst (relay_step env isUuid expected c s))"
proof (cases c)
  case (PostMessage header now i body opts)
  show ?thesis
  proof (cases "(\<exists>e. canActivate expected header = Inl e) \<or> \<not> valid_body body \<or> \<not> valid_options opts \<or> (\<exists>e. assertEnabled env = Inl e)")
    case True
    then show ?thesis by (intro exI [of _ Kept]) (auto simp: relay_step_def PostMessage post_message_def split: sum.splits)
  next
    case False
    then have "snd (post_message env expected header now i body opts s) = snd (relay_send env now i body opts s)"
      by (auto simp: post_message_def split: sum.splits prod.splits)
    then have step: "relay_step env isUuid expected c s = ([], snd (relay_send env now i body opts s))" by (simp add: relay_step_def PostMessage)
    show ?thesis
    proof (cases rule: send_effect [of now s env i body opts])
      case quota
      then show ?thesis by (intro exI [of _ Kept]) (simp add: step)
    next
      case (failed d)
      then show ?thesis unfolding step by (intro exI [of _ "Asked now i body opts None"]) (simp add: PostMessage)
    next
      case (sent m)
      then show ?thesis unfolding step by (intro exI [of _ "Asked now i body opts m"]) (simp add: PostMessage)
    qed
  qed
next
  case (GetInbox header now)
  show ?thesis
  proof (cases "(\<exists>e. canActivate expected header = Inl e) \<or> (\<exists>e. assertEnabled env = Inl e)")
    case True
    then show ?thesis by (intro exI [of _ Kept]) (auto simp: relay_step_def GetInbox get_inbox_def split: sum.splits)
  next
    case False
    then show ?thesis
      by (intro exI [of _ "Read now"]) (auto simp: relay_step_def GetInbox get_inbox_def inbox_def split: sum.splits prod.splits)
  qed
next
  case (PostReply now i body a)
  then show ?thesis
    by (intro exI [of _ "if \<not> valid_body body \<or> (case a of Some a \<Rightarrow> \<not> isUuid a | None \<Rightarrow> False) then Kept else Filed now i body a"])
       (auto simp: relay_step_def post_reply_def reply_def insertInbound_def split: option.splits)
next
  case (BotUpdate now i chat u)
  then show ?thesis using handle_update_effect [of env now i chat u s] by (simp add: relay_step_def)
qed

section \<open>Every message of the owner is read once, in order\<close>

lemma row_result_queue:
  assumes "effect_of now rows e out"
  shows "mset out + mset (waiting (row_result e rows)) + mset (filed rows) = mset (waiting rows) + mset (filed (row_result e rows))"
    and "prefix (filed rows) (filed (row_result e rows))"
proof -
  have asked: "waiting (rows @ [outbound_row i t b os]) = waiting rows" "filed (rows @ [outbound_row i t b os]) = filed rows" for t i b os
    using after_outbound [of i t b os rows] by (simp_all add: insertOutbound_def)
  have in': "waiting (rows @ [inbound_row i t b a]) = waiting rows @ [inbox_message (inbound_row i t b a)]"
    "filed (rows @ [inbound_row i t b a]) = filed rows @ [inbox_message (inbound_row i t b a)]" for i t b a
    using after_inbound [of i t b a rows] by (simp_all add: insertInbound_def)
  have out: "mset (map inbox_message (sort_key rm_createdAt (fst (consumePending t rows)))) = mset (waiting rows)" for t
    unfolding after_consume(3) [of t rows, symmetric] by (simp only: mset_map mset_sort)
  show "mset out + mset (waiting (row_result e rows)) + mset (filed rows) = mset (waiting rows) + mset (filed (row_result e rows))"
  proof (cases e)
    case (Read t)
    then have "out = map inbox_message (sort_key rm_createdAt (fst (consumePending t rows)))" using assms by simp
    then have "mset out = mset (waiting rows)" using out by simp
    then show ?thesis using Read by simp
  qed (use assms in \<open>auto simp: in' asked split: option.splits\<close>)
  show "prefix (filed rows) (filed (row_result e rows))"
    by (cases e) (auto simp: in' asked split: option.splits)
qed

interpretation bridge: message_queue "relay_step env isUuid expected" "waiting \<circ> rl_rows" "filed \<circ> rl_rows"
  for env isUuid expected
proof
  fix c s
  obtain e where e: "rl_rows (snd (relay_step env isUuid expected c s)) = row_result e (rl_rows s)"
      "effect_of (call_time c) (rl_rows s) e (fst (relay_step env isUuid expected c s))"
    using relay_step_effect by blast
  show "mset (fst (relay_step env isUuid expected c s)) + mset ((waiting \<circ> rl_rows) (snd (relay_step env isUuid expected c s)))
      + mset ((filed \<circ> rl_rows) s) = mset ((waiting \<circ> rl_rows) s) + mset ((filed \<circ> rl_rows) (snd (relay_step env isUuid expected c s)))"
    using row_result_queue(1) [OF e(2)] by (simp add: e(1))
  show "prefix ((filed \<circ> rl_rows) s) ((filed \<circ> rl_rows) (snd (relay_step env isUuid expected c s)))"
    using row_result_queue(2) [OF e(2)] by (simp add: e(1))
qed

text \<open>C33: Whatever the session, the owner's dashboard and the chats send, in any order and at any times, the messages
  that the session has read and those that still wait are together the messages the owner filed, each
  exactly once: none is lost and none is read twice.\<close>

theorem owner_messages_read_once:
  "mset (concat (fst (run_steps (relay_step env isUuid expected) calls new_relay)))
     + mset (waiting (rl_rows (snd (run_steps (relay_step env isUuid expected) calls new_relay))))
   = mset (filed (rl_rows (snd (run_steps (relay_step env isUuid expected) calls new_relay))))"
  using bridge.given_once [of new_relay env isUuid expected calls] by (simp add: new_relay_def waiting_def filed_def)

text \<open>Under a clock that does not go back the table is sorted, so the sorting of \<open>inbox\<close> moves nothing.\<close>

definition dated :: "timestamp \<Rightarrow> RelayMessageRow list \<Rightarrow> bool" where
  "dated now rows \<longleftrightarrow> sorted (map rm_createdAt rows) \<and> list_all (\<lambda>r. rm_createdAt r \<le> now) rows"

lemma map_created_update: "(\<And>r. rm_createdAt (f r) = rm_createdAt r) \<Longrightarrow> map rm_createdAt (update_rows k f rows) = map rm_createdAt rows"
  by (induction rows) (auto simp: update_rows_def)

lemma dated_map: "dated now rows \<longleftrightarrow> sorted (map rm_createdAt rows) \<and> list_all (\<lambda>t. t \<le> now) (map rm_createdAt rows)"
  by (simp add: dated_def list_all_iff)

lemma dated_effect:
  assumes "dated now rows" "effect_of now rows e out"
  shows "dated now (row_result e rows)"
proof -
  have add: "dated now (rows @ [r])" if "rm_createdAt r = now" for r
    using assms(1) that by (auto simp: dated_def sorted_append list_all_iff)
  have att: "map rm_createdAt (attachTelegramMessageId i x rs) = map rm_createdAt rs" for i x rs
    by (simp add: attachTelegramMessageId_def map_created_update)
  have con: "map rm_createdAt (snd (consumePending t rows)) = map rm_createdAt rows" for t
    by (simp add: consumePending_def Let_def map_created_update)
  show ?thesis
  proof (cases e)
    case (Asked t i b os m)
    then have "dated now (rows @ [outbound_row i t b os])" using assms(2) by (intro add) (simp add: outbound_row_def)
    then show ?thesis unfolding dated_map using Asked by (simp add: att split: option.splits)
  next
    case (Filed t i b a)
    then have "dated now (rows @ [inbound_row i t b a])" using assms(2) by (intro add) (simp add: inbound_row_def)
    then show ?thesis using Filed by simp
  next
    case (Read t)
    then show ?thesis using assms(1) unfolding dated_map by (simp add: con)
  qed (use assms in simp)
qed

lemma read_in_order:
  assumes "sorted (map rm_createdAt rows)"
  shows "map inbox_message (sort_key rm_createdAt (fst (consumePending now rows))) = waiting rows"
proof -
  have "map rm_createdAt (fst (consumePending now rows)) = map rm_createdAt (filter is_waiting rows)"
    by (simp add: consumePending_def Let_def)
  moreover have "sorted (map rm_createdAt (filter is_waiting rows))" using assms by (rule sorted_filter)
  ultimately have "sort_key rm_createdAt (fst (consumePending now rows)) = fst (consumePending now rows)"
    by (simp add: sort_key_id_if_sorted)
  then show ?thesis using after_consume(3) by simp
qed

lemma dated_later: "dated now rows \<Longrightarrow> now \<le> later \<Longrightarrow> dated later rows"
  by (auto simp: dated_def list_all_iff)

lemma in_order_steps:
  assumes "sorted (map call_time calls)" "list_all (\<lambda>c. now \<le> call_time c) calls" "dated now (rl_rows s)" "given @ waiting (rl_rows s) = filed (rl_rows s)"
  shows "given @ concat (fst (run_steps (relay_step env isUuid expected) calls s))
      @ waiting (rl_rows (snd (run_steps (relay_step env isUuid expected) calls s)))
    = filed (rl_rows (snd (run_steps (relay_step env isUuid expected) calls s)))"
  using assms
proof (induction calls arbitrary: now s given)
  case (Cons c calls)
  obtain out s1 where step: "relay_step env isUuid expected c s = (out, s1)" by (cases "relay_step env isUuid expected c s")
  obtain e where e: "rl_rows s1 = row_result e (rl_rows s)" "effect_of (call_time c) (rl_rows s) e out"
    using relay_step_effect [of env isUuid expected c s] by (auto simp: step)
  have dated: "dated (call_time c) (rl_rows s)" using Cons.prems(2,3) dated_later by auto
  then have "dated (call_time c) (rl_rows s1)" using dated_effect e by simp
  moreover have "(given @ out) @ waiting (rl_rows s1) = filed (rl_rows s1)"
  proof (cases e)
    case (Filed t i b a)
    then show ?thesis using e Cons.prems(4) after_inbound [of i t b a "rl_rows s"] by (simp add: insertInbound_def)
  next
    case (Asked t i b os m)
    then show ?thesis using e Cons.prems(4) after_outbound [of i t b os "rl_rows s"]
      by (simp add: insertOutbound_def split: option.splits)
  next
    case (Read t)
    then have "out = waiting (rl_rows s)" using e(2) read_in_order dated by (simp add: dated_def)
    then show ?thesis using e Cons.prems(4) Read by simp
  qed (use e Cons.prems(4) in simp)
  ultimately have "(given @ out) @ concat (fst (run_steps (relay_step env isUuid expected) calls s1))
      @ waiting (rl_rows (snd (run_steps (relay_step env isUuid expected) calls s1)))
    = filed (rl_rows (snd (run_steps (relay_step env isUuid expected) calls s1)))"
    using Cons.prems(1) by (intro Cons.IH [of "call_time c"]) (simp_all add: list_all_iff)
  then show ?case by (cases "run_steps (relay_step env isUuid expected) calls s1") (simp add: step)
qed simp

text \<open>When the clock does not go back the bridge is a queue: what the session has read, followed by what waits, is the
  list of the owner's messages in the order they were filed, however reads and messages interleave.\<close>

theorem owner_messages_read_in_order:
  assumes "sorted (map call_time calls)"
  shows "concat (fst (run_steps (relay_step env isUuid expected) calls new_relay))
      @ waiting (rl_rows (snd (run_steps (relay_step env isUuid expected) calls new_relay)))
    = filed (rl_rows (snd (run_steps (relay_step env isUuid expected) calls new_relay)))"
proof -
  define start where "start = (if calls = [] then 0 else call_time (hd calls))"
  have "list_all (\<lambda>c. start \<le> call_time c) calls" using assms by (cases calls) (auto simp: start_def list_all_iff)
  then show ?thesis
    using in_order_steps [of calls start new_relay "[]"] assms by (simp add: new_relay_def dated_def waiting_def filed_def)
qed

definition sample_calls :: "relay_call list" where
  "sample_calls = [BotUpdate 10 (codes ''m1'') (Some 7) (TextMessage (codes ''stop'') None),
     PostReply 20 (codes ''m2'') (codes ''go on'') None,
     GetInbox (Some (codes ''Bearer key'')) 30,
     BotUpdate 40 (codes ''m3'') (Some 7) (TextMessage (codes ''now'') None)]"

lemma owner_messages_read_in_order_witness:
  "map im_id (concat (fst (run_steps (relay_step deaf_env (\<lambda>_. True) (Some (codes ''key''))) sample_calls new_relay))
      @ waiting (rl_rows (snd (run_steps (relay_step deaf_env (\<lambda>_. True) (Some (codes ''key''))) sample_calls new_relay))))
    = map im_id (filed (rl_rows (snd (run_steps (relay_step deaf_env (\<lambda>_. True) (Some (codes ''key''))) sample_calls new_relay))))"
proof -
  have "sorted (map call_time sample_calls)" by (simp add: sample_calls_def)
  from owner_messages_read_in_order [OF this, of deaf_env "\<lambda>_. True" "Some (codes ''key'')"] show ?thesis by (simp only:)
qed

section \<open>The quota\<close>

definition sent_between :: "timestamp \<Rightarrow> timestamp \<Rightarrow> RelayMessageRow list \<Rightarrow> nat" where
  "sent_between a b rows = length (filter (\<lambda>t. a \<le> t \<and> t \<le> b) (map rm_createdAt (filter (\<lambda>r. rm_direction r = MsgOut) rows)))"

definition within_quota :: "RelayMessageRow list \<Rightarrow> bool" where
  "within_quota rows \<longleftrightarrow> (\<forall>t. sent_between (t - 60 * 60 * 1000) t rows \<le> MAX_OUT_PER_HOUR)"

lemma sent_between_marks:
  assumes "\<And>r. rm_createdAt (f r) = rm_createdAt r" "\<And>r. rm_direction (f r) = rm_direction r"
  shows "sent_between a b (update_rows k f rows) = sent_between a b rows"
  unfolding sent_between_def by (subst map_update_rows) (simp_all add: assms)

lemma quota_outbound:
  assumes "within_quota rows" "\<not> outQuotaExceeded now rows"
  shows "within_quota (rows @ [outbound_row i now b os])"
  unfolding within_quota_def
proof
  fix t
  let ?H = "60 * 60 * 1000 :: int"
  show "sent_between (t - ?H) t (rows @ [outbound_row i now b os]) \<le> MAX_OUT_PER_HOUR"
  proof (cases "t - ?H \<le> now \<and> now \<le> t")
    case False
    then have "sent_between (t - ?H) t (rows @ [outbound_row i now b os]) = sent_between (t - ?H) t rows"
      by (auto simp: sent_between_def outbound_row_def)
    then show ?thesis using assms(1) by (simp add: within_quota_def)
  next
    case True
    have "sent_between (t - ?H) t rows \<le> length (filter (\<lambda>r. rm_direction r = MsgOut \<and> now - ?H \<le> rm_createdAt r) rows)"
    proof -
      have "sent_between (t - ?H) t rows = length (filter (\<lambda>r. rm_direction r = MsgOut \<and> t - ?H \<le> rm_createdAt r \<and> rm_createdAt r \<le> t) rows)"
        unfolding sent_between_def by (induction rows) auto
      moreover have *: "length (filter P xs) \<le> length (filter Q xs)" if "\<And>x. P x \<Longrightarrow> Q x" for P Q :: "RelayMessageRow \<Rightarrow> bool" and xs
        using that by (induction xs) auto
      have "length (filter (\<lambda>r. rm_direction r = MsgOut \<and> t - ?H \<le> rm_createdAt r \<and> rm_createdAt r \<le> t) rows)
          \<le> length (filter (\<lambda>r. rm_direction r = MsgOut \<and> now - ?H \<le> rm_createdAt r) rows)"
        by (rule *) (use True in auto)
      ultimately show ?thesis by simp
    qed
    then have "sent_between (t - ?H) t rows < MAX_OUT_PER_HOUR" using assms(2) by (simp add: outQuotaExceeded_def)
    then show ?thesis using True by (simp add: sent_between_def outbound_row_def)
  qed
qed

lemma quota_effect:
  assumes "within_quota rows" "effect_of now rows e out"
  shows "within_quota (row_result e rows)"
proof (cases e)
  case (Asked t i b os m)
  then have *: "within_quota (rows @ [outbound_row i t b os])" using assms quota_outbound by simp
  have "sent_between a b' (attachTelegramMessageId i x rs) = sent_between a b' rs" for a b' x rs
    unfolding attachTelegramMessageId_def by (rule sent_between_marks) simp_all
  then show ?thesis using * Asked by (simp add: within_quota_def split: option.splits)
next
  case (Read t)
  have "sent_between a b (snd (consumePending t rows)) = sent_between a b rows" for a b
    unfolding consumePending_def Let_def snd_conv by (rule sent_between_marks) simp_all
  then show ?thesis using assms Read by (simp add: within_quota_def)
qed (use assms in \<open>auto simp: within_quota_def sent_between_def inbound_row_def\<close>)

lemma quota_steps:
  "within_quota (rl_rows s) \<Longrightarrow> within_quota (rl_rows (snd (run_steps (relay_step env isUuid expected) calls s)))"
proof (induction calls arbitrary: s)
  case (Cons c calls)
  obtain e where "rl_rows (snd (relay_step env isUuid expected c s)) = row_result e (rl_rows s)"
      "effect_of (call_time c) (rl_rows s) e (fst (relay_step env isUuid expected c s))"
    using relay_step_effect by blast
  then have "within_quota (rl_rows (snd (relay_step env isUuid expected c s)))" using Cons.prems quota_effect by metis
  from Cons.IH [OF this] show ?case
    by (cases "relay_step env isUuid expected c s") (auto split: prod.splits)
qed simp


section \<open>The buttons\<close>

text \<open>C35: The press of a button, from any chat and with any data, changes no row; or it came from the owner's
  chat, names a question that is in the table with an option it offers, that question had no answer yet, and the
  option is filed as its answer.\<close>

theorem press_answers_open_question:
  "rl_rows (handle_update env now new_id chat (Press cdata) s) = rl_rows s
   \<or> chat = Some (re_owner env)
     \<and> (\<exists>q opts i. List.member (rl_rows s) q \<and> rm_direction q = MsgOut \<and> rm_options q = Some opts \<and> i < length opts \<and> i < MAX_OPTIONS
         \<and> findAnswer (rm_id q) (rl_rows s) = None
         \<and> rl_rows (handle_update env now new_id chat (Press cdata) s) = rl_rows s @ [inbound_row new_id now (opts ! i) (Some (rm_id q))])"
proof (cases "chat = Some (re_owner env)")
  case True
  show ?thesis
  proof (cases "parseCallbackData cdata")
    case (Some qi)
    obtain qid i where qi: "qi = (qid, i)" by (cases qi)
    have i: "i < MAX_OPTIONS"
      using Some qi small_integer_below by (auto simp: parseCallbackData_def split: list.splits if_splits)
    show ?thesis
    proof (cases "findOutbound qid (rl_rows s)")
      case (Some q)
      note q = findOutbound_SomeD [OF Some]
      note data = \<open>parseCallbackData cdata = Some qi\<close> qi
      show ?thesis
      proof (cases "\<exists>opts. rm_options q = Some opts \<and> i < length opts \<and> findAnswer (rm_id q) (rl_rows s) = None")
        case False
        then have "rl_rows (handle_update env now new_id chat (Press cdata) s) = rl_rows s"
          using True data Some by (cases "rm_options q") (auto simp: handle_update_def on_press_def note_down_def split: option.splits)
        then show ?thesis by blast
      next
        case open_question: True
        then obtain opts where opts: "rm_options q = Some opts" "i < length opts" "findAnswer (rm_id q) (rl_rows s) = None" by blast
        then have "rl_rows (handle_update env now new_id chat (Press cdata) s)
            = rl_rows s @ [inbound_row new_id now (opts ! i) (Some (rm_id q))]"
          using True data Some by (simp add: handle_update_def on_press_def note_down_def insertInbound_def)
        moreover have "List.member (rl_rows s) q" "rm_direction q = MsgOut" using q by simp_all
        ultimately show ?thesis using True opts i by blast
      qed
    qed (use \<open>parseCallbackData cdata = Some qi\<close> qi in \<open>simp add: handle_update_def on_press_def note_down_def\<close>)
  qed (simp add: handle_update_def on_press_def note_down_def)
qed (simp add: handle_update_def)

section \<open>The token\<close>

text \<open>The requests of the session pass with the configured token, whole and unchanged, and with nothing else;
  without a configured token none passes.\<close>

theorem only_the_token_passes:
  assumes "list_all scalar token" "list_all (list_all scalar) (case header of Some h \<Rightarrow> [h] | None \<Rightarrow> [])"
  shows "canActivate (Some token) header = Inr True \<longleftrightarrow> token \<noteq> [] \<and> header = Some (codes ''Bearer '' @ token)"
proof (cases header)
  case None
  then show ?thesis by (simp add: canActivate_def Let_def)
next
  case (Some h)
  show ?thesis
  proof (cases "prefix (codes ''Bearer '') h")
    case False
    then show ?thesis using Some by (auto simp: canActivate_def Let_def)
  next
    case True
    then obtain p where p: "h = codes ''Bearer '' @ p" by (auto simp: prefix_def)
    then have "list_all scalar p" using assms(2) Some by simp
    then have "utf8_bytes p = utf8_bytes token \<longleftrightarrow> p = token"
      using assms(1) utf8_decode_bytes unfolding list_all_iff by metis
    moreover have "drop 7 h = p" using p by (simp add: codes_def)
    ultimately show ?thesis using Some True p by (auto simp: canActivate_def Let_def safeEquals_def)
  qed
qed

lemma only_the_token_passes_witness:
  "canActivate (Some (codes ''key'')) (Some (codes ''Bearer key'')) = Inr True"
proof -
  have "list_all scalar (codes ''key'')" "list_all scalar (codes ''Bearer key'')" by (simp_all add: codes_def scalar_def)
  then show ?thesis
    using only_the_token_passes [of "codes ''key''" "Some (codes ''Bearer key'')"] by (simp add: codes_def)
qed

section \<open>The buttons of a long question\<close>

lemma deliver_all_taken:
  assumes "re_api env = (\<lambda>calls _. Inr (ids (length calls)))"
  shows "fst (deliver_chunks env kb (chunk # chunks) first s) = Inr (Some (if first = None then ids (length (rl_calls s)) else the first))
     \<and> map og_keyboard (rl_calls (snd (deliver_chunks env kb (chunk # chunks) first s)))
         = map og_keyboard (rl_calls s) @ replicate (length chunks) None @ [kb]"
proof (induction chunks arbitrary: chunk first s)
  case Nil
  then show ?case by (simp add: sendWithPlainFallback_def call_api_def assms)
next
  case (Cons chunk' chunks)
  define s1 where "s1 = s\<lparr> rl_calls := rl_calls s @ [\<lparr> og_text = chunk, og_html = True, og_keyboard = None \<rparr>] \<rparr>"
  have "deliver_chunks env kb (chunk # chunk' # chunks) first s
      = deliver_chunks env kb (chunk' # chunks) (if first = None then Some (ids (length (rl_calls s))) else first) s1"
    by (simp add: sendWithPlainFallback_def call_api_def assms s1_def)
  then show ?case using Cons.IH [of chunk' "if first = None then Some (ids (length (rl_calls s))) else first" s1]
    by (simp add: s1_def split: if_splits)
qed

text \<open>When Telegram takes every part of a question, the buttons are on its last part, and the identifier that is
  recorded, by which a citing answer finds its question, is that of the first part. For a question in one part both
  are the same message; for a longer one the message with the buttons is not the recorded one.\<close>

theorem buttons_on_last_part:
  assumes "re_enabled env" "re_api env = (\<lambda>calls _. Inr (ids (length calls)))"
    and "splitForTelegram TELEGRAM_CHUNK_LIMIT (to_units (markdownToTelegramHtml (re_letnum env) body)) = chunk # chunks"
  shows "fst (deliver env body (Some (o1 # os)) questionId s) = Inr (Some (ids (length (rl_calls s))))
     \<and> map og_keyboard (rl_calls (snd (deliver env body (Some (o1 # os)) questionId s)))
         = map og_keyboard (rl_calls s) @ replicate (length chunks) None @ [Some (buildKeyboard questionId (o1 # os))]"
  using deliver_all_taken [OF assms(2), of _ chunk chunks None s] assms(1,3) by (simp add: deliver_def)

definition bridge_env :: relay_env where
  "bridge_env = \<lparr> re_enabled = True, re_owner = 7, re_letnum = (\<lambda>_. False), re_api = (\<lambda>calls _. Inr (500 + int (length calls))) \<rparr>"

lemma buttons_on_last_part_witness:
  "fst (deliver bridge_env [] (Some [codes ''yes'', codes ''no'']) (codes ''a1'') new_relay) = Inr (Some 500)
   \<and> map og_keyboard (rl_calls (snd (deliver bridge_env [] (Some [codes ''yes'', codes ''no'']) (codes ''a1'') new_relay)))
       = [Some [(codes ''yes'', codes ''q:a1:0''), (codes ''no'', codes ''q:a1:1'')]]"
proof -
  have "splitForTelegram TELEGRAM_CHUNK_LIMIT (to_units (markdownToTelegramHtml (re_letnum bridge_env) [])) = [[]]"
    by (simp add: empty_markdown to_units_def splitForTelegram_def)
  moreover have "re_enabled bridge_env" "re_api bridge_env = (\<lambda>calls _. Inr ((\<lambda>n. 500 + int n) (length calls)))"
    by (simp_all add: bridge_env_def)
  moreover have "buildKeyboard (codes ''a1'') [codes ''yes'', codes ''no''] = [(codes ''yes'', codes ''q:a1:0''), (codes ''no'', codes ''q:a1:1'')]"
    by (simp add: buildKeyboard_def buildCallbackData_def CALLBACK_PREFIX_def codes_def show_nat.simps digit_char_def upt_rec)
  ultimately show ?thesis
    using buttons_on_last_part [of bridge_env "\<lambda>n. 500 + int n" "[]" "[]" "[]" "codes ''yes''" "[codes ''no'']" "codes ''a1''" new_relay]
    by (simp add: new_relay_def)
qed

end
