(* ===== verification/Rate_Limit.thy ===== *)
theory Rate_Limit
  imports Jin_Prelude
begin

text \<open>
  The limit of requests (\<open>src/rate-limit/redis-throttler-storage.service.ts\<close>): a counter with a fixed window and a block
  in Redis. Redis is a map from keys to a number and the time it ends; a command that fails has no time. The guard that
  asks for the count and refuses what is blocked belongs to the framework.
\<close>

type_synonym redis = "string \<rightharpoonup> nat \<times> int option"

definition redis_get :: "int \<Rightarrow> redis \<Rightarrow> string \<Rightarrow> (nat \<times> int option) option" where
  "redis_get now r k =
     (case r k of None \<Rightarrow> None
      | Some (v, e) \<Rightarrow> (case e of None \<Rightarrow> Some (v, None) | Some t \<Rightarrow> if now < t then Some (v, Some t) else None))"

text \<open>\<open>PTTL\<close>: \<open>-2\<close> without the key, \<open>-1\<close> for a key that does not end.\<close>

definition redis_pttl :: "int \<Rightarrow> redis \<Rightarrow> string \<Rightarrow> int" where
  "redis_pttl now r k =
     (case redis_get now r k of None \<Rightarrow> - 2 | Some (v, None) \<Rightarrow> - 1 | Some (v, Some t) \<Rightarrow> t - now)"

definition redis_set_px :: "int \<Rightarrow> redis \<Rightarrow> string \<Rightarrow> nat \<Rightarrow> int \<Rightarrow> redis" where
  "redis_set_px now r k v ms = r(k \<mapsto> (v, Some (now + ms)))"

text \<open>The script: \<open>INCR\<close> and, for a new key, \<open>PEXPIRE\<close> (which removes the key when the time is not positive).\<close>

definition INCR_WITH_TTL :: "int \<Rightarrow> redis \<Rightarrow> string \<Rightarrow> int \<Rightarrow> nat \<times> redis" where
  "INCR_WITH_TTL now r k ttl =
     (case redis_get now r k of
        None \<Rightarrow> (1, if ttl \<le> 0 then r(k := None) else r(k \<mapsto> (1, Some (now + ttl))))
      | Some (v, e) \<Rightarrow>
          (if v + 1 = 1 then (1, if ttl \<le> 0 then r(k := None) else r(k \<mapsto> (1, Some (now + ttl))))
           else (v + 1, r(k \<mapsto> (v + 1, e)))))"

definition buildBucketKey :: "string \<Rightarrow> string \<Rightarrow> string" where
  "buildBucketKey key throttlerName = ''throttle:'' @ throttlerName @ '':'' @ key"

definition buildBlockKey :: "string \<Rightarrow> string \<Rightarrow> string" where
  "buildBlockKey key throttlerName = ''throttle-block:'' @ throttlerName @ '':'' @ key"

record RedisThrottlerRecord =
  totalHits :: nat
  timeToExpire :: int
  isBlocked :: bool
  timeToBlockExpire :: int

definition ceil_seconds :: "int \<Rightarrow> int" where
  "ceil_seconds ms = - ((- ms) div 1000)"

text \<open>The four commands of a request, and when each runs; \<open>None\<close> when Redis does not answer.\<close>

record redis_times =
  at_pttl_block :: "int option"
  at_eval :: "int option"
  at_pttl_bucket :: "int option"
  at_set_block :: "int option"

record throttled =
  th_key :: string
  th_ttl :: int
  th_limit :: nat
  th_block :: int
  th_name :: string

definition fail_open :: RedisThrottlerRecord where
  "fail_open = \<lparr> totalHits = 0, timeToExpire = 0, isBlocked = False, timeToBlockExpire = 0 \<rparr>"

definition increment_counted :: "redis_times \<Rightarrow> throttled \<Rightarrow> redis \<Rightarrow> RedisThrottlerRecord \<times> redis" where
  "increment_counted at q r =
     (case at_eval at of
        None \<Rightarrow> (fail_open, r)
      | Some now \<Rightarrow>
          (case INCR_WITH_TTL now r (buildBucketKey (th_key q) (th_name q)) (th_ttl q) of
             (hits, r1) \<Rightarrow>
               (case at_pttl_bucket at of
                  None \<Rightarrow> (fail_open, r1)
                | Some now2 \<Rightarrow>
                    (let bucketPttl = redis_pttl now2 r1 (buildBucketKey (th_key q) (th_name q));
                         expire = ceil_seconds (max bucketPttl 0)
                     in if hits > th_limit q
                        then (case at_set_block at of
                                None \<Rightarrow> (fail_open, r1)
                              | Some now3 \<Rightarrow>
                                  (\<lparr> totalHits = hits, timeToExpire = expire, isBlocked = True,
                                     timeToBlockExpire = ceil_seconds (th_block q) \<rparr>,
                                   redis_set_px now3 r1 (buildBlockKey (th_key q) (th_name q)) 1 (th_block q)))
                        else (\<lparr> totalHits = hits, timeToExpire = expire, isBlocked = False, timeToBlockExpire = 0 \<rparr>, r1)))))"

definition increment :: "redis_times \<Rightarrow> throttled \<Rightarrow> redis \<Rightarrow> RedisThrottlerRecord \<times> redis" where
  "increment at q r =
     (case at_pttl_block at of
        None \<Rightarrow> (fail_open, r)
      | Some now \<Rightarrow>
          (let blockPttl = redis_pttl now r (buildBlockKey (th_key q) (th_name q))
           in if blockPttl > 0
              then (\<lparr> totalHits = th_limit q + 1, timeToExpire = ceil_seconds blockPttl, isBlocked = True,
                      timeToBlockExpire = ceil_seconds blockPttl \<rparr>, r)
              else increment_counted at q r))"

text \<open>The requests of a server, one after the other; the second part of the result are those that were let through.\<close>

fun throttle_all :: "(redis_times \<times> throttled) list \<Rightarrow> redis \<Rightarrow> RedisThrottlerRecord list \<times> redis" where
  "throttle_all [] r = ([], r)"
| "throttle_all ((at, q) # qs) r =
     (case increment at q r of (a, r1) \<Rightarrow> (case throttle_all qs r1 of (as, r2) \<Rightarrow> (a # as, r2)))"

text \<open>How many requests of a bucket are let through.\<close>

fun let_through :: "string \<Rightarrow> (redis_times \<times> throttled) list \<Rightarrow> redis \<Rightarrow> nat" where
  "let_through b [] r = 0"
| "let_through b ((at, q) # qs) r =
     (case increment at q r of
        (a, r1) \<Rightarrow> (if buildBucketKey (th_key q) (th_name q) = b \<and> \<not> isBlocked a then 1 else 0) + let_through b qs r1)"

section \<open>Keys\<close>

lemma block_key_is_no_bucket [simp]:
  "buildBlockKey k n \<noteq> buildBucketKey k' n'" "buildBucketKey k' n' \<noteq> buildBlockKey k n"
  by (simp_all add: buildBlockKey_def buildBucketKey_def)

section \<open>When Redis does not answer\<close>

text \<open>A request is let through whenever a command fails: the limit never takes the system down.\<close>

lemma increment_fails_open:
  assumes "at_pttl_block at = None \<or> at_eval at = None \<and> \<not> isBlocked (fst (increment at q r))"
  shows "fst (increment at q r) = fail_open"
  using assms by (auto simp: increment_def increment_counted_def Let_def split: option.splits if_splits)

section \<open>The block\<close>

text \<open>What is over the limit blocks the key, and until the block ends every request of the key is refused without a
  count.\<close>

lemma over_the_limit_blocks:
  assumes "isBlocked (fst (increment at q r))" "totalHits (fst (increment at q r)) \<noteq> th_limit q + 1 \<or> redis_pttl (the (at_pttl_block at)) r (buildBlockKey (th_key q) (th_name q)) \<le> 0"
  obtains t where "at_set_block at = Some t" "snd (increment at q r) (buildBlockKey (th_key q) (th_name q)) = Some (1, Some (t + th_block q))"
  using assms
  by (auto simp: increment_def increment_counted_def Let_def fail_open_def redis_set_px_def split: option.splits if_splits prod.splits)

lemma blocked_until:
  assumes "r (buildBlockKey (th_key q) (th_name q)) = Some (v, Some t)" "at_pttl_block at = Some now" "now < t"
  shows "isBlocked (fst (increment at q r)) \<and> snd (increment at q r) = r"
  using assms by (simp add: increment_def redis_pttl_def redis_get_def Let_def)

section \<open>At most twice the limit\<close>

definition bucket_of :: "redis_times \<times> throttled \<Rightarrow> string" where
  "bucket_of x = buildBucketKey (th_key (snd x)) (th_name (snd x))"

text \<open>A request of a bucket with the given window and limit, answered by Redis, whose count is raised at a time between
  the two given.\<close>

definition answered_between :: "int \<Rightarrow> int \<Rightarrow> int \<Rightarrow> nat \<Rightarrow> redis_times \<times> throttled \<Rightarrow> bool" where
  "answered_between lo hi T L x =
     (case x of (at, q) \<Rightarrow>
        th_ttl q = T \<and> th_limit q = L \<and> at_pttl_block at \<noteq> None \<and> at_pttl_bucket at \<noteq> None \<and> at_set_block at \<noteq> None
        \<and> (case at_eval at of None \<Rightarrow> False | Some t \<Rightarrow> lo \<le> t \<and> t < hi))"

text \<open>The requests of the bucket \<open>b\<close> among others, in the order of their times.\<close>

fun steady :: "string \<Rightarrow> int \<Rightarrow> int \<Rightarrow> int \<Rightarrow> nat \<Rightarrow> (redis_times \<times> throttled) list \<Rightarrow> bool" where
  "steady b lo hi T L [] = True"
| "steady b lo hi T L (x # xs) =
     (if bucket_of x = b
      then answered_between lo hi T L x \<and> steady b (the (at_eval (fst x))) hi T L xs
      else steady b lo hi T L xs)"

text \<open>What a bucket can still let through before \<open>hi\<close>: nothing more than its limit once its counter lives on, and a whole
  new window besides when it ends before.\<close>

definition room :: "nat \<Rightarrow> int \<Rightarrow> int \<Rightarrow> (nat \<times> int option) option \<Rightarrow> nat" where
  "room L lo hi st =
     (case st of None \<Rightarrow> L
      | Some (v, None) \<Rightarrow> L - v
      | Some (v, Some t) \<Rightarrow> if t \<le> lo then L else if hi \<le> t then L - v else (L - v) + L)"

lemma room_le: "room L lo hi st \<le> 2 * L"
  by (auto simp: room_def split: option.splits)

lemma room_later: "lo \<le> now \<Longrightarrow> now < hi \<Longrightarrow> room L now hi st \<le> room L lo hi st"
  by (auto simp: room_def split: option.splits)

lemma increment_other_bucket:
  assumes "buildBucketKey (th_key q) (th_name q) \<noteq> buildBucketKey k n"
  shows "snd (increment at q r) (buildBucketKey k n) = r (buildBucketKey k n)"
  using assms
  by (auto simp: increment_def increment_counted_def INCR_WITH_TTL_def redis_set_px_def Let_def split: option.splits prod.splits if_splits)

lemma counted_room:
  assumes "INCR_WITH_TTL now r b T = (hits, r1)" "lo \<le> now" "now < hi" "hi \<le> now + T"
  shows "(if hits \<le> L then 1 else 0) + room L now hi (r1 b) \<le> room L lo hi (r b)"
proof (cases "redis_get now r b")
  case None
  then have dead: "r b = None \<or> (\<exists>v t. r b = Some (v, Some t) \<and> t \<le> now)"
    by (auto simp: redis_get_def split: option.splits if_splits)
  have "hits = 1" "r1 b = Some (1, Some (now + T))"
    using None assms by (auto simp: INCR_WITH_TTL_def)
  then show ?thesis using dead assms by (auto simp: room_def)
next
  case (Some c)
  obtain v e where c: "c = (v, e)" by (cases c)
  have st: "r b = Some (v, e)" "e = None \<or> (\<exists>t. e = Some t \<and> now < t)"
    using Some c by (auto simp: redis_get_def split: option.splits if_splits)
  show ?thesis
  proof (cases v)
    case 0
    then have "hits = 1" "r1 b = Some (1, Some (now + T))"
      using Some c assms by (auto simp: INCR_WITH_TTL_def)
    then show ?thesis using st 0 assms by (auto simp: room_def)
  next
    case (Suc w)
    then have "hits = v + 1" "r1 b = Some (v + 1, e)"
      using Some c assms by (auto simp: INCR_WITH_TTL_def)
    then show ?thesis using st assms by (auto simp: room_def)
  qed
qed

lemma increment_room:
  assumes "answered_between lo hi T L (at, q)" "hi \<le> lo + T" "buildBucketKey (th_key q) (th_name q) = b"
  shows "(if isBlocked (fst (increment at q r)) then 0 else 1) + room L (the (at_eval at)) hi (snd (increment at q r) b) \<le> room L lo hi (r b)"
proof -
  obtain now nb n2 n3 where at: "at_eval at = Some now" "at_pttl_block at = Some nb" "at_pttl_bucket at = Some n2" "at_set_block at = Some n3"
    and q: "th_ttl q = T" "th_limit q = L" and win: "lo \<le> now" "now < hi"
    using assms(1) by (auto simp: answered_between_def split: option.splits)
  show ?thesis
  proof (cases "redis_pttl nb r (buildBlockKey (th_key q) (th_name q)) > 0")
    case True
    then show ?thesis using at room_later [OF win] by (simp add: increment_def Let_def)
  next
    case False
    obtain hits r1 where c: "INCR_WITH_TTL now r b T = (hits, r1)" by (cases "INCR_WITH_TTL now r b T")
    have "b \<noteq> buildBlockKey (th_key q) (th_name q)" using assms(3) by auto
    then have "isBlocked (fst (increment at q r)) = (hits > L)" "snd (increment at q r) b = r1 b"
      using False at q c assms(3)
      by (simp_all add: increment_def increment_counted_def Let_def redis_set_px_def)
    then show ?thesis using counted_room [OF c win, of L] assms(2) win at by (simp split: if_splits)
  qed
qed

lemma let_through_room:
  assumes "steady (buildBucketKey k n) lo hi T L qs" "hi \<le> lo + T"
  shows "let_through (buildBucketKey k n) qs r \<le> room L lo hi (r (buildBucketKey k n))"
  using assms
proof (induction qs arbitrary: lo r)
  case (Cons x qs)
  obtain at q where x: "x = (at, q)" by (cases x)
  obtain a r1 where i: "increment at q r = (a, r1)" by (cases "increment at q r")
  show ?case
  proof (cases "bucket_of x = buildBucketKey k n")
    case True
    then have w: "answered_between lo hi T L (at, q)" "steady (buildBucketKey k n) (the (at_eval at)) hi T L qs"
      using Cons.prems x by auto
    have "lo \<le> the (at_eval at)" using w(1) by (auto simp: answered_between_def split: option.splits)
    then have "let_through (buildBucketKey k n) qs r1 \<le> room L (the (at_eval at)) hi (r1 (buildBucketKey k n))"
      using Cons.IH [OF w(2)] Cons.prems(2) by simp
    moreover have "(if isBlocked a then 0 else 1) + room L (the (at_eval at)) hi (r1 (buildBucketKey k n)) \<le> room L lo hi (r (buildBucketKey k n))"
      using increment_room [OF w(1) Cons.prems(2), of "buildBucketKey k n" r] True x i by (simp add: bucket_of_def)
    ultimately show ?thesis using True x i by (simp add: bucket_of_def split: if_splits)
  next
    case False
    then have "r1 (buildBucketKey k n) = r (buildBucketKey k n)"
      using increment_other_bucket [of q k n at r] x i by (simp add: bucket_of_def)
    then show ?thesis using False x i Cons.IH [of lo r1] Cons.prems by (simp add: bucket_of_def)
  qed
qed simp

text \<open>C39: However the requests of a client are spread, and whatever the others do, no stretch of time as long as the window
  (wherever it starts, not only where a window of the counter does) lets more than twice the limit through, as long as
  Redis answers.\<close>

theorem at_most_twice_the_limit:
  assumes "steady (buildBucketKey k n) start (start + T) T L qs"
  shows "let_through (buildBucketKey k n) qs r \<le> 2 * L"
  using let_through_room [OF assms] room_le [of L start "start + T"] order_trans by fastforce

text \<open>More than the limit does pass: the limit is two and the counter was started by one request at 0, so it ends at 100; of
  the requests at 99, 100, 101 and 102 the first three pass within four milliseconds.\<close>

definition sample_hits :: "(redis_times \<times> throttled) list" where
  "sample_hits = map (\<lambda>t. (\<lparr> at_pttl_block = Some t, at_eval = Some t, at_pttl_bucket = Some t, at_set_block = Some t \<rparr>,
      \<lparr> th_key = ''ip'', th_ttl = 100, th_limit = 2, th_block = 100, th_name = ''default'' \<rparr>)) [99, 100, 101, 102]"

lemma at_most_twice_the_limit_witness:
  "let_through (buildBucketKey ''ip'' ''default'') sample_hits Map.empty \<le> 4"
proof -
  have "steady (buildBucketKey ''ip'' ''default'') 99 (99 + 100) 100 2 sample_hits"
    by (simp add: sample_hits_def bucket_of_def answered_between_def)
  from at_most_twice_the_limit [OF this] show ?thesis by simp
qed

lemma more_than_the_limit_passes:
  "let_through (buildBucketKey ''ip'' ''default'') sample_hits [buildBucketKey ''ip'' ''default'' \<mapsto> (1, Some 100)] = 3"
  by code_simp

end
