(* ===== verification/Preview_Template.thy ===== *)
theory Preview_Template
  imports Owner_Terminal Js_Json Js_Regex
begin

text \<open>
  What a demo is made of (\<open>src/executor-client/demo-env.logic.ts\<close>, \<open>preview-template.logic.ts\<close>) and what may be
  saved of a project (\<open>src/project-snapshots/project-snapshot.logic.ts\<close>): the checks on the variables of the
  environment, the files that look like secrets, and the request to the executor that a template stands for. An
  object with string keys is a list of pairs with distinct keys; the texts are of the Latin-1 range. The source of
  the static server, which runs in the pod and not in this program, is an argument.
\<close>

section \<open>The variables of a demo\<close>

definition MAX_ENV_VARS :: nat where "MAX_ENV_VARS = 30"
definition MAX_ENV_VALUE_BYTES :: nat where "MAX_ENV_VALUE_BYTES = 8 * 1024"
definition MAX_ENV_TOTAL_BYTES :: nat where "MAX_ENV_TOTAL_BYTES = 64 * 1024"

definition is_upper :: "char \<Rightarrow> bool" where
  "is_upper c \<longleftrightarrow> 65 \<le> (of_char c :: nat) \<and> (of_char c :: nat) \<le> 90"

definition ENV_NAME_PATTERN :: "string \<Rightarrow> bool" where
  "ENV_NAME_PATTERN s = (case s of [] \<Rightarrow> False
     | c # cs \<Rightarrow> is_upper c \<and> length cs \<le> 63 \<and> list_all (\<lambda>d. is_upper d \<or> is_digit d \<or> d = CHR ''_'') cs)"

definition RESERVED_NAMES :: "string list" where
  "RESERVED_NAMES = [''PORT'', ''PATH'', ''HOME'', ''HOSTNAME'', ''USER'', ''SHELL'', ''TZ'', ''CI'', ''PNPM_HOME'',
     ''XDG_CACHE_HOME'', ''DATABASE_URL'', ''REDIS_URL'', ''MONGODB_URI'', ''SQLITE_PATH'', ''MAIL_EGRESS_PROXY'',
     ''HTTP_PROXY'', ''HTTPS_PROXY'', ''NO_PROXY'', ''ALL_PROXY'']"

definition RESERVED_PREFIXES :: "string list" where
  "RESERVED_PREFIXES = [''NODE_'', ''LD_'', ''NPM_CONFIG_'', ''KUBERNETES_'']"

definition isReservedEnvName :: "string \<Rightarrow> bool" where
  "isReservedEnvName name \<longleftrightarrow> List.member RESERVED_NAMES name \<or> list_ex (\<lambda>p. take (length p) name = p) RESERVED_PREFIXES"

type_synonym env_map = "(string \<times> string) list"

record EnvProblem =
  ep_name :: string
  ep_reason :: string

text \<open>The problems of one variable, and what it adds to the total.\<close>

definition env_problems :: "string \<times> string \<Rightarrow> EnvProblem list" where
  "env_problems e =
     (case e of (name, v) \<Rightarrow>
        if \<not> ENV_NAME_PATTERN name
        then [\<lparr> ep_name = take 64 name, ep_reason = (''nombre inv'' @ [CHR 0xE1] @ ''lido (MAY'' @ [CHR 0xDA] @ ''SCULAS, n'' @ [CHR 0xFA] @ ''meros y _; empieza con letra)'') \<rparr>]
        else (if isReservedEnvName name then [\<lparr> ep_name = name, ep_reason = ''nombre reservado por Jin'' \<rparr>] else [])
             @ (if byte_length v > MAX_ENV_VALUE_BYTES
                then [\<lparr> ep_name = name, ep_reason = ''el valor supera '' @ show_nat (MAX_ENV_VALUE_BYTES div 1024) @ '' KB'' \<rparr>]
                else []))"

definition env_bytes :: "env_map \<Rightarrow> nat" where
  "env_bytes env = sum_list (map (\<lambda>(name, v). if ENV_NAME_PATTERN name then byte_length v else 0) env)"

definition validateDemoEnv :: "env_map \<Rightarrow> EnvProblem list" where
  "validateDemoEnv env =
     (if length env > MAX_ENV_VARS
      then [\<lparr> ep_name = ''(todas)'', ep_reason = (''m'' @ [CHR 0xE1] @ ''ximo '') @ show_nat MAX_ENV_VARS @ '' variables'' \<rparr>] else [])
     @ concat (map env_problems env)
     @ (if env_bytes env > MAX_ENV_TOTAL_BYTES
        then [\<lparr> ep_name = ''(todas)'', ep_reason = ''el total supera '' @ show_nat (MAX_ENV_TOTAL_BYTES div 1024) @ '' KB'' \<rparr>]
        else [])"

section \<open>Files that look like secrets\<close>

definition any_char :: regex where "any_char = Chars (\<lambda>c. \<not> line_break c)"

fun one_of :: "codepoints list \<Rightarrow> regex" where
  "one_of [] = Chars (\<lambda>_. False)"
| "one_of (w # ws) = Either (Word w) (one_of ws)"

definition SECRET_FILE_PATTERN :: regex where
  "SECRET_FILE_PATTERN =
     Either (Then (Word (codes ''.env'')) (Upto 1 (Then (Lit 46) (Some_of any_char))))
    (Either (Then (Some_of any_char) (Then (Lit 46) (one_of (map codes [''pem'', ''key'', ''p12'', ''pfx'']))))
    (Either (Then (Word (codes ''id_'')) (Then (one_of (map codes [''rsa'', ''ed25519'', ''ecdsa'']))
              (Upto 1 (Then (Lit 46) (Many any_char)))))
    (one_of (map codes [''.npmrc'', ''.netrc'', ''brevo.json'']))))"

definition SECRET_FILE_TEMPLATE_SUFFIX :: regex where
  "SECRET_FILE_TEMPLATE_SUFFIX = Then (Lit 46) (one_of (map codes [''example'', ''sample'', ''template'']))"

text \<open>\<open>test\<close> with the flag \<open>i\<close> of an expression between \<open>^\<close> and \<open>$\<close>, and of one with only \<open>$\<close>: the letters of the
  expressions are of ASCII and lower case.\<close>

definition ascii_lower :: "nat \<Rightarrow> nat" where
  "ascii_lower c = (if 65 \<le> c \<and> c \<le> 90 then c + 32 else c)"

definition test_whole :: "regex \<Rightarrow> string \<Rightarrow> bool" where
  "test_whole r s = list_ex (\<lambda>c. ahead c = []) (matches r (None, map ascii_lower (codes s), []))"

fun test_end :: "regex \<Rightarrow> codepoints \<Rightarrow> bool" where
  "test_end r [] = list_ex (\<lambda>c. ahead c = []) (matches r (None, [], []))"
| "test_end r (c # s) = (list_ex (\<lambda>d. ahead d = []) (matches r (None, c # s, [])) \<or> test_end r s)"

definition looks_secret :: "string \<Rightarrow> bool" where
  "looks_secret path =
     (let base = last (split_on (CHR ''/'') path)
      in test_whole SECRET_FILE_PATTERN base \<and> \<not> test_end SECRET_FILE_TEMPLATE_SUFFIX (map ascii_lower (codes base)))"

definition findSecretFiles :: "(string \<times> string) list \<Rightarrow> string list" where
  "findSecretFiles files = filter looks_secret (map fst files)"

section \<open>Templates\<close>

definition STATIC_TEMPLATE :: string where "STATIC_TEMPLATE = ''static''"
definition STATIC_TEMPLATE_PORT :: int where "STATIC_TEMPLATE_PORT = 8080"
definition STATIC_SERVER_PATH :: string where "STATIC_SERVER_PATH = ''.jin/static-server.mjs''"
definition NODE_TEMPLATE :: string where "NODE_TEMPLATE = ''node''"
definition NODE_TEMPLATE_PORT :: int where "NODE_TEMPLATE_PORT = 8080"
definition NODE_TEMPLATE_COMMAND :: "string list" where
  "NODE_TEMPLATE_COMMAND = [''sh'', ''-c'',
     ''if [ -f package-lock.json ]; then npm ci; else npm install; fi && npm run build --if-present && exec npm start'']"

datatype DemoDbEngine = Sqlite | Redis | Postgres | Mongodb

fun db_name :: "DemoDbEngine \<Rightarrow> string" where
  "db_name Sqlite = ''sqlite''"
| "db_name Redis = ''redis''"
| "db_name Postgres = ''postgres''"
| "db_name Mongodb = ''mongodb''"

definition DEMO_DB_ENGINES :: "DemoDbEngine list" where
  "DEMO_DB_ENGINES = [Sqlite, Redis, Postgres, Mongodb]"

definition DB_NEEDS_NODE_TEMPLATE :: "DemoDbEngine list" where
  "DB_NEEDS_NODE_TEMPLATE = [Redis, Postgres, Mongodb]"

record PreviewServiceToolInput =
  pi_files :: "(string \<times> string) list"
  pi_template :: "string option"
  pi_db :: "string option"
  pi_mailEgress :: "bool option"
  pi_secrets :: "string list option"
  pi_command :: "string list option"
  pi_port :: "int option"
  pi_ttlSeconds :: int
  pi_slugHint :: "string option"
  pi_envNames :: "string list option"

record StartPreviewServiceInput =
  sp_files :: "(string \<times> string) list"
  sp_command :: "string list"
  sp_port :: int
  sp_ttlSeconds :: int
  sp_slugHint :: "string option"
  sp_mailEgress :: bool
  sp_npm :: bool
  sp_db :: "DemoDbEngine option"
  sp_secrets :: "string list option"
  sp_env :: "env_map option"
  sp_requestId :: "uuid option"

definition is_lower_char :: "char \<Rightarrow> bool" where
  "is_lower_char c \<longleftrightarrow> 97 \<le> (of_char c :: nat) \<and> (of_char c :: nat) \<le> 122"

definition SECRET_NAME_PATTERN :: "string \<Rightarrow> bool" where
  "SECRET_NAME_PATTERN s = (case s of [] \<Rightarrow> False
     | c # cs \<Rightarrow> (is_digit c \<or> is_lower_char c) \<and> length cs \<le> 38 \<and> list_all (\<lambda>d. is_digit d \<or> is_lower_char d \<or> d = CHR ''-'') cs)"

definition MAX_SECRETS :: nat where "MAX_SECRETS = 5"

text \<open>\<open>[...new Set(secrets)]\<close> keeps the first of each.\<close>

fun unique :: "string list \<Rightarrow> string list" where
  "unique [] = []"
| "unique (x # xs) = x # filter (\<lambda>y. y \<noteq> x) (unique xs)"

definition parseSecrets :: "string list option \<Rightarrow> string + string list option" where
  "parseSecrets secrets =
     (case secrets of None \<Rightarrow> Inr None
      | Some ss \<Rightarrow>
          if ss = [] then Inr None
          else if length ss > MAX_SECRETS then Inl (''secrets admite como m'' @ [CHR 0xE1] @ ''ximo '' @ show_nat MAX_SECRETS @ '' nombres.'')
          else (case List.find (\<lambda>s. \<not> SECRET_NAME_PATTERN s) ss of
              Some name \<Rightarrow> Inl ((''Nombre de secreto inv'' @ [CHR 0xE1] @ ''lido: '' @ [CHR 0x22]) @ name @ ([CHR 0x22] @ '' (min'' @ [CHR 0xFA] @ ''sculas, n'' @ [CHR 0xFA] @ ''meros y guiones; es el nombre, NO el valor).''))
            | None \<Rightarrow> Inr (Some (unique ss))))"

definition parseDb :: "string option \<Rightarrow> string + DemoDbEngine option" where
  "parseDb db =
     (case db of None \<Rightarrow> Inr None
      | Some s \<Rightarrow> (case List.find (\<lambda>e. db_name e = s) DEMO_DB_ENGINES of
          Some e \<Rightarrow> Inr (Some e)
        | None \<Rightarrow> Inl ((''db desconocida: '' @ [CHR 0x22]) @ s @ ([CHR 0x22] @ ''. Valores v'' @ [CHR 0xE1] @ ''lidos: '')
            @ join '', '' (map (\<lambda>e. [CHR 0x22] @ db_name e @ [CHR 0x22]) DEMO_DB_ENGINES) @ ''.'')))"

text \<open>\<open>scripts.start\<close> or \<open>main\<close> of the root object; an array or a plain value has neither.\<close>

definition json_prop :: "json option \<Rightarrow> string \<Rightarrow> json option" where
  "json_prop j k = (case j of Some (JObj kvs) \<Rightarrow> map_of kvs k | _ \<Rightarrow> None)"

definition is_string :: "json option \<Rightarrow> bool" where
  "is_string j = (case j of Some (JStr _) \<Rightarrow> True | _ \<Rightarrow> False)"

definition validateNodePackageJson :: "(string \<times> string) list \<Rightarrow> string option" where
  "validateNodePackageJson files =
     (case map_of files ''package.json'' of
        None \<Rightarrow> Some (''template '' @ [CHR 0x22] @ ''node'' @ [CHR 0x22] @ '' necesita un package.json en la ra'' @ [CHR 0xED] @ ''z (con dependencies y scripts.start).'')
      | Some raw \<Rightarrow>
          (case JSON_parse raw of
             None \<Rightarrow> Some (''package.json no es JSON v'' @ [CHR 0xE1] @ ''lido.'')
           | Some pkg \<Rightarrow>
               if \<not> is_string (json_prop (json_prop (Some pkg) ''scripts'') ''start'') \<and> \<not> is_string (json_prop (Some pkg) ''main'')
               then Some (''package.json necesita scripts.start (o main) para saber c'' @ [CHR 0xF3] @ ''mo arrancar. El servidor debe escuchar en process.env.PORT.'')
               else None))"

definition rejectSecretFiles :: "(string \<times> string) list \<Rightarrow> string option" where
  "rejectSecretFiles files =
     (let found = findSecretFiles files
      in if found = [] then None
         else Some (''Estos archivos parecen secretos y no se publican: '' @ join '', '' found
           @ ''. Las claves van como variables de entorno (se piden por aparte), nunca como archivos del proyecto.''))"

text \<open>The fields every template shares.\<close>

definition base_request :: "PreviewServiceToolInput \<Rightarrow> DemoDbEngine option \<Rightarrow> string list option \<Rightarrow> (string \<times> string) list \<Rightarrow> string list
    \<Rightarrow> int \<Rightarrow> bool \<Rightarrow> StartPreviewServiceInput" where
  "base_request i db secrets files command port npm =
     \<lparr> sp_files = files, sp_command = command, sp_port = port, sp_ttlSeconds = pi_ttlSeconds i, sp_slugHint = pi_slugHint i,
       sp_mailEgress = (pi_mailEgress i = Some True), sp_npm = npm, sp_db = db, sp_secrets = secrets, sp_env = None,
       sp_requestId = None \<rparr>"

definition expand_with :: "string \<Rightarrow> PreviewServiceToolInput \<Rightarrow> DemoDbEngine option \<Rightarrow> string list option \<Rightarrow> string + StartPreviewServiceInput" where
  "expand_with source i db secrets =
     (case pi_template i of
        None \<Rightarrow>
          (case (pi_command i, pi_port i) of
             (Some (c # cs), Some port) \<Rightarrow> Inr (base_request i db secrets (pi_files i) (c # cs) port False)
           | _ \<Rightarrow> Inl (''Sin template hay que indicar command y port. Para una web con React/Tailwind us'' @ [CHR 0xE1] @ '' template: '' @ [CHR 0x22] @ ''static'' @ [CHR 0x22] @ '' con un index.html (dependencias desde CDN): el pod no tiene internet para npm install.''))
      | Some t \<Rightarrow>
          if t = NODE_TEMPLATE
          then (case validateNodePackageJson (pi_files i) of
              Some m \<Rightarrow> Inl m
            | None \<Rightarrow> Inr (base_request i db secrets (pi_files i) NODE_TEMPLATE_COMMAND NODE_TEMPLATE_PORT True))
          else if t \<noteq> STATIC_TEMPLATE then Inl ((''template desconocido: '' @ [CHR 0x22]) @ t @ ([CHR 0x22] @ ''. Valores v'' @ [CHR 0xE1] @ ''lidos: '' @ [CHR 0x22] @ ''static'' @ [CHR 0x22] @ '', '' @ [CHR 0x22] @ ''node'' @ [CHR 0x22] @ ''.''))
          else if map_of (pi_files i) ''index.html'' = None
          then Inl (''template '' @ [CHR 0x22] @ ''static'' @ [CHR 0x22] @ '' necesita un archivo index.html en la ra'' @ [CHR 0xED] @ ''z.'')
          else if map_of (pi_files i) STATIC_SERVER_PATH \<noteq> None
          then Inl (STATIC_SERVER_PATH @ ('' est'' @ [CHR 0xE1] @ '' reservado para el servidor de la plantilla.''))
          else Inr (base_request i db secrets (pi_files i @ [(STATIC_SERVER_PATH, source)]) [''node'', STATIC_SERVER_PATH]
                 STATIC_TEMPLATE_PORT False))"

definition expandPreviewTemplate :: "string \<Rightarrow> PreviewServiceToolInput \<Rightarrow> string + StartPreviewServiceInput" where
  "expandPreviewTemplate source i =
     (case rejectSecretFiles (pi_files i) of
        Some m \<Rightarrow> Inl m
      | None \<Rightarrow>
          (case parseDb (pi_db i) of
             Inl m \<Rightarrow> Inl m
           | Inr db \<Rightarrow>
               (case parseSecrets (pi_secrets i) of
                  Inl m \<Rightarrow> Inl m
                | Inr secrets \<Rightarrow>
                    if db \<noteq> None \<and> pi_template i = Some STATIC_TEMPLATE
                    then Inl (''db no se puede usar con template '' @ [CHR 0x22] @ ''static'' @ [CHR 0x22] @ '': no tiene backend. Us'' @ [CHR 0xE1] @ '' template: '' @ [CHR 0x22] @ ''node'' @ [CHR 0x22] @ '' (frontend y API en un servidor Node).'')
                    else if (case db of Some e \<Rightarrow> List.member DB_NEEDS_NODE_TEMPLATE e | None \<Rightarrow> False) \<and> pi_template i \<noteq> Some NODE_TEMPLATE
                    then Inl ((case db of Some e \<Rightarrow> db_name e | None \<Rightarrow> [])
                      @ ('' necesita una librer'' @ [CHR 0xED] @ ''a cliente de npm: us'' @ [CHR 0xE1] @ '' template: '' @ [CHR 0x22] @ ''node'' @ [CHR 0x22] @ '' con un package.json que la declare. (sqlite s'' @ [CHR 0xED] @ '' funciona sin npm, con node:sqlite).''))
                    else expand_with source i db secrets)))"

section \<open>What reaches the executor\<close>

lemma unique_set [simp]: "set (unique xs) = set xs"
  by (induction xs) auto

lemma unique_distinct [simp]: "distinct (unique xs)"
  by (induction xs) (auto simp: distinct_filter)

lemma unique_length: "length (unique xs) \<le> length xs"
  by (induction xs) (auto intro: order_trans [OF length_filter_le])

lemma parseSecrets_ok:
  assumes "parseSecrets s = Inr (Some ss)"
  shows "ss \<noteq> [] \<and> length ss \<le> MAX_SECRETS \<and> distinct ss \<and> list_all SECRET_NAME_PATTERN ss"
proof -
  obtain xs where xs: "s = Some xs" "xs \<noteq> []" "length xs \<le> MAX_SECRETS" "List.find (\<lambda>s. \<not> SECRET_NAME_PATTERN s) xs = None" "ss = unique xs"
    using assms by (auto simp: parseSecrets_def split: option.splits if_splits)
  have "unique xs \<noteq> []" using xs(2) by (cases xs) auto
  then show ?thesis using xs unique_length [of xs] by (auto simp: find_None_iff list_all_iff)
qed

lemma parseDb_ok: "parseDb s = Inr (Some e) \<longleftrightarrow> s = Some (db_name e)"
proof
  show "parseDb s = Inr (Some e) \<Longrightarrow> s = Some (db_name e)"
    by (auto simp: parseDb_def find_Some_iff split: option.splits)
  show "s = Some (db_name e) \<Longrightarrow> parseDb s = Inr (Some e)"
    by (cases e) (simp_all add: parseDb_def DEMO_DB_ENGINES_def)
qed

text \<open>What the executor is asked to run: nothing that looks like a secret; with a template, the command and the port of
  the template and not of the request; a database that needs a client of npm only with the template that installs it,
  none with the static one; at most five secrets, by valid and distinct names; no value of a variable.\<close>

definition request_ok :: "string \<Rightarrow> PreviewServiceToolInput \<Rightarrow> StartPreviewServiceInput \<Rightarrow> bool" where
  "request_ok source i r \<longleftrightarrow>
     findSecretFiles (pi_files i) = [] \<and> sp_env r = None \<and> sp_ttlSeconds r = pi_ttlSeconds i
     \<and> (case sp_secrets r of None \<Rightarrow> True | Some ss \<Rightarrow> length ss \<le> MAX_SECRETS \<and> distinct ss \<and> list_all SECRET_NAME_PATTERN ss)
     \<and> map_option db_name (sp_db r) = pi_db i
     \<and> (sp_npm r \<longleftrightarrow> pi_template i = Some NODE_TEMPLATE)
     \<and> ((case sp_db r of Some e \<Rightarrow> List.member DB_NEEDS_NODE_TEMPLATE e | None \<Rightarrow> False) \<longrightarrow> sp_npm r)
     \<and> (pi_template i = None \<longrightarrow> sp_files r = pi_files i \<and> pi_command i = Some (sp_command r) \<and> sp_command r \<noteq> [] \<and> pi_port i = Some (sp_port r))
     \<and> (pi_template i = Some NODE_TEMPLATE \<longrightarrow> sp_files r = pi_files i \<and> sp_command r = NODE_TEMPLATE_COMMAND \<and> sp_port r = NODE_TEMPLATE_PORT)
     \<and> (pi_template i = Some STATIC_TEMPLATE \<longrightarrow> sp_files r = pi_files i @ [(STATIC_SERVER_PATH, source)]
          \<and> sp_command r = [''node'', STATIC_SERVER_PATH] \<and> sp_port r = STATIC_TEMPLATE_PORT \<and> sp_db r = None)
     \<and> (\<forall>t. pi_template i = Some t \<longrightarrow> t = NODE_TEMPLATE \<or> t = STATIC_TEMPLATE)"

lemma expand_ok:
  assumes "expandPreviewTemplate source i = Inr r"
  obtains db secrets where "rejectSecretFiles (pi_files i) = None" "parseDb (pi_db i) = Inr db" "parseSecrets (pi_secrets i) = Inr secrets"
    "db \<noteq> None \<Longrightarrow> pi_template i \<noteq> Some STATIC_TEMPLATE"
    "\<And>e. db = Some e \<Longrightarrow> List.member DB_NEEDS_NODE_TEMPLATE e \<Longrightarrow> pi_template i = Some NODE_TEMPLATE"
    "expand_with source i db secrets = Inr r"
  using assms
  by (auto simp: expandPreviewTemplate_def split: option.splits sum.splits if_splits)

text \<open>Whatever is sent to the executor to start a demo has no file that looks like a secret, no value of a variable,
  and, with a template, exactly the command and the port of the template; a database that needs a client of npm
  comes only with the template that installs it, and at most five distinct and valid names of secrets.\<close>

theorem expanded_request_is_safe:
  assumes "expandPreviewTemplate source i = Inr r"
  shows "request_ok source i r"
proof (rule expand_ok [OF assms])
  fix db secrets
  assume a: "rejectSecretFiles (pi_files i) = None" "parseDb (pi_db i) = Inr db" "parseSecrets (pi_secrets i) = Inr secrets"
    and b: "db \<noteq> None \<Longrightarrow> pi_template i \<noteq> Some STATIC_TEMPLATE"
      "\<And>e. db = Some e \<Longrightarrow> List.member DB_NEEDS_NODE_TEMPLATE e \<Longrightarrow> pi_template i = Some NODE_TEMPLATE"
    and c: "expand_with source i db secrets = Inr r"
  have files: "findSecretFiles (pi_files i) = []"
    using a(1) by (simp add: rejectSecretFiles_def Let_def split: if_splits)
  have dbn: "map_option db_name db = pi_db i"
  proof (cases db)
    case None
    then show ?thesis using a(2) by (auto simp: parseDb_def split: option.splits)
  next
    case (Some e)
    then show ?thesis using a(2) parseDb_ok [of "pi_db i" e] by simp
  qed
  have sec: "case secrets of None \<Rightarrow> True | Some ss \<Rightarrow> length ss \<le> MAX_SECRETS \<and> distinct ss \<and> list_all SECRET_NAME_PATTERN ss"
    using a(3) parseSecrets_ok [of "pi_secrets i"] by (auto split: option.split)
  have differ: "NODE_TEMPLATE \<noteq> STATIC_TEMPLATE" by (simp add: NODE_TEMPLATE_def STATIC_TEMPLATE_def)
  show ?thesis
    using c b files dbn sec differ unfolding request_ok_def expand_with_def
    by (auto simp: base_request_def split: option.splits list.splits if_splits)
qed

lemmas secret_regex = looks_secret_def test_whole_def SECRET_FILE_PATTERN_def SECRET_FILE_TEMPLATE_SUFFIX_def codes_def
  ascii_lower_def any_char_def Some_of_def Lit_def line_break_def

text \<open>Names of files, as the code is meant to tell them apart.\<close>

lemma secret_names:
  "looks_secret ''.env''" "looks_secret ''a/.ENV.local''" "looks_secret ''k.pem''" "looks_secret ''id_rsa.pub''"
  "looks_secret ''brevo.json''" "looks_secret ''x/.npmrc''"
  by (simp_all add: secret_regex Let_def)

lemma ordinary_names:
  "\<not> looks_secret ''.env.example''" "\<not> looks_secret ''.pem''" "\<not> looks_secret ''index.html''" "\<not> looks_secret ''id_rsa_old''"
  by (simp_all add: secret_regex Let_def)

definition sample_preview :: PreviewServiceToolInput where
  "sample_preview = \<lparr> pi_files = [(''index.html'', ''hi'')], pi_template = Some ''static'', pi_db = None,
     pi_mailEgress = None, pi_secrets = Some [''brevo'', ''brevo''], pi_command = Some [''rm''], pi_port = Some 1, pi_ttlSeconds = 60,
     pi_slugHint = None, pi_envNames = Some [''KEY''] \<rparr>"

lemma sample_preview_expands:
  "expandPreviewTemplate ''src'' sample_preview = Inr \<lparr> sp_files = [(''index.html'', ''hi''), (''.jin/static-server.mjs'', ''src'')],
     sp_command = [''node'', ''.jin/static-server.mjs''], sp_port = 8080, sp_ttlSeconds = 60, sp_slugHint = None,
     sp_mailEgress = False, sp_npm = False, sp_db = None, sp_secrets = Some [''brevo''], sp_env = None, sp_requestId = None \<rparr>"
  by (simp add: sample_preview_def expandPreviewTemplate_def rejectSecretFiles_def findSecretFiles_def ordinary_names parseDb_def
      parseSecrets_def MAX_SECRETS_def SECRET_NAME_PATTERN_def is_lower_char_def is_digit_def expand_with_def base_request_def
      STATIC_TEMPLATE_def NODE_TEMPLATE_def STATIC_SERVER_PATH_def STATIC_TEMPLATE_PORT_def)

lemma expanded_request_is_safe_witness:
  "\<exists>r. expandPreviewTemplate ''src'' sample_preview = Inr r \<and> request_ok ''src'' sample_preview r"
  using sample_preview_expands expanded_request_is_safe [OF sample_preview_expands] by blast

section \<open>A copy of a project\<close>

definition SNAPSHOT_MAX_FILES :: nat where "SNAPSHOT_MAX_FILES = 50"
definition SNAPSHOT_MAX_TOTAL_BYTES :: nat where "SNAPSHOT_MAX_TOTAL_BYTES = 256 * 1024"
definition SNAPSHOT_MAX_PATH_LENGTH :: nat where "SNAPSHOT_MAX_PATH_LENGTH = 200"
definition SNAPSHOT_MAX_COUNT :: nat where "SNAPSHOT_MAX_COUNT = 100"

definition isSafePath :: "string \<Rightarrow> bool" where
  "isSafePath path \<longleftrightarrow>
     0 < length path \<and> length path \<le> SNAPSHOT_MAX_PATH_LENGTH \<and> \<not> starts_slash path \<and> CHR 0x5C \<notin> set path
     \<and> CHR 0x0D \<notin> set path \<and> CHR 0x0A \<notin> set path
     \<and> \<not> list_ex (\<lambda>part. part = [] \<or> part = ''.'' \<or> part = ''..'') (split_on (CHR ''/'') path)"

definition snapshotBytes :: "(string \<times> string) list \<Rightarrow> nat" where
  "snapshotBytes files = sum_list (map (\<lambda>(path, t). byte_length t) files)"

text \<open>How the project was published: never a value of a variable. The template is \<open>static\<close> or \<open>node\<close>, the database one
  of the engines.\<close>

record SnapshotConfig =
  sc_template :: string
  sc_database :: "string option"
  sc_mailEgress :: bool
  sc_ttlSeconds :: int
  sc_envNames :: "string list"

definition SnapshotConfigSchema :: "SnapshotConfig \<Rightarrow> bool" where
  "SnapshotConfigSchema c \<longleftrightarrow>
     (sc_template c = ''static'' \<or> sc_template c = ''node'')
     \<and> (case sc_database c of None \<Rightarrow> True | Some d \<Rightarrow> List.member (map db_name DEMO_DB_ENGINES) d)
     \<and> 60 \<le> sc_ttlSeconds c \<and> sc_ttlSeconds c \<le> 24 * 60 * 60
     \<and> list_all ENV_NAME_PATTERN (sc_envNames c) \<and> length (sc_envNames c) \<le> MAX_ENV_VARS"

record CreateSnapshotInput =
  cs_name :: string
  cs_note :: "string option"
  cs_files :: "(string \<times> string) list"
  cs_config :: "SnapshotConfig option"

text \<open>The messages of \<open>superRefine\<close>, in its order.\<close>

definition snapshot_issues :: "CreateSnapshotInput \<Rightarrow> string list" where
  "snapshot_issues v =
     (let paths = map fst (cs_files v); invalid = filter (\<lambda>p. \<not> isSafePath p) paths; secrets = findSecretFiles (cs_files v)
      in (if paths = [] \<or> length paths > SNAPSHOT_MAX_FILES
          then [''El respaldo necesita entre 1 y '' @ show_nat SNAPSHOT_MAX_FILES @ '' archivos.''] else [])
         @ (if invalid \<noteq> [] then [''Rutas no v'' @ [CHR 0xE1] @ ''lidas: '' @ join '', '' (take 5 invalid) @ ''.''] else [])
         @ (if snapshotBytes (cs_files v) > SNAPSHOT_MAX_TOTAL_BYTES
            then [''El proyecto supera '' @ show_nat (SNAPSHOT_MAX_TOTAL_BYTES div 1024) @ '' KB.''] else [])
         @ (if secrets \<noteq> []
            then [''Estos archivos parecen secretos y no se respaldan: '' @ join '', '' secrets
                  @ ''. Las claves van como variables de entorno.''] else []))"

text \<open>The schema trims the name and the note before it measures them. When the shape is wrong the messages are those of
  the validator, an argument (\<open>zodText\<close>).\<close>

definition CreateSnapshotSchema :: "string list \<Rightarrow> CreateSnapshotInput \<Rightarrow> string list + CreateSnapshotInput" where
  "CreateSnapshotSchema zodText body =
     (let v = body\<lparr> cs_name := js_trim (cs_name body), cs_note := map_option js_trim (cs_note body) \<rparr>;
          shape = 1 \<le> length (cs_name v) \<and> length (cs_name v) \<le> 60
            \<and> (case cs_note v of None \<Rightarrow> True | Some n \<Rightarrow> length n \<le> 500)
            \<and> (case cs_config v of None \<Rightarrow> True | Some c \<Rightarrow> SnapshotConfigSchema c)
      in if \<not> shape then Inl zodText
         else if snapshot_issues v \<noteq> [] then Inl (snapshot_issues v)
         else Inr v)"

lemma snapshot_accepted:
  assumes "CreateSnapshotSchema zodText body = Inr v"
  shows "cs_files v = cs_files body \<and> findSecretFiles (cs_files v) = [] \<and> list_all isSafePath (map fst (cs_files v))
    \<and> 0 < length (cs_files v) \<and> length (cs_files v) \<le> SNAPSHOT_MAX_FILES \<and> snapshotBytes (cs_files v) \<le> SNAPSHOT_MAX_TOTAL_BYTES"
  using assms
  by (auto simp: CreateSnapshotSchema_def snapshot_issues_def Let_def list_all_iff filter_empty_conv split: if_splits)

end
