(* ===== verification/Demo_Publish.thy ===== *)
theory Demo_Publish
  imports Preview_Template Feature_Flags "HOL-Library.List_Lexorder"
begin

text \<open>
  Publishing a demo (\<open>src/executor-client/owner-preview-publish.service.ts\<close>, \<open>env-vault.service.ts\<close>,
  \<open>executor-client.module.ts\<close>, \<open>executor-client.service.ts\<close>): the owner's request passes the same gate as the
  agent's; the values of the variables wait in memory, in the vault, until the approval takes them. The executor is the
  outside world: \<open>dd_calls\<close> is the list of the calls made to it, what it answers is an argument. The main result is
  that the values of the variables go nowhere but to the executor.
\<close>

section \<open>The vault\<close>

record VaultEntry =
  ve_env :: env_map
  ve_expiresAt :: int

type_synonym vault = "(uuid \<times> VaultEntry) list"

definition VAULT_TTL_MS :: int where "VAULT_TTL_MS = 24 * 60 * 60 * 1000"
definition VAULT_MAX_ENTRIES :: nat where "VAULT_MAX_ENTRIES = 50"

definition vault_purge :: "int \<Rightarrow> vault \<Rightarrow> vault" where
  "vault_purge now es = filter (\<lambda>(k, e). now < ve_expiresAt e) es"

definition vault_put :: "uuid \<Rightarrow> env_map \<Rightarrow> int \<Rightarrow> int \<Rightarrow> vault \<Rightarrow> (jin_error + unit) \<times> vault" where
  "vault_put requestId env ttlMs now es =
     (let es1 = vault_purge now es
      in if length es1 \<ge> VAULT_MAX_ENTRIES \<and> map_of es1 requestId = None
         then (Inl (OtherError (''Hay demasiadas publicaciones con variables pendientes de aprobaci'' @ [CHR 0xF3] @ ''n; resuelve alguna primero.'')), es1)
         else (Inr (), AList.update requestId \<lparr> ve_env = env, ve_expiresAt = now + ttlMs \<rparr> es1))"

definition vault_take :: "uuid \<Rightarrow> int \<Rightarrow> vault \<Rightarrow> env_map option \<times> vault" where
  "vault_take requestId now es =
     ((case map_of es requestId of None \<Rightarrow> None | Some e \<Rightarrow> if ve_expiresAt e \<le> now then None else Some (ve_env e)),
      AList.delete requestId es)"

definition vault_discard :: "uuid \<Rightarrow> vault \<Rightarrow> vault" where
  "vault_discard requestId es = AList.delete requestId es"

definition vault_has :: "uuid \<Rightarrow> int \<Rightarrow> vault \<Rightarrow> bool" where
  "vault_has requestId now es = (case map_of es requestId of None \<Rightarrow> False | Some e \<Rightarrow> now < ve_expiresAt e)"

section \<open>The client of the executor\<close>

text \<open>The operands of a tool are what the payload has under their names; \<open>None\<close> is \<open>undefined\<close>.\<close>

datatype demo_call =
    DRunCode "json option" "json option"
  | DStart StartPreviewServiceInput
  | DExport string string
  | DExtend "json option" "json option"
  | DStop "json option"
  | DList
  | DSaveGithub "json option" "json option"
  | DListGithub

record demo_db = policy_db +
  dd_vault :: vault
  dd_calls :: "demo_call list"

datatype http_answer = HttpOk json | HttpStatus nat "string option" | HttpFailed string

definition executor_answer :: "http_answer \<Rightarrow> jin_error + json" where
  "executor_answer a =
     (case a of
        HttpOk j \<Rightarrow> Inr j
      | HttpStatus n t \<Rightarrow> Inl (ExecutorApiError n (case t of Some s \<Rightarrow> s | None \<Rightarrow> ''Unknown error''))
      | HttpFailed m \<Rightarrow> Inl (OtherError m))"

definition call_demo :: "http_answer \<Rightarrow> demo_call \<Rightarrow> demo_db \<Rightarrow> (jin_error + json) \<times> demo_db" where
  "call_demo answer c w = (executor_answer answer, w\<lparr> dd_calls := dd_calls w @ [c] \<rparr>)"

text \<open>\<open>encodeURIComponent\<close> over the Latin-1 range.\<close>

definition unreserved :: "char \<Rightarrow> bool" where
  "unreserved c \<longleftrightarrow> is_upper c \<or> is_lower_char c \<or> is_digit c \<or> List.member (''-_.!~*()'' @ [CHR 0x27]) c"

definition hex_upper :: "nat \<Rightarrow> char" where
  "hex_upper d = (if d < 10 then char_of (48 + d) else char_of (55 + d))"

definition percent :: "nat \<Rightarrow> string" where
  "percent b = [CHR 0x25, hex_upper (b div 16), hex_upper (b mod 16)]"

definition encodeURIComponent :: "string \<Rightarrow> string" where
  "encodeURIComponent s =
     concat (map (\<lambda>c. if unreserved c then [c] else concat (map percent (utf8_code (of_char c)))) s)"

text \<open>The keys whose value is \<open>undefined\<close> are left out.\<close>

definition json_object :: "(string \<times> json option) list \<Rightarrow> json" where
  "json_object kvs = JObj (concat (map (\<lambda>(k, v). case v of Some j \<Rightarrow> [(k, j)] | None \<Rightarrow> []) kvs))"

definition strs_json :: "string list \<Rightarrow> json" where
  "strs_json ss = JArr (map JStr ss)"

definition start_body :: "StartPreviewServiceInput \<Rightarrow> json" where
  "start_body r = json_object
     [(''tool'', Some (JStr ''startPreviewService'')), (''ttlSeconds'', Some (JNum (sp_ttlSeconds r))),
      (''slugHint'', map_option JStr (sp_slugHint r)), (''mailEgress'', if sp_mailEgress r then Some (JBool True) else None),
      (''db'', map_option (\<lambda>e. JStr (db_name e)) (sp_db r)), (''secrets'', map_option strs_json (sp_secrets r)),
      (''files'', Some (files_json (sp_files r))), (''command'', Some (strs_json (sp_command r))), (''port'', Some (JNum (sp_port r))),
      (''npm'', if sp_npm r then Some (JBool True) else None),
      (''env'', map_option files_json (sp_env r)), (''requestId'', map_option JStr (sp_requestId r))]"

definition EXECUTE_TIMEOUT_SECONDS :: int where "EXECUTE_TIMEOUT_SECONDS = 1800"

text \<open>The method, the path after the base address and the body of a request.\<close>

fun http_request :: "demo_call \<Rightarrow> string \<times> string \<times> json option" where
  "http_request (DRunCode code language) = (''POST'', ''/execute'', Some (json_object
     [(''tool'', Some (JStr ''runCode'')), (''code'', code), (''language'', language), (''env'', Some (JObj [])),
      (''timeout'', Some (JNum EXECUTE_TIMEOUT_SECONDS))]))"
| "http_request (DStart r) = (''POST'', ''/services'', Some (start_body r))"
| "http_request (DExport i dir) = (''GET'', ''/services/'' @ encodeURIComponent i @ ''/files?dir='' @ encodeURIComponent dir, None)"
| "http_request (DExtend i extra) =
     (''POST'', ''/services/'' @ encodeURIComponent (js_template i) @ ''/extend'', Some (json_object [(''extraSeconds'', extra)]))"
| "http_request (DStop i) = (''DELETE'', ''/services/'' @ encodeURIComponent (js_template i), None)"
| "http_request DList = (''GET'', ''/services'', None)"
| "http_request (DSaveGithub i slug) = (''POST'', ''/github/demos'', Some (json_object [(''serviceId'', i), (''slug'', slug)]))"
| "http_request DListGithub = (''GET'', ''/github/demos'', None)"

text \<open>Trailing slashes of the configured address are dropped.\<close>

definition base_url :: "string \<Rightarrow> string" where
  "base_url raw = rev (dropWhile (\<lambda>c. c = CHR ''/'') (rev raw))"

section \<open>The executors of the tools\<close>

text \<open>The payload of \<open>startPreviewService\<close>, written and read by name. A payload of another shape is refused here; the
  code, which does not check it, fails at the first use of the missing part.\<close>

fun json_strs :: "json list \<Rightarrow> string list option" where
  "json_strs [] = Some []"
| "json_strs (JStr s # js) = map_option ((#) s) (json_strs js)"
| "json_strs (_ # js) = None"

definition strs_of :: "json \<Rightarrow> string list option" where
  "strs_of j = (case j of JArr js \<Rightarrow> json_strs js | _ \<Rightarrow> None)"

fun str_of :: "json \<Rightarrow> string option" where
  "str_of (JStr s) = Some s"
| "str_of _ = None"

fun int_of_json :: "json \<Rightarrow> int option" where
  "int_of_json (JNum n) = Some n"
| "int_of_json _ = None"

definition files_of :: "json \<Rightarrow> (string \<times> string) list option" where
  "files_of j = (case j of JObj kvs \<Rightarrow> text_entries kvs | _ \<Rightarrow> None)"

definition preview_fields :: "PreviewServiceToolInput \<Rightarrow> (string \<times> json option) list" where
  "preview_fields i =
     [(''files'', Some (files_json (pi_files i))), (''template'', map_option JStr (pi_template i)), (''db'', map_option JStr (pi_db i)),
      (''mailEgress'', map_option JBool (pi_mailEgress i)), (''secrets'', map_option strs_json (pi_secrets i)),
      (''command'', map_option strs_json (pi_command i)), (''port'', map_option JNum (pi_port i)),
      (''ttlSeconds'', Some (JNum (pi_ttlSeconds i))), (''slugHint'', map_option JStr (pi_slugHint i)),
      (''envNames'', map_option strs_json (pi_envNames i))]"

definition preview_json :: "PreviewServiceToolInput \<Rightarrow> json" where
  "preview_json i = json_object (preview_fields i)"

definition opt_field :: "(json \<Rightarrow> 'a option) \<Rightarrow> string \<Rightarrow> (string \<times> json) list \<Rightarrow> 'a option option" where
  "opt_field f k kvs = optional_prop k kvs None (\<lambda>j. map_option Some (f j))"

definition preview_of_json :: "json option \<Rightarrow> PreviewServiceToolInput option" where
  "preview_of_json payload =
     (case payload of
        Some (JObj kvs) \<Rightarrow>
          Option.bind (Option.bind (map_of kvs ''files'') files_of) (\<lambda>files.
          Option.bind (Option.bind (map_of kvs ''ttlSeconds'') int_of_json) (\<lambda>ttl.
          Option.bind (opt_field str_of ''template'' kvs) (\<lambda>template.
          Option.bind (opt_field str_of ''db'' kvs) (\<lambda>db.
          Option.bind (opt_field json_bool ''mailEgress'' kvs) (\<lambda>mail.
          Option.bind (opt_field strs_of ''secrets'' kvs) (\<lambda>secrets.
          Option.bind (opt_field strs_of ''command'' kvs) (\<lambda>command.
          Option.bind (opt_field int_of_json ''port'' kvs) (\<lambda>port.
          Option.bind (opt_field str_of ''slugHint'' kvs) (\<lambda>slug.
          Option.bind (opt_field strs_of ''envNames'' kvs) (\<lambda>names.
            Some \<lparr> pi_files = files, pi_template = template, pi_db = db, pi_mailEgress = mail, pi_secrets = secrets, pi_command = command,
                   pi_port = port, pi_ttlSeconds = ttl, pi_slugHint = slug, pi_envNames = names \<rparr>))))))))))
      | _ \<Rightarrow> None)"

text \<open>An identifier that is an empty string counts as none.\<close>

definition given_id :: "uuid option \<Rightarrow> uuid option" where
  "given_id rid = (if rid = Some [] then None else rid)"

definition sorted_names :: "string list \<Rightarrow> string list" where
  "sorted_names names = sort_key codes names"

definition takeEnv :: "string list \<Rightarrow> uuid option \<Rightarrow> int \<Rightarrow> demo_db \<Rightarrow> (jin_error + env_map) \<times> demo_db" where
  "takeEnv names rid now w =
     (case (case given_id rid of None \<Rightarrow> (None, dd_vault w) | Some r \<Rightarrow> vault_take r now (dd_vault w)) of
        (None, v) \<Rightarrow> (Inl (OtherError (''Las variables de entorno de esta demo no est'' @ [CHR 0xE1] @ ''n disponibles (Core se reinici'' @ [CHR 0xF3] @ '' o la aprobaci'' @ [CHR 0xF3] @ ''n venci'' @ [CHR 0xF3] @ ''). Vuelve a publicar con las variables.'')), w\<lparr> dd_vault := v \<rparr>)
      | (Some env, v) \<Rightarrow>
          (if join '','' (sorted_names (map fst env)) \<noteq> join '','' (sorted_names names)
           then (Inl (OtherError ''Las variables recibidas no coinciden con las aprobadas: no se crea la demo.''), w\<lparr> dd_vault := v \<rparr>)
           else (Inr env, w\<lparr> dd_vault := v \<rparr>)))"

definition env_names :: "PreviewServiceToolInput \<Rightarrow> string list" where
  "env_names i = (case pi_envNames i of Some ns \<Rightarrow> ns | None \<Rightarrow> [])"

definition start_preview :: "string \<Rightarrow> int \<Rightarrow> http_answer \<Rightarrow> demo_db executor" where
  "start_preview source now answer payload rid w =
     (case preview_of_json payload of
        None \<Rightarrow> (Inl (OtherError ''TypeError''), w)
      | Some i \<Rightarrow>
          (case expandPreviewTemplate source i of
             Inl m \<Rightarrow> (Inl (OtherError m), w)
           | Inr req \<Rightarrow>
               bind_result
                 (if env_names i \<noteq> []
                  then bind_result (takeEnv (env_names i) rid now w) (\<lambda>env w1. (Inr (Some env), w1))
                  else (Inr None, w))
                 (\<lambda>env w1. call_demo answer (DStart (req\<lparr> sp_env := env, sp_requestId := given_id rid \<rparr>)) w1)))"

definition prop_call :: "http_answer \<Rightarrow> ((string \<Rightarrow> json option) \<Rightarrow> demo_call) \<Rightarrow> demo_db executor" where
  "prop_call answer mk payload rid w =
     (if payload = None \<or> payload = Some JNull then (Inl (OtherError ''TypeError''), w)
      else call_demo answer (mk (\<lambda>k. json_field k payload)) w)"

definition stop_preview :: "http_answer \<Rightarrow> demo_db executor" where
  "stop_preview answer payload rid w =
     bind_result (prop_call answer (\<lambda>p. DStop (p ''serviceId'')) payload rid w)
       (\<lambda>_ w1. (Inr (json_object [(''serviceId'', json_field ''serviceId'' payload), (''stopped'', Some (JBool True))]), w1))"

text \<open>\<open>onModuleInit\<close> registers the seven executors in this order.\<close>

definition demo_tools :: "string \<Rightarrow> int \<Rightarrow> http_answer \<Rightarrow> (string \<times> demo_db executor) list" where
  "demo_tools source now answer =
     [(''runCode'', prop_call answer (\<lambda>p. DRunCode (p ''code'') (p ''language''))),
      (''startPreviewService'', start_preview source now answer),
      (''extendPreviewService'', prop_call answer (\<lambda>p. DExtend (p ''serviceId'') (p ''extraSeconds''))),
      (''stopPreviewService'', stop_preview answer),
      (''listPreviewServices'', (\<lambda>_ _ w. call_demo answer DList w)),
      (''saveDemoToGithub'', prop_call answer (\<lambda>p. DSaveGithub (p ''serviceId'') (p ''slug''))),
      (''listGithubDemos'', (\<lambda>_ _ w. call_demo answer DListGithub w))]"

fun register_all :: "(string \<times> 's executor) list \<Rightarrow> 's executors \<Rightarrow> jin_error + 's executors" where
  "register_all [] reg = Inr reg"
| "register_all ((n, ex) # xs) reg = (case register n ex reg of Inl e \<Rightarrow> Inl e | Inr reg1 \<Rightarrow> register_all xs reg1)"

section \<open>The owner publishes\<close>

definition PUBLISH_TOOL :: string where "PUBLISH_TOOL = ''startPreviewService''"
definition PUBLISH_ACTOR :: string where "PUBLISH_ACTOR = ''owner:api''"

datatype OwnerPublishResult = PublishPending uuid | PublishStarted uuid json

record publish_io =
  pb_uuid :: uuid
  pb_relax :: relax_io
  pb_vaultNow :: int
  pb_createdAt :: timestamp
  pb_audit :: audit_io

definition describeEnv :: "string list \<Rightarrow> string" where
  "describeEnv names =
     (if names = [] then []
      else '', con '' @ show_nat (length names) @ '' variable'' @ (if length names = 1 then [] else ''s'')
        @ '' de entorno ('' @ join '', '' names @ ''; valores ocultos)'')"

definition describeTemplate :: "PreviewServiceToolInput \<Rightarrow> string" where
  "describeTemplate i =
     (if pi_template i = Some ''static'' then ''plantilla static''
      else if pi_template i = Some ''node'' then ''plantilla node''
      else ''comando '' @ (case pi_command i of Some c \<Rightarrow> join '' '' c | None \<Rightarrow> ''?''))"

definition publish_plan :: "PreviewServiceToolInput \<Rightarrow> string list \<Rightarrow> string" where
  "publish_plan i envNames =
     ''Publicar una app desde el editor del iPhone ('' @ show_nat (length (pi_files i)) @ '' archivo''
     @ (if length (pi_files i) = 1 then [] else ''s'') @ '', '' @ describeTemplate i @ describeEnv envNames
     @ ''): se expone en https://<slug>.jinserver.com.''"

definition publish_approval :: "(string \<Rightarrow> string) \<Rightarrow> HitlDecision \<Rightarrow> PreviewServiceToolInput \<Rightarrow> string list \<Rightarrow> CreatePendingApprovalInput" where
  "publish_approval sha d i envNames =
     \<lparr>c_requestId = d_requestId d, c_toolName = PUBLISH_TOOL, c_level = level_name (d_level d),
      c_inputsHash = computeInputsHash sha (Some (preview_json i)), c_planSummary = Some (publish_plan i envNames),
      c_payload = Some (preview_json i), c_actor = Some PUBLISH_ACTOR, c_externalInputsSummary = None\<rparr>"

definition decideAndRun :: "(string \<Rightarrow> string) \<Rightarrow> demo_db executors \<Rightarrow> publish_io \<Rightarrow> PreviewServiceToolInput \<Rightarrow> HitlDecision \<Rightarrow> string list
    \<Rightarrow> demo_db \<Rightarrow> (jin_error + OwnerPublishResult) \<times> demo_db" where
  "decideAndRun sha reg io i d envNames w =
     (if d_level d = Lconfirm \<or> d_level d = Ldual_confirm
      then bind_result (createPendingApproval sha (pb_createdAt io) (pb_audit io) (publish_approval sha d i envNames) w)
             (\<lambda>_ w1. (Inr (PublishPending (d_requestId d)), w1))
      else bind_result (execute reg PUBLISH_TOOL (Some (preview_json i)) (Some (d_requestId d)) w)
        (\<lambda>service w1. bind_result
           (recordToolCall sha (pb_audit io) (d_requestId d) PUBLISH_ACTOR PUBLISH_TOOL (computeInputsHash sha (Some (preview_json i)))
              (map_option (\<lambda>r. (''Autoejecutada sin aprobaci'' @ [CHR 0xF3] @ ''n ('') @ r @ (''): '' @ [CHR 0x22]) @ PUBLISH_TOOL @ ([CHR 0x22] @ '' era confirm'')) (d_relaxedBy d))
              (if d_level d = Lauto then ''auto'' else ''notified'') None w1)
           (\<lambda>_ w2. (Inr (PublishStarted (d_requestId d) service),
              if d_level d = Lnotify then emit (ActionNotified (d_requestId d) PUBLISH_TOOL PUBLISH_ACTOR (d_relaxedBy d)) w2 else w2))))"

definition env_refusal :: "EnvProblem list \<Rightarrow> string" where
  "env_refusal problems = (''Variables de entorno inv'' @ [CHR 0xE1] @ ''lidas: '') @ join ''; '' (map (\<lambda>p. ep_name p @ '' ('' @ ep_reason p @ '')'') problems)"

text \<open>The error of a bad request carries the message; the vault is emptied of the request whatever fails after it was
  filled.\<close>

definition put_env :: "publish_io \<Rightarrow> uuid \<Rightarrow> env_map \<Rightarrow> demo_db \<Rightarrow> (jin_error + unit) \<times> demo_db" where
  "put_env io rid env w =
     (if env = [] then (Inr (), w)
      else (case vault_put rid env VAULT_TTL_MS (pb_vaultNow io) (dd_vault w) of (r, v) \<Rightarrow> (r, w\<lparr> dd_vault := v \<rparr>)))"

definition publish_input :: "PreviewServiceToolInput \<Rightarrow> env_map \<Rightarrow> PreviewServiceToolInput" where
  "publish_input i env = (if env = [] then i else i\<lparr> pi_envNames := Some (map fst env) \<rparr>)"

definition publish :: "(string \<Rightarrow> string) \<Rightarrow> AutonomyConfig \<Rightarrow> FeatureFlagsConfig \<Rightarrow> string \<Rightarrow> demo_db executors \<Rightarrow> publish_io
    \<Rightarrow> PreviewServiceToolInput \<Rightarrow> env_map \<Rightarrow> demo_db \<Rightarrow> (jin_error + OwnerPublishResult) \<times> demo_db" where
  "publish sha modes flags source reg io i env w =
     (if validateDemoEnv env \<noteq> [] then (Inl (OtherError (env_refusal (validateDemoEnv env))), w)
      else (case expandPreviewTemplate source (publish_input i env) of
          Inl m \<Rightarrow> (Inl (OtherError m), w)
        | Inr _ \<Rightarrow>
            bind_result (decide sha modes flags (pb_uuid io) (pb_relax io) PUBLISH_TOOL (Some (preview_json (publish_input i env))) w)
              (\<lambda>d w1. bind_result (put_env io (d_requestId d) env w1)
                 (\<lambda>_ w2. case decideAndRun sha reg io (publish_input i env) d (map fst env) w2 of
                    (Inl e, w3) \<Rightarrow> (Inl e, w3\<lparr> dd_vault := vault_discard (d_requestId d) (dd_vault w3) \<rparr>)
                  | (Inr r, w3) \<Rightarrow> (Inr r, w3)))))"
section \<open>The controller\<close>

definition PUBLISH_MAX_FILES :: nat where "PUBLISH_MAX_FILES = 50"
definition PUBLISH_MAX_TOTAL_BYTES :: nat where "PUBLISH_MAX_TOTAL_BYTES = 256 * 1024"

text \<open>The schema of the body, which has no field for the names of the variables.\<close>

definition PublishPreviewSchema :: "PreviewServiceToolInput \<Rightarrow> env_map \<Rightarrow> bool" where
  "PublishPreviewSchema i env \<longleftrightarrow>
     list_all (\<lambda>(path, t). SafePath path) (pi_files i) \<and> length (pi_files i) \<le> PUBLISH_MAX_FILES
     \<and> sum_list (map (\<lambda>(path, t). byte_length path + byte_length t) (pi_files i)) \<le> PUBLISH_MAX_TOTAL_BYTES
     \<and> (case pi_template i of None \<Rightarrow> True | Some t \<Rightarrow> t = ''static'' \<or> t = ''node'')
     \<and> (case pi_db i of None \<Rightarrow> True | Some d \<Rightarrow> List.member [''sqlite'', ''redis'', ''postgres'', ''mongodb''] d)
     \<and> (case pi_secrets i of None \<Rightarrow> True | Some ss \<Rightarrow> list_all SECRET_NAME_PATTERN ss \<and> length ss \<le> 5)
     \<and> validateDemoEnv env = []
     \<and> (case pi_command i of None \<Rightarrow> True | Some c \<Rightarrow> c \<noteq> [] \<and> list_all (\<lambda>a. a \<noteq> []) c)
     \<and> (case pi_port i of None \<Rightarrow> True | Some n \<Rightarrow> 0 < n \<and> n \<le> 65535)
     \<and> 60 \<le> pi_ttlSeconds i \<and> pi_ttlSeconds i \<le> 24 * 60 * 60
     \<and> (case pi_slugHint i of None \<Rightarrow> True | Some h \<Rightarrow> 1 \<le> length h \<and> length h \<le> 40)
     \<and> pi_envNames i = None"

text \<open>The files of a pod are read after the reading is audited; the list is not; \<open>stop\<close> is not either.\<close>

definition read_pod_files :: "(string \<Rightarrow> string) \<Rightarrow> audit_io \<Rightarrow> uuid \<Rightarrow> http_answer \<Rightarrow> string \<Rightarrow> string \<Rightarrow> demo_db \<Rightarrow> (jin_error + json) \<times> demo_db" where
  "read_pod_files sha io u answer serviceId dir w =
     bind_result (recordToolCall sha io u ''owner:api'' ''exportPreviewFiles''
         (computeInputsHash sha (Some (JObj [(''serviceId'', JStr serviceId), (''dir'', JStr dir)])))
         (Some (''Traer al editor los archivos del pod '' @ serviceId @ '' ('' @ dir @ '')'')) ''auto'' None w)
       (\<lambda>_ w1. call_demo answer (DExport serviceId dir) w1)"

definition list_services :: "http_answer \<Rightarrow> demo_db \<Rightarrow> (jin_error + json) \<times> demo_db" where
  "list_services answer w = call_demo answer DList w"

definition stop_service :: "http_answer \<Rightarrow> string \<Rightarrow> demo_db \<Rightarrow> (jin_error + json) \<times> demo_db" where
  "stop_service answer serviceId w =
     bind_result (call_demo answer (DStop (Some (JStr serviceId))) w) (\<lambda>_ w1. (Inr (JObj [(''ok'', JBool True)]), w1))"

text \<open>What the schema accepts is refused by the template only for its files or for what does not go together.\<close>

lemma schema_parses:
  assumes "PublishPreviewSchema i env"
  shows "\<exists>db. parseDb (pi_db i) = Inr db" "\<exists>ss. parseSecrets (pi_secrets i) = Inr ss" "validateDemoEnv env = []"
proof -
  have "pi_db i = None \<or> (\<exists>e. pi_db i = Some (db_name e))"
  proof (cases "pi_db i")
    case (Some d)
    then have "d = db_name Sqlite \<or> d = db_name Redis \<or> d = db_name Postgres \<or> d = db_name Mongodb"
      using assms by (auto simp: PublishPreviewSchema_def)
    then show ?thesis using Some by blast
  qed simp
  then show "\<exists>db. parseDb (pi_db i) = Inr db"
  proof (elim disjE exE)
    assume "pi_db i = None"
    then show ?thesis by (simp add: parseDb_def)
  next
    fix e
    assume "pi_db i = Some (db_name e)"
    then show ?thesis using parseDb_ok by blast
  qed
  have "case pi_secrets i of None \<Rightarrow> True | Some ss \<Rightarrow> list_all SECRET_NAME_PATTERN ss \<and> length ss \<le> 5"
    using assms unfolding PublishPreviewSchema_def by blast
  then show "\<exists>ss. parseSecrets (pi_secrets i) = Inr ss"
    by (auto simp: parseSecrets_def MAX_SECRETS_def list_all_iff find_None_iff find_Some_iff split: option.split)
  show "validateDemoEnv env = []" using assms unfolding PublishPreviewSchema_def by blast
qed

text \<open>An identifier cannot leave its place in the path: what is encoded holds no separator.\<close>

lemma encoded_stays_inside: "c \<in> set (encodeURIComponent s) \<Longrightarrow> unreserved c \<or> c = CHR 0x25 \<or> is_digit c \<or> is_upper c"
proof -
  have hex: "is_digit (hex_upper d) \<or> is_upper (hex_upper d)" if "d < 16" for d :: nat
  proof -
    have code: "(of_char (char_of n :: char) :: nat) = n" if "n < 256" for n :: nat
      using that by simp
    show ?thesis using that code [of "48 + d"] code [of "55 + d"]
      by (cases "d < 10") (simp_all add: hex_upper_def is_digit_def is_upper_def)
  qed
  have small: "b < 256" if "n < 256" "b \<in> set (utf8_code n)" for n b :: nat
    using that by (auto simp: utf8_code_def split: if_splits)
  have bytes: "b < 256" if "b \<in> set (utf8_code (of_char a))" for a :: char and b
    by (rule small [OF _ that]) simp
  assume "c \<in> set (encodeURIComponent s)"
  then obtain a where a: "c \<in> set (if unreserved a then [a] else concat (map percent (utf8_code (of_char a))))"
    unfolding encodeURIComponent_def set_concat set_map by blast
  show ?thesis
  proof (cases "unreserved a")
    case False
    then obtain b where b: "b \<in> set (utf8_code (of_char a))" "c \<in> set (percent b)" using a by auto
    then have "b < 256" using bytes by blast
    then show ?thesis using b(2) hex [of "b div 16"] hex [of "b mod 16"] by (auto simp: percent_def)
  qed (use a in simp)
qed

section \<open>What is left of the values\<close>

text \<open>The values replaced by as many letters as they have bytes, in the vault and in the calls.\<close>

definition blank :: "string \<Rightarrow> string" where
  "blank v = replicate (byte_length v) CHR ''x''"

definition blank_env :: "env_map \<Rightarrow> env_map" where
  "blank_env env = map (\<lambda>(n, v). (n, blank v)) env"

fun hide_call :: "demo_call \<Rightarrow> demo_call" where
  "hide_call (DStart r) = DStart (r\<lparr> sp_env := map_option blank_env (sp_env r) \<rparr>)"
| "hide_call c = c"

definition hide_entry :: "uuid \<times> VaultEntry \<Rightarrow> uuid \<times> VaultEntry" where
  "hide_entry x = (fst x, (snd x)\<lparr> ve_env := blank_env (ve_env (snd x)) \<rparr>)"

abbreviation with_demo :: "vault \<Rightarrow> demo_call list \<Rightarrow> demo_db \<Rightarrow> demo_db" where
  "with_demo v c w \<equiv> w\<lparr> dd_vault := v, dd_calls := c \<rparr>"

definition hide :: "demo_db \<Rightarrow> demo_db" where
  "hide w = with_demo (map hide_entry (dd_vault w)) (map hide_call (dd_calls w)) w"

lemma byte_length_blank [simp]: "byte_length (blank v) = byte_length v"
  by (simp add: blank_def byte_length_def sum_list_replicate)

lemma names_blank [simp]: "map fst (blank_env env) = map fst env" "(blank_env env = []) = (env = [])"
  by (simp_all add: blank_env_def case_prod_unfold o_def)

lemma validate_blank [simp]: "validateDemoEnv (blank_env env) = validateDemoEnv env"
proof -
  have "map env_problems (blank_env env) = map env_problems env"
    by (simp add: blank_env_def env_problems_def case_prod_unfold)
  moreover have "env_bytes (blank_env env) = env_bytes env"
    by (induction env) (auto simp: blank_env_def env_bytes_def)
  moreover have "length (blank_env env) = length env" by (simp add: blank_env_def)
  ultimately show ?thesis by (simp add: validateDemoEnv_def)
qed

section \<open>What knows nothing of the vault\<close>

text \<open>An operation on the tables alone: whatever the vault and the calls are, it leaves them and answers the same.\<close>

definition framed :: "(demo_db \<Rightarrow> 'a \<times> demo_db) \<Rightarrow> bool" where
  "framed f \<longleftrightarrow> (\<forall>w v c. f (with_demo v c w) = apsnd (with_demo v c) (f w))"

definition framed1 :: "(demo_db \<Rightarrow> demo_db) \<Rightarrow> bool" where
  "framed1 f \<longleftrightarrow> (\<forall>w v c. f (with_demo v c w) = with_demo v c (f w))"

lemma framed_keeps: "framed f \<Longrightarrow> dd_vault (snd (f w)) = dd_vault w \<and> dd_calls (snd (f w)) = dd_calls w"
proof -
  assume "framed f"
  then have "f (with_demo (dd_vault w) (dd_calls w) w) = apsnd (with_demo (dd_vault w) (dd_calls w)) (f w)"
    unfolding framed_def by blast
  then have "snd (f w) = snd (apsnd (with_demo (dd_vault w) (dd_calls w)) (f w))" by simp
  then have s: "snd (f w) = with_demo (dd_vault w) (dd_calls w) (snd (f w))" by (simp only: snd_apsnd)
  have "dd_vault (snd (f w)) = dd_vault w" by (subst s) simp
  moreover have "dd_calls (snd (f w)) = dd_calls w" by (subst s) simp
  ultimately show ?thesis by simp
qed

lemma framed_bind: "framed f \<Longrightarrow> (\<And>a. framed (g a)) \<Longrightarrow> framed (\<lambda>w. bind_result (f w) g)"
  unfolding framed_def by (auto simp: bind_result_def split: prod.splits sum.splits)

lemma framed_appendRow: "framed (appendRow sha io d)"
proof -
  have "appendRow sha io d (with_demo v c w) = apsnd (with_demo v c) (appendRow sha io d w)" for w v c
    by (cases w) (simp add: appendRow_def isLocked_def last_hash_def rows_asc_def Let_def split: option.split)
  then show ?thesis by (simp add: framed_def)
qed

lemma framed_record:
  "framed (recordToolCall sha io u a t h p s x)" "framed (recordApproval sha io k who t h)"
  "framed (recordRejection sha io k who t h)" "framed (recordExecutionFailure sha io k t h)"
  using framed_appendRow by (simp_all add: framed_def record_defs)

lemma framed_claim: "framed (claimForExecution k now)"
proof -
  have "claimForExecution k now (with_demo v c w) = apsnd (with_demo v c) (claimForExecution k now w)" for w v c
    by (cases w) (simp add: claimForExecution_def Let_def)
  then show ?thesis by (simp add: framed_def)
qed

lemma framed_getPending [simp]: "getPending k (with_demo v c w) = getPending k w"
  by (simp add: getPending_def)

lemma framed_release: "framed1 (releaseClaim k n)" and framed_remove: "framed1 (removePending k)"
proof -
  have "releaseClaim k n (with_demo v c w) = with_demo v c (releaseClaim k n w)"
    "removePending k (with_demo v c w) = with_demo v c (removePending k w)" for w v c
    by (cases w; simp add: releaseClaim_def removePending_def)+
  then show "framed1 (releaseClaim k n)" "framed1 (removePending k)" by (simp_all add: framed1_def)
qed

lemma framed_removeIf: "framed (removeIfNotExecuting k now)"
proof -
  have "removeIfNotExecuting k now (with_demo v c w) = apsnd (with_demo v c) (removeIfNotExecuting k now w)" for w v c
    by (cases w) (simp add: removeIfNotExecuting_def Let_def)
  then show ?thesis by (simp add: framed_def)
qed

lemma framed_first: "framed (set_first_approval k who now)"
proof -
  have "set_first_approval k who now (with_demo v c w) = apsnd (with_demo v c) (set_first_approval k who now w)" for w v c
    by (cases w) (simp add: set_first_approval_def Let_def)
  then show ?thesis by (simp add: framed_def)
qed

lemma framed_dc: "framed (dc_recordApproval k who now)"
proof -
  have "dc_recordApproval k who now (with_demo v c w) = apsnd (with_demo v c) (dc_recordApproval k who now w)" for w v c
  proof (cases "getPending k w")
    case None
    then show ?thesis by (simp add: dc_recordApproval.simps)
  next
    case (Some p)
    have first: "set_first_approval k who now (with_demo v c w) = apsnd (with_demo v c) (set_first_approval k who now w)"
      using framed_first by (simp add: framed_def)
    have won: "p_firstApprovedAt p = None \<Longrightarrow> fst (set_first_approval k who now w) \<noteq> []"
      by (rule set_first_approval_wins [OF Some])
    show ?thesis
      using Some first won
      by (subst (1 2) dc_recordApproval.simps) (auto simp: Let_def split: sum.split approval_level.split option.split)
  qed
  then show ?thesis by (simp add: framed_def)
qed

lemma framed_emit: "framed1 (emit e)"
proof -
  have "emit e (with_demo v c w) = with_demo v c (emit e w)" for w v c by (cases w) (simp add: emit_def)
  then show ?thesis by (simp add: framed1_def)
qed

lemma framed_return: "framed (Pair a)" "framed1 f \<Longrightarrow> framed (\<lambda>w. (a, f w))"
  by (auto simp: framed_def framed1_def)

lemma framed_create: "framed (createPendingApproval sha now io i)"
proof -
  have "createPendingApproval sha now io i (with_demo v c w) = apsnd (with_demo v c) (createPendingApproval sha now io i w)" for w v c
  proof -
    let ?row = "w\<lparr>pending_approvals := pending_approvals w @ [new_row i now]\<rparr>"
    let ?rec = "recordToolCall sha io (c_requestId i) (case c_actor i of Some a \<Rightarrow> a | None \<Rightarrow> ''agent'') (c_toolName i) (c_inputsHash i)
               (c_planSummary i) ''pending'' (c_externalInputsSummary i)"
    have row: "(with_demo v c w)\<lparr>pending_approvals := pending_approvals w @ [new_row i now]\<rparr> = with_demo v c ?row"
      by (cases w) simp
    have "?rec (with_demo v c ?row) = apsnd (with_demo v c) (?rec ?row)" using framed_record(1) unfolding framed_def by blast
    moreover have "emit e (with_demo v c x) = with_demo v c (emit e x)" for e x using framed_emit unfolding framed1_def by blast
    ultimately show ?thesis
      by (cases "?rec ?row"; cases "fst (?rec ?row)") (simp_all add: createPendingApproval_def row)
  qed
  then show ?thesis by (simp add: framed_def)
qed

lemma framed_relax: "framed (relax sha modes io d tool)"
proof -
  have "relax sha modes io d tool (with_demo v c w) = apsnd (with_demo v c) (relax sha modes io d tool w)" for w v c
  proof -
    have state: "getState now (with_demo v c x) = getState now x" for now x by (simp add: getState_def)
    have bump: "bumpRelaxedCounter now (with_demo v c w) = apsnd (with_demo v c) (bumpRelaxedCounter now w)" for now
      by (cases w) (simp add: bumpRelaxedCounter_def Let_def split: option.split)
    have wr: "writeState sha wio mc (with_demo v c x) = apsnd (with_demo v c) (writeState sha wio mc x)" if "\<not> mc_auditBeforeApply mc" for wio mc x
    proof -
      have upd: "update_mode_row mc t (with_demo v c y) = with_demo v c (update_mode_row mc t y)" for t y
        by (cases y) (simp add: update_mode_row_def)
      have aud: "audit_mode_change sha wio mc prev (with_demo v c y) = apsnd (with_demo v c) (audit_mode_change sha wio mc prev y)" for prev y
        unfolding audit_mode_change_def using framed_record(1) unfolding framed_def by blast
      have em: "emit e (with_demo v c y) = with_demo v c (emit e y)" for e y using framed_emit unfolding framed1_def by blast
      show ?thesis using that by (simp add: writeState_def Let_def state upd aud em)
    qed
    obtain n w1 where b: "bumpRelaxedCounter (rx_dbNow io) w = (n, w1)" by (cases "bumpRelaxedCounter (rx_dbNow io) w")
    obtain r w2 where a: "applyRestrictiveChange sha (rx_write io) Supervised ''system:circuit-breaker'' ''circuit-breaker'' 0 w1 = (r, w2)"
      by (cases "applyRestrictiveChange sha (rx_write io) Supervised ''system:circuit-breaker'' ''circuit-breaker'' 0 w1")
    have a': "applyRestrictiveChange sha (rx_write io) Supervised ''system:circuit-breaker'' ''circuit-breaker'' 0 (with_demo v c w1) = (r, with_demo v c w2)"
      using a wr by (simp add: applyRestrictiveChange_def)
    show ?thesis by (cases r) (simp_all add: relax_def Let_def state bump b a a')
  qed
  then show ?thesis by (simp add: framed_def)
qed

lemma framed_decide: "framed (decide sha modes flags rid io tool inputs)"
proof -
  have "decide sha modes flags rid io tool inputs (with_demo v c w) = apsnd (with_demo v c) (decide sha modes flags rid io tool inputs w)" for w v c
  proof -
    have row: "override_of t (with_demo v c w) = override_of t w" for t by (simp add: override_of_def)
    have level: "resolveEffectiveLevel flags d (with_demo v c w) = resolveEffectiveLevel flags d w" for d
      by (simp add: resolveEffectiveLevel_def row split: option.split)
    have rel: "relax sha modes io d t (with_demo v c w) = apsnd (with_demo v c) (relax sha modes io d t w)" for d t
      using framed_relax unfolding framed_def by blast
    show ?thesis by (cases "classifyToolCall rid tool inputs") (simp_all add: decide_def level rel Let_def)
  qed
  then show ?thesis by (simp add: framed_def)
qed

section \<open>Running with the values hidden\<close>

text \<open>Two operations, the second on hidden values: the same answer, and the state the first would leave with its values
  hidden.\<close>

definition hides :: "(demo_db \<Rightarrow> 'a \<times> demo_db) \<Rightarrow> (demo_db \<Rightarrow> 'a \<times> demo_db) \<Rightarrow> bool" where
  "hides f g \<longleftrightarrow> (\<forall>w. g (hide w) = apsnd hide (f w))"

lemma hides_framed: "framed f \<Longrightarrow> hides f f"
proof -
  assume a: "framed f"
  have "f (hide w) = apsnd hide (f w)" for w
  proof -
    have "f (hide w) = apsnd (with_demo (map hide_entry (dd_vault w)) (map hide_call (dd_calls w))) (f w)"
      using a unfolding framed_def hide_def by blast
    then show ?thesis using framed_keeps [OF a, of w] by (cases "f w") (simp add: hide_def)
  qed
  then show ?thesis by (simp add: hides_def)
qed

lemma hides_framed1: "framed1 f \<Longrightarrow> f (hide w) = hide (f w)"
proof -
  assume "framed1 f"
  then have "framed (\<lambda>w. ((), f w))" by (rule framed_return)
  from hides_framed [OF this] show ?thesis by (simp add: hides_def)
qed

lemma hides_bind: "hides f f' \<Longrightarrow> (\<And>a. hides (g a) (g' a)) \<Longrightarrow> hides (\<lambda>w. bind_result (f w) g) (\<lambda>w. bind_result (f' w) g')"
  unfolding hides_def by (auto simp: bind_result_def split: prod.splits sum.splits)

lemma hides_call: "hides (call_demo answer c) (call_demo answer (hide_call c))"
  by (simp add: hides_def call_demo_def hide_def)

lemma vault_hidden:
  "map_of (map hide_entry es) k = map_option (\<lambda>e. e\<lparr> ve_env := blank_env (ve_env e) \<rparr>) (map_of es k)"
  "AList.delete k (map hide_entry es) = map hide_entry (AList.delete k es)"
  "vault_purge now (map hide_entry es) = map hide_entry (vault_purge now es)"
  "AList.update k (e\<lparr> ve_env := blank_env (ve_env e) \<rparr>) (map hide_entry es) = map hide_entry (AList.update k e es)"
  "length (map hide_entry es) = length es"
  by (induction es) (auto simp: hide_entry_def vault_purge_def)

section \<open>The operations with the values hidden\<close>

lemma hides_put: "hides (put_env io rid env) (put_env io rid (blank_env env))"
proof -
  have put: "vault_put rid (blank_env env) ttl now (map hide_entry es) = apsnd (map hide_entry) (vault_put rid env ttl now es)" for ttl now es
    using vault_hidden(4) [of rid "\<lparr> ve_env = env, ve_expiresAt = now + ttl \<rparr>" "vault_purge now es"]
    by (simp add: vault_put_def vault_hidden Let_def)
  have "put_env io rid (blank_env env) (hide w) = apsnd hide (put_env io rid env w)" for w
    by (cases "vault_put rid env VAULT_TTL_MS (pb_vaultNow io) (dd_vault w)") (simp add: put_env_def hide_def put)
  then show ?thesis by (simp add: hides_def)
qed

lemma hides_takeEnv: "takeEnv names rid now (hide w) = apsnd hide (map_prod (map_sum id blank_env) id (takeEnv names rid now w))"
proof (cases "given_id rid")
  case None
  then show ?thesis by (simp add: takeEnv_def hide_def)
next
  case (Some r)
  have "vault_take r now (map hide_entry es) = map_prod (map_option blank_env) (map hide_entry) (vault_take r now es)" for es
    by (simp add: vault_take_def vault_hidden split: option.split)
  moreover obtain e v where "vault_take r now (dd_vault w) = (e, v)" by (cases "vault_take r now (dd_vault w)")
  ultimately show ?thesis using Some by (cases e) (simp_all add: takeEnv_def hide_def)
qed

lemma hides_start: "hides (start_preview source now answer payload rid) (start_preview source now answer payload rid)"
proof -
  have "start_preview source now answer payload rid (hide w) = apsnd hide (start_preview source now answer payload rid w)" for w
  proof -
    have call: "call_demo answer (DStart (r\<lparr> sp_env := map_option blank_env e, sp_requestId := g \<rparr>)) (hide x)
        = apsnd hide (call_demo answer (DStart (r\<lparr> sp_env := e, sp_requestId := g \<rparr>)) x)" for r e g x
      by (cases r) (simp add: call_demo_def hide_def)
    have none: "call_demo answer (DStart (r\<lparr> sp_env := None, sp_requestId := g \<rparr>)) (hide x)
        = apsnd hide (call_demo answer (DStart (r\<lparr> sp_env := None, sp_requestId := g \<rparr>)) x)" for r g x
      using call [where r = r and e = None and g = g and x = x] by simp
    have some: "call_demo answer (DStart (r\<lparr> sp_env := Some (blank_env e), sp_requestId := g \<rparr>)) (hide x)
        = apsnd hide (call_demo answer (DStart (r\<lparr> sp_env := Some e, sp_requestId := g \<rparr>)) x)" for r e g x
      using call [where r = r and e = "Some e" and g = g and x = x] by simp
    show ?thesis
    proof (cases "preview_of_json payload")
      case None
      then show ?thesis by (simp add: start_preview_def)
    next
      case (Some i)
      obtain t w1 where t: "takeEnv (env_names i) rid now w = (t, w1)" by (cases "takeEnv (env_names i) rid now w")
      have t': "takeEnv (env_names i) rid now (hide w) = (map_sum id blank_env t, hide w1)"
        using hides_takeEnv [of "env_names i" rid now w] t by simp
      show ?thesis using Some t t'
        by (cases "expandPreviewTemplate source i"; cases t) (simp_all add: start_preview_def none some)
    qed
  qed
  then show ?thesis by (simp add: hides_def)
qed

lemma hides_prop_call:
  assumes "\<And>p. hide_call (mk p) = mk p"
  shows "hides (prop_call answer mk payload rid) (prop_call answer mk payload rid)"
proof -
  have "prop_call answer mk payload rid (hide w) = apsnd hide (prop_call answer mk payload rid w)" for w
    using hides_call [of answer "mk (\<lambda>k. json_field k payload)"] assms by (simp add: prop_call_def hides_def)
  then show ?thesis by (simp add: hides_def)
qed

definition demo_registry :: "string \<Rightarrow> int \<Rightarrow> http_answer \<Rightarrow> demo_db executors" where
  "demo_registry source now answer = map_of (demo_tools source now answer)"

lemma demo_registry_hides:
  assumes "demo_registry source now answer tool = Some ex"
  shows "hides (ex payload rid) (ex payload rid)"
proof -
  have calls: "hides (call_demo answer DList) (call_demo answer DList)" "hides (call_demo answer DListGithub) (call_demo answer DListGithub)"
    using hides_call [of answer DList] hides_call [of answer DListGithub] by simp_all
  have stop: "hides (stop_preview answer payload rid) (stop_preview answer payload rid)"
    unfolding stop_preview_def by (intro hides_bind hides_prop_call hides_framed framed_return) simp
  show ?thesis
    using assms calls stop hides_start hides_prop_call [of _ answer payload rid]
    unfolding demo_registry_def demo_tools_def by (auto split: if_splits)
qed

lemma hides_execute: "hides (execute (demo_registry source now answer) tool payload rid) (execute (demo_registry source now answer) tool payload rid)"
proof (cases "demo_registry source now answer tool")
  case None
  then show ?thesis by (simp add: hides_def execute_def)
next
  case (Some ex)
  then have "execute (demo_registry source now answer) tool payload rid = ex payload rid" by (simp add: execute_def fun_eq_iff)
  then show ?thesis using demo_registry_hides [OF Some] by simp
qed

lemma hides_decideAndRun:
  "hides (decideAndRun sha (demo_registry source now answer) io i d names) (decideAndRun sha (demo_registry source now answer) io i d names)"
proof -
  have fin: "framed (\<lambda>w. (Inr r, if d_level d = Lnotify then emit e w else w))" for r :: OwnerPublishResult and e
    using framed_emit by (simp add: framed_def framed1_def)
  show ?thesis
  proof (cases "d_level d = Lconfirm \<or> d_level d = Ldual_confirm")
    case True
    then have "decideAndRun sha (demo_registry source now answer) io i d names
        = (\<lambda>w. bind_result (createPendingApproval sha (pb_createdAt io) (pb_audit io) (publish_approval sha d i names) w)
             (\<lambda>_ w1. (Inr (PublishPending (d_requestId d)), w1)))"
      by (simp add: decideAndRun_def fun_eq_iff)
    then show ?thesis by (simp only:) (intro hides_bind hides_framed framed_create framed_return)
  next
    case False
    show ?thesis
      unfolding decideAndRun_def if_not_P [OF False]
      by (rule hides_bind, rule hides_execute, rule hides_bind, rule hides_framed, rule framed_record, rule hides_framed, rule fin)
  qed
qed

lemma hides_publish:
  "hides (publish sha modes flags source (demo_registry source now answer) io i env)
     (publish sha modes flags source (demo_registry source now answer) io i (blank_env env))"
proof -
  have input: "publish_input i (blank_env env) = publish_input i env" by (simp add: publish_input_def)
  have rest: "hides (\<lambda>w2. case decideAndRun sha (demo_registry source now answer) io j d names w2 of
        (Inl e, w3) \<Rightarrow> (Inl e, w3\<lparr> dd_vault := vault_discard (d_requestId d) (dd_vault w3) \<rparr>) | (Inr r, w3) \<Rightarrow> (Inr r, w3))
      (\<lambda>w2. case decideAndRun sha (demo_registry source now answer) io j d names w2 of
        (Inl e, w3) \<Rightarrow> (Inl e, w3\<lparr> dd_vault := vault_discard (d_requestId d) (dd_vault w3) \<rparr>) | (Inr r, w3) \<Rightarrow> (Inr r, w3))"
    (is "hides ?f ?f") for d j names
  proof -
    have "?f (hide w) = apsnd hide (?f w)" for w
    proof -
      obtain r w3 where d: "decideAndRun sha (demo_registry source now answer) io j d names w = (r, w3)"
        by (cases "decideAndRun sha (demo_registry source now answer) io j d names w")
      have "decideAndRun sha (demo_registry source now answer) io j d names (hide w) = (r, hide w3)"
        using hides_decideAndRun d by (simp add: hides_def)
      then show ?thesis using d by (cases r) (simp_all add: hide_def vault_discard_def vault_hidden)
    qed
    then show ?thesis unfolding hides_def by blast
  qed
  show ?thesis
  proof (cases "validateDemoEnv env \<noteq> []")
    case True
    then show ?thesis by (simp add: hides_def publish_def)
  next
    case False
    show ?thesis
    proof (cases "expandPreviewTemplate source (publish_input i env)")
      case (Inl m)
      then show ?thesis using False by (simp add: hides_def publish_def input)
    next
      case (Inr req)
      show ?thesis
        unfolding publish_def validate_blank if_not_P [OF False] input Inr sum.case names_blank
        by (rule hides_bind, rule hides_framed, rule framed_decide, rule hides_bind, rule hides_put, rule rest)
    qed
  qed
qed

lemma hides_approve:
  "hides (resolveAndExecute sha (demo_registry source now answer) io k who) (resolveAndExecute sha (demo_registry source now answer) io k who)"
proof -
  have "resolveAndExecute sha (demo_registry source now answer) io k who (hide w)
      = apsnd hide (resolveAndExecute sha (demo_registry source now answer) io k who w)" for w
  proof -
    have g: "getPending k (hide w) = getPending k w" by (simp add: hide_def)
    obtain a w1 where dc: "dc_recordApproval k who (x_approvalNow io) w = (a, w1)" by (cases "dc_recordApproval k who (x_approvalNow io) w")
    have dc': "dc_recordApproval k who (x_approvalNow io) (hide w) = (a, hide w1)"
      using hides_framed [OF framed_dc] dc by (simp add: hides_def)
    obtain c w2 where cl: "claimForExecution k (x_claimNow io) w1 = (c, w2)" by (cases "claimForExecution k (x_claimNow io) w1")
    have cl': "claimForExecution k (x_claimNow io) (hide w1) = (c, hide w2)"
      using hides_framed [OF framed_claim] cl by (simp add: hides_def)
    have rel: "releaseClaim k n (hide x) = hide (releaseClaim k n x)" for n x by (rule hides_framed1 [OF framed_release])
    have rem: "removePending k (hide x) = hide (removePending k x)" for x by (rule hides_framed1 [OF framed_remove])
    have rec: "recordApproval sha (x_audit io) k who t h (hide x) = apsnd hide (recordApproval sha (x_audit io) k who t h x)"
      "recordExecutionFailure sha (x_failureAudit io) k t h (hide x) = apsnd hide (recordExecutionFailure sha (x_failureAudit io) k t h x)" for t h x
      using hides_framed [OF framed_record(2)] hides_framed [OF framed_record(4)] by (simp_all add: hides_def)
    have ex: "execute (demo_registry source now answer) t p r (hide x) = apsnd hide (execute (demo_registry source now answer) t p r x)" for t p r x
      using hides_execute by (simp add: hides_def)
    show ?thesis
    proof (cases "getPending k w")
      case None
      then show ?thesis by (simp add: resolveAndExecute_def g)
    next
      case (Some p)
      show ?thesis
      proof (cases "a = Inr Resolved \<and> c \<noteq> None")
        case False
        then show ?thesis using Some dc dc' cl cl'
          by (simp add: resolveAndExecute_def g split: sum.split ApprovalOutcome.split option.split)
      next
        case True
        then obtain row where row: "c = Some row" by auto
        obtain b w3 where r: "recordApproval sha (x_audit io) k who (p_toolName row) (p_inputsHash row) w2 = (b, w3)"
          by (cases "recordApproval sha (x_audit io) k who (p_toolName row) (p_inputsHash row) w2")
        obtain e w4 where x: "execute (demo_registry source now answer) (p_toolName row) (p_payload row) (Some k) w3 = (e, w4)"
          by (cases "execute (demo_registry source now answer) (p_toolName row) (p_payload row) (Some k) w3")
        have r': "recordApproval sha (x_audit io) k who (p_toolName row) (p_inputsHash row) (hide w2) = (b, hide w3)" by (simp add: rec r)
        have x': "execute (demo_registry source now answer) (p_toolName row) (p_payload row) (Some k) (hide w3) = (e, hide w4)" by (simp add: ex x)
        show ?thesis using Some True row
          by (cases b; cases e) (simp_all add: resolveAndExecute_def g dc dc' cl cl' r r' x x' rel rem rec)
      qed
    qed
  qed
  then show ?thesis by (simp add: hides_def)
qed

lemma framed_reject: "framed (resolveRejection sha io k who)"
proof -
  have "resolveRejection sha io k who (with_demo v c w) = apsnd (with_demo v c) (resolveRejection sha io k who w)" for w v c
  proof -
    obtain cl w1 where cl: "claimForExecution k (r_claimNow io) w = (cl, w1)" by (cases "claimForExecution k (r_claimNow io) w")
    have cl': "claimForExecution k (r_claimNow io) (with_demo v c w) = (cl, with_demo v c w1)"
      using framed_claim cl by (simp add: framed_def)
    have rel: "releaseClaim k n (with_demo v c x) = with_demo v c (releaseClaim k n x)"
      "removePending k (with_demo v c x) = with_demo v c (removePending k x)" for n x
      using framed_release framed_remove by (simp_all add: framed1_def)
    have rec: "recordRejection sha (r_audit io) k who t h (with_demo v c x) = apsnd (with_demo v c) (recordRejection sha (r_audit io) k who t h x)" for t h x
      using framed_record(3) by (simp add: framed_def)
    have rif: "removeIfNotExecuting k now (with_demo v c x) = apsnd (with_demo v c) (removeIfNotExecuting k now x)" for now x
      using framed_removeIf by (simp add: framed_def)
    show ?thesis
    proof (cases "getPending k w")
      case None
      then show ?thesis by (simp add: resolveRejection_def)
    next
      case (Some p)
      obtain a w2 where r: "recordRejection sha (r_audit io) k who (p_toolName p) (p_inputsHash p) w1 = (a, w2)"
        by (cases "recordRejection sha (r_audit io) k who (p_toolName p) (p_inputsHash p) w1")
      show ?thesis
      proof (cases cl)
        case None
        then show ?thesis using Some
          by (cases a) (simp_all add: resolveRejection_def cl cl' rec r rif Let_def)
      next
        case (Some q)
        obtain b w3 where q: "recordRejection sha (r_audit io) k who (p_toolName q) (p_inputsHash q) w1 = (b, w3)"
          by (cases "recordRejection sha (r_audit io) k who (p_toolName q) (p_inputsHash q) w1")
        show ?thesis using Some \<open>getPending k w = Some p\<close>
          by (cases b) (simp_all add: resolveRejection_def cl cl' rec q rel)
      qed
    qed
  qed
  then show ?thesis by (simp add: framed_def)
qed

section \<open>The values go only to the executor\<close>

text \<open>What happens to demos: the owner publishes, approves and rejects, and a tool is run (by the agent); each step with
  the time at which the vault is read and the answer of the executor.\<close>

datatype demo_step =
    SPublish publish_io int http_answer PreviewServiceToolInput env_map
  | SApprove exec_io int http_answer uuid string
  | SReject reject_io uuid string
  | SRunTool int http_answer string "json option" "uuid option"

datatype demo_answer =
    APublish "jin_error + OwnerPublishResult"
  | AApprove "jin_error + ResolveAndExecuteResult"
  | AReject "jin_error + unit"
  | ARun "jin_error + json"

fun run_demo :: "(string \<Rightarrow> string) \<Rightarrow> AutonomyConfig \<Rightarrow> FeatureFlagsConfig \<Rightarrow> string \<Rightarrow> demo_step \<Rightarrow> demo_db \<Rightarrow> demo_answer \<times> demo_db" where
  "run_demo sha modes flags source (SPublish io now answer i env) w =
     apfst APublish (publish sha modes flags source (demo_registry source now answer) io i env w)"
| "run_demo sha modes flags source (SApprove io now answer k who) w =
     apfst AApprove (resolveAndExecute sha (demo_registry source now answer) io k who w)"
| "run_demo sha modes flags source (SReject io k who) w = apfst AReject (resolveRejection sha io k who w)"
| "run_demo sha modes flags source (SRunTool now answer tool payload rid) w =
     apfst ARun (execute (demo_registry source now answer) tool payload rid w)"

fun run_demos :: "(string \<Rightarrow> string) \<Rightarrow> AutonomyConfig \<Rightarrow> FeatureFlagsConfig \<Rightarrow> string \<Rightarrow> demo_step list \<Rightarrow> demo_db \<Rightarrow> demo_answer list \<times> demo_db" where
  "run_demos sha modes flags source [] w = ([], w)"
| "run_demos sha modes flags source (s # ss) w =
     (case run_demo sha modes flags source s w of (a, w1) \<Rightarrow> apfst ((#) a) (run_demos sha modes flags source ss w1))"

fun blank_step :: "demo_step \<Rightarrow> demo_step" where
  "blank_step (SPublish io now answer i env) = SPublish io now answer i (blank_env env)"
| "blank_step s = s"

lemma hides_step: "run_demo sha modes flags source (blank_step s) (hide w) = apsnd hide (run_demo sha modes flags source s w)"
proof (cases s)
  case (SPublish io now answer i env)
  show ?thesis using hides_publish [of sha modes flags source now answer io i env]
    by (simp add: SPublish hides_def apfst_def apsnd_def map_prod_def split: prod.split)
next
  case (SApprove io now answer k who)
  show ?thesis using hides_approve [of sha source now answer io k who]
    by (simp add: SApprove hides_def apfst_def apsnd_def map_prod_def split: prod.split)
next
  case (SReject io k who)
  show ?thesis using hides_framed [OF framed_reject, of sha io k who]
    by (simp add: SReject hides_def apfst_def apsnd_def map_prod_def split: prod.split)
next
  case (SRunTool now answer tool payload rid)
  show ?thesis using hides_execute [of source now answer tool payload rid]
    by (simp add: SRunTool hides_def apfst_def apsnd_def map_prod_def split: prod.split)
qed

text \<open>C37: The values of the variables go nowhere but into the vault and the calls to the executor: through any publications,
  approvals, rejections and tools that are run, each answer, error message, row of the audit log, pending approval, event
  and the rest of each call are what they would be if every value were a row of letters of the same number of bytes.\<close>

theorem values_go_only_to_the_executor:
  "run_demos sha modes flags source (map blank_step steps) (hide w) = apsnd hide (run_demos sha modes flags source steps w)"
proof (induction steps arbitrary: w)
  case (Cons s steps)
  obtain a w1 where "run_demo sha modes flags source s w = (a, w1)" by (cases "run_demo sha modes flags source s w")
  then show ?case using hides_step [of sha modes flags source s w] Cons.IH [of w1]
    by (cases "run_demos sha modes flags source steps w1") simp
qed simp

section \<open>What was typed is what the demo gets\<close>

lemma map_of_json_object:
  "distinct (map fst kvs) \<Longrightarrow>
     map_of (concat (map (\<lambda>(k, v). case v of Some j \<Rightarrow> [(k, j)] | None \<Rightarrow> []) kvs)) k = Option.bind (map_of kvs k) id"
proof (induction kvs)
  case (Cons kv kvs)
  obtain k' v where kv: "kv = (k', v)" by (cases kv)
  have "map_of kvs k' = None" using Cons.prems kv by (simp add: map_of_eq_None_iff)
  then show ?case using Cons kv by (cases v) (auto simp: map_add_def split: option.split)
qed simp

lemma json_strs_map [simp]: "json_strs (map JStr ss) = Some ss"
  by (induction ss) auto

lemma reads_back [simp]:
  "files_of (files_json fs) = Some fs" "strs_of (strs_json ss) = Some ss"
  by (simp_all add: files_of_def files_json_def text_entries_files strs_of_def strs_json_def)

lemma preview_reads_back: "preview_of_json (Some (preview_json i)) = Some i"
proof -
  define kvs where "kvs = concat (map (\<lambda>(k, v). case v of Some j \<Rightarrow> [(k, j)] | None \<Rightarrow> []) (preview_fields i))"
  have "distinct (map fst (preview_fields i))" by (simp add: preview_fields_def)
  then have look: "map_of kvs k = Option.bind (map_of (preview_fields i) k) id" for k
    unfolding kvs_def by (rule map_of_json_object)
  have at: "map_of kvs ''files'' = Some (files_json (pi_files i))" "map_of kvs ''template'' = map_option JStr (pi_template i)"
    "map_of kvs ''db'' = map_option JStr (pi_db i)" "map_of kvs ''mailEgress'' = map_option JBool (pi_mailEgress i)"
    "map_of kvs ''secrets'' = map_option strs_json (pi_secrets i)" "map_of kvs ''command'' = map_option strs_json (pi_command i)"
    "map_of kvs ''port'' = map_option JNum (pi_port i)" "map_of kvs ''ttlSeconds'' = Some (JNum (pi_ttlSeconds i))"
    "map_of kvs ''slugHint'' = map_option JStr (pi_slugHint i)" "map_of kvs ''envNames'' = map_option strs_json (pi_envNames i)"
    by (simp_all add: look preview_fields_def)
  have opt: "opt_field f k kvs = Some x" if "map_of kvs k = map_option g x" "\<And>y. f (g y) = Some y" for f :: "json \<Rightarrow> 'b option" and g k x
    using that by (cases x) (simp_all add: opt_field_def optional_prop_def)
  have json: "preview_json i = JObj kvs" by (simp add: preview_json_def json_object_def kvs_def)
  show ?thesis
    unfolding json preview_of_json_def
    by (simp add: at(1,8) opt [OF at(2)] opt [OF at(3)] opt [OF at(4)] opt [OF at(5)] opt [OF at(6)] opt [OF at(7)] opt [OF at(9)] opt [OF at(10)])
qed

lemma decide_pending [simp]: "pending_approvals (snd (decide sha modes flags rid io n inputs db)) = pending_approvals db"
  by (auto simp: decide_def relax_def bumpRelaxedCounter_def applyRestrictiveChange_def writeState_def audit_mode_change_def
      update_mode_row_def emit_def recordToolCall_def Let_def split: sum.split option.split prod.split)

lemma create_result:
  assumes "createPendingApproval sha now io i db = (Inr (), db')"
  shows "getPending (c_requestId i) db = None \<and> \<not> isLocked db' \<and> pending_approvals db' = pending_approvals db @ [new_row i now]"
  using assms
  by (auto simp: createPendingApproval_def Let_def recordToolCall_def appendRow_def emit_def isLocked_def split: option.splits prod.splits if_splits)

lemma map_of_update [simp]: "map_of (AList.update k v es) k = Some v"
  by (simp add: AList.update_conv')

lemma map_of_delete [simp]: "map_of (AList.delete k es) k = None"
  by (simp add: AList.delete_conv')

text \<open>What a publication that waits for the owner leaves.\<close>

lemma publish_pending:
  assumes "publish sha modes flags source reg io i env w = (Inr (PublishPending rid), w1)" "hitl_wf w"
  obtains req row where "validateDemoEnv env = []" "expandPreviewTemplate source (publish_input i env) = Inr req"
    "hitl_wf w1" "\<not> isLocked w1" "dd_calls w1 = dd_calls w"
    "env \<noteq> [] \<Longrightarrow> map_of (dd_vault w1) rid = Some \<lparr> ve_env = env, ve_expiresAt = pb_vaultNow io + VAULT_TTL_MS \<rparr>"
    "getPending rid w1 = Some row" "p_toolName row = PUBLISH_TOOL" "p_payload row = Some (preview_json (publish_input i env))"
    "p_executingAt row = None" "p_firstApprovedAt row = None"
proof -
  have v: "validateDemoEnv env = []" using assms(1) by (simp add: publish_def split: if_splits)
  obtain req where req: "expandPreviewTemplate source (publish_input i env) = Inr req"
    using assms(1) v by (auto simp: publish_def split: sum.splits)
  obtain d wa where d: "decide sha modes flags (pb_uuid io) (pb_relax io) PUBLISH_TOOL (Some (preview_json (publish_input i env))) w = (Inr d, wa)"
    using assms(1) v req by (auto simp: publish_def bind_result_def split: prod.splits sum.splits)
  obtain wb where b: "put_env io (d_requestId d) env wa = (Inr (), wb)"
    using assms(1) v req d by (auto simp: publish_def bind_result_def split: prod.splits sum.splits)
  have r: "decideAndRun sha reg io (publish_input i env) d (map fst env) wb = (Inr (PublishPending rid), w1)"
    using assms(1) v req d b by (auto simp: publish_def split: prod.splits sum.splits)
  have lev: "d_level d = Lconfirm \<or> d_level d = Ldual_confirm"
    by (rule ccontr) (use r in \<open>auto simp: decideAndRun_def bind_result_def split: prod.splits sum.splits\<close>)
  define a where "a = publish_approval sha d (publish_input i env) (map fst env)"
  have c: "createPendingApproval sha (pb_createdAt io) (pb_audit io) a wb = (Inr (), w1)" and rid: "rid = d_requestId d"
    using r lev by (auto simp: decideAndRun_def a_def bind_result_def split: prod.splits sum.splits)
  have ids: "c_requestId a = rid" "c_toolName a = PUBLISH_TOOL" "c_payload a = Some (preview_json (publish_input i env))"
    by (simp_all add: a_def publish_approval_def rid)
  have same: "pending_approvals wb = pending_approvals w"
    using b decide_pending [of sha modes flags "pb_uuid io" "pb_relax io" PUBLISH_TOOL "Some (preview_json (publish_input i env))" w] d
    by (auto simp: put_env_def split: if_splits prod.splits)
  note cr = create_result [OF c]
  have fresh: "rid \<notin> p_requestId ` set (pending_approvals w)" using cr ids same by (simp add: getPending_def)
  have wf: "hitl_wf w1" using assms(2) fresh cr ids same by (auto simp: hitl_wf_def new_row_def)
  have row: "getPending rid w1 = Some (new_row a (pb_createdAt io))"
    using wf cr ids by (simp add: getPending_Some_iff new_row_def)
  have keep: "dd_vault w1 = dd_vault wb" "dd_calls w1 = dd_calls wb"
    using framed_keeps [OF framed_create, of sha "pb_createdAt io" "pb_audit io" a wb] c by simp_all
  have calls: "dd_calls wb = dd_calls w"
    using b framed_keeps [OF framed_decide, of sha modes flags "pb_uuid io" "pb_relax io" PUBLISH_TOOL "Some (preview_json (publish_input i env))" w] d
    by (auto simp: put_env_def split: if_splits prod.splits)
  have vault: "map_of (dd_vault wb) rid = Some \<lparr> ve_env = env, ve_expiresAt = pb_vaultNow io + VAULT_TTL_MS \<rparr>" if "env \<noteq> []"
    using b that by (auto simp: put_env_def vault_put_def rid Let_def split: if_splits prod.splits)
  show thesis
    by (rule that [OF v req wf _ _ _ row]) (use cr keep calls vault ids in \<open>simp_all add: new_row_def\<close>)
qed

lemma approve_runs:
  fixes w :: demo_db
  assumes wf: "hitl_wf w" and row: "getPending rid w = Some row" "p_level row = ''confirm''" "p_executingAt row = None"
    and audit: "\<not> isLocked w" "io_fault (x_audit xio) = None"
  obtains w2 where "dd_vault w2 = dd_vault w" "dd_calls w2 = dd_calls w"
    "\<And>reg. resolveAndExecute sha reg xio rid who w =
       (case execute reg (p_toolName row) (p_payload row) (Some rid) w2 of
          (Inl e, w3) \<Rightarrow> (Inl e, snd (recordExecutionFailure sha (x_failureAudit xio) rid
              (p_toolName row) (p_inputsHash row) (releaseClaim rid (Some (ExecutorFailed e)) w3)))
        | (Inr result, w3) \<Rightarrow> (Inr (RResolved (p_toolName row) result), if x_removeFault xio then w3 else removePending rid w3))"
  using wf
proof (cases rule: resolve_cases [where sha = sha and io = xio and k = rid and who = who])
  case (ran r arow)
  then have r: "r = row" using row by simp
  have "dd_vault (ready_state xio rid arow w) = dd_vault w" "dd_calls (ready_state xio rid arow w) = dd_calls w"
    using framed_keeps [OF framed_claim, of rid "x_claimNow xio" w] by (simp_all add: ready_state_def)
  then show thesis using ran(7) unfolding r by (rule that)
qed (use row audit in \<open>simp_all add: dc_confirm\<close>)

text \<open>C38: A demo whose publication waits for one approval is started with what the owner typed: nothing is called before
  the approval; approved within the 24 hours of the vault it makes one call, which is the request of the template with the
  very values of the variables and the id of the approval, and the values are then gone from the vault.\<close>

theorem published_values_arrive:
  assumes "publish sha modes flags source reg io i env w = (Inr (PublishPending rid), w1)" "hitl_wf w"
    and "p_level (the (getPending rid w1)) = ''confirm''" "rid \<noteq> []" "pi_envNames i = None"
    and "io_fault (x_audit xio) = None" "now < pb_vaultNow io + VAULT_TTL_MS"
  shows "dd_calls w1 = dd_calls w \<and> (\<exists>req. expandPreviewTemplate source (publish_input i env) = Inr req
    \<and> dd_calls (snd (resolveAndExecute sha (demo_registry source now answer) xio rid who w1))
        = dd_calls w @ [DStart (req\<lparr> sp_env := if env = [] then None else Some env, sp_requestId := Some rid \<rparr>)])
    \<and> (env \<noteq> [] \<longrightarrow> map_of (dd_vault (snd (resolveAndExecute sha (demo_registry source now answer) xio rid who w1))) rid = None)"
proof -
  from publish_pending [OF assms(1,2)] obtain req row where p: "expandPreviewTemplate source (publish_input i env) = Inr req"
    "hitl_wf w1" "\<not> isLocked w1" "dd_calls w1 = dd_calls w"
    "env \<noteq> [] \<Longrightarrow> map_of (dd_vault w1) rid = Some \<lparr> ve_env = env, ve_expiresAt = pb_vaultNow io + VAULT_TTL_MS \<rparr>"
    "getPending rid w1 = Some row" "p_toolName row = PUBLISH_TOOL" "p_payload row = Some (preview_json (publish_input i env))"
    "p_executingAt row = None" by metis
  have level: "p_level row = ''confirm''" using assms(3) p(6) by simp
  from approve_runs [OF p(2,6) level p(9,3) assms(6)] obtain w2 where w2: "dd_vault w2 = dd_vault w1" "dd_calls w2 = dd_calls w1"
    and run: "\<And>reg. resolveAndExecute sha reg xio rid who w1 =
       (case execute reg (p_toolName row) (p_payload row) (Some rid) w2 of
          (Inl e, w3) \<Rightarrow> (Inl e, snd (recordExecutionFailure sha (x_failureAudit xio) rid
              (p_toolName row) (p_inputsHash row) (releaseClaim rid (Some (ExecutorFailed e)) w3)))
        | (Inr result, w3) \<Rightarrow> (Inr (RResolved (p_toolName row) result), if x_removeFault xio then w3 else removePending rid w3))"
    by blast
  define c where "c = DStart (req\<lparr> sp_env := if env = [] then None else Some env, sp_requestId := Some rid \<rparr>)"
  define v where "v = (if env = [] then dd_vault w1 else AList.delete rid (dd_vault w1))"
  have ex: "execute (demo_registry source now answer) (p_toolName row) (p_payload row) (Some rid) w2
      = (executor_answer answer, w2\<lparr> dd_vault := v, dd_calls := dd_calls w1 @ [c] \<rparr>)"
  proof -
    have reg: "demo_registry source now answer PUBLISH_TOOL = Some (start_preview source now answer)"
      by (simp add: demo_registry_def demo_tools_def PUBLISH_TOOL_def)
    have id: "given_id (Some rid) = Some rid" using assms(4) by (simp add: given_id_def)
    show ?thesis
    proof (cases "env = []")
      case True
      then have "env_names (publish_input i env) = []" using assms(5) by (simp add: env_names_def publish_input_def)
      then show ?thesis using True p(1,7,8) reg id w2
        by (simp add: execute_def start_preview_def preview_reads_back call_demo_def c_def v_def)
    next
      case False
      then have names: "env_names (publish_input i env) = map fst env" by (simp add: env_names_def publish_input_def)
      have take: "vault_take rid now (dd_vault w1) = (Some env, AList.delete rid (dd_vault w1))"
        using p(5) False assms(7) by (simp add: vault_take_def)
      have "takeEnv (map fst env) (Some rid) now w2 = (Inr env, w2\<lparr> dd_vault := AList.delete rid (dd_vault w1) \<rparr>)"
        using take id w2 by (simp add: takeEnv_def)
      then show ?thesis using False p(1,7,8) reg id w2 names
        by (simp add: execute_def start_preview_def preview_reads_back call_demo_def c_def v_def)
    qed
  qed
  have keep: "dd_calls (snd (resolveAndExecute sha (demo_registry source now answer) xio rid who w1)) = dd_calls w1 @ [c]
      \<and> dd_vault (snd (resolveAndExecute sha (demo_registry source now answer) xio rid who w1)) = v"
  proof -
    have rec: "dd_calls (snd (recordExecutionFailure sha io k t h x)) = dd_calls x \<and> dd_vault (snd (recordExecutionFailure sha io k t h x)) = dd_vault x"
      for io k t h and x :: demo_db using framed_keeps [OF framed_record(4), of sha io k t h x] by simp
    have rel: "dd_calls (releaseClaim k n x) = dd_calls x \<and> dd_vault (releaseClaim k n x) = dd_vault x" for k n and x :: demo_db
      by (simp add: releaseClaim_def)
    have rem: "dd_calls (removePending k x) = dd_calls x \<and> dd_vault (removePending k x) = dd_vault x" for k and x :: demo_db
      by (simp add: removePending_def)
    show ?thesis unfolding run ex by (cases "executor_answer answer") (simp_all add: rec rel rem)
  qed
  have gone: "env \<noteq> [] \<Longrightarrow> map_of v rid = None" by (simp add: v_def)
  show ?thesis
  proof (intro conjI exI impI)
    show "dd_calls w1 = dd_calls w" by (rule p(4))
    show "expandPreviewTemplate source (publish_input i env) = Inr req" by (rule p(1))
    show "dd_calls (snd (resolveAndExecute sha (demo_registry source now answer) xio rid who w1))
        = dd_calls w @ [DStart (req\<lparr> sp_env := if env = [] then None else Some env, sp_requestId := Some rid \<rparr>)]"
      using keep p(4) by (simp add: c_def)
    show "env \<noteq> [] \<Longrightarrow> map_of (dd_vault (snd (resolveAndExecute sha (demo_registry source now answer) xio rid who w1))) rid = None"
      using keep gone by simp
  qed
qed

definition sample_demo_db :: demo_db where
  "sample_demo_db = \<lparr> audit_log = [], audit_next_id = 1, audit_chain_lock = None, pending_approvals = [], events = [],
     autonomy_mode_state = None, feature_flag_hitl_overrides = [], dd_vault = [], dd_calls = [] \<rparr>"

definition sample_publish :: publish_io where
  "sample_publish = \<lparr> pb_uuid = ''rq'', pb_relax = \<lparr> rx_now = 1, rx_dbNow = 1, rx_write = \<lparr> w_now = 1, w_uuid = ''u'',
     w_audit = \<lparr> io_now = 1, io_fault = None \<rparr> \<rparr> \<rparr>, pb_vaultNow = 1, pb_createdAt = 1, pb_audit = \<lparr> io_now = 1, io_fault = None \<rparr> \<rparr>"

definition sample_exec :: exec_io where
  "sample_exec = \<lparr> x_approvalNow = 2, x_claimNow = 2, x_audit = \<lparr> io_now = 2, io_fault = None \<rparr>,
     x_failureAudit = \<lparr> io_now = 2, io_fault = None \<rparr>, x_removeFault = False \<rparr>"

definition sample_app :: PreviewServiceToolInput where
  "sample_app = sample_preview\<lparr> pi_envNames := None \<rparr>"

definition demo_modes :: AutonomyConfig where
  "demo_modes = \<lparr> ac_semiAuto = \<lparr> l_defaultHours = 1, l_maxHours = 2 \<rparr>, ac_auto = \<lparr> l_defaultHours = 1, l_maxHours = 2 \<rparr>,
     ac_maxRelaxedActionsPerHour = 5 \<rparr>"

definition demo_flags :: FeatureFlagsConfig where
  "demo_flags = \<lparr> ff_integrations = (\<lambda>_. True), ff_modelRouting = [], ff_hitlOverrides = [] \<rparr>"

lemma sample_decides:
  "decide sha demo_modes demo_flags ''rq'' (pb_relax sample_publish) PUBLISH_TOOL inputs sample_demo_db
   = (Inr \<lparr> d_requestId = ''rq'', d_toolName = PUBLISH_TOOL, d_level = Lconfirm, d_approvalsRequired = 1, d_notifyAfterExecution = False,
        d_relaxedBy = None \<rparr>, sample_demo_db)"
  by (simp add: decide_def classifyToolCall_def getToolDefinition_def TOOL_REGISTRY_BY_NAME_def registry_defs PUBLISH_TOOL_def resolveEffectiveLevel_def
      demo_flags_def relax_def getState_def sample_demo_db_def SAFE_STATE_def relaxDecision_def Let_def)

lemma published_values_arrive_witness:
  "\<exists>w1. publish (\<lambda>_. []) demo_modes demo_flags ''src'' Map.empty sample_publish sample_app [(''KEY'', ''v'')] sample_demo_db = (Inr (PublishPending ''rq''), w1)
     \<and> (\<exists>req. dd_calls (snd (resolveAndExecute (\<lambda>_. []) (demo_registry ''src'' 5 (HttpOk JNull)) sample_exec ''rq'' ''me'' w1))
         = [DStart (req\<lparr> sp_env := Some [(''KEY'', ''v'')], sp_requestId := Some ''rq'' \<rparr>)])"
proof -
  have input: "publish_input sample_app [(''KEY'', ''v'')] = sample_preview"
    by (simp add: publish_input_def sample_app_def sample_preview_def)
  have valid: "validateDemoEnv [(''KEY'', ''v'')] = []"
    by (simp add: validateDemoEnv_def MAX_ENV_VARS_def env_problems_def ENV_NAME_PATTERN_def is_upper_def isReservedEnvName_def
        RESERVED_NAMES_def RESERVED_PREFIXES_def byte_length_def MAX_ENV_VALUE_BYTES_def env_bytes_def MAX_ENV_TOTAL_BYTES_def)
  define d where "d = \<lparr> d_requestId = ''rq'', d_toolName = PUBLISH_TOOL, d_level = Lconfirm, d_approvalsRequired = 1,
        d_notifyAfterExecution = False, d_relaxedBy = None \<rparr>"
  define a where "a = publish_approval (\<lambda>_. []) d sample_preview [''KEY'']"
  let ?io = "\<lparr> io_now = 1, io_fault = None \<rparr>"
  have put: "put_env sample_publish ''rq'' [(''KEY'', ''v'')] sample_demo_db
      = (Inr (), sample_demo_db\<lparr> dd_vault := [(''rq'', \<lparr> ve_env = [(''KEY'', ''v'')], ve_expiresAt = 1 + VAULT_TTL_MS \<rparr>)] \<rparr>)" (is "_ = (Inr (), ?wb)")
    by (simp add: put_env_def vault_put_def vault_purge_def sample_demo_db_def sample_publish_def VAULT_MAX_ENTRIES_def)
  obtain w1 where c: "createPendingApproval (\<lambda>_. []) 1 ?io a ?wb = (Inr (), w1)"
    by (cases "createPendingApproval (\<lambda>_. []) 1 ?io a ?wb")
       (auto simp: createPendingApproval_def getPending_def recordToolCall_def appendRow_def isLocked_def sample_demo_db_def Let_def)
  have pub: "publish (\<lambda>_. []) demo_modes demo_flags ''src'' Map.empty sample_publish sample_app [(''KEY'', ''v'')] sample_demo_db
      = (Inr (PublishPending ''rq''), w1)"
    using c sample_decides [of "\<lambda>_. []" "Some (preview_json sample_preview)"] put sample_preview_expands valid
    by (simp add: publish_def input sample_publish_def decideAndRun_def a_def d_def)
  have wf: "hitl_wf sample_demo_db" by (simp add: hitl_wf_def sample_demo_db_def)
  have "pending_approvals w1 = [new_row a 1]" using create_result [OF c] by (simp add: sample_demo_db_def)
  then have "p_level (the (getPending ''rq'' w1)) = ''confirm''"
    by (simp add: getPending_def lookup_row_def new_row_def a_def d_def publish_approval_def)
  from published_values_arrive [OF pub wf this, of sample_exec 5 "HttpOk JNull" "''me''"]
  have "\<exists>req. dd_calls (snd (resolveAndExecute (\<lambda>_. []) (demo_registry ''src'' 5 (HttpOk JNull)) sample_exec ''rq'' ''me'' w1))
         = [DStart (req\<lparr> sp_env := Some [(''KEY'', ''v'')], sp_requestId := Some ''rq'' \<rparr>)]"
    by (auto simp: sample_app_def sample_exec_def sample_publish_def sample_demo_db_def VAULT_TTL_MS_def)
  then show ?thesis using pub by blast
qed

text \<open>The values are taken once: a second start of the same approval, as after an executor that failed, calls nothing and
  fails, however often the owner approves again.\<close>

lemma values_are_taken_once:
  assumes "preview_of_json payload = Some i" "env_names i \<noteq> []" "map_of (dd_vault w) rid = None"
  shows "dd_calls (snd (start_preview source now answer payload (Some rid) w)) = dd_calls w
    \<and> (\<exists>e. fst (start_preview source now answer payload (Some rid) w) = Inl e)"
proof (cases "expandPreviewTemplate source i")
  case (Inl m)
  then show ?thesis using assms by (simp add: start_preview_def)
next
  case (Inr req)
  obtain v where "(case given_id (Some rid) of None \<Rightarrow> (None, dd_vault w) | Some r \<Rightarrow> vault_take r now (dd_vault w)) = (None, v)"
    using assms(3) by (cases "rid = []") (simp_all add: given_id_def vault_take_def)
  then show ?thesis using assms Inr by (simp add: start_preview_def takeEnv_def)
qed

text \<open>When the audit row of the approval fails, the publication is refused and the values are discarded, but the row of the
  pending approval stays.\<close>

lemma refused_publication_leaves_its_approval:
  assumes "decide sha modes flags (pb_uuid io) (pb_relax io) PUBLISH_TOOL (Some (preview_json (publish_input i env))) w = (Inr d, w)"
    and "d_level d = Lconfirm" "validateDemoEnv env = []" "expandPreviewTemplate source (publish_input i env) = Inr req"
    and "put_env io (d_requestId d) env w = (Inr (), wb)" "getPending (d_requestId d) wb = None" "isLocked wb"
  shows "fst (publish sha modes flags source reg io i env w) = Inl AuditChainLockedError
    \<and> map_of (dd_vault (snd (publish sha modes flags source reg io i env w))) (d_requestId d) = None
    \<and> getPending (d_requestId d) (snd (publish sha modes flags source reg io i env w)) \<noteq> None"
proof -
  define a where "a = publish_approval sha d (publish_input i env) (map fst env)"
  have id: "c_requestId a = d_requestId d" by (simp add: a_def publish_approval_def)
  let ?w = "wb\<lparr>pending_approvals := pending_approvals wb @ [new_row a (pb_createdAt io)]\<rparr>"
  have c: "createPendingApproval sha (pb_createdAt io) (pb_audit io) a wb = (Inl AuditChainLockedError, ?w)"
    using assms(6,7) by (simp add: createPendingApproval_def recordToolCall_def appendRow_def isLocked_def id)
  have row: "getPending (d_requestId d) (?w\<lparr> dd_vault := v \<rparr>) \<noteq> None" for v
    by (simp add: getPending_def new_row_def id)
  have "decideAndRun sha reg io (publish_input i env) d (map fst env) wb = (Inl AuditChainLockedError, ?w)"
    using c assms(2) by (simp add: decideAndRun_def a_def)
  then have "publish sha modes flags source reg io i env w
      = (Inl AuditChainLockedError, ?w\<lparr> dd_vault := vault_discard (d_requestId d) (dd_vault wb) \<rparr>)"
    using assms(1,3,4,5) by (simp add: publish_def)
  then show ?thesis using row by (simp add: vault_discard_def)
qed
end
