(* ===== verification/Project_Snapshots.thy ===== *)
theory Project_Snapshots
  imports Preview_Template Feature_Flags
begin

text \<open>
  The copies of the owner's projects (\<open>src/project-snapshots/project-snapshots.service.ts\<close>,
  \<open>project-snapshots.store.ts\<close>): the table, the operations of the service with their audit rows, and what the table
  can hold after any of them. The rules of a copy are in \<open>Preview_Template\<close>.
\<close>

record ProjectSnapshotRow =
  ps_id :: uuid
  ps_name :: string
  ps_note :: "string option"
  ps_createdAt :: timestamp
  ps_fileCount :: nat
  ps_totalBytes :: nat
  ps_files :: "(string \<times> string) list"
  ps_config :: "SnapshotConfig option"

record snapshot_db = audit_db +
  project_snapshots :: "ProjectSnapshotRow list"

section \<open>The table\<close>

text \<open>The identifier and the time of a new row are drawn by the database.\<close>

record snapshot_io =
  si_id :: uuid
  si_now :: timestamp
  si_request :: uuid
  si_audit :: audit_io

definition store_insert :: "snapshot_io \<Rightarrow> CreateSnapshotInput \<Rightarrow> snapshot_db \<Rightarrow> (jin_error + ProjectSnapshotRow) \<times> snapshot_db" where
  "store_insert io v db =
     (let row = \<lparr> ps_id = si_id io, ps_name = cs_name v, ps_note = cs_note v, ps_createdAt = si_now io,
            ps_fileCount = length (cs_files v), ps_totalBytes = snapshotBytes (cs_files v), ps_files = cs_files v, ps_config = cs_config v \<rparr>
      in if lookup_row ps_id (project_snapshots db) (si_id io) \<noteq> None then (Inl (OtherError ''project_snapshots_pkey''), db)
         else (Inr row, db\<lparr> project_snapshots := project_snapshots db @ [row] \<rparr>))"

text \<open>A row without its files.\<close>

record SnapshotSummary =
  su_id :: uuid
  su_name :: string
  su_note :: "string option"
  su_createdAt :: timestamp
  su_fileCount :: nat
  su_totalBytes :: nat
  su_config :: "SnapshotConfig option"

definition snapshot_summary :: "ProjectSnapshotRow \<Rightarrow> SnapshotSummary" where
  "snapshot_summary r = \<lparr> su_id = ps_id r, su_name = ps_name r, su_note = ps_note r, su_createdAt = ps_createdAt r,
     su_fileCount = ps_fileCount r, su_totalBytes = ps_totalBytes r, su_config = ps_config r \<rparr>"

definition store_list :: "snapshot_db \<Rightarrow> SnapshotSummary list" where
  "store_list db = map snapshot_summary (rev (sort_key ps_createdAt (project_snapshots db)))"

definition store_get :: "uuid \<Rightarrow> snapshot_db \<Rightarrow> ProjectSnapshotRow option" where
  "store_get i db = lookup_row ps_id (project_snapshots db) i"

definition store_delete :: "uuid \<Rightarrow> snapshot_db \<Rightarrow> bool \<times> snapshot_db" where
  "store_delete i db =
     (list_ex (\<lambda>r. ps_id r = i) (project_snapshots db), db\<lparr> project_snapshots := delete_rows (\<lambda>r. ps_id r = i) (project_snapshots db) \<rparr>)"

definition store_count :: "snapshot_db \<Rightarrow> nat" where
  "store_count db = length (project_snapshots db)"

section \<open>The service\<close>

definition SNAPSHOT_ACTOR :: string where "SNAPSHOT_ACTOR = ''owner:api''"

definition snapshot_audit :: "(string \<Rightarrow> string) \<Rightarrow> snapshot_io \<Rightarrow> string \<Rightarrow> json \<Rightarrow> string \<Rightarrow> snapshot_db \<Rightarrow> (jin_error + unit) \<times> snapshot_db" where
  "snapshot_audit sha io tool inputs plan db =
     bind_result (recordToolCall sha (si_audit io) (si_request io) SNAPSHOT_ACTOR tool (computeInputsHash sha (Some inputs)) (Some plan)
         ''auto'' None db) (\<lambda>_ db1. (Inr (), db1))"

definition snapshot_create :: "(string \<Rightarrow> string) \<Rightarrow> string list \<Rightarrow> snapshot_io \<Rightarrow> CreateSnapshotInput \<Rightarrow> snapshot_db
    \<Rightarrow> (jin_error + ProjectSnapshotRow) \<times> snapshot_db" where
  "snapshot_create sha zodText io body db =
     (case CreateSnapshotSchema zodText body of
        Inl issues \<Rightarrow> (Inl (OtherError (join '' '' issues)), db)
      | Inr v \<Rightarrow>
          if store_count db \<ge> SNAPSHOT_MAX_COUNT
          then (Inl (OtherError (''Ya hay '' @ show_nat SNAPSHOT_MAX_COUNT @ '' respaldos: borra alguno antes de guardar otro.'')), db)
          else bind_result (store_insert io v db)
            (\<lambda>row db1. bind_result
               (snapshot_audit sha io ''saveProjectSnapshot''
                  (JObj [(''id'', JStr (ps_id row)), (''name'', JStr (cs_name v)), (''fileCount'', JNum (int (length (cs_files v)))),
                         (''totalBytes'', JNum (int (snapshotBytes (cs_files v))))])
                  ((''Respaldar el proyecto '' @ [CHR 0xAB]) @ cs_name v @ ([CHR 0xBB] @ '' ('') @ show_nat (length (cs_files v)) @ '' archivo''
                   @ (if length (cs_files v) = 1 then [] else ''s'') @ '', '' @ show_nat (snapshotBytes (cs_files v)) @ '' bytes)'') db1)
               (\<lambda>_ db2. (Inr row, db2))))"

definition snapshot_get :: "(string \<Rightarrow> string) \<Rightarrow> snapshot_io \<Rightarrow> uuid \<Rightarrow> snapshot_db \<Rightarrow> (jin_error + ProjectSnapshotRow) \<times> snapshot_db" where
  "snapshot_get sha io i db =
     (case store_get i db of
        None \<Rightarrow> (Inl (OtherError ''Respaldo no encontrado.''), db)
      | Some row \<Rightarrow>
          bind_result (snapshot_audit sha io ''restoreProjectSnapshot'' (JObj [(''id'', JStr i)])
              (''Restaurar el respaldo '' @ [CHR 0xAB] @ ps_name row @ [CHR 0xBB] @ '' al editor'') db)
            (\<lambda>_ db1. (Inr row, db1)))"

definition snapshot_delete :: "(string \<Rightarrow> string) \<Rightarrow> snapshot_io \<Rightarrow> uuid \<Rightarrow> snapshot_db \<Rightarrow> (jin_error + unit) \<times> snapshot_db" where
  "snapshot_delete sha io i db =
     (case store_get i db of
        None \<Rightarrow> (Inl (OtherError ''Respaldo no encontrado.''), db)
      | Some row \<Rightarrow>
          (case store_delete i db of
             (False, db1) \<Rightarrow> (Inl (OtherError ''Respaldo no encontrado.''), db1)
           | (True, db1) \<Rightarrow>
               snapshot_audit sha io ''deleteProjectSnapshot'' (JObj [(''id'', JStr i)]) (''Borrar el respaldo '' @ [CHR 0xAB] @ ps_name row @ [CHR 0xBB]) db1))"

section \<open>What the table can hold\<close>

definition snapshot_ok :: "ProjectSnapshotRow \<Rightarrow> bool" where
  "snapshot_ok r \<longleftrightarrow>
     ps_fileCount r = length (ps_files r) \<and> ps_totalBytes r = snapshotBytes (ps_files r)
     \<and> 0 < length (ps_files r) \<and> length (ps_files r) \<le> SNAPSHOT_MAX_FILES \<and> snapshotBytes (ps_files r) \<le> SNAPSHOT_MAX_TOTAL_BYTES
     \<and> list_all isSafePath (map fst (ps_files r)) \<and> findSecretFiles (ps_files r) = []"

definition snapshots_wf :: "snapshot_db \<Rightarrow> bool" where
  "snapshots_wf db \<longleftrightarrow> length (project_snapshots db) \<le> SNAPSHOT_MAX_COUNT \<and> distinct (map ps_id (project_snapshots db))
     \<and> list_all snapshot_ok (project_snapshots db)"

lemma snapshot_audit_rows [simp]: "project_snapshots (snd (snapshot_audit sha io tool inputs plan db)) = project_snapshots db"
  by (simp add: snapshot_audit_def recordToolCall_def appendRow_def Let_def bind_result_def split: option.split sum.split)

datatype snapshot_op = PsCreate snapshot_io CreateSnapshotInput | PsGet snapshot_io uuid | PsDelete snapshot_io uuid

fun run_snapshot :: "(string \<Rightarrow> string) \<Rightarrow> string list \<Rightarrow> snapshot_op \<Rightarrow> snapshot_db \<Rightarrow> snapshot_db" where
  "run_snapshot sha zodText (PsCreate io body) db = snd (snapshot_create sha zodText io body db)"
| "run_snapshot sha zodText (PsGet io i) db = snd (snapshot_get sha io i db)"
| "run_snapshot sha zodText (PsDelete io i) db = snd (snapshot_delete sha io i db)"

lemma create_rows:
  "project_snapshots (snd (snapshot_create sha zodText io body db)) = project_snapshots db
   \<or> (\<exists>row. project_snapshots (snd (snapshot_create sha zodText io body db)) = project_snapshots db @ [row]
        \<and> snapshot_ok row \<and> length (project_snapshots db) < SNAPSHOT_MAX_COUNT \<and> ps_id row \<notin> ps_id ` set (project_snapshots db))"
proof (cases "CreateSnapshotSchema zodText body")
  case (Inl e)
  then show ?thesis by (simp add: snapshot_create_def)
next
  case (Inr v)
  note ok = snapshot_accepted [OF Inr]
  show ?thesis
  proof (cases "store_count db \<ge> SNAPSHOT_MAX_COUNT \<or> lookup_row ps_id (project_snapshots db) (si_id io) \<noteq> None")
    case True
    then show ?thesis using Inr by (auto simp: snapshot_create_def store_insert_def Let_def simp del: lookup_row_None_iff)
  next
    case False
    define row where "row = \<lparr> ps_id = si_id io, ps_name = cs_name v, ps_note = cs_note v, ps_createdAt = si_now io,
            ps_fileCount = length (cs_files v), ps_totalBytes = snapshotBytes (cs_files v), ps_files = cs_files v, ps_config = cs_config v \<rparr>"
    have ins: "store_insert io v db = (Inr row, db\<lparr> project_snapshots := project_snapshots db @ [row] \<rparr>)"
      using False by (simp add: store_insert_def row_def Let_def)
    have "project_snapshots (snd (snapshot_create sha zodText io body db)) = project_snapshots db @ [row]"
      using False Inr ins snapshot_audit_rows
      by (simp add: snapshot_create_def)
    moreover have "snapshot_ok row" using ok by (elim conjE) (simp add: snapshot_ok_def row_def)
    ultimately show ?thesis using False by (auto simp: row_def store_count_def)
  qed
qed

text \<open>Whatever copies are asked for, read and deleted, and whatever the audit log does, the table keeps at most a hundred
  copies, each of one to fifty files within 256 KB, with safe relative paths, with no file that looks like a secret, and with
  the count and the size it is shown with.\<close>

theorem snapshots_stay_well_formed:
  assumes "snapshots_wf db"
  shows "snapshots_wf (fold (run_snapshot sha zodText) ops db)"
  using assms
proof (induction ops arbitrary: db)
  case (Cons op ops)
  have "snapshots_wf (run_snapshot sha zodText op db)"
  proof (cases op)
    case (PsCreate io body)
    then show ?thesis using Cons.prems create_rows [of sha zodText io body db] by (auto simp: snapshots_wf_def)
  next
    case (PsGet io i)
    have "project_snapshots (snd (snapshot_get sha io i db)) = project_snapshots db"
      by (simp add: snapshot_get_def split: option.split)
    then show ?thesis using PsGet Cons.prems by (simp add: snapshots_wf_def)
  next
    case (PsDelete io i)
    have "project_snapshots (snd (snapshot_delete sha io i db)) = project_snapshots db
        \<or> project_snapshots (snd (snapshot_delete sha io i db)) = filter (\<lambda>r. ps_id r \<noteq> i) (project_snapshots db)"
      by (cases "list_ex (\<lambda>r. ps_id r = i) (project_snapshots db)")
         (auto simp: snapshot_delete_def store_delete_def delete_rows_def split: option.split)
    then show ?thesis using PsDelete Cons.prems
      by (auto simp: snapshots_wf_def list_all_iff distinct_map_filter intro: order_trans [OF length_filter_le])
  qed
  then show ?case using Cons.IH by simp
qed simp

text \<open>A copy is deleted, and the owner is told of an error, when the audit log is locked.\<close>

lemma deleted_without_audit:
  assumes "store_get i db = Some row" "isLocked db"
  shows "fst (snapshot_delete sha io i db) = Inl AuditChainLockedError
    \<and> project_snapshots (snd (snapshot_delete sha io i db)) = filter (\<lambda>r. ps_id r \<noteq> i) (project_snapshots db)
    \<and> audit_log (snd (snapshot_delete sha io i db)) = audit_log db"
proof -
  have "list_ex (\<lambda>r. ps_id r = i) (project_snapshots db)"
    using assms(1) by (auto simp: store_get_def list_ex_iff dest: lookup_row_SomeD)
  moreover have "isLocked (db\<lparr> project_snapshots := x \<rparr>)" for x using assms(2) by (simp add: isLocked_def)
  ultimately show ?thesis using assms(1)
    by (simp add: snapshot_delete_def store_delete_def delete_rows_def snapshot_audit_def recordToolCall_def appendRow_def)
qed

end
