(* ===== verification/Spec2Isabelle.thy ===== *)
theory Spec2Isabelle
  imports Hitl_Interleaving Orchestrator Owner_Terminal Push Model_Vendors Telegram_Bot Relay_Bot Rate_Limit Demo_Publish Project_Snapshots
begin

text \<open>
  Verification library of Jin Core, the NestJS back end of a personal assistant whose language models act
  through tools under human approval. Paths below are under \<open>src/src/\<close> of the repository.

  \<^bold>\<open>The program.\<close> A chat turn (\<open>agent/\<close>) asks a language model, chosen and guarded by \<open>model-provider/\<close> and
  \<open>budget/\<close>, and runs the tool calls of its answer. The level of a call comes from the static registry
  (\<open>tools/\<close>), the owner's overrides (\<open>feature-flags/\<close>) and the autonomy mode (\<open>autonomy/\<close>), composed by
  \<open>hitl-policy/\<close>. A call that needs the owner becomes a pending approval (\<open>hitl/\<close>), shown with the external
  sources read so far (\<open>security/\<close>); approving it executes it, and everything is written to a hash-chained log
  (\<open>audit/\<close>). A large objective is split into tickets for several sub-agents over a ledger (\<open>agent/orchestrator*\<close>,
  \<open>agent/ledger*\<close>). The owner also has a terminal into a pod (\<open>terminal/\<close>), whose commands are audited before they
  run, notifications on the phone (\<open>push/\<close>), a Telegram bot with chat and
  approvals (\<open>telegram/\<close>), a bridge to a coding session that can approve nothing (\<open>relay/\<close>), and can publish demos in pods
  (\<open>executor-client/\<close>) and keep copies of their projects (\<open>project-snapshots/\<close>).

  \<^bold>\<open>Theories and sources.\<close>
  \<^item> \<open>Jin_Prelude\<close>: names of the basic types, results with a state, tables as lists of rows, lists in pieces.
    \<open>Js_Text\<close>, \<open>Js_Date\<close>, \<open>Js_Json\<close>, \<open>Js_Unicode\<close>, \<open>Js_Base64\<close>, \<open>Js_Number\<close>, \<open>Js_Regex\<close>: the part of the language and of its
    standard library that the code uses (printing, \<open>JSON\<close>, calendar, code points and UTF-8, \<open>Buffer\<close>, \<open>Number\<close>, regular expressions).
  \<^item> \<open>Jin_Errors\<close>: \<open>common/\<close>, \<open>terminal/terminal.errors.ts\<close>; one constructor for each error class, and the filter.
  \<^item> \<open>Tool_Registry\<close>: \<open>tools/registry.ts\<close>, \<open>hitl/types.ts\<close>, \<open>hitl/classifier.ts\<close>.
  \<^item> \<open>Audit_Chain\<close>: \<open>audit/\<close>. \<open>Hitl_Approvals\<close>, \<open>Hitl_Timeout\<close>, \<open>Hitl_Interleaving\<close>: \<open>hitl/\<close>, first each handler alone,
    then all of them interleaved step by step.
  \<^item> \<open>Autonomy\<close>: \<open>autonomy/\<close>. \<open>Feature_Flags\<close>: \<open>feature-flags/\<close>, \<open>hitl-policy/\<close>. \<open>Untrusted_Content\<close>: \<open>security/\<close>.
  \<^item> \<open>Model_Messages\<close>, \<open>Model_Router\<close>, \<open>Model_Vendors\<close>: \<open>model-provider/\<close>. \<open>Budget\<close>: \<open>budget/\<close>.
  \<^item> \<open>Agent_Turn\<close>: \<open>agent/agent.*\<close>, \<open>agent/history-compaction*\<close>. \<open>Ledger\<close>, \<open>Orchestrator\<close>: the multi-agent part of \<open>agent/\<close>.
  \<^item> \<open>Pty_Input\<close>, \<open>Redact_Secrets\<close>, \<open>Terminal_Pty\<close>, \<open>Owner_Terminal\<close>: \<open>terminal/\<close>. \<open>Push\<close>: \<open>push/\<close>.
  \<^item> \<open>Telegram_Format\<close>, \<open>Telegram_Session\<close>, \<open>Telegram_Bot\<close>: \<open>telegram/\<close>; first the converter of texts, then the sessions of the chat,
    then the commands, the buttons and the alerts. \<open>Relay\<close>, \<open>Relay_Bot\<close>: \<open>relay/\<close>.
  \<^item> \<open>Preview_Template\<close>, \<open>Demo_Publish\<close>: \<open>executor-client/\<close>. \<open>Project_Snapshots\<close>: \<open>project-snapshots/\<close>. \<open>Rate_Limit\<close>: \<open>rate-limit/\<close>.

  A class with a state is a record (a table is a list of rows, a \<open>Map\<close> a map), each method a function from the state to
  its result and the next state under its own name; a \<open>throw\<close> is the \<open>Inl\<close> of a sum. Clocks, random ids and what the
  database driver, a model vendor, Telegram, Apple or the executor of pods answer are arguments.

  \<^bold>\<open>How the parts meet.\<close> The state of a client extends the record of its provider: the approvals extend the audit tables,
  the policy extends the approvals, the turn, the owner's terminal and the bots extend these, so an operation of the provider acts on
  the client's state and its lemmas are used as they are. Where several operations share a contract it is a locale:
  \<open>claim_store\<close> (the claim of an approval, interpreted on the operations of \<open>pending_approvals\<close>), \<open>task_board\<close> (the
  tickets of a run, interpreted on the ledger); \<open>message_queue\<close> (what is given out was waiting and what is filed waits, interpreted on the bridge).

  \<^bold>\<open>What the lemmas show.\<close>
  \<^item> Approvals: at most one execution, only after what its level asks, of exactly what was shown, also when handlers interleave
    and die; expiry never approves; a broken or failing audit stops every execution. The log's chain is kept and tampering found.
  \<^item> Policy: no mode or flag relaxes without the owner, every relaxation ends, the emergency brake bounds it.
  \<^item> Models and budget: failover never mixes texts, a session stays within its limits, a runaway pauses everything.
  \<^item> Turns and runs: every turn ends, what a person must decide is never run by it, dependencies come first, the report is true.
  \<^item> Terminal: the line of the audit is the line typed, however the bytes are cut; no Enter without its row; tokens are hidden;
    an approved request is the call that is made.
  \<^item> Vendors: each is sent every call and result of the conversation, so changing the vendor loses nothing.
  \<^item> Messages: the phone shows what the ledger says; a text of a model cannot introduce a tag in a chat, and each message it is cut in
    fits; there is one bounded session; each message of the owner is read once, and a session writes to the owner at most thirty times an hour.
  \<^item> Demos: the values of the variables go nowhere but to the executor (the run with the values blanked out is the same run), and reach it as
    typed; copies of projects keep their bounds; no stretch of time lets more than twice the limit of requests through.

  \<^bold>\<open>Bounds and fuel.\<close> \<open>JSON_parse\<close> runs on fuel, two units for each character of the text and two more; \<open>parse_stringify\<close> shows that
  this is enough for every text the code writes. A turn recurses on its remaining iterations, the configured maximum, which is the
  bound of the loop in the code; \<open>runBatchesUntilDone\<close> likewise on the number of tickets, which every round decreases.
  A loop of a regular expression recurses on the length of the text, since a round that consumes nothing is not taken.
  The pump of a terminal runs over the list of the answers it gets. Integer columns keep their width (\<open>Budget\<close>), bytes are 8-bit words.

  \<^bold>\<open>What is simplified.\<close> Money, ratios and dates of Apple are exact rationals. JSON numbers are integers. A text is a list of
  Latin-1 characters where the code only compares and concatenates; characters beyond Latin-1 in fixed texts are written by their UTF-8
  bytes; where the code looks at characters (terminal, Telegram) it is a list of code points or UTF-16 units. The turn of a
  sub-agent and the processing of one chunk of keys are one step of their schedules. A failing driver is modelled for the audit, whose failures
  decide what runs, and for Redis, whose failures let a request pass; elsewhere a statement succeeds or breaks a key. Prose of prompts and descriptions of tools are arguments or left out.

  \<^bold>\<open>Not modelled.\<close> HTTP and WebSocket glue (controllers, gateways, guards other than the ones named, DTO schemas), the clients of
  outside services (\<open>integrations/\<close>, \<open>mcp/\<close>, \<open>terminal/terminal-executor.client.ts\<close>, the signing and the sockets of
  APNs), embeddings and their search (\<open>memory/\<close>, \<open>corpus/\<close>), \<open>auth/\<close>, \<open>health/\<close>, \<open>metrics/\<close>, loading of configuration (\<open>config/\<close> and the
  YAML readers), migrations, and the fixed phrases of \<open>security/golden-set/\<close>: they forward to the parts above or only do I/O.
\<close>

end
